(* ===== verification/CC_Prelude.thy ===== *)
theory CC_Prelude
  imports Main "HOL-Library.Word" "HOL-Library.Multiset"
begin

text \<open>
  Shared vocabulary of the development: the machine types of \<^verbatim>\<open>base/inc/data_types.h\<close>,
  C return codes, network byte order, and the behaviour of the two standard containers the
  components lean on, \<^verbatim>\<open>std::multimap\<close> (a list sorted by key, equal keys in insertion
  order) and iteration over a hash container (some permutation of its content).
\<close>

unbundle bit_operations_syntax

named_theorems cc_defs \<open>unfolding rules of the operations of a component\<close>
named_theorems cc_inv \<open>invariant preservation of the operations of a component\<close>

subsection \<open>Machine types and return codes\<close>

type_synonym u8 = "8 word"
type_synonym u16 = "16 word"
type_synonym u32 = "32 word"
type_synonym u64 = "64 word"
type_synonym bytes = "8 word list"

text \<open>\<^verbatim>\<open>time_t\<close> (a 64-bit count of seconds) and pointers that are only compared.\<close>

type_synonym time_t = int
type_synonym ptr = nat

text \<open>The \<^verbatim>\<open>int\<close> result of almost every operation: 0 is success, -1 failure.\<close>

abbreviation (input) RC_OK :: int where "RC_OK \<equiv> 0"
abbreviation (input) RC_ERR :: int where "RC_ERR \<equiv> - 1"

subsection \<open>Network byte order\<close>

text \<open>
  Storing \<^verbatim>\<open>htonl(x)\<close> through an \<^verbatim>\<open>int32_t*\<close> writes the four bytes of \<open>x\<close>
  most significant first, and \<^verbatim>\<open>ntohl(*(int32_t* ) p)\<close> reads them back.
\<close>

definition be32 :: "u32 \<Rightarrow> bytes" where
  "be32 w = [ucast (drop_bit 24 w), ucast (drop_bit 16 w), ucast (drop_bit 8 w), ucast w]"

definition of_be32 :: "u8 \<Rightarrow> u8 \<Rightarrow> u8 \<Rightarrow> u8 \<Rightarrow> u32" where
  "of_be32 a b c d =
     push_bit 24 (ucast a) OR push_bit 16 (ucast b) OR push_bit 8 (ucast c) OR ucast d"

text \<open>The first four bytes of a buffer as a word; shorter buffers have none.\<close>

fun rd32 :: "bytes \<Rightarrow> u32 option" where
  "rd32 (a # b # c # d # _) = Some (of_be32 a b c d)"
| "rd32 _ = None"

lemma length_be32 [simp]: "length (be32 w) = 4"
  by (simp add: be32_def)

lemma of_be32_be32:
  "of_be32 (ucast (drop_bit 24 w)) (ucast (drop_bit 16 w)) (ucast (drop_bit 8 w)) (ucast w) = w"
proof (rule bit_word_eqI)
  fix n assume n: "n < LENGTH(32)"
  consider "n < 8" | "8 \<le> n \<and> n < 16" | "16 \<le> n \<and> n < 24" | "24 \<le> n"
    by linarith
  then show "bit (of_be32 (ucast (drop_bit 24 w)) (ucast (drop_bit 16 w)) (ucast (drop_bit 8 w))
      (ucast w)) n = bit w n"
    using n by cases (auto simp: of_be32_def bit_simps)
qed

lemma rd32_be32 [simp]: "rd32 (be32 w @ xs) = Some w"
  by (simp add: be32_def of_be32_be32)

lemma rd32_Some_iff: "(\<exists>w. rd32 xs = Some w) \<longleftrightarrow> 4 \<le> length xs"
  by (cases xs rule: rd32.cases) auto

lemma rd32_append: "4 \<le> length xs \<Longrightarrow> rd32 (xs @ ys) = rd32 xs"
  by (cases xs rule: rd32.cases) auto

subsection \<open>Sets of pairs\<close>

lemma snd_image_iff: "k \<in> snd ` A \<longleftrightarrow> (\<exists>t. (t, k) \<in> A)"
  by force

lemma fst_image_iff: "k \<in> fst ` A \<longleftrightarrow> (\<exists>t. (k, t) \<in> A)"
  by force

subsection \<open>std::multimap keyed by time\<close>

text \<open>
  \<^verbatim>\<open>insert\<close> places the new entry behind every entry with a key not greater (C++11);
  \<^verbatim>\<open>equal_range\<close> followed by the search loop of the source erases the first entry of
  the range that holds the wanted value.
\<close>

fun mm_insert :: "'t::linorder \<Rightarrow> 'k \<Rightarrow> ('t \<times> 'k) list \<Rightarrow> ('t \<times> 'k) list" where
  "mm_insert t k [] = [(t, k)]"
| "mm_insert t k ((t', k') # xs) =
     (if t < t' then (t, k) # (t', k') # xs else (t', k') # mm_insert t k xs)"

fun mm_erase :: "'t::linorder \<Rightarrow> 'k \<Rightarrow> ('t \<times> 'k) list \<Rightarrow> ('t \<times> 'k) list" where
  "mm_erase t k [] = []"
| "mm_erase t k ((t', k') # xs) =
     (if t' = t \<and> k' = k then xs else (t', k') # mm_erase t k xs)"

lemma mset_mm_insert [simp]: "mset (mm_insert t k xs) = add_mset (t, k) (mset xs)"
  by (induction t k xs rule: mm_insert.induct) auto

lemma set_mm_insert [simp]: "set (mm_insert t k xs) = insert (t, k) (set xs)"
  by (induction t k xs rule: mm_insert.induct) auto

lemma sorted_mm_insert:
  "sorted (map fst xs) \<Longrightarrow> sorted (map fst (mm_insert t k xs))"
  by (induction t k xs rule: mm_insert.induct) auto

lemma distinct_mm_insert:
  "distinct (map snd xs) \<Longrightarrow> k \<notin> snd ` set xs \<Longrightarrow> distinct (map snd (mm_insert t k xs))"
  by (induction t k xs rule: mm_insert.induct) auto

lemma mset_mm_erase: "mset (mm_erase t k xs) = mset xs - {#(t, k)#}"
  by (induction t k xs rule: mm_erase.induct) auto

lemma set_mm_erase:
  "distinct (map snd xs) \<Longrightarrow> set (mm_erase t k xs) = set xs - {(t, k)}"
proof (induction t k xs rule: mm_erase.induct)
  case (2 t k t' k' xs)
  show ?case
  proof (cases "t' = t \<and> k' = k")
    case True
    with "2.prems" show ?thesis by (force simp: image_iff)
  next
    case False
    with 2 show ?thesis by auto
  qed
qed simp

lemma set_mm_erase_subset: "set (mm_erase t k xs) \<subseteq> set xs"
  by (induction t k xs rule: mm_erase.induct) auto

lemma sorted_mm_erase: "sorted (map fst xs) \<Longrightarrow> sorted (map fst (mm_erase t k xs))"
  by (induction t k xs rule: mm_erase.induct)
    (use set_mm_erase_subset in fastforce)+

lemma distinct_mm_erase: "distinct (map snd xs) \<Longrightarrow> distinct (map snd (mm_erase t k xs))"
  by (induction t k xs rule: mm_erase.induct)
    (use set_mm_erase_subset in fastforce)+

subsection \<open>Iteration over a hash container\<close>

text \<open>
  \<^verbatim>\<open>std::unordered_map\<close> promises no iteration order. A function that iterates over one
  takes the order as a parameter; all that may be assumed of it is this predicate.
\<close>

definition hash_order :: "('a list \<Rightarrow> 'a list) \<Rightarrow> bool" where
  "hash_order ord \<longleftrightarrow> (\<forall>xs. mset (ord xs) = mset xs)"

lemma hash_order_id: "hash_order (\<lambda>xs. xs)"
  by (simp add: hash_order_def)

lemma hash_order_rev: "hash_order rev"
  by (simp add: hash_order_def)

lemma hash_order_set: "hash_order ord \<Longrightarrow> set (ord xs) = set xs"
  unfolding hash_order_def by (metis set_mset_mset)

lemma hash_order_distinct: "hash_order ord \<Longrightarrow> distinct (ord xs) = distinct xs"
  unfolding hash_order_def by (metis mset_eq_imp_distinct_iff)

end
