(* ===== verification/Seq_Num.thy ===== *)
theory Seq_Num
  imports CC_Prelude
begin

text \<open>
  The self-incrementing sequence numbers of \<^verbatim>\<open>base/inc/seq_num.h\<close>: the class template
  \<^verbatim>\<open>SeqNum<T, seq_min, seq_max>\<close>, from which transaction ids (\<^verbatim>\<open>TransIDSeq\<close>) and
  connection ids (\<^verbatim>\<open>ConnIDSeq\<close>) are drawn. The two template arguments are the first two
  arguments of every operation. The values of \<open>T\<close> are kept as integers; that they stay
  within \<open>0 .. seq_max\<close>, so that neither an \<^verbatim>\<open>int\<close> nor an \<^verbatim>\<open>unsigned int\<close>
  instance ever wraps, is part of the invariant \<open>seq_inv\<close>.
\<close>

subsection \<open>State and operations\<close>

record seq_num =
  total_count :: int
  cursor :: int
  inuse_seqs :: "int set"

datatype seq_num_exception = Invalid_Params int int

abbreviation (input) INVALID_SEQ_NUM :: int where
  "INVALID_SEQ_NUM \<equiv> 0"

definition seq_reset :: "int \<Rightarrow> int \<Rightarrow> seq_num" where
  "seq_reset seq_min seq_max =
     \<lparr>total_count = seq_max - seq_min + 1, cursor = seq_min - 1, inuse_seqs = {}\<rparr>"

text \<open>The constructor throws on template arguments that leave no room.\<close>

definition seq_ctor :: "int \<Rightarrow> int \<Rightarrow> seq_num_exception + seq_num" where
  "seq_ctor seq_min seq_max =
     (if seq_min < 1 \<or> seq_max \<le> seq_min then Inl (Invalid_Params seq_min seq_max)
      else Inr (seq_reset seq_min seq_max))"

text \<open>One turn of the cursor.\<close>

definition seq_next :: "int \<Rightarrow> int \<Rightarrow> int \<Rightarrow> int" where
  "seq_next seq_min seq_max c = (if c < seq_max then c + 1 else seq_min)"

text \<open>
  The \<^verbatim>\<open>while (true)\<close> of \<^verbatim>\<open>Alloc\<close>: it leaves only when the insertion into the set of
  numbers in use succeeds. Not returning is the value \<open>None\<close>.
\<close>

partial_function (option) alloc_loop ::
  "int \<Rightarrow> int \<Rightarrow> int \<Rightarrow> int set \<Rightarrow> (int \<times> int set) option" where
  "alloc_loop seq_min seq_max c used =
     (let c' = seq_next seq_min seq_max c in
      if c' \<in> used then alloc_loop seq_min seq_max c' used else Some (c', insert c' used))"

definition seq_alloc :: "int \<Rightarrow> int \<Rightarrow> seq_num \<Rightarrow> (int \<times> seq_num) option" where
  "seq_alloc seq_min seq_max s =
     (if int (card (inuse_seqs s)) = total_count s then Some (INVALID_SEQ_NUM, s)
      else (case alloc_loop seq_min seq_max (cursor s) (inuse_seqs s) of
              None \<Rightarrow> None
            | Some (c, used) \<Rightarrow> Some (c, s\<lparr>cursor := c, inuse_seqs := used\<rparr>)))"

definition seq_free :: "seq_num \<Rightarrow> int \<Rightarrow> seq_num" where
  "seq_free s seq =
     (if seq \<in> inuse_seqs s then s\<lparr>inuse_seqs := inuse_seqs s - {seq}\<rparr> else s)"

text \<open>\<^verbatim>\<open>I32SeqNum\<close> and \<^verbatim>\<open>U32SeqNum\<close>.\<close>

abbreviation (input) I32_SEQ_MAX :: int where "I32_SEQ_MAX \<equiv> 0x7fffffff"
abbreviation (input) U32_SEQ_MAX :: int where "U32_SEQ_MAX \<equiv> 0xffffffff"

subsection \<open>Invariant\<close>

definition seq_inv :: "int \<Rightarrow> int \<Rightarrow> seq_num \<Rightarrow> bool" where
  "seq_inv seq_min seq_max s \<longleftrightarrow>
     1 \<le> seq_min \<and> seq_min < seq_max \<and>
     total_count s = seq_max - seq_min + 1 \<and>
     seq_min - 1 \<le> cursor s \<and> cursor s \<le> seq_max \<and>
     inuse_seqs s \<subseteq> {seq_min..seq_max}"

lemma seq_inv_finite: "seq_inv mn mx s \<Longrightarrow> finite (inuse_seqs s)"
  unfolding seq_inv_def by (meson finite_atLeastAtMost_int finite_subset)

lemma seq_inv_reset: "1 \<le> mn \<Longrightarrow> mn < mx \<Longrightarrow> seq_inv mn mx (seq_reset mn mx)"
  by (simp add: seq_inv_def seq_reset_def)

lemma seq_inv_free [cc_inv]: "seq_inv mn mx s \<Longrightarrow> seq_inv mn mx (seq_free s i)"
  by (auto simp: seq_inv_def seq_free_def)

lemma inuse_seq_free [simp]: "inuse_seqs (seq_free s i) = inuse_seqs s - {i}"
  by (simp add: seq_free_def)

subsection \<open>The allocation loop\<close>

text \<open>
  Distance from the cursor, counted around the cycle: the number of turns until the cursor
  shows \<open>i\<close>.
\<close>

definition seq_dist :: "int \<Rightarrow> int \<Rightarrow> int \<Rightarrow> int \<Rightarrow> int" where
  "seq_dist mn mx c i = (if c < i then i - c else (mx - c) + (i - mn) + 1)"

lemma seq_dist_next:
  assumes "mn \<le> i" "i \<le> mx" "mn - 1 \<le> c" "c \<le> mx" "i \<noteq> seq_next mn mx c"
  shows "seq_dist mn mx (seq_next mn mx c) i = seq_dist mn mx c i - 1"
  using assms by (auto simp: seq_dist_def seq_next_def split: if_splits)

lemma seq_dist_pos:
  "mn \<le> i \<Longrightarrow> i \<le> mx \<Longrightarrow> c \<le> mx \<Longrightarrow> 1 \<le> seq_dist mn mx c i"
  by (auto simp: seq_dist_def)

lemma seq_next_range: "mn \<le> mx \<Longrightarrow> mn - 1 \<le> c \<Longrightarrow> c \<le> mx \<Longrightarrow>
    mn \<le> seq_next mn mx c \<and> seq_next mn mx c \<le> mx"
  by (auto simp: seq_next_def)

text \<open>
  The loop returns the free number at the least distance, by induction on the distance to
  some free number.
\<close>

lemma alloc_loop_nearest:
  assumes "mn \<le> f" "f \<le> mx" "f \<notin> used" "mn - 1 \<le> c" "c \<le> mx"
  shows "\<exists>i. alloc_loop mn mx c used = Some (i, insert i used) \<and>
     mn \<le> i \<and> i \<le> mx \<and> i \<notin> used \<and>
     (\<forall>j. mn \<le> j \<and> j \<le> mx \<and> j \<notin> used \<longrightarrow> seq_dist mn mx c i \<le> seq_dist mn mx c j)"
  using assms(4,5)
proof (induction "nat (seq_dist mn mx c f)" arbitrary: c rule: less_induct)
  case less
  define c' where "c' = seq_next mn mx c"
  have c': "mn \<le> c'" "c' \<le> mx"
    using seq_next_range[of mn mx c] assms less.prems by (auto simp: c'_def)
  show ?case
  proof (cases "c' \<in> used")
    case False
    have "seq_dist mn mx c c' = 1"
      using less.prems assms(1,2) by (auto simp: seq_dist_def c'_def seq_next_def)
    moreover have "alloc_loop mn mx c used = Some (c', insert c' used)"
      using False by (simp add: alloc_loop.simps[of mn mx c] c'_def Let_def)
    ultimately show ?thesis
      using c' False seq_dist_pos less.prems(2) by auto
  next
    case True
    have step: "seq_dist mn mx c' j = seq_dist mn mx c j - 1"
      if "mn \<le> j" "j \<le> mx" "j \<notin> used" for j
      using that True less.prems unfolding c'_def by (intro seq_dist_next) auto
    have "nat (seq_dist mn mx c' f) < nat (seq_dist mn mx c f)"
      using step[of f] seq_dist_pos[of mn f mx c] assms less.prems by simp
    from less.hyps[OF this] c' obtain i where
      i: "alloc_loop mn mx c' used = Some (i, insert i used)" "mn \<le> i" "i \<le> mx" "i \<notin> used"
        "\<forall>j. mn \<le> j \<and> j \<le> mx \<and> j \<notin> used \<longrightarrow> seq_dist mn mx c' i \<le> seq_dist mn mx c' j"
      by auto
    have "alloc_loop mn mx c used = alloc_loop mn mx c' used"
      using True by (simp add: alloc_loop.simps[of mn mx c] c'_def Let_def)
    moreover have "seq_dist mn mx c i \<le> seq_dist mn mx c j"
      if "mn \<le> j" "j \<le> mx" "j \<notin> used" for j
      using i(5) that step[OF that] step[OF i(2-4)] by fastforce
    ultimately show ?thesis using i by auto
  qed
qed

lemma seq_full_iff:
  assumes "seq_inv mn mx s"
  shows "int (card (inuse_seqs s)) = total_count s \<longleftrightarrow> inuse_seqs s = {mn..mx}"
proof -
  have "card {mn..mx} = nat (mx - mn + 1)" by simp
  then show ?thesis
    using assms card_subset_eq[of "{mn..mx}" "inuse_seqs s"]
    by (auto simp: seq_inv_def)
qed

text \<open>The two outcomes of \<^verbatim>\<open>Alloc\<close>; under the invariant there is no third.\<close>

lemma seq_alloc_full:
  "seq_inv mn mx s \<Longrightarrow> inuse_seqs s = {mn..mx} \<Longrightarrow> seq_alloc mn mx s = Some (INVALID_SEQ_NUM, s)"
  using seq_full_iff[of mn mx s] by (simp only: seq_alloc_def) simp

lemma seq_alloc_free_slot:
  assumes inv: "seq_inv mn mx s" and nf: "inuse_seqs s \<noteq> {mn..mx}"
  shows "\<exists>i. seq_alloc mn mx s = Some (i, s\<lparr>cursor := i, inuse_seqs := insert i (inuse_seqs s)\<rparr>)
    \<and> mn \<le> i \<and> i \<le> mx \<and> i \<notin> inuse_seqs s
    \<and> (\<forall>j. mn \<le> j \<and> j \<le> mx \<and> j \<notin> inuse_seqs s \<longrightarrow>
           seq_dist mn mx (cursor s) i \<le> seq_dist mn mx (cursor s) j)"
proof -
  from inv have "inuse_seqs s \<subseteq> {mn..mx}" by (simp add: seq_inv_def)
  with nf obtain f where "mn \<le> f" "f \<le> mx" "f \<notin> inuse_seqs s"
    by (metis atLeastAtMost_iff psubsetE psubsetI subsetI)
  moreover have "mn - 1 \<le> cursor s" "cursor s \<le> mx"
    using inv by (auto simp: seq_inv_def)
  ultimately show ?thesis
    using alloc_loop_nearest[of mn f mx "inuse_seqs s" "cursor s"] seq_full_iff[OF inv] nf
    by (auto simp: seq_alloc_def)
qed

lemma seq_alloc_cases:
  assumes "seq_inv mn mx s"
  obtains (full) "inuse_seqs s = {mn..mx}" "seq_alloc mn mx s = Some (INVALID_SEQ_NUM, s)"
  | (fresh) i where "mn \<le> i" "i \<le> mx" "i \<notin> inuse_seqs s"
      "seq_alloc mn mx s = Some (i, s\<lparr>cursor := i, inuse_seqs := insert i (inuse_seqs s)\<rparr>)"
  using seq_alloc_full[OF assms] seq_alloc_free_slot[OF assms] by blast

lemma seq_inv_alloc [cc_inv]:
  assumes inv: "seq_inv mn mx s" and al: "seq_alloc mn mx s = Some (i, s')"
  shows "seq_inv mn mx s'"
  using inv al by (cases rule: seq_alloc_cases[OF inv]) (auto simp: seq_inv_def)

subsection \<open>The interface its clients rely on\<close>

text \<open>
  The transaction center and the connection center draw their ids from an allocator and need
  only this of it: a fixed pool of ids, an allocation that always returns, with a fresh id
  or, when every id is live, with the null id, and a release that ends exactly one id.
\<close>

locale id_allocator =
  fixes alloc :: "'s \<Rightarrow> (int \<times> 's) option"
    and free :: "'s \<Rightarrow> int \<Rightarrow> 's"
    and live :: "'s \<Rightarrow> int set"
    and inv :: "'s \<Rightarrow> bool"
    and pool :: "int set"
    and null :: int
  assumes alloc_returns: "inv s \<Longrightarrow> \<exists>r. alloc s = Some r"
    and alloc_exhausted: "inv s \<Longrightarrow> alloc s = Some (null, s') \<Longrightarrow> live s = pool \<and> s' = s"
    and alloc_fresh: "inv s \<Longrightarrow> alloc s = Some (i, s') \<Longrightarrow> i \<noteq> null \<Longrightarrow>
          i \<in> pool \<and> i \<notin> live s \<and> live s' = insert i (live s)"
    and inv_alloc: "inv s \<Longrightarrow> alloc s = Some (i, s') \<Longrightarrow> inv s'"
    and live_free: "inv s \<Longrightarrow> live (free s i) = live s - {i}"
    and inv_free: "inv s \<Longrightarrow> inv (free s i)"
    and live_in_pool: "inv s \<Longrightarrow> live s \<subseteq> pool"
    and null_notin_pool: "inv s \<Longrightarrow> null \<notin> pool"
begin

lemma null_not_live: "inv s \<Longrightarrow> null \<notin> live s"
  using live_in_pool null_notin_pool by blast

lemma alloc_succeeds:
  assumes "inv s" "live s \<noteq> pool"
  shows "\<exists>i s'. alloc s = Some (i, s') \<and> i \<noteq> null"
  using assms alloc_returns alloc_exhausted by (metis surj_pair)

lemma free_after_alloc:
  assumes "inv s" "alloc s = Some (i, s')" "i \<noteq> null"
  shows "live (free s' i) = live s"
  using alloc_fresh[OF assms] live_free inv_alloc[OF assms(1,2)] by auto

lemma alloc_distinct_from_live:
  assumes "inv s" "alloc s = Some (i, s')" "j \<in> live s"
  shows "i \<noteq> j"
  using assms alloc_fresh null_not_live by metis

end

interpretation sq: id_allocator "seq_alloc mn mx" seq_free inuse_seqs "seq_inv mn mx"
  "{mn..mx}" INVALID_SEQ_NUM
  for mn mx
proof (unfold_locales, goal_cases)
  case (1 s)
  then show ?case by (cases rule: seq_alloc_cases) auto
next
  case (2 s s')
  then show ?case by (cases rule: seq_alloc_cases[OF 2(1)]) (auto simp: seq_inv_def)
next
  case (3 s i s')
  then show ?case by (cases rule: seq_alloc_cases[OF 3(1)]) auto
next
  case (4 s i s')
  then show ?case by (rule seq_inv_alloc)
next
  case (5 s i)
  then show ?case by simp
next
  case (6 s i)
  then show ?case by (rule seq_inv_free)
next
  case (7 s)
  then show ?case by (simp add: seq_inv_def)
next
  case (8 s)
  then show ?case by (simp add: seq_inv_def)
qed

subsection \<open>Reachable states\<close>

inductive seq_reach :: "int \<Rightarrow> int \<Rightarrow> seq_num \<Rightarrow> bool" for seq_min seq_max where
  seq_start: "seq_ctor seq_min seq_max = Inr s \<Longrightarrow> seq_reach seq_min seq_max s"
| seq_take: "seq_reach seq_min seq_max s \<Longrightarrow> seq_alloc seq_min seq_max s = Some (i, s') \<Longrightarrow>
    seq_reach seq_min seq_max s'"
| seq_give: "seq_reach seq_min seq_max s \<Longrightarrow> seq_reach seq_min seq_max (seq_free s i)"

lemma seq_reach_inv: "seq_reach mn mx s \<Longrightarrow> seq_inv mn mx s"
proof (induction rule: seq_reach.induct)
  case (seq_start s)
  then show ?case by (auto simp: seq_ctor_def seq_inv_reset split: if_splits)
qed (auto intro: cc_inv)

subsection \<open>Properties\<close>

text \<open>
  Alloc always returns. When every number of the range is in use it returns
  INVALID_SEQ_NUM and changes nothing; otherwise it returns the free number nearest to the
  cursor in the direction of travel (wrapping from seq_max to seq_min), moves the cursor there
  and marks exactly that number as in use.
\<close>

theorem seq_alloc_correct:
  assumes "seq_inv seq_min seq_max s"
  shows "(inuse_seqs s = {seq_min..seq_max} \<and> seq_alloc seq_min seq_max s = Some (INVALID_SEQ_NUM, s)) \<or>
    (\<exists>i. seq_alloc seq_min seq_max s = Some (i, s\<lparr>cursor := i, inuse_seqs := insert i (inuse_seqs s)\<rparr>) \<and>
       seq_min \<le> i \<and> i \<le> seq_max \<and> i \<notin> inuse_seqs s \<and>
       (\<forall>j. seq_min \<le> j \<and> j \<le> seq_max \<and> j \<notin> inuse_seqs s \<longrightarrow>
          seq_dist seq_min seq_max (cursor s) i \<le> seq_dist seq_min seq_max (cursor s) j))"
  using seq_alloc_full[OF assms] seq_alloc_free_slot[OF assms] by blast

theorem seq_alloc_correct_witness:
  "seq_alloc 1 4 \<lparr>total_count = 4, cursor = 3, inuse_seqs = {1, 4}\<rparr> =
     Some (2, \<lparr>total_count = 4, cursor = 2, inuse_seqs = {1, 2, 4}\<rparr>)"
proof -
  let ?s = "\<lparr>total_count = 4, cursor = 3, inuse_seqs = {1, 4}\<rparr>"
  have "seq_inv 1 4 ?s" by (simp add: seq_inv_def)
  from seq_alloc_correct[OF this] obtain i where
    i: "seq_alloc 1 4 ?s = Some (i, ?s\<lparr>cursor := i, inuse_seqs := insert i {1, 4}\<rparr>)"
      "1 \<le> i" "i \<le> 4" "i \<notin> {1, 4}" "seq_dist 1 4 3 i \<le> seq_dist 1 4 3 2"
    by (auto simp: set_eq_iff dest!: spec[of _ 2])
  from i(2-5) have "i = 2" by (auto simp: seq_dist_def split: if_splits)
  with i(1) show ?thesis by (simp add: insert_commute)
qed

text \<open>
  Claim C40: the 32-bit signed instance, from which transaction ids and connection ids come. In every state
  that Alloc and Free can lead to, Alloc returns. When all of the numbers from 1 to 0x7fffffff are held it returns 0
  and changes nothing; otherwise it returns the free number nearest to the cursor, going round, moves the cursor
  there, and from then on exactly this number is held in addition. Free ends the hold of exactly its number and
  changes nothing else, so that the number can be given out again: it is the next one when all others are held.
  The cursor never leaves the range, so no arithmetic on it overflows.
\<close>

theorem i32_seq_num_safe:
  assumes "seq_reach 1 I32_SEQ_MAX s"
  shows "0 \<le> cursor s \<and> cursor s \<le> I32_SEQ_MAX \<and>
    (\<exists>i s'. seq_alloc 1 I32_SEQ_MAX s = Some (i, s') \<and>
       (if inuse_seqs s = {1..I32_SEQ_MAX} then i = INVALID_SEQ_NUM \<and> s' = s
        else 1 \<le> i \<and> i \<le> I32_SEQ_MAX \<and> i \<notin> inuse_seqs s \<and> inuse_seqs s' = insert i (inuse_seqs s) \<and> cursor s' = i \<and>
          (\<forall>j \<in> {1..I32_SEQ_MAX} - inuse_seqs s. seq_dist 1 I32_SEQ_MAX (cursor s) i \<le> seq_dist 1 I32_SEQ_MAX (cursor s) j))) \<and>
    (\<forall>i. inuse_seqs (seq_free s i) = inuse_seqs s - {i} \<and> cursor (seq_free s i) = cursor s) \<and>
    (\<forall>i \<in> {1..I32_SEQ_MAX}. inuse_seqs s = {1..I32_SEQ_MAX} \<longrightarrow> (\<exists>s'. seq_alloc 1 I32_SEQ_MAX (seq_free s i) = Some (i, s')))"
proof (intro conjI)
  have inv: "seq_inv 1 I32_SEQ_MAX s" using assms by (rule seq_reach_inv)
  then show "0 \<le> cursor s" "cursor s \<le> I32_SEQ_MAX" by (simp_all add: seq_inv_def)
  show "\<exists>i s'. seq_alloc 1 I32_SEQ_MAX s = Some (i, s') \<and>
       (if inuse_seqs s = {1..I32_SEQ_MAX} then i = INVALID_SEQ_NUM \<and> s' = s
        else 1 \<le> i \<and> i \<le> I32_SEQ_MAX \<and> i \<notin> inuse_seqs s \<and> inuse_seqs s' = insert i (inuse_seqs s) \<and> cursor s' = i \<and>
          (\<forall>j \<in> {1..I32_SEQ_MAX} - inuse_seqs s. seq_dist 1 I32_SEQ_MAX (cursor s) i \<le> seq_dist 1 I32_SEQ_MAX (cursor s) j))"
  proof (cases "inuse_seqs s = {1..I32_SEQ_MAX}")
    case True
    with seq_alloc_full[OF inv] show ?thesis by simp
  next
    case False
    from seq_alloc_free_slot[OF inv False] obtain i where
      i: "seq_alloc 1 I32_SEQ_MAX s = Some (i, s\<lparr>cursor := i, inuse_seqs := insert i (inuse_seqs s)\<rparr>)"
        "1 \<le> i" "i \<le> I32_SEQ_MAX" "i \<notin> inuse_seqs s"
        "\<forall>j. 1 \<le> j \<and> j \<le> I32_SEQ_MAX \<and> j \<notin> inuse_seqs s \<longrightarrow>
          seq_dist 1 I32_SEQ_MAX (cursor s) i \<le> seq_dist 1 I32_SEQ_MAX (cursor s) j"
      by blast
    then have "\<forall>j \<in> {1..I32_SEQ_MAX} - inuse_seqs s. seq_dist 1 I32_SEQ_MAX (cursor s) i \<le> seq_dist 1 I32_SEQ_MAX (cursor s) j"
      by (metis Diff_iff atLeastAtMost_iff)
    note nearest = this
    let ?s = "s\<lparr>cursor := i, inuse_seqs := insert i (inuse_seqs s)\<rparr>"
    have "inuse_seqs ?s = insert i (inuse_seqs s)" "cursor ?s = i" by simp_all
    with i(2-4) nearest False
    have "(if inuse_seqs s = {1..I32_SEQ_MAX} then i = INVALID_SEQ_NUM \<and> ?s = s
        else 1 \<le> i \<and> i \<le> I32_SEQ_MAX \<and> i \<notin> inuse_seqs s \<and> inuse_seqs ?s = insert i (inuse_seqs s) \<and> cursor ?s = i \<and>
          (\<forall>j \<in> {1..I32_SEQ_MAX} - inuse_seqs s. seq_dist 1 I32_SEQ_MAX (cursor s) i \<le> seq_dist 1 I32_SEQ_MAX (cursor s) j))"
      by (simp only: if_False simp_thms)
    with i(1) show ?thesis by blast
  qed
  show "\<forall>i. inuse_seqs (seq_free s i) = inuse_seqs s - {i} \<and> cursor (seq_free s i) = cursor s"
    by (simp add: seq_free_def)
  show "\<forall>i \<in> {1..I32_SEQ_MAX}. inuse_seqs s = {1..I32_SEQ_MAX} \<longrightarrow> (\<exists>s'. seq_alloc 1 I32_SEQ_MAX (seq_free s i) = Some (i, s'))"
  proof (intro ballI impI)
    fix i assume i: "i \<in> {1..I32_SEQ_MAX}" and all: "inuse_seqs s = {1..I32_SEQ_MAX}"
    have live: "inuse_seqs (seq_free s i) = {1..I32_SEQ_MAX} - {i}" by (simp only: inuse_seq_free all)
    with i have "inuse_seqs (seq_free s i) \<noteq> {1..I32_SEQ_MAX}" by blast
    from sq.alloc_succeeds[OF seq_inv_free[OF inv] this] obtain j s' where
      j: "seq_alloc 1 I32_SEQ_MAX (seq_free s i) = Some (j, s')" "j \<noteq> INVALID_SEQ_NUM" by blast
    from sq.alloc_fresh[OF seq_inv_free[OF inv] j] live have "j = i" by blast
    with j(1) show "\<exists>s'. seq_alloc 1 I32_SEQ_MAX (seq_free s i) = Some (i, s')" by blast
  qed
qed

theorem i32_seq_num_safe_witness:
  "\<exists>i s'. seq_alloc 1 I32_SEQ_MAX (seq_reset 1 I32_SEQ_MAX) = Some (i, s') \<and> 1 \<le> i \<and> inuse_seqs s' = {i}"
proof -
  have "seq_reach 1 I32_SEQ_MAX (seq_reset 1 I32_SEQ_MAX)"
    by (rule seq_start) (simp add: seq_ctor_def)
  from i32_seq_num_safe[OF this] obtain i s' where
    "seq_alloc 1 I32_SEQ_MAX (seq_reset 1 I32_SEQ_MAX) = Some (i, s')"
    "if inuse_seqs (seq_reset 1 I32_SEQ_MAX) = {1..I32_SEQ_MAX} then i = INVALID_SEQ_NUM \<and> s' = seq_reset 1 I32_SEQ_MAX
     else 1 \<le> i \<and> i \<le> I32_SEQ_MAX \<and> i \<notin> inuse_seqs (seq_reset 1 I32_SEQ_MAX) \<and>
       inuse_seqs s' = insert i (inuse_seqs (seq_reset 1 I32_SEQ_MAX)) \<and> cursor s' = i \<and>
       (\<forall>j \<in> {1..I32_SEQ_MAX} - inuse_seqs (seq_reset 1 I32_SEQ_MAX).
          seq_dist 1 I32_SEQ_MAX (cursor (seq_reset 1 I32_SEQ_MAX)) i \<le> seq_dist 1 I32_SEQ_MAX (cursor (seq_reset 1 I32_SEQ_MAX)) j)"
    by blast
  moreover have "inuse_seqs (seq_reset 1 I32_SEQ_MAX) = {}" by (simp add: seq_reset_def)
  moreover have "{} \<noteq> {1..I32_SEQ_MAX}" by simp
  ultimately show ?thesis by (metis (no_types))
qed

end
