(* ===== verification/Timer_Axis.thy ===== *)
theory Timer_Axis
  imports CC_Prelude
begin

text \<open>
  The timer axis of \<^verbatim>\<open>timer_axis/src/timer_axis.h\<close> and \<^verbatim>\<open>timer_axis.cpp\<close>: the
  timers of one thread, keyed by sink object and timer id, each carried by one persistent
  libevent event and one heap-allocated callback argument.

  libevent is not part of the repository. Whether one of its calls succeeds is an argument
  (\<open>ev_outcome\<close>) of the operation that makes the call; of its documented behaviour the
  model uses that \<^verbatim>\<open>event_add\<close> makes an event pending, \<^verbatim>\<open>event_del\<close> makes it not
  pending, and that a persistent event stays pending when it fires. What a sink does inside
  its callback is an argument as well: the list of timer operations it issues.
\<close>

subsection \<open>State\<close>

type_synonym timer_key = "ptr \<times> int"
type_synonym timeval = "int \<times> int"

text \<open>
  The asynchronous data of a timer: none, a plain object pointer, or an owned copy.
  The \<^verbatim>\<open>void*\<close> argument of \<^verbatim>\<open>SetTimer\<close> is a pointer (0 is \<^verbatim>\<open>nullptr\<close>) with
  the memory behind it.
\<close>

datatype async_data = No_Data | Obj_Ptr ptr | Owned bytes
type_synonym void_ptr = "ptr \<times> bytes"

text \<open>
  \<open>t_event\<close> is the libevent event: \<open>None\<close> for \<^verbatim>\<open>nullptr\<close>, otherwise the interval
  with which it is pending, if it is.
\<close>

record timer =
  t_key :: timer_key
  t_event :: "timeval option option"
  t_data :: async_data
  t_len :: nat
  t_total_times :: int
  t_times :: int
  t_removed :: bool

definition timer_init :: timer where
  "timer_init = \<lparr>t_key = (0, 0), t_event = None, t_data = No_Data, t_len = 0,
     t_total_times = - 1, t_times = 0, t_removed = False\<rparr>"

record ev_outcome =
  event_new_ok :: bool
  event_add_ok :: bool
  event_del_ok :: bool

definition ev_ok :: ev_outcome where
  "ev_ok = \<lparr>event_new_ok = True, event_add_ok = True, event_del_ok = True\<rparr>"

lemma ev_ok_simps [simp]: "event_new_ok ev_ok" "event_add_ok ev_ok" "event_del_ok ev_ok"
  by (simp_all add: ev_ok_def)

text \<open>
  Besides the hash map, the state records which callback arguments and which events are
  allocated, by the key they were made for.
\<close>

record timer_axis =
  timer_hash_map :: "timer_key \<Rightarrow> timer option"
  live_args :: "timer_key set"
  live_events :: "timer_key set"

definition ta_init :: timer_axis where
  "ta_init = \<lparr>timer_hash_map = Map.empty, live_args = {}, live_events = {}\<rparr>"

datatype timer_error = Dangling_Timer timer_key

subsection \<open>Operations\<close>

definition release_async_data :: "timer \<Rightarrow> timer" where
  "release_async_data t =
     (if t_data t \<noteq> No_Data \<and> 0 < t_len t then t\<lparr>t_data := No_Data, t_len := 0\<rparr> else t)"

text \<open>
  \<^verbatim>\<open>FillAsyncData\<close>. The second test can never succeed after the first; allocation
  failure is reported by an exception, not by a null pointer, so the result is always 0.
\<close>

definition fill_async_data :: "timer \<Rightarrow> void_ptr \<Rightarrow> nat \<Rightarrow> int \<times> timer" where
  "fill_async_data t data len =
     (if fst data = 0 \<or> len < 1 then (RC_OK, t)
      else if len = 0 then (RC_OK, t\<lparr>t_data := Obj_Ptr (fst data), t_len := 0\<rparr>)
      else (RC_OK, (release_async_data t)\<lparr>t_data := Owned (take len (snd data)), t_len := len\<rparr>))"

definition timer_exist :: "timer_axis \<Rightarrow> ptr \<Rightarrow> int \<Rightarrow> bool" where
  "timer_exist s snk tid =
     (if snk = 0 then False
      else (case timer_hash_map s (snk, tid) of None \<Rightarrow> False | Some t \<Rightarrow> \<not> t_removed t))"

definition limit_times :: "int \<Rightarrow> timer \<Rightarrow> timer" where
  "limit_times total_times t = (if 0 < total_times then t\<lparr>t_total_times := total_times, t_times := 0\<rparr> else t)"

text \<open>\<^verbatim>\<open>SetTimer\<close> on a key that is in the map.\<close>

definition set_existing_timer ::
  "ev_outcome \<Rightarrow> timer_key \<Rightarrow> timer \<Rightarrow> timeval \<Rightarrow> void_ptr \<Rightarrow> nat \<Rightarrow> int \<Rightarrow> timer_axis \<Rightarrow>
   int \<times> timer_axis" where
  "set_existing_timer ev key t interval data len total_times s =
     (if \<not> t_removed t then (RC_ERR, s)
      else (let t1 = limit_times total_times t;
                (ret, t2) = fill_async_data t1 data len in
            if ret \<noteq> 0
            then (RC_ERR, s\<lparr>timer_hash_map := (timer_hash_map s)(key \<mapsto> t2)\<rparr>)
            else if \<not> event_add_ok ev
            then (RC_ERR, s\<lparr>timer_hash_map := (timer_hash_map s)(key \<mapsto> t2)\<rparr>)
            else (RC_OK, s\<lparr>timer_hash_map := (timer_hash_map s)
                     (key \<mapsto> t2\<lparr>t_event := Some (Some interval), t_removed := False\<rparr>)\<rparr>)))"

text \<open>
  \<^verbatim>\<open>SetTimer\<close> on a new key: the entry is made first and erased again on every failure;
  the callback argument and the event are released with it.
\<close>

definition set_new_timer ::
  "ev_outcome \<Rightarrow> timer_key \<Rightarrow> timeval \<Rightarrow> void_ptr \<Rightarrow> nat \<Rightarrow> int \<Rightarrow> timer_axis \<Rightarrow>
   int \<times> timer_axis" where
  "set_new_timer ev key interval data len total_times s =
     (let s0 = s\<lparr>timer_hash_map := (timer_hash_map s)(key \<mapsto> timer_init)\<rparr>;
          erased = (timer_hash_map s0)(key := None);
          (ret, t1) = fill_async_data timer_init data len;
          t2 = limit_times total_times t1;
          s1 = s0\<lparr>live_args := insert key (live_args s0)\<rparr> in
      if ret \<noteq> 0 then (RC_ERR, s0\<lparr>timer_hash_map := erased\<rparr>)
      else if \<not> event_new_ok ev
      then (RC_ERR, s1\<lparr>timer_hash_map := erased, live_args := live_args s1 - {key}\<rparr>)
      else (let s2 = s1\<lparr>live_events := insert key (live_events s1)\<rparr> in
            if \<not> event_add_ok ev
            then (RC_ERR, s2\<lparr>timer_hash_map := erased, live_args := live_args s2 - {key},
                             live_events := live_events s2 - {key}\<rparr>)
            else (RC_OK, s2\<lparr>timer_hash_map := (timer_hash_map s2)
                     (key \<mapsto> t2\<lparr>t_key := key, t_event := Some (Some interval)\<rparr>)\<rparr>)))"

definition set_timer ::
  "ev_outcome \<Rightarrow> ptr \<Rightarrow> int \<Rightarrow> timeval \<Rightarrow> void_ptr \<Rightarrow> nat \<Rightarrow> int \<Rightarrow> timer_axis \<Rightarrow>
   int \<times> timer_axis" where
  "set_timer ev snk tid interval data len total_times s =
     (if snk = 0 then (RC_ERR, s)
      else (case timer_hash_map s (snk, tid) of
              Some t \<Rightarrow> set_existing_timer ev (snk, tid) t interval data len total_times s
            | None \<Rightarrow> set_new_timer ev (snk, tid) interval data len total_times s))"

definition kill_timer :: "ev_outcome \<Rightarrow> ptr \<Rightarrow> int \<Rightarrow> timer_axis \<Rightarrow> timer_axis" where
  "kill_timer ev snk tid s =
     (if snk = 0 then s
      else (case timer_hash_map s (snk, tid) of
              None \<Rightarrow> s
            | Some t \<Rightarrow>
                if \<not> event_del_ok ev then s
                else s\<lparr>timer_hash_map := (timer_hash_map s)
                         ((snk, tid) \<mapsto> t\<lparr>t_event := Some None, t_removed := True\<rparr>)\<rparr>))"

text \<open>\<^verbatim>\<open>RemoveTimer\<close> erases by the key stored in the timer.\<close>

definition remove_timer :: "timer_key \<Rightarrow> timer \<Rightarrow> timer_axis \<Rightarrow> timer_axis" where
  "remove_timer key t s =
     (let t1 = release_async_data t in
      s\<lparr>timer_hash_map := (timer_hash_map s)(t_key t1 := None),
        live_events := (if t_event t1 \<noteq> None then live_events s - {key} else live_events s)\<rparr>)"

text \<open>What a sink may do from inside its callback.\<close>

datatype timer_op =
    Op_Set ev_outcome ptr int timeval void_ptr nat int
  | Op_Kill ev_outcome ptr int

fun timer_op_step :: "timer_op \<Rightarrow> timer_axis \<Rightarrow> timer_axis" where
  "timer_op_step (Op_Set ev snk tid tv data len total_times) s =
     snd (set_timer ev snk tid tv data len total_times s)"
| "timer_op_step (Op_Kill ev snk tid) s = kill_timer ev snk tid s"

text \<open>
  The event callback \<^verbatim>\<open>OnTimer\<close> for the timer of \<open>key\<close>. The \<^verbatim>\<open>Timer*\<close> it holds
  is dereferenced before and after the sink's callback; a timer that is no longer there is
  a dangling pointer. The result pairs the new state with the arguments the sink was given.
\<close>

definition ta_on_timer ::
  "(int \<Rightarrow> async_data \<Rightarrow> nat \<Rightarrow> int \<Rightarrow> timer_op list) \<Rightarrow> timer_key \<Rightarrow> timer_axis \<Rightarrow>
   timer_error + (timer_axis \<times> int \<times> async_data \<times> nat \<times> int)" where
  "ta_on_timer react key s =
     (case timer_hash_map s key of
        None \<Rightarrow> Inl (Dangling_Timer key)
      | Some t \<Rightarrow>
          (let times = t_times t + 1;
               s1 = s\<lparr>timer_hash_map := (timer_hash_map s)(key \<mapsto> t\<lparr>t_times := times\<rparr>)\<rparr>;
               call = (snd (t_key t), t_data t, t_len t, times);
               s2 = fold timer_op_step (react (snd (t_key t)) (t_data t) (t_len t) times) s1 in
           case timer_hash_map s2 key of
             None \<Rightarrow> Inl (Dangling_Timer key)
           | Some t2 \<Rightarrow>
               if t_removed t2 \<or> (0 < t_total_times t2 \<and> t_total_times t2 \<le> times)
               then Inr ((remove_timer key t2 s2)\<lparr>live_args := live_args s2 - {key}\<rparr>, call)
               else Inr (s2, call)))"

definition ta_finalize :: "timer_axis \<Rightarrow> timer_axis" where
  "ta_finalize s =
     s\<lparr>timer_hash_map := Map.empty,
       live_args := Set.filter (\<lambda>k. timer_hash_map s k = None) (live_args s),
       live_events := Set.filter
         (\<lambda>k. case timer_hash_map s k of None \<Rightarrow> True | Some t \<Rightarrow> t_event t = None) (live_events s)\<rparr>"

lemmas timer_defs = set_timer_def set_existing_timer_def set_new_timer_def kill_timer_def
  fill_async_data_def release_async_data_def limit_times_def remove_timer_def

declare timer_defs [cc_defs]

subsection \<open>Invariant\<close>

text \<open>
  Every timer in the map is filed under its own key with a real sink, owns an event, is
  pending exactly when it is not marked removed, and has its callback argument and event
  allocated; nothing else is allocated.
\<close>

definition timer_ok :: "timer_key \<Rightarrow> timer \<Rightarrow> bool" where
  "timer_ok key t \<longleftrightarrow>
     t_key t = key \<and> fst key \<noteq> 0 \<and> 0 \<le> t_times t \<and>
     (\<exists>p. t_event t = Some p \<and> (t_removed t \<longleftrightarrow> p = None))"

definition ta_inv :: "timer_axis \<Rightarrow> bool" where
  "ta_inv s \<longleftrightarrow>
     (\<forall>key t. timer_hash_map s key = Some t \<longrightarrow> timer_ok key t) \<and>
     live_args s = dom (timer_hash_map s) \<and> live_events s = dom (timer_hash_map s)"

lemma ta_inv_init: "ta_inv ta_init"
  by (simp add: ta_inv_def ta_init_def)

lemma timer_exist_init [simp]: "\<not> timer_exist ta_init snk tid"
  by (simp add: timer_exist_def ta_init_def)

lemma ta_invD: "ta_inv s \<Longrightarrow> timer_hash_map s key = Some t \<Longrightarrow> timer_ok key t"
  unfolding ta_inv_def by blast

lemma ta_inv_update:
  assumes "ta_inv s" "timer_hash_map s key = Some t" "timer_ok key t'"
  shows "ta_inv (s\<lparr>timer_hash_map := (timer_hash_map s)(key \<mapsto> t')\<rparr>)"
  using assms by (cases key) (auto simp: ta_inv_def)

lemma ta_inv_set_existing:
  assumes inv: "ta_inv s" and t: "timer_hash_map s key = Some t"
  shows "ta_inv (snd (set_existing_timer ev key t tv data len total_times s))"
proof -
  have "timer_ok key t" using ta_invD[OF inv t] .
  then have "timer_ok key t'" if "t' = limit_times total_times t \<or>
      t' = snd (fill_async_data (limit_times total_times t) data len) \<or>
      t' = (snd (fill_async_data (limit_times total_times t) data len))\<lparr>t_event := Some (Some tv), t_removed := False\<rparr>"
    for t' using that by (auto simp: timer_ok_def timer_defs)
  then show ?thesis
    using inv ta_inv_update[OF inv t]
    by (simp add: set_existing_timer_def Let_def split: prod.splits)
qed

lemma ta_inv_insert:
  assumes "ta_inv s" "timer_ok key t"
  shows "ta_inv (s\<lparr>timer_hash_map := (timer_hash_map s)(key \<mapsto> t),
    live_args := insert key (live_args s), live_events := insert key (live_events s)\<rparr>)"
  using assms by (cases key) (auto simp: ta_inv_def)

lemma set_new_timer_cases:
  assumes "ta_inv s" "timer_hash_map s key = None" "fst key \<noteq> 0"
  obtains "set_new_timer ev key tv data len total_times s = (RC_ERR, s)"
  | t where "timer_ok key t" "set_new_timer ev key tv data len total_times s =
      (RC_OK, s\<lparr>timer_hash_map := (timer_hash_map s)(key \<mapsto> t),
         live_args := insert key (live_args s), live_events := insert key (live_events s)\<rparr>)"
proof (cases "event_new_ok ev \<and> event_add_ok ev")
  case True
  then show ?thesis
    by (intro that(2)[of "(limit_times total_times (snd (fill_async_data timer_init data len)))
        \<lparr>t_key := key, t_event := Some (Some tv)\<rparr>"])
      (use assms(3) in \<open>auto simp: timer_defs timer_ok_def timer_init_def Let_def\<close>)
next
  case False
  have "key \<notin> live_args s" "key \<notin> live_events s" "(timer_hash_map s)(key := None) = timer_hash_map s"
    using assms(1,2) by (auto simp: ta_inv_def)
  with False show ?thesis
    by (intro that(1)) (auto simp: timer_defs timer_init_def Let_def)
qed

lemma ta_inv_set_timer [cc_inv]:
  assumes inv: "ta_inv s"
  shows "ta_inv (snd (set_timer ev snk tid tv data len total_times s))"
proof (cases "snk = 0")
  case True
  with inv show ?thesis by (simp add: set_timer_def)
next
  case snk: False
  show ?thesis
  proof (cases "timer_hash_map s (snk, tid)")
    case None
    with snk have "ta_inv (snd (set_new_timer ev (snk, tid) tv data len total_times s))"
      using ta_inv_insert[OF inv]
      by (cases rule: set_new_timer_cases[OF inv None, of ev tv data len total_times]) (simp_all add: inv)
    with None snk show ?thesis by (simp add: set_timer_def)
  next
    case (Some t)
    with snk ta_inv_set_existing[OF inv Some] show ?thesis by (simp add: set_timer_def)
  qed
qed

lemma ta_inv_kill_timer [cc_inv]: "ta_inv s \<Longrightarrow> ta_inv (kill_timer ev snk tid s)"
  by (auto simp: timer_defs ta_inv_def timer_ok_def split: option.splits if_splits)

lemma ta_inv_op [cc_inv]: "ta_inv s \<Longrightarrow> ta_inv (timer_op_step p s)"
  by (cases p) (simp_all add: cc_inv)

lemma ta_inv_ops [cc_inv]: "ta_inv s \<Longrightarrow> ta_inv (fold timer_op_step ps s)"
  by (induction ps arbitrary: s) (simp_all add: cc_inv)

text \<open>No operation a sink can issue takes an existing timer out of the map.\<close>

lemma timer_op_keeps: "dom (timer_hash_map s) \<subseteq> dom (timer_hash_map (timer_op_step p s))"
  by (cases p) (auto simp: timer_defs Let_def split: option.splits)

lemma timer_ops_keep: "dom (timer_hash_map s) \<subseteq> dom (timer_hash_map (fold timer_op_step ps s))"
  by (induction ps arbitrary: s) (simp, metis fold_simps(2) subset_trans timer_op_keeps)

lemma ta_inv_remove:
  assumes "ta_inv s" "timer_hash_map s key = Some t"
  shows "ta_inv ((remove_timer key t s)\<lparr>live_args := live_args s - {key}\<rparr>)"
proof -
  obtain p where "t_event t = Some p" "t_key t = key"
    using ta_invD[OF assms] by (auto simp: timer_ok_def)
  with assms show ?thesis by (auto simp: ta_inv_def timer_defs)
qed

lemma ta_inv_times:
  assumes "ta_inv s" "timer_hash_map s key = Some t" "0 \<le> n"
  shows "ta_inv (s\<lparr>timer_hash_map := (timer_hash_map s)(key \<mapsto> t\<lparr>t_times := n\<rparr>)\<rparr>)"
  using assms ta_invD[OF assms(1,2)] by (cases key) (auto simp: ta_inv_def timer_ok_def)

lemma ta_on_timer_ok:
  assumes inv: "ta_inv s" and t: "timer_hash_map s key = Some t"
  shows "\<exists>s'. ta_on_timer react key s =
      Inr (s', snd key, t_data t, t_len t, t_times t + 1) \<and> ta_inv s'"
proof -
  define s1 where "s1 = s\<lparr>timer_hash_map := (timer_hash_map s)(key \<mapsto> t\<lparr>t_times := t_times t + 1\<rparr>)\<rparr>"
  define s2 where "s2 = fold timer_op_step (react (snd (t_key t)) (t_data t) (t_len t) (t_times t + 1)) s1"
  have key: "t_key t = key" "0 \<le> t_times t"
    using ta_invD[OF inv t] by (auto simp: timer_ok_def)
  then have "ta_inv s1" unfolding s1_def using inv t by (intro ta_inv_times) auto
  then have i2: "ta_inv s2" unfolding s2_def by (rule ta_inv_ops)
  have "key \<in> dom (timer_hash_map s1)" by (simp add: s1_def)
  then obtain t2 where t2: "timer_hash_map s2 key = Some t2"
    using timer_ops_keep[of s1] unfolding s2_def by blast
  have "ta_on_timer react key s =
      (if t_removed t2 \<or> (0 < t_total_times t2 \<and> t_total_times t2 \<le> t_times t + 1)
       then Inr ((remove_timer key t2 s2)\<lparr>live_args := live_args s2 - {key}\<rparr>,
                 snd (t_key t), t_data t, t_len t, t_times t + 1)
       else Inr (s2, snd (t_key t), t_data t, t_len t, t_times t + 1))"
    using t t2 unfolding s2_def s1_def by (simp add: ta_on_timer_def Let_def)
  with i2 ta_inv_remove[OF i2 t2] key(1) show ?thesis by auto
qed

lemma ta_inv_finalize [cc_inv]:
  assumes "ta_inv s"
  shows "ta_finalize s = ta_init"
proof -
  have "\<exists>p. t_event t = Some p" if "timer_hash_map s key = Some t" for key t
    using ta_invD[OF assms that] by (auto simp: timer_ok_def)
  then have "Set.filter (\<lambda>k. case timer_hash_map s k of None \<Rightarrow> True | Some t \<Rightarrow> t_event t = None)
      (live_events s) = {}"
    using assms by (fastforce simp: ta_inv_def split: option.splits)
  moreover have "Set.filter (\<lambda>k. timer_hash_map s k = None) (live_args s) = {}"
    using assms by (auto simp: ta_inv_def)
  ultimately show ?thesis
    by (simp add: ta_finalize_def ta_init_def)
qed

subsection \<open>How often a timer fires\<close>

text \<open>Repeated firing of one timer whose sink issues no timer operation.\<close>

fun fire_n :: "nat \<Rightarrow> timer_key \<Rightarrow> timer_axis \<Rightarrow> timer_error + timer_axis" where
  "fire_n 0 key s = Inr s"
| "fire_n (Suc n) key s =
     (case ta_on_timer (\<lambda>_ _ _ _. []) key s of
        Inl e \<Rightarrow> Inl e
      | Inr (s', _) \<Rightarrow> fire_n n key s')"

lemma on_timer_passive:
  assumes "timer_hash_map s key = Some t" "\<not> t_removed t"
    "\<not> (0 < t_total_times t \<and> t_total_times t \<le> t_times t + 1)"
  shows "ta_on_timer (\<lambda>_ _ _ _. []) key s =
    Inr (s\<lparr>timer_hash_map := (timer_hash_map s)(key \<mapsto> t\<lparr>t_times := t_times t + 1\<rparr>)\<rparr>,
         snd (t_key t), t_data t, t_len t, t_times t + 1)"
  using assms by (auto simp: ta_on_timer_def Let_def)

lemma fire_n_passive:
  assumes "timer_hash_map s key = Some t" "\<not> t_removed t"
    "t_total_times t \<le> 0 \<or> t_times t + int n < t_total_times t"
  shows "fire_n n key s =
    Inr (s\<lparr>timer_hash_map := (timer_hash_map s)(key \<mapsto> t\<lparr>t_times := t_times t + int n\<rparr>)\<rparr>)"
  using assms
proof (induction n arbitrary: s t)
  case 0
  then have "(timer_hash_map s)(key \<mapsto> t) = timer_hash_map s" by auto
  with 0 show ?case by simp
next
  case (Suc n)
  let ?t = "t\<lparr>t_times := t_times t + 1\<rparr>"
  let ?s = "s\<lparr>timer_hash_map := (timer_hash_map s)(key \<mapsto> ?t)\<rparr>"
  have "fire_n (Suc n) key s = fire_n n key ?s"
    using on_timer_passive[OF Suc.prems(1,2)] Suc.prems(3) by auto
  also have "\<dots> = Inr (?s\<lparr>timer_hash_map := (timer_hash_map ?s)
      (key \<mapsto> ?t\<lparr>t_times := t_times ?t + int n\<rparr>)\<rparr>)"
    using Suc.prems by (intro Suc.IH) auto
  also have "(timer_hash_map ?s)(key \<mapsto> ?t\<lparr>t_times := t_times ?t + int n\<rparr>) =
      (timer_hash_map s)(key \<mapsto> t\<lparr>t_times := t_times t + int (Suc n)\<rparr>)"
    by (simp add: add.assoc fun_eq_iff)
  finally show ?case by (simp del: fire_n.simps)
qed

lemma fire_n_Suc_end:
  assumes "fire_n n key s = Inr s'"
  shows "fire_n (Suc n) key s = (case ta_on_timer (\<lambda>_ _ _ _. []) key s' of
           Inl e \<Rightarrow> Inl e | Inr (s'', _) \<Rightarrow> Inr s'')"
  using assms
proof (induction n arbitrary: s)
  case (Suc n)
  from Suc.prems obtain s1 c where s1: "ta_on_timer (\<lambda>_ _ _ _. []) key s = Inr (s1, c)"
    "fire_n n key s1 = Inr s'"
    by (auto split: sum.splits prod.splits)
  then have "fire_n (Suc (Suc n)) key s = fire_n (Suc n) key s1"
    by (subst fire_n.simps(2)) (simp only: sum.case prod.case)
  with Suc.IH[OF s1(2)] show ?case by simp
qed (simp split: sum.split)

lemma timer_exist_set_new:
  assumes "snk \<noteq> 0" "timer_hash_map s (snk, tid) = None" "event_new_ok ev" "event_add_ok ev"
  shows "\<exists>t. set_timer ev snk tid tv data len total_times s =
      (RC_OK, s\<lparr>timer_hash_map := (timer_hash_map s)((snk, tid) \<mapsto> t),
               live_args := insert (snk, tid) (live_args s),
               live_events := insert (snk, tid) (live_events s)\<rparr>) \<and>
     t_key t = (snk, tid) \<and> \<not> t_removed t \<and> t_times t = 0 \<and> t_event t = Some (Some tv) \<and>
     t_total_times t = (if 0 < total_times then total_times else - 1)"
  using assms
  by (intro exI[of _ "(limit_times total_times (snd (fill_async_data timer_init data len)))
        \<lparr>t_key := (snk, tid), t_event := Some (Some tv)\<rparr>"], cases s)
    (simp add: timer_defs Let_def timer_init_def)

subsection \<open>Reachable states\<close>

inductive ta_reach :: "timer_axis \<Rightarrow> bool" where
  ta_start: "ta_reach ta_init"
| ta_op: "ta_reach s \<Longrightarrow> ta_reach (timer_op_step p s)"
| ta_fire: "ta_reach s \<Longrightarrow> ta_on_timer react key s = Inr (s', call) \<Longrightarrow> ta_reach s'"
| ta_final: "ta_reach s \<Longrightarrow> ta_reach (ta_finalize s)"

lemma ta_reach_inv: "ta_reach s \<Longrightarrow> ta_inv s"
proof (induction rule: ta_reach.induct)
  case (ta_fire s react key s' call)
  then obtain t where "timer_hash_map s key = Some t"
    by (auto simp: ta_on_timer_def split: option.splits)
  with ta_on_timer_ok[OF ta_fire.IH this, of react] ta_fire.hyps(2) show ?case by auto
qed (simp_all add: ta_inv_init cc_inv)

subsection \<open>Properties\<close>

text \<open>
  Claim C35: in every state the timer axis can reach, by any sequence of SetTimer, KillTimer,
  Finalize and event callbacks whose sinks issue arbitrary timer operations, exactly the timers
  in the map own a callback argument and an event (nothing leaks, nothing is released twice),
  a timer is pending exactly when it exists for its clients, and the callback of a timer in the
  map never touches a dangling timer, whatever its sink does.
\<close>

theorem timer_axis_safe:
  assumes "ta_reach s"
  shows "live_args s = dom (timer_hash_map s) \<and> live_events s = dom (timer_hash_map s) \<and>
    (\<forall>snk tid t. timer_hash_map s (snk, tid) = Some t \<longrightarrow>
       (timer_exist s snk tid \<longleftrightarrow> (\<exists>tv. t_event t = Some (Some tv))) \<and>
       (\<forall>react. \<exists>s' call. ta_on_timer react (snk, tid) s = Inr (s', call)))"
proof -
  have i: "ta_inv s" using assms by (rule ta_reach_inv)
  have "timer_exist s snk tid \<longleftrightarrow> (\<exists>tv. t_event t = Some (Some tv))"
    if "timer_hash_map s (snk, tid) = Some t" for snk tid t
    using ta_invD[OF i that] that by (auto simp: timer_exist_def timer_ok_def)
  moreover have "\<exists>s' call. ta_on_timer react (snk, tid) s = Inr (s', call)"
    if "timer_hash_map s (snk, tid) = Some t" for snk tid t react
    using ta_on_timer_ok[OF i that] by blast
  ultimately show ?thesis using i by (auto simp: ta_inv_def)
qed

definition two_timers :: timer_axis where
  "two_timers = timer_op_step (Op_Kill ev_ok 7 1)
     (timer_op_step (Op_Set ev_ok 7 2 (1, 0) (0, []) 0 3)
       (timer_op_step (Op_Set ev_ok 7 1 (1, 0) (0, []) 0 (- 1)) ta_init))"

theorem timer_axis_safe_witness:
  "live_args two_timers = dom (timer_hash_map two_timers) \<and>
   timer_exist two_timers 7 2 \<and> \<not> timer_exist two_timers 7 1"
proof -
  have "ta_reach two_timers"
    unfolding two_timers_def by (intro ta_reach.intros)
  from timer_axis_safe[OF this] show ?thesis
    by (simp add: two_timers_def timer_defs Let_def ta_init_def timer_init_def
        timer_exist_def)
qed

text \<open>
  Claim C28: a timer set with a positive total_times on a fresh key fires exactly that often:
  after any smaller number of firings it still exists and has counted them, and the last
  firing takes it out of the axis and releases its callback argument and event.
\<close>

theorem timer_fires_total_times:
  assumes "snk \<noteq> 0" "timer_hash_map s (snk, tid) = None" "ta_inv s"
    and "event_new_ok ev" "event_add_ok ev" "0 < n"
  shows "let s' = snd (set_timer ev snk tid tv data len (int n) s) in
    (\<forall>m<n. \<exists>s''. fire_n m (snk, tid) s' = Inr s'' \<and> timer_exist s'' snk tid \<and>
        map_option t_times (timer_hash_map s'' (snk, tid)) = Some (int m)) \<and>
    fire_n n (snk, tid) s' = Inr s"
proof -
  obtain t where t: "set_timer ev snk tid tv data len (int n) s =
      (RC_OK, s\<lparr>timer_hash_map := (timer_hash_map s)((snk, tid) \<mapsto> t),
               live_args := insert (snk, tid) (live_args s),
               live_events := insert (snk, tid) (live_events s)\<rparr>)"
    "t_key t = (snk, tid)" "\<not> t_removed t" "t_times t = 0" "t_event t = Some (Some tv)"
    "t_total_times t = int n"
    using timer_exist_set_new[OF assms(1,2,4,5), of tv data len "int n"] assms(6) by auto
  define s' where "s' = snd (set_timer ev snk tid tv data len (int n) s)"
  have t': "timer_hash_map s' (snk, tid) = Some t" by (simp add: s'_def t(1))
  have step: "fire_n m (snk, tid) s' =
      Inr (s'\<lparr>timer_hash_map := (timer_hash_map s')((snk, tid) \<mapsto> t\<lparr>t_times := int m\<rparr>)\<rparr>)"
    if "m < n" for m
    using fire_n_passive[OF t' t(3), of m] that t(4,6) by simp
  have "(timer_hash_map s)(key := None) = timer_hash_map s" if "key = (snk, tid)" for key
    using assms(2) that by auto
  moreover have "live_args s - {(snk, tid)} = live_args s" "live_events s - {(snk, tid)} = live_events s"
    using assms(2,3) by (auto simp: ta_inv_def)
  ultimately have "fire_n n (snk, tid) s' = Inr s"
    using step[of "n - 1"] fire_n_Suc_end[of "n - 1" "(snk, tid)" s'] assms(6) t
    by (simp add: ta_on_timer_def Let_def timer_defs s'_def)
  with step assms(1) t(3) show ?thesis
    unfolding Let_def s'_def[symmetric] by (auto simp: timer_exist_def)
qed

theorem timer_fires_total_times_witness:
  "fire_n 3 (7, 1) (snd (set_timer ev_ok 7 1 (1, 0) (0, []) 0 3 ta_init)) = Inr ta_init"
  using timer_fires_total_times[of 7 ta_init 1 ev_ok 3 "(1, 0)" "(0, [])" 0] ta_inv_init
  by (simp add: ta_init_def Let_def)

text \<open>
  What SetTimer returns and does, on every branch. A null sink and a timer that still
  exists are refused without any change; otherwise the call succeeds exactly when libevent does,
  success makes the timer exist, failure leaves it non-existent, and in no case does the call
  change the existence of any other timer.
\<close>

theorem set_timer_outcome:
  assumes "ta_inv s" "set_timer ev snk tid tv data len total_times s = (ret, s')"
  shows "(snk = 0 \<or> timer_exist s snk tid \<longrightarrow> ret = RC_ERR \<and> s' = s) \<and>
    (snk \<noteq> 0 \<and> \<not> timer_exist s snk tid \<and> event_new_ok ev \<and> event_add_ok ev \<longrightarrow> ret = RC_OK) \<and>
    (snk \<noteq> 0 \<and> \<not> event_add_ok ev \<longrightarrow> ret = RC_ERR) \<and>
    (ret = RC_OK \<longrightarrow> timer_exist s' snk tid) \<and>
    (ret \<noteq> RC_OK \<longrightarrow> timer_exist s' snk tid = timer_exist s snk tid) \<and>
    (\<forall>snk' tid'. (snk', tid') \<noteq> (snk, tid) \<longrightarrow> timer_exist s' snk' tid' = timer_exist s snk' tid')"
proof (cases "snk = 0")
  case True
  with assms(2) show ?thesis by (auto simp: set_timer_def)
next
  case snk: False
  show ?thesis
  proof (cases "timer_hash_map s (snk, tid)")
    case None
    with snk assms(2) show ?thesis
      by (auto simp: timer_defs Let_def timer_exist_def timer_init_def split: if_splits)
  next
    case (Some t)
    with snk assms(2) show ?thesis
      by (auto simp: timer_defs Let_def timer_exist_def split: if_splits)
  qed
qed

theorem set_timer_outcome_witness:
  "fst (set_timer ev_ok 7 1 (1, 0) (0, []) 0 3 ta_init) = RC_OK \<and>
   timer_exist (snd (set_timer ev_ok 7 1 (1, 0) (0, []) 0 3 ta_init)) 7 1 \<and>
   \<not> timer_exist (snd (set_timer ev_ok 7 1 (1, 0) (0, []) 0 3 ta_init)) 7 2"
  using set_timer_outcome[OF ta_inv_init, of ev_ok 7 1 "(1, 0)" "(0, [])" 0 3,
      OF prod.collapse[symmetric]]
  by auto

text \<open>
  Re-arming a timer from inside its own callback loses it when the number of firings
  so far reaches the new limit. The callback of a timer that has fired \<open>times\<close> times kills the
  timer and sets it again, successfully, with a limit of at most \<open>times\<close>; the check after the
  callback still compares the old count with the new limit and removes the fresh timer.
\<close>

theorem rearm_in_callback_lost:
  assumes "timer_hash_map s (snk, tid) = Some t" "t_key t = (snk, tid)" "snk \<noteq> 0"
    and "event_del_ok ev" "event_add_ok ev"
    and "0 < limit" "limit \<le> t_times t + 1"
  shows "let react = (\<lambda>_ _ _ _. [Op_Kill ev snk tid, Op_Set ev snk tid tv data len limit]) in
    \<exists>s' call. ta_on_timer react (snk, tid) s = Inr (s', call) \<and> \<not> timer_exist s' snk tid"
  using assms by (auto simp: Let_def ta_on_timer_def timer_defs timer_exist_def)

theorem rearm_in_callback_lost_witness:
  "let s = snd (set_timer ev_ok 7 1 (1, 0) (0, []) 0 1 ta_init);
       react = (\<lambda>_ _ _ _. [Op_Kill ev_ok 7 1, Op_Set ev_ok 7 1 (5, 0) (0, []) 0 1]) in
   \<exists>s' call. ta_on_timer react (7, 1) s = Inr (s', call) \<and> \<not> timer_exist s' 7 1"
proof -
  define s where "s = snd (set_timer ev_ok 7 1 (1, 0) (0, []) 0 1 ta_init)"
  obtain t where "timer_hash_map s (7, 1) = Some t" "t_key t = (7, 1)" "t_times t = 0"
    by (simp add: s_def timer_defs Let_def ta_init_def timer_init_def)
  then show ?thesis
    using rearm_in_callback_lost[of s 7 1 t ev_ok 1 "(5, 0)" "(0, [])" 0]
    unfolding Let_def s_def[symmetric] by simp
qed

text \<open>
  Setting a killed timer again without a limit does not make it unlimited: a limit it
  was given earlier, and the firings already counted against it, stay in force.
\<close>

theorem reset_keeps_old_limit:
  assumes "timer_hash_map s (snk, tid) = Some t" "t_removed t" "snk \<noteq> 0" "event_add_ok ev"
    and "total_times \<le> 0"
  shows "\<exists>t'. set_timer ev snk tid tv data len total_times s =
      (RC_OK, s\<lparr>timer_hash_map := (timer_hash_map s)((snk, tid) \<mapsto> t')\<rparr>) \<and>
    \<not> t_removed t' \<and> t_total_times t' = t_total_times t \<and> t_times t' = t_times t"
  using assms
  by (intro exI[of _ "(snd (fill_async_data t data len))
        \<lparr>t_event := Some (Some tv), t_removed := False\<rparr>"])
    (simp add: timer_defs Let_def)

theorem reset_keeps_old_limit_witness:
  "let s = kill_timer ev_ok 7 1 (snd (set_timer ev_ok 7 1 (1, 0) (0, []) 0 3 ta_init)) in
   \<exists>t'. set_timer ev_ok 7 1 (1, 0) (0, []) 0 (- 1) s =
      (RC_OK, s\<lparr>timer_hash_map := (timer_hash_map s)((7, 1) \<mapsto> t')\<rparr>) \<and> t_total_times t' = 3"
proof -
  define s where "s = kill_timer ev_ok 7 1 (snd (set_timer ev_ok 7 1 (1, 0) (0, []) 0 3 ta_init))"
  obtain t where "timer_hash_map s (7, 1) = Some t" "t_removed t" "t_total_times t = 3"
    by (simp add: s_def timer_defs Let_def ta_init_def timer_init_def)
  then show ?thesis
    using reset_keeps_old_limit[of s 7 1 t ev_ok "- 1" "(1, 0)" "(0, [])" 0]
    unfolding Let_def s_def[symmetric] by auto
qed

end
