(* ===== verification/Record_Timeout.thy ===== *)
theory Record_Timeout
  imports Timer_Axis "HOL-Library.AList"
begin

text \<open>
  The template \<^verbatim>\<open>RecordTimeoutMgr<Key, KeyHash, Value>\<close> of
  \<^verbatim>\<open>timer_axis/inc/record_timeout_mgr.h\<close>: records with a life time, kept in a hash map and,
  ordered by expiry time, in a multimap. It is the base class of the response manager of the
  transaction center, of the connection center and of the partial-message managers.
  The result of \<^verbatim>\<open>time(nullptr)\<close> is the argument \<open>now\<close>; \<^verbatim>\<open>Activate\<close> and
  \<^verbatim>\<open>Freeze\<close> act on the timer axis only.
\<close>

subsection \<open>State and operations\<close>

record 'v value_ctx =
  value_v :: 'v
  upsert_time :: time_t
  timeout_sec :: int

record ('k, 'v) record_mgr =
  record_hash_map :: "'k \<Rightarrow> 'v value_ctx option"
  timeout_multimap :: "(time_t \<times> 'k) list"

definition rtm_init :: "('k, 'v) record_mgr" where
  "rtm_init = \<lparr>record_hash_map = Map.empty, timeout_multimap = []\<rparr>"

definition rtm_finalize :: "('k, 'v) record_mgr \<Rightarrow> ('k, 'v) record_mgr" where
  "rtm_finalize m = m\<lparr>record_hash_map := Map.empty, timeout_multimap := []\<rparr>"

definition record_exist :: "('k, 'v) record_mgr \<Rightarrow> 'k \<Rightarrow> bool" where
  "record_exist m k \<longleftrightarrow> record_hash_map m k \<noteq> None"

text \<open>The expiry time under which a record is filed.\<close>

definition expiry :: "'v value_ctx \<Rightarrow> time_t" where
  "expiry c = upsert_time c + timeout_sec c"

text \<open>
  \<^verbatim>\<open>UpsertRecord\<close>: an existing record is filed under its new expiry time and keeps its
  value; the argument \<open>v\<close> is stored only when the key is new.
\<close>

definition upsert_record ::
  "time_t \<Rightarrow> 'k \<Rightarrow> 'v \<Rightarrow> int \<Rightarrow> ('k, 'v) record_mgr \<Rightarrow> ('k, 'v) record_mgr" where
  "upsert_record now k v secs m =
     (case record_hash_map m k of
        Some c \<Rightarrow>
          m\<lparr>record_hash_map := (record_hash_map m)(k \<mapsto> c\<lparr>upsert_time := now, timeout_sec := secs\<rparr>),
            timeout_multimap := mm_insert (now + secs) k (mm_erase (expiry c) k (timeout_multimap m))\<rparr>
      | None \<Rightarrow>
          m\<lparr>record_hash_map := (record_hash_map m)
              (k \<mapsto> \<lparr>value_v = v, upsert_time = now, timeout_sec = secs\<rparr>),
            timeout_multimap := mm_insert (now + secs) k (timeout_multimap m)\<rparr>)"

definition remove_record :: "'k \<Rightarrow> ('k, 'v) record_mgr \<Rightarrow> ('k, 'v) record_mgr" where
  "remove_record k m =
     (case record_hash_map m k of
        None \<Rightarrow> m
      | Some c \<Rightarrow>
          m\<lparr>record_hash_map := (record_hash_map m)(k := None),
            timeout_multimap := mm_erase (expiry c) k (timeout_multimap m)\<rparr>)"

text \<open>\<^verbatim>\<open>GetRecord\<close>: \<open>None\<close> is the return value -1.\<close>

definition get_record :: "('k, 'v) record_mgr \<Rightarrow> 'k \<Rightarrow> ('v \<times> int) option" where
  "get_record m k = map_option (\<lambda>c. (value_v c, timeout_sec c)) (record_hash_map m k)"

text \<open>
  The scan of \<^verbatim>\<open>OnTimer\<close>. It stops at the first entry that is not due. An entry whose key
  has no record is met with \<^verbatim>\<open>continue\<close> and an iterator that has not moved: the loop does
  not end. \<open>acc\<close> is \<^verbatim>\<open>timeout_records\<close>.
\<close>

partial_function (option) expire_scan ::
  "time_t \<Rightarrow> ('k \<Rightarrow> 'v value_ctx option) \<Rightarrow> (time_t \<times> 'k) list \<Rightarrow> ('k \<times> 'v \<times> int) list \<Rightarrow>
   (('k \<Rightarrow> 'v value_ctx option) \<times> (time_t \<times> 'k) list \<times> ('k \<times> 'v \<times> int) list) option" where
  "expire_scan now rm mm acc =
     (case mm of
        [] \<Rightarrow> Some (rm, [], acc)
      | (t, k) # mm' \<Rightarrow>
          (case rm k of
             None \<Rightarrow> expire_scan now rm mm acc
           | Some c \<Rightarrow>
               if t \<le> now
               then expire_scan now (rm(k := None)) mm'
                      (AList.update k (value_v c, timeout_sec c) acc)
               else Some (rm, mm, acc)))"

text \<open>
  \<^verbatim>\<open>OnTimer\<close>: the manager without the expired records, and the expired records in the
  order in which \<^verbatim>\<open>OnTimeout\<close> is called for them, some iteration order \<open>ord\<close> of the
  hash map that collected them.
\<close>

definition rtm_on_timer ::
  "(('k \<times> 'v \<times> int) list \<Rightarrow> ('k \<times> 'v \<times> int) list) \<Rightarrow> time_t \<Rightarrow> ('k, 'v) record_mgr \<Rightarrow>
   (('k, 'v) record_mgr \<times> ('k \<times> 'v \<times> int) list) option" where
  "rtm_on_timer ord now m =
     (case expire_scan now (record_hash_map m) (timeout_multimap m) [] of
        None \<Rightarrow> None
      | Some (rm, mm, acc) \<Rightarrow>
          Some (m\<lparr>record_hash_map := rm, timeout_multimap := mm\<rparr>, ord acc))"

text \<open>
  \<^verbatim>\<open>Activate\<close> and \<^verbatim>\<open>Freeze\<close> start and stop the expiry check of the manager
  \<open>self\<close>; a manager without a timer axis has nothing to stop.
\<close>

abbreviation (input) EXPIRE_CHECK_TIMER_ID :: int where
  "EXPIRE_CHECK_TIMER_ID \<equiv> 1"

definition rtm_activate :: "ev_outcome \<Rightarrow> ptr \<Rightarrow> timeval \<Rightarrow> timer_axis \<Rightarrow> int \<times> timer_axis" where
  "rtm_activate ev self interval axis =
     set_timer ev self EXPIRE_CHECK_TIMER_ID interval (0, []) 0 (- 1) axis"

definition rtm_freeze :: "ev_outcome \<Rightarrow> ptr \<Rightarrow> timer_axis option \<Rightarrow> timer_axis option" where
  "rtm_freeze ev self axis = map_option (kill_timer ev self EXPIRE_CHECK_TIMER_ID) axis"

subsection \<open>Invariant: the hash map and the multimap hold the same records\<close>

definition filed :: "('k \<Rightarrow> 'v value_ctx option) \<Rightarrow> (time_t \<times> 'k) list \<Rightarrow> bool" where
  "filed rm mm \<longleftrightarrow>
     sorted (map fst mm) \<and> distinct (map snd mm) \<and>
     (\<forall>t k. (t, k) \<in> set mm \<longleftrightarrow> (\<exists>c. rm k = Some c \<and> t = expiry c))"

definition rtm_inv :: "('k, 'v) record_mgr \<Rightarrow> bool" where
  "rtm_inv m \<longleftrightarrow> filed (record_hash_map m) (timeout_multimap m)"

lemma filed_finite: "filed rm mm \<Longrightarrow> finite (dom rm)"
proof -
  assume "filed rm mm"
  then have "dom rm \<subseteq> snd ` set mm"
    unfolding filed_def dom_def by force
  then show ?thesis by (meson finite_imageI finite_set finite_subset)
qed

lemma filed_notin: "filed rm mm \<Longrightarrow> rm k = None \<Longrightarrow> k \<notin> snd ` set mm"
  unfolding filed_def by force

lemma filed_remove:
  assumes f: "filed rm mm" and k: "rm k = Some c"
  shows "filed (rm(k := None)) (mm_erase (expiry c) k mm)"
proof -
  have s: "set (mm_erase (expiry c) k mm) = set mm - {(expiry c, k)}"
    using f by (intro set_mm_erase) (simp add: filed_def)
  have "(t, k') \<in> set mm - {(expiry c, k)} \<longleftrightarrow> (\<exists>c'. (rm(k := None)) k' = Some c' \<and> t = expiry c')"
    for t k'
    using f k by (auto simp: filed_def)
  with s f show ?thesis
    by (auto simp: filed_def intro!: sorted_mm_erase distinct_mm_erase)
qed

lemma filed_insert:
  assumes f: "filed rm mm" and k: "rm k = None"
  shows "filed (rm(k \<mapsto> c)) (mm_insert (expiry c) k mm)"
  using f filed_notin[OF f k] k unfolding filed_def
  by (auto simp: sorted_mm_insert distinct_mm_insert)

lemma rtm_inv_init: "rtm_inv rtm_init"
  by (simp add: rtm_inv_def rtm_init_def filed_def)

lemma rtm_inv_finalize [cc_inv]: "rtm_inv (rtm_finalize m)"
  by (simp add: rtm_inv_def rtm_finalize_def filed_def)

lemma rtm_inv_upsert [cc_inv]:
  assumes "rtm_inv m"
  shows "rtm_inv (upsert_record now k v secs m)"
proof (cases "record_hash_map m k")
  case None
  then show ?thesis
    using assms filed_insert[of "record_hash_map m" "timeout_multimap m" k
        "\<lparr>value_v = v, upsert_time = now, timeout_sec = secs\<rparr>"]
    by (simp add: rtm_inv_def upsert_record_def expiry_def)
next
  case (Some c)
  then show ?thesis
    using filed_insert[OF filed_remove[of "record_hash_map m" "timeout_multimap m" k c],
        of k "c\<lparr>upsert_time := now, timeout_sec := secs\<rparr>"] assms
    by (simp add: rtm_inv_def upsert_record_def expiry_def)
qed

lemma rtm_inv_remove [cc_inv]: "rtm_inv m \<Longrightarrow> rtm_inv (remove_record k m)"
  by (auto simp: rtm_inv_def remove_record_def filed_remove split: option.splits)

subsection \<open>Abstract view: a map with deadlines\<close>

definition rtm_store :: "('k, 'v) record_mgr \<Rightarrow> 'k \<Rightarrow> ('v \<times> int \<times> time_t) option" where
  "rtm_store m k = map_option (\<lambda>c. (value_v c, timeout_sec c, expiry c)) (record_hash_map m k)"

lemma rtm_store_init [simp]: "rtm_store rtm_init = Map.empty"
  by (simp add: rtm_store_def rtm_init_def fun_eq_iff)

lemma rtm_store_finalize [simp]: "rtm_store (rtm_finalize m) = Map.empty"
  by (simp add: rtm_store_def rtm_finalize_def fun_eq_iff)

lemma rtm_store_upsert:
  "rtm_store (upsert_record now k v secs m) =
     (rtm_store m)(k \<mapsto> (case rtm_store m k of None \<Rightarrow> v | Some (v', _) \<Rightarrow> v', secs, now + secs))"
  by (auto simp: rtm_store_def upsert_record_def expiry_def fun_eq_iff split: option.splits)

lemma rtm_store_remove: "rtm_store (remove_record k m) = (rtm_store m)(k := None)"
  by (auto simp: rtm_store_def remove_record_def fun_eq_iff split: option.splits)

lemma record_exist_store: "record_exist m k \<longleftrightarrow> rtm_store m k \<noteq> None"
  by (simp add: record_exist_def rtm_store_def)

lemma get_record_store: "get_record m k = map_option (\<lambda>(v, s, _). (v, s)) (rtm_store m k)"
  by (simp add: get_record_def rtm_store_def option.map_comp comp_def)

lemma remove_record_absent: "\<not> record_exist m k \<Longrightarrow> remove_record k m = m"
  by (auto simp: remove_record_def record_exist_def)

lemma finite_rtm_store: "rtm_inv m \<Longrightarrow> finite (dom (rtm_store m))"
  using filed_finite[of "record_hash_map m" "timeout_multimap m"]
  by (simp add: rtm_inv_def rtm_store_def dom_def)

subsection \<open>The expiry scan\<close>

text \<open>What the scan hands out for a prefix of the multimap.\<close>

definition handout ::
  "('k \<Rightarrow> 'v value_ctx option) \<Rightarrow> (time_t \<times> 'k) list \<Rightarrow> ('k \<times> 'v \<times> int) list" where
  "handout rm = map (\<lambda>(t, k). (k, value_v (the (rm k)), timeout_sec (the (rm k))))"

lemma filed_Cons:
  assumes "filed rm ((t, k) # mm)"
  shows "\<exists>c. rm k = Some c \<and> t = expiry c \<and> filed (rm(k := None)) mm \<and> k \<notin> snd ` set mm"
proof -
  from assms obtain c where c: "rm k = Some c" "t = expiry c"
    unfolding filed_def by force
  with filed_remove[OF assms c(1)] assms show ?thesis
    by (auto simp: filed_def)
qed

lemma alist_update_new: "map_of al k = None \<Longrightarrow> AList.update k v al = al @ [(k, v)]"
  by (induction al) (auto split: if_splits)

lemma expire_scan_filed:
  assumes "filed rm mm" "dom (map_of acc) \<inter> dom rm = {}"
  shows "expire_scan now rm mm acc =
    Some (rm |` (- snd ` set (takeWhile (\<lambda>(t, k). t \<le> now) mm)),
          dropWhile (\<lambda>(t, k). t \<le> now) mm,
          acc @ handout rm (takeWhile (\<lambda>(t, k). t \<le> now) mm))"
  using assms
proof (induction mm arbitrary: rm acc)
  case Nil
  then show ?case
    by (simp add: expire_scan.simps handout_def restrict_map_def fun_eq_iff)
next
  case (Cons e mm)
  obtain t k where e: "e = (t, k)" by (cases e)
  from filed_Cons Cons.prems(1) obtain c where
    c: "rm k = Some c" "t = expiry c" "filed (rm(k := None)) mm" "k \<notin> snd ` set mm"
    unfolding e by metis
  show ?case
  proof (cases "t \<le> now")
    case False
    with c(1) show ?thesis
      unfolding e
      by (simp add: expire_scan.simps[of now rm "(t, k) # mm"] handout_def restrict_map_def
          fun_eq_iff)
  next
    case True
    define due where "due = takeWhile (\<lambda>(t, k). t \<le> now) mm"
    have kd: "k \<notin> snd ` set due"
      using c(4) set_takeWhileD unfolding due_def by fast
    have upd: "AList.update k (value_v c, timeout_sec c) acc = acc @ [(k, value_v c, timeout_sec c)]"
      using Cons.prems(2) domI[of rm, OF c(1)] by (intro alist_update_new) blast
    have "expire_scan now rm (e # mm) acc =
        expire_scan now (rm(k := None)) mm (acc @ [(k, value_v c, timeout_sec c)])"
      using True c(1) upd unfolding e by (simp add: expire_scan.simps[of now rm "(t, k) # mm"])
    also have "\<dots> = Some ((rm(k := None)) |` (- snd ` set due), dropWhile (\<lambda>(t, k). t \<le> now) mm,
        (acc @ [(k, value_v c, timeout_sec c)]) @ handout (rm(k := None)) due)"
      unfolding due_def using Cons.prems(2)
      by (intro Cons.IH[OF c(3)]) (auto simp: disjoint_iff split: if_splits intro: domI)
    also have "handout (rm(k := None)) due = handout rm due"
      using kd unfolding handout_def by (intro map_cong) (auto simp: image_iff)
    also have "(rm(k := None)) |` (- snd ` set due) = rm |` (- insert k (snd ` set due))"
      by (auto simp: restrict_map_def fun_eq_iff)
    finally show ?thesis
      using True e c(1) by (simp add: due_def handout_def)
  qed
qed

text \<open>In a sorted multimap the due prefix is everything that is due.\<close>

lemma sorted_due_prefix:
  "sorted (map fst mm) \<Longrightarrow> set (takeWhile (\<lambda>(t, k). t \<le> now) mm) = {e \<in> set mm. fst e \<le> now}"
proof (induction mm)
  case (Cons e mm)
  then show ?case by (cases "fst e \<le> now") (force simp: case_prod_beta)+
qed simp

lemma sorted_due_rest:
  "sorted (map fst mm) \<Longrightarrow> set (dropWhile (\<lambda>(t, k). t \<le> now) mm) = {e \<in> set mm. now < fst e}"
proof (induction mm)
  case (Cons e mm)
  then show ?case by (cases "fst e \<le> now") (force simp: case_prod_beta)+
qed simp

lemma handout_mem:
  assumes "\<And>t k. (t, k) \<in> set due \<longleftrightarrow> (\<exists>c. rm k = Some c \<and> t = expiry c \<and> t \<le> now)"
  shows "(k, v, s) \<in> set (handout rm due) \<longleftrightarrow>
     (\<exists>c. rm k = Some c \<and> expiry c \<le> now \<and> v = value_v c \<and> s = timeout_sec c)"
proof
  assume "(k, v, s) \<in> set (handout rm due)"
  then obtain t where "(t, k) \<in> set due" "v = value_v (the (rm k))" "s = timeout_sec (the (rm k))"
    by (auto simp: handout_def)
  with assms show "\<exists>c. rm k = Some c \<and> expiry c \<le> now \<and> v = value_v c \<and> s = timeout_sec c"
    by auto
next
  assume "\<exists>c. rm k = Some c \<and> expiry c \<le> now \<and> v = value_v c \<and> s = timeout_sec c"
  then obtain c where c: "rm k = Some c" "expiry c \<le> now" "v = value_v c" "s = timeout_sec c"
    by blast
  with assms have "(expiry c, k) \<in> set due" by blast
  with c show "(k, v, s) \<in> set (handout rm due)"
    by (force simp: handout_def)
qed

lemma rtm_on_timer_spec:
  assumes inv: "rtm_inv m" and ord: "hash_order ord"
  obtains m' xs where "rtm_on_timer ord now m = Some (m', xs)"
    and "rtm_inv m'"
    and "rtm_store m' = (\<lambda>k. case rtm_store m k of
           Some (v, s, d) \<Rightarrow> if d \<le> now then None else Some (v, s, d) | None \<Rightarrow> None)"
    and "distinct (map fst xs)"
    and "\<And>k v s. (k, v, s) \<in> set xs \<longleftrightarrow> (\<exists>d. rtm_store m k = Some (v, s, d) \<and> d \<le> now)"
proof -
  define rm where "rm = record_hash_map m"
  define mm where "mm = timeout_multimap m"
  define due where "due = takeWhile (\<lambda>(t, k). t \<le> now) mm"
  define rest where "rest = dropWhile (\<lambda>(t, k). t \<le> now) mm"
  define m' where "m' = m\<lparr>record_hash_map := rm |` (- snd ` set due), timeout_multimap := rest\<rparr>"
  have f: "filed rm mm" using inv by (simp add: rtm_inv_def rm_def mm_def)
  then have sd: "sorted (map fst mm)" "distinct (map snd mm)" by (auto simp: filed_def)
  have mm: "mm = due @ rest" by (simp add: due_def rest_def)
  have mem: "(t, k) \<in> set mm \<longleftrightarrow> (\<exists>c. rm k = Some c \<and> t = expiry c)" for t k
    using f by (simp add: filed_def)
  have due: "set due = {e \<in> set mm. fst e \<le> now}" and rest: "set rest = {e \<in> set mm. now < fst e}"
    using sorted_due_prefix[OF sd(1)] sorted_due_rest[OF sd(1)] by (simp_all add: due_def rest_def)
  have due_mem: "(t, k) \<in> set due \<longleftrightarrow> (\<exists>c. rm k = Some c \<and> t = expiry c \<and> t \<le> now)" for t k
    using due mem by auto
  have rest_mem: "(t, k) \<in> set rest \<longleftrightarrow> (\<exists>c. rm k = Some c \<and> t = expiry c \<and> now < t)" for t k
    using rest mem by auto
  have k_due: "k \<in> snd ` set due \<longleftrightarrow> (\<exists>c. rm k = Some c \<and> expiry c \<le> now)" for k
    unfolding snd_image_iff by (simp only: due_mem) blast
  have call: "rtm_on_timer ord now m = Some (m', ord (handout rm due))"
    using expire_scan_filed[OF f, of "[]" now]
    by (simp add: rtm_on_timer_def m'_def rm_def mm_def due_def rest_def)
  have fst_due: "map fst (handout rm due) = map snd due"
    by (auto simp: handout_def)
  have "filed (rm |` (- snd ` set due)) rest"
    unfolding filed_def
  proof (intro conjI allI)
    show "sorted (map fst rest)" "distinct (map snd rest)"
      using sd unfolding mm by (simp_all only: map_append sorted_append distinct_append)
    show "(t, k) \<in> set rest \<longleftrightarrow> (\<exists>c. (rm |` (- snd ` set due)) k = Some c \<and> t = expiry c)" for t k
      unfolding rest_mem restrict_map_def using k_due[of k] by (cases "rm k") auto
  qed
  then have i: "rtm_inv m'" by (simp add: rtm_inv_def m'_def)
  have st: "rtm_store m' = (\<lambda>k. case rtm_store m k of
      Some (v, s, d) \<Rightarrow> if d \<le> now then None else Some (v, s, d) | None \<Rightarrow> None)"
  proof
    fix k show "rtm_store m' k = (case rtm_store m k of
        Some (v, s, d) \<Rightarrow> if d \<le> now then None else Some (v, s, d) | None \<Rightarrow> None)"
      using k_due[of k] unfolding rtm_store_def m'_def rm_def
      by (cases "record_hash_map m k") (simp_all add: restrict_map_def)
  qed
  have "mset (map fst (ord (handout rm due))) = mset (map fst (handout rm due))"
    using ord by (simp add: hash_order_def)
  then have "distinct (map fst (ord (handout rm due))) = distinct (map snd due)"
    unfolding fst_due[symmetric] by (rule mset_eq_imp_distinct_iff)
  with sd(2) have dist: "distinct (map fst (ord (handout rm due)))"
    unfolding mm by simp
  have out: "(k, v, s) \<in> set (ord (handout rm due)) \<longleftrightarrow> (\<exists>d. rtm_store m k = Some (v, s, d) \<and> d \<le> now)"
    for k v s
    unfolding hash_order_set[OF ord] handout_mem[OF due_mem]
    by (auto simp: rtm_store_def rm_def)
  show ?thesis by (rule that[OF call i st dist out])
qed

text \<open>
  Without the invariant the scan need not end: an entry at the front of the multimap whose
  key has no record stops it for ever.
\<close>

lemma expire_scan_orphan:
  assumes orphan: "rm k = None"
  shows "expire_scan now rm ((t, k) # mm) acc = None"
proof (rule ccontr)
  assume "\<not> ?thesis"
  then obtain r where ret: "expire_scan now rm ((t, k) # mm) acc = Some r" by auto
  have "\<not> (rm k = None \<and> (t, k) # mm = (t, k) # mm)"
    by (rule expire_scan.raw_induct
        [where P = "\<lambda>now rm' mm' acc r. \<not> (rm' k = None \<and> mm' = (t, k) # mm)", OF _ ret])
      (fastforce split: list.splits option.splits if_splits)
  with orphan show False by simp
qed

subsection \<open>The interface its clients rely on\<close>

text \<open>
  A store of records with deadlines. Clients insert, refresh and remove records by key and
  collect the expired ones; what they need is the effect of each operation on the abstract
  map \<open>store\<close>, where a record is its value, its life time and its deadline.
\<close>

locale timeout_store =
  fixes upsert :: "int \<Rightarrow> 'k \<Rightarrow> 'v \<Rightarrow> int \<Rightarrow> 'm \<Rightarrow> 'm"
    and remove :: "'k \<Rightarrow> 'm \<Rightarrow> 'm"
    and exist :: "'m \<Rightarrow> 'k \<Rightarrow> bool"
    and expire :: "int \<Rightarrow> 'm \<Rightarrow> ('m \<times> ('k \<times> 'v \<times> int) list) option"
    and store :: "'m \<Rightarrow> 'k \<Rightarrow> ('v \<times> int \<times> int) option"
    and inv :: "'m \<Rightarrow> bool"
  assumes store_upsert: "inv m \<Longrightarrow> store (upsert now k v s m) =
        (store m)(k \<mapsto> (case store m k of None \<Rightarrow> v | Some (v', _) \<Rightarrow> v', s, now + s))"
    and store_remove: "inv m \<Longrightarrow> store (remove k m) = (store m)(k := None)"
    and exist_store: "inv m \<Longrightarrow> exist m k \<longleftrightarrow> store m k \<noteq> None"
    and inv_upsert: "inv m \<Longrightarrow> inv (upsert now k v s m)"
    and inv_remove: "inv m \<Longrightarrow> inv (remove k m)"
    and expire_returns: "inv m \<Longrightarrow> \<exists>m' xs. expire now m = Some (m', xs)"
    and inv_expire: "inv m \<Longrightarrow> expire now m = Some (m', xs) \<Longrightarrow> inv m'"
    and store_expire: "inv m \<Longrightarrow> expire now m = Some (m', xs) \<Longrightarrow>
          store m' k = (case store m k of
            Some (v, s, d) \<Rightarrow> if d \<le> now then None else Some (v, s, d) | None \<Rightarrow> None)"
    and expired_mem: "inv m \<Longrightarrow> expire now m = Some (m', xs) \<Longrightarrow>
          (k, v, s) \<in> set xs \<longleftrightarrow> (\<exists>d. store m k = Some (v, s, d) \<and> d \<le> now)"
    and expired_distinct: "inv m \<Longrightarrow> expire now m = Some (m', xs) \<Longrightarrow> distinct (map fst xs)"
begin

lemma expire_partition:
  assumes "inv m" "expire now m = Some (m', xs)"
  shows "dom (store m) = dom (store m') \<union> fst ` set xs" "dom (store m') \<inter> fst ` set xs = {}"
proof -
  have "k \<in> fst ` set xs \<longleftrightarrow> (\<exists>v s d. store m k = Some (v, s, d) \<and> d \<le> now)" for k
    using expired_mem[OF assms] by (force simp: fst_image_iff)
  moreover have "k \<in> dom (store m') \<longleftrightarrow> (\<exists>v s d. store m k = Some (v, s, d) \<and> \<not> d \<le> now)" for k
    using store_expire[OF assms, of k] by (auto simp: domIff split: option.splits)
  ultimately show "dom (store m) = dom (store m') \<union> fst ` set xs"
    "dom (store m') \<inter> fst ` set xs = {}"
    by (auto simp: set_eq_iff)
qed

lemma refreshed_survives:
  assumes "inv m" "0 < s" "t < now + s" "expire t (upsert now k v s m) = Some (m', xs)"
  shows "exist m' k" "k \<notin> fst ` set xs"
proof -
  have i: "inv (upsert now k v s m)" using assms(1) by (rule inv_upsert)
  have "store m' k \<noteq> None"
    using store_expire[OF i assms(4), of k] assms(3) store_upsert[OF assms(1)] by simp
  then show "exist m' k" using exist_store inv_expire[OF i assms(4)] by simp
  then show "k \<notin> fst ` set xs"
    using expire_partition(2)[OF i assms(4)] exist_store inv_expire[OF i assms(4)] by blast
qed

lemma removed_never_expires:
  assumes "inv m" "expire t (remove k m) = Some (m', xs)"
  shows "k \<notin> fst ` set xs"
  using expired_mem[OF inv_remove[OF assms(1)] assms(2)] store_remove[OF assms(1)]
  by (auto simp: fst_image_iff)

end

interpretation rt: timeout_store upsert_record remove_record record_exist "rtm_on_timer ord"
  rtm_store "\<lambda>m. rtm_inv m \<and> hash_order ord"
  for ord
proof (unfold_locales, goal_cases)
  case (6 m now)
  then show ?case by (auto elim: rtm_on_timer_spec[of m ord now])
next
  case (7 m now m' xs)
  then show ?case by (auto elim: rtm_on_timer_spec[of m ord now])
next
  case (8 m now m' xs k)
  then show ?case by (auto elim: rtm_on_timer_spec[of m ord now])
next
  case (9 m now m' xs k v s)
  then show ?case by (auto elim: rtm_on_timer_spec[of m ord now])
next
  case (10 m now m' xs)
  then show ?case by (auto elim: rtm_on_timer_spec[of m ord now])
qed (simp_all add: rtm_store_upsert rtm_store_remove record_exist_store cc_inv)

subsection \<open>Properties\<close>

text \<open>
  Runs of the operations, with their answers. What \<^verbatim>\<open>OnTimeout\<close> does with the manager comes behind the
  scan and counts as further operations.
\<close>

datatype ('k, 'v) rtm_op =
    Upsert time_t 'k 'v int | Remove 'k | Exist 'k | Get 'k | Timer time_t

datatype ('f, 'x) rtm_ans = Stored | Removed | Exists bool | Found "'f option" | Expired 'x

fun rtm_step ::
  "(('k \<times> 'v \<times> int) list \<Rightarrow> ('k \<times> 'v \<times> int) list) \<Rightarrow> ('k, 'v) rtm_op \<Rightarrow> ('k, 'v) record_mgr \<Rightarrow>
   (('k, 'v) record_mgr \<times> ('v \<times> int, ('k \<times> 'v \<times> int) list) rtm_ans) option" where
  "rtm_step ord (Upsert now k v secs) m = Some (upsert_record now k v secs m, Stored)"
| "rtm_step ord (Remove k) m = Some (remove_record k m, Removed)"
| "rtm_step ord (Exist k) m = Some (m, Exists (record_exist m k))"
| "rtm_step ord (Get k) m = Some (m, Found (get_record m k))"
| "rtm_step ord (Timer now) m = map_option (\<lambda>(m', xs). (m', Expired xs)) (rtm_on_timer ord now m)"

fun rtm_run ::
  "(('k \<times> 'v \<times> int) list \<Rightarrow> ('k \<times> 'v \<times> int) list) \<Rightarrow> ('k, 'v) rtm_op list \<Rightarrow> ('k, 'v) record_mgr \<Rightarrow>
   (('k, 'v) record_mgr \<times> ('v \<times> int, ('k \<times> 'v \<times> int) list) rtm_ans list) option" where
  "rtm_run ord [] m = Some (m, [])"
| "rtm_run ord (x # ops) m =
     (case rtm_step ord x m of
        None \<Rightarrow> None
      | Some (m1, a) \<Rightarrow> map_option (\<lambda>(m2, as). (m2, a # as)) (rtm_run ord ops m1))"

text \<open>
  The specification is the documented one: a map from keys to value, life time and deadline, where an upsert updates
  or inserts all three, and the check takes out what is due.
\<close>

fun doc_step ::
  "('k, 'v) rtm_op \<Rightarrow> ('k \<Rightarrow> ('v \<times> int \<times> time_t) option) \<Rightarrow>
   ('k \<Rightarrow> ('v \<times> int \<times> time_t) option) \<times> ('v \<times> int, ('k \<times> 'v \<times> int) set) rtm_ans" where
  "doc_step (Upsert now k v secs) d = (d(k \<mapsto> (v, secs, now + secs)), Stored)"
| "doc_step (Remove k) d = (d(k := None), Removed)"
| "doc_step (Exist k) d = (d, Exists (d k \<noteq> None))"
| "doc_step (Get k) d = (d, Found (map_option (\<lambda>(v, s, _). (v, s)) (d k)))"
| "doc_step (Timer now) d =
     (\<lambda>k. case d k of Some (v, s, t) \<Rightarrow> if t \<le> now then None else Some (v, s, t) | None \<Rightarrow> None,
      Expired {(k, v, s). \<exists>t. d k = Some (v, s, t) \<and> t \<le> now})"

fun doc_run ::
  "('k, 'v) rtm_op list \<Rightarrow> ('k \<Rightarrow> ('v \<times> int \<times> time_t) option) \<Rightarrow> ('v \<times> int, ('k \<times> 'v \<times> int) set) rtm_ans list" where
  "doc_run [] d = []"
| "doc_run (x # ops) d = (let (d1, a) = doc_step x d in a # doc_run ops d1)"

text \<open>An upsert of a record that is there passes the value that it has.\<close>

fun keeps_value :: "('k, 'v) rtm_op \<Rightarrow> ('k \<Rightarrow> ('v \<times> int \<times> time_t) option) \<Rightarrow> bool" where
  "keeps_value (Upsert now k v secs) d = (case d k of None \<Rightarrow> True | Some (w, _) \<Rightarrow> w = v)"
| "keeps_value _ d = True"

fun values_kept :: "('k, 'v) rtm_op list \<Rightarrow> ('k \<Rightarrow> ('v \<times> int \<times> time_t) option) \<Rightarrow> bool" where
  "values_kept [] d = True"
| "values_kept (x # ops) d = (keeps_value x d \<and> values_kept ops (fst (doc_step x d)))"

text \<open>An answer without the values: keys and life times only.\<close>

definition timing :: "('v \<times> int, ('k \<times> 'v \<times> int) set) rtm_ans \<Rightarrow> (int, ('k \<times> int) set) rtm_ans" where
  "timing = map_rtm_ans snd ((`) (\<lambda>(k, v, s). (k, s)))"

abbreviation (input) answer_set ::
  "('v \<times> int, ('k \<times> 'v \<times> int) list) rtm_ans \<Rightarrow> ('v \<times> int, ('k \<times> 'v \<times> int) set) rtm_ans" where
  "answer_set \<equiv> map_rtm_ans id set"

lemma map_rtm_ans_eqs:
  "map_rtm_ans f g a = Stored \<longleftrightarrow> a = Stored" "map_rtm_ans f g a = Exists b \<longleftrightarrow> a = Exists b"
  "map_rtm_ans f g a = Found x \<longleftrightarrow> (\<exists>y. a = Found y \<and> map_option f y = x)"
  "map_rtm_ans f g a = Expired z \<longleftrightarrow> (\<exists>y. a = Expired y \<and> g y = z)"
  by (cases a; auto)+

definition same_times :: "('k \<Rightarrow> ('v \<times> int \<times> time_t) option) \<Rightarrow> ('k \<Rightarrow> ('v \<times> int \<times> time_t) option) \<Rightarrow> bool" where
  "same_times d d' \<longleftrightarrow> (\<forall>k. map_option snd (d k) = map_option snd (d' k))"

lemma same_times_due:
  assumes "same_times d d'"
  shows "(\<lambda>(k, v, s). (k, s)) ` {(k, v, s). \<exists>t. d k = Some (v, s, t) \<and> t \<le> now} =
    (\<lambda>(k, v, s). (k, s)) ` {(k, v, s). \<exists>t. d' k = Some (v, s, t) \<and> t \<le> (now :: time_t)}"
proof -
  have due: "(\<lambda>(k, v, s). (k, s)) ` {(k, v, s). \<exists>t. e k = Some (v, s, t) \<and> t \<le> now} =
      {(k, s). \<exists>t. map_option snd (e k) = Some (s, t) \<and> t \<le> now}" for e :: "'a \<Rightarrow> ('b \<times> int \<times> time_t) option"
    by (force simp: image_iff)
  show ?thesis unfolding due using assms by (simp add: same_times_def)
qed

text \<open>One operation, against a map with the same keys and times and against the map itself.\<close>

lemma rtm_step_refines:
  assumes inv: "rtm_inv m" and ord: "hash_order ord" and d: "same_times (rtm_store m) d"
  obtains m' a where "rtm_step ord x m = Some (m', a)" "rtm_inv m'" "same_times (rtm_store m') (fst (doc_step x d))"
    "timing (answer_set a) = timing (snd (doc_step x d))" "\<forall>xs. a = Expired xs \<longrightarrow> distinct (map fst xs)"
    "rtm_store m = d \<Longrightarrow> keeps_value x d \<Longrightarrow> (rtm_store m', answer_set a) = doc_step x d"
proof (cases x)
  case (Upsert now k v secs)
  with inv d show ?thesis
    by (intro that[of "upsert_record now k v secs m" Stored])
      (auto simp: cc_inv rtm_store_upsert same_times_def timing_def split: option.splits)
next
  case (Remove k)
  with inv d show ?thesis
    by (intro that[of "remove_record k m" Removed]) (auto simp: cc_inv rtm_store_remove same_times_def timing_def)
next
  case (Exist k)
  have "(rtm_store m k = None) = (d k = None)" using d unfolding same_times_def by (metis map_option_is_None)
  with Exist inv d show ?thesis
    by (intro that[of m "Exists (record_exist m k)"]) (auto simp: record_exist_store timing_def)
next
  case (Get k)
  have "map_option snd (rtm_store m k) = map_option snd (d k)" using d by (simp add: same_times_def)
  then have "timing (Found (map_option (\<lambda>(v, s, _). (v, s)) (rtm_store m k))) = timing (snd (doc_step x d))"
    unfolding Get by (cases "rtm_store m k"; cases "d k") (auto simp: timing_def)
  then have t: "timing (answer_set (Found (get_record m k))) = timing (snd (doc_step x d))"
    by (simp only: get_record_store rtm_ans.map option.map_id id_apply)
  show ?thesis
  proof (rule that)
    show "rtm_step ord x m = Some (m, Found (get_record m k))" by (simp add: Get)
    show "rtm_inv m" by (rule inv)
    show "same_times (rtm_store m) (fst (doc_step x d))" using d by (simp add: Get)
    show "timing (answer_set (Found (get_record m k))) = timing (snd (doc_step x d))" by (rule t)
    show "(rtm_store m, answer_set (Found (get_record m k))) = doc_step x d" if "rtm_store m = d"
      unfolding Get that[symmetric] by (simp add: get_record_store option.map_id)
  qed simp
next
  case (Timer now)
  have io: "rtm_inv m \<and> hash_order ord" using inv ord by simp
  from rt.expire_returns[OF io, of now] obtain m' xs where call: "rtm_on_timer ord now m = Some (m', xs)" by blast
  have st: "rtm_store m' = (\<lambda>k. case rtm_store m k of Some (v, s, d) \<Rightarrow> if d \<le> now then None else Some (v, s, d) | None \<Rightarrow> None)"
    using rt.store_expire[OF io call] by (rule ext)
  have xs: "set xs = {(k, v, s). \<exists>t. rtm_store m k = Some (v, s, t) \<and> t \<le> now}"
    using rt.expired_mem[OF io call] by auto
  have "same_times (rtm_store m') (fst (doc_step x d))"
    unfolding same_times_def
  proof
    fix k
    have "map_option snd (rtm_store m k) = map_option snd (d k)" using d by (simp add: same_times_def)
    then show "map_option snd (rtm_store m' k) = map_option snd (fst (doc_step x d) k)"
      using Timer st by (cases "rtm_store m k"; cases "d k") auto
  qed
  moreover have "timing (answer_set (Expired xs)) = timing (snd (doc_step x d))"
    using same_times_due[OF d, of now] by (simp add: Timer timing_def xs)
  moreover have "(rtm_store m', answer_set (Expired xs)) = doc_step x d" if "rtm_store m = d"
    unfolding Timer that[symmetric] st by (simp add: xs)
  moreover have "rtm_step ord x m = Some (m', Expired xs)" by (simp add: Timer call)
  ultimately show ?thesis
    using that[of m' "Expired xs"] rt.inv_expire[OF io call] rt.expired_distinct[OF io call] by blast
qed

lemma rtm_run_refines:
  assumes "hash_order ord" "rtm_inv m" "same_times (rtm_store m) d"
  shows "\<exists>m' as. rtm_run ord ops m = Some (m', as) \<and> rtm_inv m' \<and>
    map (timing \<circ> answer_set) as = map timing (doc_run ops d) \<and>
    (\<forall>xs. Expired xs \<in> set as \<longrightarrow> distinct (map fst xs)) \<and>
    (rtm_store m = d \<longrightarrow> values_kept ops d \<longrightarrow> map answer_set as = doc_run ops d)"
  using assms(2,3)
proof (induction ops arbitrary: m d)
  case (Cons x ops)
  obtain m1 a where s: "rtm_step ord x m = Some (m1, a)" "rtm_inv m1" "same_times (rtm_store m1) (fst (doc_step x d))"
    "timing (answer_set a) = timing (snd (doc_step x d))" "\<forall>xs. a = Expired xs \<longrightarrow> distinct (map fst xs)"
    "rtm_store m = d \<Longrightarrow> keeps_value x d \<Longrightarrow> (rtm_store m1, answer_set a) = doc_step x d"
    using rtm_step_refines[OF Cons.prems(1) assms(1) Cons.prems(2), of x] by blast
  from Cons.IH[OF s(2,3)] obtain m2 as where r: "rtm_run ord ops m1 = Some (m2, as)" "rtm_inv m2"
    "map (timing \<circ> answer_set) as = map timing (doc_run ops (fst (doc_step x d)))"
    "\<forall>xs. Expired xs \<in> set as \<longrightarrow> distinct (map fst xs)"
    "rtm_store m1 = fst (doc_step x d) \<longrightarrow> values_kept ops (fst (doc_step x d)) \<longrightarrow>
       map answer_set as = doc_run ops (fst (doc_step x d))"
    by blast
  have run: "doc_run (x # ops) d = snd (doc_step x d) # doc_run ops (fst (doc_step x d))"
    by (simp add: case_prod_beta Let_def)
  have "map answer_set (a # as) = doc_run (x # ops) d" if "rtm_store m = d" "values_kept (x # ops) d"
  proof -
    have "(rtm_store m1, answer_set a) = doc_step x d" using s(6) that by simp
    then have "rtm_store m1 = fst (doc_step x d)" "answer_set a = snd (doc_step x d)" by (metis fst_conv, metis snd_conv)
    with r(5) that(2) run show ?thesis by simp
  qed
  moreover have "map (timing \<circ> answer_set) (a # as) = map timing (doc_run (x # ops) d)"
    unfolding run using s(4) r(3) by simp
  moreover have "\<forall>xs. Expired xs \<in> set (a # as) \<longrightarrow> distinct (map fst xs)" using s(5) r(4) by auto
  moreover have "rtm_run ord (x # ops) m = Some (m2, a # as)" using s(1) r(1) by simp
  ultimately show ?case using r(2) by blast
qed simp

text \<open>
  Claim C27: the record manager is the map with deadlines that its header documents, up to the values. Any sequence of
  UpsertRecord, RemoveRecord, RecordExist, GetRecord and OnTimer, from an empty manager on, returns, keeps the hash
  map and the time-ordered multimap describing the same records, and gives the answers of that map - which
  keys there are, with which life time, and which records each check reports as due, each of them once - in everything
  but the values. When no upsert of a record that is there passes another value than the record has, the
  values agree too. (Otherwise the old value stays, against the header: \<open>upsert_keeps_old_value\<close>.)
\<close>

theorem record_mgr_refines_map:
  assumes "hash_order ord"
  shows "\<exists>m' as. rtm_run ord ops rtm_init = Some (m', as) \<and> rtm_inv m' \<and>
    map (timing \<circ> answer_set) as = map timing (doc_run ops Map.empty) \<and>
    (\<forall>xs. Expired xs \<in> set as \<longrightarrow> distinct (map fst xs)) \<and>
    (values_kept ops Map.empty \<longrightarrow> map answer_set as = doc_run ops Map.empty)"
  using rtm_run_refines[OF assms rtm_inv_init, of Map.empty ops] by (simp add: same_times_def)

theorem record_mgr_refines_map_witness:
  "\<exists>m' xs. rtm_run rev [Upsert 9 (1::int) ''a'' 5, Upsert 10 2 ''b'' 5, Upsert 12 1 ''a'' 1, Timer 13, Exist 1, Get 2] rtm_init =
     Some (m', [Stored, Stored, Stored, Expired xs, Exists False, Found (Some (''b'', 5))]) \<and> set xs = {(1, ''a'', 1)}"
proof -
  let ?ops = "[Upsert 9 (1::int) ''a'' 5, Upsert 10 2 ''b'' 5, Upsert 12 1 ''a'' 1, Timer 13, Exist 1, Get 2]"
  have "values_kept ?ops Map.empty" by simp
  with record_mgr_refines_map[OF hash_order_rev, of ?ops] obtain m' as where
    "rtm_run rev ?ops rtm_init = Some (m', as)" "map answer_set as = doc_run ?ops Map.empty" by blast
  moreover have "doc_run ?ops Map.empty =
      [Stored, Stored, Stored, Expired {(1, ''a'', 1)}, Exists False, Found (Some (''b'', 5))]"
    by (auto simp: fun_eq_iff split: if_splits)
  ultimately have "map answer_set as = [Stored, Stored, Stored, Expired {(1, ''a'', 1)}, Exists False, Found (Some (''b'', 5))]"
    "rtm_run rev ?ops rtm_init = Some (m', as)" by simp_all
  then show ?thesis by (auto simp: map_eq_Cons_conv map_rtm_ans_eqs)
qed

text \<open>
  Claim C22: the expiry check returns. It takes out exactly the records whose deadline has
  passed, keeps every other record unchanged, reports each expired record once with its value
  and life time, whatever the iteration order of the hash map that collects them, and leaves
  the two containers consistent.
\<close>

theorem expiry_check_correct:
  assumes "rtm_inv m" "hash_order ord"
  shows "\<exists>m' xs. rtm_on_timer ord now m = Some (m', xs) \<and> rtm_inv m' \<and>
    (\<forall>k. rtm_store m' k = (case rtm_store m k of
       Some (v, s, d) \<Rightarrow> if d \<le> now then None else Some (v, s, d) | None \<Rightarrow> None)) \<and>
    distinct (map fst xs) \<and>
    (\<forall>k v s. (k, v, s) \<in> set xs \<longleftrightarrow> (\<exists>d. rtm_store m k = Some (v, s, d) \<and> d \<le> now))"
  using rt.expire_returns[of m ord now] rt.inv_expire[of m ord now] rt.store_expire[of m ord now]
    rt.expired_distinct[of m ord now] rt.expired_mem[of m ord now] assms
  by blast

theorem expiry_check_correct_witness:
  "\<exists>m' xs. rtm_on_timer rev 14 (upsert_record 10 (2::int) ''b'' 5 (upsert_record 9 1 ''a'' 5 rtm_init))
      = Some (m', xs) \<and> (1, ''a'', 5) \<in> set xs \<and> rtm_store m' 2 = Some (''b'', 5, 15)"
proof -
  have "rtm_inv (upsert_record 10 (2::int) ''b'' 5 (upsert_record 9 1 ''a'' 5 rtm_init))"
    by (intro rtm_inv_upsert rtm_inv_init)
  from expiry_check_correct[OF this hash_order_rev, of 14] show ?thesis
    by (auto simp: rtm_store_upsert)
qed

text \<open>
  The expiry check relies on the two containers agreeing. If the first entry of the
  multimap has no record in the hash map, its loop never advances and the check does not return.
\<close>

theorem expiry_check_orphan_diverges:
  assumes "timeout_multimap m = (t, k) # mm" "record_hash_map m k = None"
  shows "rtm_on_timer ord now m = None"
  using expire_scan_orphan[of "record_hash_map m" k now t mm] assms by (simp add: rtm_on_timer_def)

theorem expiry_check_orphan_diverges_witness:
  "rtm_on_timer rev 5 \<lparr>record_hash_map = (\<lambda>k::int. None :: string value_ctx option),
     timeout_multimap = [(3, 1)]\<rparr> = None"
  by (rule expiry_check_orphan_diverges[where t = 3 and k = 1 and mm = "[]"]) simp_all

text \<open>
  UpsertRecord does not update: on an existing key the value argument is dropped, and
  GetRecord keeps returning the value of the first insertion with the new life time.
\<close>

theorem upsert_keeps_old_value:
  assumes "get_record m k = Some (v0, s0)"
  shows "get_record (upsert_record now k v secs m) k = Some (v0, secs)"
  using assms by (auto simp: get_record_store rtm_store_upsert)

theorem upsert_keeps_old_value_witness:
  "get_record (upsert_record 10 (1::int) ''new'' 7 (upsert_record 9 1 ''old'' 5 rtm_init)) 1
     = Some (''old'', 7)"
  using upsert_keeps_old_value[of "upsert_record 9 1 ''old'' 5 rtm_init" "1::int" "''old''" 5 10 "''new''" 7]
  by (simp add: get_record_store rtm_store_upsert)

end
