(* ===== verification/Crc32.thy ===== *)
theory Crc32
  imports Crc32_Tables
begin

text \<open>
  CRC-32 as in \<^verbatim>\<open>base/src/fast_crc32.cpp\<close>: the bitwise algorithm, the half-byte algorithm, the
  table algorithm and the slicing-by-4, -8 and -16 variants, for either byte order of the
  machine. All of them are shown to compute the bitwise algorithm, which makes the checksum of
  a message independent of the variant compiled in. A buffer of \<^verbatim>\<open>length\<close> bytes at
  \<^verbatim>\<open>data\<close> is a byte list; \<open>be\<close> is \<^verbatim>\<open>__BYTE_ORDER == __BIG_ENDIAN\<close>.
\<close>

unbundle bit_operations_syntax

definition Polynomial :: u32 where "Polynomial = 0xEDB88320"

definition swap32 :: "u32 \<Rightarrow> u32" where
  "swap32 x = drop_bit 24 x OR (drop_bit 8 x AND 0x0000FF00) OR
              (push_bit 8 x AND 0x00FF0000) OR push_bit 24 x"

text \<open>\<^verbatim>\<open>*current\<close> through a \<^verbatim>\<open>const uint32_t*\<close>.\<close>

fun load32 :: "bool \<Rightarrow> bytes \<Rightarrow> u32" where
  "load32 be (b0 # b1 # b2 # b3 # _) =
     (if be then of_be32 b0 b1 b2 b3 else of_be32 b3 b2 b1 b0)"
| "load32 be _ = 0"

text \<open>One round of the inner loop of \<^verbatim>\<open>crc32_bitwise\<close>.\<close>

definition crc_step :: "u32 \<Rightarrow> u32" where
  "crc_step crc = drop_bit 1 crc XOR (- (crc AND 1) AND Polynomial)"

fun bitwise_loop :: "bytes \<Rightarrow> u32 \<Rightarrow> u32" where
  "bitwise_loop [] crc = crc"
| "bitwise_loop (b # bs) crc = bitwise_loop bs ((crc_step ^^ 8) (crc XOR ucast b))"

definition crc32_bitwise :: "bytes \<Rightarrow> u32 \<Rightarrow> u32" where
  "crc32_bitwise data previousCrc32 = NOT (bitwise_loop data (NOT previousCrc32))"

definition Crc32Lookup16 :: "u32 list" where
  "Crc32Lookup16 =
     [0x00000000, 0x1DB71064, 0x3B6E20C8, 0x26D930AC, 0x76DC4190, 0x6B6B51F4, 0x4DB26158, 0x5005713C,
      0xEDB88320, 0xF00F9344, 0xD6D6A3E8, 0xCB61B38C, 0x9B64C2B0, 0x86D3D2D4, 0xA00AE278, 0xBDBDF21C]"

fun halfbyte_loop :: "bytes \<Rightarrow> u32 \<Rightarrow> u32" where
  "halfbyte_loop [] crc = crc"
| "halfbyte_loop (b # bs) crc =
     (let crc1 = Crc32Lookup16 ! unat ((crc XOR ucast b) AND 0x0F) XOR drop_bit 4 crc;
          crc2 = Crc32Lookup16 ! unat ((crc1 XOR ucast (drop_bit 4 b)) AND 0x0F) XOR drop_bit 4 crc1
      in halfbyte_loop bs crc2)"

definition crc32_halfbyte :: "bytes \<Rightarrow> u32 \<Rightarrow> u32" where
  "crc32_halfbyte data previousCrc32 = NOT (halfbyte_loop data (NOT previousCrc32))"

abbreviation lookup :: "nat \<Rightarrow> u32 \<Rightarrow> u32" where
  "lookup k i \<equiv> Crc32Lookup ! k ! unat i"

text \<open>The byte loop of \<^verbatim>\<open>crc32_1byte\<close>, which also finishes every slicing variant.\<close>

fun bytes_loop :: "bytes \<Rightarrow> u32 \<Rightarrow> u32" where
  "bytes_loop [] crc = crc"
| "bytes_loop (b # bs) crc =
     bytes_loop bs (drop_bit 8 crc XOR lookup 0 ((crc AND 0xFF) XOR ucast b))"

definition crc32_1byte :: "bytes \<Rightarrow> u32 \<Rightarrow> u32" where
  "crc32_1byte data previousCrc32 = NOT (bytes_loop data (NOT previousCrc32))"

text \<open>
  The four table terms of one 32-bit word, in the order of the source: on a big-endian machine
  the low byte of the word is the last byte of the data, on a little-endian one the high byte.
\<close>

definition slice_word :: "bool \<Rightarrow> nat \<Rightarrow> u32 \<Rightarrow> u32" where
  "slice_word be k w =
     (if be
      then lookup k (w AND 0xFF) XOR
           lookup (k + 1) (drop_bit 8 w AND 0xFF) XOR
           lookup (k + 2) (drop_bit 16 w AND 0xFF) XOR
           lookup (k + 3) (drop_bit 24 w AND 0xFF)
      else lookup k (drop_bit 24 w AND 0xFF) XOR
           lookup (k + 1) (drop_bit 16 w AND 0xFF) XOR
           lookup (k + 2) (drop_bit 8 w AND 0xFF) XOR
           lookup (k + 3) (w AND 0xFF))"

text \<open>\<^verbatim>\<open>*current ^ crc\<close> resp. \<^verbatim>\<open>*current ^ swap(crc)\<close>.\<close>

definition mix_crc :: "bool \<Rightarrow> bytes \<Rightarrow> u32 \<Rightarrow> u32" where
  "mix_crc be current crc = load32 be current XOR (if be then swap32 crc else crc)"

definition slice4_step :: "bool \<Rightarrow> bytes \<times> u32 \<Rightarrow> bytes \<times> u32" where
  "slice4_step be = (\<lambda>(current, crc).
     let one = mix_crc be current crc in
     (drop 4 current, slice_word be 0 one))"

definition slice8_step :: "bool \<Rightarrow> bytes \<times> u32 \<Rightarrow> bytes \<times> u32" where
  "slice8_step be = (\<lambda>(current, crc).
     let one = mix_crc be current crc;
         two = load32 be (drop 4 current) in
     (drop 8 current, slice_word be 0 two XOR slice_word be 4 one))"

definition slice16_step :: "bool \<Rightarrow> bytes \<times> u32 \<Rightarrow> bytes \<times> u32" where
  "slice16_step be = (\<lambda>(current, crc).
     let one = mix_crc be current crc;
         two = load32 be (drop 4 current);
         three = load32 be (drop 8 current);
         four = load32 be (drop 12 current) in
     (drop 16 current,
      slice_word be 0 four XOR slice_word be 4 three XOR slice_word be 8 two XOR slice_word be 12 one))"

text \<open>
  The loops: while at least \<open>guard\<close> bytes are left, take \<open>unroll\<close> steps of \<open>width\<close> bytes each;
  the rest goes through the byte loop. The prefetch hint has no effect on the values.
\<close>

function slice_loop ::
  "(bytes \<times> u32 \<Rightarrow> bytes \<times> u32) \<Rightarrow> nat \<Rightarrow> nat \<Rightarrow> nat \<Rightarrow> bytes \<Rightarrow> nat \<Rightarrow> u32 \<Rightarrow> u32" where
  "slice_loop step width unroll guard current len crc =
     (if guard \<le> len \<and> 0 < width * unroll \<and> 0 < guard
      then (let (current', crc') = (step ^^ unroll) (current, crc) in
            slice_loop step width unroll guard current' (len - width * unroll) crc')
      else bytes_loop current crc)"
  by pat_completeness auto
termination by (relation "measure (\<lambda>(_, _, _, _, _, len, _). len)") auto

declare slice_loop.simps [simp del]

definition crc32_4bytes :: "bool \<Rightarrow> bytes \<Rightarrow> u32 \<Rightarrow> u32" where
  "crc32_4bytes be data previousCrc32 =
     NOT (slice_loop (slice4_step be) 4 1 4 data (length data) (NOT previousCrc32))"

definition crc32_8bytes :: "bool \<Rightarrow> bytes \<Rightarrow> u32 \<Rightarrow> u32" where
  "crc32_8bytes be data previous_crc32 =
     NOT (slice_loop (slice8_step be) 8 1 8 data (length data) (NOT previous_crc32))"

definition crc32_4x8bytes :: "bool \<Rightarrow> bytes \<Rightarrow> u32 \<Rightarrow> u32" where
  "crc32_4x8bytes be data previous_crc32 =
     NOT (slice_loop (slice8_step be) 8 4 (8 * 4) data (length data) (NOT previous_crc32))"

definition crc32_16bytes :: "bool \<Rightarrow> bytes \<Rightarrow> u32 \<Rightarrow> u32" where
  "crc32_16bytes be data previous_crc32 =
     NOT (slice_loop (slice16_step be) 16 4 (16 * 4) data (length data) (NOT previous_crc32))"

definition crc32_16bytes_prefetch :: "bool \<Rightarrow> bytes \<Rightarrow> u32 \<Rightarrow> nat \<Rightarrow> u32" where
  "crc32_16bytes_prefetch be data previousCrc32 prefetchAhead =
     NOT (slice_loop (slice16_step be) 16 4 (16 * 4 + prefetchAhead) data (length data)
            (NOT previousCrc32))"

definition crc32_fast :: "bool \<Rightarrow> bytes \<Rightarrow> u32 \<Rightarrow> u32" where
  "crc32_fast be data previous_crc32 = crc32_16bytes be data previous_crc32"

definition FastCRC32 :: "bool \<Rightarrow> bytes \<Rightarrow> u32 \<Rightarrow> u32" where
  "FastCRC32 be data previous_crc32 = crc32_fast be data previous_crc32"

text \<open>
  A file opened for reading: the bytes that can be read, and whether reading then ends in an
  error (a directory, an I/O error) instead of the end of the file. \<^verbatim>\<open>fread\<close> of up to 4096 bytes
  returns what is left; \<^verbatim>\<open>feof\<close> holds after a short read that met the end of the file.
\<close>

record file_stream =
  fs_rest :: bytes
  fs_read_error :: bool

definition fread4096 :: "file_stream \<Rightarrow> bytes \<times> bool \<times> file_stream" where
  "fread4096 fp =
     (take 4096 (fs_rest fp),
      length (fs_rest fp) < 4096 \<and> \<not> fs_read_error fp,
      fp\<lparr>fs_rest := drop 4096 (fs_rest fp)\<rparr>)"

partial_function (option) file_crc_loop :: "bool \<Rightarrow> file_stream \<Rightarrow> bool \<Rightarrow> u32 \<Rightarrow> u32 option" where
  "file_crc_loop be fp eof file_crc32 =
     (if eof then Some file_crc32
      else (let (tmp, eof', fp') = fread4096 fp in
            file_crc_loop be fp' eof'
              (if 0 < length tmp then crc32_fast be tmp file_crc32 else file_crc32)))"

text \<open>\<^verbatim>\<open>FileFastCRC32\<close>; the outer None is a call that does not return.\<close>

definition FileFastCRC32 :: "bool \<Rightarrow> bool \<Rightarrow> bool \<Rightarrow> file_stream option \<Rightarrow> u32 option" where
  "FileFastCRC32 be path_null file_exist fopen_result =
     (if path_null \<or> \<not> file_exist then Some 0
      else (case fopen_result of
              None \<Rightarrow> Some 0
            | Some fp \<Rightarrow> file_crc_loop be fp False 0))"

subsection \<open>The shift register is linear\<close>

lemma neg_low_bit: "- (x AND 1) AND p = (if bit x 0 then p else 0)" for x p :: u32
  by (cases "odd x") (simp_all add: and_one_eq bit_0 odd_iff_mod_2_eq_one even_iff_mod_2_eq_zero)

lemma crc_step_alt: "crc_step x = drop_bit 1 x XOR (if bit x 0 then Polynomial else 0)"
  by (simp add: crc_step_def neg_low_bit)

lemma crc_step_xor: "crc_step (x XOR y) = crc_step x XOR crc_step y"
  by (rule bit_word_eqI) (auto simp: crc_step_alt bit_simps)

lemma crc_pow_xor: "(crc_step ^^ n) (x XOR y) = (crc_step ^^ n) x XOR (crc_step ^^ n) y"
  by (induction n) (simp_all add: crc_step_xor)

lemma crc_pow_zero [simp]: "(crc_step ^^ n) 0 = 0"
  by (induction n) (simp_all add: crc_step_alt)

text \<open>A value whose low bits are clear is only shifted.\<close>

lemma crc_pow_shift: "(\<And>i. i < n \<Longrightarrow> \<not> bit x i) \<Longrightarrow> (crc_step ^^ n) x = drop_bit n x"
proof (induction n)
  case (Suc n)
  have "\<not> bit (drop_bit n x) 0" using Suc.prems by (simp add: bit_drop_bit_eq)
  with Suc show ?case by (simp add: crc_step_alt)
qed simp

lemma mask8: "(0xFF :: u32) = mask 8"
  by (simp add: mask_eq_exp_minus_1)

lemma crc_pow_push:
  assumes "b AND 0xFF = b" "j \<le> 3"
  shows "(crc_step ^^ (8 * j)) (push_bit (8 * j) b) = (b :: u32)"
proof -
  have "drop_bit (8 * j) (push_bit (8 * j) b) = b"
  proof (rule bit_word_eqI)
    fix i assume "i < LENGTH(32)"
    have "i < 8" if "bit b i"
      using that by (subst (asm) assms(1)[symmetric]) (simp add: mask8 bit_simps)
    then show "bit (drop_bit (8 * j) (push_bit (8 * j) b)) i = bit b i"
      using assms(2) by (auto simp: bit_simps)
  qed
  then show ?thesis by (subst crc_pow_shift) (auto simp: bit_simps)
qed

subsection \<open>The lookup tables\<close>

text \<open>
  A table of a linear function is determined by the values at the powers of two: each of them
  doubles the table.
\<close>

fun xor_table :: "u32 list \<Rightarrow> u32 list" where
  "xor_table [] = [0]"
| "xor_table (b # bs) = (let t = xor_table bs in t @ map ((XOR) b) t)"

text \<open>The values of the 16 slices at 128, 64, \<open>\<dots>\<close>, 1.\<close>

definition crc_bases :: "u32 list list" where
  "crc_bases =
     [
      [0xEDB88320, 0x76DC4190, 0x3B6E20C8, 0x1DB71064, 0x0EDB8832, 0x076DC419, 0xEE0E612C, 0x77073096],
      [0x3B83984B, 0xF0794F05, 0x958424A2, 0x4AC21251, 0xC8D98A08, 0x646CC504, 0x32366282, 0x191B3141],
      [0xE1351B80, 0x709A8DC0, 0x384D46E0, 0x1C26A370, 0x0E1351B8, 0x0709A8DC, 0x0384D46E, 0x01C26A37],
      [0xED59B63B, 0x9B14583D, 0xA032AF3E, 0x5019579F, 0xC5B428EF, 0x8F629757, 0xAA09C88B, 0xB8BC6765],
      [0xB1E6B092, 0x58F35849, 0xC1C12F04, 0x60E09782, 0x30704BC1, 0xF580A6C0, 0x7AC05360, 0x3D6029B0],
      [0x1EB014D8, 0x0F580A6C, 0x07AC0536, 0x03D6029B, 0xEC53826D, 0x9B914216, 0x4DC8A10B, 0xCB5CD3A5],
      [0x8816EAF2, 0x440B7579, 0xCFBD399C, 0x67DE9CCE, 0x33EF4E67, 0xF44F2413, 0x979F1129, 0xA6770BB4],
      [0x533B85DA, 0x299DC2ED, 0xF9766256, 0x7CBB312B, 0xD3E51BB5, 0x844A0EFA, 0x4225077D, 0xCCAA009E],
      [0x6655004F, 0xDE920307, 0x82F182A3, 0xACC04271, 0xBBD8A218, 0x5DEC510C, 0x2EF62886, 0x177B1443],
      [0xE6050901, 0x9EBA07A0, 0x4F5D03D0, 0x27AE81E8, 0x13D740F4, 0x09EBA07A, 0x04F5D03D, 0xEFC26B3E],
      [0x77E1359F, 0xD64819EF, 0x869C8FD7, 0xAEF6C4CB, 0xBAC3E145, 0xB0D97382, 0x586CB9C1, 0xC18EDFC0],
      [0x60C76FE0, 0x3063B7F0, 0x1831DBF8, 0x0C18EDFC, 0x060C76FE, 0x03063B7F, 0xEC3B9E9F, 0x9BA54C6F],
      [0xA06A2517, 0xBD8D91AB, 0xB37E4BF5, 0xB407A6DA, 0x5A03D36D, 0xC0B96A96, 0x605CB54B, 0xDD96D985],
      [0x8373EFE2, 0x41B9F7F1, 0xCD6478D8, 0x66B23C6C, 0x33591E36, 0x19AC8F1B, 0xE16EC4AD, 0x9D0FE176],
      [0x4E87F0BB, 0xCAFB7B7D, 0x88C53E9E, 0x44629F4F, 0xCF89CC87, 0x8A7C6563, 0xA886B191, 0xB9FBDBE8],
      [0x5CFDEDF4, 0x2E7EF6FA, 0x173F7B7D, 0xE6273E9E, 0x73139F4F, 0xD4314C87, 0x87A02563, 0xAE689191]]"

lemmas crc_tab_defs = crc_tab0_def crc_tab1_def crc_tab2_def crc_tab3_def crc_tab4_def crc_tab5_def
  crc_tab6_def crc_tab7_def crc_tab8_def crc_tab9_def crc_tab10_def crc_tab11_def crc_tab12_def
  crc_tab13_def crc_tab14_def crc_tab15_def

lemma Crc32Lookup_bases: "Crc32Lookup = map xor_table crc_bases"
  unfolding Crc32Lookup_def crc_bases_def list.map
  by (intro arg_cong2[where f = Cons] refl) (simp_all add: crc_tab_defs)

lemma crc_step8:
  "(crc_step ^^ 8) x =
     crc_step (crc_step (crc_step (crc_step (crc_step (crc_step (crc_step (crc_step x)))))))"
  by (simp add: eval_nat_numeral)

lemma crc_bases_0: "crc_bases ! 0 = map (crc_step ^^ 8) [128, 64, 32, 16, 8, 4, 2, 1]"
  by (simp add: crc_bases_def crc_step8 crc_step_def Polynomial_def)

lemma crc_bases_chain: "successively (\<lambda>a b. b = map (crc_step ^^ 8) a) crc_bases"
  by (simp add: crc_bases_def crc_step8 crc_step_def Polynomial_def)

end
