(* ===== verification/Crc32_Equiv.thy ===== *)
theory Crc32_Equiv
  imports Crc32
begin

text \<open>
  Every CRC-32 variant of \<^verbatim>\<open>base/src/fast_crc32.cpp\<close> computes the bitwise algorithm: the lookup
  table holds the powers of the shift register, a 32-bit word of data can be mixed into the
  register at once, and the register is linear, so a word splits into its four bytes.
\<close>

unbundle bit_operations_syntax

subsection \<open>Entries of the lookup table\<close>

lemma length_crc_bases: "length crc_bases = 16"
  by (simp add: crc_bases_def)

lemma crc_bases_nth:
  "k < 16 \<Longrightarrow> crc_bases ! k = map (crc_step ^^ (8 * Suc k)) [128, 64, 32, 16, 8, 4, 2, 1]"
proof (induction k)
  case 0
  show ?case by (simp only: crc_bases_0 mult_1_right One_nat_def[symmetric])
next
  case (Suc k)
  have "crc_bases ! Suc k = map (crc_step ^^ 8) (crc_bases ! k)"
    using successively_nth[OF crc_bases_chain] Suc.prems by (simp add: length_crc_bases)
  also have "\<dots> = map (crc_step ^^ (8 * Suc (Suc k))) [128, 64, 32, 16, 8, 4, 2, 1]"
    using Suc by (simp only: Suc_lessD map_map flip: funpow_add) (simp add: algebra_simps)
  finally show ?case .
qed

lemma power_xor_of_nat:
  assumes "n < 32" "i < 2 ^ n"
  shows "2 ^ n XOR of_nat i = (of_nat (i + 2 ^ n) :: u32)"
proof -
  have "2 ^ n AND of_nat i = (0 :: u32)"
    using assms by (intro bit_word_eqI) (auto simp: bit_simps bit_iff_odd[where 'a = nat])
  then show ?thesis by (simp flip: disjunctive_add_eq_xor add: ac_simps)
qed

lemma xor_table_linear:
  fixes f :: "u32 \<Rightarrow> u32"
  assumes lin: "\<And>x y. f (x XOR y) = f x XOR f y" and "f 0 = 0" and "n \<le> 32"
  shows "xor_table (map f (map (\<lambda>j. 2 ^ j) (rev [0..<n]))) = map (\<lambda>i. f (of_nat i)) [0..<2 ^ n]"
  using assms(3)
proof (induction n)
  case 0
  show ?case using assms(2) by simp
next
  case (Suc n)
  let ?t = "map (\<lambda>i. f (of_nat i)) [0..<2 ^ n]"
  have "xor_table (map f (map (\<lambda>j. 2 ^ j) (rev [0..<Suc n]))) = ?t @ map ((XOR) (f (2 ^ n))) ?t"
    using Suc by (simp add: Let_def)
  also have "map ((XOR) (f (2 ^ n))) ?t = map (\<lambda>i. f (of_nat (i + 2 ^ n))) [0..<2 ^ n]"
    using Suc.prems by (simp add: lin[symmetric] power_xor_of_nat)
  also have "\<dots> = map (\<lambda>i. f (of_nat i)) (map (\<lambda>i. i + 2 ^ n) [0..<2 ^ n])"
    by (simp add: comp_def)
  also have "?t @ \<dots> = map (\<lambda>i. f (of_nat i)) [0..<2 ^ Suc n]"
    by (simp only: map_add_upt flip: map_append) (simp add: upt_add_eq_append[symmetric] mult_2)
  finally show ?case .
qed

lemma Crc32Lookup_nth:
  assumes "k < 16" "i < 256"
  shows "Crc32Lookup ! k ! i = (crc_step ^^ (8 * Suc k)) (of_nat i)"
proof -
  have "Crc32Lookup ! k = xor_table (map (crc_step ^^ (8 * Suc k)) [128, 64, 32, 16, 8, 4, 2, 1])"
    using assms(1) by (simp only: Crc32Lookup_bases nth_map length_crc_bases crc_bases_nth)
  also have "[128, 64, 32, 16, 8, 4, 2, 1] = map (\<lambda>j. (2 :: u32) ^ j) (rev [0..<8])"
    by (simp add: upt_rec)
  also have "xor_table (map (crc_step ^^ (8 * Suc k)) \<dots>) =
      map (\<lambda>i. (crc_step ^^ (8 * Suc k)) (of_nat i)) [0..<2 ^ 8]"
    by (rule xor_table_linear[OF crc_pow_xor crc_pow_zero]) simp
  finally show ?thesis using assms(2) by simp
qed

lemma lookup_eq: "k < 16 \<Longrightarrow> lookup k (w AND 0xFF) = (crc_step ^^ (8 * Suc k)) (w AND 0xFF)"
proof -
  assume k: "k < 16"
  have "w AND 0xFF = take_bit 8 w" by (simp add: mask8 take_bit_eq_mask)
  then have "unat (w AND 0xFF) < 256"
    using take_bit_nat_less_exp[of 8 "unat w"] by (simp add: unsigned_take_bit_eq)
  with k show ?thesis by (simp only: Crc32Lookup_nth of_nat_unat ucast_id)
qed

subsection \<open>Splitting a word into bytes\<close>

lemma word_bytes:
  "w = (w AND 0xFF) XOR push_bit (8 * 1) (drop_bit 8 w AND 0xFF) XOR
       push_bit (8 * 2) (drop_bit 16 w AND 0xFF) XOR push_bit (8 * 3) (drop_bit 24 w AND 0xFF)"
  for w :: u32
  by (rule bit_word_eqI) (auto simp: mask8 bit_simps)

lemma crc_pow_push_byte:
  assumes "b AND 0xFF = (b :: u32)" "j \<le> 3" "j \<le> n"
  shows "(crc_step ^^ (8 * n)) (push_bit (8 * j) b) = (crc_step ^^ (8 * (n - j))) b"
proof -
  have "8 * n = 8 * (n - j) + 8 * j" using assms(3) by simp
  then show ?thesis by (simp only: funpow_add comp_apply crc_pow_push[OF assms(1,2)])
qed

lemma slice_word_le:
  assumes "k + 3 < 16"
  shows "slice_word False k w = (crc_step ^^ (8 * (k + 4))) w"
proof -
  have byte: "(crc_step ^^ (8 * (k + 4))) (push_bit (8 * j) (x AND 0xFF)) = lookup (k + 3 - j) (x AND 0xFF)"
    if "j \<le> 3" for j and x :: u32
  proof -
    have "k + 4 - j = Suc (k + 3 - j)" using that by simp
    then show ?thesis
      using that assms by (simp only: crc_pow_push_byte[OF and.right_idem] lookup_eq)
  qed
  have "(crc_step ^^ (8 * (k + 4))) w =
      lookup (k + 3) (w AND 0xFF) XOR lookup (k + 2) (drop_bit 8 w AND 0xFF) XOR
      lookup (k + 1) (drop_bit 16 w AND 0xFF) XOR lookup k (drop_bit 24 w AND 0xFF)"
    using byte[of 0 w] byte[of 1] byte[of 2] byte[of 3]
    by (subst word_bytes) (simp only: crc_pow_xor, simp)
  then show ?thesis by (simp add: slice_word_def ac_simps)
qed

lemma swap32_masks:
  "(0xFF00 :: u32) = push_bit 8 (mask 8)" "(0xFF0000 :: u32) = push_bit 16 (mask 8)"
  by (simp_all add: mask_eq_exp_minus_1)

lemma bit_swap32:
  "bit (swap32 w) n =
     (if n < 8 then bit w (n + 24) else if n < 16 then bit w (n + 8)
      else if n < 24 then bit w (n - 8) else n < 32 \<and> bit w (n - 24))"
  unfolding swap32_def swap32_masks by (auto simp: bit_simps ac_simps dest: bit_imp_le_length)

lemma swap32_xor: "swap32 (x XOR y) = swap32 x XOR swap32 y"
  by (rule bit_word_eqI) (simp add: bit_swap32 bit_xor_iff)

lemma swap32_bytes:
  "swap32 w AND 0xFF = drop_bit 24 w AND 0xFF"
  "drop_bit 8 (swap32 w) AND 0xFF = drop_bit 16 w AND 0xFF"
  "drop_bit 16 (swap32 w) AND 0xFF = drop_bit 8 w AND 0xFF"
  "drop_bit 24 (swap32 w) AND 0xFF = w AND 0xFF"
  by (rule bit_word_eqI; auto simp: bit_swap32 mask8 bit_simps ac_simps)+

lemma slice_word_be: "slice_word True k (swap32 w) = slice_word False k w"
  by (simp add: slice_word_def swap32_bytes)

subsection \<open>Feeding bytes and words\<close>

lemma bit_u8_high: "8 \<le> i \<Longrightarrow> \<not> bit (b :: u8) i"
  using bit_imp_le_length[of b i] by auto

lemma bit_u8_less: "bit (b :: u8) i \<Longrightarrow> i < 8"
  using bit_u8_high not_less by blast

lemma bit_u32_less: "bit (w :: u32) i \<Longrightarrow> i < 32"
  using bit_imp_le_length[of w i] by auto

lemma ucast_byte_mask: "(ucast b :: u32) AND 0xFF = ucast b" for b :: u8
  by (rule bit_word_eqI) (auto simp: mask8 bit_simps dest: bit_u8_less)

lemma bit_of_be32:
  "bit (of_be32 a b c d) n =
     (if n < 8 then bit d n else if n < 16 then bit c (n - 8)
      else if n < 24 then bit b (n - 16) else n < 32 \<and> bit a (n - 24))"
proof -
  consider "n < 8" | "8 \<le> n \<and> n < 16" | "16 \<le> n \<and> n < 24" | "24 \<le> n"
    by linarith
  then show ?thesis by cases (auto simp: of_be32_def bit_simps bit_u8_high)
qed

lemma load32_le:
  "load32 False (b0 # b1 # b2 # b3 # bs) =
     (ucast b0 :: u32) XOR push_bit (8 * 1) (ucast b1) XOR push_bit (8 * 2) (ucast b2) XOR
     push_bit (8 * 3) (ucast b3)"
proof (rule bit_word_eqI)
  fix n assume n: "n < LENGTH(32)"
  consider "n < 8" | "8 \<le> n \<and> n < 16" | "16 \<le> n \<and> n < 24" | "24 \<le> n"
    by linarith
  then show "bit (load32 False (b0 # b1 # b2 # b3 # bs)) n = bit ((ucast b0 :: u32) XOR
      push_bit (8 * 1) (ucast b1) XOR push_bit (8 * 2) (ucast b2) XOR push_bit (8 * 3) (ucast b3)) n"
    using n by cases (auto simp: bit_of_be32 bit_simps bit_u8_high)
qed

lemma load32_be: "load32 True bs = swap32 (load32 False bs)"
proof (cases bs rule: rd32.cases)
  case (1 b0 b1 b2 b3 r)
  have "of_be32 b0 b1 b2 b3 = swap32 (of_be32 b3 b2 b1 b0)"
  proof (rule bit_word_eqI)
    fix n assume "n < LENGTH(32)"
    moreover have "n - 24 = n - 16 - 8" "n - 8 < 8 \<longleftrightarrow> n < 16" "n - 8 < 16 \<longleftrightarrow> n < 24"
      by auto
    ultimately show "bit (of_be32 b0 b1 b2 b3) n = bit (swap32 (of_be32 b3 b2 b1 b0)) n"
      by (auto simp: bit_swap32 bit_of_be32)
  qed
  with 1 show ?thesis by simp
qed (auto simp: swap32_def)

lemma slice_load: "k + 3 < 16 \<Longrightarrow> slice_word be k (load32 be bs) = (crc_step ^^ (8 * (k + 4))) (load32 False bs)"
  by (cases be) (simp_all only: load32_be slice_word_be slice_word_le)

lemma slice_mix: "k + 3 < 16 \<Longrightarrow>
  slice_word be k (mix_crc be bs crc) = (crc_step ^^ (8 * (k + 4))) (load32 False bs XOR crc)"
  by (cases be)
    (simp_all only: mix_crc_def load32_be if_True if_False slice_word_be slice_word_le flip: swap32_xor)

text \<open>Four bytes fed one by one act like one word mixed in at once.\<close>

lemma bitwise_word:
  assumes "4 \<le> length bs"
  shows "bitwise_loop bs crc = bitwise_loop (drop 4 bs) ((crc_step ^^ (8 * 4)) (load32 False bs XOR crc))"
proof -
  obtain b0 b1 b2 b3 r where bs: "bs = b0 # b1 # b2 # b3 # r"
    using assms by (cases bs rule: rd32.cases) auto
  have j: "(crc_step ^^ (8 * 4)) (push_bit (8 * j) (ucast (b :: u8))) = (crc_step ^^ (8 * (4 - j))) (ucast b)"
    if "j \<le> 3" for j b using that by (intro crc_pow_push_byte[OF ucast_byte_mask]) auto
  have comp: "(crc_step ^^ 8) ((crc_step ^^ (8 * n)) x) = (crc_step ^^ (8 * Suc n)) x" for n x
    by (simp only: mult_Suc_right funpow_add comp_apply)
  have "(crc_step ^^ (8 * 4)) (load32 False bs XOR crc) =
      (crc_step ^^ (8 * 4)) (crc XOR ucast b0) XOR (crc_step ^^ (8 * 3)) (ucast b1) XOR
      (crc_step ^^ (8 * 2)) (ucast b2) XOR (crc_step ^^ 8) (ucast b3)"
    using j[of 1 b1] j[of 2 b2] j[of 3 b3]
    by (simp only: bs load32_le crc_pow_xor) (simp add: ac_simps)
  moreover have "(crc_step ^^ 8) ((crc_step ^^ 8) ((crc_step ^^ 8) ((crc_step ^^ 8) (crc XOR ucast b0)
        XOR ucast b1) XOR ucast b2) XOR ucast b3) = \<dots>"
    using comp[of 1] comp[of 2] comp[of 3] by (simp add: crc_pow_xor ac_simps)
  ultimately show ?thesis by (simp add: bs)
qed

lemma crc_byte_split: "(crc_step ^^ 8) x = drop_bit 8 x XOR (crc_step ^^ 8) (x AND 0xFF)"
proof -
  have "x = push_bit 8 (drop_bit 8 x) XOR (x AND 0xFF)"
    by (rule bit_word_eqI) (auto simp: mask8 bit_simps)
  then have "(crc_step ^^ 8) x = (crc_step ^^ 8) (push_bit 8 (drop_bit 8 x)) XOR (crc_step ^^ 8) (x AND 0xFF)"
    using crc_pow_xor by metis
  also have "n < 24" if "bit x (8 + n)" for n using bit_u32_less[OF that] by simp
  then have "(crc_step ^^ 8) (push_bit 8 (drop_bit 8 x)) = drop_bit 8 x"
    by (subst crc_pow_shift) (auto simp: bit_simps intro!: bit_word_eqI)
  finally show ?thesis .
qed

lemma bytes_loop_bitwise: "bytes_loop bs crc = bitwise_loop bs crc"
proof (induction bs arbitrary: crc)
  case (Cons b bs)
  have "(crc AND 0xFF) XOR ucast b = (crc XOR ucast b) AND 0xFF"
    by (simp only: bit.conj_xor_distrib2 ucast_byte_mask)
  then have "lookup 0 ((crc AND 0xFF) XOR ucast b) = (crc_step ^^ 8) ((crc XOR ucast b) AND 0xFF)"
    using lookup_eq[of 0 "crc XOR ucast b"] by simp
  moreover have "drop_bit 8 (crc XOR ucast b) = drop_bit 8 crc"
    by (rule bit_word_eqI) (auto simp: bit_simps dest: bit_u8_less)
  ultimately have "drop_bit 8 crc XOR lookup 0 ((crc AND 0xFF) XOR ucast b) = (crc_step ^^ 8) (crc XOR ucast b)"
    using crc_byte_split[of "crc XOR ucast b"] by simp
  with Cons show ?case by simp
qed simp

text \<open>Half a byte at a time.\<close>

lemma crc_step4: "(crc_step ^^ 4) x = crc_step (crc_step (crc_step (crc_step x)))"
  by (simp add: eval_nat_numeral)

lemma half_table: "i < 16 \<Longrightarrow> Crc32Lookup16 ! i = (crc_step ^^ 4) (of_nat i)"
proof -
  assume "i < 16"
  then have "i \<in> set [0..<16]" by simp
  moreover have "list_all (\<lambda>i. Crc32Lookup16 ! i = (crc_step ^^ 4) (of_nat i)) [0..<16]"
    by code_simp
  ultimately show ?thesis by (simp only: list_all_iff)
qed

lemma half_lookup: "Crc32Lookup16 ! unat (w AND 0x0F) XOR drop_bit 4 w = (crc_step ^^ 4) w"
proof -
  have m: "(0x0F :: u32) = mask 4" by (simp add: mask_eq_exp_minus_1)
  have "unat (w AND 0x0F) < 16"
    using take_bit_nat_less_exp[of 4 "unat w"] by (simp add: m unsigned_take_bit_eq flip: take_bit_eq_mask)
  then have "Crc32Lookup16 ! unat (w AND 0x0F) = (crc_step ^^ 4) (w AND 0x0F)"
    by (simp only: half_table of_nat_unat ucast_id)
  moreover have "n < 28" if "bit w (4 + n)" for n using bit_u32_less[OF that] by simp
  then have "(crc_step ^^ 4) (push_bit 4 (drop_bit 4 w)) = drop_bit 4 w"
    by (subst crc_pow_shift) (auto simp: bit_simps intro!: bit_word_eqI)
  moreover have "w = push_bit 4 (drop_bit 4 w) XOR (w AND 0x0F)"
    by (rule bit_word_eqI) (auto simp: m bit_simps)
  ultimately show ?thesis using crc_pow_xor xor.commute by metis
qed

lemma halfbyte_loop_bitwise: "halfbyte_loop bs crc = bitwise_loop bs crc"
proof (induction bs arbitrary: crc)
  case (Cons b bs)
  let ?lo = "(ucast b :: u32) AND 0x0F" and ?hi = "ucast (drop_bit 4 b) :: u32"
  have m: "(0x0F :: u32) = mask 4" by (simp add: mask_eq_exp_minus_1)
  have split: "ucast b = ?lo XOR push_bit 4 ?hi" "drop_bit 4 ?lo = 0" "drop_bit 4 ?hi = 0"
    "(crc XOR ucast b) AND 0x0F = (crc XOR ?lo) AND 0x0F"
    by (rule bit_word_eqI; auto simp: m bit_simps dest: bit_u8_less)+
  define crc1 where "crc1 = (crc_step ^^ 4) (crc XOR ?lo)"
  have "n < 28" if "bit b (4 + n)" for n using bit_u8_less[OF that] by simp
  then have hi: "(crc_step ^^ 4) (push_bit 4 ?hi) = ?hi"
    by (subst crc_pow_shift) (auto simp: bit_simps intro!: bit_word_eqI)
  have "Crc32Lookup16 ! unat ((crc XOR ucast b) AND 0x0F) XOR drop_bit 4 crc = crc1"
    using half_lookup[of "crc XOR ?lo"] split by (simp add: crc1_def)
  moreover have "Crc32Lookup16 ! unat ((crc1 XOR ?hi) AND 0x0F) XOR drop_bit 4 crc1 = (crc_step ^^ 4) (crc1 XOR ?hi)"
    using half_lookup[of "crc1 XOR ?hi"] split by simp
  moreover have "(crc_step ^^ 4) (crc1 XOR ?hi) = (crc_step ^^ 8) (crc XOR ucast b)"
  proof -
    have "crc1 XOR ?hi = (crc_step ^^ 4) (crc XOR ucast b)"
      unfolding crc1_def by (subst (2) split(1)) (simp only: crc_pow_xor hi ac_simps)
    moreover have "8 = 4 + (4 :: nat)" by simp
    ultimately show ?thesis by (simp only: funpow_add comp_apply)
  qed
  ultimately show ?case using Cons.IH by (simp only: halfbyte_loop.simps bitwise_loop.simps Let_def)
qed simp

subsection \<open>The slicing loops\<close>

text \<open>
  What a slicing step promises to the loop around it: it consumes a fixed number of bytes and
  leaves the register as the bitwise loop would have it.
\<close>

locale slicing =
  fixes step :: "bytes \<times> u32 \<Rightarrow> bytes \<times> u32" and width :: nat
  assumes step_drops: "width \<le> length bs \<Longrightarrow> fst (step (bs, crc)) = drop width bs"
    and step_crc: "width \<le> length bs \<Longrightarrow>
      bitwise_loop (fst (step (bs, crc))) (snd (step (bs, crc))) = bitwise_loop bs crc"
begin

lemma steps:
  "width * n \<le> length bs \<Longrightarrow> fst ((step ^^ n) (bs, crc)) = drop (width * n) bs \<and>
     bitwise_loop (fst ((step ^^ n) (bs, crc))) (snd ((step ^^ n) (bs, crc))) = bitwise_loop bs crc"
proof (induction n)
  case (Suc n)
  obtain bs' crc' where s: "(step ^^ n) (bs, crc) = (bs', crc')" by fastforce
  with Suc have "bs' = drop (width * n) bs" "bitwise_loop bs' crc' = bitwise_loop bs crc"
    "width \<le> length bs'" by auto
  with s step_drops[of bs' crc'] step_crc[of bs' crc'] show ?case by (simp add: add.commute)
qed simp

lemma loop:
  assumes guard: "width * unroll \<le> guard"
  shows "slice_loop step width unroll guard bs (length bs) crc = bitwise_loop bs crc"
proof (induction "length bs" arbitrary: bs crc rule: less_induct)
  case less
  show ?case
  proof (cases "guard \<le> length bs \<and> 0 < width * unroll \<and> 0 < guard")
    case True
    obtain bs' crc' where s: "(step ^^ unroll) (bs, crc) = (bs', crc')" by fastforce
    with steps[of unroll bs crc] True guard
    have bs': "bs' = drop (width * unroll) bs" "bitwise_loop bs' crc' = bitwise_loop bs crc" by auto
    have "length bs - width * unroll < length bs"
      using True guard by (intro diff_less) linarith+
    with bs'(1) have "length bs' < length bs" "length bs - width * unroll = length bs'" by simp_all
    with less[of bs'] s True bs'(2) show ?thesis by (subst slice_loop.simps) simp
  next
    case False
    then show ?thesis by (subst slice_loop.simps) (auto simp: bytes_loop_bitwise)
  qed
qed

end

text \<open>Two words in a row, seen from the register.\<close>

lemma bitwise_word_shift:
  assumes "4 \<le> length bs"
  shows "bitwise_loop bs ((crc_step ^^ (8 * n)) x) =
    bitwise_loop (drop 4 bs) ((crc_step ^^ (8 * 4)) (load32 False bs) XOR (crc_step ^^ (8 * (n + 4))) x)"
proof -
  have "8 * (n + 4) = 8 * 4 + 8 * n" by simp
  then show ?thesis
    using bitwise_word[OF assms, of "(crc_step ^^ (8 * n)) x"] by (simp only: crc_pow_xor funpow_add comp_apply)
qed

lemma slice4_step_crc:
  "4 \<le> length bs \<Longrightarrow>
     bitwise_loop (drop 4 bs) (snd (slice4_step be (bs, crc))) = bitwise_loop bs crc"
  using slice_mix[of 0 be bs crc] bitwise_word[of bs crc] by (simp add: slice4_step_def)

lemma bitwise_words2:
  assumes "8 \<le> length bs"
  shows "bitwise_loop bs crc = bitwise_loop (drop 8 bs)
    ((crc_step ^^ (8 * 4)) (load32 False (drop 4 bs)) XOR (crc_step ^^ (8 * 8)) (load32 False bs XOR crc))"
  using assms bitwise_word[of bs crc] bitwise_word_shift[of "drop 4 bs" 4 "load32 False bs XOR crc"] by simp

lemma slice8_step_crc:
  "8 \<le> length bs \<Longrightarrow>
     bitwise_loop (drop 8 bs) (snd (slice8_step be (bs, crc))) = bitwise_loop bs crc"
  using slice_mix[of 4 be bs crc] slice_load[of 0 be "drop 4 bs"] bitwise_words2[of bs crc]
  by (simp add: slice8_step_def)

lemma slice16_step_crc:
  assumes "16 \<le> length bs"
  shows "bitwise_loop (drop 16 bs) (snd (slice16_step be (bs, crc))) = bitwise_loop bs crc"
proof -
  let ?w = "\<lambda>n. load32 False (drop n bs)"
  have S: "(crc_step ^^ (8 * 8)) ((crc_step ^^ (8 * n)) x) = (crc_step ^^ (8 * (n + 8))) x" for n x
  proof -
    have "8 * (n + 8) = 8 * 8 + 8 * n" by simp
    then show ?thesis by (simp only: funpow_add comp_apply)
  qed
  have "bitwise_loop bs crc = bitwise_loop (drop 8 bs)
      ((crc_step ^^ (8 * 4)) (?w 4) XOR (crc_step ^^ (8 * 8)) (load32 False bs XOR crc))"
    using assms by (intro bitwise_words2) simp
  also have "\<dots> = bitwise_loop (drop 16 bs)
      ((crc_step ^^ (8 * 4)) (?w 12) XOR (crc_step ^^ (8 * 8)) (?w 8 XOR
         ((crc_step ^^ (8 * 4)) (?w 4) XOR (crc_step ^^ (8 * 8)) (load32 False bs XOR crc))))"
    using assms by (subst bitwise_words2) simp_all
  also have "\<dots> = bitwise_loop (drop 16 bs)
      ((crc_step ^^ (8 * 4)) (?w 12) XOR (crc_step ^^ (8 * 8)) (?w 8) XOR
       (crc_step ^^ (8 * 12)) (?w 4) XOR (crc_step ^^ (8 * 16)) (load32 False bs XOR crc))"
    using S[of 4] S[of 8] by (simp only: crc_pow_xor xor.assoc) simp
  also have "\<dots> = bitwise_loop (drop 16 bs) (snd (slice16_step be (bs, crc)))"
    using slice_mix[of 12 be bs crc] slice_load[of 8 be "drop 4 bs"] slice_load[of 4 be "drop 8 bs"]
      slice_load[of 0 be "drop 12 bs"] by (simp add: slice16_step_def)
  finally show ?thesis ..
qed

lemma slice_steps_drop [simp]:
  "fst (slice4_step be (bs, crc)) = drop 4 bs"
  "fst (slice8_step be (bs, crc)) = drop 8 bs"
  "fst (slice16_step be (bs, crc)) = drop 16 bs"
  by (simp_all add: slice4_step_def slice8_step_def slice16_step_def Let_def)

interpretation s4: slicing "slice4_step be" 4 for be
  by unfold_locales (simp_all add: slice4_step_crc)

interpretation s8: slicing "slice8_step be" 8 for be
  by unfold_locales (simp_all add: slice8_step_crc)

interpretation s16: slicing "slice16_step be" 16 for be
  by unfold_locales (simp_all add: slice16_step_crc)

lemma crc32_fast_bitwise: "crc32_fast be data prev = crc32_bitwise data prev"
  by (simp add: crc32_fast_def crc32_16bytes_def crc32_bitwise_def s16.loop)

lemma FastCRC32_bitwise: "FastCRC32 be data prev = crc32_bitwise data prev"
  by (simp add: FastCRC32_def crc32_fast_bitwise)

lemma bitwise_loop_append: "bitwise_loop (xs @ ys) crc = bitwise_loop ys (bitwise_loop xs crc)"
  by (induction xs arbitrary: crc) simp_all

lemma crc32_bitwise_append: "crc32_bitwise (xs @ ys) prev = crc32_bitwise ys (crc32_bitwise xs prev)"
  by (simp add: crc32_bitwise_def bitwise_loop_append)

lemma crc32_bitwise_Nil [simp]: "crc32_bitwise [] prev = prev"
  by (simp add: crc32_bitwise_def)

text \<open>The check value of CRC-32, for the digits 1 to 9.\<close>

lemma crc32_check_value:
  "crc32_bitwise [0x31, 0x32, 0x33, 0x34, 0x35, 0x36, 0x37, 0x38, 0x39] 0 = 0xCBF43926"
  by (simp add: crc32_bitwise_def crc_step8 crc_step_def Polynomial_def mask_eq_exp_minus_1)

text \<open>The register never forgets: a round is injective because the polynomial has its top bit set.\<close>

lemma crc_step_kernel: "crc_step x = 0 \<Longrightarrow> x = 0"
proof -
  assume x: "crc_step x = 0"
  have "bit Polynomial 31" by (simp add: Polynomial_def)
  moreover have "\<not> bit (drop_bit 1 x) 31" using bit_u32_less[of x 32] by (auto simp: bit_drop_bit_eq)
  moreover have "bit (crc_step x) 31 = (bit (drop_bit 1 x) 31 \<noteq> (bit x 0 \<and> bit Polynomial 31))"
    by (auto simp: crc_step_alt bit_xor_iff)
  ultimately have even: "\<not> bit x 0" using x by auto
  then have "drop_bit 1 x = 0" using x by (simp add: crc_step_alt)
  show "x = 0"
  proof (rule bit_word_eqI)
    fix n :: nat
    from even \<open>drop_bit 1 x = 0\<close> show "bit x n = bit 0 n"
      by (cases n) (auto simp: bit_drop_bit_eq dest: arg_cong[where f = "\<lambda>w. bit w (n - 1)"])
  qed
qed

lemma xor_cancel: "x XOR y = 0 \<longleftrightarrow> x = y" "z XOR x = z XOR y \<longleftrightarrow> x = y" for x y z :: u32
  by (metis bit.xor_left_self xor.right_neutral xor_self_eq, metis bit.xor_left_self)

lemma crc_pow_inj: "(crc_step ^^ n) x = (crc_step ^^ n) y \<Longrightarrow> x = y"
proof (induction n arbitrary: x y)
  case (Suc n)
  then have "crc_step ((crc_step ^^ n) x XOR (crc_step ^^ n) y) = 0" by (simp add: crc_step_xor)
  then have "(crc_step ^^ n) x XOR (crc_step ^^ n) y = 0" by (rule crc_step_kernel)
  then show ?case using Suc.IH by (simp add: xor_cancel)
qed simp

lemma bitwise_loop_inj: "bitwise_loop bs x = bitwise_loop bs y \<Longrightarrow> x = y"
proof (induction bs arbitrary: x y)
  case (Cons b bs)
  then have "(crc_step ^^ 8) (x XOR ucast b) = (crc_step ^^ 8) (y XOR ucast b)" by simp
  then have "ucast b XOR x = ucast b XOR y" using crc_pow_inj xor.commute by metis
  then show ?case by (simp only: xor_cancel)
qed simp

subsection \<open>Files\<close>

lemma file_crc_loop_done [simp]: "file_crc_loop be fp True crc = Some crc"
  by (subst file_crc_loop.simps) simp

lemma file_crc_loop_eof:
  "\<not> fs_read_error fp \<Longrightarrow> file_crc_loop be fp False crc = Some (crc32_bitwise (fs_rest fp) crc)"
proof (induction "length (fs_rest fp)" arbitrary: fp crc rule: less_induct)
  case less
  show ?case
  proof (cases "length (fs_rest fp) < 4096")
    case True
    with less.prems show ?thesis
      by (subst file_crc_loop.simps) (simp add: fread4096_def crc32_fast_bitwise)
  next
    case False
    define fp' where "fp' = fp\<lparr>fs_rest := drop 4096 (fs_rest fp)\<rparr>"
    from False have "file_crc_loop be fp False crc =
        file_crc_loop be fp' False (crc32_bitwise (take 4096 (fs_rest fp)) crc)"
      by (subst file_crc_loop.simps) (simp add: fread4096_def crc32_fast_bitwise fp'_def)
    also have "\<dots> = Some (crc32_bitwise (fs_rest fp') (crc32_bitwise (take 4096 (fs_rest fp)) crc))"
      using less False by (intro less) (auto simp: fp'_def)
    finally show ?thesis by (simp add: fp'_def flip: crc32_bitwise_append)
  qed
qed

text \<open>Fixed-point induction: a loop over a stream that ends in an error has no result.\<close>

lemma file_crc_loop_error:
  assumes "fs_read_error fp"
  shows "file_crc_loop be fp False crc = None"
proof (rule ccontr)
  assume "\<not> ?thesis"
  then obtain r where ret: "file_crc_loop be fp False crc = Some r" by auto
  have "\<not> (fs_read_error fp \<and> \<not> False)"
    by (rule file_crc_loop.raw_induct
        [where P = "\<lambda>be fp eof crc r. \<not> (fs_read_error fp \<and> \<not> eof)", OF _ ret])
      (fastforce simp: fread4096_def split: if_splits)
  with assms show False by simp
qed

subsection \<open>Properties\<close>

text \<open>
  Claim C14: all CRC-32 routines compute the same function. The half-byte, the table, the
  slicing-by-4, slicing-by-8, unrolled slicing-by-8 and slicing-by-16 routines (with and without
  prefetch, for any look-ahead) agree with the bitwise algorithm on every input, for every
  starting value and on machines of either byte order; in particular all 4,096 entries of the
  lookup table are right. FastCRC32, which checksums the messages, is one of them.
\<close>

theorem crc32_variants_agree:
  "crc32_halfbyte data prev = crc32_bitwise data prev \<and>
   crc32_1byte data prev = crc32_bitwise data prev \<and>
   crc32_4bytes be data prev = crc32_bitwise data prev \<and>
   crc32_8bytes be data prev = crc32_bitwise data prev \<and>
   crc32_4x8bytes be data prev = crc32_bitwise data prev \<and>
   crc32_16bytes be data prev = crc32_bitwise data prev \<and>
   crc32_16bytes_prefetch be data prev ahead = crc32_bitwise data prev \<and>
   FastCRC32 be data prev = crc32_bitwise data prev"
  by (simp add: crc32_halfbyte_def halfbyte_loop_bitwise crc32_1byte_def bytes_loop_bitwise
      crc32_4bytes_def s4.loop crc32_8bytes_def crc32_4x8bytes_def s8.loop crc32_16bytes_def
      crc32_16bytes_prefetch_def s16.loop FastCRC32_bitwise crc32_bitwise_def)

text \<open>
  A checksum can be computed piece by piece. Feeding the checksum of the first part as
  the previous value when the second part is summed gives the checksum of the whole.
\<close>

theorem FastCRC32_incremental:
  "FastCRC32 be (xs @ ys) prev = FastCRC32 be ys (FastCRC32 be xs prev)"
  by (simp add: FastCRC32_bitwise crc32_bitwise_append)

text \<open>
  The checksum detects every change of a single byte, wherever it is and whatever
  surrounds it.
\<close>

theorem FastCRC32_detects_byte_error:
  "FastCRC32 be (xs @ b # ys) prev = FastCRC32 be (xs @ c # ys) prev \<longleftrightarrow> b = c"
proof
  assume "FastCRC32 be (xs @ b # ys) prev = FastCRC32 be (xs @ c # ys) prev"
  then have "bitwise_loop ys ((crc_step ^^ 8) (bitwise_loop xs (NOT prev) XOR ucast b)) =
      bitwise_loop ys ((crc_step ^^ 8) (bitwise_loop xs (NOT prev) XOR ucast c))"
    by (simp add: FastCRC32_bitwise crc32_bitwise_def bitwise_loop_append)
  then have "(crc_step ^^ 8) (bitwise_loop xs (NOT prev) XOR ucast b) =
      (crc_step ^^ 8) (bitwise_loop xs (NOT prev) XOR ucast c)" by (rule bitwise_loop_inj)
  then have "(ucast b :: u32) = ucast c" using crc_pow_inj xor_cancel(2) by blast
  moreover have "ucast (ucast x :: u32) = x" for x :: u8
    by (rule bit_word_eqI) (auto simp: bit_simps)
  ultimately show "b = c" by metis
qed simp

text \<open>
  FileFastCRC32 sums the whole file. For an existing file that opens and reads to its
  end, the loop over 4096-byte blocks returns, and its result is FastCRC32 of the contents,
  also when their length is a multiple of the block size or zero. When reading ends in an error
  (as for a directory, which opens but cannot be read), end-of-file is never reported and the
  function does not return.
\<close>

theorem FileFastCRC32_correct:
  "FileFastCRC32 be False True (Some fp) =
     (if fs_read_error fp then None else Some (FastCRC32 be (fs_rest fp) 0))"
  by (simp add: FileFastCRC32_def file_crc_loop_error file_crc_loop_eof FastCRC32_bitwise)

end
