(* ===== verification/Proto_Codec.thy ===== *)
theory Proto_Codec
  imports Crc32_Equiv
begin

text \<open>
  The wire format of proto messages: \<^verbatim>\<open>proto_msg_codec/inc/proto_msg.h\<close> and
  \<^verbatim>\<open>proto_msg_codec.h\<close> (\<^verbatim>\<open>MsgCodec\<close>), and the dispatcher and handler manager of
  \<^verbatim>\<open>proto_msg_handler_interface.h\<close> and \<^verbatim>\<open>proto_msg_handler_mgr_template.h\<close>.
  A message on the wire is total length, checksum, passback, message id and body; the length
  field does not count itself. Signed 32-bit fields are kept as their bit patterns.
\<close>

unbundle bit_operations_syntax

subsection \<open>Message heads and constants\<close>

type_synonym i32 = "32 word"

record msg_head =
  passback :: i32
  msg_id :: i32

definition msg_head_reset :: msg_head where
  "msg_head_reset = \<lparr>passback = 0, msg_id = 0\<rparr>"

abbreviation (input) MSG_ID_OK :: i32 where "MSG_ID_OK \<equiv> 0"
abbreviation (input) MSG_ID_NOT_A_WHOLE_MSG :: i32 where "MSG_ID_NOT_A_WHOLE_MSG \<equiv> - 101"
abbreviation (input) MSG_ID_INVALID_MSG_LEN :: i32 where "MSG_ID_INVALID_MSG_LEN \<equiv> - 104"
abbreviation (input) MSG_ID_CHECKSUM_MISMATCH :: i32 where "MSG_ID_CHECKSUM_MISMATCH \<equiv> - 105"
abbreviation (input) MSG_ID_NONE_HANDLER_FOUND :: i32 where "MSG_ID_NONE_HANDLER_FOUND \<equiv> - 106"
abbreviation (input) MSG_ID_SCHEDULE_FAILED :: i32 where "MSG_ID_SCHEDULE_FAILED \<equiv> - 111"
abbreviation (input) MSG_ID_HEARTBEAT_REQ :: i32 where "MSG_ID_HEARTBEAT_REQ \<equiv> - 200"
abbreviation (input) MSG_ID_HEARTBEAT_RSP :: i32 where "MSG_ID_HEARTBEAT_RSP \<equiv> - 201"

abbreviation (input) TOTAL_MSG_LEN_FIELD_LEN :: nat where "TOTAL_MSG_LEN_FIELD_LEN \<equiv> 4"
abbreviation (input) CHECKSUM_FIELD_LEN :: nat where "CHECKSUM_FIELD_LEN \<equiv> 4"
abbreviation (input) PASSBACK_FIELD_LEN :: nat where "PASSBACK_FIELD_LEN \<equiv> 4"
abbreviation (input) MIN_TOTAL_MSG_LEN :: nat where "MIN_TOTAL_MSG_LEN \<equiv> 12"
abbreviation (input) MIN_DATA_LEN :: nat where "MIN_DATA_LEN \<equiv> 16"

record msg_codec_ctx =
  max_msg_body_len :: nat
  do_checksum :: bool

subsection \<open>IsWholeMsg\<close>

text \<open>
  \<^verbatim>\<open>IsWholeMsg\<close> reads the four bytes at \<^verbatim>\<open>data\<close> whatever \<^verbatim>\<open>len\<close> is, so the
  argument \<open>mem\<close> is the memory from \<^verbatim>\<open>data\<close> on, which may reach beyond the message buffer; memory
  that ends before four bytes is an invalid read. The bound \<^verbatim>\<open>max_total_msg_len\<close> is a
  function-local static: the context of the first call ever made fixes it, for every codec of
  the process. It is threaded through as \<open>stat\<close>.
\<close>

datatype whole_check =
    Bad_Read
  | Invalid_Len nat
  | Not_Whole nat
  | Whole nat

definition is_whole_msg ::
  "msg_codec_ctx \<Rightarrow> nat option \<Rightarrow> bytes \<Rightarrow> nat \<Rightarrow> nat option \<times> whole_check" where
  "is_whole_msg ctx stat mem len =
     (let max_total_msg_len =
            (case stat of None \<Rightarrow> MIN_TOTAL_MSG_LEN + max_msg_body_len ctx | Some n \<Rightarrow> n) in
      (Some max_total_msg_len,
       case rd32 mem of
         None \<Rightarrow> Bad_Read
       | Some w \<Rightarrow>
           (let total_msg_len = unat w in
            if total_msg_len < MIN_TOTAL_MSG_LEN \<or> max_total_msg_len < total_msg_len
            then Invalid_Len total_msg_len
            else if len < TOTAL_MSG_LEN_FIELD_LEN + total_msg_len
            then Not_Whole total_msg_len
            else Whole total_msg_len)))"

subsection \<open>DecodeMsg\<close>

datatype decode_result =
    Decode_Bad_Read
  | Decode_Error i32
  | Decoded msg_head bytes

abbreviation msg_crc :: "bytes \<Rightarrow> u32" where
  "msg_crc data \<equiv> FastCRC32 False data 0"

text \<open>
  \<open>buf\<close> is the memory at \<^verbatim>\<open>total_msg_buf\<close>. With the checksum on, the sum runs over
  \<^verbatim>\<open>total_msg_len - 4\<close> bytes, an unsigned difference that wraps for a shorter message; a sum or
  a field that would leave the buffer is an invalid read. Without a body \<^verbatim>\<open>msg_body\<close> is null,
  which is the empty list here.
\<close>

definition decode_msg :: "msg_codec_ctx \<Rightarrow> bytes \<Rightarrow> nat \<Rightarrow> decode_result" where
  "decode_msg ctx buf total_msg_len =
     (let decode_head =
        (case (rd32 (drop CHECKSUM_FIELD_LEN buf),
               rd32 (drop (CHECKSUM_FIELD_LEN + PASSBACK_FIELD_LEN) buf)) of
           (Some pb, Some mid) \<Rightarrow>
             Decoded \<lparr>passback = pb, msg_id = mid\<rparr>
               (if MIN_TOTAL_MSG_LEN < total_msg_len
                then take (total_msg_len - MIN_TOTAL_MSG_LEN) (drop MIN_TOTAL_MSG_LEN buf)
                else [])
         | _ \<Rightarrow> Decode_Bad_Read) in
      if do_checksum ctx
      then (case rd32 buf of
              None \<Rightarrow> Decode_Bad_Read
            | Some checksum_peer \<Rightarrow>
                if total_msg_len < CHECKSUM_FIELD_LEN \<or> length buf < total_msg_len
                then Decode_Bad_Read
                else if checksum_peer \<noteq>
                  msg_crc (take (total_msg_len - CHECKSUM_FIELD_LEN) (drop CHECKSUM_FIELD_LEN buf))
                then Decode_Error MSG_ID_CHECKSUM_MISMATCH
                else decode_head)
      else decode_head)"

subsection \<open>EncodeMsg\<close>

text \<open>Writing into the caller's buffer.\<close>

definition poke :: "nat \<Rightarrow> bytes \<Rightarrow> bytes \<Rightarrow> bytes" where
  "poke off bs buf = take off buf @ bs @ drop (off + length bs) buf"

text \<open>
  The stores in the order of the source. The length is converted from \<^verbatim>\<open>size_t\<close> to 32 bits by
  \<^verbatim>\<open>htonl\<close>. A null body (None) leaves the body bytes of the buffer as they are. The result is
  the return value, the buffer and \<^verbatim>\<open>len\<close>.
\<close>

definition encode_msg ::
  "msg_codec_ctx \<Rightarrow> bytes \<Rightarrow> msg_head \<Rightarrow> bytes option \<Rightarrow> nat \<Rightarrow> int \<times> bytes \<times> nat" where
  "encode_msg ctx data head msg_body msg_body_len =
     (let d1 = poke 0 (be32 (of_nat (MIN_TOTAL_MSG_LEN + msg_body_len))) data;
          d2 = poke (TOTAL_MSG_LEN_FIELD_LEN + CHECKSUM_FIELD_LEN) (be32 (passback head)) d1;
          d3 = poke (TOTAL_MSG_LEN_FIELD_LEN + CHECKSUM_FIELD_LEN + PASSBACK_FIELD_LEN)
                 (be32 (msg_id head)) d2;
          d4 = (case msg_body of
                  None \<Rightarrow> d3
                | Some b \<Rightarrow> poke (TOTAL_MSG_LEN_FIELD_LEN + MIN_TOTAL_MSG_LEN) (take msg_body_len b) d3);
          checksum =
            (if do_checksum ctx
             then msg_crc (take (MIN_TOTAL_MSG_LEN - CHECKSUM_FIELD_LEN + msg_body_len)
                             (drop (TOTAL_MSG_LEN_FIELD_LEN + CHECKSUM_FIELD_LEN) d4))
             else 0);
          d5 = poke TOTAL_MSG_LEN_FIELD_LEN (be32 checksum) d4 in
      (RC_OK, d5, TOTAL_MSG_LEN_FIELD_LEN + MIN_TOTAL_MSG_LEN + msg_body_len))"

text \<open>What the senders do: a buffer of \<^verbatim>\<open>MIN_DATA_LEN + msg_body_len + 1\<close> bytes, then encode.\<close>

definition encode_new :: "msg_codec_ctx \<Rightarrow> bytes \<Rightarrow> msg_head \<Rightarrow> bytes option \<Rightarrow> nat \<Rightarrow> bytes" where
  "encode_new ctx heap_junk head msg_body msg_body_len =
     (let buf = take (MIN_DATA_LEN + msg_body_len + 1) heap_junk;
          (_, data, len) = encode_msg ctx buf head msg_body msg_body_len in
      take len data)"

subsection \<open>MsgDispatcher and the handler manager\<close>

type_synonym msg_dispatcher = "i32 \<rightharpoonup> ptr"

definition attach_msg_handler :: "msg_dispatcher \<Rightarrow> i32 \<Rightarrow> ptr \<Rightarrow> int \<times> msg_dispatcher" where
  "attach_msg_handler d mid handler =
     (case d mid of
        Some _ \<Rightarrow> (RC_ERR, d)
      | None \<Rightarrow> (RC_OK, d(mid \<mapsto> handler)))"

definition detach_msg_handler :: "msg_dispatcher \<Rightarrow> i32 \<Rightarrow> msg_dispatcher" where
  "detach_msg_handler d mid = (if mid \<in> dom d then d(mid := None) else d)"

text \<open>The handler that is called, if any: \<^verbatim>\<open>DispatchMsg\<close> fails exactly when there is none.\<close>

definition dispatch_msg :: "msg_dispatcher \<Rightarrow> msg_head \<Rightarrow> int \<times> ptr option" where
  "dispatch_msg d head = (case d (msg_id head) of None \<Rightarrow> (RC_ERR, None) | Some h \<Rightarrow> (RC_OK, Some h))"

text \<open>
  \<^verbatim>\<open>MsgHandlerMgrTemplate::Initialize\<close> over the handlers of its vector: each with the
  result of its own \<^verbatim>\<open>Initialize\<close> and its message id. The loop stops at the first failure.
\<close>

fun init_handlers :: "(ptr \<times> int \<times> i32) list \<Rightarrow> msg_dispatcher \<Rightarrow> int \<times> msg_dispatcher" where
  "init_handlers [] d = (RC_OK, d)"
| "init_handlers ((h, ret, mid) # hs) d =
     (if ret \<noteq> 0 then (RC_ERR, d)
      else (case attach_msg_handler d mid h of
              (r, d') \<Rightarrow> if r \<noteq> 0 then (RC_ERR, d') else init_handlers hs d'))"

definition handler_mgr_initialize ::
  "int \<Rightarrow> (ptr \<times> int \<times> i32) list \<Rightarrow> msg_dispatcher \<Rightarrow> int \<times> msg_dispatcher" where
  "handler_mgr_initialize vec_ret handlers d =
     (if vec_ret \<noteq> 0 then (RC_ERR, d) else init_handlers handlers d)"

fun handler_mgr_finalize :: "(ptr \<times> int \<times> i32) list \<Rightarrow> msg_dispatcher \<Rightarrow> msg_dispatcher" where
  "handler_mgr_finalize [] d = d"
| "handler_mgr_finalize ((h, ret, mid) # hs) d = handler_mgr_finalize hs (detach_msg_handler d mid)"

fun handler_mgr_activate :: "int list \<Rightarrow> int" where
  "handler_mgr_activate [] = RC_OK"
| "handler_mgr_activate (r # rs) = (if r \<noteq> 0 then RC_ERR else handler_mgr_activate rs)"

subsection \<open>The encoded form\<close>

text \<open>The bytes of a message behind the length field, and the whole frame.\<close>

definition msg_payload :: "msg_head \<Rightarrow> bytes \<Rightarrow> bytes" where
  "msg_payload head body = be32 (passback head) @ be32 (msg_id head) @ body"

definition msg_checksum :: "msg_codec_ctx \<Rightarrow> msg_head \<Rightarrow> bytes \<Rightarrow> u32" where
  "msg_checksum ctx head body = (if do_checksum ctx then msg_crc (msg_payload head body) else 0)"

definition msg_rest :: "msg_codec_ctx \<Rightarrow> msg_head \<Rightarrow> bytes \<Rightarrow> bytes" where
  "msg_rest ctx head body = be32 (msg_checksum ctx head body) @ msg_payload head body"

definition msg_frame :: "msg_codec_ctx \<Rightarrow> msg_head \<Rightarrow> bytes \<Rightarrow> bytes" where
  "msg_frame ctx head body = be32 (of_nat (12 + length body)) @ msg_rest ctx head body"

lemma length_msg_payload [simp]: "length (msg_payload head body) = 8 + length body"
  by (simp add: msg_payload_def)

lemma length_msg_rest [simp]: "length (msg_rest ctx head body) = 12 + length body"
  by (simp add: msg_rest_def)

lemma length_msg_frame [simp]: "length (msg_frame ctx head body) = 16 + length body"
  by (simp add: msg_frame_def)

lemma poke_decomp:
  "length a = off \<Longrightarrow> length b = length bs \<Longrightarrow> poke off bs (a @ b @ c) = a @ bs @ c"
  by (simp add: poke_def)

lemma drop_split: "drop k xs = take n (drop k xs) @ drop (k + n) xs"
  by (metis append_take_drop_id drop_drop add.commute)

lemma buffer_decomp:
  assumes "16 + n \<le> length buf"
  obtains a b c d e f where "buf = a @ b @ c @ d @ e @ f"
    "length a = 4" "length b = 4" "length c = 4" "length d = 4" "length e = n"
proof
  have "drop 0 buf = take 4 buf @ drop 4 buf" "drop 4 buf = take 4 (drop 4 buf) @ drop 8 buf"
    "drop 8 buf = take 4 (drop 8 buf) @ drop 12 buf" "drop 12 buf = take 4 (drop 12 buf) @ drop 16 buf"
    "drop 16 buf = take n (drop 16 buf) @ drop (16 + n) buf"
    using drop_split[of 0 buf 4] drop_split[of 4 buf 4] drop_split[of 8 buf 4] drop_split[of 12 buf 4]
      drop_split[of 16 buf n] by simp_all
  then show "buf = take 4 buf @ take 4 (drop 4 buf) @ take 4 (drop 8 buf) @ take 4 (drop 12 buf) @
      take n (drop 16 buf) @ drop (16 + n) buf"
    by (simp only: drop_0)
qed (use assms in auto)

lemma encode_msg_frame:
  assumes "16 + n \<le> length buf" "n \<le> length body"
  shows "\<exists>rest. encode_msg ctx buf head (Some body) n =
    (RC_OK, msg_frame ctx head (take n body) @ rest, 16 + n)"
proof -
  from assms(1) obtain a b c d e f where buf: "buf = a @ b @ c @ d @ e @ f"
    and len: "length a = 4" "length b = 4" "length c = 4" "length d = 4" "length e = n"
    by (rule buffer_decomp)
  let ?B = "take n body"
  have "length ?B = n" using assms(2) by simp
  note pk = poke_decomp[where a = "[]", simplified] poke_decomp[of "x @ y" for x y, simplified]
    poke_decomp[of "x @ y @ z" for x y z, simplified] poke_decomp[of "x @ y @ z @ w" for x y z w, simplified]
    poke_decomp
  have "encode_msg ctx buf head (Some body) n = (RC_OK, msg_frame ctx head ?B @ f, 16 + n)"
    using len \<open>length ?B = n\<close>
    by (simp add: encode_msg_def buf pk msg_frame_def msg_rest_def msg_checksum_def msg_payload_def)
  then show ?thesis by blast
qed

lemma encode_msg_null:
  assumes "16 + n \<le> length buf"
  shows "\<exists>body rest. length body = n \<and>
    encode_msg ctx buf head None n = (RC_OK, msg_frame ctx head body @ rest, 16 + n)"
proof -
  from assms(1) obtain a b c d e f where buf: "buf = a @ b @ c @ d @ e @ f"
    and len: "length a = 4" "length b = 4" "length c = 4" "length d = 4" "length e = n"
    by (rule buffer_decomp)
  note pk = poke_decomp[where a = "[]", simplified] poke_decomp[of "x @ y" for x y, simplified]
    poke_decomp[of "x @ y @ z" for x y z, simplified] poke_decomp
  have "encode_msg ctx buf head None n = (RC_OK, msg_frame ctx head e @ f, 16 + n)"
    using len by (simp add: encode_msg_def buf pk msg_frame_def msg_rest_def msg_checksum_def msg_payload_def)
  with len(5) show ?thesis by blast
qed

lemma encode_new_Some:
  assumes "16 + length body < length junk"
  shows "encode_new ctx junk head (Some body) (length body) = msg_frame ctx head body"
proof -
  have "16 + length body \<le> length (take (16 + length body + 1) junk)" using assms by simp
  from encode_msg_frame[OF this le_refl, of ctx head] show ?thesis by (auto simp: encode_new_def)
qed

lemma encode_new_None:
  assumes "16 < length junk"
  shows "encode_new ctx junk head None 0 = msg_frame ctx head []"
proof -
  have "16 + 0 \<le> length (take (16 + 0 + 1) junk)" using assms by simp
  from encode_msg_null[OF this, of ctx head] show ?thesis by (auto simp: encode_new_def)
qed

subsection \<open>Recognising and decoding frames\<close>

definition max_total :: "msg_codec_ctx \<Rightarrow> nat option \<Rightarrow> nat" where
  "max_total ctx stat = (case stat of None \<Rightarrow> 12 + max_msg_body_len ctx | Some n \<Rightarrow> n)"

lemma is_whole_msg_alt:
  "rd32 mem = Some w \<Longrightarrow> is_whole_msg ctx stat mem len =
     (Some (max_total ctx stat),
      if unat w < 12 \<or> max_total ctx stat < unat w then Invalid_Len (unat w)
      else if len < 4 + unat w then Not_Whole (unat w) else Whole (unat w))"
  by (simp add: is_whole_msg_def max_total_def Let_def)

text \<open>Messages whose length fits the field and the limit.\<close>

definition sendable :: "msg_codec_ctx \<Rightarrow> nat option \<Rightarrow> bytes \<Rightarrow> bool" where
  "sendable ctx stat body \<longleftrightarrow> 12 + length body \<le> max_total ctx stat \<and> 12 + length body < 2 ^ 32"

lemma unat_of_nat32: "n < 2 ^ 32 \<Longrightarrow> unat (of_nat n :: u32) = n"
  by (simp add: unsigned_of_nat take_bit_nat_eq_self)

lemma rd32_frame: "rd32 (msg_frame ctx head body @ rest) = Some (of_nat (12 + length body))"
  by (simp add: msg_frame_def del: of_nat_add)

lemma is_whole_frame:
  assumes "sendable ctx stat body"
  shows "is_whole_msg ctx stat (msg_frame ctx head body @ rest) len =
    (Some (max_total ctx stat),
     if len < 16 + length body then Not_Whole (12 + length body) else Whole (12 + length body))"
  using assms
  by (simp add: is_whole_msg_alt[OF rd32_frame] sendable_def unat_of_nat32 del: of_nat_add)

lemma decode_rest:
  "decode_msg ctx (msg_rest ctx head body @ rest) (12 + length body) = Decoded head body"
proof -
  have rd: "rd32 (drop 4 (msg_rest ctx head body @ rest)) = Some (passback head)"
    "rd32 (drop 8 (msg_rest ctx head body @ rest)) = Some (msg_id head)"
    by (simp_all add: msg_rest_def msg_payload_def)
  show ?thesis
    unfolding decode_msg_def using rd
    by (simp add: msg_rest_def msg_payload_def msg_checksum_def Let_def)
qed

lemma decode_mismatch:
  assumes "do_checksum ctx" "rd32 buf = Some c" "4 \<le> n" "n \<le> length buf"
    and "c \<noteq> msg_crc (take (n - 4) (drop 4 buf))"
  shows "decode_msg ctx buf n = Decode_Error MSG_ID_CHECKSUM_MISMATCH"
  using assms by (simp add: decode_msg_def Let_def)

lemma decode_whole:
  assumes "is_whole_msg ctx stat (d @ 0 # b) (length d) = (st, Whole n)"
  shows "12 \<le> n" "4 + n \<le> length d" "decode_msg ctx (drop 4 d) n \<noteq> Decode_Bad_Read"
proof -
  from assms show n: "12 \<le> n" "4 + n \<le> length d"
    by (auto simp: is_whole_msg_def Let_def split: option.splits if_splits)
  have "\<exists>w. rd32 (drop k d) = Some w" if "k \<le> 12" for k
    using n that by (simp add: rd32_Some_iff)
  from this[of 4] this[of 8] this[of 12] n show "decode_msg ctx (drop 4 d) n \<noteq> Decode_Bad_Read"
    by (auto simp: decode_msg_def Let_def split: if_splits)
qed

lemma is_whole_readable: "3 \<le> length b \<Longrightarrow> snd (is_whole_msg ctx stat (d @ 0 # b) n) \<noteq> Bad_Read"
  using rd32_Some_iff[of "d @ 0 # b"] by (auto simp: is_whole_msg_def Let_def split: if_splits)

lemma decode_12:
  assumes "12 \<le> length data"
  shows "decode_msg ctx data (length data) \<noteq> Decode_Bad_Read"
proof -
  have "\<exists>w. rd32 (drop k data) = Some w" if "k \<le> 8" for k
    using assms that by (simp add: rd32_Some_iff)
  from this[of 0] this[of 4] this[of 8] assms show ?thesis
    by (auto simp: decode_msg_def Let_def split: if_splits)
qed

lemma ucast_u8_inj: "(ucast b :: u32) = ucast c \<longleftrightarrow> b = c" for b c :: u8
proof -
  have "ucast (ucast x :: u32) = x" for x :: u8
    by (rule bit_word_eqI) (auto simp: bit_simps)
  then show ?thesis by metis
qed

lemma decode_corrupted:
  assumes "do_checksum ctx" "msg_payload head body = xs @ b # ys" "c \<noteq> b"
  shows "decode_msg ctx (be32 (msg_checksum ctx head body) @ xs @ c # ys @ rest) (12 + length body) =
    Decode_Error MSG_ID_CHECKSUM_MISMATCH"
proof (rule decode_mismatch)
  let ?buf = "be32 (msg_checksum ctx head body) @ xs @ c # ys @ rest"
  have len: "length xs + Suc (length ys) = 8 + length body"
    using arg_cong[OF assms(2), of length] by simp
  then have "12 + length body - 4 = length (xs @ c # ys)" by simp
  then have "take (12 + length body - 4) (drop 4 ?buf) = xs @ c # ys"
    by (simp only: take_append drop_append length_be32) simp
  moreover have "msg_crc (xs @ b # ys) \<noteq> msg_crc (xs @ c # ys)"
  proof -
    have "bitwise_loop xs x XOR ucast b \<noteq> bitwise_loop xs x XOR ucast c" for x
      using assms(3) ucast_u8_inj xor_cancel(2) by metis
    then show ?thesis
      by (auto simp: FastCRC32_bitwise crc32_bitwise_def bitwise_loop_append dest!: bitwise_loop_inj crc_pow_inj)
  qed
  ultimately show "msg_checksum ctx head body \<noteq> msg_crc (take (12 + length body - 4) (drop 4 ?buf))"
    using assms(1,2) by (simp add: msg_checksum_def)
  show "12 + length body \<le> length ?buf" using len by simp
qed (use assms(1) in auto)

subsection \<open>Handlers\<close>

definition handler_ids :: "(ptr \<times> int \<times> i32) list \<Rightarrow> i32 list" where
  "handler_ids hs = map (\<lambda>x. snd (snd x)) hs"

lemma handler_ids_simps [simp]:
  "handler_ids [] = []" "handler_ids ((h, r, mid) # hs) = mid # handler_ids hs"
  by (simp_all add: handler_ids_def)

lemma init_handlers_Cons:
  "init_handlers ((h, r, mid) # hs) d =
     (if r = 0 \<and> d mid = None then init_handlers hs (d(mid \<mapsto> h)) else (RC_ERR, d))"
  by (auto simp: attach_msg_handler_def split: option.splits)

declare init_handlers.simps(2) [simp del]

lemma init_handlers_ok:
  "fst (init_handlers hs d) = RC_OK \<longleftrightarrow>
     list_all (\<lambda>x. fst (snd x) = 0) hs \<and> dom d \<inter> set (handler_ids hs) = {} \<and> distinct (handler_ids hs)"
proof (induction hs arbitrary: d)
  case (Cons x hs)
  obtain h r mid where x: "x = (h, r, mid)" by (cases x)
  have "dom (d(mid \<mapsto> h)) \<inter> set (handler_ids hs) = {} \<longleftrightarrow>
      dom d \<inter> set (handler_ids hs) = {} \<and> mid \<notin> set (handler_ids hs)" by auto
  note dom_eq = this
  show ?case
  proof (cases "r = 0 \<and> d mid = None")
    case True
    have "fst (init_handlers (x # hs) d) = RC_OK \<longleftrightarrow> fst (init_handlers hs (d(mid \<mapsto> h))) = RC_OK"
      unfolding x init_handlers_Cons if_P[OF True] ..
    also have "\<dots> \<longleftrightarrow> list_all (\<lambda>x. fst (snd x) = 0) hs \<and>
        (dom d \<inter> set (handler_ids hs) = {} \<and> mid \<notin> set (handler_ids hs)) \<and> distinct (handler_ids hs)"
      unfolding Cons.IH dom_eq ..
    finally show ?thesis using True by (auto simp: x domIff)
  qed (auto simp: x init_handlers_Cons)
qed simp

lemma init_handlers_result:
  "fst (init_handlers hs d) = RC_OK \<Longrightarrow>
     snd (init_handlers hs d) = d ++ map_of (map (\<lambda>x. (snd (snd x), fst x)) hs)"
proof (induction hs arbitrary: d)
  case (Cons x hs)
  obtain h r mid where x: "x = (h, r, mid)" by (cases x)
  let ?m = "map_of (map (\<lambda>x. (snd (snd x), fst x)) hs)"
  from Cons.prems have ok: "r = 0 \<and> d mid = None" "fst (init_handlers hs (d(mid \<mapsto> h))) = RC_OK"
    by (auto simp: x init_handlers_Cons split: if_splits)
  have "mid \<notin> set (handler_ids hs)"
    using Cons.prems unfolding init_handlers_ok by (simp add: x)
  then have "?m mid = None"
    by (force simp: map_of_eq_None_iff handler_ids_def)
  then have "d(mid \<mapsto> h) ++ ?m = d ++ ?m(mid \<mapsto> h)"
    by (auto simp: map_add_def fun_eq_iff split: option.splits)
  moreover have "snd (init_handlers (x # hs) d) = d(mid \<mapsto> h) ++ ?m"
    unfolding x init_handlers_Cons if_P[OF ok(1)] by (rule Cons.IH[OF ok(2)])
  moreover have "map_of (map (\<lambda>x. (snd (snd x), fst x)) (x # hs)) = ?m(mid \<mapsto> h)" by (simp add: x)
  ultimately show ?case by (simp only:)
qed simp

lemma handler_mgr_finalize_eq:
  "handler_mgr_finalize hs d m = (if m \<in> set (handler_ids hs) then None else d m)"
proof (induction hs arbitrary: d)
  case (Cons x hs)
  obtain h r mid where x: "x = (h, r, mid)" by (cases x)
  have "detach_msg_handler d mid = d(mid := None)" by (auto simp: detach_msg_handler_def)
  with Cons.IH show ?case by (simp add: x)
qed simp

lemma finalize_after_init:
  assumes ok: "fst (init_handlers hs d) = RC_OK"
  shows "handler_mgr_finalize hs (d ++ map_of (map (\<lambda>x. (snd (snd x), fst x)) hs)) = d"
proof
  fix m
  show "handler_mgr_finalize hs (d ++ map_of (map (\<lambda>x. (snd (snd x), fst x)) hs)) m = d m"
  proof (cases "m \<in> set (handler_ids hs)")
    case True
    with ok[unfolded init_handlers_ok] have "m \<notin> dom d" by blast
    with True show ?thesis by (simp add: handler_mgr_finalize_eq domIff)
  next
    case False
    then have "map_of (map (\<lambda>x. (snd (snd x), fst x)) hs) m = None"
      by (force simp: map_of_eq_None_iff handler_ids_def)
    with False show ?thesis by (simp add: handler_mgr_finalize_eq map_add_def)
  qed
qed

subsection \<open>Properties\<close>

text \<open>
  Claim C9: what EncodeMsg writes, IsWholeMsg recognises and DecodeMsg reads back. For every head
  and every body that fits the limit, the encoded bytes followed by anything are reported as a
  whole message of the right length as soon as all of them are there, as an incomplete one
  before, and decode to the same head and body, with the checksum on or off.
\<close>

theorem codec_round_trip:
  fixes head :: msg_head
  assumes "sendable ctx stat body" "16 + length body < length junk"
  defines "enc \<equiv> encode_new ctx junk head (Some body) (length body)"
  shows "length enc = 16 + length body \<and>
    snd (is_whole_msg ctx stat (enc @ rest) len) =
      (if len < length enc then Not_Whole (12 + length body) else Whole (12 + length body)) \<and>
    decode_msg ctx (drop 4 (enc @ rest)) (12 + length body) = Decoded head body"
proof -
  have enc: "enc = msg_frame ctx head body"
    unfolding enc_def using assms(2) by (rule encode_new_Some)
  have "drop 4 (msg_frame ctx head body @ rest) = msg_rest ctx head body @ rest"
    by (simp add: msg_frame_def)
  with assms(1) show ?thesis by (simp add: enc is_whole_frame decode_rest)
qed

theorem codec_round_trip_witness:
  "let ctx = \<lparr>max_msg_body_len = 64, do_checksum = True\<rparr>; head = \<lparr>passback = 7, msg_id = 5\<rparr>;
       enc = encode_new ctx (replicate 32 0xAA) head (Some [1, 2, 3]) 3 in
   length enc = 19 \<and> snd (is_whole_msg ctx None (enc @ [9]) 20) = Whole 15 \<and>
   decode_msg ctx (drop 4 (enc @ [9])) 15 = Decoded head [1, 2, 3]"
  using codec_round_trip[of "\<lparr>max_msg_body_len = 64, do_checksum = True\<rparr>" None "[1, 2, 3]"
      "replicate 32 0xAA" "\<lparr>passback = 7, msg_id = 5\<rparr>" "[9]" 20]
  by (simp add: sendable_def max_total_def Let_def numeral_3_eq_3 del: drop_append)

text \<open>
  Claim C34: with the checksum on, a message with one wrong byte in its head or body is never
  decoded: DecodeMsg fails with the checksum error.
\<close>

theorem corrupted_msg_rejected:
  assumes "do_checksum ctx" "msg_payload head body = xs @ b # ys" "c \<noteq> b"
  shows "decode_msg ctx (be32 (msg_checksum ctx head body) @ xs @ c # ys @ rest) (12 + length body) =
    Decode_Error MSG_ID_CHECKSUM_MISMATCH"
  by (rule decode_corrupted[OF assms])

theorem corrupted_msg_rejected_witness:
  "let ctx = \<lparr>max_msg_body_len = 64, do_checksum = True\<rparr>; head = \<lparr>passback = 7, msg_id = 5\<rparr> in
   decode_msg ctx (be32 (msg_checksum ctx head [1]) @ [0, 0, 0, 7, 0, 0, 0, 5, 2]) 13 =
     Decode_Error MSG_ID_CHECKSUM_MISMATCH"
  using corrupted_msg_rejected[of "\<lparr>max_msg_body_len = 64, do_checksum = True\<rparr>"
      "\<lparr>passback = 7, msg_id = 5\<rparr>" "[1]" "[0, 0, 0, 7, 0, 0, 0, 5]" 1 "[]" 2 "[]"]
  by (simp add: msg_payload_def be32_def Let_def)

text \<open>
  The length limit of the first codec that checks a message is the limit of every codec
  of the process. A second codec with a higher configured limit still refuses the messages between
  the two limits, because the bound is a function-local static.
\<close>

theorem first_codec_fixes_limit:
  fixes mem1 :: bytes and len1 :: nat
  assumes "max_msg_body_len ctx1 < length body" "length body \<le> max_msg_body_len ctx2"
    and "12 + length body < 2 ^ 32"
  defines "stat \<equiv> fst (is_whole_msg ctx1 None mem1 len1)"
  shows "snd (is_whole_msg ctx2 stat (msg_frame ctx2 head body) len) = Invalid_Len (12 + length body) \<and>
    snd (is_whole_msg ctx2 None (msg_frame ctx2 head body) (16 + length body)) = Whole (12 + length body)"
proof
  have "stat = Some (12 + max_msg_body_len ctx1)" by (simp add: stat_def is_whole_msg_def Let_def)
  then show "snd (is_whole_msg ctx2 stat (msg_frame ctx2 head body) len) = Invalid_Len (12 + length body)"
    using assms(1,3) is_whole_msg_alt[OF rd32_frame[where rest = "[]"], of ctx2 stat ctx2 head body len]
    by (simp add: max_total_def unat_of_nat32 del: of_nat_add)
  show "snd (is_whole_msg ctx2 None (msg_frame ctx2 head body) (16 + length body)) = Whole (12 + length body)"
    using assms(2,3) is_whole_frame[of ctx2 None body head "[]"] by (simp add: sendable_def max_total_def)
qed

theorem first_codec_fixes_limit_witness:
  "let ctx1 = \<lparr>max_msg_body_len = 1, do_checksum = False\<rparr>;
       ctx2 = \<lparr>max_msg_body_len = 64, do_checksum = False\<rparr>;
       stat = fst (is_whole_msg ctx1 None [0, 0, 0, 12] 4) in
   snd (is_whole_msg ctx2 stat (msg_frame ctx2 \<lparr>passback = 7, msg_id = 5\<rparr> [1, 2]) 18) = Invalid_Len 14"
  using first_codec_fixes_limit[of "\<lparr>max_msg_body_len = 1, do_checksum = False\<rparr>" "[1, 2]"
      "\<lparr>max_msg_body_len = 64, do_checksum = False\<rparr>" "[0, 0, 0, 12]" 4 "\<lparr>passback = 7, msg_id = 5\<rparr>" 18]
  by (simp add: Let_def)

text \<open>
  Registering a group of handlers succeeds exactly when each of them initialises, no two
  share a message id and none of the ids is taken. Then every message id of the group
  dispatches to its handler, the other ids as before, and Finalize restores the dispatcher.
  After a failed registration Finalize still detaches all ids of the group, also one that a
  handler of another group had attached.
\<close>

theorem handler_registration:
  "(fst (handler_mgr_initialize 0 hs d) = RC_OK \<longleftrightarrow>
      list_all (\<lambda>x. fst (snd x) = 0) hs \<and> dom d \<inter> set (handler_ids hs) = {} \<and> distinct (handler_ids hs)) \<and>
   (fst (handler_mgr_initialize 0 hs d) = RC_OK \<longrightarrow>
      (let d' = snd (handler_mgr_initialize 0 hs d) in
       d' = d ++ map_of (map (\<lambda>x. (snd (snd x), fst x)) hs) \<and> handler_mgr_finalize hs d' = d)) \<and>
   (d mid = Some other \<longrightarrow>
      (let r = handler_mgr_initialize 0 [(h, 0, mid)] d in
       fst r = RC_ERR \<and> snd r = d \<and> handler_mgr_finalize [(h, 0, mid)] (snd r) mid = None))"
proof (intro conjI impI)
  show "fst (handler_mgr_initialize 0 hs d) = RC_OK \<longleftrightarrow>
     list_all (\<lambda>x. fst (snd x) = 0) hs \<and> dom d \<inter> set (handler_ids hs) = {} \<and> distinct (handler_ids hs)"
    by (simp add: handler_mgr_initialize_def init_handlers_ok)
next
  assume "fst (handler_mgr_initialize 0 hs d) = RC_OK"
  then show "let d' = snd (handler_mgr_initialize 0 hs d) in
      d' = d ++ map_of (map (\<lambda>x. (snd (snd x), fst x)) hs) \<and> handler_mgr_finalize hs d' = d"
    using init_handlers_result finalize_after_init by (simp add: handler_mgr_initialize_def Let_def)
next
  assume "d mid = Some other"
  then show "let r = handler_mgr_initialize 0 [(h, 0, mid)] d in
      fst r = RC_ERR \<and> snd r = d \<and> handler_mgr_finalize [(h, 0, mid)] (snd r) mid = None"
    by (simp add: handler_mgr_initialize_def init_handlers_Cons handler_mgr_finalize_eq
        del: handler_mgr_finalize.simps)
qed

theorem handler_registration_witness:
  "handler_mgr_finalize [(9, 0, 5), (8, 0, 6)] (snd (handler_mgr_initialize 0 [(9, 0, 5), (8, 0, 6)] Map.empty))
     = Map.empty"
proof -
  have "fst (handler_mgr_initialize 0 [(9, 0, 5), (8, 0, 6)] Map.empty) = RC_OK"
    by (simp add: handler_mgr_initialize_def init_handlers_Cons)
  with handler_registration show ?thesis unfolding Let_def by blast
qed

end
