(* ===== verification/Conn_Center.thy ===== *)
theory Conn_Center
  imports Seq_Num Record_Timeout
begin

text \<open>
  TCP connections of one I/O thread: \<^verbatim>\<open>app_frame/inc/conn.h\<close> (\<^verbatim>\<open>ConnGUID\<close>),
  \<^verbatim>\<open>tcp_threads/src/base_conn.h\<close>, \<^verbatim>\<open>normal_conn.cpp\<close> and \<^verbatim>\<open>buffer_event_conn.cpp\<close>
  (creation, sending and destruction of a connection), \<^verbatim>\<open>conn_center.cpp\<close> (the tables by
  socket and by id, idle connections, storm detection) and the connection handling of
  \<^verbatim>\<open>thread_sink.cpp\<close>. Connection objects live in a heap so that a dangling pointer shows; every
  call of \<^verbatim>\<open>evutil_closesocket\<close>, made directly or by freeing a bufferevent, is recorded.
\<close>

subsection \<open>Connections\<close>

datatype io_type = IO_TYPE_TCP | IO_TYPE_PROTO_TCP | IO_TYPE_WEB_TCP | IO_TYPE_UDP | IO_TYPE_MAX

record conn_guid =
  io_type :: io_type
  io_thread_idx :: int
  conn_id :: int

definition conn_guid_init :: conn_guid where
  "conn_guid_init = \<lparr>io_type = IO_TYPE_MAX, io_thread_idx = - 1, conn_id = INVALID_SEQ_NUM\<rparr>"

text \<open>
  \<^verbatim>\<open>BaseConn\<close> with the members of both kinds of connection. \<open>write_event\<close> is None while no
  event was created, then whether it is pending.
\<close>

record base_conn =
  use_bufferevent :: bool
  created_time :: time_t
  the_guid :: conn_guid
  client_ip :: string
  client_port :: int
  sock_fd :: int
  recv_data :: bytes
  read_event :: bool
  write_event :: "bool option"
  send_list :: "bytes list"
  buffer_event :: bool

definition base_conn_init :: "bool \<Rightarrow> base_conn" where
  "base_conn_init bev =
     \<lparr>use_bufferevent = bev, created_time = 0, the_guid = conn_guid_init, client_ip = [],
      client_port = 0, sock_fd = - 1, recv_data = [], read_event = False, write_event = None,
      send_list = [], buffer_event = False\<rparr>"

abbreviation c_id :: "base_conn \<Rightarrow> int" where "c_id c \<equiv> conn_id (the_guid c)"

text \<open>What the event library answers: creating an event or bufferevent, adding or enabling it.\<close>

record conn_ev =
  new_ok :: bool
  add_ok :: bool

text \<open>\<^verbatim>\<open>Initialize\<close>: return value, connection, sockets closed on the way.\<close>

definition normal_initialize :: "conn_ev \<Rightarrow> base_conn \<Rightarrow> int \<times> base_conn \<times> int list" where
  "normal_initialize ev c =
     (if \<not> new_ok ev then (RC_ERR, c, [sock_fd c])
      else if \<not> add_ok ev then (RC_ERR, c\<lparr>read_event := False\<rparr>, [sock_fd c])
      else (RC_OK, c\<lparr>read_event := True\<rparr>, []))"

definition buffer_initialize :: "conn_ev \<Rightarrow> base_conn \<Rightarrow> int \<times> base_conn \<times> int list" where
  "buffer_initialize ev c =
     (if \<not> new_ok ev then (RC_ERR, c, [sock_fd c])
      else if \<not> add_ok ev then (RC_ERR, c\<lparr>buffer_event := False\<rparr>, [sock_fd c])
      else (RC_OK, c\<lparr>buffer_event := True\<rparr>, []))"

definition conn_initialize :: "conn_ev \<Rightarrow> base_conn \<Rightarrow> int \<times> base_conn \<times> int list" where
  "conn_initialize ev c = (if use_bufferevent c then buffer_initialize ev c else normal_initialize ev c)"

text \<open>\<^verbatim>\<open>Finalize\<close>: a bufferevent closes its socket when it is freed.\<close>

definition conn_finalize :: "base_conn \<Rightarrow> base_conn \<times> int list" where
  "conn_finalize c =
     (if use_bufferevent c
      then (if buffer_event c then (c\<lparr>buffer_event := False\<rparr>, [sock_fd c]) else (c, []))
      else (c\<lparr>write_event := None, read_event := False, sock_fd := - 1, send_list := []\<rparr>, [sock_fd c]))"

text \<open>\<^verbatim>\<open>NormalConn::Send\<close>.\<close>

definition normal_send :: "conn_ev \<Rightarrow> bytes \<Rightarrow> base_conn \<Rightarrow> int \<times> base_conn" where
  "normal_send ev data c =
     (case write_event c of
        None \<Rightarrow>
          if \<not> new_ok ev \<or> \<not> add_ok ev then (RC_ERR, c\<lparr>write_event := None\<rparr>)
          else (RC_OK, c\<lparr>write_event := Some True, send_list := send_list c @ [data]\<rparr>)
      | Some _ \<Rightarrow>
          if send_list c = []
          then (if \<not> add_ok ev then (RC_ERR, c\<lparr>write_event := None\<rparr>)
                else (RC_OK, c\<lparr>write_event := Some True, send_list := send_list c @ [data]\<rparr>))
          else (RC_OK, c\<lparr>send_list := send_list c @ [data]\<rparr>))"

subsection \<open>The connection center\<close>

record client_ctx =
  cx_conn :: ptr
  start_time :: time_t
  recv_count :: int

definition client_ctx_init :: client_ctx where
  "client_ctx_init = \<lparr>cx_conn = 0, start_time = 0, recv_count = 0\<rparr>"

record conn_center =
  cfg_bufferevent :: bool
  inactive_conn_life :: int
  storm_interval :: int
  storm_threshold :: int
  conn_heap :: "ptr \<rightharpoonup> base_conn"
  conn_hash_map :: "int \<rightharpoonup> client_ctx"
  conn_id_seq :: seq_num
  conn_id_hash_map :: "int \<rightharpoonup> ptr"
  conn_records :: "(int, ptr) record_mgr"
  max_online_conn_count :: int
  closed_socks :: "int list"

datatype conn_error = Dangling_Conn ptr | Stack_Overflow

definition cc_init :: "bool \<Rightarrow> int \<Rightarrow> int \<Rightarrow> int \<Rightarrow> conn_center" where
  "cc_init bev life interval threshold =
     \<lparr>cfg_bufferevent = bev, inactive_conn_life = life, storm_interval = interval,
      storm_threshold = threshold, conn_heap = Map.empty, conn_hash_map = Map.empty,
      conn_id_seq = seq_reset 1 I32_SEQ_MAX, conn_id_hash_map = Map.empty,
      conn_records = rtm_init, max_online_conn_count = 0, closed_socks = []\<rparr>"

text \<open>\<^verbatim>\<open>Clear\<close>: the tables, then Freeze, Finalize and Release of the object, then the id.\<close>

definition cc_clear :: "ptr \<Rightarrow> conn_center \<Rightarrow> conn_error + conn_center" where
  "cc_clear p s =
     (case conn_heap s p of
        None \<Rightarrow> Inl (Dangling_Conn p)
      | Some c \<Rightarrow>
          (let (_, closed) = conn_finalize c in
           Inr (s\<lparr>conn_hash_map := (conn_hash_map s)(sock_fd c := None),
                  conn_heap := (conn_heap s)(p := None),
                  closed_socks := closed @ closed_socks s,
                  conn_id_seq := seq_free (conn_id_seq s) (c_id c),
                  conn_id_hash_map := (conn_id_hash_map s)(c_id c := None)\<rparr>)))"

text \<open>
  \<^verbatim>\<open>CreateConn\<close>; \<open>p\<close> is the address of the new object, the result 0 is the null pointer. The
  outer None is an id allocation that does not return.
\<close>

definition create_conn ::
  "ptr \<Rightarrow> conn_ev \<Rightarrow> time_t \<Rightarrow> io_type \<Rightarrow> int \<Rightarrow> string \<Rightarrow> int \<Rightarrow> int \<Rightarrow> conn_center \<Rightarrow>
   (conn_error + ptr \<times> conn_center) option" where
  "create_conn p ev now io thread_idx ip port fd s =
     (let c0 = base_conn_init (cfg_bufferevent s);
          s0 = s\<lparr>conn_heap := (conn_heap s)(p \<mapsto> c0)\<rparr> in
      case seq_alloc 1 I32_SEQ_MAX (conn_id_seq s0) of
        None \<Rightarrow> None
      | Some (cid, seq') \<Rightarrow>
          if cid = INVALID_SEQ_NUM
          then Some (Inr (0, s0\<lparr>conn_id_seq := seq', conn_heap := (conn_heap s0)(p := None)\<rparr>))
          else
            (let c1 = c0\<lparr>created_time := now,
                         the_guid := \<lparr>io_type = io, io_thread_idx = thread_idx, conn_id = cid\<rparr>,
                         client_ip := ip, client_port := port, sock_fd := fd\<rparr>;
                 (ret, c2, closed) = conn_initialize ev c1;
                 s1 = s0\<lparr>conn_id_seq := seq', conn_heap := (conn_heap s0)(p \<mapsto> c2),
                         closed_socks := closed @ closed_socks s0\<rparr>;
                 fail = (let s2 = (if record_exist (conn_records s1) cid
                                   then s1\<lparr>conn_records := remove_record cid (conn_records s1)\<rparr> else s1) in
                         case cc_clear p s2 of Inl e \<Rightarrow> Some (Inl e) | Inr s3 \<Rightarrow> Some (Inr (0, s3))) in
             if ret \<noteq> 0 then fail
             else if conn_id_hash_map s1 cid \<noteq> None then fail
             else
               (let s2 = s1\<lparr>conn_id_hash_map := (conn_id_hash_map s1)(cid \<mapsto> p),
                            conn_hash_map := (conn_hash_map s1)
                              (fd \<mapsto> \<lparr>cx_conn = p, start_time = now, recv_count = 0\<rparr>),
                            conn_records := upsert_record now cid p (inactive_conn_life s1) (conn_records s1)\<rparr>;
                    online = int (card (dom (conn_hash_map s2))) in
                Some (Inr (p, if max_online_conn_count s2 < online
                              then s2\<lparr>max_online_conn_count := online\<rparr> else s2)))))"

definition destroy_conn :: "int \<Rightarrow> conn_center \<Rightarrow> conn_error + conn_center" where
  "destroy_conn fd s =
     (case conn_hash_map s fd of
        None \<Rightarrow> Inr s
      | Some x \<Rightarrow>
          (case conn_heap s (cx_conn x) of
             None \<Rightarrow> Inl (Dangling_Conn (cx_conn x))
           | Some c \<Rightarrow>
               cc_clear (cx_conn x)
                 (if record_exist (conn_records s) (c_id c)
                  then s\<lparr>conn_records := remove_record (c_id c) (conn_records s)\<rparr> else s)))"

text \<open>
  \<^verbatim>\<open>UpdateConnStatus\<close>; \<^verbatim>\<open>conn_hash_map_[sock_fd]\<close> makes an entry where there is none.
\<close>

definition update_conn_status :: "time_t \<Rightarrow> int \<Rightarrow> bool \<Rightarrow> conn_center \<Rightarrow> conn_error + int \<times> conn_center" where
  "update_conn_status now cid inward s =
     (case conn_id_hash_map s cid of
        None \<Rightarrow> Inr (RC_OK, s)
      | Some p \<Rightarrow>
          (let upsert = (\<lambda>s. s\<lparr>conn_records := upsert_record now cid p (inactive_conn_life s) (conn_records s)\<rparr>) in
           if \<not> inward then Inr (RC_OK, upsert s)
           else
             (case conn_heap s p of
                None \<Rightarrow> Inl (Dangling_Conn p)
              | Some c \<Rightarrow>
                  (let x0 = (case conn_hash_map s (sock_fd c) of None \<Rightarrow> client_ctx_init | Some x \<Rightarrow> x);
                       x1 = x0\<lparr>recv_count := recv_count x0 + 1\<rparr>;
                       put = (\<lambda>x. s\<lparr>conn_hash_map := (conn_hash_map s)(sock_fd c \<mapsto> x)\<rparr>) in
                   if storm_interval s \<le> now - start_time x1
                   then (if storm_threshold s \<le> recv_count x1
                         then Inr (RC_ERR, put x1)
                         else Inr (RC_OK, upsert (put (x1\<lparr>start_time := now, recv_count := 0\<rparr>))))
                   else Inr (RC_OK, upsert (put x1))))))"

definition get_conn_by_sock_fd :: "conn_center \<Rightarrow> int \<Rightarrow> ptr" where
  "get_conn_by_sock_fd s fd = (case conn_hash_map s fd of None \<Rightarrow> 0 | Some x \<Rightarrow> cx_conn x)"

definition get_conn_by_id :: "conn_center \<Rightarrow> int \<Rightarrow> ptr" where
  "get_conn_by_id s cid = (case conn_id_hash_map s cid of None \<Rightarrow> 0 | Some p \<Rightarrow> p)"

subsection \<open>Connections in the thread sink\<close>

text \<open>
  \<^verbatim>\<open>ThreadSink\<close>: the connection center, the online counters, the configured limit, whether
  the thread is stopping, and the notifications the logics were given, latest first.
\<close>

datatype conn_notice = Connected conn_guid | Closed conn_guid

record tcp_sink =
  center :: conn_center
  online_tcp_conn_count :: int
  max_online_tcp_conn_count :: int
  tcp_conn_count_limit :: int
  stopping :: bool
  notices :: "conn_notice list"

text \<open>
  \<^verbatim>\<open>ThreadSink::OnClientClosed\<close>. The logics are told first and may close connections from
  inside the callback (\<^verbatim>\<open>Scheduler::CloseClient\<close>): \<open>react\<close> gives the ids they close. The nesting of
  such calls is bounded by the stack, here by the first argument.
\<close>

fun on_client_closed :: "nat \<Rightarrow> (conn_guid \<Rightarrow> int list) \<Rightarrow> ptr \<Rightarrow> tcp_sink \<Rightarrow> conn_error + tcp_sink"
and close_clients :: "nat \<Rightarrow> (conn_guid \<Rightarrow> int list) \<Rightarrow> int list \<Rightarrow> tcp_sink \<Rightarrow> conn_error + tcp_sink" where
  "on_client_closed 0 react p s = Inl Stack_Overflow"
| "on_client_closed (Suc n) react p s =
     (case conn_heap (center s) p of
        None \<Rightarrow> Inl (Dangling_Conn p)
      | Some c \<Rightarrow>
          (case close_clients n react (react (the_guid c)) (s\<lparr>notices := Closed (the_guid c) # notices s\<rparr>) of
             Inl e \<Rightarrow> Inl e
           | Inr s1 \<Rightarrow>
               (case conn_heap (center s1) p of
                  None \<Rightarrow> Inl (Dangling_Conn p)
                | Some c1 \<Rightarrow>
                    (case destroy_conn (sock_fd c1) (center s1) of
                       Inl e \<Rightarrow> Inl e
                     | Inr cc \<Rightarrow>
                         Inr (s1\<lparr>center := cc, online_tcp_conn_count := online_tcp_conn_count s1 - 1\<rparr>)))))"
| "close_clients n react [] s = Inr s"
| "close_clients n react (i # is) s =
     (case conn_id_hash_map (center s) i of
        None \<Rightarrow> close_clients n react is s
      | Some q \<Rightarrow>
          (case n of
             0 \<Rightarrow> Inl Stack_Overflow
           | Suc m \<Rightarrow>
               (case on_client_closed m react q s of
                  Inl e \<Rightarrow> Inl e
                | Inr s1 \<Rightarrow> close_clients n react is s1)))"

text \<open>
  \<^verbatim>\<open>ThreadSink::OnClientConnected\<close> and \<^verbatim>\<open>OnAccept\<close>. A connection already filed under the
  socket is destroyed first, without telling the logics.
\<close>

definition destroy_stale :: "int \<Rightarrow> tcp_sink \<Rightarrow> conn_error + tcp_sink" where
  "destroy_stale fd s =
     (if get_conn_by_sock_fd (center s) fd \<noteq> 0
      then (case destroy_conn fd (center s) of
              Inl e \<Rightarrow> Inl e
            | Inr cc \<Rightarrow> Inr (s\<lparr>center := cc, online_tcp_conn_count := online_tcp_conn_count s - 1\<rparr>))
      else Inr s)"

definition on_client_connected ::
  "ptr \<Rightarrow> conn_ev \<Rightarrow> time_t \<Rightarrow> io_type \<Rightarrow> int \<Rightarrow> string \<Rightarrow> int \<Rightarrow> int \<Rightarrow> tcp_sink \<Rightarrow>
   (conn_error + int \<times> tcp_sink) option" where
  "on_client_connected p ev now io thread_idx ip port fd s =
     (case destroy_stale fd s of
        Inl e \<Rightarrow> Some (Inl e)
      | Inr s1 \<Rightarrow>
          (case create_conn p ev now io thread_idx ip port fd (center s1) of
             None \<Rightarrow> None
           | Some (Inl e) \<Rightarrow> Some (Inl e)
           | Some (Inr (q, cc)) \<Rightarrow>
               if q = 0 then Some (Inr (RC_ERR, s1\<lparr>center := cc\<rparr>))
               else
                 (let online = online_tcp_conn_count s1 + 1;
                      guid = the_guid (the (conn_heap cc q)) in
                  Some (Inr (RC_OK,
                    s1\<lparr>center := cc, online_tcp_conn_count := online,
                       max_online_tcp_conn_count := max online (max_online_tcp_conn_count s1),
                       notices := Connected guid # notices s1\<rparr>)))))"

definition on_accept ::
  "ptr \<Rightarrow> conn_ev \<Rightarrow> time_t \<Rightarrow> io_type \<Rightarrow> int \<Rightarrow> string \<Rightarrow> int \<Rightarrow> int \<Rightarrow> tcp_sink \<Rightarrow>
   (conn_error + tcp_sink) option" where
  "on_accept p ev now io thread_idx ip port fd s =
     (let refuse = s\<lparr>center := (center s)\<lparr>closed_socks := fd # closed_socks (center s)\<rparr>\<rparr> in
      if stopping s then Some (Inr refuse)
      else if 0 < tcp_conn_count_limit s \<and> tcp_conn_count_limit s \<le> online_tcp_conn_count s
      then Some (Inr refuse)
      else map_option (map_sum id snd) (on_client_connected p ev now io thread_idx ip port fd s))"

text \<open>
  The idle check: \<^verbatim>\<open>RecordTimeoutMgr::OnTimer\<close> collects the idle connections, then
  \<^verbatim>\<open>ConnCenter::OnTimeout\<close> closes each by the pointer stored in its record.
\<close>

fun close_idle :: "nat \<Rightarrow> (conn_guid \<Rightarrow> int list) \<Rightarrow> (int \<times> ptr \<times> int) list \<Rightarrow> tcp_sink \<Rightarrow> conn_error + tcp_sink" where
  "close_idle n react [] s = Inr s"
| "close_idle n react ((k, v, secs) # xs) s =
     (case on_client_closed n react v s of
        Inl e \<Rightarrow> Inl e
      | Inr s1 \<Rightarrow> close_idle n react xs s1)"

definition idle_check ::
  "nat \<Rightarrow> (conn_guid \<Rightarrow> int list) \<Rightarrow> ((int \<times> ptr \<times> int) list \<Rightarrow> (int \<times> ptr \<times> int) list) \<Rightarrow>
   time_t \<Rightarrow> tcp_sink \<Rightarrow> (conn_error + tcp_sink) option" where
  "idle_check n react ord now s =
     (case rtm_on_timer ord now (conn_records (center s)) of
        None \<Rightarrow> None
      | Some (recs, xs) \<Rightarrow> Some (close_idle n react xs (s\<lparr>center := (center s)\<lparr>conn_records := recs\<rparr>\<rparr>)))"

subsection \<open>Invariant: the three tables describe the same connections\<close>

definition links :: "(ptr \<rightharpoonup> base_conn) \<Rightarrow> (int \<rightharpoonup> client_ctx) \<Rightarrow> (int \<rightharpoonup> ptr) \<Rightarrow> bool" where
  "links heap hash ids \<longleftrightarrow>
     (\<forall>p c. heap p = Some c \<longrightarrow>
        p \<noteq> 0 \<and> ids (c_id c) = Some p \<and> (\<exists>x. hash (sock_fd c) = Some x \<and> cx_conn x = p)) \<and>
     (\<forall>i p. ids i = Some p \<longrightarrow> (\<exists>c. heap p = Some c \<and> c_id c = i)) \<and>
     (\<forall>fd x. hash fd = Some x \<longrightarrow> (\<exists>c. heap (cx_conn x) = Some c \<and> sock_fd c = fd))"

definition cc_inv :: "conn_center \<Rightarrow> bool" where
  "cc_inv s \<longleftrightarrow>
     links (conn_heap s) (conn_hash_map s) (conn_id_hash_map s) \<and>
     seq_inv 1 I32_SEQ_MAX (conn_id_seq s) \<and>
     inuse_seqs (conn_id_seq s) = dom (conn_id_hash_map s) \<and>
     rtm_inv (conn_records s) \<and>
     (\<forall>i r. rtm_store (conn_records s) i = Some r \<longrightarrow> conn_id_hash_map s i = Some (fst r))"

lemma links_heapD:
  assumes "links heap hash ids" "heap p = Some c"
  shows "p \<noteq> 0" "ids (c_id c) = Some p" "\<exists>x. hash (sock_fd c) = Some x \<and> cx_conn x = p"
  using assms unfolding links_def by blast+

lemma links_idD:
  assumes "links heap hash ids" "ids i = Some p"
  obtains c where "heap p = Some c" "c_id c = i"
  using assms unfolding links_def by blast

lemma links_hashD:
  assumes "links heap hash ids" "hash fd = Some x"
  obtains c where "heap (cx_conn x) = Some c" "sock_fd c = fd"
  using assms unfolding links_def by blast

lemma links_insert:
  assumes l: "links heap hash ids"
    and new: "heap p = None" "ids (c_id c) = None" "hash (sock_fd c) = None" "p \<noteq> 0" "cx_conn x = p"
  shows "links (heap(p \<mapsto> c)) (hash(sock_fd c \<mapsto> x)) (ids(c_id c \<mapsto> p))"
  unfolding links_def
proof (intro conjI allI impI)
  fix q d assume q: "(heap(p \<mapsto> c)) q = Some d"
  show "q \<noteq> 0" "(ids(c_id c \<mapsto> p)) (c_id d) = Some q"
    "\<exists>y. (hash(sock_fd c \<mapsto> x)) (sock_fd d) = Some y \<and> cx_conn y = q"
    using q new links_heapD[OF l, of q d] by (cases "q = p"; auto)+
next
  fix i q assume "(ids(c_id c \<mapsto> p)) i = Some q"
  then show "\<exists>d. (heap(p \<mapsto> c)) q = Some d \<and> c_id d = i"
    using new by (cases "i = c_id c") (auto elim!: links_idD[OF l])
next
  fix fd y assume "(hash(sock_fd c \<mapsto> x)) fd = Some y"
  then show "\<exists>d. (heap(p \<mapsto> c)) (cx_conn y) = Some d \<and> sock_fd d = fd"
    using new by (cases "fd = sock_fd c") (auto elim!: links_hashD[OF l])
qed

lemma links_remove:
  assumes l: "links heap hash ids" and c: "heap p = Some c"
  shows "links (heap(p := None)) (hash(sock_fd c := None)) (ids(c_id c := None))"
  unfolding links_def
proof (intro conjI allI impI)
  fix q d assume "(heap(p := None)) q = Some d"
  then have q: "heap q = Some d" "q \<noteq> p" by (auto split: if_splits)
  note D = links_heapD[OF l q(1)] links_heapD[OF l c]
  from D q(2) have "c_id d \<noteq> c_id c" "sock_fd d \<noteq> sock_fd c" by auto
  with D show "q \<noteq> 0" "(ids(c_id c := None)) (c_id d) = Some q"
    "\<exists>y. (hash(sock_fd c := None)) (sock_fd d) = Some y \<and> cx_conn y = q" by auto
next
  fix i q assume "(ids(c_id c := None)) i = Some q"
  then have i: "ids i = Some q" "i \<noteq> c_id c" by (auto split: if_splits)
  then show "\<exists>d. (heap(p := None)) q = Some d \<and> c_id d = i"
    using c by (auto elim!: links_idD[OF l])
next
  fix fd y assume "(hash(sock_fd c := None)) fd = Some y"
  then have "hash fd = Some y" "fd \<noteq> sock_fd c" by (auto split: if_splits)
  then show "\<exists>d. (heap(p := None)) (cx_conn y) = Some d \<and> sock_fd d = fd"
    using c by (auto elim!: links_hashD[OF l])
qed

text \<open>Updates that leave the links alone: statistics of a client, contents of a connection.\<close>

lemma links_touch:
  assumes "links heap hash ids" "hash fd = Some x" "cx_conn y = cx_conn x"
  shows "links heap (hash(fd \<mapsto> y)) ids"
  unfolding links_def
proof (intro conjI allI impI)
  fix p c assume "heap p = Some c"
  note D = links_heapD[OF assms(1) this]
  show "p \<noteq> 0" "ids (c_id c) = Some p" by (fact D)+
  show "\<exists>x. (hash(fd \<mapsto> y)) (sock_fd c) = Some x \<and> cx_conn x = p"
    using D(3) assms(2,3) by (cases "sock_fd c = fd") auto
next
  fix i p assume "ids i = Some p"
  then show "\<exists>c. heap p = Some c \<and> c_id c = i" by (rule links_idD[OF assms(1)]) blast
next
  fix fd' z assume z: "(hash(fd \<mapsto> y)) fd' = Some z"
  then obtain z' where "hash fd' = Some z'" "cx_conn z' = cx_conn z"
    using assms(2,3) by (cases "fd' = fd") auto
  then show "\<exists>c. heap (cx_conn z) = Some c \<and> sock_fd c = fd'"
    by (metis links_hashD[OF assms(1)])
qed

lemma links_data:
  assumes "links heap hash ids" "heap p = Some c" "c_id d = c_id c" "sock_fd d = sock_fd c"
  shows "links (heap(p \<mapsto> d)) hash ids"
  unfolding links_def
proof (intro conjI allI impI)
  fix q e assume "(heap(p \<mapsto> d)) q = Some e"
  then obtain e' where "heap q = Some e'" "c_id e = c_id e'" "sock_fd e = sock_fd e'"
    using assms(2-4) by (cases "q = p") auto
  with links_heapD[OF assms(1) this(1)] show "q \<noteq> 0" "ids (c_id e) = Some q"
    "\<exists>x. hash (sock_fd e) = Some x \<and> cx_conn x = q" by simp_all
next
  fix i q assume "ids i = Some q"
  then obtain e where "heap q = Some e" "c_id e = i" by (rule links_idD[OF assms(1)])
  then show "\<exists>c. (heap(p \<mapsto> d)) q = Some c \<and> c_id c = i"
    using assms(2,3) by (cases "q = p") auto
next
  fix fd x assume "hash fd = Some x"
  then obtain e where "heap (cx_conn x) = Some e" "sock_fd e = fd" by (rule links_hashD[OF assms(1)])
  then show "\<exists>c. (heap(p \<mapsto> d)) (cx_conn x) = Some c \<and> sock_fd c = fd"
    using assms(2,4) by (cases "cx_conn x = p") auto
qed

lemma links_card:
  assumes l: "links heap hash ids"
  shows "card (dom hash) = card (dom ids)"
proof -
  have "bij_betw (\<lambda>i. sock_fd (the (heap (the (ids i))))) (dom ids) (dom hash)"
  proof (rule bij_betwI')
    fix i j assume "i \<in> dom ids" "j \<in> dom ids"
    then obtain p q where pq: "ids i = Some p" "ids j = Some q" by blast
    obtain c where p: "heap p = Some c" "c_id c = i" using pq(1) by (rule links_idD[OF l])
    obtain d where q: "heap q = Some d" "c_id d = j" using pq(2) by (rule links_idD[OF l])
    from pq p q show "(sock_fd (the (heap (the (ids i)))) = sock_fd (the (heap (the (ids j))))) = (i = j)"
      using links_heapD(3)[OF l p(1)] links_heapD(3)[OF l q(1)] by auto
  next
    fix i assume "i \<in> dom ids"
    then obtain p where i: "ids i = Some p" by blast
    then obtain c where p: "heap p = Some c" by (rule links_idD[OF l])
    with i show "sock_fd (the (heap (the (ids i)))) \<in> dom hash"
      using links_heapD(3)[OF l p] by auto
  next
    fix fd assume "fd \<in> dom hash"
    then obtain x where "hash fd = Some x" by blast
    then obtain c where c: "heap (cx_conn x) = Some c" "sock_fd c = fd" by (rule links_hashD[OF l])
    with links_heapD(2)[OF l c(1)] show "\<exists>i\<in>dom ids. fd = sock_fd (the (heap (the (ids i))))"
      by (intro bexI[of _ "c_id c"]) auto
  qed
  then show ?thesis by (metis bij_betw_same_card)
qed

lemma cc_inv_init: "cc_inv (cc_init bev life interval threshold)"
  by (simp add: cc_inv_def cc_init_def links_def rtm_inv_init seq_inv_def seq_reset_def)

subsection \<open>Destroying and creating connections\<close>

text \<open>The state without the connection \<open>c\<close> at \<open>p\<close>.\<close>

definition unlink :: "ptr \<Rightarrow> base_conn \<Rightarrow> conn_center \<Rightarrow> conn_center" where
  "unlink p c s =
     s\<lparr>conn_records := remove_record (c_id c) (conn_records s),
       conn_hash_map := (conn_hash_map s)(sock_fd c := None),
       conn_heap := (conn_heap s)(p := None),
       closed_socks := snd (conn_finalize c) @ closed_socks s,
       conn_id_seq := seq_free (conn_id_seq s) (c_id c),
       conn_id_hash_map := (conn_id_hash_map s)(c_id c := None)\<rparr>"

lemma unlink_simps [simp]:
  "conn_heap (unlink p c s) = (conn_heap s)(p := None)"
  "conn_id_hash_map (unlink p c s) = (conn_id_hash_map s)(c_id c := None)"
  "conn_hash_map (unlink p c s) = (conn_hash_map s)(sock_fd c := None)"
  "conn_records (unlink p c s) = remove_record (c_id c) (conn_records s)"
  "closed_socks (unlink p c s) = snd (conn_finalize c) @ closed_socks s"
  by (simp_all add: unlink_def)

lemma destroy_conn_eq:
  assumes "cc_inv s" "conn_hash_map s fd = Some x"
  obtains c where "conn_heap s (cx_conn x) = Some c" "sock_fd c = fd"
    "destroy_conn fd s = Inr (unlink (cx_conn x) c s)"
proof -
  from assms obtain c where c: "conn_heap s (cx_conn x) = Some c" "sock_fd c = fd"
    unfolding cc_inv_def by (auto elim!: links_hashD)
  have "destroy_conn fd s = Inr (unlink (cx_conn x) c s)"
    using assms(2) c remove_record_absent[of "conn_records s" "c_id c"]
    by (auto simp: destroy_conn_def cc_clear_def unlink_def split: prod.splits)
  with c that show ?thesis by blast
qed

lemma cc_inv_unlink:
  assumes inv: "cc_inv s" and c: "conn_heap s p = Some c"
  shows "cc_inv (unlink p c s)"
proof -
  from inv have l: "links (conn_heap s) (conn_hash_map s) (conn_id_hash_map s)"
    and sq: "seq_inv 1 I32_SEQ_MAX (conn_id_seq s)"
    and live: "inuse_seqs (conn_id_seq s) = dom (conn_id_hash_map s)"
    and rt: "rtm_inv (conn_records s)"
    and st: "\<And>i r. rtm_store (conn_records s) i = Some r \<Longrightarrow> conn_id_hash_map s i = Some (fst r)"
    by (auto simp: cc_inv_def)
  have "inuse_seqs (seq_free (conn_id_seq s) (c_id c)) = dom (conn_id_hash_map s) - {c_id c}"
    using sq.live_free[OF sq] live by simp
  moreover have "rtm_inv (remove_record (c_id c) (conn_records s))" using rt by (simp add: cc_inv)
  ultimately show ?thesis
    using links_remove[OF l c] sq.inv_free[OF sq] st
    by (auto simp: cc_inv_def unlink_def rtm_store_remove split: if_splits)
qed

text \<open>What the new object looks like when its id is \<open>cid\<close>.\<close>

definition new_conn :: "conn_center \<Rightarrow> time_t \<Rightarrow> io_type \<Rightarrow> int \<Rightarrow> string \<Rightarrow> int \<Rightarrow> int \<Rightarrow> int \<Rightarrow> base_conn" where
  "new_conn s now io thread_idx ip port fd cid =
     (base_conn_init (cfg_bufferevent s))
       \<lparr>created_time := now, the_guid := \<lparr>io_type = io, io_thread_idx = thread_idx, conn_id = cid\<rparr>,
        client_ip := ip, client_port := port, sock_fd := fd,
        read_event := \<not> cfg_bufferevent s, buffer_event := cfg_bufferevent s\<rparr>"

lemma new_conn_simps [simp]:
  "c_id (new_conn s now io ti ip port fd cid) = cid" "sock_fd (new_conn s now io ti ip port fd cid) = fd"
  "io_thread_idx (the_guid (new_conn s now io ti ip port fd cid)) = ti"
  "recv_data (new_conn s now io ti ip port fd cid) = []"
  by (simp_all add: new_conn_def base_conn_init_def)

text \<open>The sockets closed when a connection with this id cannot be initialised.\<close>

definition failed_closes :: "bool \<Rightarrow> int \<Rightarrow> int list" where
  "failed_closes bev fd = (if bev then [fd] else [fd, fd])"

lemma create_conn_cases:
  assumes inv: "cc_inv s" and p: "conn_heap s p = None" "p \<noteq> 0" and fd: "conn_hash_map s fd = None"
  obtains
    (no_id) "dom (conn_id_hash_map s) = {1..I32_SEQ_MAX}"
      "create_conn p ev now io ti ip port fd s = Some (Inr (0, s))"
  | (no_event) seq' where "\<not> (new_ok ev \<and> add_ok ev)" "seq_inv 1 I32_SEQ_MAX seq'"
      "inuse_seqs seq' = inuse_seqs (conn_id_seq s)"
      "create_conn p ev now io ti ip port fd s = Some (Inr (0, s\<lparr>conn_id_seq := seq',
         closed_socks := failed_closes (cfg_bufferevent s) fd @ closed_socks s\<rparr>))"
  | (created) cid seq' where "new_ok ev" "add_ok ev" "1 \<le> cid" "cid \<le> I32_SEQ_MAX"
      "conn_id_hash_map s cid = None" "seq_inv 1 I32_SEQ_MAX seq'"
      "inuse_seqs seq' = insert cid (inuse_seqs (conn_id_seq s))"
      "create_conn p ev now io ti ip port fd s = Some (Inr (p, s\<lparr>conn_id_seq := seq',
         conn_heap := (conn_heap s)(p \<mapsto> new_conn s now io ti ip port fd cid),
         conn_id_hash_map := (conn_id_hash_map s)(cid \<mapsto> p),
         conn_hash_map := (conn_hash_map s)(fd \<mapsto> \<lparr>cx_conn = p, start_time = now, recv_count = 0\<rparr>),
         conn_records := upsert_record now cid p (inactive_conn_life s) (conn_records s),
         max_online_conn_count := max (max_online_conn_count s)
           (int (card (dom ((conn_hash_map s)(fd \<mapsto> \<lparr>cx_conn = p, start_time = now, recv_count = 0\<rparr>)))))\<rparr>))"
proof -
  from inv have sq: "seq_inv 1 I32_SEQ_MAX (conn_id_seq s)"
    and live: "inuse_seqs (conn_id_seq s) = dom (conn_id_hash_map s)"
    and st: "\<And>i r. rtm_store (conn_records s) i = Some r \<Longrightarrow> conn_id_hash_map s i = Some (fst r)"
    by (auto simp: cc_inv_def)
  obtain cid seq' where al: "seq_alloc 1 I32_SEQ_MAX (conn_id_seq s) = Some (cid, seq')"
    using sq.alloc_returns[OF sq] by auto
  show ?thesis
  proof (cases "cid = 0")
    case True
    with al sq.alloc_exhausted[OF sq] live have "seq' = conn_id_seq s" "dom (conn_id_hash_map s) = {1..I32_SEQ_MAX}"
      by auto
    moreover have "(conn_heap s)(p \<mapsto> c, p := None) = conn_heap s" for c using p(1) by auto
    ultimately show ?thesis
      using al True by (intro no_id) (simp_all add: create_conn_def)
  next
    case False
    note fresh = sq.alloc_fresh[OF sq al False]
    have sq': "seq_inv 1 I32_SEQ_MAX seq'" using sq.inv_alloc[OF sq al] .
    from fresh live have cid: "conn_id_hash_map s cid = None" by auto
    then have nrec: "\<not> record_exist (conn_records s) cid"
      using st by (fastforce simp: record_exist_store)
    show ?thesis
    proof (cases "new_ok ev \<and> add_ok ev")
      case True
      then have init: "conn_initialize ev ((base_conn_init (cfg_bufferevent s))\<lparr>created_time := now,
          the_guid := \<lparr>io_type = io, io_thread_idx = ti, conn_id = cid\<rparr>, client_ip := ip,
          client_port := port, sock_fd := fd\<rparr>) = (RC_OK, new_conn s now io ti ip port fd cid, [])"
        by (simp add: conn_initialize_def buffer_initialize_def normal_initialize_def new_conn_def base_conn_init_def)
      show ?thesis
        using True fresh cid sq'
        by (intro created[of cid seq']) (simp_all add: create_conn_def al False init max_def, cases s, simp add: Let_def)
    next
      case nok: False
      define c1 where "c1 = (base_conn_init (cfg_bufferevent s))\<lparr>created_time := now,
          the_guid := \<lparr>io_type = io, io_thread_idx = ti, conn_id = cid\<rparr>, client_ip := ip,
          client_port := port, sock_fd := fd\<rparr>"
      have init: "conn_initialize ev c1 = (RC_ERR, c1, [fd])" "c_id c1 = cid" "sock_fd c1 = fd"
        using nok by (auto simp: c1_def conn_initialize_def buffer_initialize_def normal_initialize_def
            base_conn_init_def)
      have cls: "snd (conn_finalize c1) @ [fd] = failed_closes (cfg_bufferevent s) fd"
        by (simp add: c1_def base_conn_init_def conn_finalize_def failed_closes_def)
      have eqs: "(conn_heap s)(p := None) = conn_heap s" "(conn_hash_map s)(fd := None) = conn_hash_map s"
        "(conn_id_hash_map s)(cid := None) = conn_id_hash_map s" using p(1) fd cid by auto
      have "inuse_seqs (seq_free seq' cid) = inuse_seqs (conn_id_seq s)"
        using sq.live_free[OF sq'] fresh by auto
      moreover have "create_conn p ev now io ti ip port fd s = Some (Inr (0, s\<lparr>conn_id_seq := seq_free seq' cid,
         closed_socks := failed_closes (cfg_bufferevent s) fd @ closed_socks s\<rparr>))"
        using al False init nrec eqs cls
        by (simp add: create_conn_def cc_clear_def c1_def[symmetric] split_beta flip: append_assoc)
      ultimately show ?thesis using nok sq.inv_free[OF sq'] by (intro no_event) auto
    qed
  qed
qed

lemma cc_inv_create:
  assumes inv: "cc_inv s" and p: "conn_heap s p = None" "p \<noteq> 0" and fd: "conn_hash_map s fd = None"
  obtains q s' where "create_conn p ev now io ti ip port fd s = Some (Inr (q, s'))" "cc_inv s'"
    "q = 0 \<and> conn_id_hash_map s' = conn_id_hash_map s \<or>
     q = p \<and> (\<exists>cid. conn_id_hash_map s cid = None \<and> conn_id_hash_map s' = (conn_id_hash_map s)(cid \<mapsto> p))"
proof -
  from inv have l: "links (conn_heap s) (conn_hash_map s) (conn_id_hash_map s)"
    and live: "inuse_seqs (conn_id_seq s) = dom (conn_id_hash_map s)"
    and rt: "rtm_inv (conn_records s)"
    and st: "\<And>i r. rtm_store (conn_records s) i = Some r \<Longrightarrow> conn_id_hash_map s i = Some (fst r)"
    by (auto simp: cc_inv_def)
  show ?thesis
  proof (cases rule: create_conn_cases[OF inv p fd, of ev now io ti ip port, case_names no_id no_event created])
    case no_id
    with inv that show ?thesis by blast
  next
    case (no_event seq')
    with inv show ?thesis by (intro that[OF no_event(4)]) (auto simp: cc_inv_def)
  next
    case (created cid seq')
    let ?c = "new_conn s now io ti ip port fd cid" and ?x = "\<lparr>cx_conn = p, start_time = now, recv_count = 0\<rparr>"
    have l': "links ((conn_heap s)(p \<mapsto> ?c)) ((conn_hash_map s)(fd \<mapsto> ?x)) ((conn_id_hash_map s)(cid \<mapsto> p))"
      using links_insert[OF l p(1), of ?c ?x] created(5) fd p(2) by simp
    have "rtm_inv (upsert_record now cid p (inactive_conn_life s) (conn_records s))"
      using rt by (simp add: cc_inv)
    moreover have "rtm_store (conn_records s) cid = None"
    proof (cases "rtm_store (conn_records s) cid")
      case (Some r)
      from st[OF Some] created(5) show ?thesis by simp
    qed
    ultimately show ?thesis
      using l' created(5-7) live st
      by (intro that[OF created(8)]) (auto simp: cc_inv_def rtm_store_upsert split: if_splits)
  qed
qed

lemma cc_inv_refresh:
  assumes "cc_inv t" "conn_id_hash_map t cid = Some p" "r = conn_records t"
  shows "cc_inv (t\<lparr>conn_records := upsert_record now cid p life r\<rparr>)"
  using assms by (auto simp: cc_inv_def cc_inv rtm_store_upsert split: if_splits option.splits)

lemma update_conn_status_ok:
  assumes inv: "cc_inv s"
  obtains ret s' where "update_conn_status now cid inward s = Inr (ret, s')" "cc_inv s'"
    "conn_heap s' = conn_heap s" "conn_id_hash_map s' = conn_id_hash_map s"
proof (cases "conn_id_hash_map s cid")
  case None
  with inv that show ?thesis by (auto simp: update_conn_status_def)
next
  case (Some p)
  from inv have l: "links (conn_heap s) (conn_hash_map s) (conn_id_hash_map s)" by (simp add: cc_inv_def)
  obtain c where c: "conn_heap s p = Some c" "c_id c = cid" using Some by (rule links_idD[OF l])
  obtain x where x: "conn_hash_map s (sock_fd c) = Some x" "cx_conn x = p"
    using links_heapD(3)[OF l c(1)] by blast
  have put: "cc_inv (s\<lparr>conn_hash_map := (conn_hash_map s)(sock_fd c \<mapsto> y)\<rparr>)" if "cx_conn y = cx_conn x" for y
    using inv links_touch[OF l x(1), of y] that by (simp add: cc_inv_def)
  show ?thesis
  proof (cases inward)
    case True
    with Some c(1) x(1) show ?thesis
      by (cases "storm_interval s \<le> now - start_time x"; cases "storm_threshold s \<le> recv_count x + 1")
        (auto simp: update_conn_status_def Let_def intro!: that cc_inv_refresh put)
  next
    case False
    with Some inv show ?thesis
      by (auto simp: update_conn_status_def Let_def intro!: that cc_inv_refresh)
  qed
qed

subsection \<open>The thread sink\<close>

definition sink_inv :: "tcp_sink \<Rightarrow> bool" where
  "sink_inv s \<longleftrightarrow> cc_inv (center s) \<and>
     online_tcp_conn_count s = int (card (dom (conn_id_hash_map (center s))))"

lemma cc_inv_finite_ids: "cc_inv s \<Longrightarrow> finite (dom (conn_id_hash_map s))"
  unfolding cc_inv_def using seq_inv_finite by metis

lemma sink_inv_unlink:
  assumes inv: "sink_inv s" and c: "conn_heap (center s) p = Some c"
  shows "\<exists>cc. destroy_conn (sock_fd c) (center s) = Inr cc \<and> cc = unlink p c (center s) \<and>
    sink_inv (s\<lparr>center := cc, online_tcp_conn_count := online_tcp_conn_count s - 1\<rparr>)"
proof -
  from inv have i: "cc_inv (center s)" by (simp add: sink_inv_def)
  then have l: "links (conn_heap (center s)) (conn_hash_map (center s)) (conn_id_hash_map (center s))"
    by (simp add: cc_inv_def)
  obtain x where x: "conn_hash_map (center s) (sock_fd c) = Some x" "cx_conn x = p"
    using links_heapD(3)[OF l c] by blast
  from destroy_conn_eq[OF i x(1)] x(2) c
  have d: "destroy_conn (sock_fd c) (center s) = Inr (unlink p c (center s))" by auto
  have "c_id c \<in> dom (conn_id_hash_map (center s))" using links_heapD(2)[OF l c] by auto
  from card_Suc_Diff1[OF cc_inv_finite_ids[OF i] this]
  have "int (card (dom (conn_id_hash_map (center s)) - {c_id c})) = int (card (dom (conn_id_hash_map (center s)))) - 1"
    by linarith
  with d inv cc_inv_unlink[OF i c] show ?thesis by (simp add: sink_inv_def)
qed

lemma on_client_closed_inv:
  "on_client_closed n react p s = Inr s' \<Longrightarrow> sink_inv s \<Longrightarrow>
     sink_inv s' \<and> dom (conn_id_hash_map (center s')) \<subseteq> dom (conn_id_hash_map (center s)) \<and>
     tcp_conn_count_limit s' = tcp_conn_count_limit s \<and> conn_heap (center s') p = None"
  "close_clients n react is s = Inr s' \<Longrightarrow> sink_inv s \<Longrightarrow>
     sink_inv s' \<and> dom (conn_id_hash_map (center s')) \<subseteq> dom (conn_id_hash_map (center s)) \<and>
     tcp_conn_count_limit s' = tcp_conn_count_limit s"
proof (induction n react p s and n react "is" s arbitrary: s' and s' rule: on_client_closed_close_clients.induct)
  case (2 n react p s)
  from 2(2) obtain c s1 c1 where c: "conn_heap (center s) p = Some c"
    and s1: "close_clients n react (react (the_guid c)) (s\<lparr>notices := Closed (the_guid c) # notices s\<rparr>) = Inr s1"
    and c1: "conn_heap (center s1) p = Some c1"
    by (auto split: option.splits sum.splits)
  from 2(3) have "sink_inv (s\<lparr>notices := Closed (the_guid c) # notices s\<rparr>)" by (simp add: sink_inv_def)
  from 2(1)[OF c s1 this] have i1: "sink_inv s1"
    "dom (conn_id_hash_map (center s1)) \<subseteq> dom (conn_id_hash_map (center s))"
    "tcp_conn_count_limit s1 = tcp_conn_count_limit s" by simp_all
  from sink_inv_unlink[OF i1(1) c1] 2(2) c s1 c1
  have s': "s' = s1\<lparr>center := unlink p c1 (center s1), online_tcp_conn_count := online_tcp_conn_count s1 - 1\<rparr>"
    and "sink_inv s'" by auto
  moreover have "dom ((conn_id_hash_map (center s1))(c_id c1 := None)) \<subseteq> dom (conn_id_hash_map (center s))"
    using i1(2) by auto
  moreover have "center s' = unlink p c1 (center s1)" "tcp_conn_count_limit s' = tcp_conn_count_limit s"
    using i1(3) by (simp_all add: s')
  ultimately show ?case by (simp only: unlink_simps fun_upd_same simp_thms)
next
  case (4 n react i "is" s)
  show ?case
  proof (cases "conn_id_hash_map (center s) i")
    case None
    with 4 show ?thesis by simp
  next
    case (Some q)
    with 4(4) obtain m s1 where m: "n = Suc m" "on_client_closed m react q s = Inr s1"
      "close_clients n react is s1 = Inr s'" by (auto split: nat.splits sum.splits)
    from 4(2)[OF Some m(1,2) 4(5)] have "sink_inv s1"
      "dom (conn_id_hash_map (center s1)) \<subseteq> dom (conn_id_hash_map (center s))"
      "tcp_conn_count_limit s1 = tcp_conn_count_limit s" by simp_all
    with 4(3)[OF Some m(1,2,3)] show ?thesis by (metis order_trans)
  qed
qed simp_all

text \<open>Closing a live connection when the logics close nothing from inside the callback.\<close>

lemma on_client_closed_quiet:
  assumes inv: "sink_inv s" and c: "conn_heap (center s) p = Some c" and quiet: "react (the_guid c) = []"
  shows "on_client_closed (Suc n) react p s =
    Inr (s\<lparr>notices := Closed (the_guid c) # notices s, center := unlink p c (center s),
            online_tcp_conn_count := online_tcp_conn_count s - 1\<rparr>)"
proof -
  let ?s = "s\<lparr>notices := Closed (the_guid c) # notices s\<rparr>"
  have "sink_inv ?s" using inv by (simp add: sink_inv_def)
  from sink_inv_unlink[OF this, of p c] c have "destroy_conn (sock_fd c) (center s) = Inr (unlink p c (center s))"
    by auto
  with c quiet show ?thesis by simp
qed

lemma sink_inv_closed:
  assumes "sink_inv s" "conn_heap (center s) p = Some c"
  shows "sink_inv (s\<lparr>notices := xs, center := unlink p c (center s),
            online_tcp_conn_count := online_tcp_conn_count s - 1\<rparr>)"
  using sink_inv_unlink[OF assms] by (auto simp: sink_inv_def)

lemma close_idle_inv: "close_idle n react xs s = Inr s' \<Longrightarrow> sink_inv s \<Longrightarrow> sink_inv s'"
  by (induction n react xs s arbitrary: s' rule: close_idle.induct)
    (auto split: sum.splits dest: on_client_closed_inv(1))

text \<open>
  A batch of idle connections, each record pointing at the live connection of its id, is closed
  completely when the logics close nothing themselves.
\<close>

lemma close_idle_quiet:
  assumes "sink_inv s" "\<And>g. react g = []"
    and "\<forall>(k, v, secs) \<in> set xs. conn_id_hash_map (center s) k = Some v"
    and "distinct (map fst xs)"
  shows "\<exists>s'. close_idle (Suc n) react xs s = Inr s' \<and> sink_inv s' \<and>
    (\<forall>i. conn_id_hash_map (center s') i = (if i \<in> fst ` set xs then None else conn_id_hash_map (center s) i))"
  using assms
proof (induction xs arbitrary: s)
  case (Cons x xs)
  obtain k v secs where x: "x = (k, v, secs)" by (cases x)
  from Cons.prems(3) have kv: "conn_id_hash_map (center s) k = Some v" by (simp add: x)
  from Cons.prems(1) have l: "links (conn_heap (center s)) (conn_hash_map (center s)) (conn_id_hash_map (center s))"
    by (simp add: sink_inv_def cc_inv_def)
  obtain c where c: "conn_heap (center s) v = Some c" "c_id c = k" using kv by (rule links_idD[OF l])
  define s1 where "s1 = s\<lparr>notices := Closed (the_guid c) # notices s, center := unlink v c (center s),
      online_tcp_conn_count := online_tcp_conn_count s - 1\<rparr>"
  have ids: "conn_id_hash_map (center s1) i = (if i = k then None else conn_id_hash_map (center s) i)" for i
    using c(2) by (simp add: s1_def)
  have "on_client_closed (Suc n) react v s = Inr s1"
    unfolding s1_def by (rule on_client_closed_quiet[OF Cons.prems(1) c(1) Cons.prems(2)])
  moreover have "\<exists>s'. close_idle (Suc n) react xs s1 = Inr s' \<and> sink_inv s' \<and>
    (\<forall>i. conn_id_hash_map (center s') i = (if i \<in> fst ` set xs then None else conn_id_hash_map (center s1) i))"
  proof (rule Cons.IH)
    show "sink_inv s1" unfolding s1_def by (rule sink_inv_closed[OF Cons.prems(1) c(1)])
    show "\<forall>(k', v', secs') \<in> set xs. conn_id_hash_map (center s1) k' = Some v'"
    proof clarify
      fix k' v' secs' assume m: "(k', v', secs') \<in> set xs"
      then have "k' \<noteq> k" using Cons.prems(4) by (force simp: x)
      with m Cons.prems(3) show "conn_id_hash_map (center s1) k' = Some v'" by (auto simp: ids)
    qed
  qed (use Cons.prems in auto)
  ultimately show ?case using ids by (auto simp: x)
qed simp

lemma cc_inv_expire:
  assumes cc: "cc_inv s" and ord: "hash_order ord" and e: "rtm_on_timer ord now (conn_records s) = Some (recs, xs)"
  shows "cc_inv (s\<lparr>conn_records := recs\<rparr>)"
proof -
  have rt: "rtm_inv (conn_records s) \<and> hash_order ord" using cc ord by (simp add: cc_inv_def)
  with cc rt.inv_expire[OF rt e] rt.store_expire[OF rt e] show ?thesis
    by (auto simp: cc_inv_def split: option.splits if_splits)
qed

lemma idle_check_quiet:
  assumes inv: "sink_inv s" and ord: "hash_order ord" and quiet: "\<And>g. react g = []"
  shows "\<exists>s'. idle_check (Suc n) react ord now s = Some (Inr s') \<and> sink_inv s' \<and>
    (\<forall>i. conn_id_hash_map (center s') i =
       (case rtm_store (conn_records (center s)) i of
          Some (v, secs, deadline) \<Rightarrow> if deadline \<le> now then None else conn_id_hash_map (center s) i
        | None \<Rightarrow> conn_id_hash_map (center s) i))"
proof -
  from inv have cc: "cc_inv (center s)" by (simp add: sink_inv_def)
  then have rt: "rtm_inv (conn_records (center s)) \<and> hash_order ord"
    and st: "\<And>i r. rtm_store (conn_records (center s)) i = Some r \<Longrightarrow> conn_id_hash_map (center s) i = Some (fst r)"
    using ord by (auto simp: cc_inv_def)
  obtain recs xs where e: "rtm_on_timer ord now (conn_records (center s)) = Some (recs, xs)"
    using rt.expire_returns[OF rt] by blast
  define s1 where "s1 = s\<lparr>center := (center s)\<lparr>conn_records := recs\<rparr>\<rparr>"
  have i1: "sink_inv s1" using inv cc_inv_expire[OF cc ord e] by (simp add: sink_inv_def s1_def)
  have mem: "(k, v, secs) \<in> set xs \<longleftrightarrow> (\<exists>d. rtm_store (conn_records (center s)) k = Some (v, secs, d) \<and> d \<le> now)"
    for k v secs using rt.expired_mem[OF rt e] .
  have pre: "\<forall>(k, v, secs) \<in> set xs. conn_id_hash_map (center s1) k = Some v"
  proof clarify
    fix k v secs assume "(k, v, secs) \<in> set xs"
    then obtain d where "rtm_store (conn_records (center s)) k = Some (v, secs, d)" unfolding mem by blast
    from st[OF this] show "conn_id_hash_map (center s1) k = Some v" by (simp add: s1_def)
  qed
  obtain s' where s': "close_idle (Suc n) react xs s1 = Inr s'" "sink_inv s'"
    "\<And>i. conn_id_hash_map (center s') i = (if i \<in> fst ` set xs then None else conn_id_hash_map (center s1) i)"
    using close_idle_quiet[of s1 react xs n, OF i1 quiet pre rt.expired_distinct[OF rt e]] by blast
  have "i \<in> fst ` set xs \<longleftrightarrow> (case rtm_store (conn_records (center s)) i of
      Some (v, secs, deadline) \<Rightarrow> deadline \<le> now | None \<Rightarrow> False)" for i
    using mem by (force simp: fst_image_iff split: option.splits)
  moreover have "conn_id_hash_map (center s1) = conn_id_hash_map (center s)" by (simp add: s1_def)
  moreover have "idle_check (Suc n) react ord now s = Some (Inr s')"
    using s'(1) by (simp add: idle_check_def e s1_def)
  ultimately show ?thesis using s'(2,3) by (intro exI[of _ s']) (simp split: option.split)
qed

text \<open>States a thread sink can be in.\<close>

inductive sink_reach :: "int \<Rightarrow> tcp_sink \<Rightarrow> bool" for limit where
  sink_start: "sink_reach limit \<lparr>center = cc_init bev life interval threshold, online_tcp_conn_count = 0,
     max_online_tcp_conn_count = 0, tcp_conn_count_limit = limit, stopping = False, notices = []\<rparr>"
| sink_accept: "sink_reach limit s \<Longrightarrow> conn_heap (center s) p = None \<Longrightarrow> p \<noteq> 0 \<Longrightarrow>
     on_accept p ev now io ti ip port fd s = Some (Inr s') \<Longrightarrow> sink_reach limit s'"
| sink_close: "sink_reach limit s \<Longrightarrow> on_client_closed n react p s = Inr s' \<Longrightarrow> sink_reach limit s'"
| sink_status: "sink_reach limit s \<Longrightarrow> update_conn_status now i inward (center s) = Inr (r, cc) \<Longrightarrow>
     sink_reach limit (s\<lparr>center := cc\<rparr>)"
| sink_idle: "sink_reach limit s \<Longrightarrow> hash_order ord \<Longrightarrow>
     idle_check n react ord now s = Some (Inr s') \<Longrightarrow> sink_reach limit s'"
| sink_stop: "sink_reach limit s \<Longrightarrow> sink_reach limit (s\<lparr>stopping := True\<rparr>)"

definition limited :: "int \<Rightarrow> tcp_sink \<Rightarrow> bool" where
  "limited limit s \<longleftrightarrow> sink_inv s \<and> tcp_conn_count_limit s = limit \<and> (0 < limit \<longrightarrow> online_tcp_conn_count s \<le> limit)"

lemma sink_inv_create:
  assumes inv: "sink_inv s" and p: "conn_heap (center s) p = None" "p \<noteq> 0"
    and fd: "conn_hash_map (center s) fd = None"
  obtains q cc where "create_conn p ev now io ti ip port fd (center s) = Some (Inr (q, cc))"
    "sink_inv (s\<lparr>center := cc, online_tcp_conn_count := online_tcp_conn_count s + (if q = 0 then 0 else 1)\<rparr>)"
proof -
  from inv have i: "cc_inv (center s)" by (simp add: sink_inv_def)
  show ?thesis
  proof (rule cc_inv_create[OF i p fd, of ev now io ti ip port])
    fix q cc
    assume cr: "create_conn p ev now io ti ip port fd (center s) = Some (Inr (q, cc))" and icc: "cc_inv cc"
      and q: "q = 0 \<and> conn_id_hash_map cc = conn_id_hash_map (center s) \<or> q = p \<and> (\<exists>cid.
        conn_id_hash_map (center s) cid = None \<and> conn_id_hash_map cc = (conn_id_hash_map (center s))(cid \<mapsto> p))"
    have "int (card (dom (conn_id_hash_map cc))) =
        int (card (dom (conn_id_hash_map (center s)))) + (if q = 0 then 0 else 1)"
      using q p(2) cc_inv_finite_ids[OF i] by (auto simp: card_insert_if domIff)
    with inv icc cr show ?thesis by (intro that[OF cr]) (simp add: sink_inv_def)
  qed
qed

lemma destroy_stale_ok:
  assumes inv: "sink_inv s" and p: "conn_heap (center s) p = None"
  obtains s1 where "destroy_stale fd s = Inr s1" "sink_inv s1" "conn_heap (center s1) p = None"
    "conn_hash_map (center s1) fd = None" "online_tcp_conn_count s1 \<le> online_tcp_conn_count s"
    "tcp_conn_count_limit s1 = tcp_conn_count_limit s"
proof (cases "conn_hash_map (center s) fd")
  case None
  with inv p that[of s] show ?thesis by (simp add: destroy_stale_def get_conn_by_sock_fd_def)
next
  case (Some x)
  from inv have l: "links (conn_heap (center s)) (conn_hash_map (center s)) (conn_id_hash_map (center s))"
    by (simp add: sink_inv_def cc_inv_def)
  obtain c where c: "conn_heap (center s) (cx_conn x) = Some c" "sock_fd c = fd"
    using Some by (rule links_hashD[OF l])
  define s1 where "s1 = s\<lparr>center := unlink (cx_conn x) c (center s), online_tcp_conn_count := online_tcp_conn_count s - 1\<rparr>"
  have "destroy_stale fd s = Inr s1" "sink_inv s1"
    using sink_inv_unlink[OF inv c(1)] links_heapD(1)[OF l c(1)] Some c(2)
    by (auto simp: s1_def destroy_stale_def get_conn_by_sock_fd_def)
  then show ?thesis using p c(2) by (intro that[of s1]) (simp_all add: s1_def)
qed

lemma on_client_connected_inv:
  assumes inv: "sink_inv s" and p: "conn_heap (center s) p = None" "p \<noteq> 0"
  obtains r s' where "on_client_connected p ev now io ti ip port fd s = Some (Inr (r, s'))" "sink_inv s'"
    "online_tcp_conn_count s' \<le> online_tcp_conn_count s + 1" "tcp_conn_count_limit s' = tcp_conn_count_limit s"
proof -
  obtain s1 where s1: "destroy_stale fd s = Inr s1" "sink_inv s1" "conn_heap (center s1) p = None"
    "conn_hash_map (center s1) fd = None" "online_tcp_conn_count s1 \<le> online_tcp_conn_count s"
    "tcp_conn_count_limit s1 = tcp_conn_count_limit s"
    by (rule destroy_stale_ok[OF inv p(1)])
  obtain q cc where cr: "create_conn p ev now io ti ip port fd (center s1) = Some (Inr (q, cc))"
    "sink_inv (s1\<lparr>center := cc, online_tcp_conn_count := online_tcp_conn_count s1 + (if q = 0 then 0 else 1)\<rparr>)"
    by (rule sink_inv_create[OF s1(2,3) p(2) s1(4)])
  show ?thesis
  proof (cases "q = 0")
    case True
    with cr s1 that show ?thesis by (simp add: on_client_connected_def sink_inv_def)
  next
    case False
    with cr s1 that show ?thesis by (simp add: on_client_connected_def sink_inv_def Let_def)
  qed
qed

lemma limited_closed:
  assumes "on_client_closed n react p s = Inr s'" "limited limit s"
  shows "limited limit s'"
proof -
  from assms(2) have i: "sink_inv s" by (simp add: limited_def)
  from on_client_closed_inv(1)[OF assms(1) i] have i': "sink_inv s'"
    and sub: "dom (conn_id_hash_map (center s')) \<subseteq> dom (conn_id_hash_map (center s))"
    and lim: "tcp_conn_count_limit s' = tcp_conn_count_limit s" by simp_all
  have "card (dom (conn_id_hash_map (center s'))) \<le> card (dom (conn_id_hash_map (center s)))"
    using i sub by (intro card_mono cc_inv_finite_ids) (simp_all add: sink_inv_def)
  then have "online_tcp_conn_count s' \<le> online_tcp_conn_count s"
    using i i' by (simp add: sink_inv_def)
  with i' lim assms(2) show ?thesis
    unfolding limited_def by linarith
qed

lemma limited_idle: "close_idle n react xs s = Inr s' \<Longrightarrow> limited limit s \<Longrightarrow> limited limit s'"
  by (induction n react xs s arbitrary: s' rule: close_idle.induct)
    (auto split: sum.splits intro: limited_closed)

lemma on_accept_refused:
  assumes "stopping s \<or> (0 < tcp_conn_count_limit s \<and> tcp_conn_count_limit s \<le> online_tcp_conn_count s)"
  shows "on_accept p ev now io ti ip port fd s =
    Some (Inr (s\<lparr>center := (center s)\<lparr>closed_socks := fd # closed_socks (center s)\<rparr>\<rparr>))"
  using assms by (auto simp: on_accept_def Let_def)

lemma on_accept_admitted:
  assumes "\<not> (stopping s \<or> (0 < tcp_conn_count_limit s \<and> tcp_conn_count_limit s \<le> online_tcp_conn_count s))"
  shows "on_accept p ev now io ti ip port fd s =
    map_option (map_sum id snd) (on_client_connected p ev now io ti ip port fd s)"
  using assms by (auto simp: on_accept_def Let_def)

lemma limited_accept:
  assumes lim: "limited limit s" and p: "conn_heap (center s) p = None" "p \<noteq> 0"
    and acc: "on_accept p ev now io ti ip port fd s = Some (Inr s')"
  shows "limited limit s'"
proof (cases "stopping s \<or> (0 < tcp_conn_count_limit s \<and> tcp_conn_count_limit s \<le> online_tcp_conn_count s)")
  case True
  from acc on_accept_refused[OF True]
  have s': "s' = s\<lparr>center := (center s)\<lparr>closed_socks := fd # closed_socks (center s)\<rparr>\<rparr>" by simp
  have "cc_inv ((center s)\<lparr>closed_socks := fd # closed_socks (center s)\<rparr>) = cc_inv (center s)"
    by (simp add: cc_inv_def)
  then have "sink_inv s' = sink_inv s" by (simp add: s' sink_inv_def)
  with lim show ?thesis by (simp add: s' limited_def)
next
  case False
  from lim have i: "sink_inv s" by (simp add: limited_def)
  obtain r t where t: "on_client_connected p ev now io ti ip port fd s = Some (Inr (r, t))" "sink_inv t"
    "online_tcp_conn_count t \<le> online_tcp_conn_count s + 1" "tcp_conn_count_limit t = tcp_conn_count_limit s"
    by (rule on_client_connected_inv[OF i p])
  from acc on_accept_admitted[OF False] t(1) have "s' = t" by simp
  with t(2-4) False lim show ?thesis unfolding limited_def by auto
qed

lemma limited_center:
  assumes "limited limit s" "cc_inv cc" "conn_id_hash_map cc = conn_id_hash_map (center s)"
  shows "limited limit (s\<lparr>center := cc\<rparr>)"
proof -
  have "sink_inv (s\<lparr>center := cc\<rparr>)" using assms by (simp add: limited_def sink_inv_def)
  with assms(1) show ?thesis by (simp add: limited_def)
qed

lemma limited_idle_check:
  assumes lim: "limited limit s" and ord: "hash_order ord"
    and ic: "idle_check n react ord now s = Some (Inr s')"
  shows "limited limit s'"
proof -
  from ic obtain recs xs where e: "rtm_on_timer ord now (conn_records (center s)) = Some (recs, xs)"
    and cl: "close_idle n react xs (s\<lparr>center := (center s)\<lparr>conn_records := recs\<rparr>\<rparr>) = Inr s'"
    unfolding idle_check_def by (auto split: option.splits prod.splits)
  have "cc_inv (center s)" using lim by (simp add: limited_def sink_inv_def)
  from limited_center[OF lim cc_inv_expire[OF this ord e]]
  have "limited limit (s\<lparr>center := (center s)\<lparr>conn_records := recs\<rparr>\<rparr>)" by simp
  with cl show ?thesis by (rule limited_idle)
qed

lemma sink_reach_limited: "sink_reach limit s \<Longrightarrow> limited limit s"
proof (induction rule: sink_reach.induct)
  case (sink_start bev life interval threshold)
  have "conn_id_hash_map (cc_init bev life interval threshold) = Map.empty" by (simp add: cc_init_def)
  then have "sink_inv \<lparr>center = cc_init bev life interval threshold, online_tcp_conn_count = 0,
     max_online_tcp_conn_count = 0, tcp_conn_count_limit = limit, stopping = False, notices = []\<rparr>"
    using cc_inv_init by (simp add: sink_inv_def)
  then show ?case by (simp add: limited_def)
next
  case (sink_status s now i inward r cc)
  then have "cc_inv (center s)" by (simp add: limited_def sink_inv_def)
  then obtain r' cc' where u: "update_conn_status now i inward (center s) = Inr (r', cc')" "cc_inv cc'"
    "conn_id_hash_map cc' = conn_id_hash_map (center s)" by (rule update_conn_status_ok)
  from u(1) sink_status.hyps(2) have "cc = cc'" by simp
  with limited_center[OF sink_status.IH u(2,3)] show ?case by simp
next
  case (sink_stop s)
  have "sink_inv (s\<lparr>stopping := True\<rparr>) = sink_inv s" by (simp add: sink_inv_def)
  with sink_stop.IH show ?case by (simp add: limited_def)
qed (auto intro: limited_accept limited_closed limited_idle_check)

lemma storm_status:
  assumes inv: "cc_inv s" and p: "conn_id_hash_map s cid = Some p" and c: "conn_heap s p = Some c"
    and x: "conn_hash_map s (sock_fd c) = Some x"
  shows "\<exists>s'. update_conn_status now cid True s =
      Inr (if storm_interval s \<le> now - start_time x \<and> storm_threshold s \<le> recv_count x + 1
           then RC_ERR else RC_OK, s')"
  using p c x by (auto simp: update_conn_status_def Let_def)

subsection \<open>Properties\<close>

text \<open>
  Claim C25: in every state a TCP thread can reach by accepting, closing, idle checks and status
  updates, whatever connections the logics close from inside their callbacks, the tables agree:
  an id and a socket of a connection lead to the same live object, ids are unique and within
  1 .. 0x7fffffff, the online counter is the number of connections, and a positive
  configured limit, which stays what it was at the start, is never exceeded.
\<close>

theorem tcp_tables_consistent:
  assumes "sink_reach limit s"
  shows "online_tcp_conn_count s = int (card (dom (conn_id_hash_map (center s)))) \<and>
    card (dom (conn_hash_map (center s))) = card (dom (conn_id_hash_map (center s))) \<and>
    (0 < limit \<longrightarrow> online_tcp_conn_count s \<le> limit) \<and>
    dom (conn_id_hash_map (center s)) \<subseteq> {1..I32_SEQ_MAX} \<and>
    (\<forall>i. get_conn_by_id (center s) i \<noteq> 0 \<longrightarrow>
       (\<exists>c. conn_heap (center s) (get_conn_by_id (center s) i) = Some c \<and> c_id c = i \<and>
            get_conn_by_sock_fd (center s) (sock_fd c) = get_conn_by_id (center s) i))"
proof -
  from sink_reach_limited[OF assms] have lim: "limited limit s" .
  then have inv: "cc_inv (center s)"
    and on: "online_tcp_conn_count s = int (card (dom (conn_id_hash_map (center s))))"
    and ln: "0 < limit \<longrightarrow> online_tcp_conn_count s \<le> limit" by (auto simp: limited_def sink_inv_def)
  from inv have l: "links (conn_heap (center s)) (conn_hash_map (center s)) (conn_id_hash_map (center s))"
    and ids: "dom (conn_id_hash_map (center s)) \<subseteq> {1..I32_SEQ_MAX}"
    by (auto simp: cc_inv_def seq_inv_def)
  have "\<exists>c. conn_heap (center s) (get_conn_by_id (center s) i) = Some c \<and> c_id c = i \<and>
      get_conn_by_sock_fd (center s) (sock_fd c) = get_conn_by_id (center s) i"
    if nz: "get_conn_by_id (center s) i \<noteq> 0" for i
  proof -
    from nz obtain p where p: "conn_id_hash_map (center s) i = Some p"
      by (auto simp: get_conn_by_id_def split: option.splits)
    obtain c where c: "conn_heap (center s) p = Some c" "c_id c = i" using p by (rule links_idD[OF l])
    from links_heapD(3)[OF l c(1)] p c show ?thesis
      by (auto simp: get_conn_by_id_def get_conn_by_sock_fd_def)
  qed
  with on ln ids links_card[OF l] show ?thesis by blast
qed

text \<open>A thread sink with two connections, the second of them accepted five seconds after the first.\<close>

definition no_conn :: "bool \<Rightarrow> tcp_sink" where
  "no_conn bev = \<lparr>center = cc_init bev 10 5 3, online_tcp_conn_count = 0, max_online_tcp_conn_count = 0,
     tcp_conn_count_limit = 2, stopping = False, notices = []\<rparr>"

definition test_ev :: conn_ev where
  "test_ev = \<lparr>new_ok = True, add_ok = True\<rparr>"

definition two_conns :: "bool \<Rightarrow> tcp_sink" where
  "two_conns bev =
     (let c1 = new_conn (cc_init bev 10 5 3) 50 IO_TYPE_TCP 0 ''c'' 9 7 1;
          c2 = new_conn (cc_init bev 10 5 3) 55 IO_TYPE_TCP 0 ''c'' 9 8 2 in
      \<lparr>center = (cc_init bev 10 5 3)\<lparr>
          conn_heap := [100 \<mapsto> c1, 200 \<mapsto> c2],
          conn_hash_map := [7 \<mapsto> \<lparr>cx_conn = 100, start_time = 50, recv_count = 0\<rparr>,
                            8 \<mapsto> \<lparr>cx_conn = 200, start_time = 55, recv_count = 0\<rparr>],
          conn_id_seq := \<lparr>total_count = 0x7fffffff, cursor = 2, inuse_seqs = {1, 2}\<rparr>,
          conn_id_hash_map := [1 \<mapsto> 100, 2 \<mapsto> 200],
          conn_records := upsert_record 55 2 200 10 (upsert_record 50 1 100 10 rtm_init),
          max_online_conn_count := 2\<rparr>,
       online_tcp_conn_count = 2, max_online_tcp_conn_count = 2, tcp_conn_count_limit = 2,
       stopping = False, notices = [Connected (the_guid c2), Connected (the_guid c1)]\<rparr>)"

lemma seq_alloc_first:
  "seq_alloc 1 I32_SEQ_MAX (seq_reset 1 I32_SEQ_MAX) =
     Some (1, \<lparr>total_count = 0x7fffffff, cursor = 1, inuse_seqs = {1}\<rparr>)"
  "seq_alloc 1 I32_SEQ_MAX \<lparr>total_count = 0x7fffffff, cursor = 1, inuse_seqs = {1}\<rparr> =
     Some (2, \<lparr>total_count = 0x7fffffff, cursor = 2, inuse_seqs = {1, 2}\<rparr>)"
  by (simp_all add: seq_alloc_def seq_reset_def alloc_loop.simps seq_next_def Let_def insert_commute)

lemma two_conns_accepted:
  "\<exists>s1. on_accept 100 test_ev 50 IO_TYPE_TCP 0 ''c'' 9 7 (no_conn bev) = Some (Inr s1) \<and>
     conn_heap (center s1) 200 = None \<and>
     on_accept 200 test_ev 55 IO_TYPE_TCP 0 ''c'' 9 8 s1 = Some (Inr (two_conns bev))"
  by (simp add: on_accept_def on_client_connected_def destroy_stale_def get_conn_by_sock_fd_def no_conn_def
      test_ev_def create_conn_def cc_init_def seq_alloc_first conn_initialize_def buffer_initialize_def
      normal_initialize_def base_conn_init_def two_conns_def new_conn_def max_def Let_def)

lemma two_conns_reach: "sink_reach 2 (two_conns bev)"
proof -
  obtain s1 where s1: "on_accept 100 test_ev 50 IO_TYPE_TCP 0 ''c'' 9 7 (no_conn bev) = Some (Inr s1)"
    "conn_heap (center s1) 200 = None"
    "on_accept 200 test_ev 55 IO_TYPE_TCP 0 ''c'' 9 8 s1 = Some (Inr (two_conns bev))"
    using two_conns_accepted by blast
  have "sink_reach 2 (no_conn bev)" unfolding no_conn_def by (rule sink_start)
  then have "sink_reach 2 s1"
    by (rule sink_accept[OF _ _ _ s1(1)]) (simp_all add: no_conn_def cc_init_def)
  then show ?thesis by (rule sink_accept[OF _ s1(2) _ s1(3)]) simp
qed

theorem tcp_tables_consistent_witness:
  "online_tcp_conn_count (two_conns True) = 2 \<and> card (dom (conn_id_hash_map (center (two_conns True)))) = 2 \<and>
   (\<exists>c. conn_heap (center (two_conns True)) (get_conn_by_id (center (two_conns True)) 2) = Some c \<and> c_id c = 2)"
proof -
  have "online_tcp_conn_count (two_conns True) = 2" "get_conn_by_id (center (two_conns True)) 2 \<noteq> 0"
    by (simp_all add: two_conns_def Let_def get_conn_by_id_def)
  moreover note tcp_tables_consistent[OF two_conns_reach[of True]]
  ultimately show ?thesis by (metis nat_int of_nat_numeral)
qed

text \<open>
  The idle check closes the right connections. In every reachable state, with logics
  that close nothing from inside the callback, it returns, closes exactly the connections whose
  record has reached its deadline (last activity plus the configured life), leaves the others
  alone, and keeps the tables and the online counter consistent.
\<close>

theorem idle_check_correct:
  assumes "sink_reach limit s" "hash_order ord"
  shows "\<exists>s'. idle_check (Suc n) (\<lambda>_. []) ord now s = Some (Inr s') \<and>
    online_tcp_conn_count s' = int (card (dom (conn_id_hash_map (center s')))) \<and>
    (\<forall>i. conn_id_hash_map (center s') i =
       (case rtm_store (conn_records (center s)) i of
          Some (v, secs, deadline) \<Rightarrow> if deadline \<le> now then None else conn_id_hash_map (center s) i
        | None \<Rightarrow> conn_id_hash_map (center s) i))"
proof -
  have "sink_inv s" using sink_reach_limited[OF assms(1)] by (simp add: limited_def)
  from idle_check_quiet[OF this assms(2), of "\<lambda>_. []" n now, OF refl]
  show ?thesis unfolding sink_inv_def by blast
qed

lemma two_conns_records:
  "rtm_store (conn_records (center (two_conns bev))) = [1 \<mapsto> (100, 10, 60), 2 \<mapsto> (200, 10, 65)]"
  by (simp add: two_conns_def Let_def rtm_store_upsert)

theorem idle_check_correct_witness:
  "\<exists>s'. idle_check 1 (\<lambda>_. []) rev 60 (two_conns True) = Some (Inr s') \<and>
    conn_id_hash_map (center s') 1 = None \<and> conn_id_hash_map (center s') 2 = Some 200"
proof -
  have "conn_id_hash_map (center (two_conns True)) 2 = Some 200" by (simp add: two_conns_def Let_def)
  then show ?thesis
    using idle_check_correct[OF two_conns_reach[of True] hash_order_rev, of 0 60]
    by (auto simp: two_conns_records One_nat_def[symmetric] simp del: One_nat_def)
qed

text \<open>
  The idle check uses a dangling pointer when a logic closes, while it is told that one
  idle connection is gone, another connection that expired in the same check: the records of a
  check hold the connections by address, and the second one was freed in between.
\<close>

theorem idle_check_dangling:
  assumes "sink_inv s" "rtm_on_timer ord now (conn_records (center s)) = Some (recs, (k1, p1, t1) # (k2, p2, t2) # xs)"
    and "hash_order ord" "conn_heap (center s) p1 = Some c1" "conn_heap (center s) p2 = Some c2"
    and "c_id c2 = k2" "p1 \<noteq> p2" "react (the_guid c1) = [k2]" "react (the_guid c2) = []"
  shows "idle_check (Suc (Suc (Suc n))) react ord now s = Some (Inl (Dangling_Conn p2))"
proof -
  define s1 where "s1 = s\<lparr>center := (center s)\<lparr>conn_records := recs\<rparr>\<rparr>"
  define s2 where "s2 = s1\<lparr>notices := Closed (the_guid c1) # notices s1\<rparr>"
  from assms(1) have cc: "cc_inv (center s)" by (simp add: sink_inv_def)
  have i1: "sink_inv s1" using assms(1) cc_inv_expire[OF cc assms(3,2)] by (simp add: sink_inv_def s1_def)
  then have i2: "sink_inv s2" by (simp add: s2_def sink_inv_def)
  have h: "conn_heap (center s2) p1 = Some c1" "conn_heap (center s2) p2 = Some c2"
    "conn_heap (center s1) p1 = Some c1"
    using assms(4,5) by (simp_all add: s2_def s1_def)
  have l: "links (conn_heap (center s2)) (conn_hash_map (center s2)) (conn_id_hash_map (center s2))"
    using i2 by (simp add: sink_inv_def cc_inv_def)
  have k2: "conn_id_hash_map (center s2) k2 = Some p2" using links_heapD(2)[OF l h(2)] assms(6) by simp
  define s3 where "s3 = s2\<lparr>notices := Closed (the_guid c2) # notices s2, center := unlink p2 c2 (center s2),
      online_tcp_conn_count := online_tcp_conn_count s2 - 1\<rparr>"
  have "on_client_closed (Suc n) react p2 s2 = Inr s3"
    unfolding s3_def using i2 h(2) assms(9) by (rule on_client_closed_quiet)
  then have cl: "close_clients (Suc (Suc n)) react [k2] s2 = Inr s3" using k2 by simp
  have i3: "sink_inv s3" unfolding s3_def by (rule sink_inv_closed[OF i2 h(2)])
  have h3: "conn_heap (center s3) p1 = Some c1" using h(1) assms(7) by (simp add: s3_def)
  from sink_inv_unlink[OF i3 h3] obtain s4 where
    s4: "on_client_closed (Suc (Suc (Suc n))) react p1 s1 = Inr s4" "center s4 = unlink p1 c1 (center s3)"
    using h(3) cl h3 assms(8) by (auto simp: s2_def[symmetric])
  have "conn_heap (center s4) p2 = None" using s4(2) assms(7) by (simp add: s3_def)
  with s4(1) show ?thesis by (simp add: idle_check_def assms(2) s1_def[symmetric])
qed

theorem idle_check_dangling_witness:
  "idle_check 3 (\<lambda>g. if conn_id g = 1 then [2] else []) (\<lambda>xs. xs) 70 (two_conns False) =
     Some (Inl (Dangling_Conn 200))"
proof -
  have "sink_inv (two_conns False)" using sink_reach_limited[OF two_conns_reach] by (simp add: limited_def)
  moreover obtain recs where "rtm_on_timer (\<lambda>xs. xs) 70 (conn_records (center (two_conns False))) =
      Some (recs, [(1, 100, 10), (2, 200, 10)])"
    by (simp add: rtm_on_timer_def two_conns_def Let_def upsert_record_def rtm_init_def expire_scan.simps)
  moreover obtain c1 c2 where "conn_heap (center (two_conns False)) 100 = Some c1" "c_id c1 = 1"
    "conn_heap (center (two_conns False)) 200 = Some c2" "c_id c2 = 2"
    by (simp add: two_conns_def Let_def)
  ultimately show ?thesis
    using idle_check_dangling[of "two_conns False" "\<lambda>xs. xs" 70 recs 1 100 10 2 200 10 "[]" c1 c2
        "\<lambda>g. if conn_id g = 1 then [2] else []" 0] hash_order_id
    by (simp add: numeral_3_eq_3)
qed

text \<open>
  What happens to the socket when CreateConn fails, which no caller looks at. When all
  ids are in use it stays open and nobody owns it. When the connection cannot be initialised, a
  bufferevent connection closes it once, and a plain connection closes it twice: first in
  Initialize, then in Finalize while the object is destroyed.
\<close>

theorem create_conn_failure_sockets:
  assumes "cc_inv s" "conn_heap s p = None" "p \<noteq> 0" "conn_hash_map s fd = None"
    and "\<not> (new_ok ev \<and> add_ok ev)"
  shows "\<exists>s'. create_conn p ev now io ti ip port fd s = Some (Inr (0, s')) \<and> cc_inv s' \<and>
    conn_id_hash_map s' = conn_id_hash_map s \<and> conn_heap s' = conn_heap s \<and>
    closed_socks s' = (if dom (conn_id_hash_map s) = {1..I32_SEQ_MAX} then []
       else if cfg_bufferevent s then [fd] else [fd, fd]) @ closed_socks s"
proof -
  show ?thesis
  proof (cases rule: create_conn_cases[OF assms(1-4), of ev now io ti ip port, case_names no_id no_event created])
    case no_id
    with assms(1) show ?thesis by simp
  next
    case (no_event seq')
    have "dom (conn_id_hash_map s) \<noteq> {1..I32_SEQ_MAX}"
    proof
      assume full: "dom (conn_id_hash_map s) = {1..I32_SEQ_MAX}"
      with assms(1) have "seq_alloc 1 I32_SEQ_MAX (conn_id_seq s) = Some (0, conn_id_seq s)"
        by (intro seq_alloc_full) (simp_all add: cc_inv_def)
      moreover have "(conn_heap s)(p := None) = conn_heap s" using assms(2) by auto
      ultimately have "create_conn p ev now io ti ip port fd s = Some (Inr (0, s))" by (simp add: create_conn_def)
      with no_event(4) have "s\<lparr>conn_id_seq := seq',
          closed_socks := failed_closes (cfg_bufferevent s) fd @ closed_socks s\<rparr> = s" by simp
      from arg_cong[OF this, of closed_socks] show False by (simp add: failed_closes_def split: if_splits)
    qed
    with no_event assms(1) show ?thesis by (auto simp: cc_inv_def failed_closes_def)
  next
    case (created cid seq')
    with assms(5) show ?thesis by simp
  qed
qed

theorem create_conn_failure_sockets_witness:
  "\<exists>s'. create_conn 100 \<lparr>new_ok = False, add_ok = True\<rparr> 50 IO_TYPE_TCP 0 ''c'' 9 7 (cc_init False 10 5 3) =
     Some (Inr (0, s')) \<and> closed_socks s' = [7, 7]"
proof -
  have e: "conn_heap (cc_init False 10 5 3) = Map.empty" "conn_hash_map (cc_init False 10 5 3) = Map.empty"
    "conn_id_hash_map (cc_init False 10 5 3) = Map.empty" "closed_socks (cc_init False 10 5 3) = []"
    "cfg_bufferevent (cc_init False 10 5 3) = False" by (simp_all add: cc_init_def)
  have "{} \<noteq> {1..I32_SEQ_MAX}" by simp
  then show ?thesis
    using create_conn_failure_sockets[OF cc_inv_init, of False 10 5 3 100 7 "\<lparr>new_ok = False, add_ok = True\<rparr>"
        50 IO_TYPE_TCP 0 "''c''" 9] by (auto simp: e)
qed

text \<open>
  When a read counts as a network storm. UpdateConnStatus refuses a read exactly when at
  least storm_interval seconds have passed since the count was last started and the reads since
  then, this one included, have reached storm_threshold; nothing bounds that time from above,
  so reads spread over any longer time count as well. Otherwise the connection's idle deadline
  is moved on, and after an interval without a storm the count starts again.
\<close>

theorem storm_detection:
  assumes "cc_inv s" "conn_id_hash_map s cid = Some p"
  shows "\<exists>c x ret s'. conn_heap s p = Some c \<and> conn_hash_map s (sock_fd c) = Some x \<and>
    update_conn_status now cid True s = Inr (ret, s') \<and> cc_inv s' \<and>
    (ret = RC_ERR \<longleftrightarrow> storm_interval s \<le> now - start_time x \<and> storm_threshold s \<le> recv_count x + 1) \<and>
    (ret \<noteq> RC_ERR \<longrightarrow> rtm_store (conn_records s') cid = Some (p, inactive_conn_life s, now + inactive_conn_life s) \<and>
       conn_hash_map s' (sock_fd c) =
         Some (if storm_interval s \<le> now - start_time x then x\<lparr>start_time := now, recv_count := 0\<rparr>
               else x\<lparr>recv_count := recv_count x + 1\<rparr>))"
proof -
  from assms(1) have l: "links (conn_heap s) (conn_hash_map s) (conn_id_hash_map s)"
    and st: "\<And>i r. rtm_store (conn_records s) i = Some r \<Longrightarrow> conn_id_hash_map s i = Some (fst r)"
    by (auto simp: cc_inv_def)
  obtain c where c: "conn_heap s p = Some c" "c_id c = cid" using assms(2) by (rule links_idD[OF l])
  obtain x where x: "conn_hash_map s (sock_fd c) = Some x" using links_heapD(3)[OF l c(1)] by blast
  obtain ret s' where u: "update_conn_status now cid True s = Inr (ret, s')" "cc_inv s'"
    by (rule update_conn_status_ok[OF assms(1)])
  have store: "rtm_store (upsert_record now cid p life (conn_records s)) cid = Some (p, life, now + life)" for life
    using st[of cid] assms(2) by (cases "rtm_store (conn_records s) cid") (auto simp: rtm_store_upsert)
  show ?thesis
    using u assms(2) c(1) x store
    by (intro exI[of _ c] exI[of _ x] exI[of _ ret] exI[of _ s'])
      (auto simp: update_conn_status_def Let_def split: if_splits)
qed

theorem storm_detection_witness:
  "\<exists>s'. update_conn_status 1000000 1 True
     ((center (two_conns False))\<lparr>conn_hash_map := (conn_hash_map (center (two_conns False)))
        (7 \<mapsto> \<lparr>cx_conn = 100, start_time = 50, recv_count = 2\<rparr>)\<rparr>) = Inr (RC_ERR, s')"
proof -
  let ?s = "(center (two_conns False))\<lparr>conn_hash_map := (conn_hash_map (center (two_conns False)))
        (7 \<mapsto> \<lparr>cx_conn = 100, start_time = 50, recv_count = 2\<rparr>)\<rparr>"
  have "cc_inv (center (two_conns False))"
    using sink_reach_limited[OF two_conns_reach] by (simp add: limited_def sink_inv_def)
  then have "cc_inv ?s"
    using links_touch[of "conn_heap (center (two_conns False))" "conn_hash_map (center (two_conns False))"
        "conn_id_hash_map (center (two_conns False))" 7 "\<lparr>cx_conn = 100, start_time = 50, recv_count = 0\<rparr>"]
    by (simp add: cc_inv_def) (simp add: two_conns_def Let_def)
  from storm_detection[OF this, of 1 100 1000000] show ?thesis
    by (auto simp: two_conns_def Let_def cc_init_def new_conn_def base_conn_init_def)
qed

end
