(* ===== verification/Proto_Logic.thy ===== *)
theory Proto_Logic
  imports Proto_Codec Conn_Center
begin

text \<open>
  The proto logic of a TCP thread: \<^verbatim>\<open>proto_tcp_threads/src/tcp_logic/proto_logic.cpp\<close> with its
  \<^verbatim>\<open>scheduler.cpp\<close> and \<^verbatim>\<open>part_msg_mgr.cpp\<close>, on top of the own-thread paths of
  \<^verbatim>\<open>tcp_threads/src/scheduler.cpp\<close>. Received bytes are cut into messages, which go to the
  attached handlers or to the work threads; connections with an incomplete message are watched.
  The business libraries behind it are parameters: the handlers by what they ask of the
  scheduler (\<open>react\<close>), the common logic and the logics by what they ask of it when they are told of
  a new connection (\<open>when_connected\<close>) or a lost one (\<open>when_closed\<close>).
\<close>

subsection \<open>State\<close>

text \<open>What leaves the thread: calls of message handlers and tasks pushed to other threads.\<close>

datatype pl_event =
    Called ptr conn_guid msg_head bytes
  | Work_Task int conn_guid bytes
  | Send_Task int conn_guid bytes
  | Close_Task int conn_guid

record proto_logic =
  sink :: tcp_sink
  self_idx :: int
  codec_ctx :: msg_codec_ctx
  codec_static :: "nat option"
  dispatcher :: msg_dispatcher
  part_msgs :: "(ptr, conn_guid) record_mgr"
  part_msg_life :: int
  work_thread_count :: "int option"
  last_work_thread_idx :: int
  events :: "pl_event list"
  fault :: "conn_error option"

datatype app_op = App_Send conn_guid msg_head bytes | App_Close conn_guid

text \<open>
  The surroundings of one call: answers of the event library, the clock, the memory found behind
  a string of the connection, the contents of fresh heap memory, the handlers' requests, those of
  the common logic and of each logic, in this order, when a connection was made or lost, and how
  deep closes can nest inside one another until the stack is used up.
\<close>

record env =
  ev :: conn_ev
  clock :: time_t
  behind :: "bytes \<Rightarrow> bytes"
  heap_bytes :: "nat \<Rightarrow> bytes"
  react :: "ptr \<Rightarrow> conn_guid \<Rightarrow> msg_head \<Rightarrow> bytes \<Rightarrow> app_op list"
  when_connected :: "conn_guid \<Rightarrow> app_op list list"
  when_closed :: "conn_guid \<Rightarrow> app_op list list"
  close_levels :: nat

abbreviation conns :: "proto_logic \<Rightarrow> conn_center" where
  "conns s \<equiv> center (sink s)"

definition set_center :: "conn_center \<Rightarrow> proto_logic \<Rightarrow> proto_logic" where
  "set_center cc s = s\<lparr>sink := (sink s)\<lparr>center := cc\<rparr>\<rparr>"

text \<open>\<^verbatim>\<open>AppendData\<close>, \<^verbatim>\<open>ClearData\<close> and assignment to the string of a connection.\<close>

definition set_data :: "ptr \<Rightarrow> bytes \<Rightarrow> proto_logic \<Rightarrow> proto_logic" where
  "set_data p d s =
     (case conn_heap (conns s) p of
        None \<Rightarrow> s\<lparr>fault := Some (Dangling_Conn p)\<rparr>
      | Some c \<Rightarrow> set_center ((conns s)\<lparr>conn_heap := (conn_heap (conns s))(p \<mapsto> c\<lparr>recv_data := d\<rparr>)\<rparr>) s)"

subsection \<open>The scheduler\<close>

text \<open>
  \<^verbatim>\<open>BaseConn::Send\<close>: a plain connection queues the bytes, a bufferevent connection adds them to
  its output buffer and refreshes the idle record.
\<close>

definition conn_send :: "env \<Rightarrow> bytes \<Rightarrow> ptr \<Rightarrow> proto_logic \<Rightarrow> int \<times> proto_logic" where
  "conn_send e data p s =
     (case conn_heap (conns s) p of
        None \<Rightarrow> (RC_ERR, s\<lparr>fault := Some (Dangling_Conn p)\<rparr>)
      | Some c \<Rightarrow>
          if use_bufferevent c
          then (if \<not> add_ok (ev e) then (RC_ERR, s)
                else
                  (let cc = (conns s)\<lparr>conn_heap := (conn_heap (conns s))(p \<mapsto> c\<lparr>send_list := send_list c @ [data]\<rparr>)\<rparr> in
                   if get_conn_by_sock_fd cc (sock_fd c) = 0 then (RC_ERR, set_center cc s)
                   else (case update_conn_status (clock e) (c_id c) False cc of
                           Inl err \<Rightarrow> (RC_ERR, s\<lparr>fault := Some err\<rparr>)
                         | Inr (_, cc') \<Rightarrow> (RC_OK, set_center cc' s))))
          else (case normal_send (ev e) data c of
                  (ret, c') \<Rightarrow> (ret, set_center ((conns s)\<lparr>conn_heap := (conn_heap (conns s))(p \<mapsto> c')\<rparr>) s)))"

text \<open>
  \<^verbatim>\<open>tcp::Scheduler::SendToClient\<close>: the own thread sends, another thread gets a task. Connection
  ids come from the framework, so their thread index names an existing TCP thread
  (\<^verbatim>\<open>GetThread\<close> is not null).
\<close>

definition tcp_send_to_client :: "env \<Rightarrow> conn_guid \<Rightarrow> bytes \<Rightarrow> proto_logic \<Rightarrow> int \<times> proto_logic" where
  "tcp_send_to_client e guid data s =
     (if io_thread_idx guid = self_idx s
      then (let p = get_conn_by_id (conns s) (conn_id guid) in
            if p = 0 then (RC_ERR, s) else conn_send e data p s)
      else (RC_OK, s\<lparr>events := events s @ [Send_Task (io_thread_idx guid) guid data]\<rparr>))"

definition send_to_client :: "env \<Rightarrow> conn_guid \<Rightarrow> msg_head \<Rightarrow> bytes option \<Rightarrow> nat \<Rightarrow> proto_logic \<Rightarrow> int \<times> proto_logic" where
  "send_to_client e guid head body body_len s =
     tcp_send_to_client e guid
       (encode_new (codec_ctx s) (heap_bytes e (MIN_DATA_LEN + body_len + 1)) head body body_len) s"

text \<open>
  \<^verbatim>\<open>Scheduler::CloseClient\<close> and what a handler or a logic asks for, in order; \<open>closed\<close> stands for the
  thread sink's \<^verbatim>\<open>OnClientClosed\<close>, which comes back to the logics.
\<close>

definition close_client_by ::
  "(ptr \<Rightarrow> proto_logic \<Rightarrow> proto_logic) \<Rightarrow> conn_guid \<Rightarrow> proto_logic \<Rightarrow> int \<times> proto_logic" where
  "close_client_by closed guid s =
     (if io_thread_idx guid = self_idx s
      then (let p = get_conn_by_id (conns s) (conn_id guid) in
            if p = 0 then (RC_ERR, s) else (RC_OK, closed p s))
      else (RC_OK, s\<lparr>events := events s @ [Close_Task (io_thread_idx guid) guid]\<rparr>))"

fun app_step_by :: "(ptr \<Rightarrow> proto_logic \<Rightarrow> proto_logic) \<Rightarrow> env \<Rightarrow> app_op \<Rightarrow> proto_logic \<Rightarrow> proto_logic" where
  "app_step_by closed e (App_Send guid head body) s = snd (send_to_client e guid head (Some body) (length body) s)"
| "app_step_by closed e (App_Close guid) s = snd (close_client_by closed guid s)"

text \<open>
  The common logic and the logics are told one after the other of the connection \<open>p\<close>. What they get is a pointer into
  the connection object, which must be there still.
\<close>

fun tell_logics :: "(app_op \<Rightarrow> proto_logic \<Rightarrow> proto_logic) \<Rightarrow> ptr \<Rightarrow> app_op list list \<Rightarrow> proto_logic \<Rightarrow> proto_logic" where
  "tell_logics step p [] s = s"
| "tell_logics step p (ops # opss) s =
     (if conn_heap (conns s) p = None then s\<lparr>fault := Some (Dangling_Conn p)\<rparr>
      else tell_logics step p opss (fold step ops s))"

text \<open>
  \<^verbatim>\<open>ProtoLogic::OnClientClosed\<close>, called by the thread sink before it destroys the connection.
\<close>

definition pl_on_client_closed ::
  "(ptr \<Rightarrow> proto_logic \<Rightarrow> proto_logic) \<Rightarrow> env \<Rightarrow> conn_guid \<Rightarrow> proto_logic \<Rightarrow> proto_logic" where
  "pl_on_client_closed closed e guid s =
     (let p = get_conn_by_id (conns s) (conn_id guid) in
      if p = 0 then s
      else (let s1 = tell_logics (app_step_by closed e) p (when_closed e guid) (set_data p [] s) in
            s1\<lparr>part_msgs := remove_record p (part_msgs s1)\<rparr>))"

text \<open>
  The thread sink's \<^verbatim>\<open>OnClientClosed\<close> with the proto logic as its logic; a logic that closes a
  connection when it is told of a lost one comes back to it, one level deeper. After the logic it goes on
  with the connection object. \<open>CloseClient\<close> and the requests of handlers start at the top.
\<close>

primrec sink_closed :: "nat \<Rightarrow> env \<Rightarrow> ptr \<Rightarrow> proto_logic \<Rightarrow> proto_logic" where
  "sink_closed 0 e p s = s\<lparr>fault := Some Stack_Overflow\<rparr>"
| "sink_closed (Suc n) e p s =
     (case conn_heap (conns s) p of
        None \<Rightarrow> s\<lparr>fault := Some (Dangling_Conn p)\<rparr>
      | Some c \<Rightarrow>
          (let s1 = pl_on_client_closed (sink_closed n e) e (the_guid c) s in
           case conn_heap (conns s1) p of
             None \<Rightarrow> s1\<lparr>fault := Some (Dangling_Conn p)\<rparr>
           | Some c1 \<Rightarrow>
               (case destroy_conn (sock_fd c1) (conns s1) of
                  Inl err \<Rightarrow> s1\<lparr>fault := Some err\<rparr>
                | Inr cc \<Rightarrow>
                    s1\<lparr>sink := (sink s1)\<lparr>notices := Closed (the_guid c1) # notices (sink s1), center := cc,
                         online_tcp_conn_count := online_tcp_conn_count (sink s1) - 1\<rparr>\<rparr>)))"

definition sink_client_closed :: "env \<Rightarrow> ptr \<Rightarrow> proto_logic \<Rightarrow> proto_logic" where
  "sink_client_closed e = sink_closed (Suc (close_levels e)) e"

definition close_client :: "env \<Rightarrow> conn_guid \<Rightarrow> proto_logic \<Rightarrow> int \<times> proto_logic" where
  "close_client e = close_client_by (sink_client_closed e)"

definition app_step :: "env \<Rightarrow> app_op \<Rightarrow> proto_logic \<Rightarrow> proto_logic" where
  "app_step e = app_step_by (sink_client_closed e) e"

text \<open>
  \<^verbatim>\<open>GetScheduleWorkThreadIdx\<close> and \<^verbatim>\<open>SendToWorkThread\<close>: an index out of range means the next thread
  in turn. The task carries the message without its length field. A work thread group that exists
  has at least one thread when it is called (\<^verbatim>\<open>OnClientMsg\<close> checks), so \<^verbatim>\<open>% work_thread_count\<close> is defined.
\<close>

definition get_schedule_work_thread_idx :: "int \<Rightarrow> int \<Rightarrow> proto_logic \<Rightarrow> int \<times> proto_logic" where
  "get_schedule_work_thread_idx work_thread_idx n s =
     (if work_thread_idx < 0 \<or> n \<le> work_thread_idx
      then (last_work_thread_idx s, s\<lparr>last_work_thread_idx := (last_work_thread_idx s + 1) mod n\<rparr>)
      else (work_thread_idx, s))"

definition send_to_work_thread ::
  "env \<Rightarrow> conn_guid \<Rightarrow> msg_head \<Rightarrow> bytes \<Rightarrow> int \<Rightarrow> proto_logic \<Rightarrow> int \<times> proto_logic" where
  "send_to_work_thread e guid head body work_thread_idx s =
     (case work_thread_count s of
        None \<Rightarrow> (RC_ERR, s)
      | Some n \<Rightarrow>
          (let (idx, s1) = get_schedule_work_thread_idx work_thread_idx n s in
           if idx < 0 \<or> n \<le> idx then (RC_ERR, s1)
           else (RC_OK, s1\<lparr>events := events s1 @ [Work_Task idx guid
                  (drop TOTAL_MSG_LEN_FIELD_LEN (encode_new (codec_ctx s1)
                     (heap_bytes e (MIN_DATA_LEN + length body + 1)) head (Some body) (length body)))]\<rparr>)))"

subsection \<open>ProtoLogic\<close>

definition on_client_msg :: "env \<Rightarrow> conn_guid \<Rightarrow> msg_head \<Rightarrow> bytes \<Rightarrow> proto_logic \<Rightarrow> proto_logic" where
  "on_client_msg e guid head body s =
     (if msg_id head = MSG_ID_HEARTBEAT_REQ
      then snd (send_to_client e guid (head\<lparr>msg_id := MSG_ID_HEARTBEAT_RSP\<rparr>) None 0 s)
      else
        (case dispatch_msg (dispatcher s) head of
           (_, Some h) \<Rightarrow>
             fold (app_step e) (react e h guid head body) (s\<lparr>events := events s @ [Called h guid head body]\<rparr>)
         | (_, None) \<Rightarrow>
             if work_thread_count s = None \<or> work_thread_count s = Some 0
             then snd (send_to_client e guid (head\<lparr>msg_id := MSG_ID_NONE_HANDLER_FOUND\<rparr>) None 0 s)
             else
               (case send_to_work_thread e guid head body (- 1) s of
                  (ret, s1) \<Rightarrow>
                    if ret \<noteq> 0
                    then snd (send_to_client e guid (head\<lparr>msg_id := MSG_ID_SCHEDULE_FAILED\<rparr>) None 0 s1)
                    else s1)))"

definition pl_on_client_connected :: "env \<Rightarrow> conn_guid \<Rightarrow> proto_logic \<Rightarrow> proto_logic" where
  "pl_on_client_connected e guid s =
     (let p = get_conn_by_id (conns s) (conn_id guid) in
      if p = 0 then s else tell_logics (app_step e) p (when_connected e guid) (set_data p [] s))"

text \<open>
  The loop of \<^verbatim>\<open>OnRecvClientData\<close>. \<open>d\<close> is the contents of the connection's string; behind it in
  memory come its terminator and whatever \<open>behind\<close> says. Each turn takes one message off.
\<close>

function recv_loop :: "env \<Rightarrow> conn_guid \<Rightarrow> ptr \<Rightarrow> bytes \<Rightarrow> proto_logic \<Rightarrow> proto_logic" where
  "recv_loop e guid p d s =
     (let (stat, chk) = is_whole_msg (codec_ctx s) (codec_static s) (d @ 0 # behind e d) (length d);
          s0 = s\<lparr>codec_static := stat\<rparr> in
      case chk of
        Bad_Read \<Rightarrow> s0\<lparr>fault := Some (Dangling_Conn p)\<rparr>
      | Invalid_Len _ \<Rightarrow>
          (let s1 = set_data p [] s0;
               s2 = snd (send_to_client e guid (msg_head_reset\<lparr>msg_id := MSG_ID_INVALID_MSG_LEN\<rparr>) None 0 s1) in
           snd (close_client e guid s2))
      | Not_Whole _ \<Rightarrow>
          s0\<lparr>part_msgs := upsert_record (clock e) p guid (part_msg_life s0) (part_msgs s0)\<rparr>
      | Whole total_msg_len \<Rightarrow>
          (let s1 = s0\<lparr>part_msgs := remove_record p (part_msgs s0)\<rparr> in
           case decode_msg (codec_ctx s1) (drop TOTAL_MSG_LEN_FIELD_LEN d) total_msg_len of
             Decode_Bad_Read \<Rightarrow> s1\<lparr>fault := Some (Dangling_Conn p)\<rparr>
           | Decode_Error err_msg_id \<Rightarrow>
               snd (send_to_client e guid (msg_head_reset\<lparr>msg_id := err_msg_id\<rparr>) None 0 s1)
           | Decoded head body \<Rightarrow>
               (let s2 = (case conn_heap (conns s1) p of
                            None \<Rightarrow> s1\<lparr>fault := Some (Dangling_Conn p)\<rparr>
                          | Some c \<Rightarrow> on_client_msg e (the_guid c) head body s1) in
                if get_conn_by_id (conns s2) (conn_id guid) = 0 then s2
                else if 0 < length d - TOTAL_MSG_LEN_FIELD_LEN - total_msg_len
                then (let d' = drop (TOTAL_MSG_LEN_FIELD_LEN + total_msg_len) d in
                      recv_loop e guid p d' (set_data p d' s2))
                else set_data p [] s2)))"
  by pat_completeness auto
termination by (relation "measure (\<lambda>(_, _, _, d, _). length d)") auto

declare recv_loop.simps [simp del]

definition on_recv_client_data :: "env \<Rightarrow> conn_guid \<Rightarrow> bytes \<Rightarrow> proto_logic \<Rightarrow> proto_logic" where
  "on_recv_client_data e guid data s =
     (let p = get_conn_by_id (conns s) (conn_id guid) in
      if p = 0 then s
      else
        (case conn_heap (conns s) p of
           None \<Rightarrow> s\<lparr>fault := Some (Dangling_Conn p)\<rparr>
         | Some c \<Rightarrow>
             (let d = recv_data c @ data in recv_loop e guid p d (set_data p d s))))"

text \<open>\<^verbatim>\<open>OnTask\<close>: a message from another thread, without its length field.\<close>

definition on_task :: "env \<Rightarrow> conn_guid \<Rightarrow> bytes \<Rightarrow> proto_logic \<Rightarrow> proto_logic" where
  "on_task e guid data s =
     (if data = [] then s
      else
        (case decode_msg (codec_ctx s) data (length data) of
           Decode_Bad_Read \<Rightarrow> s\<lparr>fault := Some (Dangling_Conn 0)\<rparr>
         | Decode_Error _ \<Rightarrow> s
         | Decoded head body \<Rightarrow>
             (case dispatch_msg (dispatcher s) head of
                (_, Some h) \<Rightarrow>
                  fold (app_step e) (react e h guid head body) (s\<lparr>events := events s @ [Called h guid head body]\<rparr>)
              | (_, None) \<Rightarrow> s)))"

text \<open>
  The watch over incomplete messages: \<^verbatim>\<open>PartMsgMgr::OnTimeout\<close> closes a connection by the id
  stored in its record. The idle check of the connection center closes by the stored pointer.
\<close>

definition part_msg_check ::
  "env \<Rightarrow> ((ptr \<times> conn_guid \<times> int) list \<Rightarrow> (ptr \<times> conn_guid \<times> int) list) \<Rightarrow> proto_logic \<Rightarrow> proto_logic option" where
  "part_msg_check e ord s =
     (case rtm_on_timer ord (clock e) (part_msgs s) of
        None \<Rightarrow> None
      | Some (recs, xs) \<Rightarrow> Some (fold (\<lambda>(k, v, secs) s. snd (close_client e v s)) xs (s\<lparr>part_msgs := recs\<rparr>)))"

definition pl_idle_check ::
  "env \<Rightarrow> ((int \<times> ptr \<times> int) list \<Rightarrow> (int \<times> ptr \<times> int) list) \<Rightarrow> proto_logic \<Rightarrow> proto_logic option" where
  "pl_idle_check e ord s =
     (case rtm_on_timer ord (clock e) (conn_records (conns s)) of
        None \<Rightarrow> None
      | Some (recs, xs) \<Rightarrow>
          Some (fold (\<lambda>(k, p, secs) s. sink_client_closed e p s) xs (set_center ((conns s)\<lparr>conn_records := recs\<rparr>) s)))"

text \<open>
  The thread sink's \<^verbatim>\<open>OnClientConnected\<close> tells the logic of the new connection.
\<close>

definition pl_accept ::
  "env \<Rightarrow> ptr \<Rightarrow> io_type \<Rightarrow> string \<Rightarrow> int \<Rightarrow> int \<Rightarrow> proto_logic \<Rightarrow> (conn_error + proto_logic) option" where
  "pl_accept e p io ip port fd s =
     (case on_client_connected p (ev e) (clock e) io (self_idx s) ip port fd (sink s) of
        None \<Rightarrow> None
      | Some (Inl err) \<Rightarrow> Some (Inl err)
      | Some (Inr (ret, sk)) \<Rightarrow>
          Some (Inr (if ret \<noteq> 0 then s\<lparr>sink := sk\<rparr>
                     else (case notices sk of
                             Connected guid # _ \<Rightarrow> pl_on_client_connected e guid (s\<lparr>sink := sk\<rparr>)
                           | _ \<Rightarrow> s\<lparr>sink := sk\<rparr>))))"

text \<open>\<^verbatim>\<open>OnTimer\<close>: the exit check, over the answers of the loaded logics.\<close>

definition exit_check :: "bool option \<Rightarrow> bool list \<Rightarrow> bool \<Rightarrow> bool" where
  "exit_check common_can_exit logics_can_exit can_exit =
     (if (case common_can_exit of None \<Rightarrow> True | Some b \<Rightarrow> b) \<and> list_all (\<lambda>b. b) logics_can_exit
      then True else can_exit)"

subsection \<open>Invariant\<close>

text \<open>
  The thread sink is consistent, every connection belongs to this thread, every record of an
  incomplete message is filed under a live connection and carries its id, and no operation has
  touched a freed object.
\<close>

definition pl_inv :: "proto_logic \<Rightarrow> bool" where
  "pl_inv s \<longleftrightarrow> sink_inv (sink s) \<and> fault s = None \<and> rtm_inv (part_msgs s) \<and>
     (\<forall>p c. conn_heap (conns s) p = Some c \<longrightarrow> io_thread_idx (the_guid c) = self_idx s) \<and>
     (\<forall>p r. rtm_store (part_msgs s) p = Some r \<longrightarrow>
        (\<exists>c. conn_heap (conns s) p = Some c \<and> the_guid c = fst r))"

definition calls :: "proto_logic \<Rightarrow> pl_event list" where
  "calls s = filter (\<lambda>x. case x of Called h g head body \<Rightarrow> True | _ \<Rightarrow> False) (events s)"

text \<open>
  What the requests of handlers may change: connections may go, but those that stay keep their id,
  their socket and their unprocessed bytes; records of incomplete messages may go; no handler is called.
\<close>

definition app_rel :: "proto_logic \<Rightarrow> proto_logic \<Rightarrow> bool" where
  "app_rel s s' \<longleftrightarrow> pl_inv s' \<and> self_idx s' = self_idx s \<and> codec_ctx s' = codec_ctx s \<and>
     codec_static s' = codec_static s \<and> dispatcher s' = dispatcher s \<and> calls s' = calls s \<and>
     work_thread_count s' = work_thread_count s \<and> rtm_store (part_msgs s') \<subseteq>\<^sub>m rtm_store (part_msgs s) \<and>
     (\<forall>p c'. conn_heap (conns s') p = Some c' \<longrightarrow>
        (\<exists>c. conn_heap (conns s) p = Some c \<and> the_guid c' = the_guid c \<and> recv_data c' = recv_data c \<and>
           sock_fd c' = sock_fd c))"

lemma app_rel_refl: "pl_inv s \<Longrightarrow> app_rel s s"
  by (simp add: app_rel_def)

lemma app_rel_inv: "app_rel s s' \<Longrightarrow> pl_inv s'"
  by (simp add: app_rel_def)

lemma app_rel_trans: "app_rel s t \<Longrightarrow> app_rel t u \<Longrightarrow> app_rel s u"
  unfolding app_rel_def by (metis map_le_trans)

lemma pl_inv_links:
  "pl_inv s \<Longrightarrow> links (conn_heap (conns s)) (conn_hash_map (conns s)) (conn_id_hash_map (conns s))"
  by (simp add: pl_inv_def sink_inv_def cc_inv_def)

lemma pl_inv_cc: "pl_inv s \<Longrightarrow> cc_inv (conns s)"
  by (simp add: pl_inv_def sink_inv_def)

lemma get_conn_by_id_live:
  assumes "pl_inv s" "conn_heap (conns s) p = Some c"
  shows "get_conn_by_id (conns s) (c_id c) = p" "p \<noteq> 0"
  using links_heapD[OF pl_inv_links[OF assms(1)] assms(2)] by (simp_all add: get_conn_by_id_def)

lemma get_conn_by_id_nonzero:
  assumes "pl_inv s" "get_conn_by_id (conns s) i \<noteq> 0"
  obtains c where "conn_heap (conns s) (get_conn_by_id (conns s) i) = Some c" "c_id c = i"
  using assms(2) links_idD[OF pl_inv_links[OF assms(1)], of i]
  by (auto simp: get_conn_by_id_def split: option.splits)

lemma get_conn_by_id_zero:
  assumes "pl_inv s" "\<And>p c. conn_heap (conns s) p = Some c \<Longrightarrow> c_id c \<noteq> i"
  shows "get_conn_by_id (conns s) i = 0"
  using assms links_idD[OF pl_inv_links[OF assms(1)], of i]
  by (auto simp: get_conn_by_id_def split: option.splits)

text \<open>A change of the contents of one connection.\<close>

lemma cc_inv_conn:
  assumes inv: "cc_inv cc" and c: "conn_heap cc p = Some c"
    and same: "the_guid d = the_guid c" "sock_fd d = sock_fd c"
  shows "cc_inv (cc\<lparr>conn_heap := (conn_heap cc)(p \<mapsto> d)\<rparr>)"
proof -
  from inv have "links (conn_heap cc) (conn_hash_map cc) (conn_id_hash_map cc)" by (simp add: cc_inv_def)
  from links_data[OF this c] same inv show ?thesis by (simp add: cc_inv_def)
qed

lemma pl_inv_center:
  assumes inv: "pl_inv s" and cc: "cc_inv cc" "conn_id_hash_map cc = conn_id_hash_map (conns s)"
    and heap: "\<And>q d. conn_heap cc q = Some d \<Longrightarrow> \<exists>c. conn_heap (conns s) q = Some c \<and> the_guid d = the_guid c"
    and dom: "dom (conn_heap (conns s)) \<subseteq> dom (conn_heap cc)"
  shows "pl_inv (set_center cc s)"
proof -
  have sk: "sink_inv ((sink s)\<lparr>center := cc\<rparr>)" using inv cc by (simp add: pl_inv_def sink_inv_def)
  have own: "io_thread_idx (the_guid d) = self_idx s" if "conn_heap cc q = Some d" for q d
    using heap[OF that] inv by (auto simp: pl_inv_def)
  have rec: "\<exists>d. conn_heap cc q = Some d \<and> the_guid d = fst r" if "rtm_store (part_msgs s) q = Some r" for q r
  proof -
    from inv that obtain c where c: "conn_heap (conns s) q = Some c" "the_guid c = fst r"
      unfolding pl_inv_def by blast
    with dom obtain d where "conn_heap cc q = Some d" by blast
    with heap[OF this] c show ?thesis by auto
  qed
  from sk own rec inv show ?thesis by (simp add: pl_inv_def set_center_def)
qed

lemma set_center_simps [simp]:
  "conns (set_center cc s) = cc" "self_idx (set_center cc s) = self_idx s"
  "codec_ctx (set_center cc s) = codec_ctx s" "codec_static (set_center cc s) = codec_static s"
  "dispatcher (set_center cc s) = dispatcher s" "events (set_center cc s) = events s"
  "work_thread_count (set_center cc s) = work_thread_count s" "part_msgs (set_center cc s) = part_msgs s"
  "calls (set_center cc s) = calls s" "part_msg_life (set_center cc s) = part_msg_life s"
  by (simp_all add: set_center_def calls_def)

lemma pl_inv_conn:
  assumes inv: "pl_inv s" and c: "conn_heap (conns s) p = Some c"
    and same: "the_guid d = the_guid c" "sock_fd d = sock_fd c"
  shows "pl_inv (set_center ((conns s)\<lparr>conn_heap := (conn_heap (conns s))(p \<mapsto> d)\<rparr>) s)"
  using cc_inv_conn[OF pl_inv_cc[OF inv] c same] c same
  by (intro pl_inv_center[OF inv]) (auto split: if_splits)

lemma set_data_inv:
  assumes "pl_inv s" "conn_heap (conns s) p = Some c"
  shows "pl_inv (set_data p d s)" "conn_heap (conns (set_data p d s)) = (conn_heap (conns s))(p \<mapsto> c\<lparr>recv_data := d\<rparr>)"
  using pl_inv_conn[OF assms, of "c\<lparr>recv_data := d\<rparr>"] assms(2) by (simp_all add: set_data_def)

lemma set_data_simps [simp]:
  "self_idx (set_data p d s) = self_idx s"
  "codec_ctx (set_data p d s) = codec_ctx s" "codec_static (set_data p d s) = codec_static s"
  "dispatcher (set_data p d s) = dispatcher s" "events (set_data p d s) = events s"
  "work_thread_count (set_data p d s) = work_thread_count s" "part_msgs (set_data p d s) = part_msgs s"
  "calls (set_data p d s) = calls s" "part_msg_life (set_data p d s) = part_msg_life s"
  by (simp_all add: set_data_def calls_def split: option.splits)

subsection \<open>The scheduler keeps the invariant\<close>

lemma conn_send_rel:
  assumes inv: "pl_inv s" and c: "conn_heap (conns s) p = Some c"
  shows "app_rel s (snd (conn_send e data p s)) \<and>
    dom (conn_heap (conns (snd (conn_send e data p s)))) = dom (conn_heap (conns s))"
proof (cases "use_bufferevent c")
  case False
  obtain ret c' where n: "normal_send (ev e) data c = (ret, c')" by fastforce
  then have same: "the_guid c' = the_guid c" "sock_fd c' = sock_fd c" "recv_data c' = recv_data c"
    by (auto simp: normal_send_def split: option.splits if_splits)
  from pl_inv_conn[OF inv c same(1,2)] False c n same show ?thesis
    by (auto simp: conn_send_def app_rel_def split: if_splits)
next
  case True
  let ?d = "c\<lparr>send_list := send_list c @ [data]\<rparr>"
  let ?cc = "(conns s)\<lparr>conn_heap := (conn_heap (conns s))(p \<mapsto> ?d)\<rparr>"
  have cc: "cc_inv ?cc" using cc_inv_conn[OF pl_inv_cc[OF inv] c, of ?d] by simp
  obtain ret cc' where u: "update_conn_status (clock e) (c_id c) False ?cc = Inr (ret, cc')" "cc_inv cc'"
    "conn_heap cc' = conn_heap ?cc" "conn_id_hash_map cc' = conn_id_hash_map ?cc"
    by (rule update_conn_status_ok[OF cc])
  have "pl_inv (set_center cc' s)" "pl_inv (set_center ?cc s)"
    using u(2-4) cc c by (auto intro!: pl_inv_center[OF inv] split: if_splits)
  with True c u(1,3) app_rel_refl[OF inv] show ?thesis
    by (auto simp: conn_send_def Let_def app_rel_def split: if_splits)
qed

lemma pl_inv_events: "pl_inv (s\<lparr>events := es\<rparr>) = pl_inv s"
  by (simp add: pl_inv_def)

lemma send_to_client_rel:
  assumes inv: "pl_inv s"
  shows "app_rel s (snd (send_to_client e guid head body n s)) \<and>
    dom (conn_heap (conns (snd (send_to_client e guid head body n s)))) = dom (conn_heap (conns s))"
proof (cases "io_thread_idx guid = self_idx s")
  case False
  with inv show ?thesis
    by (auto simp: send_to_client_def tcp_send_to_client_def app_rel_def calls_def pl_inv_events)
next
  case True
  show ?thesis
  proof (cases "get_conn_by_id (conns s) (conn_id guid) = 0")
    case False
    with inv obtain c where "conn_heap (conns s) (get_conn_by_id (conns s) (conn_id guid)) = Some c"
      by (rule get_conn_by_id_nonzero)
    from conn_send_rel[OF inv this] True False show ?thesis
      by (simp add: send_to_client_def tcp_send_to_client_def Let_def)
  qed (use True inv in \<open>simp add: send_to_client_def tcp_send_to_client_def app_rel_refl\<close>)
qed

text \<open>
  Requests that close no connection of the thread \<open>i\<close>, and logics that make no others when they are told of a
  lost connection.
\<close>

definition abroad :: "int \<Rightarrow> app_op \<Rightarrow> bool" where
  "abroad i op \<longleftrightarrow> (case op of App_Send _ _ _ \<Rightarrow> True | App_Close g \<Rightarrow> io_thread_idx g \<noteq> i)"

definition quiet :: "env \<Rightarrow> bool" where
  "quiet e \<longleftrightarrow> (\<forall>g. \<forall>ops \<in> set (when_closed e g). \<forall>op \<in> set ops. abroad (io_thread_idx g) op)"

text \<open>What such requests may change: \<open>app_rel\<close>, and no connection goes.\<close>

definition sends_rel :: "proto_logic \<Rightarrow> proto_logic \<Rightarrow> bool" where
  "sends_rel s s' \<longleftrightarrow> app_rel s s' \<and> dom (conn_heap (conns s')) = dom (conn_heap (conns s))"

lemma sends_rel_refl: "pl_inv s \<Longrightarrow> sends_rel s s"
  by (simp add: sends_rel_def app_rel_refl)

lemma sends_rel_trans: "sends_rel s t \<Longrightarrow> sends_rel t u \<Longrightarrow> sends_rel s u"
  unfolding sends_rel_def using app_rel_trans by blast

lemma sends_relD: "sends_rel s s' \<Longrightarrow> pl_inv s' \<and> self_idx s' = self_idx s"
  by (simp add: sends_rel_def app_rel_def)

lemma step_abroad: "pl_inv s \<Longrightarrow> abroad (self_idx s) op \<Longrightarrow> sends_rel s (app_step_by closed e op s)"
  using send_to_client_rel[of s e]
  by (cases op) (auto simp: sends_rel_def abroad_def close_client_by_def app_rel_def calls_def pl_inv_events)

lemma steps_abroad:
  "pl_inv s \<Longrightarrow> \<forall>op \<in> set ops. abroad (self_idx s) op \<Longrightarrow> sends_rel s (fold (app_step_by closed e) ops s)"
proof (induction ops arbitrary: s)
  case (Cons op ops)
  have r: "sends_rel s (app_step_by closed e op s)" using Cons.prems by (intro step_abroad) simp_all
  with sends_relD[OF r] Cons.IH[of "app_step_by closed e op s"] Cons.prems(2) show ?case
    by (auto intro: sends_rel_trans)
qed (simp add: sends_rel_refl)

lemma tell_abroad:
  "pl_inv s \<Longrightarrow> p \<in> dom (conn_heap (conns s)) \<Longrightarrow> \<forall>ops \<in> set opss. \<forall>op \<in> set ops. abroad (self_idx s) op \<Longrightarrow>
   sends_rel s (tell_logics (app_step_by closed e) p opss s)"
proof (induction opss arbitrary: s)
  case (Cons ops opss)
  let ?t = "fold (app_step_by closed e) ops s"
  have r: "sends_rel s ?t" using Cons.prems by (intro steps_abroad) simp_all
  have "sends_rel ?t (tell_logics (app_step_by closed e) p opss ?t)"
    using Cons.prems sends_relD[OF r] r by (intro Cons.IH) (simp_all add: sends_rel_def)
  with r Cons.prems(2) show ?case by (auto intro: sends_rel_trans)
qed (simp add: sends_rel_refl)

text \<open>A closed connection: it, its buffer and its record are gone, and nothing else.\<close>

definition closed_conn :: "ptr \<Rightarrow> base_conn \<Rightarrow> proto_logic \<Rightarrow> proto_logic" where
  "closed_conn p c s =
     s\<lparr>sink := (sink s)\<lparr>notices := Closed (the_guid c) # notices (sink s), center := unlink p c (conns s),
         online_tcp_conn_count := online_tcp_conn_count (sink s) - 1\<rparr>,
       part_msgs := remove_record p (part_msgs s)\<rparr>"

lemma closed_conn_simps [simp]:
  "conn_heap (conns (closed_conn p c s)) = (conn_heap (conns s))(p := None)"
  "part_msgs (closed_conn p c s) = remove_record p (part_msgs s)"
  "self_idx (closed_conn p c s) = self_idx s" "codec_ctx (closed_conn p c s) = codec_ctx s"
  "codec_static (closed_conn p c s) = codec_static s" "dispatcher (closed_conn p c s) = dispatcher s"
  "events (closed_conn p c s) = events s" "work_thread_count (closed_conn p c s) = work_thread_count s"
  "calls (closed_conn p c s) = calls s"
  by (auto simp: closed_conn_def calls_def)

lemma closed_conn_inv:
  assumes inv: "pl_inv s" and c: "conn_heap (conns s) p = Some c"
  shows "pl_inv (closed_conn p c s)"
proof -
  have sk: "sink_inv (sink s)" using inv by (simp add: pl_inv_def)
  note sink_inv_closed[OF sk c, of "Closed (the_guid c) # notices (sink s)"]
  moreover have "rtm_inv (remove_record p (part_msgs s))" using inv by (simp add: pl_inv_def cc_inv)
  moreover have "\<exists>d. q \<noteq> p \<and> conn_heap (conns s) q = Some d \<and> the_guid d = fst r"
    if "rtm_store (remove_record p (part_msgs s)) q = Some r" for q r
    using that inv unfolding pl_inv_def rtm_store_remove by (metis fun_upd_apply option.distinct(1))
  moreover have "io_thread_idx (the_guid d) = self_idx s" if "conn_heap (conns s) q = Some d" for q d
    using inv that unfolding pl_inv_def by blast
  ultimately show ?thesis using inv by (auto simp: pl_inv_def closed_conn_def split: if_splits)
qed

text \<open>
  Closing a live connection: the logics are told, and what they ask for is done; then it goes.
\<close>

lemma sink_client_closed_eq:
  assumes inv: "pl_inv s" and c: "conn_heap (conns s) p = Some c" and q: "quiet e"
  obtains t c1 where "sink_client_closed e p s = closed_conn p c1 t" "pl_inv t" "conn_heap (conns t) p = Some c1"
    "the_guid c1 = the_guid c" "app_rel s (closed_conn p c1 t)" "dom (conn_heap (conns t)) = dom (conn_heap (conns s))"
proof -
  let ?s = "set_data p [] s"
  have i: "pl_inv ?s" and h: "conn_heap (conns ?s) = (conn_heap (conns s))(p \<mapsto> c\<lparr>recv_data := []\<rparr>)"
    by (rule set_data_inv[OF inv c])+
  let ?closed = "sink_closed (close_levels e) e"
  define t where "t = tell_logics (app_step_by ?closed e) p (when_closed e (the_guid c)) ?s"
  have "io_thread_idx (the_guid c) = self_idx s" using inv c unfolding pl_inv_def by blast
  with q have "\<forall>ops \<in> set (when_closed e (the_guid c)). \<forall>op \<in> set ops. abroad (self_idx s) op"
    unfolding quiet_def by metis
  then have r: "sends_rel ?s t" unfolding t_def by (intro tell_abroad[OF i]) (simp_all add: h)
  then have it: "pl_inv t" and dom: "dom (conn_heap (conns t)) = dom (conn_heap (conns s))"
    using c by (auto simp: sends_rel_def app_rel_def h)
  then obtain c1 where c1: "conn_heap (conns t) p = Some c1" using c by blast
  with r have same: "the_guid c1 = the_guid c" "sock_fd c1 = sock_fd c" unfolding sends_rel_def app_rel_def h by fastforce+
  have on: "pl_on_client_closed ?closed e (the_guid c) s = t\<lparr>part_msgs := remove_record p (part_msgs t)\<rparr>"
    using get_conn_by_id_live[OF inv c] by (simp add: pl_on_client_closed_def t_def Let_def)
  have "sink_inv (sink t)" using it by (simp add: pl_inv_def)
  from sink_inv_unlink[OF this c1] have "destroy_conn (sock_fd c1) (conns t) = Inr (unlink p c1 (conns t))" by simp
  with c c1 have eq: "sink_client_closed e p s = closed_conn p c1 t"
    by (simp add: sink_client_closed_def on closed_conn_def Let_def)
  have heap: "\<exists>d. conn_heap (conns s) q = Some d \<and> the_guid c' = the_guid d \<and> recv_data c' = recv_data d \<and> sock_fd c' = sock_fd d"
    if "conn_heap (conns t) q = Some c'" "q \<noteq> p" for q c'
  proof -
    from r that(1) have "\<exists>d. conn_heap (conns ?s) q = Some d \<and> the_guid c' = the_guid d \<and> recv_data c' = recv_data d \<and>
        sock_fd c' = sock_fd d" unfolding sends_rel_def app_rel_def by blast
    with that(2) show ?thesis by (simp add: h)
  qed
  have "rtm_store (part_msgs t) \<subseteq>\<^sub>m rtm_store (part_msgs s)" using r by (simp add: sends_rel_def app_rel_def)
  then have "rtm_store (part_msgs (closed_conn p c1 t)) \<subseteq>\<^sub>m rtm_store (part_msgs s)"
    by (simp add: rtm_store_remove map_le_def)
  with heap have "app_rel s (closed_conn p c1 t)"
    using r closed_conn_inv[OF it c1] by (simp add: sends_rel_def app_rel_def)
  from that[OF eq it c1 same(1) this dom] show ?thesis .
qed

lemma sink_client_closed_rel:
  assumes "pl_inv s" "conn_heap (conns s) p = Some c" "quiet e"
  shows "app_rel s (sink_client_closed e p s)"
    "dom (conn_heap (conns (sink_client_closed e p s))) = dom (conn_heap (conns s)) - {p}"
    "get_conn_by_id (conns (sink_client_closed e p s)) (c_id c) = 0"
proof -
  obtain t c1 where eq: "sink_client_closed e p s = closed_conn p c1 t" "the_guid c1 = the_guid c"
    "app_rel s (closed_conn p c1 t)" "dom (conn_heap (conns t)) = dom (conn_heap (conns s))"
    by (rule sink_client_closed_eq[OF assms])
  then show "app_rel s (sink_client_closed e p s)"
    "dom (conn_heap (conns (sink_client_closed e p s))) = dom (conn_heap (conns s)) - {p}" by auto
  show "get_conn_by_id (conns (sink_client_closed e p s)) (c_id c) = 0"
    by (simp add: eq(1,2)[symmetric]) (simp add: eq(1) closed_conn_def get_conn_by_id_def eq(2)[symmetric])
qed

lemma close_client_rel:
  assumes inv: "pl_inv s" and quiet: "quiet e"
  shows "app_rel s (snd (close_client e guid s))"
    and "io_thread_idx guid = self_idx s \<Longrightarrow> conn_heap (conns s) p = Some c \<Longrightarrow> c_id c = conn_id guid \<Longrightarrow>
      close_client e guid s = (RC_OK, sink_client_closed e p s)"
    and "conn_heap (conns s) p = Some c \<Longrightarrow> c_id c \<noteq> conn_id guid \<Longrightarrow>
      p \<in> dom (conn_heap (conns (snd (close_client e guid s))))"
proof -
  have cl: "close_client e guid s = (RC_OK, sink_client_closed e q s)"
    if "io_thread_idx guid = self_idx s" "conn_heap (conns s) q = Some d" "c_id d = conn_id guid" for q d
    using that get_conn_by_id_live[OF inv that(2)] by (simp add: close_client_def close_client_by_def Let_def)
  show "io_thread_idx guid = self_idx s \<Longrightarrow> conn_heap (conns s) p = Some c \<Longrightarrow> c_id c = conn_id guid \<Longrightarrow>
      close_client e guid s = (RC_OK, sink_client_closed e p s)" by (rule cl)
  consider (other) "io_thread_idx guid \<noteq> self_idx s"
    | (none) "io_thread_idx guid = self_idx s" "get_conn_by_id (conns s) (conn_id guid) = 0"
    | (live) q d where "io_thread_idx guid = self_idx s" "conn_heap (conns s) q = Some d" "c_id d = conn_id guid"
    using get_conn_by_id_nonzero[OF inv] by metis
  then have "app_rel s (snd (close_client e guid s)) \<and> (conn_heap (conns s) p = Some c \<longrightarrow>
      c_id c \<noteq> conn_id guid \<longrightarrow> p \<in> dom (conn_heap (conns (snd (close_client e guid s)))))"
  proof cases
    case other
    with inv show ?thesis by (auto simp: close_client_def close_client_by_def app_rel_def calls_def pl_inv_events)
  next
    case none
    with inv show ?thesis by (simp add: close_client_def close_client_by_def app_rel_refl domI)
  next
    case live
    with sink_client_closed_rel(1,2)[OF inv live(2) quiet] cl[OF live] show ?thesis by auto
  qed
  then show "app_rel s (snd (close_client e guid s))" "conn_heap (conns s) p = Some c \<Longrightarrow> c_id c \<noteq> conn_id guid \<Longrightarrow>
      p \<in> dom (conn_heap (conns (snd (close_client e guid s))))" by blast+
qed

lemma app_step_simps [simp]:
  "app_step e (App_Send guid head body) s = snd (send_to_client e guid head (Some body) (length body) s)"
  "app_step e (App_Close guid) s = snd (close_client e guid s)"
  by (simp_all add: app_step_def close_client_def)

lemma app_step_rel: "pl_inv s \<Longrightarrow> quiet e \<Longrightarrow> app_rel s (app_step e op s)"
  by (cases op) (simp_all add: send_to_client_rel close_client_rel(1))

lemma app_steps_rel: "pl_inv s \<Longrightarrow> quiet e \<Longrightarrow> app_rel s (fold (app_step e) ops s)"
proof (induction ops arbitrary: s)
  case (Cons op ops)
  note r = app_step_rel[OF Cons.prems, of op]
  from app_rel_trans[OF r Cons.IH[OF app_rel_inv[OF r] Cons.prems(2)]] show ?case by simp
qed (simp add: app_rel_refl)

text \<open>A connection survives requests that do not close it.\<close>

definition spares :: "conn_guid \<Rightarrow> app_op list \<Rightarrow> bool" where
  "spares guid ops \<longleftrightarrow> (\<forall>op \<in> set ops. case op of App_Send _ _ _ \<Rightarrow> True | App_Close g \<Rightarrow> conn_id g \<noteq> conn_id guid)"

lemma app_rel_heapD:
  assumes "app_rel s s'" "conn_heap (conns s') p = Some c'"
  shows "\<exists>c. conn_heap (conns s) p = Some c \<and> the_guid c' = the_guid c \<and> recv_data c' = recv_data c \<and> sock_fd c' = sock_fd c"
  using assms unfolding app_rel_def by blast

lemma app_rel_connD:
  assumes "app_rel s s'" "conn_heap (conns s) p = Some c" "conn_heap (conns s') p \<noteq> None"
  obtains c' where "conn_heap (conns s') p = Some c'" "the_guid c' = the_guid c" "recv_data c' = recv_data c" "sock_fd c' = sock_fd c"
  using assms unfolding app_rel_def by fastforce

lemma app_steps_spare:
  assumes "quiet e" "pl_inv s" "conn_heap (conns s) p = Some c" "spares (the_guid c) ops"
  shows "conn_heap (conns (fold (app_step e) ops s)) p \<noteq> None"
  using assms(2-)
proof (induction ops arbitrary: s c)
  case (Cons op ops)
  note r = app_step_rel[OF Cons.prems(1) assms(1), of op]
  have "conn_heap (conns (app_step e op s)) p \<noteq> None"
  proof (cases op)
    case (App_Send g head body)
    have "p \<in> dom (conn_heap (conns s))" using Cons.prems(2) by blast
    then have "p \<in> dom (conn_heap (conns (app_step e op s)))"
      using send_to_client_rel[OF Cons.prems(1)] App_Send by simp
    then show ?thesis by blast
  next
    case (App_Close g)
    with Cons.prems have "c_id c \<noteq> conn_id g" by (auto simp: spares_def)
    from close_client_rel(3)[OF Cons.prems(1) assms(1) Cons.prems(2) this] App_Close show ?thesis by auto
  qed
  then obtain c' where c': "conn_heap (conns (app_step e op s)) p = Some c'" "the_guid c' = the_guid c"
    by (rule app_rel_connD[OF r Cons.prems(2)])
  have "spares (the_guid c') ops" using Cons.prems(3) by (simp add: c'(2) spares_def)
  from Cons.IH[OF app_rel_inv[OF r] c'(1) this] show ?case by simp
qed simp

text \<open>Logics that do not close the connection they are told is new.\<close>

definition welcoming :: "env \<Rightarrow> bool" where
  "welcoming e \<longleftrightarrow> (\<forall>g. \<forall>ops \<in> set (when_connected e g). spares g ops)"

lemma tell_spare:
  assumes "quiet e" "pl_inv s" "conn_heap (conns s) p = Some c" "\<forall>ops \<in> set opss. spares (the_guid c) ops"
  shows "app_rel s (tell_logics (app_step e) p opss s)"
  using assms(2-)
proof (induction opss arbitrary: s c)
  case (Cons ops opss)
  let ?t = "fold (app_step e) ops s"
  note r = app_steps_rel[OF Cons.prems(1) assms(1), of ops]
  have "conn_heap (conns ?t) p \<noteq> None"
    using Cons.prems(3) by (intro app_steps_spare[OF assms(1) Cons.prems(1,2)]) simp
  then obtain c' where "conn_heap (conns ?t) p = Some c'" "the_guid c' = the_guid c"
    by (rule app_rel_connD[OF r Cons.prems(2)])
  with Cons.IH[OF app_rel_inv[OF r], of c'] Cons.prems(2,3) app_rel_trans[OF r] show ?case by simp
qed (simp add: app_rel_refl)

subsection \<open>Received data keep the invariant\<close>

lemma pl_inv_noise [simp]:
  "pl_inv (s\<lparr>events := es, last_work_thread_idx := i\<rparr>) = pl_inv s" "pl_inv (s\<lparr>events := es\<rparr>) = pl_inv s"
  "pl_inv (s\<lparr>codec_static := x\<rparr>) = pl_inv s" "pl_inv (s\<lparr>last_work_thread_idx := i\<rparr>) = pl_inv s"
  by (simp_all add: pl_inv_def)

lemma noise_self: "s = s\<lparr>events := events s, last_work_thread_idx := last_work_thread_idx s\<rparr>"
  by simp

lemma on_client_msg_rel:
  assumes inv: "pl_inv s" and quiet: "quiet e"
  shows "\<exists>es i. app_rel (s\<lparr>events := es, last_work_thread_idx := i\<rparr>) (on_client_msg e guid head body s)"
proof -
  have send: "\<exists>es i. app_rel (s\<lparr>events := es, last_work_thread_idx := i\<rparr>)
      (snd (send_to_client e guid h None 0 (s\<lparr>last_work_thread_idx := j\<rparr>)))" for h j
    using send_to_client_rel[of "s\<lparr>last_work_thread_idx := j\<rparr>" e guid h None 0] inv
    by (intro exI[of _ "events s"] exI[of _ j]) simp
  from send[of _ "last_work_thread_idx s"] have send0: "\<exists>es i. app_rel (s\<lparr>events := es, last_work_thread_idx := i\<rparr>)
      (snd (send_to_client e guid h None 0 s))" for h by simp
  have call: "\<exists>es i. app_rel (s\<lparr>events := es, last_work_thread_idx := i\<rparr>) (fold (app_step e) ops (s\<lparr>events := fs\<rparr>))"
    for ops fs
    using app_steps_rel[of "s\<lparr>events := fs\<rparr>" e ops] inv quiet
    by (intro exI[of _ fs] exI[of _ "last_work_thread_idx s"]) simp
  have work: "\<exists>es i. app_rel (s\<lparr>events := es, last_work_thread_idx := i\<rparr>)
       (let (ret, s1) = send_to_work_thread e guid head body (- 1) s in
        if ret \<noteq> 0 then snd (send_to_client e guid h None 0 s1) else s1)" for h
  proof (cases "work_thread_count s")
    case None
    with send0 show ?thesis by (simp add: send_to_work_thread_def)
  next
    case (Some n)
    have idx: "get_schedule_work_thread_idx (- 1) n s = (last_work_thread_idx s,
        s\<lparr>last_work_thread_idx := (last_work_thread_idx s + 1) mod n\<rparr>)"
      by (simp add: get_schedule_work_thread_idx_def)
    show ?thesis
    proof (cases "last_work_thread_idx s < 0 \<or> n \<le> last_work_thread_idx s")
      case True
      with Some idx send show ?thesis by (simp add: send_to_work_thread_def)
    next
      case False
      have "app_rel (s\<lparr>events := es, last_work_thread_idx := i\<rparr>) (s\<lparr>last_work_thread_idx := i, events := es\<rparr>)" for es i
        using inv by (simp add: app_rel_def calls_def)
      with False Some idx show ?thesis by (simp add: send_to_work_thread_def Let_def) blast
    qed
  qed
  show ?thesis
    using send0 call work
    by (auto simp: on_client_msg_def dispatch_msg_def case_prod_beta split: option.splits)
qed

lemma pl_inv_unrecord: "pl_inv s \<Longrightarrow> pl_inv (s\<lparr>part_msgs := remove_record p (part_msgs s)\<rparr>)"
  unfolding pl_inv_def by (auto simp: cc_inv rtm_store_remove)

lemma pl_inv_record:
  assumes "pl_inv s" "conn_heap (conns s) p = Some c"
  shows "pl_inv (s\<lparr>part_msgs := upsert_record now p (the_guid c) life (part_msgs s)\<rparr>)"
proof -
  have "\<exists>d. conn_heap (conns s) q = Some d \<and> the_guid d = fst r"
    if r: "rtm_store (upsert_record now p (the_guid c) life (part_msgs s)) q = Some r" for q r
  proof (cases "q = p")
    case True
    with r assms show ?thesis
      unfolding pl_inv_def by (fastforce simp: rtm_store_upsert split: option.splits)
  next
    case False
    with r have "rtm_store (part_msgs s) q = Some r" by (simp add: rtm_store_upsert)
    with assms(1) show ?thesis unfolding pl_inv_def by blast
  qed
  with assms(1) show ?thesis by (simp add: pl_inv_def cc_inv)
qed

text \<open>
  After a message was handled, the loop looks the connection up again: if there is one, it is the
  one it works on.
\<close>

lemma after_msg:
  assumes inv: "pl_inv s" and c: "conn_heap (conns s) p = Some c"
    and t: "app_rel (s\<lparr>events := es, last_work_thread_idx := i\<rparr>) t"
    and found: "get_conn_by_id (conns t) (c_id c) \<noteq> 0"
  obtains c' where "conn_heap (conns t) p = Some c'" "the_guid c' = the_guid c" "recv_data c' = recv_data c" "sock_fd c' = sock_fd c"
proof -
  let ?q = "get_conn_by_id (conns t) (c_id c)"
  obtain d where d: "conn_heap (conns t) ?q = Some d" "c_id d = c_id c"
    by (rule get_conn_by_id_nonzero[OF app_rel_inv[OF t] found])
  obtain d0 where d0: "conn_heap (conns s) ?q = Some d0" "the_guid d = the_guid d0" "recv_data d = recv_data d0"
    "sock_fd d = sock_fd d0" using app_rel_heapD[OF t d(1)] by auto
  have q: "?q = p" using d(2) d0(1,2) get_conn_by_id_live(1)[OF inv d0(1)] get_conn_by_id_live(1)[OF inv c] by simp
  from d0(1) c have "d0 = c" unfolding q by simp
  with d(1) d0(2-4) show ?thesis unfolding q by (intro that[of d]) simp_all
qed

end
