(* ===== verification/Proto_Stream.thy ===== *)
theory Proto_Stream
  imports Proto_Logic
begin

text \<open>
  What the proto logic makes of a stream of bytes: the loop over the received data keeps the
  invariant whatever arrives, cuts a stream of encoded messages into exactly these messages, and
  what happens at the edges (a length field that arrives in pieces, a wrong checksum).
\<close>

subsection \<open>The loop keeps the invariant\<close>

text \<open>Memory behind a string that can be read, so that the four bytes of the length always are.\<close>

definition readable :: "env \<Rightarrow> bool" where
  "readable e \<longleftrightarrow> (\<forall>d. 3 \<le> length (behind e d))"

text \<open>One turn of the loop on a whole message that decodes.\<close>

lemma recv_loop_whole:
  assumes w: "is_whole_msg (codec_ctx s) (codec_static s) (d @ 0 # behind e d) (length d) = (stat, Whole n)"
    and dec: "decode_msg (codec_ctx s) (drop 4 d) n = Decoded head body"
    and c: "conn_heap (conns s) p = Some c"
  defines "s2 \<equiv> on_client_msg e (the_guid c) head body
     (s\<lparr>codec_static := stat, part_msgs := remove_record p (part_msgs s)\<rparr>)"
  shows "recv_loop e guid p d s =
    (if get_conn_by_id (conns s2) (conn_id guid) = 0 then s2
     else if 0 < length d - 4 - n
     then recv_loop e guid p (drop (4 + n) d) (set_data p (drop (4 + n) d) s2)
     else set_data p [] s2)"
  using w dec c by (simp add: recv_loop.simps[of e guid p d s] Let_def s2_def)

text \<open>The invariant holds, and every connection there is was there before, with its id and socket.\<close>

definition pl_keeps :: "proto_logic \<Rightarrow> proto_logic \<Rightarrow> bool" where
  "pl_keeps s s' \<longleftrightarrow> pl_inv s' \<and>
     (\<forall>q c'. conn_heap (conns s') q = Some c' \<longrightarrow>
        (\<exists>c. conn_heap (conns s) q = Some c \<and> the_guid c' = the_guid c \<and> sock_fd c' = sock_fd c))"

lemma pl_keeps_inv: "pl_keeps s s' \<Longrightarrow> pl_inv s'"
  by (simp add: pl_keeps_def)

lemma pl_keeps_refl: "pl_inv s \<Longrightarrow> pl_keeps s s"
  by (simp add: pl_keeps_def)

lemma pl_keeps_trans: "pl_keeps s t \<Longrightarrow> pl_keeps t u \<Longrightarrow> pl_keeps s u"
  unfolding pl_keeps_def by (metis (no_types, lifting))

lemma app_rel_keeps: "app_rel s s' \<Longrightarrow> pl_keeps s s'"
  unfolding app_rel_def pl_keeps_def by blast

lemma set_data_keeps: "pl_inv s \<Longrightarrow> conn_heap (conns s) p = Some c \<Longrightarrow> pl_keeps s (set_data p d s)"
  using set_data_inv[of s p c d] by (auto simp: pl_keeps_def)

lemma pl_keeps_heap: "pl_keeps s s' \<Longrightarrow> conn_heap (conns t) = conn_heap (conns s) \<Longrightarrow> pl_keeps t s'"
  by (simp add: pl_keeps_def)

lemma recv_loop_keeps:
  assumes "readable e" "quiet e" "pl_inv s" "conn_heap (conns s) p = Some c"
  shows "pl_keeps s (recv_loop e (the_guid c) p d s)"
  using assms(3,4)
proof (induction d arbitrary: s c rule: measure_induct_rule[of length])
  case (less d)
  note inv = less.prems(1) and c = less.prems(2)
  let ?g = "the_guid c"
  obtain stat chk where w: "is_whole_msg (codec_ctx s) (codec_static s) (d @ 0 # behind e d) (length d) = (stat, chk)"
    by fastforce
  let ?s0 = "s\<lparr>codec_static := stat\<rparr>"
  have inv0: "pl_inv ?s0" and c0: "conn_heap (conns ?s0) p = Some c" using inv c by simp_all
  show ?case
  proof (cases chk)
    case Bad_Read
    have "3 \<le> length (behind e d)" using assms(1) by (simp add: readable_def)
    from is_whole_readable[OF this, of "codec_ctx s" "codec_static s" d "length d"] w Bad_Read
    show ?thesis by simp
  next
    case (Invalid_Len n)
    let ?s1 = "set_data p [] ?s0"
    let ?s2 = "snd (send_to_client e ?g (msg_head_reset\<lparr>msg_id := MSG_ID_INVALID_MSG_LEN\<rparr>) None 0 ?s1)"
    have k1: "pl_keeps ?s0 ?s1" by (rule set_data_keeps[OF inv0 c0])
    note k2 = app_rel_keeps[OF conjunct1[OF send_to_client_rel[OF pl_keeps_inv[OF k1]]]]
    note k3 = app_rel_keeps[OF close_client_rel(1)[OF pl_keeps_inv[OF k2] assms(2)]]
    from pl_keeps_heap[OF pl_keeps_trans[OF pl_keeps_trans[OF k1 k2] k3], of s] show ?thesis
      using w Invalid_Len by (simp add: recv_loop.simps[of e ?g p d s] Let_def)
  next
    case (Not_Whole n)
    from pl_inv_record[OF inv0 c0] w Not_Whole show ?thesis
      by (simp add: recv_loop.simps[of e ?g p d s] Let_def pl_keeps_def)
  next
    case (Whole n)
    let ?s1 = "s\<lparr>codec_static := stat, part_msgs := remove_record p (part_msgs s)\<rparr>"
    have inv1: "pl_inv ?s1" using pl_inv_unrecord[OF inv0, of p] by simp
    have c1: "conn_heap (conns ?s1) p = Some c" using c by simp
    show ?thesis
    proof (cases "decode_msg (codec_ctx s) (drop 4 d) n")
      case Decode_Bad_Read
      with decode_whole(3)[OF w[unfolded Whole]] show ?thesis by simp
    next
      case (Decode_Error err)
      have "pl_keeps s (snd (send_to_client e ?g (msg_head_reset\<lparr>msg_id := err\<rparr>) None 0 ?s1))"
        by (rule pl_keeps_heap[OF app_rel_keeps[OF conjunct1[OF send_to_client_rel[OF inv1]]]]) simp
      with w Whole Decode_Error show ?thesis
        by (simp add: recv_loop.simps[of e ?g p d s] Let_def)
    next
      case (Decoded head body)
      define s2 where "s2 = on_client_msg e ?g head body ?s1"
      obtain es i where r: "app_rel (?s1\<lparr>events := es, last_work_thread_idx := i\<rparr>) s2"
        unfolding s2_def using on_client_msg_rel[OF inv1 assms(2)] by blast
      note inv2 = app_rel_inv[OF r]
      have k: "pl_keeps s s2" using pl_keeps_heap[OF app_rel_keeps[OF r], of s] by simp
      note eq = recv_loop_whole[OF w[unfolded Whole] Decoded c, of ?g, folded s2_def]
      show ?thesis
      proof (cases "get_conn_by_id (conns s2) (c_id c) = 0")
        case True
        with eq k show ?thesis by simp
      next
        case False
        then obtain c2 where c2: "conn_heap (conns s2) p = Some c2" "the_guid c2 = ?g"
          by (rule after_msg[OF inv1 c1 r])
        let ?d' = "drop (4 + n) d"
        have k3: "pl_keeps s (set_data p x s2)" for x by (rule pl_keeps_trans[OF k set_data_keeps[OF inv2 c2(1)]])
        have c3: "conn_heap (conns (set_data p ?d' s2)) p = Some (c2\<lparr>recv_data := ?d'\<rparr>)"
          using set_data_inv(2)[OF inv2 c2(1)] by simp
        show ?thesis
        proof (cases "0 < length d - 4 - n")
          case True
          then have "length ?d' < length d" by simp
          from pl_keeps_trans[OF k3 less.IH[OF this pl_keeps_inv[OF k3] c3]] c2(2) eq False True show ?thesis by simp
        qed (use eq False k3 in simp)
      qed
    qed
  qed
qed

lemma on_recv_live:
  assumes "pl_inv s" "conn_heap (conns s) p = Some c"
  shows "on_recv_client_data e (the_guid c) data s =
    recv_loop e (the_guid c) p (recv_data c @ data) (set_data p (recv_data c @ data) s)"
  using get_conn_by_id_live[OF assms] assms(2) by (simp add: on_recv_client_data_def Let_def)

lemma on_recv_client_data_keeps:
  assumes "readable e" "quiet e" "pl_inv s" "conn_heap (conns s) p = Some c"
  shows "pl_keeps s (on_recv_client_data e (the_guid c) data s)"
proof -
  let ?d = "recv_data c @ data"
  have "conn_heap (conns (set_data p ?d s)) p = Some (c\<lparr>recv_data := ?d\<rparr>)"
    using set_data_inv(2)[OF assms(3,4)] by simp
  from recv_loop_keeps[OF assms(1,2) set_data_inv(1)[OF assms(3,4)] this, of ?d]
  show ?thesis using pl_keeps_trans[OF set_data_keeps[OF assms(3,4)]] by (simp add: on_recv_live[OF assms(3,4)])
qed

lemmas on_recv_client_data_inv = pl_keeps_inv[OF on_recv_client_data_keeps]

subsection \<open>Timers, tasks and new connections keep the invariant\<close>

lemma close_ptrs:
  assumes "quiet e" "pl_inv s" "distinct ps" "set ps \<subseteq> dom (conn_heap (conns s))"
  shows "pl_keeps s (fold (sink_client_closed e) ps s) \<and>
    dom (conn_heap (conns (fold (sink_client_closed e) ps s))) = dom (conn_heap (conns s)) - set ps"
  using assms(2-)
proof (induction ps arbitrary: s)
  case (Cons p ps)
  then obtain c where c: "conn_heap (conns s) p = Some c" by auto
  note r = sink_client_closed_rel[OF Cons.prems(1) c assms(1)]
  have "set ps \<subseteq> dom (conn_heap (conns (sink_client_closed e p s)))" using Cons.prems(2,3) r(2) by auto
  with Cons.IH[OF app_rel_inv[OF r(1)]] Cons.prems(2) pl_keeps_trans[OF app_rel_keeps[OF r(1)]] r(2) show ?case by auto
qed (simp add: pl_keeps_refl)

lemma close_guids:
  assumes "quiet e" "pl_inv s" "distinct (map fst xs)"
    and "\<And>k v t. (k, v, t) \<in> set xs \<Longrightarrow> \<exists>c. conn_heap (conns s) k = Some c \<and> the_guid c = v"
  shows "fold (\<lambda>(k, v, secs) s. snd (close_client e v s)) xs s = fold (sink_client_closed e) (map fst xs) s"
  using assms(2-)
proof (induction xs arbitrary: s)
  case (Cons x xs)
  obtain k v t where x: "x = (k, v, t)" by (cases x)
  with Cons.prems(3)[of k v t] obtain c where c: "conn_heap (conns s) k = Some c" "the_guid c = v" by auto
  then have "io_thread_idx v = self_idx s" using Cons.prems(1) by (auto simp: pl_inv_def)
  with close_client_rel(2)[OF Cons.prems(1) assms(1) _ c(1)] c(2)
  have cl: "snd (close_client e v s) = sink_client_closed e k s" by simp
  note r = sink_client_closed_rel[OF Cons.prems(1) c(1) assms(1)]
  have "\<exists>d. conn_heap (conns (sink_client_closed e k s)) k' = Some d \<and> the_guid d = v'"
    if m: "(k', v', t') \<in> set xs" for k' v' t'
  proof -
    have "k' \<noteq> k" using m Cons.prems(2) by (force simp: x)
    moreover obtain d where d: "conn_heap (conns s) k' = Some d" "the_guid d = v'"
      using Cons.prems(3)[of k' v' t'] m by auto
    ultimately have "k' \<in> dom (conn_heap (conns (sink_client_closed e k s)))" using r(2) by blast
    then show ?thesis using app_rel_connD[OF r(1) d(1)] d(2) by (metis domIff)
  qed
  with Cons.IH[OF app_rel_inv[OF r(1)]] Cons.prems(2) cl show ?case by (simp add: x)
qed simp

lemma part_msg_check_spec:
  assumes inv: "pl_inv s" and ord: "hash_order ord" and quiet: "quiet e"
  obtains s' where "part_msg_check e ord s = Some s'" "pl_keeps s s'"
    "dom (conn_heap (conns s')) = dom (conn_heap (conns s)) -
       {p. \<exists>v t dl. rtm_store (part_msgs s) p = Some (v, t, dl) \<and> dl \<le> clock e}"
proof -
  have rt: "rtm_inv (part_msgs s)" using inv by (simp add: pl_inv_def)
  obtain recs xs where t: "rtm_on_timer ord (clock e) (part_msgs s) = Some (recs, xs)" "rtm_inv recs"
    "rtm_store recs = (\<lambda>k. case rtm_store (part_msgs s) k of
           Some (v, s, d) \<Rightarrow> if d \<le> clock e then None else Some (v, s, d) | None \<Rightarrow> None)"
    "distinct (map fst xs)"
    "\<And>k v t. (k, v, t) \<in> set xs \<longleftrightarrow> (\<exists>d. rtm_store (part_msgs s) k = Some (v, t, d) \<and> d \<le> clock e)"
    by (rule rtm_on_timer_spec[OF rt ord, where now = "clock e"]) blast
  let ?s = "s\<lparr>part_msgs := recs\<rparr>"
  have live: "\<exists>c. conn_heap (conns s) p = Some c \<and> the_guid c = fst r" if "rtm_store (part_msgs s) p = Some r" for p r
    using inv that unfolding pl_inv_def by blast
  have "rtm_store (part_msgs s) p = Some r" if "rtm_store recs p = Some r" for p r
    using that by (auto simp: t(3) split: option.splits if_splits)
  with inv t(2) live have inv': "pl_inv ?s" unfolding pl_inv_def by simp
  have g: "\<exists>c. conn_heap (conns ?s) k = Some c \<and> the_guid c = v" if "(k, v, secs) \<in> set xs" for k v secs
    using that live unfolding t(5) by fastforce
  have ps: "set (map fst xs) = {p. \<exists>v t dl. rtm_store (part_msgs s) p = Some (v, t, dl) \<and> dl \<le> clock e}"
    using t(5) by force
  have "set (map fst xs) \<subseteq> dom (conn_heap (conns ?s))" using g by fastforce
  note cl = close_ptrs[OF quiet inv' t(4) this]
  have "fold (\<lambda>(k, v, secs) s. snd (close_client e v s)) xs ?s = fold (sink_client_closed e) (map fst xs) ?s"
    by (rule close_guids[OF quiet inv' t(4)]) (rule g)
  then have "part_msg_check e ord s = Some (fold (sink_client_closed e) (map fst xs) ?s)"
    by (simp add: part_msg_check_def t(1))
  from that[OF this pl_keeps_heap[OF conjunct1[OF cl]]] conjunct2[OF cl] show ?thesis by (simp only: ps) simp
qed

lemma pl_idle_check_inv:
  assumes inv: "pl_inv s" and ord: "hash_order ord" and quiet: "quiet e"
  obtains s' where "pl_idle_check e ord s = Some s'" "pl_inv s'"
proof -
  have cc: "cc_inv (conns s)" by (rule pl_inv_cc[OF inv])
  then have rt: "rtm_inv (conn_records (conns s))" by (simp add: cc_inv_def)
  obtain recs xs where t: "rtm_on_timer ord (clock e) (conn_records (conns s)) = Some (recs, xs)" "distinct (map fst xs)"
    "\<And>k v t. (k, v, t) \<in> set xs \<longleftrightarrow> (\<exists>d. rtm_store (conn_records (conns s)) k = Some (v, t, d) \<and> d \<le> clock e)"
    by (rule rtm_on_timer_spec[OF rt ord, where now = "clock e"]) blast
  let ?s = "set_center ((conns s)\<lparr>conn_records := recs\<rparr>) s"
  have inv': "pl_inv ?s" using cc_inv_expire[OF cc ord t(1)] by (intro pl_inv_center[OF inv]) auto
  have live: "\<exists>c. conn_heap (conns s) p = Some c \<and> c_id c = k" if "(k, p, secs) \<in> set xs" for k p secs
  proof -
    from that cc have "conn_id_hash_map (conns s) k = Some p" by (fastforce simp: t(3) cc_inv_def)
    then show ?thesis by (blast elim: links_idD[OF pl_inv_links[OF inv]])
  qed
  have d: "distinct (map (\<lambda>x. fst (snd x)) xs)"
  proof (rule distinct_map[THEN iffD2], intro conjI inj_onI)
    show "distinct xs" using t(2) by (simp add: distinct_map)
    fix x y assume "x \<in> set xs" "y \<in> set xs" "fst (snd x) = fst (snd y)"
    with live[of "fst x" "fst (snd x)" "snd (snd x)"] live[of "fst y" "fst (snd y)" "snd (snd y)"]
    have "fst x = fst y" by (metis option.inject prod.collapse)
    with t(2) \<open>x \<in> set xs\<close> \<open>y \<in> set xs\<close> show "x = y" by (auto simp: distinct_map dest: inj_onD)
  qed
  have sub: "set (map (\<lambda>x. fst (snd x)) xs) \<subseteq> dom (conn_heap (conns ?s))" using live by fastforce
  have "fold (\<lambda>(k, p, secs) s. sink_client_closed e p s) xs ?s = fold (sink_client_closed e) (map (\<lambda>x. fst (snd x)) xs) ?s"
  proof -
    have "(\<lambda>(k, p, secs) s. sink_client_closed e p s) = sink_client_closed e \<circ> (\<lambda>x :: int \<times> ptr \<times> int. fst (snd x))"
      by (auto simp: fun_eq_iff)
    then show ?thesis by (simp add: fold_map)
  qed
  then have "pl_idle_check e ord s = Some (fold (sink_client_closed e) (map (\<lambda>x. fst (snd x)) xs) ?s)"
    by (simp add: pl_idle_check_def t(1))
  from that[OF this pl_keeps_inv[OF conjunct1[OF close_ptrs[OF quiet inv' d sub]]]] show ?thesis .
qed

lemma on_task_inv: "pl_inv s \<Longrightarrow> quiet e \<Longrightarrow> 12 \<le> length data \<Longrightarrow> pl_inv (on_task e guid data s)"
  using app_rel_inv[OF app_steps_rel] decode_12[of data "codec_ctx s"]
  by (auto simp: on_task_def dispatch_msg_def split: decode_result.splits option.splits)

lemma pl_accept_inv:
  assumes inv: "pl_inv s" and e: "quiet e" "welcoming e" and p: "conn_heap (conns s) p = None" "p \<noteq> 0" and fd: "conn_hash_map (conns s) fd = None"
  obtains s' where "pl_accept e p io ip port fd s = Some (Inr s')" "pl_inv s'"
proof -
  note cc = pl_inv_cc[OF inv]
  have occ: "on_client_connected p (ev e) (clock e) io (self_idx s) ip port fd (sink s) =
      (case create_conn p (ev e) (clock e) io (self_idx s) ip port fd (conns s) of
         None \<Rightarrow> None
       | Some (Inl er) \<Rightarrow> Some (Inl er)
       | Some (Inr (q, cc)) \<Rightarrow>
           if q = 0 then Some (Inr (RC_ERR, (sink s)\<lparr>center := cc\<rparr>))
           else
             (let online = online_tcp_conn_count (sink s) + 1;
                  guid = the_guid (the (conn_heap cc q)) in
              Some (Inr (RC_OK,
                (sink s)\<lparr>center := cc, online_tcp_conn_count := online,
                   max_online_tcp_conn_count := max online (max_online_tcp_conn_count (sink s)),
                   notices := Connected guid # notices (sink s)\<rparr>))))"
    using fd by (simp add: on_client_connected_def destroy_stale_def get_conn_by_sock_fd_def)
  from inv have "sink_inv (sink s)" by (simp add: pl_inv_def)
  then obtain q ccn where cr: "create_conn p (ev e) (clock e) io (self_idx s) ip port fd (conns s) = Some (Inr (q, ccn))"
    and sk: "sink_inv ((sink s)\<lparr>center := ccn, online_tcp_conn_count := online_tcp_conn_count (sink s) + (if q = 0 then 0 else 1)\<rparr>)"
    by (rule sink_inv_create[OF _ p fd])
  have heap: "q = 0 \<and> conn_heap ccn = conn_heap (conns s) \<or>
      q = p \<and> (\<exists>c. conn_heap ccn = (conn_heap (conns s))(p \<mapsto> c) \<and> io_thread_idx (the_guid c) = self_idx s)"
    by (rule create_conn_cases[OF cc p fd, of "ev e" "clock e" io "self_idx s" ip port]) (use cr in auto)
  have norec: "rtm_store (part_msgs s) p = None"
    using inv p(1) unfolding pl_inv_def by (metis not_None_eq option.distinct(1))
  have rest: "pl_inv (s\<lparr>sink := sk'\<rparr>)"
    if "sink_inv sk'" "center sk' = ccn" for sk'
    using inv heap that p norec unfolding pl_inv_def
    by (auto split: if_splits)
  show ?thesis
  proof (cases "q = 0")
    case True
    with sk have "sink_inv ((sink s)\<lparr>center := ccn\<rparr>)" by (simp add: sink_inv_def)
    from rest[OF this] True occ cr show ?thesis by (intro that) (simp_all add: pl_accept_def)
  next
    case False
    let ?sk = "(sink s)\<lparr>center := ccn, online_tcp_conn_count := online_tcp_conn_count (sink s) + 1,
       max_online_tcp_conn_count := max (online_tcp_conn_count (sink s) + 1) (max_online_tcp_conn_count (sink s)),
       notices := Connected (the_guid (the (conn_heap ccn q))) # notices (sink s)\<rparr>"
    from sk False have "sink_inv ?sk" by (simp add: sink_inv_def)
    from rest[OF this] have i: "pl_inv (s\<lparr>sink := ?sk\<rparr>)" by simp
    from heap False obtain c where c: "conn_heap (conns (s\<lparr>sink := ?sk\<rparr>)) q = Some c" by auto
    let ?t = "set_data q [] (s\<lparr>sink := ?sk\<rparr>)"
    have eq: "pl_accept e p io ip port fd s = Some (Inr (tell_logics (app_step e) q (when_connected e (the_guid c)) ?t))"
      using occ cr False get_conn_by_id_live[OF i c] c
      by (simp add: pl_accept_def pl_on_client_connected_def Let_def)
    have t: "conn_heap (conns ?t) q = Some (c\<lparr>recv_data := []\<rparr>)" using set_data_inv(2)[OF i c] by simp
    have "app_rel ?t (tell_logics (app_step e) q (when_connected e (the_guid c)) ?t)"
      using e(2) by (intro tell_spare[OF e(1) set_data_inv(1)[OF i c] t]) (simp add: welcoming_def)
    from that[OF eq app_rel_inv[OF this]] show ?thesis .
  qed
qed

subsection \<open>Reachable states\<close>

text \<open>
  What can happen to the logic of one thread: a connection is accepted on a descriptor that is not
  in use, data arrive on a live connection, a task with a message arrives from another thread, a
  connection is closed, and the two timers. Handlers may ask for anything; logics that are told of a lost
  connection may send, and close connections of other threads (\<open>quiet\<close>), and those that are told of a new connection
  may do anything but close it (\<open>welcoming\<close>).
\<close>

inductive pl_step :: "proto_logic \<Rightarrow> proto_logic \<Rightarrow> bool" where
  step_accept: "quiet e \<Longrightarrow> welcoming e \<Longrightarrow> conn_heap (conns s) p = None \<Longrightarrow> p \<noteq> 0 \<Longrightarrow> conn_hash_map (conns s) fd = None \<Longrightarrow>
     pl_accept e p io ip port fd s = Some (Inr s') \<Longrightarrow> pl_step s s'"
| step_recv: "readable e \<Longrightarrow> quiet e \<Longrightarrow> conn_heap (conns s) p = Some c \<Longrightarrow>
     pl_step s (on_recv_client_data e (the_guid c) data s)"
| step_task: "quiet e \<Longrightarrow> 12 \<le> length data \<Longrightarrow> pl_step s (on_task e guid data s)"
| step_close: "quiet e \<Longrightarrow> pl_step s (snd (close_client e guid s))"
| step_part: "quiet e \<Longrightarrow> hash_order ord \<Longrightarrow> part_msg_check e ord s = Some s' \<Longrightarrow> pl_step s s'"
| step_idle: "quiet e \<Longrightarrow> hash_order ord2 \<Longrightarrow> pl_idle_check e ord2 s = Some s' \<Longrightarrow> pl_step s s'"

definition pl_init :: "conn_center \<Rightarrow> int \<Rightarrow> int \<Rightarrow> msg_codec_ctx \<Rightarrow> msg_dispatcher \<Rightarrow> int \<Rightarrow> int option \<Rightarrow> int \<Rightarrow> proto_logic" where
  "pl_init cc limit idx ctx d life workers i =
     \<lparr>sink = \<lparr>center = cc, online_tcp_conn_count = 0, max_online_tcp_conn_count = 0,
        tcp_conn_count_limit = limit, stopping = False, notices = []\<rparr>,
      self_idx = idx, codec_ctx = ctx, codec_static = None, dispatcher = d, part_msgs = rtm_init,
      part_msg_life = life, work_thread_count = workers, last_work_thread_idx = i,
      events = [], fault = None\<rparr>"

lemma pl_inv_init: "pl_inv (pl_init (cc_init bev clife interval threshold) limit idx ctx d life workers i)"
proof -
  define cc where "cc = cc_init bev clife interval threshold"
  have "conn_heap cc = Map.empty" "conn_id_hash_map cc = Map.empty" by (simp_all add: cc_def cc_init_def)
  moreover have "cc_inv cc" unfolding cc_def by (rule cc_inv_init)
  ultimately have "pl_inv (pl_init cc limit idx ctx d life workers i)"
    by (simp add: pl_inv_def pl_init_def sink_inv_def rtm_inv_init)
  then show ?thesis by (simp only: cc_def)
qed

lemma pl_step_inv: "pl_step s s' \<Longrightarrow> pl_inv s \<Longrightarrow> pl_inv s'"
proof (induction rule: pl_step.induct)
  case (step_accept e s p fd io ip port s')
  from step_accept.prems step_accept.hyps(1-5) show ?case
    by (rule pl_accept_inv[where io = io and ip = ip and port = port]) (use step_accept.hyps(6) in simp)
next
  case (step_recv e s p c data)
  then show ?case by (intro on_recv_client_data_inv)
next
  case (step_part e ord s s')
  from step_part.prems step_part.hyps(2,1) show ?case
    by (rule part_msg_check_spec) (use step_part.hyps(3) in \<open>simp add: pl_keeps_def\<close>)
next
  case (step_idle e ord2 s s')
  from step_idle.prems step_idle.hyps(2,1) show ?case
    by (rule pl_idle_check_inv) (use step_idle.hyps(3) in simp)
qed (auto intro: on_task_inv app_rel_inv[OF close_client_rel(1)])

lemma pl_inv_facts:
  assumes inv: "pl_inv s"
  shows "fault s = None \<and>
    online_tcp_conn_count (sink s) = int (card (dom (conn_id_hash_map (conns s)))) \<and>
    (\<forall>p c. conn_heap (conns s) p = Some c \<longrightarrow>
       get_conn_by_id (conns s) (c_id c) = p \<and> io_thread_idx (the_guid c) = self_idx s) \<and>
    (\<forall>p guid secs. get_record (part_msgs s) p = Some (guid, secs) \<longrightarrow>
       (\<exists>c. conn_heap (conns s) p = Some c \<and> the_guid c = guid))"
proof -
  have "\<exists>c. conn_heap (conns s) p = Some c \<and> the_guid c = guid" if "get_record (part_msgs s) p = Some (guid, secs)"
    for p guid secs
    using that inv unfolding get_record_store pl_inv_def by fastforce
  moreover have "fault s = None" "online_tcp_conn_count (sink s) = int (card (dom (conn_id_hash_map (conns s))))"
    using inv by (simp_all add: pl_inv_def sink_inv_def)
  moreover have "io_thread_idx (the_guid c) = self_idx s" if "conn_heap (conns s) p = Some c" for p c
    using inv that unfolding pl_inv_def by blast
  ultimately show ?thesis using get_conn_by_id_live(1)[OF inv] by blast
qed

subsection \<open>A stream of messages\<close>

text \<open>
  Frames back to back. \<open>cut_rest lens n\<close> is how many bytes of the current frame a cut after \<open>n\<close>
  bytes leaves at its left, for frames of the lengths \<open>lens\<close>.
\<close>

fun cut_rest :: "nat list \<Rightarrow> nat \<Rightarrow> nat" where
  "cut_rest [] n = n"
| "cut_rest (l # ls) n = (if l \<le> n then cut_rest ls (n - l) else n)"

lemma cut_rest_append: "cut_rest (ls @ ms) (sum_list ls + n) = cut_rest ms n"
  by (induction ls) (auto simp: add.assoc)

lemma cut_stream:
  assumes "xs @ ys = concat (map f ms)"
  obtains ms1 ms2 part where "ms = ms1 @ ms2" "xs = concat (map f ms1) @ part"
    "length part = cut_rest (map (\<lambda>m. length (f m)) ms) (length xs)"
    "part \<noteq> [] \<longrightarrow> (\<exists>m ms3 q. ms2 = m # ms3 \<and> f m = part @ q \<and> q \<noteq> [])"
    "part @ ys = concat (map f ms2)"
  using assms
proof (induction ms arbitrary: xs thesis)
  case Nil
  then show ?case by (intro Nil(1)[of "[]" "[]" "[]"]) auto
next
  case (Cons m ms)
  show ?case
  proof (cases "length (f m) \<le> length xs")
    case True
    have "take (length (f m)) (xs @ ys) = f m" using Cons.prems(2) by simp
    with True have "xs = f m @ drop (length (f m)) xs" using append_take_drop_id[of "length (f m)" xs] by simp
    then obtain xs' where "xs = f m @ xs'" by blast
    with Cons.prems(2) have xs: "xs = f m @ xs'" "xs' @ ys = concat (map f ms)" by simp_all
    show ?thesis
    proof (rule Cons.IH[OF _ xs(2)])
      fix ms1 ms2 part
      assume "ms = ms1 @ ms2" "xs' = concat (map f ms1) @ part"
        "length part = cut_rest (map (\<lambda>m. length (f m)) ms) (length xs')"
        "part \<noteq> [] \<longrightarrow> (\<exists>m ms3 q. ms2 = m # ms3 \<and> f m = part @ q \<and> q \<noteq> [])"
        "part @ ys = concat (map f ms2)"
      then show ?thesis using xs by (intro Cons.prems(1)[of "m # ms1" ms2 part]) auto
    qed
  next
    case False
    have "take (length xs) (f m @ concat (map f ms)) = xs" using arg_cong[OF Cons.prems(2), of "take (length xs)"] by simp
    with False have "f m = xs @ drop (length xs) (f m)" using append_take_drop_id[of "length xs" "f m"] by simp
    then obtain q where q: "f m = xs @ q" by blast
    with False have "q \<noteq> []" by auto
    with q have ex: "\<exists>m' ms3 q. m # ms = m' # ms3 \<and> f m' = xs @ q \<and> q \<noteq> []" by blast
    show ?thesis by (rule Cons.prems(1)[of "[]" "m # ms" xs]) (use False ex Cons.prems(2) in simp_all)
  qed
qed

type_synonym msg = "msg_head \<times> bytes"

definition frame :: "msg_codec_ctx \<Rightarrow> msg \<Rightarrow> bytes" where
  "frame ctx m = msg_frame ctx (fst m) (snd m)"

lemma frame_nonempty: "frame ctx m \<noteq> []"
  by (simp add: frame_def msg_frame_def be32_def)

text \<open>A message that fits the limit and has a handler, and its call.\<close>

definition deliverable :: "proto_logic \<Rightarrow> msg \<Rightarrow> bool" where
  "deliverable s m \<longleftrightarrow> sendable (codec_ctx s) (codec_static s) (snd m) \<and>
     msg_id (fst m) \<noteq> MSG_ID_HEARTBEAT_REQ \<and> dispatcher s (msg_id (fst m)) \<noteq> None"

definition call_of :: "proto_logic \<Rightarrow> conn_guid \<Rightarrow> msg \<Rightarrow> pl_event" where
  "call_of s guid m = Called (the (dispatcher s (msg_id (fst m)))) guid (fst m) (snd m)"

text \<open>
  Handlers that do not close the connection the message came from; nor do logics when they are told that another
  one was lost.
\<close>

definition tame :: "env \<Rightarrow> conn_guid \<Rightarrow> bool" where
  "tame e guid \<longleftrightarrow> quiet e \<and> (\<forall>h head body. spares guid (react e h guid head body))"

text \<open>What stays the same while messages are delivered.\<close>

definition same_setup :: "proto_logic \<Rightarrow> proto_logic \<Rightarrow> bool" where
  "same_setup s s' \<longleftrightarrow> codec_ctx s' = codec_ctx s \<and> dispatcher s' = dispatcher s \<and>
     max_total (codec_ctx s) (codec_static s') = max_total (codec_ctx s) (codec_static s)"

lemma same_setup_deliverable: "same_setup s s' \<Longrightarrow> deliverable s' m = deliverable s m"
  by (simp add: same_setup_def deliverable_def sendable_def)

lemma same_setup_call: "same_setup s s' \<Longrightarrow> call_of s' guid m = call_of s guid m"
  by (simp add: same_setup_def call_of_def)

lemma same_setup_trans: "same_setup s t \<Longrightarrow> same_setup t u \<Longrightarrow> same_setup s u"
  by (simp add: same_setup_def)

lemma map_le_None: "m \<subseteq>\<^sub>m m' \<Longrightarrow> m' k = None \<Longrightarrow> m k = None"
  by (metis domIff map_le_def)

lemma max_total_Some [simp]: "max_total ctx (Some n) = n"
  by (simp add: max_total_def)

text \<open>The handler is called and asks for what it wants; the connection stays.\<close>

lemma deliver_msg:
  assumes inv: "pl_inv s" and c: "conn_heap (conns s) p = Some c" and m: "deliverable s m"
    and t: "tame e (the_guid c)"
  defines "s' \<equiv> on_client_msg e (the_guid c) (fst m) (snd m) s"
  shows "pl_inv s' \<and> same_setup s s' \<and> calls s' = calls s @ [call_of s (the_guid c) m] \<and>
    (\<exists>c'. conn_heap (conns s') p = Some c' \<and> the_guid c' = the_guid c \<and> recv_data c' = recv_data c \<and>
       sock_fd c' = sock_fd c) \<and>
    rtm_store (part_msgs s') \<subseteq>\<^sub>m rtm_store (part_msgs s)"
proof -
  obtain h where h: "dispatcher s (msg_id (fst m)) = Some h" using m by (auto simp: deliverable_def)
  let ?s = "s\<lparr>events := events s @ [Called h (the_guid c) (fst m) (snd m)]\<rparr>"
  let ?ops = "react e h (the_guid c) (fst m) (snd m)"
  have s': "s' = fold (app_step e) ?ops ?s"
    using m h by (simp add: s'_def on_client_msg_def deliverable_def dispatch_msg_def)
  have inv': "pl_inv ?s" and c': "conn_heap (conns ?s) p = Some c" using inv c by simp_all
  have q: "quiet e" using t by (simp add: tame_def)
  note r = app_steps_rel[OF inv' q, of ?ops, folded s']
  have "conn_heap (conns s') p \<noteq> None"
    unfolding s' using t by (intro app_steps_spare[OF q inv' c']) (simp add: tame_def)
  then obtain c2 where "conn_heap (conns s') p = Some c2" "the_guid c2 = the_guid c" "recv_data c2 = recv_data c"
    "sock_fd c2 = sock_fd c" by (rule app_rel_connD[OF r c'])
  moreover have "calls ?s = calls s @ [call_of s (the_guid c) m]" by (simp add: calls_def call_of_def h)
  ultimately show ?thesis using r by (simp add: app_rel_def same_setup_def)
qed

text \<open>The loop on whole frames followed by an incomplete one.\<close>

definition incomplete :: "proto_logic \<Rightarrow> bytes \<Rightarrow> bool" where
  "incomplete s part \<longleftrightarrow> part = [] \<or>
     4 \<le> length part \<and> (\<exists>m q. frame (codec_ctx s) m = part @ q \<and> q \<noteq> [] \<and> deliverable s m)"

definition served :: "proto_logic \<Rightarrow> ptr \<Rightarrow> base_conn \<Rightarrow> bytes \<Rightarrow> msg list \<Rightarrow> proto_logic \<Rightarrow> bool" where
  "served s p c part ms s' \<longleftrightarrow> pl_inv s' \<and> same_setup s s' \<and>
     calls s' = calls s @ map (call_of s (the_guid c)) ms \<and>
     (\<exists>c'. conn_heap (conns s') p = Some c' \<and> the_guid c' = the_guid c \<and> recv_data c' = part \<and>
        sock_fd c' = sock_fd c) \<and>
     (record_exist (part_msgs s') p \<longleftrightarrow> part \<noteq> [])"

lemma recv_loop_part:
  assumes inv: "pl_inv s" and c: "conn_heap (conns s) p = Some c" "recv_data c = part"
    and part: "incomplete s part" "part \<noteq> []"
  shows "served s p c part [] (recv_loop e (the_guid c) p part s)"
proof -
  from part obtain m q where m: "frame (codec_ctx s) m = part @ q" "q \<noteq> []" "deliverable s m" "4 \<le> length part"
    by (auto simp: incomplete_def)
  have len: "length part < 16 + length (snd m)"
    using arg_cong[OF m(1), of length] m(2) by (simp add: frame_def)
  have rd: "rd32 (part @ 0 # behind e part) = Some (of_nat (12 + length (snd m)))"
    using rd32_append[OF m(4)] rd32_frame[of "codec_ctx s" "fst m" "snd m" "[]"] m(1)
    by (metis append_Nil2 frame_def)
  have w: "is_whole_msg (codec_ctx s) (codec_static s) (part @ 0 # behind e part) (length part) =
      (Some (max_total (codec_ctx s) (codec_static s)), Not_Whole (12 + length (snd m)))"
    using m(3) len
    by (simp add: is_whole_msg_alt[OF rd] deliverable_def sendable_def unat_of_nat32 del: of_nat_add)
  let ?s0 = "s\<lparr>codec_static := Some (max_total (codec_ctx s) (codec_static s))\<rparr>"
  have "pl_inv ?s0" "conn_heap (conns ?s0) p = Some c" using inv c by simp_all
  from pl_inv_record[OF this] w c part(2) show ?thesis
    by (simp add: recv_loop.simps[of e _ p part s] Let_def served_def same_setup_def calls_def
        record_exist_store rtm_store_upsert)
qed

lemma recv_loop_msgs:
  assumes "pl_inv s" "conn_heap (conns s) p = Some c" "recv_data c = d" "tame e (the_guid c)"
    and "d = concat (map (frame (codec_ctx s)) ms) @ part" "d \<noteq> []"
    and "\<forall>m \<in> set ms. deliverable s m" "incomplete s part"
  shows "served s p c part ms (recv_loop e (the_guid c) p d s)"
  using assms
proof (induction ms arbitrary: s c d)
  case Nil
  then show ?case using recv_loop_part[of s p c part e] by simp
next
  case (Cons m ms)
  note inv = Cons.prems(1) and c = Cons.prems(2)
  let ?g = "the_guid c" and ?n = "12 + length (snd m)"
  define rest where "rest = concat (map (frame (codec_ctx s)) ms) @ part"
  have d: "d = msg_frame (codec_ctx s) (fst m) (snd m) @ rest"
    using Cons.prems(5) by (simp add: rest_def frame_def[of _ m])
  have m: "deliverable s m" using Cons.prems(7) by simp
  have "is_whole_msg (codec_ctx s) (codec_static s)
      (msg_frame (codec_ctx s) (fst m) (snd m) @ rest @ 0 # behind e d) (length d) =
      (Some (max_total (codec_ctx s) (codec_static s)), Whole ?n)"
    using m is_whole_frame[of "codec_ctx s" "codec_static s" "snd m" "fst m" "rest @ 0 # behind e d" "length d"]
    by (simp add: deliverable_def d)
  then have w: "is_whole_msg (codec_ctx s) (codec_static s) (d @ 0 # behind e d) (length d) =
      (Some (max_total (codec_ctx s) (codec_static s)), Whole ?n)" by (simp add: d)
  have "drop 4 d = msg_rest (codec_ctx s) (fst m) (snd m) @ rest" by (simp add: d msg_frame_def)
  then have dec: "decode_msg (codec_ctx s) (drop 4 d) ?n = Decoded (fst m) (snd m)" by (simp add: decode_rest)
  let ?s1 = "s\<lparr>codec_static := Some (max_total (codec_ctx s) (codec_static s)), part_msgs := remove_record p (part_msgs s)\<rparr>"
  have inv1: "pl_inv ?s1" using pl_inv_unrecord[of "s\<lparr>codec_static := Some (max_total (codec_ctx s) (codec_static s))\<rparr>" p] inv by simp
  have c1: "conn_heap (conns ?s1) p = Some c" using c by simp
  have cfg1: "same_setup s ?s1" by (simp add: same_setup_def)
  define s2 where "s2 = on_client_msg e ?g (fst m) (snd m) ?s1"
  have m1: "deliverable ?s1 m" using m same_setup_deliverable[OF cfg1] by simp
  from deliver_msg[OF inv1 c1 m1 Cons.prems(4), folded s2_def]
  obtain c2 where s2: "pl_inv s2" "same_setup ?s1 s2" "calls s2 = calls ?s1 @ [call_of ?s1 ?g m]"
    "conn_heap (conns s2) p = Some c2" "the_guid c2 = ?g" "sock_fd c2 = sock_fd c"
    "rtm_store (part_msgs s2) \<subseteq>\<^sub>m rtm_store (part_msgs ?s1)" by blast
  have cfg: "same_setup s s2" by (rule same_setup_trans[OF cfg1 s2(2)])
  have calls: "calls s2 = calls s @ [call_of s ?g m]"
    using s2(3) same_setup_call[OF cfg1] by (simp add: calls_def)
  have norec: "rtm_store (part_msgs s2) p = None"
    using s2(7) by (rule map_le_None) (simp add: rtm_store_remove)
  have id: "get_conn_by_id (conns s2) (conn_id ?g) \<noteq> 0"
    using get_conn_by_id_live[OF s2(1,4)] s2(5) by simp
  have rest_eq: "drop (4 + ?n) d = rest" "length d - 4 - ?n = length rest" by (simp_all add: d)
  note eq = recv_loop_whole[OF w dec c, of ?g, folded s2_def, unfolded rest_eq]
  show ?case
  proof (cases "rest = []")
    case True
    then have "ms = []" "part = []" by (cases ms; simp add: rest_def frame_nonempty)+
    with True eq id set_data_inv[OF s2(1,4)] cfg calls norec s2(5,6) show ?thesis
      by (simp add: served_def same_setup_def record_exist_store)
  next
    case False
    let ?s3 = "set_data p rest s2"
    have s3: "pl_inv ?s3" "conn_heap (conns ?s3) p = Some (c2\<lparr>recv_data := rest\<rparr>)"
      using set_data_inv[OF s2(1,4)] by simp_all
    have cfg3: "same_setup s ?s3" using cfg by (simp add: same_setup_def)
    have del3: "\<forall>m \<in> set ms. deliverable ?s3 m"
      using Cons.prems(7) same_setup_deliverable[OF cfg3] by simp
    have ctx3: "codec_ctx s2 = codec_ctx s" using cfg by (simp add: same_setup_def)
    have part3: "incomplete ?s3 part"
      using Cons.prems(8) same_setup_deliverable[OF cfg3] by (simp add: incomplete_def ctx3)
    have "served ?s3 p (c2\<lparr>recv_data := rest\<rparr>) part ms
        (recv_loop e (the_guid (c2\<lparr>recv_data := rest\<rparr>)) p rest ?s3)"
      by (rule Cons.IH[OF s3]) (use Cons.prems(4) s2(5) False del3 part3 in \<open>simp_all add: rest_def ctx3\<close>)
    then have "served ?s3 p c part ms (recv_loop e ?g p rest ?s3)" using s2(5,6) by (simp add: served_def)
    with calls eq id False same_setup_trans[OF cfg3] same_setup_call[OF cfg3] show ?thesis
      by (auto simp: served_def)
  qed
qed

text \<open>Chunks as they arrive, each with its own surroundings.\<close>

definition recv_all :: "conn_guid \<Rightarrow> (env \<times> bytes) list \<Rightarrow> proto_logic \<Rightarrow> proto_logic" where
  "recv_all guid = fold (\<lambda>(e, data). on_recv_client_data e guid data)"

text \<open>
  No chunk ends inside a length field: between two chunks either nothing or at least the whole
  length field of the current message has arrived.
\<close>

fun clean_cuts :: "nat list \<Rightarrow> nat \<Rightarrow> bytes list \<Rightarrow> bool" where
  "clean_cuts lens n [] = True"
| "clean_cuts lens n (x # xs) =
     (x \<noteq> [] \<and> (let r = cut_rest lens (n + length x) in (r = 0 \<or> 4 \<le> r) \<and> clean_cuts lens (n + length x) xs))"

lemma clean_cuts_shift:
  "clean_cuts (ls @ ms) (sum_list ls + n) xs = clean_cuts ms n xs"
proof (induction xs arbitrary: n)
  case (Cons x xs)
  from Cons[of "n + length x"] show ?case by (simp add: cut_rest_append add.assoc)
qed simp

text \<open>One chunk of a stream of frames.\<close>

lemma recv_chunk:
  assumes inv: "pl_inv s" and c: "conn_heap (conns s) p = Some c"
    and t: "tame e (the_guid c)" and del: "\<forall>m \<in> set ms. deliverable s m"
    and stream: "recv_data c @ x @ later = concat (map (frame (codec_ctx s)) ms)"
    and cuts: "clean_cuts (map (\<lambda>m. length (frame (codec_ctx s) m)) ms) (length (recv_data c)) (x # ys)"
  obtains ms1 ms2 part where "ms = ms1 @ ms2" "served s p c part ms1 (on_recv_client_data e (the_guid c) x s)"
    "part @ later = concat (map (frame (codec_ctx s)) ms2)"
    "clean_cuts (map (\<lambda>m. length (frame (codec_ctx s) m)) ms2) (length part) ys"
    "later = [] \<longrightarrow> part = [] \<and> ms2 = []"
proof -
  let ?d = "recv_data c @ x" and ?f = "frame (codec_ctx s)"
  let ?lens = "map (\<lambda>m. length (?f m))"
  have "?d @ later = concat (map ?f ms)" using stream by simp
  then obtain ms1 ms2 part where cut: "ms = ms1 @ ms2" "?d = concat (map ?f ms1) @ part"
    "length part = cut_rest (?lens ms) (length ?d)"
    "part \<noteq> [] \<longrightarrow> (\<exists>m ms3 q. ms2 = m # ms3 \<and> ?f m = part @ q \<and> q \<noteq> [])"
    "part @ later = concat (map ?f ms2)" by (rule cut_stream)
  from cuts have x: "x \<noteq> []" "length part = 0 \<or> 4 \<le> length part" "clean_cuts (?lens ms) (length ?d) ys"
    by (auto simp: cut(3) Let_def)
  have inc: "incomplete s part" using x(2) cut(1,4) del by (fastforce simp: incomplete_def)
  let ?s0 = "set_data p ?d s"
  have s0: "pl_inv ?s0" "conn_heap (conns ?s0) p = Some (c\<lparr>recv_data := ?d\<rparr>)"
    using set_data_inv[OF inv c] by simp_all
  have cfg0: "same_setup s ?s0" by (simp add: same_setup_def)
  have "served ?s0 p (c\<lparr>recv_data := ?d\<rparr>) part ms1
      (recv_loop e (the_guid (c\<lparr>recv_data := ?d\<rparr>)) p ?d ?s0)"
  proof (rule recv_loop_msgs[OF s0])
    show "?d = concat (map (frame (codec_ctx ?s0)) ms1) @ part" using cut(2) by simp
    show "\<forall>m \<in> set ms1. deliverable ?s0 m" using del cut(1) same_setup_deliverable[OF cfg0] by simp
    show "incomplete ?s0 part" using inc same_setup_deliverable[OF cfg0] by (simp add: incomplete_def)
  qed (use x(1) t in simp_all)
  then have step: "served s p c part ms1 (on_recv_client_data e (the_guid c) x s)"
    using same_setup_trans[OF cfg0] same_setup_call[OF cfg0]
    by (auto simp: served_def on_recv_live[OF inv c])
  have "sum_list (?lens ms1) + length part = length ?d" using cut(2) by (simp add: length_concat comp_def)
  then have cl: "clean_cuts (?lens ms2) (length part) ys"
    using x(3) clean_cuts_shift[of "?lens ms1" "?lens ms2" "length part"] cut(1) by simp
  have "part = []" if "later = []"
  proof (rule ccontr)
    assume "part \<noteq> []"
    with cut(4) obtain m ms3 q where m: "ms2 = m # ms3" "?f m = part @ q" "q \<noteq> []" by blast
    from cut(5) that have "part = part @ q @ concat (map ?f ms3)" unfolding m(1) by (simp add: m(2))
    with m(3) show False by simp
  qed
  moreover have "ms2 = []" if "part = []" "later = []"
    using cut(5) that by (cases ms2) (simp_all add: frame_nonempty)
  ultimately show ?thesis using that[OF cut(1) step cut(5) cl] by blast
qed

lemma served_append:
  assumes "served s p c part ms1 s'" "conn_heap (conns s') p = Some c'" "served s' p c' part' ms2 s''"
  shows "served s p c part' (ms1 @ ms2) s''"
  using assms same_setup_trans[of s s' s''] same_setup_call[of s s'] by (auto simp: served_def)

lemma recv_all_msgs:
  assumes "pl_inv s" "conn_heap (conns s) p = Some c"
    and "\<forall>(e, x) \<in> set chunks. tame e (the_guid c)" "\<forall>m \<in> set ms. deliverable s m"
    and "recv_data c @ concat (map snd chunks) = concat (map (frame (codec_ctx s)) ms)"
    and "clean_cuts (map (\<lambda>m. length (frame (codec_ctx s) m)) ms) (length (recv_data c)) (map snd chunks)"
    and "chunks \<noteq> []"
  shows "served s p c [] ms (recv_all (the_guid c) chunks s)"
  using assms
proof (induction chunks arbitrary: s c ms)
  case (Cons ch chunks)
  note inv = Cons.prems(1) and c = Cons.prems(2)
  obtain e x where ch: "ch = (e, x)" by (cases ch)
  let ?s' = "on_recv_client_data e (the_guid c) x s"
  obtain ms1 ms2 part where cut: "ms = ms1 @ ms2" "served s p c part ms1 ?s'"
    "part @ concat (map snd chunks) = concat (map (frame (codec_ctx s)) ms2)"
    "clean_cuts (map (\<lambda>m. length (frame (codec_ctx s) m)) ms2) (length part) (map snd chunks)"
    "concat (map snd chunks) = [] \<longrightarrow> part = [] \<and> ms2 = []"
    by (rule recv_chunk[OF inv c, of e ms x "concat (map snd chunks)" "map snd chunks"])
      (use Cons.prems(3-6) in \<open>simp_all add: ch\<close>)
  from cut(2) obtain c' where s': "pl_inv ?s'" "same_setup s ?s'" "conn_heap (conns ?s') p = Some c'"
    "the_guid c' = the_guid c" "recv_data c' = part" unfolding served_def by blast
  show ?case
  proof (cases "chunks = []")
    case True
    with cut show ?thesis by (simp add: recv_all_def ch)
  next
    case False
    have ctx: "codec_ctx ?s' = codec_ctx s" using s'(2) by (simp add: same_setup_def)
    have "served ?s' p c' [] ms2 (recv_all (the_guid c') chunks ?s')"
      by (rule Cons.IH[OF s'(1,3)])
        (use Cons.prems(3,4) cut(1,3,4) same_setup_deliverable[OF s'(2)] s'(4,5) False in \<open>simp_all add: ctx\<close>)
    from served_append[OF cut(2) s'(3) this] s'(4) show ?thesis by (simp add: cut(1) recv_all_def ch)
  qed
qed simp

subsection \<open>A message with a wrong checksum\<close>

text \<open>The buffer starts with a whole message that does not decode.\<close>

definition stuck :: "msg_codec_ctx \<Rightarrow> nat option \<Rightarrow> bytes \<Rightarrow> bool" where
  "stuck ctx stat d \<longleftrightarrow> (\<exists>w err. rd32 d = Some w \<and> 12 \<le> unat w \<and> unat w \<le> max_total ctx stat \<and>
     4 + unat w \<le> length d \<and> (\<forall>x. decode_msg ctx (drop 4 d @ x) (unat w) = Decode_Error err))"

lemma stuck_append: "stuck ctx stat d \<Longrightarrow> stuck ctx stat (d @ x)"
  unfolding stuck_def by (fastforce simp: rd32_append)

lemma recv_stuck:
  fixes e :: env
  assumes inv: "pl_inv s" and c: "conn_heap (conns s) p = Some c"
    and st: "stuck (codec_ctx s) (codec_static s) (recv_data c @ x)"
  defines "s' \<equiv> on_recv_client_data e (the_guid c) x s"
  obtains c' where "pl_inv s'" "same_setup s s'" "calls s' = calls s" "conn_heap (conns s') p = Some c'"
    "the_guid c' = the_guid c" "recv_data c' = recv_data c @ x"
proof -
  let ?d = "recv_data c @ x"
  from st obtain w err where w: "rd32 ?d = Some w" "12 \<le> unat w" "unat w \<le> max_total (codec_ctx s) (codec_static s)"
    "4 + unat w \<le> length ?d" "\<And>y. decode_msg (codec_ctx s) (drop 4 ?d @ y) (unat w) = Decode_Error err"
    unfolding stuck_def by blast
  have rd: "rd32 (?d @ 0 # behind e ?d) = Some w" using w(1,4) rd32_append[of ?d] by simp
  let ?s1 = "set_data p ?d s"
  let ?s2 = "?s1\<lparr>codec_static := Some (max_total (codec_ctx s) (codec_static s)), part_msgs := remove_record p (part_msgs s)\<rparr>"
  have s1: "pl_inv ?s1" "conn_heap (conns ?s1) p = Some (c\<lparr>recv_data := ?d\<rparr>)"
    using set_data_inv[OF inv c] by simp_all
  have s2: "pl_inv ?s2" "conn_heap (conns ?s2) p = Some (c\<lparr>recv_data := ?d\<rparr>)"
    using pl_inv_unrecord[of "?s1\<lparr>codec_static := Some (max_total (codec_ctx s) (codec_static s))\<rparr>" p] s1 by simp_all
  have iw: "is_whole_msg (codec_ctx ?s1) (codec_static ?s1) (?d @ 0 # behind e ?d) (length ?d) =
      (Some (max_total (codec_ctx s) (codec_static s)), Whole (unat w))"
    using w(2-4) by (simp only: is_whole_msg_alt[OF rd] set_data_simps) simp
  have s': "s' = snd (send_to_client e (the_guid c) (msg_head_reset\<lparr>msg_id := err\<rparr>) None 0 ?s2)"
    unfolding s'_def on_recv_live[OF inv c] recv_loop.simps[of e _ p ?d] iw
    using w(5)[of "[]"] by (simp add: Let_def)
  note r = send_to_client_rel[OF s2(1), of e "the_guid c" "msg_head_reset\<lparr>msg_id := err\<rparr>" None 0, folded s']
  have "conn_heap (conns s') p \<noteq> None" using r s2(2) by (metis domIff option.distinct(1))
  then obtain c' where "conn_heap (conns s') p = Some c'" "the_guid c' = the_guid c" "recv_data c' = ?d"
    using app_rel_connD[OF conjunct1[OF r] s2(2)] by auto
  with r show ?thesis by (intro that) (simp_all add: app_rel_def same_setup_def calls_def)
qed

lemma recv_all_stuck:
  assumes "pl_inv s" "conn_heap (conns s) p = Some c" "chunks \<noteq> []"
    and "stuck (codec_ctx s) (codec_static s) (recv_data c @ snd (hd chunks))"
  shows "calls (recv_all (the_guid c) chunks s) = calls s \<and>
    (\<exists>c'. conn_heap (conns (recv_all (the_guid c) chunks s)) p = Some c' \<and>
       recv_data c' = recv_data c @ concat (map snd chunks))"
  using assms
proof (induction chunks arbitrary: s c)
  case (Cons ch chunks)
  obtain e x where ch: "ch = (e, x)" by (cases ch)
  have st: "stuck (codec_ctx s) (codec_static s) (recv_data c @ x)" using Cons.prems(4) by (simp add: ch)
  let ?s' = "on_recv_client_data e (the_guid c) x s"
  obtain c' where s': "pl_inv ?s'" "same_setup s ?s'" "calls ?s' = calls s" "conn_heap (conns ?s') p = Some c'"
    "the_guid c' = the_guid c" "recv_data c' = recv_data c @ x"
    by (rule recv_stuck[OF Cons.prems(1,2) st])
  have "codec_ctx ?s' = codec_ctx s"
    "max_total (codec_ctx s) (codec_static ?s') = max_total (codec_ctx s) (codec_static s)"
    using s'(2) by (simp_all add: same_setup_def)
  then have "stuck (codec_ctx ?s') (codec_static ?s') (recv_data c' @ y)" for y
    using stuck_append[OF st, of y] s'(6) by (simp add: stuck_def)
  with Cons.IH[OF s'(1,4)] s'(3-6) show ?case
    by (cases "chunks = []") (simp_all add: recv_all_def ch)
qed simp

subsection \<open>Properties\<close>

text \<open>
  Claim C1: a stream of encoded messages is delivered exactly. However the bytes of the
  messages are cut into chunks, as long as no chunk ends inside a length field, the handlers are
  called once for every message, in the order of the stream, with the head and body that were
  encoded; at the end nothing is left in the buffer and the connection is not watched as
  incomplete. Handlers may send anything and close any other connection; logics that are told of such a close may send
  anything and close connections of other threads.
\<close>

theorem stream_reassembly:
  fixes ms :: "msg list"
  assumes "pl_inv s" "conn_heap (conns s) p = Some c" "recv_data c = []"
    and "\<forall>(e, x) \<in> set chunks. tame e (the_guid c)" "\<forall>m \<in> set ms. deliverable s m"
    and "concat (map snd chunks) = concat (map (\<lambda>(head, body).
           encode_new (codec_ctx s) (replicate (17 + length body) 0) head (Some body) (length body)) ms)"
    and "clean_cuts (map (\<lambda>m. 16 + length (snd m)) ms) 0 (map snd chunks)"
    and "chunks \<noteq> []"
  defines "s' \<equiv> fold (\<lambda>(e, data). on_recv_client_data e (the_guid c) data) chunks s"
  shows "pl_inv s' \<and>
    calls s' = calls s @ map (\<lambda>(head, body). Called (the (dispatcher s (msg_id head))) (the_guid c) head body) ms \<and>
    (\<exists>c'. conn_heap (conns s') p = Some c' \<and> the_guid c' = the_guid c \<and> recv_data c' = []) \<and>
    \<not> record_exist (part_msgs s') p"
proof -
  have f: "(\<lambda>(head, body). encode_new (codec_ctx s) (replicate (17 + length body) 0) head (Some body) (length body)) =
      frame (codec_ctx s)"
    by (auto simp: fun_eq_iff frame_def encode_new_Some)
  have l: "(\<lambda>m. length (frame (codec_ctx s) m)) = (\<lambda>m. 16 + length (snd m))"
    by (auto simp: fun_eq_iff frame_def)
  have g: "call_of s (the_guid c) =
      (\<lambda>(head, body). Called (the (dispatcher s (msg_id head))) (the_guid c) head body)"
    by (auto simp: fun_eq_iff call_of_def)
  have "served s p c [] ms (recv_all (the_guid c) chunks s)"
    by (rule recv_all_msgs[OF assms(1,2,4,5)]) (use assms(3,6-8) f l in simp_all)
  then show ?thesis by (auto simp: served_def recv_all_def s'_def g)
qed

text \<open>A thread with two connections and a handler for message 5 that answers with message 6.\<close>

definition test_pl :: proto_logic where
  "test_pl = \<lparr>sink = two_conns False, self_idx = 0,
     codec_ctx = \<lparr>max_msg_body_len = 64, do_checksum = True\<rparr>, codec_static = None,
     dispatcher = [5 \<mapsto> 9], part_msgs = rtm_init, part_msg_life = 30, work_thread_count = None,
     last_work_thread_idx = 0, events = [], fault = None\<rparr>"

definition test_env :: env where
  "test_env = \<lparr>ev = test_ev, clock = 60, behind = (\<lambda>d. [0, 0, 0]), heap_bytes = (\<lambda>n. replicate n 0),
     react = (\<lambda>h guid head body. [App_Send guid (head\<lparr>msg_id := 6\<rparr>) body]),
     when_connected = (\<lambda>guid. [[App_Send guid \<lparr>passback = 0, msg_id = 8\<rparr> []]]),
     when_closed = (\<lambda>guid. [[], [App_Send guid \<lparr>passback = 0, msg_id = 9\<rparr> []]]), close_levels = 1\<rparr>"

definition test_guid :: conn_guid where
  "test_guid = \<lparr>io_type = IO_TYPE_TCP, io_thread_idx = 0, conn_id = 1\<rparr>"

lemma test_pl_conn: "conn_heap (conns test_pl) 100 = Some (new_conn (cc_init False 10 5 3) 50 IO_TYPE_TCP 0 ''c'' 9 7 1)"
  by (simp add: test_pl_def two_conns_def Let_def)

lemma test_pl_guid: "the_guid (new_conn (cc_init False 10 5 3) 50 IO_TYPE_TCP 0 ''c'' 9 7 1) = test_guid"
  by (simp add: new_conn_def base_conn_init_def test_guid_def)

lemma test_pl_inv: "pl_inv test_pl"
proof -
  have "sink_inv (two_conns False)" using sink_reach_limited[OF two_conns_reach] by (simp add: limited_def)
  moreover have "io_thread_idx (the_guid c) = 0" if "conn_heap (center (two_conns False)) p = Some c" for p c
    using that by (auto simp: two_conns_def Let_def split: if_splits)
  ultimately show ?thesis by (simp add: pl_inv_def test_pl_def rtm_inv_init)
qed

lemma test_quiet: "quiet test_env" "welcoming test_env"
  by (simp_all add: quiet_def welcoming_def test_env_def abroad_def spares_def)

lemma test_tame: "tame test_env guid"
  using test_quiet(1) by (simp add: tame_def test_env_def spares_def)

theorem stream_reassembly_witness:
  "let f = (\<lambda>(head, body). encode_new \<lparr>max_msg_body_len = 64, do_checksum = True\<rparr>
             (replicate (17 + length body) 0) head (Some body) (length body));
       m1 = (\<lparr>passback = 1, msg_id = 5\<rparr>, [7]); m2 = (\<lparr>passback = 2, msg_id = 5\<rparr>, [])
   in calls (fold (\<lambda>(e, data). on_recv_client_data e test_guid data)
        [(test_env, take 6 (f m1)), (test_env, drop 6 (f m1) @ f m2)] test_pl) =
      [Called 9 test_guid \<lparr>passback = 1, msg_id = 5\<rparr> [7], Called 9 test_guid \<lparr>passback = 2, msg_id = 5\<rparr> []]"
proof -
  let ?ctx = "\<lparr>max_msg_body_len = 64, do_checksum = True\<rparr>"
  let ?f = "(\<lambda>(head, body). encode_new ?ctx (replicate (17 + length body) 0) head (Some body) (length body))"
  let ?m1 = "(\<lparr>passback = 1, msg_id = 5\<rparr>, [7]) :: msg"
  let ?m2 = "(\<lparr>passback = 2, msg_id = 5\<rparr>, []) :: msg"
  let ?c = "new_conn (cc_init False 10 5 3) 50 IO_TYPE_TCP 0 ''c'' 9 7 1"
  let ?ch = "[(test_env, take 6 (?f ?m1)), (test_env, drop 6 (?f ?m1) @ ?f ?m2)]"
  have len: "length (?f ?m1) = 17" "length (?f ?m2) = 16" by (simp_all add: encode_new_Some)
  have 1: "concat (map snd ?ch) = concat (map ?f [?m1, ?m2])" by simp
  have 2: "clean_cuts (map (\<lambda>m. 16 + length (snd m)) [?m1, ?m2]) 0 (map snd ?ch)"
    using len by (auto simp: Let_def)
  have 3: "\<forall>m \<in> set [?m1, ?m2]. deliverable test_pl m"
    by (simp add: deliverable_def test_pl_def sendable_def max_total_def)
  have ctx: "codec_ctx test_pl = ?ctx" "dispatcher test_pl = [5 \<mapsto> 9]" "calls test_pl = []"
    by (simp_all add: test_pl_def calls_def)
  from stream_reassembly[OF test_pl_inv test_pl_conn, of ?ch "[?m1, ?m2]", unfolded ctx test_pl_guid, OF _ _ _ 1 2] 3
  show ?thesis by (simp add: test_tame)
qed

text \<open>
  A chunk that ends inside the length field of a short message kills the connection.
  IsWholeMsg reads four bytes although only three have arrived; the fourth is the terminator of
  the string, the length it sees is 0, the connection is closed and the message, although
  correctly encoded, is never delivered.
\<close>

theorem short_read_closes:
  fixes e :: env and head :: msg_head
  assumes "pl_inv s" "conn_heap (conns s) p = Some c" "recv_data c = []" "12 + length body < 256" "quiet e"
  defines "s' \<equiv> on_recv_client_data e (the_guid c) (take 3 (msg_frame (codec_ctx s) head body)) s"
  shows "conn_heap (conns s') p = None \<and> get_conn_by_id (conns s') (c_id c) = 0 \<and> calls s' = calls s \<and>
    on_recv_client_data e' (the_guid c) rest s' = s'"
proof -
  let ?w = "of_nat (12 + length body) :: u32"
  have w: "unat ?w = 12 + length body"
    using assms(4) by (simp add: unat_of_nat32 del: of_nat_add)
  have "drop_bit k ?w = 0" if "8 \<le> k" for k
  proof -
    have "unat (drop_bit k ?w) = drop_bit k (unat ?w)" 
      using assms(4) by (simp only: unsigned_drop_bit_eq w) (simp add: take_bit_nat_eq_self)
    also have "\<dots> = 0"
      using assms(4) that power_increasing[of 8 k "2 :: nat"] unfolding w by (simp add: drop_bit_eq_div)
    finally show ?thesis by (simp only: unsigned_eq_0_iff)
  qed
  then have t3: "take 3 (msg_frame (codec_ctx s) head body) = [0, 0, 0]"
    by (simp add: msg_frame_def be32_def numeral_3_eq_3 del: of_nat_add)
  let ?s1 = "set_data p [0, 0, 0] s"
  have s1: "pl_inv ?s1" "conn_heap (conns ?s1) p = Some (c\<lparr>recv_data := [0, 0, 0]\<rparr>)"
    using set_data_inv[OF assms(1,2)] by simp_all
  let ?s2 = "?s1\<lparr>codec_static := Some (max_total (codec_ctx s) (codec_static s))\<rparr>"
  let ?s3 = "set_data p [] ?s2"
  let ?r = "send_to_client e (the_guid c) (msg_head_reset\<lparr>msg_id := MSG_ID_INVALID_MSG_LEN\<rparr>) None 0 ?s3"
  have s3: "pl_inv ?s3" "conn_heap (conns ?s3) p = Some (c\<lparr>recv_data := []\<rparr>)"
    using set_data_inv[of ?s2 p "c\<lparr>recv_data := [0, 0, 0]\<rparr>"] s1 by simp_all
  note r = send_to_client_rel[OF s3(1), of e "the_guid c" "msg_head_reset\<lparr>msg_id := MSG_ID_INVALID_MSG_LEN\<rparr>" None 0]
  have "conn_heap (conns (snd ?r)) p \<noteq> None" using r s3(2) by (metis domIff option.distinct(1))
  then obtain c4 where c4: "conn_heap (conns (snd ?r)) p = Some c4" "the_guid c4 = the_guid c"
    using app_rel_connD[OF conjunct1[OF r] s3(2)] by auto
  note inv4 = app_rel_inv[OF conjunct1[OF r]]
  have own: "io_thread_idx (the_guid c) = self_idx (snd ?r)"
    using inv4 c4 unfolding pl_inv_def by metis
  have s': "s' = sink_client_closed e p (snd ?r)"
    unfolding s'_def on_recv_live[OF assms(1,2)] t3 assms(3)
    using close_client_rel(2)[OF inv4 assms(5) own c4(1)] c4(2)
    by (simp add: recv_loop.simps is_whole_msg_alt[of _ 0] of_be32_def Let_def)
  note cl = sink_client_closed_rel[OF inv4 c4(1) assms(5), folded s']
  have "calls s' = calls s" using r cl(1) by (simp add: app_rel_def calls_def)
  moreover have gone: "get_conn_by_id (conns s') (c_id c) = 0" using cl(3) c4(2) by simp
  moreover have "conn_heap (conns s') p = None" using cl(2) by auto
  ultimately show ?thesis by (simp add: on_recv_client_data_def)
qed

theorem short_read_closes_witness:
  "let s' = on_recv_client_data test_env test_guid
        (take 3 (msg_frame (codec_ctx test_pl) \<lparr>passback = 1, msg_id = 5\<rparr> [7])) test_pl
   in conn_heap (conns s') 100 = None \<and> calls s' = calls test_pl"
  using short_read_closes[OF test_pl_inv test_pl_conn, unfolded test_pl_guid, of "[7]" test_env
      "\<lparr>passback = 1, msg_id = 5\<rparr>" test_env "[]"] test_quiet(1)
  by (simp add: Let_def)

text \<open>
  A message with one wrong byte blocks its connection for good. The failed DecodeMsg
  leaves the message in the buffer: every later chunk finds it there again, so no handler is
  ever called for this connection any more, valid messages included, the buffer grows with
  everything that arrives, and the connection stays open.
\<close>

theorem bad_checksum_blocks:
  fixes e :: env and more :: bytes and chunks :: "(env \<times> bytes) list"
  assumes "pl_inv s" "conn_heap (conns s) p = Some c" "recv_data c = []"
    and "do_checksum (codec_ctx s)" "sendable (codec_ctx s) (codec_static s) body"
    and "msg_payload head body = xs @ b # ys" "b' \<noteq> b"
  defines "bad \<equiv> be32 (of_nat (12 + length body)) @ be32 (msg_checksum (codec_ctx s) head body) @ xs @ b' # ys"
  defines "s' \<equiv> fold (\<lambda>(e, data). on_recv_client_data e (the_guid c) data) ((e, bad @ more) # chunks) s"
  shows "calls s' = calls s \<and>
    (\<exists>c'. conn_heap (conns s') p = Some c' \<and> recv_data c' = bad @ more @ concat (map snd chunks))"
proof -
  let ?w = "of_nat (12 + length body) :: u32"
  have w: "unat ?w = 12 + length body"
    using assms(5) by (simp add: sendable_def unat_of_nat32 del: of_nat_add)
  have len: "length xs + Suc (length ys) = 8 + length body"
    using arg_cong[OF assms(6), of length] by simp
  have rd: "rd32 (bad @ more) = Some ?w" by (simp add: bad_def del: of_nat_add)
  have dec: "decode_msg (codec_ctx s) (drop 4 (bad @ more) @ x) (unat ?w) = Decode_Error MSG_ID_CHECKSUM_MISMATCH" for x
    unfolding w using decode_corrupted[OF assms(4,6,7), of "more @ x"] by (simp add: bad_def del: of_nat_add)
  have "stuck (codec_ctx s) (codec_static s) (bad @ more)"
    unfolding stuck_def using rd dec w len assms(5)
    by (intro exI[of _ ?w] exI[of _ "MSG_ID_CHECKSUM_MISMATCH"]) (auto simp: bad_def sendable_def simp del: of_nat_add)
  with recv_all_stuck[OF assms(1,2), of "(e, bad @ more) # chunks"] assms(3) show ?thesis
    by (simp add: recv_all_def s'_def)
qed

theorem bad_checksum_blocks_witness:
  "let good = msg_frame (codec_ctx test_pl) \<lparr>passback = 1, msg_id = 5\<rparr> [7];
       bad = be32 13 @ be32 (msg_checksum (codec_ctx test_pl) \<lparr>passback = 1, msg_id = 5\<rparr> [7]) @ [0, 0, 0, 1, 0, 0, 0, 5, 8]
   in calls (fold (\<lambda>(e, data). on_recv_client_data e test_guid data) [(test_env, bad), (test_env, good)] test_pl) = []"
proof -
  have "msg_payload \<lparr>passback = 1, msg_id = 5\<rparr> [7] = [0, 0, 0, 1, 0, 0, 0, 5] @ 7 # []"
    by (simp add: msg_payload_def be32_def)
  note * = bad_checksum_blocks[OF test_pl_inv test_pl_conn _ _ _ this, unfolded test_pl_guid, of 8 test_env "[]"
      "[(test_env, msg_frame (codec_ctx test_pl) \<lparr>passback = 1, msg_id = 5\<rparr> [7])]"]
  have "do_checksum (codec_ctx test_pl)" "sendable (codec_ctx test_pl) (codec_static test_pl) [7]" "calls test_pl = []"
    by (simp_all add: test_pl_def sendable_def max_total_def calls_def)
  with * show ?thesis by (simp add: Let_def)
qed

text \<open>
  A logic that closes the connection it is told is lost: the close comes back to the logic, which is told again,
  until the stack is used up.
\<close>

theorem self_close_overflows:
  assumes "pl_inv s" "conn_heap (conns s) p = Some c" "when_closed e (the_guid c) = [[App_Close (the_guid c)]]"
  shows "fault (sink_client_closed e p s) \<noteq> None"
proof -
  have "fault (sink_closed n e p s) \<noteq> None" if "pl_inv s" "conn_heap (conns s) p = Some d" "the_guid d = the_guid c" for n s d
    using that
  proof (induction n arbitrary: s d)
    case (Suc n)
    note inv = Suc.prems(1) and d = Suc.prems(2) and g = Suc.prems(3)
    let ?s = "set_data p [] s" and ?d = "d\<lparr>recv_data := []\<rparr>"
    have i: "pl_inv ?s" and h: "conn_heap (conns ?s) p = Some ?d" using set_data_inv[OF inv d] by simp_all
    note live = get_conn_by_id_live[OF inv d] get_conn_by_id_live(1)[OF i h]
    let ?u = "sink_closed n e p ?s"
    have "io_thread_idx (the_guid c) = self_idx s" using inv d g unfolding pl_inv_def by metis
    then have "pl_on_client_closed (sink_closed n e) e (the_guid d) s = ?u\<lparr>part_msgs := remove_record p (part_msgs ?u)\<rparr>"
      using live h assms(3) by (simp add: pl_on_client_closed_def close_client_by_def g Let_def)
    moreover have "fault ?u \<noteq> None" using Suc.IH[OF i h] g by simp
    ultimately show ?case using d by (simp add: Let_def split: option.split sum.split)
  qed simp
  from this[OF assms(1,2) refl] show ?thesis by (simp only: sink_client_closed_def) simp
qed

theorem self_close_overflows_witness:
  "fault (sink_client_closed (test_env\<lparr>when_closed := (\<lambda>guid. [[App_Close guid]])\<rparr>) 100 test_pl) \<noteq> None"
  by (rule self_close_overflows[OF test_pl_inv test_pl_conn]) simp

text \<open>
  The watch over incomplete messages does what it promises. When its timer fires it
  returns, closes every connection whose incomplete message is older than its allowed time, by
  the deadline set when the last piece arrived, and touches no other connection.
\<close>

theorem part_msg_timeout:
  assumes "pl_inv s" "hash_order ord" "quiet e"
  shows "\<exists>s'. part_msg_check e ord s = Some s' \<and> pl_keeps s s' \<and>
    (\<forall>p. conn_heap (conns s') p = None \<longleftrightarrow> conn_heap (conns s) p = None \<or>
      (\<exists>guid secs deadline. rtm_store (part_msgs s) p = Some (guid, secs, deadline) \<and> deadline \<le> clock e))"
proof (rule part_msg_check_spec[OF assms])
  fix s' assume s': "part_msg_check e ord s = Some s'" "pl_keeps s s'"
    "dom (conn_heap (conns s')) = dom (conn_heap (conns s)) -
       {p. \<exists>v t dl. rtm_store (part_msgs s) p = Some (v, t, dl) \<and> dl \<le> clock e}"
  have "conn_heap (conns s') p = None \<longleftrightarrow> conn_heap (conns s) p = None \<or>
      (\<exists>guid secs deadline. rtm_store (part_msgs s) p = Some (guid, secs, deadline) \<and> deadline \<le> clock e)" for p
  proof -
    have "p \<in> dom (conn_heap (conns s')) \<longleftrightarrow> p \<in> dom (conn_heap (conns s)) \<and>
        \<not> (\<exists>v t dl. rtm_store (part_msgs s) p = Some (v, t, dl) \<and> dl \<le> clock e)" by (simp only: s'(3)) simp
    then show ?thesis by (simp only: domIff) blast
  qed
  with s'(1,2) show ?thesis by blast
qed

theorem part_msg_timeout_witness:
  "\<exists>s'. part_msg_check (test_env\<lparr>clock := 100\<rparr>) rev (test_pl\<lparr>part_msgs := upsert_record 60 100 test_guid 30 rtm_init\<rparr>) = Some s' \<and>
     conn_heap (conns s') 100 = None \<and> conn_heap (conns s') 200 \<noteq> None"
proof -
  let ?s = "test_pl\<lparr>part_msgs := upsert_record 60 100 test_guid 30 rtm_init\<rparr>"
  have "part_msgs test_pl = rtm_init" by (simp add: test_pl_def)
  with pl_inv_record[OF test_pl_inv test_pl_conn, unfolded test_pl_guid, of 60 30] have inv: "pl_inv ?s" by simp
  have st: "rtm_store (part_msgs ?s) = [100 \<mapsto> (test_guid, 30, 90)]" by (simp add: rtm_store_upsert)
  have "conn_heap (conns ?s) 200 \<noteq> None" by (simp add: test_pl_def two_conns_def Let_def)
  moreover have "quiet (test_env\<lparr>clock := 100\<rparr>)" using test_quiet(1) by (simp add: quiet_def)
  ultimately obtain s' where s': "part_msg_check (test_env\<lparr>clock := 100\<rparr>) rev ?s = Some s'"
    "\<forall>p. conn_heap (conns s') p = None \<longleftrightarrow> conn_heap (conns ?s) p = None \<or>
      (\<exists>guid secs deadline. rtm_store (part_msgs ?s) p = Some (guid, secs, deadline) \<and> deadline \<le> clock (test_env\<lparr>clock := 100\<rparr>))"
    "conn_heap (conns ?s) 200 \<noteq> None"
    using part_msg_timeout[OF inv hash_order_rev, of "test_env\<lparr>clock := 100\<rparr>"] by blast
  then show ?thesis by (intro exI[of _ s'] conjI) (use st in \<open>simp_all add: rtm_store_upsert\<close>)
qed

end
