(* ===== verification/Trans_Center.thy ===== *)
theory Trans_Center
  imports Proto_Codec Seq_Num Record_Timeout "HOL-Library.Char_ord" "HOL-Library.List_Lexorder" "HOL-Library.Product_Lexorder"
begin

text \<open>
  Transactions: \<^verbatim>\<open>trans_center/inc\<close> (peers, transaction contexts), \<^verbatim>\<open>trans.h\<close>,
  \<^verbatim>\<open>trans_center.cpp\<close> and \<^verbatim>\<open>rsp_msg_mgr.cpp\<close>. A request to a peer is recorded with the sink
  that waits for the response; it ends by a response, a timeout or a cancellation. The sinks
  are a parameter: for every callback, what they ask of the transaction center from inside it.
\<close>

subsection \<open>Peers\<close>

datatype peer_type = PEER_TYPE_THREAD | PEER_TYPE_PROTO_TCP | PEER_TYPE_HTTP | PEER_TYPE_MAX

fun peer_type_num :: "peer_type \<Rightarrow> nat" where
  "peer_type_num PEER_TYPE_THREAD = 0"
| "peer_type_num PEER_TYPE_PROTO_TCP = 1"
| "peer_type_num PEER_TYPE_HTTP = 2"
| "peer_type_num PEER_TYPE_MAX = 3"

lemma peer_type_num_inj: "peer_type_num a = peer_type_num b \<longleftrightarrow> a = b"
  by (cases a; cases b) simp_all

datatype peer = Peer (p_type: peer_type) (p_addr: string) (p_port: nat)

text \<open>\<^verbatim>\<open>Peer::operator<\<close>, the order of the keys of \<^verbatim>\<open>peer_trans_id_map_\<close>.\<close>

definition peer_less :: "peer \<Rightarrow> peer \<Rightarrow> bool" where
  "peer_less a b =
     (if p_type a \<noteq> p_type b then peer_type_num (p_type a) < peer_type_num (p_type b)
      else if p_addr a \<noteq> p_addr b then p_addr a < p_addr b
      else p_port a < p_port b)"

text \<open>
  It compares type, address and port lexicographically, so it is a total order that tells
  different peers apart, as \<^verbatim>\<open>std::map\<close> needs it.
\<close>

definition peer_key :: "peer \<Rightarrow> nat \<times> string \<times> nat" where
  "peer_key a = (peer_type_num (p_type a), p_addr a, p_port a)"

lemma peer_less_key: "peer_less a b \<longleftrightarrow> peer_key a < peer_key b"
  using peer_type_num_inj[of "p_type a" "p_type b"] by (auto simp: peer_less_def peer_key_def)

lemma peer_key_inj: "peer_key a = peer_key b \<longleftrightarrow> a = b"
  by (auto simp: peer_key_def peer_type_num_inj peer.expand)

instantiation peer :: linorder
begin

definition less_peer :: "peer \<Rightarrow> peer \<Rightarrow> bool" where
  "less_peer = peer_less"

definition less_eq_peer :: "peer \<Rightarrow> peer \<Rightarrow> bool" where
  "less_eq_peer a b \<longleftrightarrow> a = b \<or> peer_less a b"

instance
proof
  fix a b c :: peer
  have le: "a \<le> b \<longleftrightarrow> peer_key a \<le> peer_key b" for a b
    unfolding less_eq_peer_def peer_less_key le_less peer_key_inj by blast
  show "a < b \<longleftrightarrow> a \<le> b \<and> \<not> b \<le> a" unfolding le less_peer_def peer_less_key by (rule less_le_not_le)
  show "a \<le> a" unfolding le by simp
  show "a \<le> b \<Longrightarrow> b \<le> c \<Longrightarrow> a \<le> c" unfolding le by (rule order_trans)
  show "a \<le> b \<Longrightarrow> b \<le> a \<Longrightarrow> a = b" unfolding le using peer_key_inj antisym by blast
  show "a \<le> b \<or> b \<le> a" unfolding le by (rule linear)
qed

end

subsection \<open>Transactions\<close>

text \<open>
  The asynchronous data of a context: none, a pointer to an object (\<^verbatim>\<open>len\<close> 0), or a block of
  memory with its length. A null sink is 0.
\<close>

datatype async_data = No_Data | Object ptr | Block bytes

record trans_ctx =
  tx_peer :: peer
  tx_timeout_sec :: int
  tx_passback :: i32
  tx_sink :: ptr
  tx_data :: async_data

text \<open>
  \<^verbatim>\<open>Trans::Create\<close>: the copy that is kept. Without a sink the data are not copied; the test
  \<^verbatim>\<open>ctx->len < 1\<close> comes before the branch for object pointers.
\<close>

definition trans_create :: "trans_ctx \<Rightarrow> trans_ctx" where
  "trans_create ctx =
     (let t = \<lparr>tx_peer = tx_peer ctx, tx_timeout_sec = tx_timeout_sec ctx, tx_passback = tx_passback ctx,
               tx_sink = 0, tx_data = No_Data\<rparr> in
      if tx_sink ctx = 0 then t
      else
        (let t1 = t\<lparr>tx_sink := tx_sink ctx\<rparr> in
         case tx_data ctx of
           No_Data \<Rightarrow> t1
         | Object p \<Rightarrow> t1
         | Block b \<Rightarrow> if length b < 1 then t1 else t1\<lparr>tx_data := Block b\<rparr>))"

text \<open>The callbacks that are made, with their arguments.\<close>

datatype tc_call =
    Sink_Connected ptr int peer async_data
  | Sink_Closed ptr int peer async_data
  | Sink_Rsp ptr int peer msg_head bytes async_data
  | Sink_Timeout ptr int peer async_data
  | Center_Timeout ptr int

record trans_center =
  sink_set :: "ptr set"
  trans_id_seq :: seq_num
  trans_hash_map :: "int \<rightharpoonup> trans_ctx"
  peer_trans_id_map :: "peer \<rightharpoonup> int set"
  rsp_msg_mgr :: "(int, trans_ctx) record_mgr"
  tc_calls :: "tc_call list"

definition tc_init :: trans_center where
  "tc_init = \<lparr>sink_set = {}, trans_id_seq = seq_reset 1 I32_SEQ_MAX, trans_hash_map = Map.empty,
     peer_trans_id_map = Map.empty, rsp_msg_mgr = rtm_init, tc_calls = []\<rparr>"

definition add_sink :: "ptr \<Rightarrow> trans_center \<Rightarrow> int \<times> trans_center" where
  "add_sink sk s = (if sk \<in> sink_set s then (RC_ERR, s) else (RC_OK, s\<lparr>sink_set := insert sk (sink_set s)\<rparr>))"

definition remove_sink :: "ptr \<Rightarrow> trans_center \<Rightarrow> trans_center" where
  "remove_sink sk s = (if sk \<in> sink_set s then s\<lparr>sink_set := sink_set s - {sk}\<rparr> else s)"

text \<open>\<^verbatim>\<open>operator[]\<close> of the peer map: an empty set where there is none.\<close>

definition peer_ids :: "trans_center \<Rightarrow> peer \<Rightarrow> int set" where
  "peer_ids s q = (case peer_trans_id_map s q of None \<Rightarrow> {} | Some ids \<Rightarrow> ids)"

definition remove_trans :: "int \<Rightarrow> trans_center \<Rightarrow> trans_center" where
  "remove_trans i s =
     (case trans_hash_map s i of
        None \<Rightarrow> s
      | Some t \<Rightarrow>
          s\<lparr>peer_trans_id_map := (peer_trans_id_map s)(tx_peer t \<mapsto> peer_ids s (tx_peer t) - {i}),
            trans_id_seq := seq_free (trans_id_seq s) i,
            trans_hash_map := (trans_hash_map s)(i := None)\<rparr>)"

definition cancel_trans :: "int \<Rightarrow> trans_center \<Rightarrow> trans_center" where
  "cancel_trans i s =
     (case trans_hash_map s i of
        None \<Rightarrow> s
      | Some _ \<Rightarrow>
          remove_trans i
            (if record_exist (rsp_msg_mgr s) i
             then s\<lparr>rsp_msg_mgr := remove_record i (rsp_msg_mgr s)\<rparr> else s))"

text \<open>\<^verbatim>\<open>RecordTransCtx\<close>; a null context is None. The outer None: the id allocation does not return.\<close>

definition record_trans_ctx :: "time_t \<Rightarrow> trans_ctx option \<Rightarrow> trans_center \<Rightarrow> (int \<times> trans_center) option" where
  "record_trans_ctx now ctx_p s =
     (case ctx_p of
        None \<Rightarrow> Some (INVALID_SEQ_NUM, s)
      | Some ctx \<Rightarrow>
          (let trans = trans_create ctx in
           case seq_alloc 1 I32_SEQ_MAX (trans_id_seq s) of
             None \<Rightarrow> None
           | Some (i, seq') \<Rightarrow>
               (let s0 = s\<lparr>trans_id_seq := seq'\<rparr> in
                if i = INVALID_SEQ_NUM then Some (INVALID_SEQ_NUM, s0)
                else if trans_hash_map s0 i \<noteq> None then Some (INVALID_SEQ_NUM, cancel_trans i s0)
                else
                  (let s1 = s0\<lparr>trans_hash_map := (trans_hash_map s0)(i \<mapsto> trans)\<rparr>;
                       s2 = (if tx_sink ctx \<noteq> 0 \<and> 0 < tx_timeout_sec ctx
                             then s1\<lparr>rsp_msg_mgr := upsert_record now i trans (tx_timeout_sec ctx) (rsp_msg_mgr s1)\<rparr>
                             else s1);
                       s3 = s2\<lparr>peer_trans_id_map := (peer_trans_id_map s2)
                                 (tx_peer ctx \<mapsto> insert i (peer_ids s2 (tx_peer ctx)))\<rparr> in
                   Some (i, if tx_sink ctx = 0 then cancel_trans i s3 else s3)))))"

definition get_trans_ctx :: "int \<Rightarrow> trans_center \<Rightarrow> trans_ctx option" where
  "get_trans_ctx i s = trans_hash_map s i"

subsection \<open>Callbacks\<close>

text \<open>What a sink asks for from inside a callback.\<close>

datatype tc_op = Op_Cancel int | Op_Record trans_ctx

type_synonym tc_react = "tc_call \<Rightarrow> tc_op list"

fun run_op :: "time_t \<Rightarrow> tc_op \<Rightarrow> trans_center \<Rightarrow> trans_center option" where
  "run_op now (Op_Cancel i) s = Some (cancel_trans i s)"
| "run_op now (Op_Record ctx) s = map_option snd (record_trans_ctx now (Some ctx) s)"

fun run_ops :: "time_t \<Rightarrow> tc_op list \<Rightarrow> trans_center \<Rightarrow> trans_center option" where
  "run_ops now [] s = Some s"
| "run_ops now (x # xs) s = Option.bind (run_op now x s) (run_ops now xs)"

definition callback :: "time_t \<Rightarrow> tc_react \<Rightarrow> tc_call \<Rightarrow> trans_center \<Rightarrow> trans_center option" where
  "callback now react c s = run_ops now (react c) (s\<lparr>tc_calls := tc_calls s @ [c]\<rparr>)"

text \<open>
  The loops of \<^verbatim>\<open>OnConnected\<close> and \<^verbatim>\<open>OnClosed\<close> run over the live set of the peer's ids, in
  ascending order. When a callback has erased the id the loop stands on, its iterator is invalid
  and incrementing it is undefined behaviour: \<open>Inl i\<close>. \<open>mk\<close> builds the callback. The loop goes on
  for as long as callbacks insert greater ids.
\<close>

definition next_id :: "int set \<Rightarrow> int \<Rightarrow> int option" where
  "next_id ids i = (let later = {j \<in> ids. i < j} in if later = {} then None else Some (Min later))"

partial_function (option) peer_loop ::
  "time_t \<Rightarrow> tc_react \<Rightarrow> (ptr \<Rightarrow> int \<Rightarrow> peer \<Rightarrow> async_data \<Rightarrow> tc_call) \<Rightarrow> peer \<Rightarrow> int \<Rightarrow> trans_center \<Rightarrow>
   (int + trans_center) option" where
  "peer_loop now react mk q i s =
     Option.bind
       (case trans_hash_map s i of
          None \<Rightarrow> Some s
        | Some t \<Rightarrow> if tx_sink t \<noteq> 0 then callback now react (mk (tx_sink t) i q (tx_data t)) s else Some s)
       (\<lambda>s1. if i \<notin> peer_ids s1 q then Some (Inl i)
             else (case next_id (peer_ids s1 q) i of
                     None \<Rightarrow> Some (Inr s1)
                   | Some j \<Rightarrow> peer_loop now react mk q j s1))"

definition peer_event ::
  "time_t \<Rightarrow> tc_react \<Rightarrow> (ptr \<Rightarrow> int \<Rightarrow> peer \<Rightarrow> async_data \<Rightarrow> tc_call) \<Rightarrow> peer \<Rightarrow> trans_center \<Rightarrow>
   (int + trans_center) option" where
  "peer_event now react mk q s =
     (case peer_trans_id_map s q of
        None \<Rightarrow> Some (Inr s)
      | Some ids \<Rightarrow> if ids = {} then Some (Inr s) else peer_loop now react mk q (Min ids) s)"

definition on_connected :: "time_t \<Rightarrow> tc_react \<Rightarrow> peer \<Rightarrow> trans_center \<Rightarrow> (int + trans_center) option" where
  "on_connected now react = peer_event now react Sink_Connected"

definition on_closed :: "time_t \<Rightarrow> tc_react \<Rightarrow> peer \<Rightarrow> trans_center \<Rightarrow> (int + trans_center) option" where
  "on_closed now react = peer_event now react Sink_Closed"

definition on_recv_rsp ::
  "time_t \<Rightarrow> tc_react \<Rightarrow> int \<Rightarrow> msg_head \<Rightarrow> bytes \<Rightarrow> trans_center \<Rightarrow> trans_center option" where
  "on_recv_rsp now react i head body s =
     map_option (cancel_trans i)
       (case trans_hash_map s i of
          None \<Rightarrow> Some s
        | Some t \<Rightarrow>
            if tx_sink t \<noteq> 0 then callback now react (Sink_Rsp (tx_sink t) i (tx_peer t) head body (tx_data t)) s
            else Some s)"

fun tell_sinks :: "time_t \<Rightarrow> tc_react \<Rightarrow> int \<Rightarrow> ptr list \<Rightarrow> trans_center \<Rightarrow> trans_center option" where
  "tell_sinks now react i [] s = Some s"
| "tell_sinks now react i (k # ks) s =
     Option.bind (callback now react (Center_Timeout k i) s) (tell_sinks now react i ks)"

text \<open>\<^verbatim>\<open>TransCenter::OnTimeout\<close>; the callbacks do not add or remove sinks.\<close>

definition tc_on_timeout :: "time_t \<Rightarrow> tc_react \<Rightarrow> int \<Rightarrow> trans_center \<Rightarrow> trans_center option" where
  "tc_on_timeout now react i s =
     map_option (remove_trans i)
       (Option.bind
          (case trans_hash_map s i of
             None \<Rightarrow> Some s
           | Some t \<Rightarrow>
               if tx_sink t \<noteq> 0 then callback now react (Sink_Timeout (tx_sink t) i (tx_peer t) (tx_data t)) s
               else Some s)
          (\<lambda>s1. tell_sinks now react i (sorted_list_of_set (sink_set s1)) s1))"

text \<open>The expiry timer of \<^verbatim>\<open>RspMsgMgr\<close>.\<close>

fun timeouts :: "time_t \<Rightarrow> tc_react \<Rightarrow> (int \<times> trans_ctx \<times> int) list \<Rightarrow> trans_center \<Rightarrow> trans_center option" where
  "timeouts now react [] s = Some s"
| "timeouts now react ((k, v, secs) # xs) s = Option.bind (tc_on_timeout now react k s) (timeouts now react xs)"

definition rsp_check ::
  "time_t \<Rightarrow> tc_react \<Rightarrow> ((int \<times> trans_ctx \<times> int) list \<Rightarrow> (int \<times> trans_ctx \<times> int) list) \<Rightarrow> trans_center \<Rightarrow>
   trans_center option" where
  "rsp_check now react ord s =
     Option.bind (rtm_on_timer ord now (rsp_msg_mgr s))
       (\<lambda>(recs, xs). timeouts now react xs (s\<lparr>rsp_msg_mgr := recs\<rparr>))"

text \<open>\<^verbatim>\<open>Release\<close>: every transaction is cancelled, in the order of a copy of the hash map.\<close>

definition tc_release :: "int list \<Rightarrow> trans_center \<Rightarrow> trans_center" where
  "tc_release ids s =
     (fold cancel_trans ids s)\<lparr>trans_hash_map := Map.empty, sink_set := {}, peer_trans_id_map := Map.empty\<rparr>"

subsection \<open>Invariant\<close>

text \<open>
  The ids in use are those of the transactions; the sets by peer hold every transaction exactly
  under its peer; a record in the response manager belongs to a live transaction and carries it;
  every transaction has a sink.
\<close>

definition tc_core :: "trans_center \<Rightarrow> bool" where
  "tc_core s \<longleftrightarrow> seq_inv 1 I32_SEQ_MAX (trans_id_seq s) \<and> inuse_seqs (trans_id_seq s) = dom (trans_hash_map s) \<and>
     (\<forall>q i. i \<in> peer_ids s q \<longleftrightarrow> (\<exists>t. trans_hash_map s i = Some t \<and> tx_peer t = q)) \<and>
     rtm_inv (rsp_msg_mgr s) \<and>
     (\<forall>i r. rtm_store (rsp_msg_mgr s) i = Some r \<longrightarrow> trans_hash_map s i = Some (fst r))"

definition tc_inv :: "trans_center \<Rightarrow> bool" where
  "tc_inv s \<longleftrightarrow> tc_core s \<and> (\<forall>i t. trans_hash_map s i = Some t \<longrightarrow> tx_sink t \<noteq> 0)"

text \<open>Every transaction with a time limit is watched, but for those in \<open>P\<close>.\<close>

definition watched :: "int set \<Rightarrow> trans_center \<Rightarrow> bool" where
  "watched P s \<longleftrightarrow> (\<forall>i t. trans_hash_map s i = Some t \<longrightarrow> 0 < tx_timeout_sec t \<longrightarrow> i \<notin> P \<longrightarrow>
     (\<exists>dl. rtm_store (rsp_msg_mgr s) i = Some (t, tx_timeout_sec t, dl)))"

lemma tc_inv_init: "tc_inv tc_init" "watched {} tc_init"
  by (simp_all add: tc_inv_def tc_core_def watched_def tc_init_def peer_ids_def rtm_inv_init seq_inv_def seq_reset_def)

text \<open>The state without the transaction \<open>t\<close> of id \<open>i\<close>.\<close>

definition ended :: "int \<Rightarrow> trans_ctx \<Rightarrow> trans_center \<Rightarrow> trans_center" where
  "ended i t s =
     s\<lparr>rsp_msg_mgr := remove_record i (rsp_msg_mgr s),
       peer_trans_id_map := (peer_trans_id_map s)(tx_peer t \<mapsto> peer_ids s (tx_peer t) - {i}),
       trans_id_seq := seq_free (trans_id_seq s) i,
       trans_hash_map := (trans_hash_map s)(i := None)\<rparr>"

lemma ended_simps [simp]:
  "trans_hash_map (ended i t s) = (trans_hash_map s)(i := None)"
  "rsp_msg_mgr (ended i t s) = remove_record i (rsp_msg_mgr s)"
  "tc_calls (ended i t s) = tc_calls s" "sink_set (ended i t s) = sink_set s"
  "trans_id_seq (ended i t s) = seq_free (trans_id_seq s) i"
  "peer_ids (ended i t s) q = (if q = tx_peer t then peer_ids s q - {i} else peer_ids s q)"
  by (simp_all add: ended_def peer_ids_def)

lemma cancel_trans_eq: "trans_hash_map s i = Some t \<Longrightarrow> cancel_trans i s = ended i t s"
  using remove_record_absent[of "rsp_msg_mgr s" i]
  by (auto simp: cancel_trans_def remove_trans_def ended_def peer_ids_def)

lemma remove_trans_eq:
  "trans_hash_map s i = Some t \<Longrightarrow> \<not> record_exist (rsp_msg_mgr s) i \<Longrightarrow> remove_trans i s = ended i t s"
  using remove_record_absent[of "rsp_msg_mgr s" i]
  by (simp add: remove_trans_def ended_def)

lemma record_trans: "tc_core s \<Longrightarrow> rtm_store (rsp_msg_mgr s) j = Some r \<Longrightarrow> trans_hash_map s j = Some (fst r)"
  unfolding tc_core_def by blast

lemma tc_core_ended:
  assumes inv: "tc_core s" and t: "trans_hash_map s i = Some t"
  shows "tc_core (ended i t s)"
proof -
  from inv have sq: "seq_inv 1 I32_SEQ_MAX (trans_id_seq s)" by (simp add: tc_core_def)
  have "inuse_seqs (seq_free (trans_id_seq s) i) = dom (trans_hash_map s) - {i}"
    using sq.live_free[OF sq] inv by (simp add: tc_core_def)
  moreover have "j \<in> peer_ids (ended i t s) q \<longleftrightarrow> (\<exists>u. trans_hash_map (ended i t s) j = Some u \<and> tx_peer u = q)" for j q
    using inv t by (auto simp: tc_core_def)
  moreover have "rtm_inv (remove_record i (rsp_msg_mgr s))" using inv by (simp add: tc_core_def cc_inv)
  moreover have "trans_hash_map (ended i t s) j = Some (fst r)" if "rtm_store (remove_record i (rsp_msg_mgr s)) j = Some r" for j r
    using that record_trans[OF inv] by (cases "j = i") (simp_all add: rtm_store_remove)
  ultimately show ?thesis
    using sq.inv_free[OF sq] unfolding tc_core_def by (simp del: ended_simps(6))
qed

lemma tc_inv_ended: "tc_inv s \<Longrightarrow> trans_hash_map s i = Some t \<Longrightarrow> tc_inv (ended i t s)"
  by (auto simp: tc_inv_def tc_core_ended split: if_splits)

lemma watched_ended: "watched P s \<Longrightarrow> watched (P - {i}) (ended i t s)"
  by (auto simp: watched_def rtm_store_remove split: if_splits)

lemma cancel_trans_inv: "tc_inv s \<Longrightarrow> tc_inv (cancel_trans i s)"
  by (cases "trans_hash_map s i") (simp add: cancel_trans_def, simp add: cancel_trans_eq tc_inv_ended)

lemma cancel_trans_map: "trans_hash_map (cancel_trans i s) = (trans_hash_map s)(i := None)"
proof (cases "trans_hash_map s i")
  case None
  then have "(trans_hash_map s)(i := None) = trans_hash_map s" by auto
  with None show ?thesis by (simp add: cancel_trans_def)
qed (simp add: cancel_trans_eq)

lemma cancel_trans_other [simp]: "tc_calls (cancel_trans i s) = tc_calls s" "sink_set (cancel_trans i s) = sink_set s"
proof -
  have "tc_calls (cancel_trans i s) = tc_calls s \<and> sink_set (cancel_trans i s) = sink_set s"
  proof (cases "trans_hash_map s i")
    case None
    then show ?thesis by (simp add: cancel_trans_def)
  qed (simp add: cancel_trans_eq)
  then show "tc_calls (cancel_trans i s) = tc_calls s" "sink_set (cancel_trans i s) = sink_set s" by simp_all
qed

lemma watched_mono: "watched P s \<Longrightarrow> P \<subseteq> Q \<Longrightarrow> watched Q s"
  by (auto simp: watched_def)

lemma watched_cancel: "watched P s \<Longrightarrow> watched P (cancel_trans i s)"
  by (cases "trans_hash_map s i")
    (simp add: cancel_trans_def, auto simp: cancel_trans_eq intro: watched_mono[OF watched_ended])

text \<open>Recording a transaction: no id is free, or a new one is taken.\<close>

definition entered :: "time_t \<Rightarrow> int \<Rightarrow> seq_num \<Rightarrow> trans_ctx \<Rightarrow> trans_center \<Rightarrow> trans_center" where
  "entered now i seq' ctx s =
     s\<lparr>trans_id_seq := seq', trans_hash_map := (trans_hash_map s)(i \<mapsto> trans_create ctx),
       rsp_msg_mgr := (if tx_sink ctx \<noteq> 0 \<and> 0 < tx_timeout_sec ctx
          then upsert_record now i (trans_create ctx) (tx_timeout_sec ctx) (rsp_msg_mgr s) else rsp_msg_mgr s),
       peer_trans_id_map := (peer_trans_id_map s)(tx_peer ctx \<mapsto> insert i (peer_ids s (tx_peer ctx)))\<rparr>"

lemma trans_create_simps [simp]:
  "tx_peer (trans_create ctx) = tx_peer ctx" "tx_timeout_sec (trans_create ctx) = tx_timeout_sec ctx"
  "tx_sink (trans_create ctx) = tx_sink ctx" "tx_passback (trans_create ctx) = tx_passback ctx"
  by (simp_all add: trans_create_def Let_def split: async_data.splits)

lemma entered_simps [simp]:
  "trans_hash_map (entered now i seq' ctx s) = (trans_hash_map s)(i \<mapsto> trans_create ctx)"
  "tc_calls (entered now i seq' ctx s) = tc_calls s" "sink_set (entered now i seq' ctx s) = sink_set s"
  "trans_id_seq (entered now i seq' ctx s) = seq'"
  "peer_ids (entered now i seq' ctx s) q = (if q = tx_peer ctx then insert i (peer_ids s q) else peer_ids s q)"
  by (simp_all add: entered_def peer_ids_def)

lemma no_record: "tc_core s \<Longrightarrow> trans_hash_map s i = None \<Longrightarrow> rtm_store (rsp_msg_mgr s) i = None"
  unfolding tc_core_def by (metis not_None_eq option.distinct(1))

lemma entered_store:
  assumes "tc_core s" "trans_hash_map s i = None"
  shows "rtm_store (rsp_msg_mgr (entered now i seq' ctx s)) = (rtm_store (rsp_msg_mgr s))
     (i := (if tx_sink ctx \<noteq> 0 \<and> 0 < tx_timeout_sec ctx
            then Some (trans_create ctx, tx_timeout_sec ctx, now + tx_timeout_sec ctx) else None))"
  using no_record[OF assms] by (auto simp: entered_def rtm_store_upsert)

lemma tc_core_entered:
  assumes inv: "tc_core s" and i: "trans_hash_map s i = None"
    and sq: "seq_inv 1 I32_SEQ_MAX seq'" "inuse_seqs seq' = insert i (inuse_seqs (trans_id_seq s))"
  shows "tc_core (entered now i seq' ctx s)"
proof -
  let ?s = "entered now i seq' ctx s"
  have "j \<in> peer_ids ?s q \<longleftrightarrow> (\<exists>u. trans_hash_map ?s j = Some u \<and> tx_peer u = q)" for j q
    using inv i by (auto simp: tc_core_def)
  moreover have "inuse_seqs seq' = dom (trans_hash_map ?s)" using sq(2) inv by (simp add: tc_core_def)
  moreover have "rtm_inv (rsp_msg_mgr ?s)" using inv by (simp add: entered_def tc_core_def cc_inv)
  moreover have "trans_hash_map ?s j = Some (fst r)" if "rtm_store (rsp_msg_mgr ?s) j = Some r" for j r
    using that record_trans[OF inv] unfolding entered_store[OF inv i] by (auto split: if_splits)
  ultimately show ?thesis using sq(1) unfolding tc_core_def by (simp del: entered_simps(5))
qed

lemma record_trans_cases:
  assumes inv: "tc_inv s"
  obtains
    (full) "dom (trans_hash_map s) = {1..I32_SEQ_MAX}" "record_trans_ctx now (Some ctx) s = Some (0, s)"
  | (recorded) i seq' where "1 \<le> i" "i \<le> I32_SEQ_MAX" "trans_hash_map s i = None" "tc_core (entered now i seq' ctx s)"
      "record_trans_ctx now (Some ctx) s =
         Some (i, if tx_sink ctx = 0 then ended i (trans_create ctx) (entered now i seq' ctx s) else entered now i seq' ctx s)"
proof -
  from inv have core: "tc_core s" and sq: "seq_inv 1 I32_SEQ_MAX (trans_id_seq s)"
    and live: "inuse_seqs (trans_id_seq s) = dom (trans_hash_map s)" by (auto simp: tc_inv_def tc_core_def)
  obtain i seq' where al: "seq_alloc 1 I32_SEQ_MAX (trans_id_seq s) = Some (i, seq')"
    using sq.alloc_returns[OF sq] by auto
  show ?thesis
  proof (cases "i = 0")
    case True
    with al sq.alloc_exhausted[OF sq] live have "seq' = trans_id_seq s" "dom (trans_hash_map s) = {1..I32_SEQ_MAX}" by auto
    then show ?thesis using al True by (intro full) (simp_all add: record_trans_ctx_def Let_def)
  next
    case False
    note fresh = sq.alloc_fresh[OF sq al False]
    then have i: "trans_hash_map s i = None" using live by auto
    have core': "tc_core (entered now i seq' ctx s)"
      using tc_core_entered[OF core i sq.inv_alloc[OF sq al]] fresh by simp
    have "record_trans_ctx now (Some ctx) s =
       Some (i, if tx_sink ctx = 0 then cancel_trans i (entered now i seq' ctx s) else entered now i seq' ctx s)"
      using al False i by (simp add: record_trans_ctx_def Let_def entered_def peer_ids_def)
    also have "cancel_trans i (entered now i seq' ctx s) = ended i (trans_create ctx) (entered now i seq' ctx s)"
      by (rule cancel_trans_eq) simp
    finally show ?thesis using fresh i core' by (intro recorded) simp_all
  qed
qed

lemma record_trans_inv:
  assumes inv: "tc_inv s" and w: "watched P s"
  obtains i s' where "record_trans_ctx now (Some ctx) s = Some (i, s')" "tc_inv s'" "watched P s'"
    "tc_calls s' = tc_calls s" "sink_set s' = sink_set s" "trans_hash_map s \<subseteq>\<^sub>m trans_hash_map s'"
    "\<And>j. trans_hash_map s j \<noteq> None \<Longrightarrow> rtm_store (rsp_msg_mgr s') j = rtm_store (rsp_msg_mgr s) j"
  using inv
proof (cases rule: record_trans_cases[where now = now and ctx = ctx])
  case full
  with inv w that show ?thesis by simp
next
  case (recorded i seq')
  from inv have core: "tc_core s" by (simp add: tc_inv_def)
  let ?e = "entered now i seq' ctx s"
  note st = entered_store[OF core recorded(3), of now seq' ctx]
  have le: "trans_hash_map s \<subseteq>\<^sub>m (trans_hash_map s)(i \<mapsto> x)" for x using recorded(3) by (auto simp: map_le_def)
  have rec: "rtm_store (rsp_msg_mgr ?e) j = rtm_store (rsp_msg_mgr s) j" if "trans_hash_map s j \<noteq> None" for j
    using that recorded(3) by (auto simp: st)
  show ?thesis
  proof (cases "tx_sink ctx = 0")
    case False
    have "tc_inv ?e" using recorded(4) inv False by (auto simp: tc_inv_def split: if_splits)
    moreover have "watched P ?e" using w False recorded(3) by (auto simp: watched_def st)
    ultimately show ?thesis using recorded(5) False le rec by (intro that[of i ?e]) simp_all
  next
    case True
    let ?s' = "ended i (trans_create ctx) ?e"
    have m: "trans_hash_map ?s' = trans_hash_map s" using recorded(3) by auto
    have "tc_core ?s'" by (rule tc_core_ended[OF recorded(4)]) simp
    then have "tc_inv ?s'" using inv m by (simp add: tc_inv_def del: ended_simps entered_simps)
    moreover have r: "rtm_store (rsp_msg_mgr ?s') = rtm_store (rsp_msg_mgr s)"
      using no_record[OF core recorded(3)] True by (auto simp: rtm_store_remove st)
    moreover from r m have "watched P ?s'" using w by (simp add: watched_def del: ended_simps entered_simps)
    ultimately show ?thesis using recorded(5) True m by (intro that[of i ?s']) (simp_all del: ended_simps(1))
  qed
qed

subsection \<open>Callbacks keep the invariant\<close>

text \<open>The requests of a sink from inside a callback, whatever they are.\<close>

lemma tc_inv_calls [simp]: "tc_inv (s\<lparr>tc_calls := xs\<rparr>) = tc_inv s" "watched P (s\<lparr>tc_calls := xs\<rparr>) = watched P s"
  by (simp_all add: tc_inv_def tc_core_def watched_def peer_ids_def)

definition grows :: "trans_center \<Rightarrow> trans_center \<Rightarrow> bool" where
  "grows s s' \<longleftrightarrow> trans_hash_map s \<subseteq>\<^sub>m trans_hash_map s' \<and>
     (\<forall>j. trans_hash_map s j \<noteq> None \<longrightarrow> rtm_store (rsp_msg_mgr s') j = rtm_store (rsp_msg_mgr s) j)"

lemma grows_refl: "grows s s"
  by (simp add: grows_def)

lemma grows_trans: "grows s t \<Longrightarrow> grows t u \<Longrightarrow> grows s u"
  unfolding grows_def by (metis domIff map_le_def map_le_trans)

fun is_cancel :: "tc_op \<Rightarrow> bool" where
  "is_cancel (Op_Cancel _) = True"
| "is_cancel (Op_Record _) = False"

lemma run_ops_inv:
  assumes "tc_inv s" "watched P s"
  shows "\<exists>s'. run_ops now xs s = Some s' \<and> tc_inv s' \<and> watched P s' \<and> tc_calls s' = tc_calls s \<and>
    sink_set s' = sink_set s \<and> (list_all (\<lambda>x. \<not> is_cancel x) xs \<longrightarrow> grows s s')"
  using assms
proof (induction xs arbitrary: s)
  case Nil
  then show ?case by (simp add: grows_refl)
next
  case (Cons x xs)
  have "\<exists>s1. run_op now x s = Some s1 \<and> tc_inv s1 \<and> watched P s1 \<and> tc_calls s1 = tc_calls s \<and>
      sink_set s1 = sink_set s \<and> (\<not> is_cancel x \<longrightarrow> grows s s1)"
  proof (cases x)
    case (Op_Cancel i)
    with Cons.prems show ?thesis by (simp add: cancel_trans_inv watched_cancel)
  next
    case (Op_Record ctx)
    show ?thesis
      by (rule record_trans_inv[OF Cons.prems, of now ctx]) (simp add: Op_Record grows_def)
  qed
  then obtain s1 where s1: "run_op now x s = Some s1" "tc_inv s1" "watched P s1" "tc_calls s1 = tc_calls s"
    "sink_set s1 = sink_set s" "\<not> is_cancel x \<longrightarrow> grows s s1" by blast
  from Cons.IH[OF s1(2,3)] obtain s' where "run_ops now xs s1 = Some s'" "tc_inv s'" "watched P s'"
    "tc_calls s' = tc_calls s1" "sink_set s' = sink_set s1" "list_all (\<lambda>x. \<not> is_cancel x) xs \<longrightarrow> grows s1 s'"
    by blast
  with s1 show ?case by (auto intro: grows_trans)
qed

lemma callback_inv:
  assumes "tc_inv s" "watched P s"
  obtains s' where "callback now react c s = Some s'" "tc_inv s'" "watched P s'" "tc_calls s' = tc_calls s @ [c]"
    "sink_set s' = sink_set s" "list_all (\<lambda>x. \<not> is_cancel x) (react c) \<Longrightarrow> grows s s'"
proof -
  let ?s = "s\<lparr>tc_calls := tc_calls s @ [c]\<rparr>"
  have "grows ?s s' \<longleftrightarrow> grows s s'" for s' by (simp add: grows_def)
  with run_ops_inv[of ?s P now "react c"] assms that show ?thesis by (auto simp: callback_def)
qed

lemma on_recv_rsp_spec:
  assumes inv: "tc_inv s" "watched P s"
  obtains s' where "on_recv_rsp now react i head body s = Some s'" "tc_inv s'" "watched P s'"
    "trans_hash_map s' i = None"
    "tc_calls s' = tc_calls s @ (case trans_hash_map s i of None \<Rightarrow> []
       | Some t \<Rightarrow> [Sink_Rsp (tx_sink t) i (tx_peer t) head body (tx_data t)])"
proof (cases "trans_hash_map s i")
  case None
  have "trans_hash_map (cancel_trans i s) i = None" by (simp add: cancel_trans_map)
  with None inv show ?thesis
    by (intro that[of "cancel_trans i s"]) (simp_all add: on_recv_rsp_def cancel_trans_inv watched_cancel)
next
  case (Some t)
  then have "tx_sink t \<noteq> 0" using inv(1) by (auto simp: tc_inv_def)
  obtain s1 where s1: "callback now react (Sink_Rsp (tx_sink t) i (tx_peer t) head body (tx_data t)) s = Some s1"
    "tc_inv s1" "watched P s1" "tc_calls s1 = tc_calls s @ [Sink_Rsp (tx_sink t) i (tx_peer t) head body (tx_data t)]"
    by (rule callback_inv[OF inv, of now react "Sink_Rsp (tx_sink t) i (tx_peer t) head body (tx_data t)"])
  with Some \<open>tx_sink t \<noteq> 0\<close> show ?thesis
    by (intro that[of "cancel_trans i s1"]) (simp_all add: on_recv_rsp_def cancel_trans_inv watched_cancel cancel_trans_map)
qed

lemma tell_sinks_inv:
  assumes "tc_inv s" "watched P s" "\<And>k. list_all (\<lambda>x. \<not> is_cancel x) (react (Center_Timeout k i))"
  obtains s' where "tell_sinks now react i ks s = Some s'" "tc_inv s'" "watched P s'" "grows s s'"
    "tc_calls s' = tc_calls s @ map (\<lambda>k. Center_Timeout k i) ks" "sink_set s' = sink_set s"
  using assms(1,2)
proof (induction ks arbitrary: s thesis)
  case Nil
  then show ?case by (simp add: grows_refl)
next
  case (Cons k ks)
  obtain s1 where s1: "callback now react (Center_Timeout k i) s = Some s1" "tc_inv s1" "watched P s1"
    "tc_calls s1 = tc_calls s @ [Center_Timeout k i]" "sink_set s1 = sink_set s" "grows s s1"
    by (rule callback_inv[OF Cons.prems(2,3), of now react "Center_Timeout k i"]) (use assms(3) in blast)
  obtain s' where s': "tell_sinks now react i ks s1 = Some s'" "tc_inv s'" "watched P s'" "grows s1 s'"
    "tc_calls s' = tc_calls s1 @ map (\<lambda>k. Center_Timeout k i) ks" "sink_set s' = sink_set s1"
    by (rule Cons.IH[OF _ s1(2,3)])
  show ?case
    by (rule Cons.prems(1)[of s']) (use s1 s' grows_trans[OF s1(6) s'(4)] in simp_all)
qed

text \<open>Sinks that cancel nothing from inside a timeout callback.\<close>

definition timeout_tame :: "tc_react \<Rightarrow> bool" where
  "timeout_tame react \<longleftrightarrow> (\<forall>sk i q d. list_all (\<lambda>x. \<not> is_cancel x) (react (Sink_Timeout sk i q d))) \<and>
     (\<forall>k i. list_all (\<lambda>x. \<not> is_cancel x) (react (Center_Timeout k i)))"

definition timeout_calls :: "ptr set \<Rightarrow> int \<Rightarrow> trans_ctx \<Rightarrow> tc_call list" where
  "timeout_calls sinks i t = Sink_Timeout (tx_sink t) i (tx_peer t) (tx_data t) #
     map (\<lambda>k. Center_Timeout k i) (sorted_list_of_set sinks)"

lemma tc_on_timeout_spec:
  assumes inv: "tc_inv s" "watched P s" and tame: "timeout_tame react"
    and t: "trans_hash_map s i = Some t" "rtm_store (rsp_msg_mgr s) i = None"
  obtains s' where "tc_on_timeout now react i s = Some s'" "tc_inv s'" "watched (P - {i}) s'"
    "tc_calls s' = tc_calls s @ timeout_calls (sink_set s) i t" "sink_set s' = sink_set s"
    "\<forall>j u. j \<noteq> i \<longrightarrow> trans_hash_map s j = Some u \<longrightarrow>
       trans_hash_map s' j = Some u \<and> rtm_store (rsp_msg_mgr s') j = rtm_store (rsp_msg_mgr s) j"
proof -
  have "tx_sink t \<noteq> 0" using inv(1) t(1) by (auto simp: tc_inv_def)
  let ?c = "Sink_Timeout (tx_sink t) i (tx_peer t) (tx_data t)"
  obtain s1 where s1: "callback now react ?c s = Some s1" "tc_inv s1" "watched P s1" "tc_calls s1 = tc_calls s @ [?c]"
    "sink_set s1 = sink_set s" "grows s s1"
    by (rule callback_inv[OF inv, of now react ?c]) (use tame in \<open>auto simp: timeout_tame_def\<close>)
  obtain s2 where s2: "tell_sinks now react i (sorted_list_of_set (sink_set s1)) s1 = Some s2" "tc_inv s2"
    "watched P s2" "grows s1 s2" "sink_set s2 = sink_set s1"
    "tc_calls s2 = tc_calls s1 @ map (\<lambda>k. Center_Timeout k i) (sorted_list_of_set (sink_set s1))"
    by (rule tell_sinks_inv[OF s1(2,3), where react = react and i = i and now = now and ks = "sorted_list_of_set (sink_set s1)"])
      (use tame in \<open>auto simp: timeout_tame_def\<close>)
  note g = grows_trans[OF s1(6) s2(4)]
  have t2: "trans_hash_map s2 i = Some t" using g t(1) unfolding grows_def map_le_def by (metis domI)
  have "\<not> record_exist (rsp_msg_mgr s2) i" using g t by (simp add: grows_def record_exist_store)
  from remove_trans_eq[OF t2 this] have "tc_on_timeout now react i s = Some (ended i t s2)"
    using s1(1) s2(1) t(1) \<open>tx_sink t \<noteq> 0\<close> by (simp add: tc_on_timeout_def)
  moreover have "trans_hash_map (ended i t s2) j = Some u \<and>
      rtm_store (rsp_msg_mgr (ended i t s2)) j = rtm_store (rsp_msg_mgr s) j"
    if "j \<noteq> i" "trans_hash_map s j = Some u" for j u
    using that g unfolding grows_def map_le_def by (simp add: rtm_store_remove) (metis domI)
  ultimately show ?thesis
    using tc_inv_ended[OF s2(2) t2] watched_ended[OF s2(3), of i t] s1(4,5) s2(5,6)
    by (intro that[of "ended i t s2"]) (simp_all add: timeout_calls_def)
qed

lemma timeouts_spec:
  assumes "tc_inv s" "watched (fst ` set xs) s" "timeout_tame react" "distinct (map fst xs)"
    and "\<And>k v n. (k, v, n) \<in> set xs \<Longrightarrow> trans_hash_map s k = Some v \<and> rtm_store (rsp_msg_mgr s) k = None"
  obtains s' where "timeouts now react xs s = Some s'" "tc_inv s'" "watched {} s'"
    "tc_calls s' = tc_calls s @ concat (map (\<lambda>(k, v, n). timeout_calls (sink_set s) k v) xs)" "sink_set s' = sink_set s"
    "\<forall>j u. j \<notin> fst ` set xs \<longrightarrow> trans_hash_map s j = Some u \<longrightarrow> trans_hash_map s' j = Some u"
  using assms(1,2,4,5)
proof (induction xs arbitrary: s thesis)
  case Nil
  show ?case by (rule Nil.prems(1)[of s]) (use Nil.prems(2,3) in simp_all)
next
  case (Cons x xs)
  obtain k v n where x: "x = (k, v, n)" by (cases x)
  have kv: "trans_hash_map s k = Some v" "rtm_store (rsp_msg_mgr s) k = None"
    using Cons.prems(5)[of k v n] by (simp_all add: x)
  obtain s1 where s1: "tc_on_timeout now react k s = Some s1" "tc_inv s1" "watched (fst ` set (x # xs) - {k}) s1"
    "tc_calls s1 = tc_calls s @ timeout_calls (sink_set s) k v" "sink_set s1 = sink_set s"
    "\<forall>j u. j \<noteq> k \<longrightarrow> trans_hash_map s j = Some u \<longrightarrow>
       trans_hash_map s1 j = Some u \<and> rtm_store (rsp_msg_mgr s1) j = rtm_store (rsp_msg_mgr s) j"
    by (rule tc_on_timeout_spec[OF Cons.prems(2,3) assms(3) kv, of now])
  have w: "watched (fst ` set xs) s1" using s1(3) by (rule watched_mono) (auto simp: x)
  have next': "trans_hash_map s1 k' = Some v' \<and> rtm_store (rsp_msg_mgr s1) k' = None" if "(k', v', n') \<in> set xs" for k' v' n'
  proof -
    have "k' \<noteq> k" using Cons.prems(4) that by (force simp: x)
    with Cons.prems(5)[of k' v' n'] that s1(6) show ?thesis by auto
  qed
  have d: "distinct (map fst xs)" using Cons.prems(4) by simp
  obtain s' where s': "timeouts now react xs s1 = Some s'" "tc_inv s'" "watched {} s'"
    "tc_calls s' = tc_calls s1 @ concat (map (\<lambda>(k, v, n). timeout_calls (sink_set s1) k v) xs)" "sink_set s' = sink_set s1"
    "\<forall>j u. j \<notin> fst ` set xs \<longrightarrow> trans_hash_map s1 j = Some u \<longrightarrow> trans_hash_map s' j = Some u"
    by (rule Cons.IH[OF _ s1(2) w d next'])
  show ?case
    by (rule Cons.prems(1)[of s']) (use s1 s' in \<open>simp_all add: x\<close>)
qed

text \<open>
  Sinks that cancel as they like. The check still leaves the tables consistent when it is over, unless the number of an
  expired transaction, cancelled by a sink, was given out again with a time limit before its own turn
  is over: \<open>RemoveTrans\<close> at the end of the turn would leave the record of the new one behind.
\<close>

definition tc_tell_timeout :: "time_t \<Rightarrow> tc_react \<Rightarrow> int \<Rightarrow> trans_center \<Rightarrow> trans_center option" where
  "tc_tell_timeout now react i s =
     Option.bind
       (case trans_hash_map s i of
          None \<Rightarrow> Some s
        | Some t \<Rightarrow>
            if tx_sink t \<noteq> 0 then callback now react (Sink_Timeout (tx_sink t) i (tx_peer t) (tx_data t)) s
            else Some s)
       (\<lambda>s1. tell_sinks now react i (sorted_list_of_set (sink_set s1)) s1)"

fun no_reuse :: "time_t \<Rightarrow> tc_react \<Rightarrow> (int \<times> trans_ctx \<times> int) list \<Rightarrow> trans_center \<Rightarrow> bool" where
  "no_reuse now react [] s = True"
| "no_reuse now react ((k, v, secs) # xs) s =
     (case tc_tell_timeout now react k s of
        None \<Rightarrow> True
      | Some s1 \<Rightarrow> \<not> record_exist (rsp_msg_mgr s1) k \<and> no_reuse now react xs (remove_trans k s1))"

lemma tc_on_timeout_tell: "tc_on_timeout now react i s = map_option (remove_trans i) (tc_tell_timeout now react i s)"
  by (simp add: tc_on_timeout_def tc_tell_timeout_def)

lemma tell_sinks_any:
  assumes "tc_inv s" "watched P s"
  shows "\<exists>s'. tell_sinks now react i ks s = Some s' \<and> tc_inv s' \<and> watched P s'"
  using assms
proof (induction ks arbitrary: s)
  case (Cons k ks)
  obtain s1 where "callback now react (Center_Timeout k i) s = Some s1" "tc_inv s1" "watched P s1"
    by (rule callback_inv[OF Cons.prems, of now react "Center_Timeout k i"])
  with Cons.IH[of s1] show ?case by simp
qed simp

lemma tc_tell_timeout_inv:
  assumes inv: "tc_inv s" "watched P s"
  obtains s1 where "tc_tell_timeout now react i s = Some s1" "tc_inv s1" "watched P s1"
proof -
  obtain s0 where "(case trans_hash_map s i of None \<Rightarrow> Some s
      | Some t \<Rightarrow> if tx_sink t \<noteq> 0 then callback now react (Sink_Timeout (tx_sink t) i (tx_peer t) (tx_data t)) s else Some s) = Some s0"
    "tc_inv s0" "watched P s0"
  proof (cases "trans_hash_map s i")
    case (Some t)
    then have sk: "tx_sink t \<noteq> 0" using inv(1) by (auto simp: tc_inv_def)
    obtain s0 where "callback now react (Sink_Timeout (tx_sink t) i (tx_peer t) (tx_data t)) s = Some s0" "tc_inv s0" "watched P s0"
      by (rule callback_inv[OF inv, of now react "Sink_Timeout (tx_sink t) i (tx_peer t) (tx_data t)"])
    with Some sk that show ?thesis by simp
  qed (use inv in simp)
  with tell_sinks_any[of s0 P now react i "sorted_list_of_set (sink_set s0)"] show ?thesis
    by (auto simp: tc_tell_timeout_def intro: that)
qed

lemma remove_trans_inv:
  assumes inv: "tc_inv s" "watched P s" and none: "\<not> record_exist (rsp_msg_mgr s) i"
  shows "tc_inv (remove_trans i s) \<and> watched (P - {i}) (remove_trans i s)"
proof (cases "trans_hash_map s i")
  case None
  with inv show ?thesis by (auto simp: remove_trans_def watched_def)
next
  case (Some t)
  with remove_trans_eq[OF Some none] tc_inv_ended[OF inv(1) Some] watched_ended[OF inv(2)] show ?thesis by simp
qed

lemma timeouts_inv:
  assumes "tc_inv s" "watched P s" "no_reuse now react xs s" "timeouts now react xs s = Some s'"
  shows "tc_inv s' \<and> watched (P - fst ` set xs) s'"
  using assms
proof (induction xs arbitrary: s P)
  case (Cons x xs)
  obtain k v n where x: "x = (k, v, n)" by (cases x)
  obtain s1 where s1: "tc_tell_timeout now react k s = Some s1" "tc_inv s1" "watched P s1"
    by (rule tc_tell_timeout_inv[OF Cons.prems(1,2)])
  from Cons.prems(3) s1(1) have ok: "\<not> record_exist (rsp_msg_mgr s1) k" "no_reuse now react xs (remove_trans k s1)"
    by (simp_all add: x)
  have run: "timeouts now react xs (remove_trans k s1) = Some s'"
    using Cons.prems(4) s1(1) by (simp add: x tc_on_timeout_tell)
  note r = remove_trans_inv[OF s1(2,3) ok(1)]
  have "P - {k} - fst ` set xs = P - fst ` set (x # xs)" by (auto simp: x)
  with Cons.IH[OF conjunct1[OF r] conjunct2[OF r] ok(2) run] show ?case by simp
qed simp

lemma tc_tell_timeout_fresh:
  assumes inv: "tc_inv s" "watched P s" and tame: "timeout_tame react"
    and t: "trans_hash_map s i = Some t" "rtm_store (rsp_msg_mgr s) i = None" and tell: "tc_tell_timeout now react i s = Some s2"
  shows "\<not> record_exist (rsp_msg_mgr s2) i"
proof -
  have "tx_sink t \<noteq> 0" using inv(1) t(1) by (auto simp: tc_inv_def)
  let ?c = "Sink_Timeout (tx_sink t) i (tx_peer t) (tx_data t)"
  obtain s1 where s1: "callback now react ?c s = Some s1" "tc_inv s1" "watched P s1" "grows s s1"
    by (rule callback_inv[OF inv, of now react ?c]) (use tame in \<open>auto simp: timeout_tame_def\<close>)
  obtain s3 where s3: "tell_sinks now react i (sorted_list_of_set (sink_set s1)) s1 = Some s3" "grows s1 s3"
    by (rule tell_sinks_inv[OF s1(2,3), where react = react and i = i and now = now and ks = "sorted_list_of_set (sink_set s1)"])
      (use tame in \<open>auto simp: timeout_tame_def\<close>)
  have "s3 = s2" using tell s1(1) s3(1) t(1) \<open>tx_sink t \<noteq> 0\<close> by (simp add: tc_tell_timeout_def)
  with grows_trans[OF s1(4) s3(2)] t show ?thesis by (simp add: grows_def record_exist_store)
qed

lemma tame_no_reuse:
  assumes "tc_inv s" "watched P s" "timeout_tame react" "distinct (map fst xs)"
    and "\<And>k v n. (k, v, n) \<in> set xs \<Longrightarrow> trans_hash_map s k = Some v \<and> rtm_store (rsp_msg_mgr s) k = None"
  shows "no_reuse now react xs s"
  using assms(1,2,4,5)
proof (induction xs arbitrary: s P)
  case (Cons x xs)
  obtain k v n where x: "x = (k, v, n)" by (cases x)
  have kv: "trans_hash_map s k = Some v" "rtm_store (rsp_msg_mgr s) k = None"
    using Cons.prems(4)[of k v n] by (simp_all add: x)
  obtain s2 where s2: "tc_on_timeout now react k s = Some s2" "tc_inv s2" "watched (P - {k}) s2"
    "\<forall>j u. j \<noteq> k \<longrightarrow> trans_hash_map s j = Some u \<longrightarrow>
       trans_hash_map s2 j = Some u \<and> rtm_store (rsp_msg_mgr s2) j = rtm_store (rsp_msg_mgr s) j"
    by (rule tc_on_timeout_spec[OF Cons.prems(1,2) assms(3) kv, of now])
  obtain s1 where s1: "tc_tell_timeout now react k s = Some s1" "s2 = remove_trans k s1"
    using s2(1) by (auto simp: tc_on_timeout_tell)
  have "\<not> record_exist (rsp_msg_mgr s1) k"
    using tc_tell_timeout_fresh[OF Cons.prems(1,2) assms(3) kv s1(1)] .
  moreover have "no_reuse now react xs s2"
  proof (rule Cons.IH[OF s2(2,3)])
    show "distinct (map fst xs)" using Cons.prems(3) by simp
    show "trans_hash_map s2 k' = Some v' \<and> rtm_store (rsp_msg_mgr s2) k' = None" if "(k', v', n') \<in> set xs" for k' v' n'
    proof -
      have "k' \<noteq> k" using Cons.prems(3) that by (force simp: x)
      with Cons.prems(4)[of k' v' n'] that s2(4) show ?thesis by auto
    qed
  qed
  ultimately show ?case using s1 by (simp add: x)
qed simp

text \<open>The expiry check: the due transactions, each of them once.\<close>

definition due_at :: "time_t \<Rightarrow> trans_center \<Rightarrow> int \<Rightarrow> bool" where
  "due_at now s i \<longleftrightarrow> (\<exists>v n dl. rtm_store (rsp_msg_mgr s) i = Some (v, n, dl) \<and> dl \<le> now)"

lemma expired_split:
  assumes inv: "tc_inv s" "watched {} s" and ord: "hash_order ord"
    and t: "rtm_on_timer ord now (rsp_msg_mgr s) = Some (recs, xs)"
  shows "tc_inv (s\<lparr>rsp_msg_mgr := recs\<rparr>)" "watched (fst ` set xs) (s\<lparr>rsp_msg_mgr := recs\<rparr>)" "distinct (map fst xs)"
    "\<And>k v n. (k, v, n) \<in> set xs \<Longrightarrow> trans_hash_map s k = Some v \<and> rtm_store recs k = None"
    "fst ` set xs = {i. due_at now s i}"
proof -
  from inv have core: "tc_core s" by (simp add: tc_inv_def)
  have io: "rtm_inv (rsp_msg_mgr s) \<and> hash_order ord" using core ord by (simp add: tc_core_def)
  note st = rt.store_expire[OF io t] and mem = rt.expired_mem[OF io t]
  let ?s = "s\<lparr>rsp_msg_mgr := recs\<rparr>"
  have keep: "rtm_store (rsp_msg_mgr s) j = Some r" if "rtm_store recs j = Some r" for j r
    using that by (auto simp: st split: option.splits if_splits)
  have "tc_core ?s" using core rt.inv_expire[OF io t] record_trans[OF core keep] unfolding tc_core_def by (simp add: peer_ids_def)
  then show "tc_inv ?s" using inv(1) by (simp add: tc_inv_def)
  show due: "fst ` set xs = {i. due_at now s i}" using mem by (force simp: due_at_def)
  have same: "rtm_store recs i = rtm_store (rsp_msg_mgr s) i" if "i \<notin> fst ` set xs" for i
    using that unfolding due due_at_def by (auto simp: st split: option.splits)
  then show "watched (fst ` set xs) ?s" using inv(2) unfolding watched_def by simp
  show "trans_hash_map s k = Some v \<and> rtm_store recs k = None" if "(k, v, n) \<in> set xs" for k v n
    using that record_trans[OF core, of k] unfolding mem by (auto simp: st)
  show "distinct (map fst xs)" by (rule rt.expired_distinct[OF io t])
qed

lemma rsp_check_spec:
  assumes inv: "tc_inv s" "watched {} s" and tame: "timeout_tame react" and ord: "hash_order ord"
  obtains s' ids where "rsp_check now react ord s = Some s'" "tc_inv s'" "watched {} s'"
    "distinct ids" "set ids = {i. due_at now s i}"
    "tc_calls s' = tc_calls s @ concat (map (\<lambda>i. timeout_calls (sink_set s) i (the (trans_hash_map s i))) ids)"
    "\<forall>j u. \<not> due_at now s j \<longrightarrow> trans_hash_map s j = Some u \<longrightarrow> trans_hash_map s' j = Some u" "sink_set s' = sink_set s"
proof -
  from inv have io: "rtm_inv (rsp_msg_mgr s) \<and> hash_order ord" using ord by (simp add: tc_inv_def tc_core_def)
  from rt.expire_returns[OF io, of now] obtain recs xs where t: "rtm_on_timer ord now (rsp_msg_mgr s) = Some (recs, xs)"
    by blast
  note x = expired_split[OF inv ord t]
  let ?s = "s\<lparr>rsp_msg_mgr := recs\<rparr>"
  have pre: "trans_hash_map ?s k = Some v \<and> rtm_store (rsp_msg_mgr ?s) k = None" if "(k, v, n) \<in> set xs" for k v n
    using x(4)[OF that] by simp
  obtain s' where s': "timeouts now react xs ?s = Some s'" "tc_inv s'" "watched {} s'"
    "tc_calls s' = tc_calls ?s @ concat (map (\<lambda>(k, v, n). timeout_calls (sink_set ?s) k v) xs)" "sink_set s' = sink_set ?s"
    "\<forall>j u. j \<notin> fst ` set xs \<longrightarrow> trans_hash_map ?s j = Some u \<longrightarrow> trans_hash_map s' j = Some u"
    by (rule timeouts_spec[OF x(1,2) tame x(3) pre])
  have "map (\<lambda>(k, v, n). timeout_calls (sink_set s) k v) xs =
      map (\<lambda>i. timeout_calls (sink_set s) i (the (trans_hash_map s i))) (map fst xs)"
    using pre by (auto simp: comp_def intro!: map_cong)
  with s' t x(3,5) show ?thesis by (intro that[of s' "map fst xs"]) (simp_all add: rsp_check_def)
qed

subsection \<open>Peers that connect or close\<close>

lemma peer_turn_inv:
  assumes inv: "tc_inv s" "watched P s"
  obtains s1 where "(case trans_hash_map s i of None \<Rightarrow> Some s
      | Some t \<Rightarrow> if tx_sink t \<noteq> 0 then callback now react (mk (tx_sink t) i q (tx_data t)) s else Some s) = Some s1"
    "tc_inv s1" "watched P s1" "sink_set s1 = sink_set s"
proof (cases "trans_hash_map s i")
  case None
  with inv that show ?thesis by simp
next
  case (Some t)
  show ?thesis
  proof (cases "tx_sink t = 0")
    case True
    with Some inv that show ?thesis by simp
  next
    case False
    obtain s1 where "callback now react (mk (tx_sink t) i q (tx_data t)) s = Some s1" "tc_inv s1" "watched P s1"
      "sink_set s1 = sink_set s"
      by (rule callback_inv[OF inv, of now react "mk (tx_sink t) i q (tx_data t)"])
    with Some False that show ?thesis by simp
  qed
qed

lemma peer_loop_inv:
  "peer_loop now react mk q i s = Some r \<Longrightarrow>
     \<forall>s'. r = Inr s' \<longrightarrow> tc_inv s \<longrightarrow> watched P s \<longrightarrow> tc_inv s' \<and> watched P s' \<and> sink_set s' = sink_set s"
proof (induction rule: peer_loop.raw_induct[rotated, consumes 1])
  case (1 loop now react mk q i s r)
  show ?case
  proof (intro allI impI)
    fix s' assume r: "r = Inr s'" and inv: "tc_inv s" "watched P s"
    obtain s1 where s1: "(case trans_hash_map s i of None \<Rightarrow> Some s
        | Some t \<Rightarrow> if tx_sink t \<noteq> 0 then callback now react (mk (tx_sink t) i q (tx_data t)) s else Some s) = Some s1"
      "tc_inv s1" "watched P s1" "sink_set s1 = sink_set s" by (rule peer_turn_inv[OF inv])
    from 1(2) have body: "(if i \<notin> peer_ids s1 q then Some (Inl i)
        else (case next_id (peer_ids s1 q) i of None \<Rightarrow> Some (Inr s1) | Some j \<Rightarrow> loop now react mk q j s1)) = Some r"
      unfolding s1(1) bind.simps .
    then have i: "i \<in> peer_ids s1 q" using r by (auto split: if_splits)
    show "tc_inv s' \<and> watched P s' \<and> sink_set s' = sink_set s"
    proof (cases "next_id (peer_ids s1 q) i")
      case None
      with body i r s1 show ?thesis by simp
    next
      case (Some j)
      with body i have "loop now react mk q j s1 = Some r" by simp
      from 1(1)[OF this] r s1(2-4) show ?thesis by simp
    qed
  qed
qed

lemma peer_event_inv:
  assumes "peer_event now react mk q s = Some (Inr s')" "tc_inv s" "watched P s"
  shows "tc_inv s' \<and> watched P s' \<and> sink_set s' = sink_set s"
  using assms peer_loop_inv[of now react mk q _ s "Inr s'" P]
  by (auto simp: peer_event_def split: option.splits if_splits)

lemma peer_ids_finite: "tc_inv s \<Longrightarrow> finite (peer_ids s q)"
proof -
  assume "tc_inv s"
  then have "finite (dom (trans_hash_map s))" "peer_ids s q \<subseteq> dom (trans_hash_map s)"
    using seq_inv_finite[of 1 I32_SEQ_MAX "trans_id_seq s"] by (auto simp: tc_inv_def tc_core_def)
  then show ?thesis by (rule finite_subset[rotated])
qed

lemma sorted_list_from:
  assumes "finite A" "i \<in> A"
  shows "sorted_list_of_set {j \<in> A. i \<le> j} = i # sorted_list_of_set {j \<in> A. (i :: int) < j}"
proof -
  let ?B = "{j \<in> A. i \<le> j}"
  have "?B \<noteq> {}" "finite ?B" "Min ?B = i" using assms by (auto intro: Min_eqI)
  moreover from this have "?B - {Min ?B} = {j \<in> A. i < j}" by auto
  ultimately show ?thesis using sorted_list_of_set_nonempty[of ?B] by simp
qed

text \<open>With sinks that ask for nothing, every transaction of the peer is told once, in ascending order.\<close>

definition peer_calls :: "(ptr \<Rightarrow> int \<Rightarrow> peer \<Rightarrow> async_data \<Rightarrow> tc_call) \<Rightarrow> peer \<Rightarrow> trans_center \<Rightarrow> int set \<Rightarrow> tc_call list" where
  "peer_calls mk q s ids =
     map (\<lambda>i. mk (tx_sink (the (trans_hash_map s i))) i q (tx_data (the (trans_hash_map s i)))) (sorted_list_of_set ids)"

lemma peer_loop_quiet:
  assumes "tc_inv s" "\<And>c. react c = []" "i \<in> peer_ids s q"
  shows "peer_loop now react mk q i s =
    Some (Inr (s\<lparr>tc_calls := tc_calls s @ peer_calls mk q s {j \<in> peer_ids s q. i \<le> j}\<rparr>))"
  using assms(1,3)
proof (induction "card {j \<in> peer_ids s q. i < j}" arbitrary: s i rule: less_induct)
  case less
  note inv = less.prems(1) and i = less.prems(2)
  obtain t where t: "trans_hash_map s i = Some t" "tx_peer t = q" using i inv by (auto simp: tc_inv_def tc_core_def)
  then have sk: "tx_sink t \<noteq> 0" using inv by (auto simp: tc_inv_def)
  let ?c = "mk (tx_sink t) i q (tx_data t)"
  let ?s = "s\<lparr>tc_calls := tc_calls s @ [?c]\<rparr>"
  let ?later = "{j \<in> peer_ids s q. i < j}"
  have ids: "peer_ids ?s q = peer_ids s q" by (simp add: peer_ids_def)
  have fin: "finite (peer_ids s q)" by (rule peer_ids_finite[OF inv])
  have calls: "peer_calls mk q s {j \<in> peer_ids s q. i \<le> j} = ?c # peer_calls mk q s ?later"
    using t by (simp add: peer_calls_def sorted_list_from[OF fin i])
  have step: "peer_loop now react mk q i s = (case next_id (peer_ids s q) i of
      None \<Rightarrow> Some (Inr ?s) | Some j \<Rightarrow> peer_loop now react mk q j ?s)"
    using t sk i by (simp add: peer_loop.simps[of now react mk q i s] callback_def assms(2) ids)
  show ?case
  proof (cases "?later = {}")
    case True
    then have "next_id (peer_ids s q) i = None" by (simp add: next_id_def)
    with step calls True show ?thesis by (simp add: peer_calls_def)
  next
    case False
    let ?j = "Min ?later"
    have j: "?j \<in> ?later" using False fin by (intro Min_in) auto
    have nj: "next_id (peer_ids s q) i = Some ?j" using False by (simp add: next_id_def)
    have "{k \<in> peer_ids s q. ?j < k} \<subset> ?later" using j by auto
    then have "card {k \<in> peer_ids ?s q. ?j < k} < card ?later" using fin unfolding ids by (intro psubset_card_mono) auto
    moreover have "?j \<in> peer_ids ?s q" "tc_inv ?s" using j inv unfolding ids by simp_all
    ultimately have "peer_loop now react mk q ?j ?s =
        Some (Inr (?s\<lparr>tc_calls := tc_calls ?s @ peer_calls mk q ?s {k \<in> peer_ids ?s q. ?j \<le> k}\<rparr>))"
      by (intro less.hyps)
    moreover have "{k \<in> peer_ids s q. ?j \<le> k} = ?later" using j fin by auto
    ultimately show ?thesis using step nj calls unfolding ids by (simp add: peer_calls_def)
  qed
qed

lemma peer_event_quiet:
  assumes "tc_inv s" "\<And>c. react c = []"
  shows "peer_event now react mk q s = Some (Inr (s\<lparr>tc_calls := tc_calls s @ peer_calls mk q s (peer_ids s q)\<rparr>))"
proof (cases "peer_ids s q = {}")
  case True
  then show ?thesis by (auto simp: peer_event_def peer_ids_def peer_calls_def split: option.splits)
next
  case False
  have fin: "finite (peer_ids s q)" by (rule peer_ids_finite[OF assms(1)])
  have m: "peer_trans_id_map s q = Some (peer_ids s q)" using False by (auto simp: peer_ids_def split: option.splits)
  have "{j \<in> peer_ids s q. Min (peer_ids s q) \<le> j} = peer_ids s q" using fin by auto
  with peer_loop_quiet[where react = react, OF assms(1,2) Min_in[OF fin False]] m False show ?thesis
    by (simp add: peer_event_def)
qed

text \<open>A sink that cancels its own transaction when told leaves the loop on an erased element.\<close>

lemma peer_event_cancel:
  assumes inv: "tc_inv s" and ne: "peer_ids s q \<noteq> {}"
    and react: "\<And>sk i d. react (mk sk i q d) = [Op_Cancel i]"
  shows "peer_event now react mk q s = Some (Inl (Min (peer_ids s q)))"
proof -
  let ?i = "Min (peer_ids s q)"
  have m: "peer_trans_id_map s q = Some (peer_ids s q)" using ne by (auto simp: peer_ids_def split: option.splits)
  have i: "?i \<in> peer_ids s q" by (rule Min_in[OF peer_ids_finite[OF inv] ne])
  then obtain t where t: "trans_hash_map s ?i = Some t" "tx_peer t = q" using inv by (auto simp: tc_inv_def tc_core_def)
  then have sk: "tx_sink t \<noteq> 0" using inv by (auto simp: tc_inv_def)
  let ?s = "s\<lparr>tc_calls := tc_calls s @ [mk (tx_sink t) ?i q (tx_data t)]\<rparr>"
  have "trans_hash_map ?s ?i = Some t" using t by simp
  from cancel_trans_eq[OF this] have "?i \<notin> peer_ids (cancel_trans ?i ?s) q" using t(2) by simp
  with m ne t sk react show ?thesis
    by (simp add: peer_event_def peer_loop.simps[of now react mk q ?i s] callback_def)
qed

subsection \<open>Reachable states\<close>

inductive tc_reach :: "trans_center \<Rightarrow> bool" where
  tc_start: "tc_reach tc_init"
| tc_add: "tc_reach s \<Longrightarrow> tc_reach (snd (add_sink sk s))"
| tc_remove: "tc_reach s \<Longrightarrow> tc_reach (remove_sink sk s)"
| tc_record: "tc_reach s \<Longrightarrow> record_trans_ctx now ctx s = Some (i, s') \<Longrightarrow> tc_reach s'"
| tc_cancel: "tc_reach s \<Longrightarrow> tc_reach (cancel_trans i s)"
| tc_rsp: "tc_reach s \<Longrightarrow> on_recv_rsp now react i head body s = Some s' \<Longrightarrow> tc_reach s'"
| tc_connected: "tc_reach s \<Longrightarrow> on_connected now react q s = Some (Inr s') \<Longrightarrow> tc_reach s'"
| tc_closed: "tc_reach s \<Longrightarrow> on_closed now react q s = Some (Inr s') \<Longrightarrow> tc_reach s'"
| tc_check_any: "tc_reach s \<Longrightarrow> hash_order ord \<Longrightarrow> rtm_on_timer ord now (rsp_msg_mgr s) = Some (recs, xs) \<Longrightarrow>
     no_reuse now react xs (s\<lparr>rsp_msg_mgr := recs\<rparr>) \<Longrightarrow> rsp_check now react ord s = Some s' \<Longrightarrow> tc_reach s'"

lemma tc_inv_sinks: "tc_inv (s\<lparr>sink_set := x\<rparr>) = tc_inv s" "watched P (s\<lparr>sink_set := x\<rparr>) = watched P s"
  by (simp_all add: tc_inv_def tc_core_def watched_def peer_ids_def)

lemma tc_reach_inv: "tc_reach s \<Longrightarrow> tc_inv s \<and> watched {} s"
proof (induction rule: tc_reach.induct)
  case (tc_record s now ctx i s')
  then have inv: "tc_inv s" "watched {} s" by simp_all
  show ?case
  proof (cases ctx)
    case None
    with tc_record show ?thesis by (simp add: record_trans_ctx_def)
  next
    case (Some c)
    show ?thesis
      by (rule record_trans_inv[OF inv, of now c]) (use tc_record.hyps(2) Some in simp)
  qed
next
  case (tc_rsp s now react i head body s')
  then have inv: "tc_inv s" "watched {} s" by simp_all
  show ?case
    by (rule on_recv_rsp_spec[OF inv, of now react i head body]) (use tc_rsp.hyps(2) in simp)
next
  case (tc_check_any s ord now recs xs react s')
  then have inv: "tc_inv s" "watched {} s" by simp_all
  have "timeouts now react xs (s\<lparr>rsp_msg_mgr := recs\<rparr>) = Some s'"
    using tc_check_any.hyps(3,5) by (simp add: rsp_check_def)
  from timeouts_inv[OF expired_split(1,2)[OF inv tc_check_any.hyps(2,3)] tc_check_any.hyps(4) this] show ?case by simp
next
  case (tc_connected s now react q s')
  then show ?case using peer_event_inv[of now react Sink_Connected q s s' "{}"] by (simp add: on_connected_def)
next
  case (tc_closed s now react q s')
  then show ?case using peer_event_inv[of now react Sink_Closed q s s' "{}"] by (simp add: on_closed_def)
qed (auto simp: tc_inv_init add_sink_def remove_sink_def tc_inv_sinks cancel_trans_inv watched_cancel)

lemma tc_check:
  assumes "tc_reach s" "timeout_tame react" "hash_order ord" "rsp_check now react ord s = Some s'"
  shows "tc_reach s'"
proof -
  from tc_reach_inv[OF assms(1)] have inv: "tc_inv s" "watched {} s" by simp_all
  obtain recs xs where t: "rtm_on_timer ord now (rsp_msg_mgr s) = Some (recs, xs)"
    using assms(4) by (auto simp: rsp_check_def bind_eq_Some_conv)
  note x = expired_split[OF inv assms(3) t]
  have "no_reuse now react xs (s\<lparr>rsp_msg_mgr := recs\<rparr>)"
    by (rule tame_no_reuse[OF x(1,2) assms(2) x(3)]) (use x(4) in simp)
  from tc_check_any[OF assms(1,3) t this assms(4)] show ?thesis .
qed

subsection \<open>Properties\<close>

text \<open>
  Claim C15: the tables of the transaction center agree in every state between operations that it can get into,
  whatever the sinks record and cancel from inside their callbacks, with two exceptions: a notice of a peer in which a
  sink cancels the transaction being told (undefined in the code), and an expiry check in which the
  number of an expired transaction is cancelled and given out again with a time limit before its turn is over. The ids in
  use are exactly those of the open transactions, every one of them is filed under its peer and
  under no other, every one with a time limit is watched with that limit, and nothing is
  watched that is not open.
\<close>

theorem trans_tables_consistent:
  assumes "tc_reach s"
  shows "inuse_seqs (trans_id_seq s) = dom (trans_hash_map s) \<and> dom (trans_hash_map s) \<subseteq> {1..I32_SEQ_MAX} \<and>
    (\<forall>q i. i \<in> peer_ids s q \<longleftrightarrow> (\<exists>t. get_trans_ctx i s = Some t \<and> tx_peer t = q)) \<and>
    (\<forall>i t. get_trans_ctx i s = Some t \<longrightarrow> tx_sink t \<noteq> 0 \<and>
       (0 < tx_timeout_sec t \<longrightarrow> get_record (rsp_msg_mgr s) i = Some (t, tx_timeout_sec t))) \<and>
    (\<forall>i. record_exist (rsp_msg_mgr s) i \<longrightarrow> get_trans_ctx i s \<noteq> None)"
proof -
  from tc_reach_inv[OF assms] have core: "tc_core s" and inv: "tc_inv s" and w: "watched {} s"
    by (simp_all add: tc_inv_def)
  have live: "inuse_seqs (trans_id_seq s) = dom (trans_hash_map s)" "seq_inv 1 I32_SEQ_MAX (trans_id_seq s)"
    using core by (simp_all add: tc_core_def)
  have "dom (trans_hash_map s) \<subseteq> {1..I32_SEQ_MAX}"
    using sq.live_in_pool[OF live(2)] live(1) by simp
  moreover have "get_record (rsp_msg_mgr s) i = Some (t, tx_timeout_sec t)"
    if "trans_hash_map s i = Some t" "0 < tx_timeout_sec t" for i t
    using w that by (auto simp: watched_def get_record_store)
  moreover have "trans_hash_map s i \<noteq> None" if "record_exist (rsp_msg_mgr s) i" for i
    using that record_trans[OF core, of i] by (auto simp: record_exist_store)
  ultimately show ?thesis
    using live core inv unfolding get_trans_ctx_def tc_core_def tc_inv_def by blast
qed

text \<open>One open transaction: id 1, five seconds from time 50.\<close>

definition test_ctx :: trans_ctx where
  "test_ctx = \<lparr>tx_peer = Peer PEER_TYPE_HTTP ''h'' 80, tx_timeout_sec = 5, tx_passback = 0, tx_sink = 3, tx_data = Block [1]\<rparr>"

definition test_tc :: trans_center where
  "test_tc = \<lparr>sink_set = {}, trans_id_seq = \<lparr>total_count = 0x7fffffff, cursor = 1, inuse_seqs = {1}\<rparr>,
     trans_hash_map = [1 \<mapsto> test_ctx], peer_trans_id_map = [tx_peer test_ctx \<mapsto> {1}],
     rsp_msg_mgr = upsert_record 50 1 test_ctx 5 rtm_init, tc_calls = []\<rparr>"

lemma test_tc_eq:
  "record_trans_ctx 50 (Some test_ctx) tc_init = Some (1, test_tc)"
  "trans_hash_map test_tc = [1 \<mapsto> test_ctx]" "peer_ids test_tc (Peer PEER_TYPE_HTTP ''h'' 80) = {1}"
  "rtm_store (rsp_msg_mgr test_tc) = [1 \<mapsto> (test_ctx, 5, 55)]" "tc_calls test_tc = []" "sink_set test_tc = {}"
proof -
  have seq: "seq_alloc 1 I32_SEQ_MAX (seq_reset 1 I32_SEQ_MAX) =
     Some (1, \<lparr>total_count = 0x7fffffff, cursor = 1, inuse_seqs = {1}\<rparr>)"
    by (simp add: seq_alloc_def seq_reset_def alloc_loop.simps seq_next_def Let_def)
  show "record_trans_ctx 50 (Some test_ctx) tc_init = Some (1, test_tc)"
    by (simp add: test_tc_def record_trans_ctx_def tc_init_def seq Let_def test_ctx_def trans_create_def peer_ids_def)
qed (simp_all add: test_tc_def peer_ids_def rtm_store_upsert test_ctx_def)

lemma test_tc_reach: "tc_reach test_tc"
  by (rule tc_record[OF tc_start test_tc_eq(1)])

theorem trans_tables_consistent_witness:
  "get_trans_ctx 1 test_tc = Some test_ctx \<and> get_record (rsp_msg_mgr test_tc) 1 = Some (test_ctx, 5) \<and>
   1 \<in> inuse_seqs (trans_id_seq test_tc)"
proof -
  have "get_trans_ctx 1 test_tc = Some test_ctx" "1 \<in> dom (trans_hash_map test_tc)" "tx_timeout_sec test_ctx = 5"
    by (simp_all add: get_trans_ctx_def test_tc_eq test_ctx_def)
  with trans_tables_consistent[OF test_tc_reach] show ?thesis by (metis zero_less_numeral)
qed

text \<open>
  RecordTransCtx either finds every id taken, returns the invalid id and changes nothing,
  or returns a fresh valid id. With a sink the transaction is open under it from then on, as a
  copy of the context, while all others stay as they were; without one nothing is kept. The
  copy has the caller's block of data, but an object pointer (length 0) is not kept.
\<close>

theorem record_trans_correct:
  assumes "tc_reach s"
  shows "\<exists>i s'. record_trans_ctx now (Some ctx) s = Some (i, s') \<and>
    (i = INVALID_SEQ_NUM \<longleftrightarrow> dom (trans_hash_map s) = {1..I32_SEQ_MAX}) \<and>
    (i = INVALID_SEQ_NUM \<longrightarrow> s' = s) \<and>
    (i \<noteq> INVALID_SEQ_NUM \<longrightarrow> get_trans_ctx i s = None \<and>
       (\<forall>j. get_trans_ctx j s' = (if j = i \<and> tx_sink ctx \<noteq> 0 then Some (trans_create ctx) else get_trans_ctx j s))) \<and>
    tx_data (trans_create ctx) = (case tx_data ctx of
       Block b \<Rightarrow> if tx_sink ctx \<noteq> 0 \<and> b \<noteq> [] then Block b else No_Data | _ \<Rightarrow> No_Data)"
proof -
  from tc_reach_inv[OF assms] have inv: "tc_inv s" by simp
  have data: "tx_data (trans_create ctx) = (case tx_data ctx of
       Block b \<Rightarrow> if tx_sink ctx \<noteq> 0 \<and> b \<noteq> [] then Block b else No_Data | _ \<Rightarrow> No_Data)"
    by (auto simp: trans_create_def Let_def Suc_le_eq split: async_data.splits)
  from inv show ?thesis
  proof (cases rule: record_trans_cases[where now = now and ctx = ctx])
    case full
    with data show ?thesis by simp
  next
    case (recorded i seq')
    have "i \<in> {1..I32_SEQ_MAX}" "i \<notin> dom (trans_hash_map s)" using recorded by auto
    then have "dom (trans_hash_map s) \<noteq> {1..I32_SEQ_MAX}" by blast
    moreover have "trans_hash_map (ended i (trans_create ctx) (entered now i seq' ctx s)) = trans_hash_map s"
      using recorded(3) by auto
    ultimately show ?thesis
      using recorded data by (auto simp: get_trans_ctx_def simp del: ended_simps(1))
  qed
qed

theorem record_trans_correct_witness:
  "\<exists>i s'. record_trans_ctx 51 (Some test_ctx) test_tc = Some (i, s') \<and> i \<noteq> INVALID_SEQ_NUM \<and>
     get_trans_ctx i s' = Some test_ctx"
proof -
  have "dom (trans_hash_map test_tc) \<noteq> {1..I32_SEQ_MAX}"
  proof
    assume "dom (trans_hash_map test_tc) = {1..I32_SEQ_MAX}"
    then have "(2 :: int) \<in> dom (trans_hash_map test_tc)" by simp
    then show False by (simp add: test_tc_eq)
  qed
  moreover have "trans_create test_ctx = test_ctx" "tx_sink test_ctx \<noteq> 0"
    by (simp_all add: trans_create_def test_ctx_def)
  moreover obtain i s' where "record_trans_ctx 51 (Some test_ctx) test_tc = Some (i, s')"
    "i = INVALID_SEQ_NUM \<longleftrightarrow> dom (trans_hash_map test_tc) = {1..I32_SEQ_MAX}"
    "i \<noteq> INVALID_SEQ_NUM \<longrightarrow> get_trans_ctx i test_tc = None \<and>
       (\<forall>j. get_trans_ctx j s' = (if j = i \<and> tx_sink test_ctx \<noteq> 0 then Some (trans_create test_ctx) else get_trans_ctx j test_tc))"
    using record_trans_correct[OF test_tc_reach, of 51 test_ctx] by blast
  ultimately show ?thesis by (intro exI[of _ i] exI[of _ s']) simp
qed

text \<open>
  Claim C16: a response reaches the sink of its transaction exactly once. Whatever the sink does
  from inside the callback, the call returns, the transaction is over afterwards, in all tables,
  and a second response with the same id, or one with an unknown id, reaches nobody and changes
  nothing.
\<close>

theorem response_exactly_once:
  assumes "tc_reach s"
  shows "\<exists>s'. on_recv_rsp now react i head body s = Some s' \<and> tc_reach s' \<and>
    tc_calls s' = tc_calls s @ (case get_trans_ctx i s of None \<Rightarrow> []
       | Some t \<Rightarrow> [Sink_Rsp (tx_sink t) i (tx_peer t) head body (tx_data t)]) \<and>
    get_trans_ctx i s' = None \<and> \<not> record_exist (rsp_msg_mgr s') i \<and> (\<forall>q. i \<notin> peer_ids s' q) \<and>
    on_recv_rsp now' react' i head' body' s' = Some s'"
proof -
  from tc_reach_inv[OF assms] have inv: "tc_inv s" "watched {} s" by simp_all
  obtain s' where s': "on_recv_rsp now react i head body s = Some s'" "tc_inv s'" "trans_hash_map s' i = None"
    "tc_calls s' = tc_calls s @ (case trans_hash_map s i of None \<Rightarrow> []
       | Some t \<Rightarrow> [Sink_Rsp (tx_sink t) i (tx_peer t) head body (tx_data t)])"
    by (rule on_recv_rsp_spec[OF inv, of now react i head body])
  from s'(2) have core: "tc_core s'" by (simp add: tc_inv_def)
  have "\<not> record_exist (rsp_msg_mgr s') i" using no_record[OF core s'(3)] by (simp add: record_exist_store)
  moreover have "i \<notin> peer_ids s' q" for q using core s'(3) by (simp add: tc_core_def)
  moreover have "on_recv_rsp now' react' i head' body' s' = Some s'"
    using s'(3) by (simp add: on_recv_rsp_def cancel_trans_def)
  ultimately show ?thesis using s' tc_rsp[OF assms s'(1)] by (simp add: get_trans_ctx_def)
qed

theorem response_exactly_once_witness:
  "\<exists>s'. on_recv_rsp 52 (\<lambda>_. [Op_Cancel 1, Op_Record test_ctx]) 1 \<lparr>passback = 0, msg_id = 0\<rparr> [] test_tc = Some s' \<and>
     tc_calls s' = [Sink_Rsp 3 1 (Peer PEER_TYPE_HTTP ''h'' 80) \<lparr>passback = 0, msg_id = 0\<rparr> [] (Block [1])] \<and>
     get_trans_ctx 1 s' = None"
proof -
  have "get_trans_ctx 1 test_tc = Some test_ctx" by (simp add: get_trans_ctx_def test_tc_eq)
  with response_exactly_once[OF test_tc_reach, of 52 "\<lambda>_. [Op_Cancel 1, Op_Record test_ctx]" 1
      "\<lparr>passback = 0, msg_id = 0\<rparr>" "[]" 0 "\<lambda>_. []" "\<lparr>passback = 0, msg_id = 0\<rparr>" "[]"]
  show ?thesis by (auto simp: test_tc_eq test_ctx_def)
qed

text \<open>
  Claim C19: no transaction waits for ever. When the sinks cancel no transaction in their timeout
  callbacks, the expiry check returns and tells the sinks, in some
  order, of exactly the transactions whose deadline has passed, each of them once, first its own
  sink and then every sink of the center; the other transactions stay open. Sinks may start
  new transactions from inside the callbacks.
\<close>

theorem timeouts_exact:
  assumes "tc_reach s" "timeout_tame react" "hash_order ord"
  shows "\<exists>s' ids. rsp_check now react ord s = Some s' \<and> tc_reach s' \<and> distinct ids \<and>
    set ids = {i. \<exists>t. get_trans_ctx i s = Some t \<and> due_at now s i} \<and>
    tc_calls s' = tc_calls s @ concat (map (\<lambda>i. timeout_calls (sink_set s) i (the (get_trans_ctx i s))) ids) \<and>
    (\<forall>j u. get_trans_ctx j s = Some u \<longrightarrow> j \<notin> set ids \<longrightarrow> get_trans_ctx j s' = Some u)"
proof -
  from tc_reach_inv[OF assms(1)] have inv: "tc_inv s" "watched {} s" by simp_all
  then have core: "tc_core s" by (simp add: tc_inv_def)
  obtain s' ids where s': "rsp_check now react ord s = Some s'" "distinct ids" "set ids = {i. due_at now s i}"
    "tc_calls s' = tc_calls s @ concat (map (\<lambda>i. timeout_calls (sink_set s) i (the (trans_hash_map s i))) ids)"
    "\<forall>j u. \<not> due_at now s j \<longrightarrow> trans_hash_map s j = Some u \<longrightarrow> trans_hash_map s' j = Some u"
    by (rule rsp_check_spec[OF inv assms(2,3), of now])
  have "{i. due_at now s i} = {i. \<exists>t. get_trans_ctx i s = Some t \<and> due_at now s i}"
    using record_trans[OF core] by (fastforce simp: due_at_def get_trans_ctx_def)
  with s' tc_check[OF assms(1,2,3) s'(1)] show ?thesis
    by (intro exI[of _ s'] exI[of _ ids]) (simp add: get_trans_ctx_def)
qed

theorem timeouts_exact_witness:
  "\<exists>s'. rsp_check 55 (\<lambda>_. []) rev test_tc = Some s' \<and>
     tc_calls s' = [Sink_Timeout 3 1 (Peer PEER_TYPE_HTTP ''h'' 80) (Block [1])]"
proof -
  have tame: "timeout_tame (\<lambda>_. [])" by (simp add: timeout_tame_def)
  have "{i. \<exists>t. get_trans_ctx i test_tc = Some t \<and> due_at 55 test_tc i} = {1}"
    by (auto simp: get_trans_ctx_def due_at_def test_tc_eq split: if_splits)
  with timeouts_exact[OF test_tc_reach tame hash_order_rev, of 55] obtain s' ids where
    s': "rsp_check 55 (\<lambda>_. []) rev test_tc = Some s'" "distinct ids" "set ids = {1}"
    "tc_calls s' = tc_calls test_tc @ concat (map (\<lambda>i. timeout_calls (sink_set test_tc) i (the (get_trans_ctx i test_tc))) ids)"
    by auto
  from s'(2,3) have "ids = [1]" by (cases ids; cases "tl ids") auto
  with s' show ?thesis by (simp add: get_trans_ctx_def test_tc_eq timeout_calls_def test_ctx_def)
qed

text \<open>
  When a peer connects or closes, every open transaction of that peer is told once, in
  the order of the ids, if the sinks ask for nothing in return. A sink that cancels its own
  transaction from inside OnClosed, the natural reaction, makes the loop increment an iterator
  to an erased element: undefined behaviour at the smallest id.
\<close>

theorem peer_notice:
  assumes "tc_reach s"
  shows "on_closed now (\<lambda>_. []) q s = Some (Inr (s\<lparr>tc_calls := tc_calls s @ peer_calls Sink_Closed q s (peer_ids s q)\<rparr>)) \<and>
    on_connected now (\<lambda>_. []) q s = Some (Inr (s\<lparr>tc_calls := tc_calls s @ peer_calls Sink_Connected q s (peer_ids s q)\<rparr>)) \<and>
    (peer_ids s q \<noteq> {} \<longrightarrow>
       on_closed now (\<lambda>c. case c of Sink_Closed sk i q' d \<Rightarrow> [Op_Cancel i] | _ \<Rightarrow> []) q s = Some (Inl (Min (peer_ids s q))))"
  using tc_reach_inv[OF assms] peer_event_quiet[of s "\<lambda>_. []"] peer_event_cancel[of s q _ Sink_Closed]
  by (simp add: on_closed_def on_connected_def)

theorem peer_notice_witness:
  "on_closed 52 (\<lambda>c. case c of Sink_Closed sk i q' d \<Rightarrow> [Op_Cancel i] | _ \<Rightarrow> []) (Peer PEER_TYPE_HTTP ''h'' 80) test_tc =
     Some (Inl 1)"
  using peer_notice[OF test_tc_reach, of 52 "Peer PEER_TYPE_HTTP ''h'' 80"] by (simp add: test_tc_eq)

end
