(* ===== verification/Thread_Center.thy ===== *)
theory Thread_Center
  imports Conn_Center
begin

text \<open>
  Worker threads: \<^verbatim>\<open>thread_center/inc/thread_task.h\<close>, \<^verbatim>\<open>src/task_queue.cpp\<close>,
  \<^verbatim>\<open>thread.cpp\<close>, \<^verbatim>\<open>thread_group.cpp\<close> and \<^verbatim>\<open>thread_center.cpp\<close>. Producers push a task
  under the thread's mutex and write one byte into its pipe; the thread's event loop reads a byte
  and handles one task. A byte that does not fit waits in a pending list for a timer. The sections
  under the mutex are the atomic steps of the model; what the sink does with a task is a
  parameter: the tasks it pushes to its own thread from inside the callback.
\<close>

subsection \<open>Tasks and the task queue\<close>

record thread_task =
  task_type :: int
  source_thread :: ptr
  task_guid :: conn_guid
  task_data :: bytes

text \<open>The constructor: null arguments (None) leave the default id and no data.\<close>

definition new_task :: "int \<Rightarrow> ptr \<Rightarrow> conn_guid option \<Rightarrow> bytes option \<Rightarrow> thread_task" where
  "new_task ty src guid data =
     \<lparr>task_type = ty, source_thread = src,
      task_guid = (case guid of None \<Rightarrow> conn_guid_init | Some g \<Rightarrow> g),
      task_data = (case data of None \<Rightarrow> [] | Some d \<Rightarrow> d)\<rparr>"

definition task_clone :: "thread_task \<Rightarrow> thread_task" where
  "task_clone t = new_task (task_type t) (source_thread t) (Some (task_guid t)) (Some (task_data t))"

record task_queue =
  task_list :: "thread_task list"
  cur_task_count :: int
  max_task_count :: int

definition tq_init :: task_queue where
  "tq_init = \<lparr>task_list = [], cur_task_count = 0, max_task_count = 0\<rparr>"

definition push_back :: "thread_task \<Rightarrow> task_queue \<Rightarrow> task_queue" where
  "push_back t q =
     (let q1 = q\<lparr>task_list := task_list q @ [t], cur_task_count := cur_task_count q + 1\<rparr> in
      if max_task_count q1 < cur_task_count q1 then q1\<lparr>max_task_count := cur_task_count q1\<rparr> else q1)"

definition pop_back :: "task_queue \<Rightarrow> thread_task option \<times> task_queue" where
  "pop_back q =
     (if task_list q = [] then (None, q)
      else (Some (last (task_list q)),
            q\<lparr>task_list := butlast (task_list q), cur_task_count := cur_task_count q - 1\<rparr>))"

definition pop_front :: "task_queue \<Rightarrow> thread_task option \<times> task_queue" where
  "pop_front q =
     (case task_list q of
        [] \<Rightarrow> (None, q)
      | t # ts \<Rightarrow> (Some t, q\<lparr>task_list := ts, cur_task_count := cur_task_count q - 1\<rparr>))"

definition tq_is_empty :: "task_queue \<Rightarrow> bool" where
  "tq_is_empty q \<longleftrightarrow> 0 = cur_task_count q"

definition tq_inv :: "task_queue \<Rightarrow> bool" where
  "tq_inv q \<longleftrightarrow> cur_task_count q = int (length (task_list q)) \<and> cur_task_count q \<le> max_task_count q"

text \<open>What the thread needs of its queue: first in, first out, and a correct emptiness test.\<close>

locale fifo =
  fixes push :: "'t \<Rightarrow> 'q \<Rightarrow> 'q"
    and pop :: "'q \<Rightarrow> 't option \<times> 'q"
    and empty :: "'q \<Rightarrow> bool"
    and elems :: "'q \<Rightarrow> 't list"
    and inv :: "'q \<Rightarrow> bool"
  assumes elems_push: "inv q \<Longrightarrow> elems (push t q) = elems q @ [t]"
    and inv_push: "inv q \<Longrightarrow> inv (push t q)"
    and pop_none: "inv q \<Longrightarrow> elems q = [] \<Longrightarrow> pop q = (None, q)"
    and pop_some: "inv q \<Longrightarrow> elems q = t # ts \<Longrightarrow> \<exists>q'. pop q = (Some t, q') \<and> elems q' = ts \<and> inv q'"
    and empty_iff: "inv q \<Longrightarrow> empty q \<longleftrightarrow> elems q = []"
begin

lemma push_all: "inv q \<Longrightarrow> elems (fold push ts q) = elems q @ ts \<and> inv (fold push ts q)"
  by (induction ts arbitrary: q) (simp_all add: elems_push inv_push)

lemma pop_cases:
  assumes "inv q"
  obtains "empty q" "elems q = []" "pop q = (None, q)"
  | t q' where "\<not> empty q" "pop q = (Some t, q')" "elems q = t # elems q'" "inv q'"
  using assms pop_none pop_some empty_iff by (metis neq_Nil_conv)

end

interpretation tq: fifo push_back pop_front tq_is_empty task_list tq_inv
proof (unfold_locales, goal_cases)
  case (4 q t ts)
  then show ?case by (auto simp: pop_front_def tq_inv_def)
qed (auto simp: push_back_def pop_front_def tq_is_empty_def tq_inv_def Let_def)

subsection \<open>A thread\<close>

text \<open>
  The bytes in the pipe are \<open>pipe\<close>, at most \<open>pipe_cap\<close> of them; \<open>notify_timer\<close> is the timer that
  retries pending bytes. \<open>sink_calls\<close> is what the sink was told, \<open>pushed\<close> every task ever pushed.
\<close>

datatype sink_call = Sink_Task thread_task | Sink_Stop | Sink_Reload

record thread =
  tq :: task_queue
  pipe :: string
  pipe_cap :: nat
  pending_notify_list :: string
  notify_timer :: bool
  stopping_flag :: bool
  reload_finished :: bool
  loop_broken :: bool
  sink_calls :: "sink_call list"
  pushed :: "thread_task list"

definition thread_init :: "nat \<Rightarrow> thread" where
  "thread_init cap =
     \<lparr>tq = tq_init, pipe = [], pipe_cap = cap, pending_notify_list = [], notify_timer = False,
      stopping_flag = False, reload_finished = False, loop_broken = False, sink_calls = [], pushed = []\<rparr>"

text \<open>
  A one-byte \<^verbatim>\<open>write\<close> to the non-blocking pipe fails when the pipe is full or a signal
  interrupts it (\<open>intr\<close>).
\<close>

definition write_pipe :: "bool \<Rightarrow> char \<Rightarrow> thread \<Rightarrow> bool \<times> thread" where
  "write_pipe intr c s =
     (if intr \<or> pipe_cap s \<le> length (pipe s) then (False, s) else (True, s\<lparr>pipe := pipe s @ [c]\<rparr>))"

text \<open>\<^verbatim>\<open>StartPendingNotifyTimer\<close> and \<^verbatim>\<open>StopPendingNotifyTimer\<close>, with a timer axis that has the timer.\<close>

definition start_pending_notify_timer :: "thread \<Rightarrow> thread" where
  "start_pending_notify_timer s = (if notify_timer s then s else s\<lparr>notify_timer := True\<rparr>)"

definition stop_pending_notify_timer :: "thread \<Rightarrow> thread" where
  "stop_pending_notify_timer s = s\<lparr>notify_timer := False\<rparr>"

text \<open>The common part of \<^verbatim>\<open>PushTask\<close>, \<^verbatim>\<open>NotifyStop\<close>, \<^verbatim>\<open>NotifyReload\<close> and \<^verbatim>\<open>NotifyExit\<close>.\<close>

definition notify :: "bool \<Rightarrow> char \<Rightarrow> thread \<Rightarrow> thread" where
  "notify intr c s =
     (case write_pipe intr c s of
        (True, s1) \<Rightarrow> s1
      | (False, s1) \<Rightarrow> start_pending_notify_timer (s1\<lparr>pending_notify_list := pending_notify_list s1 @ [c]\<rparr>))"

definition push_task :: "bool \<Rightarrow> thread_task \<Rightarrow> thread \<Rightarrow> thread" where
  "push_task intr t s = notify intr CHR ''t'' (s\<lparr>tq := push_back t (tq s), pushed := pushed s @ [t]\<rparr>)"

definition notify_stop :: "bool \<Rightarrow> thread \<Rightarrow> thread" where
  "notify_stop intr = notify intr CHR ''s''"

definition notify_reload :: "bool \<Rightarrow> thread \<Rightarrow> thread" where
  "notify_reload intr = notify intr CHR ''r''"

definition notify_exit :: "bool \<Rightarrow> thread \<Rightarrow> thread" where
  "notify_exit intr = notify intr CHR ''e''"

text \<open>\<^verbatim>\<open>Thread::OnTimer\<close>: one pending byte per turn.\<close>

definition th_on_timer :: "bool \<Rightarrow> thread \<Rightarrow> thread" where
  "th_on_timer intr s =
     (case pending_notify_list s of
        [] \<Rightarrow> stop_pending_notify_timer s
      | c # cs \<Rightarrow>
          (case write_pipe intr c s of
             (True, s1) \<Rightarrow> s1\<lparr>pending_notify_list := cs\<rparr>
           | (False, s1) \<Rightarrow> s1))"

text \<open>
  \<^verbatim>\<open>Thread::OnTask\<close>: the mutex is released before the sink is called, so the sink can push tasks
  to its own thread (\<open>react\<close>).
\<close>

type_synonym task_react = "thread_task \<Rightarrow> (bool \<times> thread_task) list"

definition th_on_task :: "task_react \<Rightarrow> thread \<Rightarrow> thread" where
  "th_on_task react s =
     (case pop_front (tq s) of
        (None, q) \<Rightarrow> s\<lparr>tq := q\<rparr>
      | (Some t, q) \<Rightarrow>
          fold (\<lambda>(intr, t'). push_task intr t') (react t)
            (s\<lparr>tq := q, sink_calls := sink_calls s @ [Sink_Task t]\<rparr>))"

text \<open>
  \<^verbatim>\<open>Thread::OnStop\<close> holds the mutex, which is not recursive, while it hands the remaining tasks to
  the sink: a sink that pushes to its own thread locks it a second time (\<open>Inl\<close>).
\<close>

partial_function (option) drain :: "task_react \<Rightarrow> thread \<Rightarrow> (thread_task + thread) option" where
  "drain react s =
     (if tq_is_empty (tq s) then Some (Inr s)
      else (case pop_front (tq s) of
              (None, q) \<Rightarrow> drain react (s\<lparr>tq := q\<rparr>)
            | (Some t, q) \<Rightarrow>
                if react t \<noteq> [] then Some (Inl t)
                else drain react (s\<lparr>tq := q, sink_calls := sink_calls s @ [Sink_Task t]\<rparr>)))"

definition th_on_stop :: "task_react \<Rightarrow> thread \<Rightarrow> (thread_task + thread) option" where
  "th_on_stop react s =
     (if stopping_flag s then Some (Inr s)
      else map_option (map_sum id (\<lambda>s. s\<lparr>sink_calls := sink_calls s @ [Sink_Stop]\<rparr>))
             (drain react (s\<lparr>stopping_flag := True\<rparr>)))"

definition th_on_reload :: "thread \<Rightarrow> thread" where
  "th_on_reload s = s\<lparr>sink_calls := sink_calls s @ [Sink_Reload], reload_finished := True\<rparr>"

definition th_on_exit :: "thread \<Rightarrow> thread" where
  "th_on_exit s = s\<lparr>loop_broken := True\<rparr>"

text \<open>\<^verbatim>\<open>Thread::ReadCallback\<close>: one byte, one action. An empty pipe is a failed read.\<close>

definition read_callback :: "task_react \<Rightarrow> thread \<Rightarrow> (thread_task + thread) option" where
  "read_callback react s =
     (case pipe s of
        [] \<Rightarrow> Some (Inr s)
      | c # cs \<Rightarrow>
          (let s1 = s\<lparr>pipe := cs\<rparr> in
           if c = CHR ''s'' then th_on_stop react s1
           else if c = CHR ''r'' then Some (Inr (th_on_reload s1))
           else if c = CHR ''e'' then Some (Inr (th_on_exit s1))
           else if c = CHR ''t'' then Some (Inr (th_on_task react s1))
           else Some (Inr s1)))"

subsection \<open>Thread groups\<close>

type_synonym thread_group = "thread list"

definition get_thread :: "thread_group \<Rightarrow> int \<Rightarrow> thread option" where
  "get_thread g idx = (if idx < 0 \<or> int (length g) \<le> idx then None else Some (g ! nat idx))"

text \<open>
  \<^verbatim>\<open>PushTaskToThread\<close>: a null task and an index out of range are refused, -1 pushes a copy to every
  thread. \<open>intr\<close> tells for every thread whether its write is interrupted.
\<close>

definition push_task_to_thread ::
  "(nat \<Rightarrow> bool) \<Rightarrow> thread_task option \<Rightarrow> int \<Rightarrow> thread_group \<Rightarrow> int \<times> thread_group" where
  "push_task_to_thread intr task idx g =
     (case task of
        None \<Rightarrow> (RC_ERR, g)
      | Some t \<Rightarrow>
          if idx = - 1
          then (RC_OK, map (\<lambda>(i, th). push_task (intr i) (task_clone t) th) (enumerate 0 g))
          else if idx < 0 \<or> int (length g) \<le> idx then (RC_ERR, g)
          else (RC_OK, g[nat idx := push_task (intr (nat idx)) t (g ! nat idx)]))"

definition group_notify_stop :: "(nat \<Rightarrow> bool) \<Rightarrow> thread_group \<Rightarrow> thread_group" where
  "group_notify_stop intr g = map (\<lambda>(i, th). notify_stop (intr i) th) (enumerate 0 g)"

definition group_can_exit :: "(nat \<Rightarrow> bool) \<Rightarrow> thread_group \<Rightarrow> bool" where
  "group_can_exit can g = list_all can [0..<length g]"

text \<open>
  \<^verbatim>\<open>CreateThreadGroup\<close>: the threads are created in turn until one fails (\<open>ok\<close>), then the whole
  group is destroyed.
\<close>

fun create_threads :: "nat \<Rightarrow> (nat \<Rightarrow> bool) \<Rightarrow> nat \<Rightarrow> nat \<Rightarrow> thread_group \<Rightarrow> thread_group option" where
  "create_threads cap ok i 0 g = Some g"
| "create_threads cap ok i (Suc n) g =
     (if ok i then create_threads cap ok (Suc i) n (g @ [thread_init cap]) else None)"

definition create_thread_group :: "nat \<Rightarrow> bool \<Rightarrow> (nat \<Rightarrow> bool) \<Rightarrow> int \<Rightarrow> thread_group option" where
  "create_thread_group cap init_ok ok thread_count =
     (if init_ok then create_threads cap ok 0 (nat thread_count) [] else None)"

subsection \<open>Invariant\<close>

definition wakeups :: "thread \<Rightarrow> string" where
  "wakeups s = pipe s @ pending_notify_list s"

definition handled :: "thread \<Rightarrow> thread_task list" where
  "handled s = concat (map (\<lambda>c. case c of Sink_Task t \<Rightarrow> [t] | _ \<Rightarrow> []) (sink_calls s))"

text \<open>
  Every queued task has its byte on the way, but for \<open>k\<close> of them; pending bytes have a timer; the
  tasks the sink was given followed by the queued ones are all tasks that were pushed, in order.
\<close>

definition th_inv :: "nat \<Rightarrow> thread \<Rightarrow> bool" where
  "th_inv k s \<longleftrightarrow> tq_inv (tq s) \<and> length (task_list (tq s)) \<le> count_list (wakeups s) CHR ''t'' + k \<and>
     (pending_notify_list s \<noteq> [] \<longrightarrow> notify_timer s) \<and> length (pipe s) \<le> pipe_cap s \<and>
     handled s @ task_list (tq s) = pushed s"

lemma th_inv_init: "th_inv 0 (thread_init cap)"
  by (simp add: th_inv_def thread_init_def wakeups_def handled_def tq_inv_def tq_init_def)

lemma notify_simps [simp]:
  "tq (notify intr c s) = tq s" "sink_calls (notify intr c s) = sink_calls s" "pushed (notify intr c s) = pushed s"
  "handled (notify intr c s) = handled s" "pipe_cap (notify intr c s) = pipe_cap s"
  "loop_broken (notify intr c s) = loop_broken s" "stopping_flag (notify intr c s) = stopping_flag s"
  by (auto simp: notify_def write_pipe_def start_pending_notify_timer_def handled_def split: prod.splits bool.splits)

lemma notify_wakeups: "mset (wakeups (notify intr c s)) = add_mset c (mset (wakeups s))"
  by (auto simp: notify_def write_pipe_def start_pending_notify_timer_def wakeups_def split: prod.splits bool.splits)

lemma count_list_mset: "count_list xs x = count (mset xs) x"
  by (induction xs) auto

lemma notify_inv:
  assumes "th_inv k s"
  shows "th_inv (if c = CHR ''t'' then k - 1 else k) (notify intr c s)"
proof -
  have "count_list (wakeups (notify intr c s)) CHR ''t'' = count_list (wakeups s) CHR ''t'' + (if c = CHR ''t'' then 1 else 0)"
    by (simp add: count_list_mset notify_wakeups)
  moreover have "pending_notify_list (notify intr c s) \<noteq> [] \<longrightarrow> notify_timer (notify intr c s)"
    "length (pipe (notify intr c s)) \<le> pipe_cap s"
    using assms by (auto simp: notify_def write_pipe_def start_pending_notify_timer_def th_inv_def split: prod.splits bool.splits)
  ultimately show ?thesis using assms by (auto simp: th_inv_def)
qed

lemma push_task_inv: "th_inv 0 s \<Longrightarrow> th_inv 0 (push_task intr t s)"
proof -
  let ?s = "s\<lparr>tq := push_back t (tq s), pushed := pushed s @ [t]\<rparr>"
  assume inv: "th_inv 0 s"
  then have q: "tq_inv (tq s)" by (simp add: th_inv_def)
  have "wakeups ?s = wakeups s" "handled ?s = handled s" by (simp_all add: wakeups_def handled_def)
  with inv have "th_inv 1 ?s" using tq.elems_push[OF q] tq.inv_push[OF q] by (simp add: th_inv_def)
  from notify_inv[OF this, of "CHR ''t''"] show ?thesis by (simp add: push_task_def)
qed

lemma push_tasks_inv: "th_inv 0 s \<Longrightarrow> th_inv 0 (fold (\<lambda>(intr, t'). push_task intr t') ts s)"
  by (induction ts arbitrary: s) (auto intro: push_task_inv)

lemma th_on_timer_inv: "th_inv 0 s \<Longrightarrow> th_inv 0 (th_on_timer intr s)"
  by (auto simp: th_on_timer_def write_pipe_def stop_pending_notify_timer_def th_inv_def wakeups_def handled_def
      split: list.splits prod.splits bool.splits if_splits)

lemma handled_snoc [simp]:
  "handled (s\<lparr>tq := q, sink_calls := sink_calls s @ [Sink_Task t]\<rparr>) = handled s @ [t]"
  "handled (s\<lparr>tq := q, sink_calls := sink_calls s @ map Sink_Task ts\<rparr>) = handled s @ ts"
  "handled (s\<lparr>sink_calls := sink_calls s @ [Sink_Stop]\<rparr>) = handled s"
  "handled (s\<lparr>sink_calls := sink_calls s @ [Sink_Reload], reload_finished := b\<rparr>) = handled s"
  "handled (s\<lparr>tq := q\<rparr>) = handled s" "handled (s\<lparr>pipe := p\<rparr>) = handled s"
  "handled (s\<lparr>stopping_flag := b\<rparr>) = handled s" "handled (s\<lparr>loop_broken := b\<rparr>) = handled s"
  by (simp_all add: handled_def comp_def)

lemma wakeups_simps [simp]:
  "wakeups (s\<lparr>tq := q\<rparr>) = wakeups s" "wakeups (s\<lparr>sink_calls := c\<rparr>) = wakeups s"
  "wakeups (s\<lparr>stopping_flag := b\<rparr>) = wakeups s" "wakeups (s\<lparr>loop_broken := b\<rparr>) = wakeups s"
  "wakeups (s\<lparr>reload_finished := b\<rparr>) = wakeups s"
  by (simp_all add: wakeups_def)

lemma th_on_task_inv:
  assumes "th_inv 1 s"
  shows "th_inv 0 (th_on_task react s)"
proof -
  from assms have q: "tq_inv (tq s)" by (simp add: th_inv_def)
  show ?thesis
  proof (rule tq.pop_cases[OF q])
    assume "tq_is_empty (tq s)" "task_list (tq s) = []" "pop_front (tq s) = (None, tq s)"
    with assms show ?thesis by (simp add: th_on_task_def th_inv_def)
  next
    fix t q' assume t: "pop_front (tq s) = (Some t, q')" "task_list (tq s) = t # task_list q'" "tq_inv q'"
    then have "th_inv 0 (s\<lparr>tq := q', sink_calls := sink_calls s @ [Sink_Task t]\<rparr>)"
      using assms by (simp add: th_inv_def)
    from push_tasks_inv[OF this] t(1) show ?thesis by (simp add: th_on_task_def)
  qed
qed

text \<open>Draining the queue: in order, up to the first task whose handling pushes to this thread.\<close>

lemma drain_result:
  assumes "tq_inv (tq s)"
  obtains q where "tq_inv q" "task_list q = []"
    "drain react s = (case dropWhile (\<lambda>t. react t = []) (task_list (tq s)) of
       [] \<Rightarrow> Some (Inr (s\<lparr>tq := q, sink_calls := sink_calls s @ map Sink_Task (task_list (tq s))\<rparr>))
     | t # ts \<Rightarrow> Some (Inl t))"
  using assms
proof (induction "task_list (tq s)" arbitrary: s thesis)
  case Nil
  then have "tq_is_empty (tq s)" by (simp add: tq.empty_iff)
  with Nil show ?case by (intro Nil.prems(1)[of "tq s"]) (simp_all add: drain.simps[of react s])
next
  case (Cons t ts)
  obtain q' where q': "pop_front (tq s) = (Some t, q')" "task_list q' = ts" "tq_inv q'"
    using tq.pop_some[OF Cons.prems(2) Cons.hyps(2)[symmetric]] by blast
  have ne: "\<not> tq_is_empty (tq s)" using tq.empty_iff[OF Cons.prems(2)] Cons.hyps(2) by (metis list.distinct(1))
  let ?s = "s\<lparr>tq := q', sink_calls := sink_calls s @ [Sink_Task t]\<rparr>"
  obtain q where q: "tq_inv q" "task_list q = []"
    "drain react ?s = (case dropWhile (\<lambda>t. react t = []) (task_list (tq ?s)) of
       [] \<Rightarrow> Some (Inr (?s\<lparr>tq := q, sink_calls := sink_calls ?s @ map Sink_Task (task_list (tq ?s))\<rparr>))
     | t # ts \<Rightarrow> Some (Inl t))"
    by (rule Cons.hyps(1)[of ?s]) (use q' in simp_all)
  have step: "drain react s = (if react t \<noteq> [] then Some (Inl t) else drain react ?s)"
    using ne q'(1) by (simp add: drain.simps[of react s])
  show ?case
    by (rule Cons.prems(1)[OF q(1,2)])
      (unfold step q(3), cases "dropWhile (\<lambda>t. react t = []) ts",
        use q'(2) Cons.hyps(2)[symmetric] in \<open>simp_all del: dropWhile_eq_Nil_conv\<close>)
qed

definition stopped :: "task_queue \<Rightarrow> thread \<Rightarrow> thread" where
  "stopped q s = s\<lparr>stopping_flag := True, tq := q,
     sink_calls := sink_calls s @ map Sink_Task (task_list (tq s)) @ [Sink_Stop]\<rparr>"

lemma th_on_stop_result:
  assumes "tq_inv (tq s)" "\<not> stopping_flag s"
  obtains q where "tq_inv q" "task_list q = []"
    "th_on_stop react s = (case dropWhile (\<lambda>t. react t = []) (task_list (tq s)) of
       [] \<Rightarrow> Some (Inr (stopped q s)) | t # ts \<Rightarrow> Some (Inl t))"
proof -
  let ?s = "s\<lparr>stopping_flag := True\<rparr>"
  from assms(1) have "tq_inv (tq ?s)" by simp
  then obtain q where q: "tq_inv q" "task_list q = []"
    "drain react ?s = (case dropWhile (\<lambda>t. react t = []) (task_list (tq ?s)) of
       [] \<Rightarrow> Some (Inr (?s\<lparr>tq := q, sink_calls := sink_calls ?s @ map Sink_Task (task_list (tq ?s))\<rparr>))
     | t # ts \<Rightarrow> Some (Inl t))" by (rule drain_result)
  show ?thesis
    by (rule that[OF q(1,2)], cases "dropWhile (\<lambda>t. react t = []) (task_list (tq s))")
      (use assms(2) q(3) in \<open>simp_all add: th_on_stop_def stopped_def del: dropWhile_eq_Nil_conv\<close>)
qed

lemma th_on_stop_inv:
  assumes inv: "th_inv 0 s" and st: "th_on_stop react s = Some (Inr s')"
  shows "th_inv 0 s'"
proof (cases "stopping_flag s")
  case True
  with assms show ?thesis by (simp add: th_on_stop_def)
next
  case False
  from inv have q: "tq_inv (tq s)" by (simp add: th_inv_def)
  obtain q where q: "tq_inv q" "task_list q = []"
    "th_on_stop react s = (case dropWhile (\<lambda>t. react t = []) (task_list (tq s)) of
       [] \<Rightarrow> Some (Inr (stopped q s)) | t # ts \<Rightarrow> Some (Inl t))" by (rule th_on_stop_result[OF q False])
  with st have "s' = stopped q s" by (auto split: list.splits)
  moreover have "handled (stopped q s) = handled s @ task_list (tq s)"
    by (simp add: stopped_def handled_def comp_def)
  ultimately show ?thesis using inv q(1,2) by (simp add: th_inv_def stopped_def wakeups_def)
qed

lemma read_callback_inv:
  assumes inv: "th_inv 0 s" and rd: "read_callback react s = Some (Inr s')"
  shows "th_inv 0 s'"
proof (cases "pipe s")
  case Nil
  with assms show ?thesis by (simp add: read_callback_def)
next
  case (Cons c cs)
  let ?s = "s\<lparr>pipe := cs\<rparr>"
  have w: "wakeups s = c # wakeups ?s" by (simp add: wakeups_def Cons)
  with inv Cons have k: "th_inv (if c = CHR ''t'' then 1 else 0) ?s" by (auto simp: th_inv_def)
  show ?thesis
  proof (cases "c = CHR ''t''")
    case True
    with rd Cons k th_on_task_inv[of ?s react] show ?thesis by (simp add: read_callback_def)
  next
    case False
    with k have k0: "th_inv 0 ?s" by simp
    then have "th_inv 0 (th_on_reload ?s)" "th_inv 0 (th_on_exit ?s)"
      by (simp_all add: th_inv_def th_on_reload_def th_on_exit_def handled_def)
    with rd Cons False k0 th_on_stop_inv[OF k0] show ?thesis
      by (auto simp: read_callback_def Let_def split: if_splits)
  qed
qed

text \<open>The states of a thread between two atomic steps.\<close>

inductive th_reach :: "thread \<Rightarrow> bool" where
  th_start: "th_reach (thread_init cap)"
| th_push: "th_reach s \<Longrightarrow> th_reach (push_task intr t s)"
| th_stop: "th_reach s \<Longrightarrow> th_reach (notify_stop intr s)"
| th_reload: "th_reach s \<Longrightarrow> th_reach (notify_reload intr s)"
| th_exit: "th_reach s \<Longrightarrow> th_reach (notify_exit intr s)"
| th_timer: "th_reach s \<Longrightarrow> notify_timer s \<Longrightarrow> th_reach (th_on_timer intr s)"
| th_read: "th_reach s \<Longrightarrow> \<not> loop_broken s \<Longrightarrow> read_callback react s = Some (Inr s') \<Longrightarrow> th_reach s'"

lemma th_reach_inv: "th_reach s \<Longrightarrow> th_inv 0 s"
proof (induction rule: th_reach.induct)
  case (th_stop s intr)
  from notify_inv[OF th_stop.IH, of "CHR ''s''" intr] show ?case by (simp add: notify_stop_def)
next
  case (th_reload s intr)
  from notify_inv[OF th_reload.IH, of "CHR ''r''" intr] show ?case by (simp add: notify_reload_def)
next
  case (th_exit s intr)
  from notify_inv[OF th_exit.IH, of "CHR ''e''" intr] show ?case by (simp add: notify_exit_def)
qed (auto intro: th_inv_init push_task_inv th_on_timer_inv read_callback_inv)

subsection \<open>The event loop\<close>

text \<open>
  One round of an undisturbed event loop: the notify timer fires if it is set, then a byte is read
  if there is one, until the loop is broken. The sink pushes nothing to its own thread.
\<close>

definition loop_round :: "thread \<Rightarrow> (thread_task + thread) option" where
  "loop_round s =
     (if loop_broken s then Some (Inr s)
      else read_callback (\<lambda>_. []) (if notify_timer s then th_on_timer False s else s))"

fun rounds :: "nat \<Rightarrow> thread \<Rightarrow> (thread_task + thread) option" where
  "rounds 0 s = Some (Inr s)"
| "rounds (Suc n) s = (case loop_round s of Some (Inr s') \<Rightarrow> rounds n s' | r \<Rightarrow> r)"

lemma th_on_timer_simps [simp]:
  "wakeups (th_on_timer intr s) = wakeups s" "tq (th_on_timer intr s) = tq s" "pushed (th_on_timer intr s) = pushed s"
  "pipe_cap (th_on_timer intr s) = pipe_cap s" "loop_broken (th_on_timer intr s) = loop_broken s"
  by (auto simp: th_on_timer_def write_pipe_def stop_pending_notify_timer_def wakeups_def
      split: list.splits prod.splits bool.splits if_splits)

lemma read_callback_quiet:
  assumes q: "tq_inv (tq s)" and p: "pipe s = c # cs"
  obtains s' where "read_callback (\<lambda>_. []) s = Some (Inr s')" "wakeups s' = cs @ pending_notify_list s"
    "pushed s' = pushed s" "pipe_cap s' = pipe_cap s" "c = CHR ''e'' \<or> loop_broken s' = loop_broken s"
proof (cases "c = CHR ''s'' \<and> \<not> stopping_flag s")
  case True
  let ?s = "s\<lparr>pipe := cs\<rparr>"
  from q True have "tq_inv (tq ?s)" "\<not> stopping_flag ?s" by simp_all
  then obtain q where "th_on_stop (\<lambda>_. []) ?s = (case dropWhile (\<lambda>t. [] = ([] :: (bool \<times> thread_task) list)) (task_list (tq ?s)) of
       [] \<Rightarrow> Some (Inr (stopped q ?s)) | t # ts \<Rightarrow> Some (Inl t))" by (rule th_on_stop_result)
  moreover have "dropWhile (\<lambda>t. True) xs = []" for xs :: "thread_task list" by simp
  ultimately have "th_on_stop (\<lambda>_. []) ?s = Some (Inr (stopped q ?s))" by (simp only: simp_thms list.case)
  then have "read_callback (\<lambda>_. []) s = Some (Inr (stopped q ?s))"
    using True p by (simp add: read_callback_def Let_def)
  then show ?thesis by (rule that) (simp_all add: stopped_def wakeups_def)
next
  case False
  let ?s = "s\<lparr>pipe := cs\<rparr>"
  have stop: "c = CHR ''s'' \<Longrightarrow> th_on_stop (\<lambda>_. []) ?s = Some (Inr ?s)" using False by (simp add: th_on_stop_def)
  define s' where "s' = (if c = CHR ''s'' then ?s else if c = CHR ''r'' then th_on_reload ?s
     else if c = CHR ''e'' then th_on_exit ?s else if c = CHR ''t'' then th_on_task (\<lambda>_. []) ?s else ?s)"
  have "read_callback (\<lambda>_. []) s = Some (Inr s')"
    using stop p by (auto simp: read_callback_def Let_def s'_def)
  then show ?thesis
  proof (rule that)
    have "wakeups (th_on_task (\<lambda>_. []) ?s) = cs @ pending_notify_list s \<and> loop_broken (th_on_task (\<lambda>_. []) ?s) = loop_broken s \<and>
        pushed (th_on_task (\<lambda>_. []) ?s) = pushed s \<and> pipe_cap (th_on_task (\<lambda>_. []) ?s) = pipe_cap s"
      by (auto simp: th_on_task_def wakeups_def split: prod.splits option.splits)
    then show "wakeups s' = cs @ pending_notify_list s" "pushed s' = pushed s" "pipe_cap s' = pipe_cap s"
      "c = CHR ''e'' \<or> loop_broken s' = loop_broken s"
      by (simp_all add: s'_def th_on_reload_def th_on_exit_def wakeups_def)
  qed
qed

lemma loop_round_quiet:
  assumes inv: "th_inv 0 s" and cap: "0 < pipe_cap s" and w: "wakeups s \<noteq> []"
    and live: "\<not> loop_broken s" "CHR ''e'' \<notin> set (wakeups s)"
  obtains s' where "loop_round s = Some (Inr s')" "th_inv 0 s'" "wakeups s' = tl (wakeups s)" "pushed s' = pushed s"
    "pipe_cap s' = pipe_cap s" "\<not> loop_broken s'"
proof -
  define t where "t = (if notify_timer s then th_on_timer False s else s)"
  have t: "th_inv 0 t" "wakeups t = wakeups s" "pushed t = pushed s" "pipe_cap t = pipe_cap s" "\<not> loop_broken t"
    using inv live(1) by (simp_all add: t_def th_on_timer_inv)
  have "pipe t \<noteq> []"
  proof (cases "pipe s = []")
    case True
    then obtain c cs where p: "pending_notify_list s = c # cs" using w by (cases "pending_notify_list s") (simp_all add: wakeups_def)
    with inv have "notify_timer s" by (simp add: th_inv_def)
    with p True cap show ?thesis by (simp add: t_def th_on_timer_def write_pipe_def)
  next
    case False
    then show ?thesis
      by (simp add: t_def th_on_timer_def write_pipe_def stop_pending_notify_timer_def split: list.split)
  qed
  then obtain c cs where p: "pipe t = c # cs" by (cases "pipe t") simp_all
  from t(1) have "tq_inv (tq t)" by (simp add: th_inv_def)
  then obtain s' where s': "read_callback (\<lambda>_. []) t = Some (Inr s')" "wakeups s' = cs @ pending_notify_list t"
    "pushed s' = pushed t" "pipe_cap s' = pipe_cap t" "c = CHR ''e'' \<or> loop_broken s' = loop_broken t"
    by (rule read_callback_quiet[OF _ p])
  have w': "wakeups s = c # wakeups s'" using t(2) p s'(2) by (simp add: wakeups_def)
  have "loop_round s = Some (Inr s')" using s'(1) live(1) by (simp add: loop_round_def t_def)
  then show ?thesis
    by (rule that[OF _ read_callback_inv[OF t(1) s'(1)]]) (use w' live(2) t s' in auto)
qed

lemma rounds_drain:
  assumes "th_inv 0 s" "0 < pipe_cap s" "\<not> loop_broken s" "CHR ''e'' \<notin> set (wakeups s)"
  shows "\<exists>s'. rounds (length (wakeups s)) s = Some (Inr s') \<and> th_inv 0 s' \<and> wakeups s' = [] \<and> pushed s' = pushed s"
  using assms
proof (induction "length (wakeups s)" arbitrary: s)
  case (Suc n)
  obtain c cs where w: "wakeups s = c # cs" using Suc.hyps(2) by (cases "wakeups s") simp_all
  then have "wakeups s \<noteq> []" by simp
  then obtain s1 where s1: "loop_round s = Some (Inr s1)" "th_inv 0 s1" "wakeups s1 = tl (wakeups s)"
    "pushed s1 = pushed s" "pipe_cap s1 = pipe_cap s" "\<not> loop_broken s1"
    by (rule loop_round_quiet[OF Suc.prems(1,2) _ Suc.prems(3,4)])
  have n: "n = length (wakeups s1)" using Suc.hyps(2) s1(3) by simp
  have "0 < pipe_cap s1" "CHR ''e'' \<notin> set (wakeups s1)" using Suc.prems(2,4) s1(3,5) w by simp_all
  from Suc.hyps(1)[OF n s1(2) this(1) s1(6) this(2)] s1(1,4) n show ?case by (simp add: Suc.hyps(2)[symmetric])
qed simp

subsection \<open>Properties\<close>

text \<open>
  Claim C12: no task is lost, duplicated or overtaken, and no wake-up is lost. In every state of a
  thread, between any pushes, notifications, timer and pipe events, the tasks given to the sink
  followed by those in the queue are exactly the tasks pushed, in the order of the pushes; while a
  task is queued, a byte for it is in the pipe, or in the pending list with the retry timer on.
\<close>

theorem tasks_fifo_exactly_once:
  assumes "th_reach s"
  shows "handled s @ task_list (tq s) = pushed s \<and> cur_task_count (tq s) = int (length (task_list (tq s))) \<and>
    cur_task_count (tq s) \<le> max_task_count (tq s) \<and> length (pipe s) \<le> pipe_cap s \<and>
    (task_list (tq s) \<noteq> [] \<longrightarrow> CHR ''t'' \<in> set (pipe s) \<or> CHR ''t'' \<in> set (pending_notify_list s) \<and> notify_timer s)"
proof -
  note inv = th_reach_inv[OF assms]
  have "CHR ''t'' \<in> set (wakeups s)" if "task_list (tq s) \<noteq> []"
  proof (rule ccontr)
    assume "CHR ''t'' \<notin> set (wakeups s)"
    then have "count_list (wakeups s) CHR ''t'' = 0" by (simp add: count_list_0_iff)
    with inv that show False by (simp add: th_inv_def)
  qed
  then have "CHR ''t'' \<in> set (pipe s) \<or> CHR ''t'' \<in> set (pending_notify_list s) \<and> notify_timer s"
    if "task_list (tq s) \<noteq> []"
    using that inv by (cases "pending_notify_list s = []") (auto simp: wakeups_def th_inv_def)
  with inv show ?thesis by (simp add: th_inv_def tq_inv_def)
qed

text \<open>A thread whose pipe holds one byte, with two tasks pushed.\<close>

definition test_task :: "int \<Rightarrow> thread_task" where
  "test_task i = new_task i 0 None (Some [1])"

definition test_thread :: thread where
  "test_thread = push_task False (test_task 2) (push_task False (test_task 1) (thread_init 1))"

lemma test_thread_reach: "th_reach test_thread"
  unfolding test_thread_def by (intro th_push th_start)

lemma test_thread_simps:
  "task_list (tq test_thread) = [test_task 1, test_task 2]" "pushed test_thread = [test_task 1, test_task 2]"
  "pipe test_thread = ''t''" "pending_notify_list test_thread = ''t''" "notify_timer test_thread"
  "stopping_flag test_thread = False" "sink_calls test_thread = []" "pipe_cap test_thread = 1"
  "loop_broken test_thread = False"
  by (simp_all add: test_thread_def push_task_def notify_def write_pipe_def thread_init_def tq_init_def push_back_def
      start_pending_notify_timer_def Let_def)

theorem tasks_fifo_exactly_once_witness:
  "handled test_thread = [] \<and> handled test_thread @ task_list (tq test_thread) = [test_task 1, test_task 2] \<and>
   CHR ''t'' \<in> set (pipe test_thread)"
proof -
  have "handled test_thread = []" by (simp add: handled_def test_thread_simps)
  with tasks_fifo_exactly_once[OF test_thread_reach] test_thread_simps show ?thesis by simp
qed

text \<open>
  Claim C13: every pushed task is handled. From any state of a thread whose pipe holds at least one
  byte, and that was not told to exit, as many rounds of the event loop as there are bytes on the way bring every task pushed
  so far to the sink, in order, full pipe and interrupted writes before or not.
\<close>

theorem all_tasks_handled:
  assumes "th_reach s" "0 < pipe_cap s" "\<not> loop_broken s" "CHR ''e'' \<notin> set (wakeups s)"
  shows "\<exists>s'. rounds (length (wakeups s)) s = Some (Inr s') \<and> handled s' = pushed s \<and> task_list (tq s') = []"
proof -
  from rounds_drain[OF th_reach_inv[OF assms(1)] assms(2-4)] obtain s' where
    s': "rounds (length (wakeups s)) s = Some (Inr s')" "th_inv 0 s'" "wakeups s' = []" "pushed s' = pushed s" by blast
  then have "task_list (tq s') = []" by (simp add: th_inv_def)
  moreover from s'(2,4) have "handled s' @ task_list (tq s') = pushed s" by (simp only: th_inv_def)
  ultimately have "task_list (tq s') = []" "handled s' = pushed s" by simp_all
  with s'(1) show ?thesis by auto
qed

theorem all_tasks_handled_witness:
  "\<exists>s'. rounds 2 test_thread = Some (Inr s') \<and> handled s' = [test_task 1, test_task 2]"
proof -
  have "length (wakeups test_thread) = 2" "CHR ''e'' \<notin> set (wakeups test_thread)"
    by (simp_all add: test_thread_simps wakeups_def)
  with all_tasks_handled[OF test_thread_reach] test_thread_simps(2,8,9) show ?thesis by auto
qed

text \<open>
  A stopping thread hands the tasks that are still queued to its sink, in order, and then
  tells it to stop; a second stop does nothing. But it does so with the mutex held: if handling
  one of these tasks makes the sink push a task to its own thread, the thread locks the
  mutex it already holds and hangs at the first such task.
\<close>

theorem stop_drains_or_deadlocks:
  assumes "th_reach s" "\<not> stopping_flag s"
  shows "(list_all (\<lambda>t. react t = []) (task_list (tq s)) \<longrightarrow>
      (\<exists>s'. th_on_stop react s = Some (Inr s') \<and> task_list (tq s') = [] \<and>
         sink_calls s' = sink_calls s @ map Sink_Task (task_list (tq s)) @ [Sink_Stop] \<and>
         th_on_stop react s' = Some (Inr s'))) \<and>
    (task_list (tq s) = ts @ t # us \<and> list_all (\<lambda>t. react t = []) ts \<and> react t \<noteq> [] \<longrightarrow>
       th_on_stop react s = Some (Inl t))"
proof -
  from th_reach_inv[OF assms(1)] have q: "tq_inv (tq s)" by (simp add: th_inv_def)
  obtain q where q: "tq_inv q" "task_list q = []"
    "th_on_stop react s = (case dropWhile (\<lambda>t. react t = []) (task_list (tq s)) of
       [] \<Rightarrow> Some (Inr (stopped q s)) | t # ts \<Rightarrow> Some (Inl t))" by (rule th_on_stop_result[OF q assms(2)])
  have 1: "dropWhile (\<lambda>t. react t = []) (task_list (tq s)) = []" if "list_all (\<lambda>t. react t = []) (task_list (tq s))"
    using that by (simp add: list_all_iff)
  have 2: "dropWhile (\<lambda>t. react t = []) (task_list (tq s)) = t # us"
    if "task_list (tq s) = ts @ t # us" "list_all (\<lambda>t. react t = []) ts" "react t \<noteq> []"
    using that by (simp add: list_all_iff)
  have "th_on_stop react (stopped q s) = Some (Inr (stopped q s))" by (simp add: th_on_stop_def stopped_def)
  with 1 2 q show ?thesis by (auto simp: stopped_def simp del: dropWhile_eq_Nil_conv)
qed

theorem stop_drains_or_deadlocks_witness:
  "th_on_stop (\<lambda>t. if task_type t = 2 then [(False, t)] else []) test_thread = Some (Inl (test_task 2)) \<and>
   (\<exists>s'. th_on_stop (\<lambda>t. []) test_thread = Some (Inr s') \<and>
      sink_calls s' = [Sink_Task (test_task 1), Sink_Task (test_task 2), Sink_Stop])"
proof -
  have ty: "task_type (test_task i) = i" for i by (simp add: test_task_def new_task_def)
  from stop_drains_or_deadlocks[OF test_thread_reach, of "\<lambda>t. if task_type t = 2 then [(False, t)] else []"
      "[test_task 1]" "test_task 2" "[]"]
    stop_drains_or_deadlocks[OF test_thread_reach, of "\<lambda>t. []" "[]" "test_task 1" "[]"]
  show ?thesis by (auto simp: test_thread_simps ty)
qed

end
