(* ===== verification/Conn_IO.thy ===== *)
theory Conn_IO
  imports Proto_Stream Thread_Center
begin

text \<open>
  The event callbacks of TCP connections: \<^verbatim>\<open>NormalConn::ReadCallback\<close> and \<^verbatim>\<open>WriteCallback\<close> of
  \<^verbatim>\<open>tcp_threads/src/normal_conn.cpp\<close>, the callbacks of \<^verbatim>\<open>buffer_event_conn.cpp\<close>, and the tasks a
  TCP thread gets from other threads (\<^verbatim>\<open>ThreadSink::OnTask\<close>). The answers of the kernel to
  \<^verbatim>\<open>read\<close> and \<^verbatim>\<open>write\<close> are lists of outcomes; a callback that has used up its list and is still in
  its loop has not returned (None).
\<close>

subsection \<open>Writing\<close>

text \<open>
  \<open>W_Accept n\<close>: the socket takes up to \<open>n\<close> bytes, so \<^verbatim>\<open>write\<close> returns the smaller of \<open>n\<close> and the
  wanted length, which is 0 for an empty request.
\<close>

datatype write_res = W_Accept nat | W_Eintr | W_Eagain | W_Reset | W_Other

text \<open>
  The inner loop for one entry \<open>d\<close> of the send list: \<open>sent\<close> is \<^verbatim>\<open>sent_len\<close>, \<open>want\<close> is
  \<^verbatim>\<open>want_send_len\<close>, \<open>wire\<close> the bytes the socket has taken. The entry is finished (None) or stays in
  the list, cut to what is left, except after a reset.
\<close>

fun write_item :: "write_res list \<Rightarrow> bytes \<Rightarrow> nat \<Rightarrow> nat \<Rightarrow> bytes \<Rightarrow> (write_res list \<times> bytes option \<times> bytes) option" where
  "write_item [] d sent want wire = None"
| "write_item (r # rs) d sent want wire =
     (case r of
        W_Accept k \<Rightarrow>
          (let n = min k want in
           if n = 0 then write_item rs d sent want wire
           else (let wire' = wire @ take n (drop sent d) in
                 if sent + n = length d then Some (rs, None, wire')
                 else write_item rs d (sent + n) (want - n) wire'))
      | W_Eintr \<Rightarrow> write_item rs d sent want wire
      | W_Eagain \<Rightarrow> Some (rs, Some (take want (drop sent d)), wire)
      | W_Reset \<Rightarrow> Some (rs, Some d, wire)
      | W_Other \<Rightarrow> Some (rs, Some (take want (drop sent d)), wire))"

text \<open>The outer loop: the remaining list, the wire, and whether the loop reached the end.\<close>

fun write_items :: "write_res list \<Rightarrow> bytes list \<Rightarrow> bytes \<Rightarrow> (bytes list \<times> bytes \<times> bool) option" where
  "write_items rs [] wire = Some ([], wire, True)"
| "write_items rs (d # ds) wire =
     (case write_item rs d 0 (length d) wire of
        None \<Rightarrow> None
      | Some (rs', None, wire') \<Rightarrow> write_items rs' ds wire'
      | Some (rs', Some d', wire') \<Rightarrow> Some (d' # ds, wire', False))"

text \<open>
  \<^verbatim>\<open>WriteCallback\<close>: \<open>del_ok\<close> is the result of \<^verbatim>\<open>event_del\<close>. The last component says whether
  \<^verbatim>\<open>UpdateConnStatus\<close> is called at the end.
\<close>

definition write_callback :: "bool \<Rightarrow> write_res list \<Rightarrow> base_conn \<Rightarrow> bytes \<Rightarrow> (base_conn \<times> bytes \<times> bool) option" where
  "write_callback del_ok rs c wire =
     (case write_items rs (send_list c) wire of
        None \<Rightarrow> None
      | Some (left, wire', finished) \<Rightarrow>
          (let c' = c\<lparr>send_list := left\<rparr> in
           Some (if finished \<and> left = [] \<and> del_ok then c'\<lparr>write_event := Some False\<rparr> else c', wire', finished)))"

text \<open>
  The whole handler on the connection object \<open>p\<close>: after all is sent, the idle record is refreshed.
\<close>

definition normal_write_callback ::
  "env \<Rightarrow> bool \<Rightarrow> write_res list \<Rightarrow> ptr \<Rightarrow> bytes \<Rightarrow> proto_logic \<Rightarrow> (bytes \<times> proto_logic) option" where
  "normal_write_callback e del_ok rs p wire s =
     (case conn_heap (conns s) p of
        None \<Rightarrow> Some (wire, s\<lparr>fault := Some (Dangling_Conn p)\<rparr>)
      | Some c \<Rightarrow>
          (case write_callback del_ok rs c wire of
             None \<Rightarrow> None
           | Some (c', wire', finished) \<Rightarrow>
               (let cc = (conns s)\<lparr>conn_heap := (conn_heap (conns s))(p \<mapsto> c')\<rparr> in
                if \<not> finished then Some (wire', set_center cc s)
                else
                  (case update_conn_status (clock e) (c_id c') False cc of
                     Inl err \<Rightarrow> Some (wire', s\<lparr>fault := Some err\<rparr>)
                   | Inr (_, cc') \<Rightarrow> Some (wire', set_center cc' s)))))"

subsection \<open>Reading\<close>

text \<open>\<open>R_Data d\<close>: \<^verbatim>\<open>read\<close> returns the length of \<open>d\<close>, at most 16384; 0 is the end of the stream.\<close>

datatype read_res = R_Data bytes | R_Eintr | R_Eagain | R_Reset | R_Other

text \<open>
  The loop of \<^verbatim>\<open>ReadCallback\<close> on socket \<open>fd\<close> for the connection object \<open>p\<close>: the flag tells whether
  the connection is to be closed. A connection that a logic has closed ends the loop.
\<close>

fun read_loop :: "env \<Rightarrow> ptr \<Rightarrow> int \<Rightarrow> read_res list \<Rightarrow> proto_logic \<Rightarrow> (bool \<times> proto_logic) option" where
  "read_loop e p fd [] s = (if get_conn_by_sock_fd (conns s) fd = 0 then Some (False, s) else None)"
| "read_loop e p fd (r # rs) s =
     (if get_conn_by_sock_fd (conns s) fd = 0 then Some (False, s)
      else
        (case r of
           R_Eintr \<Rightarrow> read_loop e p fd rs s
         | R_Eagain \<Rightarrow> Some (False, s)
         | R_Reset \<Rightarrow> Some (True, s)
         | R_Other \<Rightarrow> Some (False, s)
         | R_Data d \<Rightarrow>
             if length d = 0 then Some (True, s)
             else
             (case conn_heap (conns s) p of
                None \<Rightarrow> Some (False, s\<lparr>fault := Some (Dangling_Conn p)\<rparr>)
              | Some c \<Rightarrow> read_loop e p fd rs (on_recv_client_data e (the_guid c) d s))))"

record sock_events =
  ev_closed :: bool
  ev_read :: bool

definition normal_read_callback :: "env \<Rightarrow> int \<Rightarrow> sock_events \<Rightarrow> read_res list \<Rightarrow> proto_logic \<Rightarrow> proto_logic option" where
  "normal_read_callback e fd evs rs s =
     (let p = get_conn_by_sock_fd (conns s) fd in
      if p = 0 then Some s
      else if ev_closed evs then Some (sink_client_closed e p s)
      else if \<not> ev_read evs \<or> stopping (sink s) then Some s
      else
        (case conn_heap (conns s) p of
           None \<Rightarrow> Some (s\<lparr>fault := Some (Dangling_Conn p)\<rparr>)
         | Some c \<Rightarrow>
             (case update_conn_status (clock e) (c_id c) True (conns s) of
                Inl err \<Rightarrow> Some (s\<lparr>fault := Some err\<rparr>)
              | Inr (ret, cc) \<Rightarrow>
                  (let s1 = set_center cc s in
                   if ret \<noteq> 0 then Some (sink_client_closed e p s1)
                   else map_option (\<lambda>(closed, s2). if closed then sink_client_closed e p s2 else s2)
                          (read_loop e p fd rs s1)))))"

text \<open>
  The callbacks of a bufferevent: \<open>input\<close> is the content of its input buffer.
\<close>

definition buffer_read_callback :: "env \<Rightarrow> int \<Rightarrow> bytes \<Rightarrow> proto_logic \<Rightarrow> proto_logic" where
  "buffer_read_callback e fd input s =
     (if stopping (sink s) then s
      else
        (let p = get_conn_by_sock_fd (conns s) fd in
         if p = 0 then s
         else
           (case conn_heap (conns s) p of
              None \<Rightarrow> s\<lparr>fault := Some (Dangling_Conn p)\<rparr>
            | Some c \<Rightarrow>
                (case update_conn_status (clock e) (c_id c) True (conns s) of
                   Inl err \<Rightarrow> s\<lparr>fault := Some err\<rparr>
                 | Inr (ret, cc) \<Rightarrow>
                     (let s1 = set_center cc s in
                      if ret \<noteq> 0 then sink_client_closed e p s1
                      else if length input = 0 then s1
                      else on_recv_client_data e (the_guid c) input s1)))))"

record bev_events =
  bev_error :: bool
  bev_eof :: bool
  bev_reading :: bool

definition buffer_event_callback :: "env \<Rightarrow> int \<Rightarrow> bev_events \<Rightarrow> bytes \<Rightarrow> proto_logic \<Rightarrow> proto_logic" where
  "buffer_event_callback e fd evs input s =
     (let p = get_conn_by_sock_fd (conns s) fd in
      if p = 0 then s
      else if bev_error evs \<or> bev_eof evs \<or> (bev_reading evs \<and> length input = 0)
      then sink_client_closed e p s
      else s)"

subsection \<open>Tasks from other threads\<close>

abbreviation (input) TASK_TYPE_NORMAL :: int where "TASK_TYPE_NORMAL \<equiv> 0"
abbreviation (input) TASK_TYPE_SEND_TO_CLIENT :: int where "TASK_TYPE_SEND_TO_CLIENT \<equiv> 1"
abbreviation (input) TASK_TYPE_CLOSE_CONN :: int where "TASK_TYPE_CLOSE_CONN \<equiv> 2"

text \<open>
  \<^verbatim>\<open>ThreadSink::OnTask\<close>: the thread sink has its own codec and dispatcher (\<open>ctx\<close>, \<open>disp\<close>); what it has
  no handler for goes to the logic.
\<close>

definition sink_on_task :: "env \<Rightarrow> msg_codec_ctx \<Rightarrow> msg_dispatcher \<Rightarrow> thread_task \<Rightarrow> proto_logic \<Rightarrow> proto_logic" where
  "sink_on_task e ctx disp t s =
     (if task_type t = TASK_TYPE_SEND_TO_CLIENT then snd (tcp_send_to_client e (task_guid t) (task_data t) s)
      else if task_type t = TASK_TYPE_CLOSE_CONN then snd (close_client e (task_guid t) s)
      else if task_type t = TASK_TYPE_NORMAL
      then
        (if length (task_data t) = 0 then s
         else
           (case decode_msg ctx (task_data t) (length (task_data t)) of
              Decode_Bad_Read \<Rightarrow> s\<lparr>fault := Some (Dangling_Conn 0)\<rparr>
            | Decode_Error _ \<Rightarrow> s
            | Decoded head body \<Rightarrow>
                (case dispatch_msg disp head of
                   (_, Some h) \<Rightarrow>
                     fold (app_step e) (react e h (task_guid t) head body)
                       (s\<lparr>events := events s @ [Called h (task_guid t) head body]\<rparr>)
                 | (_, None) \<Rightarrow> on_task e (task_guid t) (task_data t) s)))
      else s)"

subsection \<open>The bytes on the wire\<close>

lemma write_item_stream:
  assumes "write_item rs d sent want wire = Some (rs', left, wire')" "sent + want = length d" "W_Reset \<notin> set rs"
  shows "wire' @ (case left of None \<Rightarrow> [] | Some d' \<Rightarrow> d') = wire @ drop sent d \<and> set rs' \<subseteq> set rs"
  using assms
proof (induction rs arbitrary: sent want wire)
  case (Cons r rs)
  show ?case
  proof (cases r)
    case (W_Accept k)
    define n where "n = min k want"
    have split: "drop sent d = take n (drop sent d) @ drop (sent + n) d"
      by (metis append_take_drop_id drop_drop add.commute)
    consider "n = 0" | "n \<noteq> 0" "sent + n = length d" | "n \<noteq> 0" "sent + n \<noteq> length d" by blast
    then show ?thesis
    proof cases
      case 1
      with Cons.prems W_Accept have "write_item rs d sent want wire = Some (rs', left, wire')"
        by (simp add: n_def Let_def)
      from Cons.IH[OF this Cons.prems(2)] Cons.prems(3) show ?thesis by auto
    next
      case 2
      with Cons.prems(1) W_Accept have "left = None" "wire' = wire @ take n (drop sent d)" "rs' = rs"
        by (simp_all add: n_def[symmetric] Let_def)
      with 2 split show ?thesis by auto
    next
      case 3
      with Cons.prems(1) W_Accept
      have "write_item rs d (sent + n) (want - n) (wire @ take n (drop sent d)) = Some (rs', left, wire')"
        by (simp add: n_def[symmetric] Let_def)
      from Cons.IH[OF this] Cons.prems(2,3) split show ?thesis by (auto simp: n_def)
    qed
  next
    case W_Eintr
    with Cons.prems have "write_item rs d sent want wire = Some (rs', left, wire')" by simp
    from Cons.IH[OF this Cons.prems(2)] Cons.prems(3) show ?thesis by auto
  qed (use Cons.prems in auto)
qed simp

lemma write_items_stream:
  assumes "write_items rs ds wire = Some (left, wire', finished)" "W_Reset \<notin> set rs"
  shows "wire' @ concat left = wire @ concat ds \<and> (finished \<longleftrightarrow> left = [])"
  using assms
proof (induction ds arbitrary: rs wire)
  case (Cons d ds)
  from Cons.prems(1) obtain rs' l w where w: "write_item rs d 0 (length d) wire = Some (rs', l, w)"
    by (auto split: option.splits)
  from write_item_stream[OF w _ Cons.prems(2)]
  have st: "w @ (case l of None \<Rightarrow> [] | Some d' \<Rightarrow> d') = wire @ d" "set rs' \<subseteq> set rs" by simp_all
  show ?case
  proof (cases l)
    case None
    with Cons.prems(1) w have "write_items rs' ds w = Some (left, wire', finished)" by simp
    from Cons.IH[OF this] Cons.prems(2) st None show ?thesis by auto
  next
    case (Some d')
    with Cons.prems(1) w st show ?thesis by auto
  qed
qed simp

text \<open>With or without a reset, only what was queued gets on the wire, from the front.\<close>

lemma write_item_prefix:
  assumes "write_item rs d sent want wire = Some (rs', left, wire')" "sent + want = length d"
  shows "(\<exists>rest. wire' @ rest = wire @ drop sent d) \<and> (left = None \<longrightarrow> wire' = wire @ drop sent d)"
  using assms
proof (induction rs arbitrary: sent want wire)
  case (Cons r rs)
  show ?case
  proof (cases r)
    case (W_Accept k)
    define n where "n = min k want"
    have split: "drop sent d = take n (drop sent d) @ drop (sent + n) d"
      by (metis append_take_drop_id drop_drop add.commute)
    consider "n = 0" | "n \<noteq> 0" "sent + n = length d" | "n \<noteq> 0" "sent + n \<noteq> length d" by blast
    then show ?thesis
    proof cases
      case 1
      with Cons.prems W_Accept have "write_item rs d sent want wire = Some (rs', left, wire')"
        by (simp add: n_def Let_def)
      from Cons.IH[OF this Cons.prems(2)] show ?thesis .
    next
      case 2
      with Cons.prems(1) W_Accept have "wire' = wire @ take n (drop sent d)"
        by (simp add: n_def[symmetric] Let_def)
      with 2 split show ?thesis by auto
    next
      case 3
      with Cons.prems(1) W_Accept
      have "write_item rs d (sent + n) (want - n) (wire @ take n (drop sent d)) = Some (rs', left, wire')"
        by (simp add: n_def[symmetric] Let_def)
      from Cons.IH[OF this] Cons.prems(2) split show ?thesis by (auto simp: n_def)
    qed
  qed (use Cons in auto)
qed simp

lemma write_items_prefix:
  "write_items rs ds wire = Some (left, wire', finished) \<Longrightarrow> \<exists>rest. wire' @ rest = wire @ concat ds"
proof (induction ds arbitrary: rs wire)
  case (Cons d ds)
  from Cons.prems obtain rs' l w where w: "write_item rs d 0 (length d) wire = Some (rs', l, w)"
    by (auto split: option.splits)
  note pre = write_item_prefix[OF w, simplified]
  show ?case
  proof (cases l)
    case None
    with Cons.prems w have "write_items rs' ds w = Some (left, wire', finished)" by simp
    from Cons.IH[OF this] pre None show ?thesis by simp
  next
    case (Some d')
    with Cons.prems w have "wire' = w" by simp
    with pre show ?thesis by (metis append.assoc concat.simps(2))
  qed
qed simp

text \<open>A socket that takes nothing leaves the wire as it is.\<close>

lemma write_item_refused:
  "write_item rs d sent want wire = Some (rs', left, wire') \<Longrightarrow> \<forall>k. W_Accept k \<in> set rs \<longrightarrow> k = 0 \<Longrightarrow>
   wire' = wire \<and> left \<noteq> None"
proof (induction rs arbitrary: sent want wire)
  case (Cons r rs)
  then show ?case by (cases r) (auto simp: Let_def)
qed simp

lemma write_items_refused:
  assumes "write_items rs ds wire = Some (left, wire', finished)" "\<forall>k. W_Accept k \<in> set rs \<longrightarrow> k = 0"
  shows "wire' = wire"
  using assms by (cases ds) (auto dest!: write_item_refused split: option.splits)

text \<open>
  One connection: sends and write events in any order, until the connection is closed. \<open>accepted\<close> is everything
  accepted for sending; \<open>alive\<close> tells that no write was answered with a reset, after which the socket takes nothing
  more.
\<close>

inductive io_reach :: "base_conn \<Rightarrow> bytes \<Rightarrow> bytes \<Rightarrow> bool \<Rightarrow> bool" where
  io_start: "send_list c = [] \<Longrightarrow> write_event c = None \<Longrightarrow> io_reach c [] [] True"
| io_send: "io_reach c wire accepted alive \<Longrightarrow> normal_send evt d c = (ret, c') \<Longrightarrow>
     io_reach c' wire (if ret = 0 then accepted @ d else accepted) alive"
| io_write: "io_reach c wire accepted alive \<Longrightarrow> \<not> alive \<longrightarrow> (\<forall>k. W_Accept k \<in> set rs \<longrightarrow> k = 0) \<Longrightarrow>
     write_callback del_ok rs c wire = Some (c', wire', fin) \<Longrightarrow> io_reach c' wire' accepted (alive \<and> W_Reset \<notin> set rs)"

lemma io_reach_inv:
  "io_reach c wire accepted alive \<Longrightarrow> (\<exists>rest. wire @ rest = accepted) \<and>
     (alive \<longrightarrow> wire @ concat (send_list c) = accepted) \<and> (send_list c \<noteq> [] \<longrightarrow> write_event c = Some True)"
proof (induction rule: io_reach.induct)
  case (io_send c wire accepted alive evt d ret c')
  then show ?case by (auto simp: normal_send_def split: option.splits if_splits)
next
  case (io_write c wire accepted alive rs del_ok c' wire' fin)
  from io_write(3) obtain left where l: "write_items rs (send_list c) wire = Some (left, wire', fin)"
    "c' = (if fin \<and> left = [] \<and> del_ok then c\<lparr>send_list := left, write_event := Some False\<rparr> else c\<lparr>send_list := left\<rparr>)"
    by (auto simp: write_callback_def Let_def split: option.splits)
  have "left \<noteq> [] \<Longrightarrow> send_list c \<noteq> []" using l(1) by auto
  then have evt: "send_list c' \<noteq> [] \<longrightarrow> write_event c' = Some True" using l(2) io_write.IH by auto
  show ?case
  proof (cases alive)
    case True
    with io_write.IH write_items_prefix[OF l(1)] have "\<exists>rest. wire' @ rest = accepted" by auto
    moreover have "W_Reset \<notin> set rs \<Longrightarrow> wire' @ concat (send_list c') = accepted"
      using write_items_stream[OF l(1)] io_write.IH l(2) True by auto
    ultimately show ?thesis using evt by blast
  next
    case False
    with write_items_refused[OF l(1)] io_write.hyps(2) have "wire' = wire" by blast
    with io_write.IH evt False show ?thesis by blast
  qed
qed simp

subsection \<open>When the write callback returns\<close>

lemma write_item_accepts:
  assumes "\<forall>r \<in> set rs. \<exists>k > 0. r = W_Accept k" "0 < want" "want \<le> length rs" "sent + want = length d"
  shows "\<exists>m. 0 < m \<and> m \<le> want \<and> write_item rs d sent want wire = Some (drop m rs, None, wire @ drop sent d)"
  using assms
proof (induction rs arbitrary: sent want wire)
  case (Cons r rs)
  from Cons.prems(1) obtain k where k: "r = W_Accept k" "0 < k" by auto
  define n where "n = min k want"
  have n: "0 < n" "n \<le> want" using k(2) Cons.prems(2) by (simp_all add: n_def)
  show ?case
  proof (cases "n = want")
    case True
    with Cons.prems(2,4) k n have "write_item (r # rs) d sent want wire = Some (drop 1 (r # rs), None, wire @ drop sent d)"
      by (simp add: n_def[symmetric] Let_def)
    with Cons.prems(2) show ?thesis by (intro exI[of _ 1]) simp
  next
    case False
    have "\<exists>m. 0 < m \<and> m \<le> want - n \<and> write_item rs d (sent + n) (want - n) (wire @ take n (drop sent d)) =
        Some (drop m rs, None, (wire @ take n (drop sent d)) @ drop (sent + n) d)"
      by (rule Cons.IH) (use Cons.prems n False in auto)
    then obtain m where m: "0 < m" "m \<le> want - n"
      "write_item rs d (sent + n) (want - n) (wire @ take n (drop sent d)) =
        Some (drop m rs, None, (wire @ take n (drop sent d)) @ drop (sent + n) d)" by blast
    have "take n (drop sent d) @ drop (sent + n) d = drop sent d"
      by (metis append_take_drop_id drop_drop add.commute)
    with m(3) k n False Cons.prems(4)
    have "write_item (r # rs) d sent want wire = Some (drop (Suc m) (r # rs), None, wire @ drop sent d)"
      by (simp add: n_def[symmetric] Let_def)
    with m(1,2) n show ?thesis by (intro exI[of _ "Suc m"]) auto
  qed
qed simp

lemma write_items_accepts:
  assumes "\<forall>r \<in> set rs. \<exists>k > 0. r = W_Accept k" "[] \<notin> set ds" "length (concat ds) \<le> length rs"
  shows "write_items rs ds wire = Some ([], wire @ concat ds, True)"
  using assms
proof (induction ds arbitrary: rs wire)
  case (Cons d ds)
  have "0 < length d" using Cons.prems(2) by auto
  then obtain m where m: "m \<le> length d" "write_item rs d 0 (length d) wire = Some (drop m rs, None, wire @ d)"
    using write_item_accepts[OF Cons.prems(1), of "length d" 0 d wire] Cons.prems(3) by auto
  have "write_items (drop m rs) ds (wire @ d) = Some ([], (wire @ d) @ concat ds, True)"
    by (rule Cons.IH) (use Cons.prems m(1) in_set_dropD in \<open>fastforce+\<close>)
  with m(2) show ?case by simp
qed simp

lemma write_item_empty: "\<forall>r \<in> set rs. r = W_Eintr \<or> (\<exists>k. r = W_Accept k) \<Longrightarrow> write_item rs [] 0 0 wire = None"
  by (induction rs) auto

subsection \<open>The read callback and the stream\<close>

lemma sock_fd_live:
  assumes "pl_inv s" "conn_heap (conns s) p = Some c"
  shows "get_conn_by_sock_fd (conns s) (sock_fd c) = p" "p \<noteq> 0"
  using links_heapD[OF pl_inv_links[OF assms(1)] assms(2)] by (auto simp: get_conn_by_sock_fd_def)

lemma read_loop_data:
  assumes "pl_inv s" "conn_heap (conns s) p = Some c" "tame e (the_guid c)" "\<forall>m \<in> set ms. deliverable s m"
    and "recv_data c @ concat chunks = concat (map (frame (codec_ctx s)) ms)"
    and "clean_cuts (map (\<lambda>m. length (frame (codec_ctx s) m)) ms) (length (recv_data c)) chunks"
  shows "read_loop e p (sock_fd c) (map R_Data chunks @ rs) s =
    read_loop e p (sock_fd c) rs (recv_all (the_guid c) (map (Pair e) chunks) s)"
  using assms
proof (induction chunks arbitrary: s c ms)
  case (Cons x chunks)
  note inv = Cons.prems(1) and c = Cons.prems(2)
  let ?s' = "on_recv_client_data e (the_guid c) x s"
  obtain ms1 ms2 part where cut: "ms = ms1 @ ms2" "served s p c part ms1 ?s'"
    "part @ concat chunks = concat (map (frame (codec_ctx s)) ms2)"
    "clean_cuts (map (\<lambda>m. length (frame (codec_ctx s) m)) ms2) (length part) chunks"
    "concat chunks = [] \<longrightarrow> part = [] \<and> ms2 = []"
    by (rule recv_chunk[OF inv c Cons.prems(3,4), of x "concat chunks" chunks]) (use Cons.prems(5,6) in simp_all)
  from cut(2) obtain c' where s': "pl_inv ?s'" "same_setup s ?s'" "conn_heap (conns ?s') p = Some c'"
    "the_guid c' = the_guid c" "recv_data c' = part" "sock_fd c' = sock_fd c" unfolding served_def by blast
  have ctx: "codec_ctx ?s' = codec_ctx s" using s'(2) by (simp add: same_setup_def)
  have "read_loop e p (sock_fd c') (map R_Data chunks @ rs) ?s' =
      read_loop e p (sock_fd c') rs (recv_all (the_guid c') (map (Pair e) chunks) ?s')"
    by (rule Cons.IH[OF s'(1,3)])
      (use Cons.prems(3,4) cut(1,3,4) same_setup_deliverable[OF s'(2)] s'(4,5) in \<open>simp_all add: ctx\<close>)
  with s'(4,6) sock_fd_live[OF inv c] c Cons.prems(6) show ?case by (simp add: recv_all_def Let_def)
qed (simp add: recv_all_def)


subsection \<open>The callbacks keep the invariant\<close>

lemma sock_fd_nonzero:
  assumes "pl_inv s" "get_conn_by_sock_fd (conns s) fd \<noteq> 0"
  obtains c where "conn_heap (conns s) (get_conn_by_sock_fd (conns s) fd) = Some c" "sock_fd c = fd"
  using assms(2) links_hashD[OF pl_inv_links[OF assms(1)], of fd]
  by (auto simp: get_conn_by_sock_fd_def split: option.splits)

lemma status_inv:
  assumes inv: "pl_inv s"
  obtains ret cc where "update_conn_status now cid inward (conns s) = Inr (ret, cc)" "pl_keeps s (set_center cc s)"
    "conn_heap cc = conn_heap (conns s)"
proof -
  obtain ret cc where u: "update_conn_status now cid inward (conns s) = Inr (ret, cc)" "cc_inv cc"
    "conn_heap cc = conn_heap (conns s)" "conn_id_hash_map cc = conn_id_hash_map (conns s)"
    by (rule update_conn_status_ok[OF pl_inv_cc[OF inv]])
  have "pl_inv (set_center cc s)" using u(2-4) by (auto intro!: pl_inv_center[OF inv])
  with u(1,3) show ?thesis by (intro that[of ret cc]) (simp_all add: pl_keeps_def)
qed

lemmas sink_closed_inv = app_rel_inv[OF sink_client_closed_rel(1)]

text \<open>
  While the loop runs, the connection it found stays the one of its socket, or the socket has none.
\<close>

lemma read_loop_keeps:
  assumes "readable e" "quiet e" "pl_inv s" "get_conn_by_sock_fd (conns s) fd = p" "p \<noteq> 0"
    "read_loop e p fd rs s = Some (closed, s')"
  shows "pl_keeps s s' \<and> (closed \<longrightarrow> get_conn_by_sock_fd (conns s') fd = p)"
  using assms(3-)
proof (induction rs arbitrary: s)
  case (Cons r rs)
  note inv = Cons.prems(1)
  show ?case
  proof (cases "\<exists>d. r = R_Data d \<and> d \<noteq> []")
    case True
    then obtain d where d: "r = R_Data d" "d \<noteq> []" by blast
    obtain c where c: "conn_heap (conns s) p = Some c" "sock_fd c = fd"
      using sock_fd_nonzero[OF inv] Cons.prems(2,3) by metis
    let ?t = "on_recv_client_data e (the_guid c) d s"
    note k = on_recv_client_data_keeps[OF assms(1,2) inv c(1), of d]
    have run: "read_loop e p fd rs ?t = Some (closed, s')" using Cons.prems(2-4) d c(1) by simp
    show ?thesis
    proof (cases "get_conn_by_sock_fd (conns ?t) fd = 0")
      case True
      with run have "s' = ?t" "\<not> closed" by (cases rs; simp)+
      with k show ?thesis by simp
    next
      case False
      let ?q = "get_conn_by_sock_fd (conns ?t) fd"
      obtain c' where "conn_heap (conns ?t) ?q = Some c'" "sock_fd c' = fd"
        using sock_fd_nonzero[OF pl_keeps_inv[OF k] False] .
      with k obtain c0 where "conn_heap (conns s) ?q = Some c0" "sock_fd c0 = fd"
        unfolding pl_keeps_def by metis
      with sock_fd_live(1)[OF inv, of ?q c0] Cons.prems(2) have "?q = p" by simp
      from Cons.IH[OF pl_keeps_inv[OF k] this Cons.prems(3) run] pl_keeps_trans[OF k] show ?thesis by blast
    qed
  qed (use Cons.prems Cons.IH[OF inv] pl_keeps_refl[OF inv] in \<open>auto split: read_res.splits if_splits\<close>)
qed simp

lemma normal_read_callback_inv:
  assumes e: "readable e" "quiet e" and inv: "pl_inv s" and run: "normal_read_callback e fd evs rs s = Some s'"
  shows "pl_inv s'"
proof -
  let ?p = "get_conn_by_sock_fd (conns s) fd"
  consider "s' = s" | c where "?p \<noteq> 0" "conn_heap (conns s) ?p = Some c" "sock_fd c = fd"
    using run sock_fd_nonzero[OF inv, of fd] by (cases "?p = 0") (auto simp: normal_read_callback_def)
  then show ?thesis
  proof cases
    case 2
    obtain ret cc where u: "update_conn_status (clock e) (c_id c) True (conns s) = Inr (ret, cc)"
      "pl_keeps s (set_center cc s)" "conn_heap cc = conn_heap (conns s)" by (rule status_inv[OF inv])
    let ?s1 = "set_center cc s"
    have inv1: "pl_inv ?s1" and c1: "conn_heap (conns ?s1) ?p = Some c" using u(2,3) 2(2) by (simp_all add: pl_keeps_def)
    have p1: "get_conn_by_sock_fd (conns ?s1) fd = ?p" using sock_fd_live(1)[OF inv1 c1] 2(3) by simp
    have "pl_inv (if closed then sink_client_closed e ?p s2 else s2)"
      if "read_loop e ?p fd rs ?s1 = Some (closed, s2)" for closed s2
    proof -
      from read_loop_keeps[OF e inv1 p1 2(1) that]
      have r: "pl_inv s2" "closed \<Longrightarrow> get_conn_by_sock_fd (conns s2) fd = ?p" by (auto simp: pl_keeps_def)
      show ?thesis using r sock_fd_nonzero[OF r(1), of fd] 2(1) sink_closed_inv[OF r(1) _ e(2)] by (cases closed) auto
    qed
    with run 2 u(1) inv sink_closed_inv[OF inv 2(2) e(2)] sink_closed_inv[OF inv1 c1 e(2)] show ?thesis
      by (auto simp: normal_read_callback_def Let_def split: if_splits)
  qed (use inv in simp)
qed

lemma buffer_callbacks_inv:
  assumes "pl_inv s" "quiet e"
  shows "readable e \<Longrightarrow> pl_inv (buffer_read_callback e fd input s)"
    and "pl_inv (buffer_event_callback e fd evs input s)"
proof -
  let ?p = "get_conn_by_sock_fd (conns s) fd"
  show "pl_inv (buffer_event_callback e fd evs input s)"
    using assms sock_fd_nonzero[OF assms(1), of fd] sink_closed_inv[OF assms(1) _ assms(2)]
    by (cases "?p = 0") (auto simp: buffer_event_callback_def)
  assume e: "readable e"
  show "pl_inv (buffer_read_callback e fd input s)"
  proof (cases "?p = 0")
    case False
    then obtain c where c: "conn_heap (conns s) ?p = Some c" using sock_fd_nonzero[OF assms(1)] by blast
    obtain ret cc where u: "update_conn_status (clock e) (c_id c) True (conns s) = Inr (ret, cc)"
      "pl_keeps s (set_center cc s)" "conn_heap cc = conn_heap (conns s)" by (rule status_inv[OF assms(1)])
    have c1: "conn_heap (conns (set_center cc s)) ?p = Some c" using u(3) c by simp
    note inv1 = pl_keeps_inv[OF u(2)]
    from c u(1) inv1 assms sink_closed_inv[OF inv1 c1 assms(2)] on_recv_client_data_inv[OF e assms(2) inv1 c1] show ?thesis
      by (simp add: buffer_read_callback_def Let_def)
  qed (use assms in \<open>simp add: buffer_read_callback_def\<close>)
qed

lemma normal_write_callback_inv:
  assumes inv: "pl_inv s" and p: "conn_heap (conns s) p = Some c"
    and run: "normal_write_callback e del_ok rs p wire s = Some (wire', s')"
  shows "pl_keeps s s'"
proof -
  from run p obtain c' fin where w: "write_callback del_ok rs c wire = Some (c', wire', fin)"
    by (auto simp: normal_write_callback_def Let_def split: option.splits if_splits sum.splits)
  then have same: "the_guid c' = the_guid c" "sock_fd c' = sock_fd c"
    by (auto simp: write_callback_def Let_def split: option.splits if_splits)
  let ?t = "set_center ((conns s)\<lparr>conn_heap := (conn_heap (conns s))(p \<mapsto> c')\<rparr>) s"
  have t: "pl_keeps s ?t" using pl_inv_conn[OF inv p same] p same by (auto simp: pl_keeps_def)
  obtain ret cc where u: "update_conn_status (clock e) (c_id c') False (conns ?t) = Inr (ret, cc)"
    "pl_keeps ?t (set_center cc ?t)" "conn_heap cc = conn_heap (conns ?t)"
    by (rule status_inv[OF pl_keeps_inv[OF t]])
  have "set_center cc ?t = set_center cc s" by (simp add: set_center_def)
  with run p w t u(1) pl_keeps_trans[OF t u(2)] show ?thesis
    by (auto simp: normal_write_callback_def Let_def split: if_splits)
qed

lemma sink_on_task_inv:
  assumes inv: "pl_inv s" and quiet: "quiet e" and len: "task_type t = TASK_TYPE_NORMAL \<longrightarrow> length (task_data t) = 0 \<or> 12 \<le> length (task_data t)"
  shows "pl_inv (sink_on_task e ctx disp t s)"
proof -
  have "pl_inv (snd (tcp_send_to_client e guid data s))" for guid data
  proof (cases "io_thread_idx guid = self_idx s \<and> get_conn_by_id (conns s) (conn_id guid) \<noteq> 0")
    case True
    then obtain c where "conn_heap (conns s) (get_conn_by_id (conns s) (conn_id guid)) = Some c"
      using get_conn_by_id_nonzero[OF inv] by blast
    from app_rel_inv[OF conjunct1[OF conn_send_rel[OF inv this]]] True show ?thesis
      by (simp add: tcp_send_to_client_def Let_def)
  qed (use inv in \<open>auto simp: tcp_send_to_client_def Let_def\<close>)
  moreover have "pl_inv (snd (close_client e guid s))" for guid by (rule app_rel_inv[OF close_client_rel(1)[OF inv quiet]])
  moreover have "pl_inv (fold (app_step e) ops (s\<lparr>events := es\<rparr>))" for ops es
    by (rule app_rel_inv[OF app_steps_rel]) (simp_all add: inv quiet)
  ultimately show ?thesis
    using inv len decode_12[of "task_data t" ctx] on_task_inv[OF inv quiet, of "task_data t" "task_guid t"]
    by (auto simp: sink_on_task_def dispatch_msg_def split: decode_result.splits option.splits)
qed

text \<open>
  Everything that happens in a TCP thread: new connections, events on sockets, tasks, requests,
  timers and the stop. A write event is pending only for a connection there is; the memory behind
  a string can be read; a task for a handler carries at least a message head. Logics that are told of a lost
  connection close none of this thread (\<open>quiet\<close>), those that are told of a new one do not close that one.
\<close>

inductive io_step :: "proto_logic \<Rightarrow> proto_logic \<Rightarrow> bool" where
  io_logic: "pl_step s s' \<Longrightarrow> io_step s s'"
| io_readable: "readable e \<Longrightarrow> quiet e \<Longrightarrow> normal_read_callback e fd evs rs s = Some s' \<Longrightarrow> io_step s s'"
| io_writable: "conn_heap (conns s) p = Some c \<Longrightarrow>
     normal_write_callback e del_ok ws p wire s = Some (wire', s') \<Longrightarrow> io_step s s'"
| io_bev_read: "readable e \<Longrightarrow> quiet e \<Longrightarrow> io_step s (buffer_read_callback e fd input s)"
| io_bev_event: "quiet e \<Longrightarrow> io_step s (buffer_event_callback e fd bevs input s)"
| io_task: "quiet e \<Longrightarrow> task_type t = TASK_TYPE_NORMAL \<longrightarrow> length (task_data t) = 0 \<or> 12 \<le> length (task_data t) \<Longrightarrow>
     io_step s (sink_on_task e ctx disp t s)"
| io_stop: "io_step s (s\<lparr>sink := (sink s)\<lparr>stopping := True\<rparr>\<rparr>)"

lemma io_step_inv: "io_step s s' \<Longrightarrow> pl_inv s \<Longrightarrow> pl_inv s'"
proof (induction rule: io_step.induct)
  case (io_stop s)
  then show ?case by (simp add: pl_inv_def sink_inv_def)
qed (auto intro: pl_step_inv normal_read_callback_inv pl_keeps_inv[OF normal_write_callback_inv]
    buffer_callbacks_inv sink_on_task_inv)

subsection \<open>Properties\<close>

text \<open>
  Claim C10: whatever clients send, sockets answer, other threads ask for and message handlers request, a
  TCP thread never uses a freed connection and never reads outside a buffer that can be read, as long as the logics
  do not close a connection of this thread when they are told that one was lost, nor the new connection when they are
  told of it. They may send anything then, and close connections of other threads; logics told of a new connection may
  also close other ones. (A logic that closes the connections it is told are lost, or two idle ones at once, does bring
  the thread to a freed connection or to the end of its stack: \<open>idle_check_dangling\<close>, \<open>self_close_overflows\<close>.) In
  every state it can get into, every connection is filed under its id and belongs to this thread,
  the online counter is exact, and every watched incomplete message belongs to a live connection
  and carries its id.
\<close>

theorem tcp_thread_safe:
  assumes "io_step\<^sup>*\<^sup>* (pl_init (cc_init bev clife interval threshold) limit idx ctx d life workers i) s"
  shows "fault s = None \<and>
    online_tcp_conn_count (sink s) = int (card (dom (conn_id_hash_map (conns s)))) \<and>
    (\<forall>p c. conn_heap (conns s) p = Some c \<longrightarrow>
       get_conn_by_id (conns s) (c_id c) = p \<and> io_thread_idx (the_guid c) = self_idx s) \<and>
    (\<forall>p guid secs. get_record (part_msgs s) p = Some (guid, secs) \<longrightarrow>
       (\<exists>c. conn_heap (conns s) p = Some c \<and> the_guid c = guid))"
proof -
  from assms have "pl_inv s" by (induction rule: rtranclp_induct) (auto intro: io_step_inv pl_inv_init)
  then show ?thesis by (rule pl_inv_facts)
qed

theorem tcp_thread_safe_witness:
  "\<exists>s1. pl_accept test_env 100 IO_TYPE_TCP ''c'' 9 7
      (pl_init (cc_init True 10 5 3) 2 0 \<lparr>max_msg_body_len = 64, do_checksum = True\<rparr> Map.empty 30 None 0) = Some (Inr s1) \<and>
    fault (buffer_event_callback test_env 7 \<lparr>bev_error = False, bev_eof = True, bev_reading = True\<rparr> [] s1) = None"
proof -
  let ?s = "pl_init (cc_init True 10 5 3) 2 0 \<lparr>max_msg_body_len = 64, do_checksum = True\<rparr> Map.empty 30 None 0"
  let ?t = "buffer_event_callback test_env 7 \<lparr>bev_error = False, bev_eof = True, bev_reading = True\<rparr> []"
  have s: "conn_heap (conns ?s) 100 = None" "conn_hash_map (conns ?s) 7 = None" by (simp_all add: pl_init_def cc_init_def)
  obtain s1 where s1: "pl_accept test_env 100 IO_TYPE_TCP ''c'' 9 7 ?s = Some (Inr s1)"
    by (rule pl_accept_inv[OF pl_inv_init test_quiet s(1) _ s(2), of IO_TYPE_TCP "''c''" 9]) simp_all
  have "io_step ?s s1" by (rule io_logic[OF step_accept[OF test_quiet s(1) _ s(2) s1]]) simp
  moreover have "io_step s1 (?t s1)" by (rule io_bev_event[OF test_quiet(1)])
  ultimately have "io_step\<^sup>*\<^sup>* ?s (?t s1)"
    by (meson rtranclp.rtrancl_into_rtrancl rtranclp.rtrancl_refl)
  from tcp_thread_safe[OF this] s1 show ?thesis by blast
qed

text \<open>
  Claim C11: what is sent on a connection arrives in order and complete, as long as the peer does not reset it. Under
  any order of sends and write events and however the socket cuts the data, interrupts, refuses or resets, the bytes
  the socket has taken are always the first bytes of the accepted sends; until a write is answered with a reset, those
  still queued are exactly the rest of them. As long as something is queued the write event is pending. After a reset, when the
  socket takes nothing any more, the queue can hold bytes that were sent already.
\<close>

theorem wire_stream_exact:
  assumes "io_reach c wire accepted alive"
  shows "(\<exists>rest. wire @ rest = accepted) \<and> (alive \<longrightarrow> wire @ concat (send_list c) = accepted) \<and>
    (send_list c \<noteq> [] \<longrightarrow> write_event c = Some True)"
  using io_reach_inv[OF assms] .

theorem wire_stream_exact_witness:
  "(\<exists>c. io_reach c [1, 2] [1, 2, 3, 4] True \<and> send_list c = [[3], [4]] \<and> write_event c = Some True) \<and>
   (\<exists>c. io_reach c [1, 2, 3] [1, 2, 3, 4] False \<and> write_event c = Some True)"
proof -
  let ?c0 = "base_conn_init False"
  let ?c1 = "?c0\<lparr>write_event := Some True, send_list := [[1, 2, 3]]\<rparr>"
  let ?c2 = "?c1\<lparr>send_list := [[1, 2, 3], [4]]\<rparr>"
  let ?c3 = "?c1\<lparr>send_list := [[3], [4]]\<rparr>" and ?c4 = "?c1\<lparr>send_list := [[4]]\<rparr>"
  have 0: "io_reach ?c0 [] [] True" by (rule io_start) (simp_all add: base_conn_init_def)
  have "normal_send test_ev [1, 2, 3] ?c0 = (0, ?c1)"
    by (simp add: normal_send_def base_conn_init_def test_ev_def)
  from io_send[OF 0 this] have 1: "io_reach ?c1 [] [1, 2, 3] True" by simp
  have "normal_send test_ev [4] ?c1 = (0, ?c2)" by (simp add: normal_send_def)
  from io_send[OF 1 this] have 2: "io_reach ?c2 [] [1, 2, 3, 4] True" by simp
  have "write_callback True [W_Eintr, W_Accept 2, W_Eagain] ?c2 [] = Some (?c3, [1, 2], False)"
    by (simp add: write_callback_def Let_def)
  from io_write[OF 2 _ this] have 3: "io_reach ?c3 [1, 2] [1, 2, 3, 4] True" by simp
  have "write_callback True [W_Accept 1, W_Reset] ?c3 [1, 2] = Some (?c4, [1, 2, 3], False)"
    by (simp add: write_callback_def Let_def)
  from io_write[OF 3 _ this] have 4: "io_reach ?c4 [1, 2, 3] [1, 2, 3, 4] False" by simp
  from wire_stream_exact[OF 3] wire_stream_exact[OF 4] show ?thesis
    using 3 4 by (intro conjI exI[of _ ?c3] exI[of _ ?c4]) simp_all
qed

text \<open>
  The write callback returns when no queued entry is empty: if the socket takes at least
  one byte each time, as many calls as there are bytes suffice, the queue is empty afterwards and
  everything is on the wire. But nothing rejects an empty send, and with an empty entry in front
  the callback never returns: a write of no bytes returns 0, which is taken for a reason to try
  again, and so the thread hangs, however often the socket answers.
\<close>

theorem empty_send_spins:
  "([] \<notin> set ds \<and> (\<forall>r \<in> set rs. \<exists>k > 0. r = W_Accept k) \<and> length (concat ds) \<le> length rs \<longrightarrow>
      write_callback True rs (c\<lparr>send_list := ds\<rparr>) wire =
        Some (c\<lparr>send_list := [], write_event := Some False\<rparr>, wire @ concat ds, True)) \<and>
   fst (normal_send evt [] c) = fst (normal_send evt data c) \<and>
   ((\<forall>r \<in> set rs. r = W_Eintr \<or> (\<exists>k. r = W_Accept k)) \<longrightarrow>
      write_callback True rs (c\<lparr>send_list := [] # ds\<rparr>) wire = None)"
  using write_items_accepts[of rs ds wire] write_item_empty[of rs wire]
  by (auto simp: write_callback_def normal_send_def Let_def split: option.splits if_splits)

theorem empty_send_spins_witness:
  "write_callback True [W_Accept 1, W_Accept 5] ((base_conn_init False)\<lparr>send_list := [[7, 8]]\<rparr>) [] =
     Some ((base_conn_init False)\<lparr>send_list := [], write_event := Some False\<rparr>, [7, 8], True) \<and>
   write_callback True (replicate 1000 (W_Accept 4096)) ((base_conn_init False)\<lparr>send_list := [[], [7]]\<rparr>) [] = None"
  using empty_send_spins[of "[[7, 8]]" "[W_Accept 1, W_Accept 5]" "base_conn_init False" "[]"]
    empty_send_spins[of "[[7]]" "replicate 1000 (W_Accept 4096)" "base_conn_init False" "[]"]
  by (simp add: set_replicate_conv_if)

text \<open>
  Claim C2: from the socket to the handlers. When a live connection becomes readable, its thread
  is not stopping and the connection is within its storm limit, the read callback takes what the
  socket holds, chunk by chunk, and, if no chunk ends inside a length field, no handler closes the
  connection the messages come from and no logic that is told of a lost connection closes one of this thread, calls the handlers once for every message of the stream (each within the
  size limit, with a registered handler and no heartbeat), in order, with the head and body that were sent. If the
  socket is then empty the connection stays, with nothing left over; if the peer has closed it, it is destroyed after
  the last message.
\<close>

theorem socket_stream_delivered:
  fixes ms :: "msg list"
  assumes "pl_inv s" "conn_heap (conns s) p = Some c" "recv_data c = []" "\<not> stopping (sink s)"
    and "tame e (the_guid c)" "\<forall>m \<in> set ms. deliverable s m"
    and "concat chunks = concat (map (\<lambda>(head, body).
           encode_new (codec_ctx s) (replicate (17 + length body) 0) head (Some body) (length body)) ms)"
    and "clean_cuts (map (\<lambda>m. 16 + length (snd m)) ms) 0 chunks" "chunks \<noteq> []"
    and "update_conn_status (clock e) (c_id c) True (conns s) = Inr (0, cc)"
  defines "run \<equiv> normal_read_callback e (sock_fd c) \<lparr>ev_closed = False, ev_read = True\<rparr>"
    and "delivered \<equiv> calls s @ map (\<lambda>(head, body). Called (the (dispatcher s (msg_id head))) (the_guid c) head body) ms"
  shows "(\<exists>s'. run (map R_Data chunks @ [R_Eagain]) s = Some s' \<and> pl_inv s' \<and> calls s' = delivered \<and>
            (\<exists>c'. conn_heap (conns s') p = Some c' \<and> the_guid c' = the_guid c \<and> recv_data c' = [])) \<and>
         (\<exists>s'. run (map R_Data chunks @ [R_Data []]) s = Some s' \<and> pl_inv s' \<and> calls s' = delivered \<and>
            conn_heap (conns s') p = None)"
proof -
  let ?s1 = "set_center cc s"
  let ?s' = "recv_all (the_guid c) (map (Pair e) chunks) ?s1"
  have u: "cc_inv cc" "conn_heap cc = conn_heap (conns s)" "conn_id_hash_map cc = conn_id_hash_map (conns s)"
    using assms(10) update_conn_status_ok[OF pl_inv_cc[OF assms(1)], of "clock e" "c_id c" True] by auto
  have s1: "pl_inv ?s1" "conn_heap (conns ?s1) p = Some c"
    using u assms(2) by (auto intro!: pl_inv_center[OF assms(1)])
  have f: "(\<lambda>(head, body). encode_new (codec_ctx s) (replicate (17 + length body) 0) head (Some body) (length body)) =
      frame (codec_ctx ?s1)"
    by (auto simp: fun_eq_iff frame_def encode_new_Some)
  have l: "(\<lambda>m. length (frame (codec_ctx ?s1) m)) = (\<lambda>m. 16 + length (snd m))"
    by (auto simp: fun_eq_iff frame_def)
  have cfg: "same_setup s ?s1" by (simp add: same_setup_def)
  have del: "\<forall>m \<in> set ms. deliverable ?s1 m" using assms(6) same_setup_deliverable[OF cfg] by simp
  have g: "call_of ?s1 (the_guid c) = (\<lambda>(head, body). Called (the (dispatcher s (msg_id head))) (the_guid c) head body)"
    by (auto simp: fun_eq_iff call_of_def)
  have stream: "recv_data c @ concat chunks = concat (map (frame (codec_ctx ?s1)) ms)"
    "clean_cuts (map (\<lambda>m. length (frame (codec_ctx ?s1) m)) ms) (length (recv_data c)) chunks"
    using assms(3,7,8) by (simp_all only: f l) simp_all
  have sv: "served ?s1 p c [] ms ?s'"
    by (rule recv_all_msgs[OF s1]) (use assms(5,9) del stream in \<open>simp_all add: comp_def\<close>)
  then obtain c' where c': "pl_inv ?s'" "conn_heap (conns ?s') p = Some c'" "the_guid c' = the_guid c"
    "recv_data c' = []" "sock_fd c' = sock_fd c" "calls ?s' = calls s @ map (call_of ?s1 (the_guid c)) ms"
    unfolding served_def by auto
  have q: "quiet e" using assms(5) by (simp add: tame_def)
  have cb: "run (map R_Data chunks @ rs) s =
      map_option (\<lambda>(closed, s2). if closed then sink_client_closed e p s2 else s2) (read_loop e p (sock_fd c) rs ?s')" for rs
    using sock_fd_live[OF assms(1,2)] assms(2,4,10) read_loop_data[OF s1 assms(5) del stream]
    by (simp add: run_def normal_read_callback_def Let_def)
  note fd = sock_fd_live[OF c'(1,2), unfolded c'(5)]
  have calls: "calls ?s' = delivered" using c'(6) g by (simp add: delivered_def)
  have "run (map R_Data chunks @ [R_Eagain]) s = Some ?s'" using cb[of "[R_Eagain]"] fd by simp
  moreover have "run (map R_Data chunks @ [R_Data []]) s = Some (sink_client_closed e p ?s')"
    using cb[of "[R_Data []]"] fd by simp
  moreover note cl = sink_client_closed_rel[OF c'(1,2) q]
  have "pl_inv (sink_client_closed e p ?s')" "calls (sink_client_closed e p ?s') = delivered"
    "conn_heap (conns (sink_client_closed e p ?s')) p = None"
    using cl(1,2) calls by (auto simp: app_rel_def)
  ultimately show ?thesis using c'(1-4) calls by simp
qed

theorem socket_stream_delivered_witness:
  "let f = (\<lambda>(head, body). encode_new \<lparr>max_msg_body_len = 64, do_checksum = True\<rparr>
             (replicate (17 + length body) 0) head (Some body) (length body));
       m1 = (\<lparr>passback = 1, msg_id = 5\<rparr>, [7]); m2 = (\<lparr>passback = 2, msg_id = 5\<rparr>, [])
   in \<exists>s'. normal_read_callback test_env 7 \<lparr>ev_closed = False, ev_read = True\<rparr>
        [R_Data (take 6 (f m1)), R_Data (drop 6 (f m1) @ f m2), R_Data []] test_pl = Some s' \<and>
        conn_heap (conns s') 100 = None \<and>
        calls s' = [Called 9 test_guid \<lparr>passback = 1, msg_id = 5\<rparr> [7], Called 9 test_guid \<lparr>passback = 2, msg_id = 5\<rparr> []]"
proof -
  let ?ctx = "\<lparr>max_msg_body_len = 64, do_checksum = True\<rparr>"
  let ?f = "(\<lambda>(head, body). encode_new ?ctx (replicate (17 + length body) 0) head (Some body) (length body))"
  let ?m1 = "(\<lparr>passback = 1, msg_id = 5\<rparr>, [7]) :: msg"
  let ?m2 = "(\<lparr>passback = 2, msg_id = 5\<rparr>, []) :: msg"
  let ?c = "new_conn (cc_init False 10 5 3) 50 IO_TYPE_TCP 0 ''c'' 9 7 1"
  let ?ch = "[take 6 (?f ?m1), drop 6 (?f ?m1) @ ?f ?m2]"
  have len: "length (?f ?m1) = 17" "length (?f ?m2) = 16" by (simp_all add: encode_new_Some)
  have 1: "concat ?ch = concat (map ?f [?m1, ?m2])" by simp
  have 2: "clean_cuts (map (\<lambda>m. 16 + length (snd m)) [?m1, ?m2]) 0 ?ch" using len by (auto simp: Let_def)
  have 3: "\<forall>m \<in> set [?m1, ?m2]. deliverable test_pl m"
    by (simp add: deliverable_def test_pl_def sendable_def max_total_def)
  have 4: "\<exists>cc. update_conn_status (clock test_env) (c_id ?c) True (conns test_pl) = Inr (0, cc)"
    by (simp add: update_conn_status_def test_pl_def test_env_def two_conns_def cc_init_def client_ctx_init_def Let_def)
  then obtain cc where 4: "update_conn_status (clock test_env) (c_id ?c) True (conns test_pl) = Inr (0, cc)" ..
  have 5: "recv_data ?c = []" "sock_fd ?c = 7" by (simp_all add: new_conn_def base_conn_init_def)
  have 6: "\<not> stopping (sink test_pl)" by (simp add: test_pl_def two_conns_def Let_def)
  have ctx: "codec_ctx test_pl = ?ctx" "dispatcher test_pl = [5 \<mapsto> 9]" "calls test_pl = []"
    by (simp_all add: test_pl_def calls_def)
  note socket_stream_delivered[OF test_pl_inv test_pl_conn 5(1) 6 test_tame 3 _ 2 _ 4,
      unfolded ctx test_pl_guid 5(2), OF 1]
  then show ?thesis by auto
qed

end
