(* ===== verification/Ws_Parser.thy ===== *)
theory Ws_Parser
  imports CC_Prelude
begin

text \<open>
  WebSocket frames: \<^verbatim>\<open>web_threads/src/tcp_logic/websocket_parser.c\<close> (the frame parser, the frame
  builder and the masking) and the callbacks of \<^verbatim>\<open>the_ws_parser.cpp\<close> that put messages together,
  with \<^verbatim>\<open>WebLogic::OnWSMsg\<close> behind them. The parser is fed by chunks and calls back for the header,
  for pieces of the body and at the end of a frame.
\<close>

subsection \<open>The frame parser\<close>

abbreviation (input) WS_OP_CONTINUE :: u8 where "WS_OP_CONTINUE \<equiv> 0x0"
abbreviation (input) WS_OP_TEXT :: u8 where "WS_OP_TEXT \<equiv> 0x1"
abbreviation (input) WS_OP_BINARY :: u8 where "WS_OP_BINARY \<equiv> 0x2"
abbreviation (input) WS_OP_CLOSE :: u8 where "WS_OP_CLOSE \<equiv> 0x8"
abbreviation (input) WS_OP_PING :: u8 where "WS_OP_PING \<equiv> 0x9"
abbreviation (input) WS_OP_PONG :: u8 where "WS_OP_PONG \<equiv> 0xA"
abbreviation (input) WS_FIN :: u8 where "WS_FIN \<equiv> 0x10"
abbreviation (input) WS_HAS_MASK :: u8 where "WS_HAS_MASK \<equiv> 0x20"
abbreviation (input) WS_OP_MASK :: u8 where "WS_OP_MASK \<equiv> 0xF"

datatype parser_state = S_Start | S_Head | S_Length | S_Mask | S_Body

text \<open>
  The flags fit a byte. \<^verbatim>\<open>length\<close>, \<^verbatim>\<open>require\<close> and \<^verbatim>\<open>offset\<close> are of type \<^verbatim>\<open>size_t\<close>; only the shift of
  \<^verbatim>\<open>length\<close> could leave its 64 bits, and is written with them.
\<close>

record websocket_parser =
  ws_state :: parser_state
  ws_flags :: u8
  ws_mask :: bytes
  ws_mask_offset :: nat
  ws_length :: nat
  ws_require :: nat
  ws_offset :: nat

definition websocket_parser_init :: websocket_parser where
  "websocket_parser_init = \<lparr>ws_state = S_Start, ws_flags = 0, ws_mask = [0, 0, 0, 0], ws_mask_offset = 0,
     ws_length = 0, ws_require = 0, ws_offset = 0\<rparr>"

text \<open>
  What can go wrong in a callback: an allocation that throws, a read or write outside a string, and
  the use of a parser that a callback has freed with its connection.
\<close>

datatype ws_fault = Length_Error | Body_Overflow | Close_Code_Read | Freed_Parser

text \<open>
  The callbacks: an error code and whether the parser is freed afterwards. The body callback may
  change the mask offset of the parser.
\<close>

record 'u websocket_parser_settings =
  on_frame_header :: "websocket_parser \<Rightarrow> 'u \<Rightarrow> ws_fault + (int \<times> bool \<times> 'u)"
  on_frame_body :: "websocket_parser \<Rightarrow> bytes \<Rightarrow> 'u \<Rightarrow> ws_fault + (int \<times> nat \<times> 'u)"
  on_frame_end :: "websocket_parser \<Rightarrow> 'u \<Rightarrow> ws_fault + (int \<times> bool \<times> 'u)"

text \<open>The loop of the state \<^verbatim>\<open>s_length\<close>, with the number of bytes it takes.\<close>

fun length_loop :: "bytes \<Rightarrow> websocket_parser \<Rightarrow> bytes \<times> websocket_parser" where
  "length_loop [] ps = ([], ps)"
| "length_loop (c # cs) ps =
     (if ws_require ps = 0 then (c # cs, ps)
      else length_loop cs (ps\<lparr>ws_length := ws_length ps * 256 mod 2 ^ 64 + unat c, ws_require := ws_require ps - 1\<rparr>))"

fun mask_loop :: "bytes \<Rightarrow> websocket_parser \<Rightarrow> bytes \<times> websocket_parser" where
  "mask_loop [] ps = ([], ps)"
| "mask_loop (c # cs) ps =
     (if ws_require ps = 0 then (c # cs, ps)
      else mask_loop cs (ps\<lparr>ws_mask := (ws_mask ps)[4 - ws_require ps := c], ws_require := ws_require ps - 1\<rparr>))"

text \<open>
  The end of the header: a frame without a body is over at once. The result: error code, whether
  the parser is freed, and the parser. The parser is passed to the second callback, which must not
  be freed by the first.
\<close>

definition header_done ::
  "'u websocket_parser_settings \<Rightarrow> websocket_parser \<Rightarrow> 'u \<Rightarrow> ws_fault + (int \<times> bool \<times> websocket_parser \<times> 'u)" where
  "header_done st ps u =
     (if ws_length ps \<noteq> 0
      then (let ps' = ps\<lparr>ws_state := S_Body, ws_require := ws_length ps\<rparr> in
            map_sum id (\<lambda>(r, freed, u'). (r, freed, ps', u')) (on_frame_header st ps' u))
      else (let ps' = ps\<lparr>ws_state := S_Start\<rparr> in
            case on_frame_header st ps' u of
              Inl f \<Rightarrow> Inl f
            | Inr (r, freed, u') \<Rightarrow>
                if r \<noteq> 0 then Inr (r, freed, ps', u')
                else if freed then Inl Freed_Parser
                else map_sum id (\<lambda>(r, freed, u''). (r, freed, ps', u'')) (on_frame_end st ps' u')))"

text \<open>What follows the length, in \<^verbatim>\<open>s_head\<close> and in \<^verbatim>\<open>s_length\<close>.\<close>

definition length_done ::
  "'u websocket_parser_settings \<Rightarrow> websocket_parser \<Rightarrow> 'u \<Rightarrow> ws_fault + (int \<times> bool \<times> websocket_parser \<times> 'u)" where
  "length_done st ps u =
     (if ws_flags ps AND WS_HAS_MASK \<noteq> 0
      then Inr (0, False, ps\<lparr>ws_state := S_Mask, ws_require := 4\<rparr>, u)
      else header_done st ps u)"

definition start_byte :: "u8 \<Rightarrow> websocket_parser \<Rightarrow> websocket_parser" where
  "start_byte c ps =
     ps\<lparr>ws_offset := 0, ws_length := 0, ws_mask_offset := 0,
        ws_flags := (c AND WS_OP_MASK) OR (if c AND 0x80 \<noteq> 0 then WS_FIN else 0), ws_state := S_Head\<rparr>"

definition head_byte :: "u8 \<Rightarrow> websocket_parser \<Rightarrow> websocket_parser" where
  "head_byte c ps =
     ps\<lparr>ws_length := unat (c AND 0x7F), ws_flags := (if c AND 0x80 \<noteq> 0 then ws_flags ps OR WS_HAS_MASK else ws_flags ps)\<rparr>"

lemma length_loop_eq:
  "length_loop xs ps =
     (drop (ws_require ps) xs,
      ps\<lparr>ws_length := fold (\<lambda>c l. l * 256 mod 2 ^ 64 + unat c) (take (ws_require ps) xs) (ws_length ps),
         ws_require := ws_require ps - length xs\<rparr>)"
proof (induction xs ps rule: length_loop.induct)
  case (2 c cs ps)
  then show ?case by (cases "ws_require ps") simp_all
qed simp

fun put_mask :: "nat \<Rightarrow> bytes \<Rightarrow> bytes \<Rightarrow> bytes" where
  "put_mask r [] m = m"
| "put_mask r (c # cs) m = (if r = 0 then m else put_mask (r - 1) cs (m[4 - r := c]))"

lemma mask_loop_eq:
  "mask_loop xs ps =
     (drop (ws_require ps) xs,
      ps\<lparr>ws_mask := put_mask (ws_require ps) xs (ws_mask ps), ws_require := ws_require ps - length xs\<rparr>)"
proof (induction xs ps rule: mask_loop.induct)
  case (2 c cs ps)
  then show ?case by (cases "ws_require ps") simp_all
qed simp

declare length_loop.simps [simp del] mask_loop.simps [simp del]

text \<open>
  The loop over the data: \<open>n\<close> is \<^verbatim>\<open>len\<close>, \<open>rest\<close> the bytes from \<^verbatim>\<open>p\<close> on, \<open>fo\<close> is \<^verbatim>\<open>frame_offset\<close> and \<open>freed\<close>
  says that the parser is gone; the next access to it is an error. A callback that returns an
  error ends the loop with the number of bytes before \<^verbatim>\<open>p\<close>.
\<close>

function ws_loop ::
  "'u websocket_parser_settings \<Rightarrow> nat \<Rightarrow> bytes \<Rightarrow> nat \<Rightarrow> bool \<Rightarrow> websocket_parser \<Rightarrow> 'u \<Rightarrow>
   ws_fault + (nat \<times> bool \<times> websocket_parser \<times> 'u)" where
  "ws_loop st n [] fo freed ps u = Inr (n, freed, ps, u)"
| "ws_loop st n (c # cs) fo freed ps u =
     (if freed then Inl Freed_Parser
      else
        (case ws_state ps of
           S_Start \<Rightarrow> ws_loop st n cs (fo + 1) False (start_byte c ps) u
         | S_Head \<Rightarrow>
             (let ps1 = head_byte c ps in
              if 126 \<le> ws_length ps1
              then ws_loop st n cs (fo + 1) False
                     (ps1\<lparr>ws_require := (if ws_length ps1 = 127 then 8 else 2), ws_length := 0, ws_state := S_Length\<rparr>) u
              else
                (case length_done st ps1 u of
                   Inl f \<Rightarrow> Inl f
                 | Inr (r, freed', ps2, u') \<Rightarrow>
                     if r \<noteq> 0 then Inr (n - length (c # cs), freed', ps2, u')
                     else ws_loop st n cs (fo + 1) freed' ps2 u'))
         | S_Length \<Rightarrow>
             (let (rest, ps1) = length_loop (c # cs) ps; fo1 = fo + (length (c # cs) - length rest) in
              if ws_require ps1 \<noteq> 0 then ws_loop st n rest fo1 False ps1 u
              else
                (case length_done st ps1 u of
                   Inl f \<Rightarrow> Inl f
                 | Inr (r, freed', ps2, u') \<Rightarrow>
                     if r \<noteq> 0 then Inr (n - length rest - 1, freed', ps2, u')
                     else ws_loop st n rest fo1 freed' ps2 u'))
         | S_Mask \<Rightarrow>
             (let (rest, ps1) = mask_loop (c # cs) ps; fo1 = fo + (length (c # cs) - length rest) in
              if ws_require ps1 \<noteq> 0 then ws_loop st n rest fo1 False ps1 u
              else
                (case header_done st ps1 u of
                   Inl f \<Rightarrow> Inl f
                 | Inr (r, freed', ps2, u') \<Rightarrow>
                     if r \<noteq> 0 then Inr (n - length rest - 1, freed', ps2, u')
                     else ws_loop st n rest fo1 freed' ps2 u'))
         | S_Body \<Rightarrow>
             (let k = min (ws_require ps) (length (c # cs)); whole = ws_require ps \<le> length (c # cs);
                  rest = (if ws_require ps = 0 then cs else drop k (c # cs)) in
              case (if ws_require ps = 0 then Inr (0, ws_mask_offset ps, u)
                    else on_frame_body st ps (take k (c # cs)) u) of
                Inl f \<Rightarrow> Inl f
              | Inr (r, mo, u') \<Rightarrow>
                  if r \<noteq> 0 then Inr (n - length (c # cs), False, ps\<lparr>ws_mask_offset := mo\<rparr>, u')
                  else if whole
                  then
                    (let ps1 = ps\<lparr>ws_mask_offset := mo, ws_require := 0\<rparr> in
                     case on_frame_end st ps1 u' of
                       Inl f \<Rightarrow> Inl f
                     | Inr (r', freed', u'') \<Rightarrow>
                         if r' \<noteq> 0 then Inr (n - length rest - 1, freed', ps1, u'')
                         else if freed' then Inl Freed_Parser
                         else ws_loop st n rest (if ws_require ps = 0 then fo else n - length rest) False
                                (ps1\<lparr>ws_state := S_Start\<rparr>) u'')
                  else ws_loop st n [] 0 False
                         (ps\<lparr>ws_mask_offset := mo, ws_require := ws_require ps - k, ws_offset := ws_offset ps + (n - fo)\<rparr>) u')))"
  by pat_completeness auto


lemma header_done_state: "header_done st ps u = Inr (r, freed, ps', u') \<Longrightarrow> ws_state ps' \<in> {S_Start, S_Body}"
  by (auto simp: header_done_def Let_def map_sum_def split: sum.splits if_splits prod.splits)

lemma length_done_state: "length_done st ps u = Inr (r, freed, ps', u') \<Longrightarrow> ws_state ps' \<in> {S_Start, S_Body, S_Mask}"
  using header_done_state[of st ps u r freed ps' u'] by (auto simp: length_done_def split: if_splits)

text \<open>Every turn takes a byte or, when nothing is required, goes on to a later state.\<close>

fun ws_rank :: "parser_state \<Rightarrow> nat" where
  "ws_rank S_Length = 2"
| "ws_rank S_Mask = 1"
| "ws_rank _ = 0"

termination ws_loop
proof (relation "measures [\<lambda>(st, n, rest, fo, freed, ps, u). length rest, \<lambda>(st, n, rest, fo, freed, ps, u). ws_rank (ws_state ps)]",
    goal_cases)
  case 1
  show ?case by simp
qed (auto simp: length_loop_eq mask_loop_eq Let_def dest!: header_done_state length_done_state)

declare ws_loop.simps(2) [simp del]

definition websocket_parser_execute ::
  "'u websocket_parser_settings \<Rightarrow> bytes \<Rightarrow> bool \<Rightarrow> websocket_parser \<Rightarrow> 'u \<Rightarrow> ws_fault + (nat \<times> bool \<times> websocket_parser \<times> 'u)" where
  "websocket_parser_execute st data freed ps u = ws_loop st (length data) data 0 freed ps u"

subsection \<open>Masking and building frames\<close>

text \<open>
  The masked bytes and the mask offset after them. \<^verbatim>\<open>websocket_decode\<close> and \<^verbatim>\<open>websocket_parser_decode\<close> have
  the same loop.
\<close>

definition websocket_decode :: "bytes \<Rightarrow> bytes \<Rightarrow> nat \<Rightarrow> bytes \<times> nat" where
  "websocket_decode src key mask_offset =
     (map (\<lambda>i. src ! i XOR key ! ((i + mask_offset) mod 4)) [0..<length src], (length src + mask_offset) mod 4)"

definition websocket_calc_frame_size :: "u8 \<Rightarrow> nat \<Rightarrow> nat" where
  "websocket_calc_frame_size flags data_len =
     data_len + 2 + (if 126 \<le> data_len then (if 0xFFFF < data_len then 8 else 2) else 0) +
     (if flags AND WS_HAS_MASK \<noteq> 0 then 4 else 0)"

text \<open>Byte \<open>k\<close> of a length, from the right.\<close>

definition len_byte :: "nat \<Rightarrow> nat \<Rightarrow> u8" where
  "len_byte n k = of_nat (n div 256 ^ k)"

text \<open>
  \<open>frame\<close> is the caller's buffer before the call; a null mask (None) means the bytes already there.
  The result is the buffer afterwards and the length of the frame.
\<close>

definition websocket_build_frame :: "bytes \<Rightarrow> u8 \<Rightarrow> bytes option \<Rightarrow> bytes \<Rightarrow> bytes \<times> nat" where
  "websocket_build_frame frame flags key data =
     (let n = length data;
          b0 = (if flags AND WS_FIN \<noteq> 0 then 0x80 else 0) OR (flags AND WS_OP_MASK);
          b1 = (if flags AND WS_HAS_MASK \<noteq> 0 then 0x80 else 0);
          head = (if n < 126 then [b0, b1 OR of_nat n]
                  else if n \<le> 0xFFFF then [b0, b1 OR 126, len_byte n 1, len_byte n 0]
                  else [b0, b1 OR 127, len_byte n 7, len_byte n 6, len_byte n 5, len_byte n 4,
                        len_byte n 3, len_byte n 2, len_byte n 1, len_byte n 0]);
          m = (case key of Some x \<Rightarrow> take 4 x | None \<Rightarrow> take 4 (drop (length head) frame));
          out = (if flags AND WS_HAS_MASK \<noteq> 0 then head @ m @ fst (websocket_decode data m 0) else head @ data) in
      (out @ drop (length out) frame, length out))"

subsection \<open>Messages\<close>

text \<open>
  The \<^verbatim>\<open>ws::Parser\<close> of a connection and what its web logic has done for it: messages given to the
  logics, frames sent, and whether the connection is watched for an incomplete message.
\<close>

datatype frame_type = Text_Frame | Binary_Frame

datatype ws_event = Ws_Msg frame_type bytes | Ws_Send bytes

record ws_ctx =
  ws_opcode :: u8
  is_text :: bool
  is_binary :: bool
  ws_fin :: bool
  ws_body :: bytes
  ws_payloads :: bytes
  part_msg :: bool
  ws_events :: "ws_event list"

definition ws_ctx_init :: ws_ctx where
  "ws_ctx_init = \<lparr>ws_opcode = 0, is_text = False, is_binary = False, ws_fin = False, ws_body = [],
     ws_payloads = [], part_msg = False, ws_events = []\<rparr>"

text \<open>
  \<^verbatim>\<open>WebLogic::OnWSMsg\<close>. \<open>closes\<close> tells whether the logics close the connection, from all they have seen.
  The heap block for an answer is written completely.
\<close>

definition on_ws_msg :: "(ws_event list \<Rightarrow> bool) \<Rightarrow> u8 \<Rightarrow> bytes \<Rightarrow> ws_ctx \<Rightarrow> bool \<times> ws_ctx" where
  "on_ws_msg closes opcode data u =
     (let u1 = u\<lparr>part_msg := False\<rparr>;
          answer = (\<lambda>flags d. u1\<lparr>ws_events := ws_events u1 @
            [Ws_Send (fst (websocket_build_frame (replicate (websocket_calc_frame_size flags (length d)) 0) flags None d))]\<rparr>) in
      if opcode = WS_OP_TEXT \<or> opcode = WS_OP_BINARY
      then (let es = ws_events u1 @ [Ws_Msg (if opcode = WS_OP_TEXT then Text_Frame else Binary_Frame) data] in
            (closes es, u1\<lparr>ws_events := es\<rparr>))
      else if opcode = WS_OP_CLOSE then (False, answer (WS_OP_CLOSE OR WS_FIN) [])
      else if opcode = WS_OP_PING then (False, answer (WS_OP_PONG OR WS_FIN) data)
      else (False, u1))"

text \<open>
  The callbacks of \<^verbatim>\<open>ws::Parser\<close>. \<open>max_size\<close> is the longest string that can be allocated; beyond it
  \<^verbatim>\<open>resize\<close> throws and nothing catches.
\<close>

definition ws_on_frame_header :: "nat \<Rightarrow> websocket_parser \<Rightarrow> ws_ctx \<Rightarrow> ws_fault + (int \<times> bool \<times> ws_ctx)" where
  "ws_on_frame_header max_size ps u =
     (let op = ws_flags ps AND WS_OP_MASK;
          u1 = u\<lparr>ws_opcode := op, is_text := (is_text u \<or> op = WS_OP_TEXT),
                 is_binary := (is_binary u \<or> op = WS_OP_BINARY), ws_fin := (ws_flags ps AND WS_FIN \<noteq> 0)\<rparr> in
      if max_size < ws_length ps then Inl Length_Error
      else Inr (0, False, u1\<lparr>ws_body := take (ws_length ps) (ws_body u1) @ replicate (ws_length ps - length (ws_body u1)) 0,
                             part_msg := True\<rparr>))"

definition ws_on_frame_body :: "websocket_parser \<Rightarrow> bytes \<Rightarrow> ws_ctx \<Rightarrow> ws_fault + (int \<times> nat \<times> ws_ctx)" where
  "ws_on_frame_body ps data u =
     (let (d, mo) = (if ws_flags ps AND WS_HAS_MASK \<noteq> 0 then websocket_decode data (ws_mask ps) (ws_mask_offset ps)
                     else (data, ws_mask_offset ps)) in
      if length (ws_body u) < ws_offset ps + length d then Inl Body_Overflow
      else Inr (0, mo, u\<lparr>ws_body := take (ws_offset ps) (ws_body u) @ d @ drop (ws_offset ps + length d) (ws_body u),
                         part_msg := True\<rparr>))"

definition ws_on_frame_end :: "(ws_event list \<Rightarrow> bool) \<Rightarrow> websocket_parser \<Rightarrow> ws_ctx \<Rightarrow> ws_fault + (int \<times> bool \<times> ws_ctx)" where
  "ws_on_frame_end closes ps u =
     (let u1 = (if 0 < length (ws_body u) then u\<lparr>ws_payloads := ws_payloads u @ ws_body u\<rparr> else u) in
      if \<not> ws_fin u1 then Inr (0, False, u1)
      else if ws_opcode u1 = WS_OP_CLOSE \<and> length (ws_payloads u1) < 1 then Inl Close_Code_Read
      else
        (let op = (if is_text u1 then WS_OP_TEXT else if is_binary u1 then WS_OP_BINARY else ws_opcode u1);
             (closed, u2) = on_ws_msg closes op (ws_payloads u1) u1 in
         Inr (0, closed, if closed then u2 else u2\<lparr>ws_payloads := [], is_text := False, is_binary := False\<rparr>)))"

definition ws_settings :: "nat \<Rightarrow> (ws_event list \<Rightarrow> bool) \<Rightarrow> ws_ctx websocket_parser_settings" where
  "ws_settings max_size closes = \<lparr>on_frame_header = ws_on_frame_header max_size, on_frame_body = ws_on_frame_body,
     on_frame_end = ws_on_frame_end closes\<rparr>"

text \<open>\<^verbatim>\<open>ws::Parser::Execute\<close>: -1 when not everything was parsed.\<close>

definition ws_execute ::
  "nat \<Rightarrow> (ws_event list \<Rightarrow> bool) \<Rightarrow> bytes \<Rightarrow> bool \<times> websocket_parser \<times> ws_ctx \<Rightarrow>
   ws_fault + (int \<times> bool \<times> websocket_parser \<times> ws_ctx)" where
  "ws_execute max_size closes buffer = (\<lambda>(freed, ps, u).
     map_sum id (\<lambda>(n, s). (if n \<noteq> length buffer then RC_ERR else RC_OK, s))
       (websocket_parser_execute (ws_settings max_size closes) buffer freed ps u))"

end
