(* ===== verification/Ws_Stream.thy ===== *)
theory Ws_Stream
  imports Ws_Parser
begin

text \<open>
  Correctness of the WebSocket parser: the result does not depend on how the data are cut into
  chunks, proved once for all callbacks that keep a contract (locale \<open>ws_client\<close>), which those of
  the web logic do.
\<close>

subsection \<open>Runs\<close>

definition sbind :: "'e + 'a \<Rightarrow> ('a \<Rightarrow> 'e + 'b) \<Rightarrow> 'e + 'b" where
  "sbind x f = (case x of Inl e \<Rightarrow> Inl e | Inr a \<Rightarrow> f a)"

lemma sbind_simps [simp]: "sbind (Inl e) f = Inl e" "sbind (Inr a) f = f a"
  by (simp_all add: sbind_def)

lemma sbind_map: "sbind (map_sum id g x) f = sbind x (\<lambda>a. f (g a))"
  by (cases x) simp_all

lemma sbind_assoc: "sbind (sbind x f) g = sbind x (\<lambda>a. sbind (f a) g)"
  by (cases x) simp_all

text \<open>Between frames the offset in the frame is left over from the last one and is not used.\<close>

definition norm_parser :: "websocket_parser \<Rightarrow> websocket_parser" where
  "norm_parser ps = (if ws_state ps = S_Start then ps\<lparr>ws_offset := 0\<rparr> else ps)"

definition no_count :: "'e + nat \<times> 'a \<Rightarrow> 'e + 'a" where
  "no_count x = sbind x (\<lambda>(n, s). Inr s)"

lemma no_count_simps [simp]: "no_count (Inl e) = Inl e" "no_count (Inr (n, s)) = Inr s"
  by (simp_all add: no_count_def)

definition ws_run ::
  "'u websocket_parser_settings \<Rightarrow> bytes \<Rightarrow> bool \<Rightarrow> websocket_parser \<Rightarrow> 'u \<Rightarrow> ws_fault + (bool \<times> websocket_parser \<times> 'u)" where
  "ws_run st xs freed ps u =
     sbind (no_count (websocket_parser_execute st xs freed ps u)) (\<lambda>(freed', ps', u'). Inr (freed', norm_parser ps', u'))"

lemma ws_induct [case_names step]:
  assumes "\<And>xs ps. (\<And>ys ps'. length ys < length xs \<or> length ys = length xs \<and> ws_rank (ws_state ps') < ws_rank (ws_state ps) \<Longrightarrow>
    P ys ps') \<Longrightarrow> P xs ps"
  shows "P xs ps"
proof -
  have "wf (measures [\<lambda>(xs, ps). length xs, \<lambda>(xs, ps). ws_rank (ws_state ps)])" by simp
  then have "case_prod P (xs, ps)"
    by (induction "(xs, ps)" arbitrary: xs ps rule: wf_induct_rule) (use assms in force)
  then show ?thesis by simp
qed

text \<open>In the body, something is still required.\<close>

definition ok_parser :: "websocket_parser \<Rightarrow> bool" where
  "ok_parser ps \<longleftrightarrow> (ws_state ps = S_Body \<longrightarrow> ws_require ps \<noteq> 0)"

lemma ok_parser_init: "ok_parser websocket_parser_init"
  by (simp add: ok_parser_def websocket_parser_init_def)

lemma header_done_shape:
  "header_done st ps u = Inr (r, fr, ps', u') \<Longrightarrow> ws_state ps' \<in> {S_Start, S_Body} \<and> ok_parser ps'"
  by (auto simp: header_done_def Let_def map_sum_def ok_parser_def split: sum.splits if_splits prod.splits)

lemma length_done_shape:
  "length_done st ps u = Inr (r, fr, ps', u') \<Longrightarrow> ws_state ps' \<in> {S_Start, S_Body, S_Mask} \<and> ok_parser ps'"
  using header_done_shape[of st ps u r fr ps' u'] by (auto simp: length_done_def ok_parser_def split: if_splits)

lemma ok_parser_states [simp]:
  "ok_parser (ps\<lparr>ws_state := S_Start\<rparr>)" "ok_parser (ps\<lparr>ws_state := S_Length\<rparr>)" "ok_parser (start_byte c ps)"
  by (simp_all add: ok_parser_def start_byte_def)

text \<open>Only the distance of the frame offset from the end of the data matters.\<close>

lemma loop_shift:
  "fo + length xs = n \<Longrightarrow> fo' + length xs = n' \<Longrightarrow> ok_parser ps \<Longrightarrow>
     no_count (ws_loop st n xs fo fr ps u) = no_count (ws_loop st n' xs fo' fr ps u)"
proof (induction xs ps arbitrary: n n' fo fo' fr u rule: ws_induct)
  case (step xs ps)
  show ?case
  proof (cases xs)
    case (Cons c cs)
    note eqs = ws_loop.simps(2)[of st n c cs fo fr ps u] ws_loop.simps(2)[of st n' c cs fo' fr ps u]
    have n: "n = Suc (fo + length cs)" "n' = Suc (fo' + length cs)" using step.prems Cons by simp_all
    show ?thesis
      unfolding Cons eqs using n step.prems(3)
      by (cases fr; cases "ws_state ps")
        (auto simp: Cons Let_def length_loop_eq mask_loop_eq ok_parser_def[of ps] split: sum.splits
          dest!: header_done_shape length_done_shape intro!: step.IH)
  qed simp
qed

lemma loop_run:
  assumes "fo + length xs = n" "ok_parser ps"
  shows "sbind (no_count (ws_loop st n xs fo fr ps u)) (\<lambda>(fr', ps', u'). Inr (fr', norm_parser ps', u')) = ws_run st xs fr ps u"
  using loop_shift[OF assms(1) _ assms(2), of 0 "length xs" st fr u] by (simp add: ws_run_def websocket_parser_execute_def)

lemma run_Nil [simp]: "ws_run st [] fr ps u = Inr (fr, norm_parser ps, u)"
  by (simp add: ws_run_def websocket_parser_execute_def)

lemma run_freed: "ws_run st (c # cs) True ps u = Inl Freed_Parser"
  by (simp add: ws_run_def websocket_parser_execute_def ws_loop.simps(2))

lemma length_loop_append:
  "ws_require ps \<le> length x \<Longrightarrow> length_loop (x @ y) ps = (fst (length_loop x ps) @ y, snd (length_loop x ps))"
  "length x \<le> ws_require ps \<Longrightarrow> length_loop (x @ y) ps = length_loop y (snd (length_loop x ps))"
  by (simp_all add: length_loop_eq)

lemma put_mask_0: "put_mask 0 y m = m"
  by (cases y) simp_all

lemma put_mask_append:
  "put_mask r (x @ y) m = put_mask (r - length x) y (put_mask r x m)"
  by (induction r x m rule: put_mask.induct) (simp_all add: put_mask_0)

lemma mask_loop_append:
  "ws_require ps \<le> length x \<Longrightarrow> mask_loop (x @ y) ps = (fst (mask_loop x ps) @ y, snd (mask_loop x ps))"
  "length x \<le> ws_require ps \<Longrightarrow> mask_loop (x @ y) ps = mask_loop y (snd (mask_loop x ps))"
  by (simp_all add: mask_loop_eq put_mask_append put_mask_0)

lemma run_normed: "ws_run st xs fr ps u = Inr (fr', ps', u') \<Longrightarrow> norm_parser ps' = ps'"
  by (auto simp: ws_run_def norm_parser_def sbind_def split: sum.splits if_splits)

text \<open>
  The contract of the callbacks: no error code, the header callback does not free the parser, the
  end callback does not look at the offset, and a body in two pieces is a body in one.
\<close>

locale ws_client =
  fixes st :: "'u websocket_parser_settings"
  assumes header_ok: "on_frame_header st ps u = Inr (r, fr, u') \<Longrightarrow> r = 0 \<and> \<not> fr"
    and end_ok: "on_frame_end st ps u = Inr (r, fr, u') \<Longrightarrow> r = 0"
    and body_ok: "on_frame_body st ps d u = Inr (r, mo, u') \<Longrightarrow> r = 0"
    and end_offset: "on_frame_end st (ps\<lparr>ws_offset := off\<rparr>) u = on_frame_end st ps u"
    and body_split: "on_frame_body st ps (x @ y) u =
      sbind (on_frame_body st ps x u) (\<lambda>(r, mo, u').
        on_frame_body st (ps\<lparr>ws_mask_offset := mo, ws_require := ws_require ps - length x,
          ws_offset := ws_offset ps + length x\<rparr>) y u')"
begin

lemma header_done_ok: "header_done st ps u = Inr (r, fr, ps', u') \<Longrightarrow> r = 0"
  using header_ok end_ok
  by (fastforce simp: header_done_def Let_def map_sum_def split: sum.splits if_splits prod.splits)

lemma length_done_ok: "length_done st ps u = Inr (r, fr, ps', u') \<Longrightarrow> r = 0"
  using header_done_ok by (auto simp: length_done_def split: if_splits)

lemma header_done_cases:
  obtains f where "header_done st ps u = Inl f" | fr ps' u' where "header_done st ps u = Inr (0, fr, ps', u')" "ok_parser ps'"
  using header_done_shape[of st ps u] header_done_ok[of ps u] by (cases "header_done st ps u") auto

lemma length_done_cases:
  obtains f where "length_done st ps u = Inl f" | fr ps' u' where "length_done st ps u = Inr (0, fr, ps', u')" "ok_parser ps'"
  using length_done_shape[of st ps u] length_done_ok[of ps u] by (cases "length_done st ps u") auto

lemma body_cases:
  obtains f where "on_frame_body st ps d u = Inl f" | mo u' where "on_frame_body st ps d u = Inr (0, mo, u')"
  using body_ok[of ps d u] by (cases "on_frame_body st ps d u") auto

lemma end_cases:
  obtains f where "on_frame_end st ps u = Inl f" | fr u' where "on_frame_end st ps u = Inr (0, fr, u')"
  using end_ok[of ps u] by (cases "on_frame_end st ps u") auto

lemma run_Cons:
  assumes "ok_parser ps"
  shows "ws_run st (c # cs) False ps u =
    (case ws_state ps of
       S_Start \<Rightarrow> ws_run st cs False (start_byte c ps) u
     | S_Head \<Rightarrow>
         (let ps1 = head_byte c ps in
          if 126 \<le> ws_length ps1
          then ws_run st cs False
                 (ps1\<lparr>ws_require := (if ws_length ps1 = 127 then 8 else 2), ws_length := 0, ws_state := S_Length\<rparr>) u
          else sbind (length_done st ps1 u) (\<lambda>(r, fr, ps2, u'). ws_run st cs fr ps2 u'))
     | S_Length \<Rightarrow>
         (let (rest, ps1) = length_loop (c # cs) ps in
          if ws_require ps1 \<noteq> 0 then ws_run st rest False ps1 u
          else sbind (length_done st ps1 u) (\<lambda>(r, fr, ps2, u'). ws_run st rest fr ps2 u'))
     | S_Mask \<Rightarrow>
         (let (rest, ps1) = mask_loop (c # cs) ps in
          if ws_require ps1 \<noteq> 0 then ws_run st rest False ps1 u
          else sbind (header_done st ps1 u) (\<lambda>(r, fr, ps2, u'). ws_run st rest fr ps2 u'))
     | S_Body \<Rightarrow>
         if ws_require ps \<le> length (c # cs)
         then sbind (on_frame_body st ps (take (ws_require ps) (c # cs)) u) (\<lambda>(r, mo, u').
                sbind (on_frame_end st (ps\<lparr>ws_mask_offset := mo, ws_require := 0\<rparr>) u') (\<lambda>(r, fr, u'').
                  if fr then Inl Freed_Parser
                  else ws_run st (drop (ws_require ps) (c # cs)) False
                         (ps\<lparr>ws_mask_offset := mo, ws_require := 0, ws_state := S_Start\<rparr>) u''))
         else sbind (on_frame_body st ps (c # cs) u) (\<lambda>(r, mo, u').
                Inr (False, ps\<lparr>ws_mask_offset := mo, ws_require := ws_require ps - length (c # cs),
                  ws_offset := ws_offset ps + length (c # cs)\<rparr>, u')))"
proof -
  let ?n = "Suc (length cs)"
  have eq: "ws_run st (c # cs) False ps u =
      sbind (no_count (ws_loop st ?n (c # cs) 0 False ps u)) (\<lambda>(fr', ps', u'). Inr (fr', norm_parser ps', u'))"
    by (simp add: ws_run_def websocket_parser_execute_def)
  show ?thesis
  proof (cases "ws_state ps")
    case S_Start
    then show ?thesis unfolding eq ws_loop.simps(2) by (simp add: loop_run)
  next
    case S_Head
    then show ?thesis unfolding eq ws_loop.simps(2)
      by (cases rule: length_done_cases[of "head_byte c ps" u]) (auto simp: Let_def loop_run)
  next
    case S_Length
    then show ?thesis unfolding eq ws_loop.simps(2)
      by (cases rule: length_done_cases[of "snd (length_loop (c # cs) ps)" u])
        (auto simp: Let_def length_loop_eq loop_run ok_parser_def[of ps])
  next
    case S_Mask
    then show ?thesis unfolding eq ws_loop.simps(2)
      by (cases rule: header_done_cases[of "snd (mask_loop (c # cs) ps)" u])
        (auto simp: Let_def mask_loop_eq loop_run ok_parser_def[of ps])
  next
    case S_Body
    with assms have req: "ws_require ps \<noteq> 0" by (simp add: ok_parser_def)
    show ?thesis
    proof (cases "ws_require ps \<le> length (c # cs)")
      case True
      show ?thesis
      proof (cases rule: body_cases[of ps "take (ws_require ps) (c # cs)" u])
        case (2 mo u')
        with S_Body True req show ?thesis unfolding eq ws_loop.simps(2)
          by (cases rule: end_cases[of "ps\<lparr>ws_mask_offset := mo, ws_require := 0\<rparr>" u'])
            (auto simp: Let_def loop_run min_absorb1)
      qed (use S_Body True req in \<open>simp add: eq ws_loop.simps(2) Let_def min_absorb1\<close>)
    next
      case False
      with S_Body req show ?thesis unfolding eq ws_loop.simps(2)
        by (cases rule: body_cases[of ps "c # cs" u]) (auto simp: Let_def min_absorb2 norm_parser_def)
    qed
  qed
qed

lemma run_start: "ws_state ps = S_Start \<Longrightarrow> ws_run st (c # cs) False ps u = ws_run st cs False (start_byte c ps) u"
  using run_Cons[of ps c cs u] by (simp add: ok_parser_def)

lemma run_length:
  "xs \<noteq> [] \<Longrightarrow> ws_state ps = S_Length \<Longrightarrow> ws_run st xs False ps u =
     (let (rest, ps1) = length_loop xs ps in
      if ws_require ps1 \<noteq> 0 then ws_run st rest False ps1 u
      else sbind (length_done st ps1 u) (\<lambda>(r, fr, ps2, u'). ws_run st rest fr ps2 u'))"
  using run_Cons[of ps "hd xs" "tl xs" u] by (cases xs) (simp_all add: ok_parser_def)

lemma run_mask:
  "xs \<noteq> [] \<Longrightarrow> ws_state ps = S_Mask \<Longrightarrow> ws_run st xs False ps u =
     (let (rest, ps1) = mask_loop xs ps in
      if ws_require ps1 \<noteq> 0 then ws_run st rest False ps1 u
      else sbind (header_done st ps1 u) (\<lambda>(r, fr, ps2, u'). ws_run st rest fr ps2 u'))"
  using run_Cons[of ps "hd xs" "tl xs" u] by (cases xs) (simp_all add: ok_parser_def)

lemma run_body_whole:
  "ws_state ps = S_Body \<Longrightarrow> 0 < ws_require ps \<Longrightarrow> ws_require ps \<le> length xs \<Longrightarrow> ws_run st xs False ps u =
     sbind (on_frame_body st ps (take (ws_require ps) xs) u) (\<lambda>(r, mo, u').
       sbind (on_frame_end st (ps\<lparr>ws_mask_offset := mo, ws_require := 0\<rparr>) u') (\<lambda>(r, fr, u'').
         if fr then Inl Freed_Parser
         else ws_run st (drop (ws_require ps) xs) False (ps\<lparr>ws_mask_offset := mo, ws_require := 0, ws_state := S_Start\<rparr>) u''))"
proof (induction xs)
  case (Cons c cs)
  then show ?case using run_Cons[of ps c cs u] by (simp add: ok_parser_def)
qed simp

lemma run_body_part:
  "ws_state ps = S_Body \<Longrightarrow> length xs < ws_require ps \<Longrightarrow> xs \<noteq> [] \<Longrightarrow> ws_run st xs False ps u =
     sbind (on_frame_body st ps xs u) (\<lambda>(r, mo, u').
       Inr (False, ps\<lparr>ws_mask_offset := mo, ws_require := ws_require ps - length xs, ws_offset := ws_offset ps + length xs\<rparr>, u'))"
  using run_Cons[of ps "hd xs" "tl xs" u] by (cases xs) (simp_all add: ok_parser_def)

lemma run_norm: "ok_parser ps \<Longrightarrow> ws_run st xs fr (norm_parser ps) u = ws_run st xs fr ps u"
proof (cases xs)
  case (Cons c cs)
  have "start_byte c (ps\<lparr>ws_offset := 0\<rparr>) = start_byte c ps" by (simp add: start_byte_def)
  with Cons show ?thesis
    by (cases fr) (auto simp: run_freed run_start norm_parser_def)
qed (simp add: norm_parser_def)

lemma run_ok: "ok_parser ps \<Longrightarrow> ws_run st xs fr ps u = Inr (fr', ps', u') \<Longrightarrow> ok_parser ps'"
proof (induction xs ps arbitrary: fr u rule: ws_induct)
  case (step xs ps)
  show ?case
  proof (cases xs)
    case Nil
    with step.prems show ?thesis by (auto simp: ok_parser_def norm_parser_def split: if_splits)
  next
    case (Cons c cs)
    have fr: "\<not> fr" using step.prems(2) Cons by (cases fr) (simp_all add: run_freed)
    have run: "ws_run st (c # cs) False ps u = Inr (fr', ps', u')" using step.prems(2) Cons fr by simp
    note run = run[unfolded run_Cons[OF step.prems(1)]]
    have ih: "ok_parser ps'" if "ok_parser p" "ws_run st z fr p v = Inr (fr', ps', u')"
      "length z < length xs \<or> length z = length xs \<and> ws_rank (ws_state p) < ws_rank (ws_state ps)" for z p fr v
      using step.IH[of z p fr v] that by blast
    show ?thesis
    proof (cases "ws_state ps")
      case S_Start
      then show ?thesis using run step.IH[of cs "start_byte c ps"] by (simp add: Cons)
    next
      case S_Head
      show ?thesis
      proof (cases "126 \<le> ws_length (head_byte c ps)")
        case True
        from run S_Head True show ?thesis
          by (intro ih[where z = cs and fr = False and v = u and p = "head_byte c ps\<lparr>ws_require :=
                (if ws_length (head_byte c ps) = 127 then 8 else 2), ws_length := 0, ws_state := S_Length\<rparr>"]) (simp_all add: Let_def Cons)
      next
        case False
        with run S_Head ih[where z = cs] show ?thesis
          by (cases rule: length_done_cases[of "head_byte c ps" u]) (simp_all add: Let_def Cons)
      qed
    next
      case S_Length
      obtain rest ps1 where l: "length_loop (c # cs) ps = (rest, ps1)" by fastforce
      then have r: "rest = drop (ws_require ps) (c # cs)" "ws_state ps1 = S_Length" using S_Length by (auto simp: length_loop_eq)
      have shorter: "length rest < length xs \<or> length rest = length xs" by (auto simp: r Cons)
      show ?thesis
      proof (cases "ws_require ps1 = 0")
        case True
        then show ?thesis
        proof (cases rule: length_done_cases[of ps1 u])
          case (2 fr2 ps2 u2)
          have "ws_run st rest fr2 ps2 u2 = Inr (fr', ps', u')" using run S_Length l True 2(1) by simp
          with 2 length_done_shape[OF 2(1)] shorter S_Length show ?thesis by (intro ih[where z = rest and p = ps2]) auto
        qed (use run S_Length l in simp)
      next
        case False
        then have "rest = []" using l by (auto simp: length_loop_eq)
        with run S_Length l False r(2) show ?thesis by (auto simp: norm_parser_def ok_parser_def)
      qed
    next
      case S_Mask
      obtain rest ps1 where l: "mask_loop (c # cs) ps = (rest, ps1)" by fastforce
      then have r: "rest = drop (ws_require ps) (c # cs)" "ws_state ps1 = S_Mask" using S_Mask by (auto simp: mask_loop_eq)
      have shorter: "length rest < length xs \<or> length rest = length xs" by (auto simp: r Cons)
      show ?thesis
      proof (cases "ws_require ps1 = 0")
        case True
        then show ?thesis
        proof (cases rule: header_done_cases[of ps1 u])
          case (2 fr2 ps2 u2)
          have "ws_run st rest fr2 ps2 u2 = Inr (fr', ps', u')" using run S_Mask l True 2(1) by simp
          with 2 header_done_shape[OF 2(1)] shorter S_Mask show ?thesis by (intro ih[where z = rest and p = ps2]) auto
        qed (use run S_Mask l in simp)
      next
        case False
        then have "rest = []" using l by (auto simp: mask_loop_eq)
        with run S_Mask l False r(2) show ?thesis by (auto simp: norm_parser_def ok_parser_def)
      qed
    next
      case S_Body
      then have req: "0 < ws_require ps" using step.prems(1) by (simp add: ok_parser_def)
      show ?thesis
      proof (cases "ws_require ps \<le> length (c # cs)")
        case True
        from run S_Body True obtain mo u2 where
          "ws_run st (drop (ws_require ps) (c # cs)) False (ps\<lparr>ws_mask_offset := mo, ws_require := 0, ws_state := S_Start\<rparr>) u2 =
            Inr (fr', ps', u')"
          by (auto simp: sbind_def split: sum.splits if_splits)
        with req show ?thesis by (intro ih) (auto simp: Cons)
      next
        case False
        with run S_Body req show ?thesis by (auto simp: sbind_def ok_parser_def split: sum.splits)
      qed
    qed
  qed
qed

text \<open>
  What is parsed does not depend on where the data are cut: the states that take several bytes at
  a time, and then the whole parser.
\<close>

lemma append_length:
  assumes x: "x \<noteq> []" "y \<noteq> []" and s: "ws_state ps = S_Length"
    and IH: "\<And>z fr p v. length z < length x \<or> length z = length x \<and> ws_rank (ws_state p) < ws_rank (ws_state ps) \<Longrightarrow>
      ok_parser p \<Longrightarrow> ws_run st (z @ y) fr p v = sbind (ws_run st z fr p v) (\<lambda>(fr, ps, u). ws_run st y fr ps u)"
  shows "ws_run st (x @ y) False ps u = sbind (ws_run st x False ps u) (\<lambda>(fr, ps, u). ws_run st y fr ps u)"
proof -
  obtain rest ps1 where l: "length_loop x ps = (rest, ps1)" by fastforce
  then have r: "rest = drop (ws_require ps) x" "ws_require ps1 = ws_require ps - length x" "ws_state ps1 = ws_state ps"
    by (auto simp: length_loop_eq)
  have xy: "x @ y \<noteq> []" using x by simp
  note eqs = run_length[OF x(1) s, of u] run_length[OF xy s, of u]
  show ?thesis
  proof (cases "ws_require ps \<le> length x")
    case True
    have 0: "ws_require ps1 = 0" using True r by simp
    show ?thesis
    proof (cases rule: length_done_cases[of ps1 u])
      case (2 fr ps' u')
      have "ws_run st (rest @ y) fr ps' u' = sbind (ws_run st rest fr ps' u') (\<lambda>(fr, ps, u). ws_run st y fr ps u)"
        using length_done_shape[OF 2(1)] s x by (intro IH) (auto simp: r)
      with 2 0 show ?thesis by (simp add: eqs l length_loop_append(1)[OF True])
    qed (use 0 in \<open>simp add: eqs l length_loop_append(1)[OF True]\<close>)
  next
    case False
    then have "rest = []" "ws_require ps1 \<noteq> 0" "ws_state ps1 = S_Length" using s r by simp_all
    with False x(2) show ?thesis by (simp add: eqs l length_loop_append(2) run_length norm_parser_def)
  qed
qed

lemma append_mask:
  assumes x: "x \<noteq> []" "y \<noteq> []" and s: "ws_state ps = S_Mask"
    and IH: "\<And>z fr p v. length z < length x \<or> length z = length x \<and> ws_rank (ws_state p) < ws_rank (ws_state ps) \<Longrightarrow>
      ok_parser p \<Longrightarrow> ws_run st (z @ y) fr p v = sbind (ws_run st z fr p v) (\<lambda>(fr, ps, u). ws_run st y fr ps u)"
  shows "ws_run st (x @ y) False ps u = sbind (ws_run st x False ps u) (\<lambda>(fr, ps, u). ws_run st y fr ps u)"
proof -
  obtain rest ps1 where l: "mask_loop x ps = (rest, ps1)" by fastforce
  then have r: "rest = drop (ws_require ps) x" "ws_require ps1 = ws_require ps - length x" "ws_state ps1 = ws_state ps"
    by (auto simp: mask_loop_eq)
  have xy: "x @ y \<noteq> []" using x by simp
  note eqs = run_mask[OF x(1) s, of u] run_mask[OF xy s, of u]
  show ?thesis
  proof (cases "ws_require ps \<le> length x")
    case True
    have 0: "ws_require ps1 = 0" using True r by simp
    show ?thesis
    proof (cases rule: header_done_cases[of ps1 u])
      case (2 fr ps' u')
      have "ws_run st (rest @ y) fr ps' u' = sbind (ws_run st rest fr ps' u') (\<lambda>(fr, ps, u). ws_run st y fr ps u)"
        using header_done_shape[OF 2(1)] s x by (intro IH) (auto simp: r)
      with 2 0 show ?thesis by (simp add: eqs l mask_loop_append(1)[OF True])
    qed (use 0 in \<open>simp add: eqs l mask_loop_append(1)[OF True]\<close>)
  next
    case False
    then have "rest = []" "ws_require ps1 \<noteq> 0" "ws_state ps1 = S_Mask" using s r by simp_all
    with False x(2) show ?thesis by (simp add: eqs l mask_loop_append(2) run_mask norm_parser_def)
  qed
qed

lemma append_body:
  assumes x: "x \<noteq> []" "y \<noteq> []" and s: "ws_state ps = S_Body" "0 < ws_require ps"
    and IH: "\<And>z fr p v. length z < length x \<Longrightarrow>
      ok_parser p \<Longrightarrow> ws_run st (z @ y) fr p v = sbind (ws_run st z fr p v) (\<lambda>(fr, ps, u). ws_run st y fr ps u)"
  shows "ws_run st (x @ y) False ps u = sbind (ws_run st x False ps u) (\<lambda>(fr, ps, u). ws_run st y fr ps u)"
proof -
  let ?k = "ws_require ps"
  let ?ps = "\<lambda>mo. ps\<lparr>ws_mask_offset := mo, ws_require := 0\<rparr>"
  consider "?k \<le> length x" | "length x < ?k" "?k \<le> length (x @ y)" | "length (x @ y) < ?k" by linarith
  then show ?thesis
  proof cases
    case 1
    show ?thesis
    proof (cases rule: body_cases[of ps "take ?k x" u])
      case b: (2 mo u')
      have "ws_run st (drop ?k x @ y) False (?ps mo\<lparr>ws_state := S_Start\<rparr>) u'' =
          sbind (ws_run st (drop ?k x) False (?ps mo\<lparr>ws_state := S_Start\<rparr>) u'') (\<lambda>(fr, ps, u). ws_run st y fr ps u)" for u''
        using s x by (intro IH) simp_all
      with b 1 s show ?thesis
        by (cases rule: end_cases[of "?ps mo" u']) (auto simp: run_body_whole)
    qed (use 1 s in \<open>simp add: run_body_whole\<close>)
  next
    case 2
    let ?ps1 = "\<lambda>mo. ps\<lparr>ws_mask_offset := mo, ws_require := ?k - length x, ws_offset := ws_offset ps + length x\<rparr>"
    have tk: "take ?k (x @ y) = x @ take (?k - length x) y" "drop ?k (x @ y) = drop (?k - length x) y" using 2 by simp_all
    show ?thesis
    proof (cases rule: body_cases[of ps x u])
      case b: (2 mo u')
      have st: "ws_state (?ps1 mo) = S_Body" "0 < ws_require (?ps1 mo)" "ws_require (?ps1 mo) \<le> length y"
        using 2 s by simp_all
      show ?thesis
      proof (cases rule: body_cases[of "?ps1 mo" "take (?k - length x) y" u'])
        case b2: (2 mo2 u2)
        have same: "on_frame_end st (?ps1 mo\<lparr>ws_mask_offset := mo2, ws_require := 0\<rparr>) u2 = on_frame_end st (?ps mo2) u2"
        proof -
          have "?ps1 mo\<lparr>ws_mask_offset := mo2, ws_require := 0\<rparr> = (?ps mo2)\<lparr>ws_offset := ws_offset ps + length x\<rparr>"
            by (rule websocket_parser.equality) simp_all
          then show ?thesis by (simp only: end_offset)
        qed
        have start: "ws_run st (drop (?k - length x) y) False (?ps1 mo\<lparr>ws_mask_offset := mo2, ws_require := 0, ws_state := S_Start\<rparr>) v =
            ws_run st (drop (?k - length x) y) False (?ps mo2\<lparr>ws_state := S_Start\<rparr>) v" for v
          by (subst (1 2) run_norm[symmetric]) (simp_all add: norm_parser_def)
        from b b2 2 s x st same start tk show ?thesis
          by (cases rule: end_cases[of "?ps mo2" u2])
            (auto simp: run_body_whole run_body_part body_split norm_parser_def)
      qed (use b 2 s x st tk in \<open>simp add: run_body_whole run_body_part body_split norm_parser_def\<close>)
    qed (use 2 s x tk in \<open>simp add: run_body_whole run_body_part body_split\<close>)
  next
    case 3
    show ?thesis
    proof (cases rule: body_cases[of ps x u])
      case (2 mo u')
      let ?p = "ps\<lparr>ws_mask_offset := mo, ws_require := ?k - length x, ws_offset := ws_offset ps + length x\<rparr>"
      from 2 3 s x show ?thesis
        by (cases rule: body_cases[of ?p y u']) (simp_all add: run_body_part body_split norm_parser_def)
    qed (use 3 s x in \<open>simp add: run_body_part body_split\<close>)
  qed
qed

lemma run_append:
  "ok_parser ps \<Longrightarrow> ws_run st (x @ y) fr ps u = sbind (ws_run st x fr ps u) (\<lambda>(fr, ps, u). ws_run st y fr ps u)"
proof (induction x ps arbitrary: fr u rule: ws_induct)
  case (step x ps)
  show ?case
  proof (cases x)
    case Nil
    with step.prems show ?thesis by (simp add: run_norm)
  next
    case (Cons c cs)
    show ?thesis
    proof (cases "fr \<or> y = []")
      case True
      then show ?thesis
        using Cons run_normed[of st x fr ps u] by (cases fr; cases "ws_run st x fr ps u") (auto simp: run_freed)
    next
      case False
      then have fr: "\<not> fr" and y: "y \<noteq> []" by simp_all
      have x: "x \<noteq> []" using Cons by simp
      show ?thesis
      proof (cases "ws_state ps")
        case S_Start
        then show ?thesis using step.IH[of cs] fr by (simp add: Cons run_start)
      next
        case S_Head
        then show ?thesis using step.IH[of cs] fr step.prems
          by (cases rule: length_done_cases[of "head_byte c ps" u]) (auto simp: Cons run_Cons Let_def)
      next
        case S_Length
        from append_length[OF x y this step.IH] fr show ?thesis by simp
      next
        case S_Mask
        from append_mask[OF x y this step.IH] fr show ?thesis by simp
      next
        case S_Body
        then have "0 < ws_require ps" using step.prems by (simp add: ok_parser_def)
        from append_body[OF x y S_Body this step.IH] fr show ?thesis by simp
      qed
    qed
  qed
qed

end

subsection \<open>The callbacks of the web logic\<close>

lemma length_decode [simp]: "length (fst (websocket_decode src key mo)) = length src"
  by (simp add: websocket_decode_def)

lemma decode_append:
  "websocket_decode (x @ y) key mo =
     (case websocket_decode x key mo of (d, mo') \<Rightarrow>
        (d @ fst (websocket_decode y key mo'), snd (websocket_decode y key mo')))"
proof -
  have idx: "(i + (length x + mo) mod 4) mod 4 = (length x + i + mo) mod 4" for i
    by (metis mod_add_right_eq add.assoc add.commute)
  have "map (\<lambda>i. (x @ y) ! i XOR key ! ((i + mo) mod 4)) [0..<length x + length y] =
      map (\<lambda>i. x ! i XOR key ! ((i + mo) mod 4)) [0..<length x] @
      map (\<lambda>i. y ! i XOR key ! ((i + (length x + mo) mod 4) mod 4)) [0..<length y]"
    by (rule nth_equalityI) (auto simp: nth_append idx)
  moreover have "(length y + (length x + mo) mod 4) mod 4 = (length x + length y + mo) mod 4"
    using idx[of "length y"] by simp
  ultimately show ?thesis by (simp add: websocket_decode_def)
qed

lemma decode_decode: "fst (websocket_decode (fst (websocket_decode d key mo)) key mo) = d"
  by (rule nth_equalityI) (simp_all add: websocket_decode_def xor.assoc)

text \<open>The bytes a body callback stores, and the string with them in it.\<close>

definition unmasked :: "websocket_parser \<Rightarrow> bytes \<Rightarrow> bytes \<times> nat" where
  "unmasked ps d = (if ws_flags ps AND WS_HAS_MASK \<noteq> 0 then websocket_decode d (ws_mask ps) (ws_mask_offset ps)
     else (d, ws_mask_offset ps))"

definition patch :: "nat \<Rightarrow> bytes \<Rightarrow> bytes \<Rightarrow> bytes" where
  "patch off d b = take off b @ d @ drop (off + length d) b"

lemma length_unmasked [simp]: "length (fst (unmasked ps d)) = length d"
  by (simp add: unmasked_def)

lemma unmasked_append:
  "unmasked ps (x @ y) =
     (let mo = snd (unmasked ps x); q = ps\<lparr>ws_mask_offset := mo, ws_require := k, ws_offset := off\<rparr> in
      (fst (unmasked ps x) @ fst (unmasked q y), snd (unmasked q y)))"
  by (simp add: unmasked_def decode_append Let_def case_prod_beta)

lemma length_patch [simp]: "off + length d \<le> length b \<Longrightarrow> length (patch off d b) = length b"
  by (simp add: patch_def)

lemma patch_append: "off + length x \<le> length b \<Longrightarrow> patch (off + length x) y (patch off x b) = patch off (x @ y) b"
  by (simp add: patch_def min_absorb2 ac_simps)

lemma frame_body_eq:
  "ws_on_frame_body ps d u =
     (if length (ws_body u) < ws_offset ps + length d then Inl Body_Overflow
      else Inr (0, snd (unmasked ps d), u\<lparr>ws_body := patch (ws_offset ps) (fst (unmasked ps d)) (ws_body u), part_msg := True\<rparr>))"
  using length_unmasked[of ps d]
  by (auto simp: ws_on_frame_body_def unmasked_def patch_def Let_def split: prod.splits)

interpretation wsc: ws_client "ws_settings max_size closes" for max_size closes
proof (unfold_locales, goal_cases)
  case (5 ps x y u)
  show ?case
  proof (cases "length (ws_body u) < ws_offset ps + length x")
    case False
    then have "ws_offset ps + length (fst (unmasked ps x)) \<le> length (ws_body u)" by simp
    from patch_append[OF this] False show ?thesis
      by (simp add: ws_settings_def frame_body_eq Let_def ac_simps
          unmasked_append[where k = "ws_require ps - length x" and off = "ws_offset ps + length x"])
  qed (simp add: ws_settings_def frame_body_eq)
qed (auto simp: ws_settings_def ws_on_frame_header_def frame_body_eq ws_on_frame_end_def Let_def
    split: if_splits prod.splits)

end
