(* ===== verification/Ws_Messages.thy ===== *)
theory Ws_Messages
  imports Ws_Stream
begin

text \<open>
  From frames to messages: what \<^verbatim>\<open>websocket_build_frame\<close> builds is parsed back, whatever the chunks, and
  the messages of a stream reach the logics; and the cases in which they do not.
\<close>

subsection \<open>One frame\<close>

text \<open>The bits of the first two bytes of a frame.\<close>

lemma bit_flags:
  "(w :: u8) AND 0x80 \<noteq> 0 \<longleftrightarrow> bit w 7" "w AND 0x10 \<noteq> 0 \<longleftrightarrow> bit w 4" "w AND 0x20 \<noteq> 0 \<longleftrightarrow> bit w 5"
  using and_exp_eq_0_iff_not_bit[of w 7] and_exp_eq_0_iff_not_bit[of w 4] and_exp_eq_0_iff_not_bit[of w 5] by simp_all

lemma byte_consts:
  "(0xF :: u8) = mask 4" "(0x1F :: u8) = mask 5" "(0x3F :: u8) = mask 6" "(0x7F :: u8) = mask 7"
  "(0x80 :: u8) = 2 ^ 7" "(0x10 :: u8) = 2 ^ 4" "(0x20 :: u8) = 2 ^ 5"
  by (simp_all add: mask_eq_exp_minus_1)

lemma first_byte:
  fixes w :: u8
  defines "b \<equiv> (if w AND WS_FIN \<noteq> 0 then 0x80 else 0) OR (w AND WS_OP_MASK)"
  shows "(b AND WS_OP_MASK) OR (if b AND 0x80 \<noteq> 0 then WS_FIN else 0) = w AND 0x1F"
proof (rule bit_word_eqI)
  fix n assume "n < LENGTH(8)"
  then have "n \<in> {0, 1, 2, 3, 4, 5, 6, 7}" by auto
  then show "bit ((b AND WS_OP_MASK) OR (if b AND 0x80 \<noteq> 0 then WS_FIN else 0)) n = bit (w AND 0x1F) n"
    unfolding b_def bit_flags unfolding byte_consts by (auto simp: bit_simps)
qed

lemma second_byte:
  fixes w :: u8
  assumes "n < 128"
  defines "b \<equiv> (if w AND WS_HAS_MASK \<noteq> 0 then 0x80 else 0) OR (of_nat n :: u8)"
  shows "unat (b AND 0x7F) = n" "(b AND 0x80 \<noteq> 0) = (w AND WS_HAS_MASK \<noteq> 0)"
proof -
  have 7: "\<not> bit n 7" using assms(1) by (simp add: bit_iff_odd)
  have "b AND 0x7F = of_nat n"
  proof (rule bit_word_eqI)
    fix i assume "i < LENGTH(8)"
    then have "i \<in> {0, 1, 2, 3, 4, 5, 6, 7}" by auto
    with 7 show "bit (b AND 0x7F) i = bit (of_nat n :: u8) i"
      unfolding b_def byte_consts by (auto simp: bit_simps)
  qed
  then show "unat (b AND 0x7F) = n" using assms(1) by (simp add: unat_of_nat)
  from 7 show "(b AND 0x80 \<noteq> 0) = (w AND WS_HAS_MASK \<noteq> 0)"
    unfolding b_def bit_flags unfolding byte_consts by (auto simp: bit_simps)
qed

lemma unat_len_byte: "unat (len_byte n k) = n div 256 ^ k mod 256"
  by (simp add: len_byte_def unat_of_nat)

lemma length_bytes:
  "k \<le> 8 \<Longrightarrow> fold (\<lambda>c l. l * 256 mod 2 ^ 64 + unat c) (map (len_byte n) (rev [0..<k])) 0 = n mod 256 ^ k"
proof (induction k arbitrary: n)
  case (Suc k)
  have "rev [0..<Suc k] = map Suc (rev [0..<k]) @ [0]"
    by (metis map_Suc_upt rev.simps(2) rev_map upt_conv_Cons zero_less_Suc)
  moreover have "len_byte n (Suc j) = len_byte (n div 256) j" for j
    by (simp add: len_byte_def div_mult2_eq)
  ultimately have bytes: "map (len_byte n) (rev [0..<Suc k]) = map (len_byte (n div 256)) (rev [0..<k]) @ [len_byte n 0]"
    by simp
  have le: "256 ^ k * 256 \<le> (2 :: nat) ^ 64"
    using power_increasing[of "Suc k" 8 "256 :: nat"] Suc.prems by simp
  have lt: "n div 256 mod 256 ^ k < 256 ^ k" by simp
  have "n div 256 mod 256 ^ k * 256 < (2 :: nat) ^ 64"
    by (rule order_less_le_trans[OF mult_strict_right_mono[OF lt] le]) simp
  with Suc show ?case unfolding bytes by (simp add: unat_len_byte mod_mult2_eq del: upt_Suc)
qed simp

lemma put_mask_whole:
  assumes "length key = 4" "length old = 4"
  shows "put_mask 4 (key @ rest) old = key"
proof -
  obtain a b c d where "key = [a, b, c, d]" using assms(1) by (auto simp: length_Suc_conv numeral_eq_Suc)
  moreover obtain a' b' c' d' where "old = [a', b', c', d']" using assms(2) by (auto simp: length_Suc_conv numeral_eq_Suc)
  ultimately show ?thesis by (simp add: put_mask_0)
qed

definition frame_head :: "u8 \<Rightarrow> nat \<Rightarrow> bytes" where
  "frame_head flags n =
     (let b0 = (if flags AND WS_FIN \<noteq> 0 then 0x80 else 0) OR (flags AND WS_OP_MASK);
          b1 = (\<lambda>k. (if flags AND WS_HAS_MASK \<noteq> 0 then 0x80 else 0) OR (of_nat k :: u8)) in
      if n < 126 then [b0, b1 n]
      else if n \<le> 0xFFFF then b0 # b1 126 # map (len_byte n) (rev [0..<2])
      else b0 # b1 127 # map (len_byte n) (rev [0..<8]))"

definition ws_frame :: "u8 \<Rightarrow> bytes \<Rightarrow> bytes \<Rightarrow> bytes" where
  "ws_frame flags key data = frame_head flags (length data) @
     (if flags AND WS_HAS_MASK \<noteq> 0 then key @ fst (websocket_decode data key 0) else data)"

lemma byte_order: "rev [0..<8] = [7, 6, 5, 4, 3, 2, 1, 0 :: nat]" "rev [0..<2] = [1, 0 :: nat]"
  by (simp_all add: upt_rec[of _ "_ :: nat"] numeral_eq_Suc)

lemma build_frame_eq:
  assumes "length key = 4"
  shows "websocket_build_frame buf flags (Some key) data =
    (ws_frame flags key data @ drop (length (ws_frame flags key data)) buf, length (ws_frame flags key data))"
  using assms by (simp add: websocket_build_frame_def ws_frame_def frame_head_def byte_order Let_def)

lemma frame_size:
  assumes "length key = 4"
  shows "length (ws_frame flags key data) = websocket_calc_frame_size flags (length data)"
  using assms by (simp add: ws_frame_def frame_head_def websocket_calc_frame_size_def Let_def)

text \<open>The first two bytes, and the length behind them.\<close>

lemma run_head_bytes:
  fixes max_size :: nat and closes :: "ws_event list \<Rightarrow> bool" and u :: ws_ctx
  assumes s: "ws_state ps = S_Start" and n: "n < 2 ^ 64"
  defines "st \<equiv> ws_settings max_size closes"
  obtains ps1 where "ws_length ps1 = n" "ws_flags ps1 = (flags AND 0x1F) OR (if flags AND WS_HAS_MASK \<noteq> 0 then WS_HAS_MASK else 0)"
    "ws_mask ps1 = ws_mask ps" "ws_mask_offset ps1 = 0" "ws_offset ps1 = 0"
    "\<forall>rest. ws_run st (frame_head flags n @ rest) False ps u =
       sbind (length_done st ps1 u) (\<lambda>(r, fr, ps2, u'). ws_run st rest fr ps2 u')"
proof -
  let ?b0 = "(if flags AND WS_FIN \<noteq> 0 then 0x80 else 0) OR (flags AND WS_OP_MASK)"
  let ?b1 = "\<lambda>k. (if flags AND WS_HAS_MASK \<noteq> 0 then 0x80 else 0) OR (of_nat k :: u8)"
  let ?f = "(flags AND 0x1F) OR (if flags AND WS_HAS_MASK \<noteq> 0 then WS_HAS_MASK else 0)"
  define p0 where "p0 = start_byte ?b0 ps"
  have p0: "ws_state p0 = S_Head" "ws_flags p0 = flags AND 0x1F" "ws_mask p0 = ws_mask ps" "ws_mask_offset p0 = 0"
    "ws_offset p0 = 0" using first_byte[of flags] by (simp_all add: p0_def start_byte_def)
  have p1: "head_byte (?b1 k) p0 = p0\<lparr>ws_length := k, ws_flags := ?f\<rparr>" if "k < 128" for k
    using second_byte[OF that, of flags] p0(2) by (simp add: head_byte_def)
  have ok: "ok_parser p0" using p0(1) by (simp add: ok_parser_def)
  show ?thesis
  proof (cases "n < 126")
    case True
    let ?p = "p0\<lparr>ws_length := n, ws_flags := ?f\<rparr>"
    have "ws_run st (frame_head flags n @ rest) False ps u =
        sbind (length_done st ?p u) (\<lambda>(r, fr, ps2, u'). ws_run st rest fr ps2 u')" for rest
      using True s p0(1) p1[of n] wsc.run_Cons[OF ok]
      by (simp add: frame_head_def Let_def st_def wsc.run_start flip: p0_def)
    then show ?thesis using p0 by (intro that[of ?p]) simp_all
  next
    case False
    define k :: nat where "k = (if n \<le> 0xFFFF then 2 else 8)"
    let ?q = "p0\<lparr>ws_flags := ?f, ws_require := k, ws_length := 0, ws_state := S_Length\<rparr>"
    let ?p = "?q\<lparr>ws_length := n, ws_require := 0\<rparr>"
    let ?bs = "map (len_byte n) (rev [0..<k])"
    have "n mod 256 ^ k = n" using n by (simp add: k_def)
    then have "length_loop (?bs @ rest) ?q = (rest, ?p)" for rest
      using length_bytes[of k n] by (simp add: length_loop_eq k_def)
    then have len: "ws_run st (?bs @ rest) False ?q u =
        sbind (length_done st ?p u) (\<lambda>(r, fr, ps2, u'). ws_run st rest fr ps2 u')" for rest
      unfolding st_def by (subst wsc.run_length) (simp_all add: k_def Let_def)
    have hd: "frame_head flags n = ?b0 # ?b1 (if n \<le> 0xFFFF then 126 else 127) # ?bs"
      using False by (simp add: frame_head_def k_def Let_def)
    have "ws_run st (frame_head flags n @ rest) False ps u = ws_run st (?bs @ rest) False ?q u" for rest
      unfolding hd using s p0(1) p1[of "if n \<le> 0xFFFF then 126 else 127"] wsc.run_Cons[OF ok]
      by (simp add: st_def wsc.run_start k_def Let_def flip: p0_def)
    with len p0 show ?thesis by (intro that[of ?p]) simp_all
  qed
qed

lemma flag_bits:
  fixes w :: u8
  defines "f \<equiv> (w AND 0x1F) OR (if w AND WS_HAS_MASK \<noteq> 0 then WS_HAS_MASK else 0)"
  shows "f AND WS_OP_MASK = w AND WS_OP_MASK" "(f AND WS_FIN \<noteq> 0) = (w AND WS_FIN \<noteq> 0)"
    "(f AND WS_HAS_MASK \<noteq> 0) = (w AND WS_HAS_MASK \<noteq> 0)"
proof -
  show "f AND WS_OP_MASK = w AND WS_OP_MASK"
  proof (rule bit_word_eqI)
    fix n assume "n < LENGTH(8)"
    then have "n \<in> {0, 1, 2, 3, 4, 5, 6, 7}" by auto
    then show "bit (f AND WS_OP_MASK) n = bit (w AND WS_OP_MASK) n"
      unfolding f_def byte_consts by (auto simp: bit_simps)
  qed
qed (unfold f_def bit_flags, unfold byte_consts, auto simp: bit_simps)

text \<open>
  What one frame means: its payload becomes the body, and the frame ends. The parser itself is
  not looked at.
\<close>

definition frame_effect :: "nat \<Rightarrow> (ws_event list \<Rightarrow> bool) \<Rightarrow> u8 \<Rightarrow> bytes \<Rightarrow> ws_ctx \<Rightarrow> ws_fault + (int \<times> bool \<times> ws_ctx)" where
  "frame_effect max_size closes flags data u =
     (if max_size < length data then Inl Length_Error
      else ws_on_frame_end closes websocket_parser_init
        (u\<lparr>ws_opcode := flags AND WS_OP_MASK, is_text := (is_text u \<or> flags AND WS_OP_MASK = WS_OP_TEXT),
           is_binary := (is_binary u \<or> flags AND WS_OP_MASK = WS_OP_BINARY), ws_fin := (flags AND WS_FIN \<noteq> 0),
           ws_body := data, part_msg := True\<rparr>))"

lemma end_any: "ws_on_frame_end closes ps u = ws_on_frame_end closes ps' u"
  by (simp add: ws_on_frame_end_def)

text \<open>The header is complete and the body follows.\<close>

lemma run_payload:
  fixes max_size :: nat and closes :: "ws_event list \<Rightarrow> bool" and u :: ws_ctx
  assumes n: "ws_length ps = length data"
    and fl: "ws_flags ps AND WS_OP_MASK = flags AND WS_OP_MASK" "(ws_flags ps AND WS_FIN \<noteq> 0) = (flags AND WS_FIN \<noteq> 0)"
    and d: "fst (unmasked ps wire) = data" and off: "ws_offset ps = 0"
  defines "st \<equiv> ws_settings max_size closes"
  obtains ps' where "ws_state ps' = S_Start" "ws_mask ps' = ws_mask ps"
    "\<forall>rest. sbind (header_done st ps u) (\<lambda>(r, fr, ps2, u'). ws_run st (wire @ rest) fr ps2 u') =
       sbind (frame_effect max_size closes flags data u) (\<lambda>(r, fr, u').
         if fr \<and> data \<noteq> [] then Inl Freed_Parser else ws_run st rest fr ps' u')"
proof (cases "max_size < length data")
  case True
  then show ?thesis
    using n by (intro that[of "ps\<lparr>ws_state := S_Start\<rparr>"])
      (auto simp: header_done_def frame_effect_def st_def ws_settings_def ws_on_frame_header_def Let_def)
next
  case False
  have wire: "length wire = length data" using d length_unmasked[of ps wire] by simp
  let ?u = "u\<lparr>ws_opcode := flags AND WS_OP_MASK, is_text := (is_text u \<or> flags AND WS_OP_MASK = WS_OP_TEXT),
      is_binary := (is_binary u \<or> flags AND WS_OP_MASK = WS_OP_BINARY), ws_fin := (flags AND WS_FIN \<noteq> 0)\<rparr>"
  let ?v = "?u\<lparr>ws_body := data, part_msg := True\<rparr>"
  have fe: "frame_effect max_size closes flags data u = ws_on_frame_end closes p ?v" for p
    using False by (simp add: frame_effect_def end_any[of closes p _ websocket_parser_init])
  show ?thesis
  proof (cases "data = []")
    case True
    have "header_done st ps u = map_sum id (\<lambda>(r, fr, u'). (r, fr, ps\<lparr>ws_state := S_Start\<rparr>, u')) (ws_on_frame_end closes (ps\<lparr>ws_state := S_Start\<rparr>) ?v)"
      using True n fl by (simp add: header_done_def st_def ws_settings_def ws_on_frame_header_def Let_def)
    then show ?thesis
      using True wire fe[of "ps\<lparr>ws_state := S_Start\<rparr>"]
      by (intro that[of "ps\<lparr>ws_state := S_Start\<rparr>"])
        (simp_all add: sbind_map case_prod_beta')
  next
    case ne: False
    let ?p = "ps\<lparr>ws_state := S_Body, ws_require := length data\<rparr>"
    let ?mo = "snd (unmasked ?p wire)"
    let ?q = "?p\<lparr>ws_mask_offset := ?mo, ws_require := 0\<rparr>"
    let ?w = "?u\<lparr>ws_body := take (length data) (ws_body ?u) @ replicate (length data - length (ws_body ?u)) 0, part_msg := True\<rparr>"
    have hd: "header_done st ps u = Inr (0, False, ?p, ?w)"
      using ne n fl False by (simp add: header_done_def st_def ws_settings_def ws_on_frame_header_def Let_def)
    have "fst (unmasked ?p wire) = data" using d by (simp add: unmasked_def split: if_splits)
    then have body: "on_frame_body st ?p wire ?w = Inr (0, ?mo, ?v)"
      using off wire by (simp add: st_def ws_settings_def frame_body_eq patch_def)
    have "ws_run st (wire @ rest) False ?p ?w =
        sbind (on_frame_end st ?q ?v) (\<lambda>(r, fr, u''). if fr then Inl Freed_Parser
          else ws_run st rest False (?q\<lparr>ws_state := S_Start\<rparr>) u'')" for rest
      using ne wire body by (simp add: st_def wsc.run_body_whole cong: if_cong)
    with hd ne show ?thesis
      by (intro that[of "?q\<lparr>ws_state := S_Start\<rparr>"])
        (auto simp: fe[of ?q] st_def ws_settings_def sbind_def split: sum.splits)
  qed
qed

lemma run_frame:
  fixes max_size :: nat and closes :: "ws_event list \<Rightarrow> bool" and u :: ws_ctx
  assumes s: "ws_state ps = S_Start" "length (ws_mask ps) = 4" and key: "length key = 4" and n: "length data < 2 ^ 64"
  defines "st \<equiv> ws_settings max_size closes"
  obtains ps' where "ws_state ps' = S_Start" "length (ws_mask ps') = 4"
    "\<forall>rest. ws_run st (ws_frame flags key data @ rest) False ps u =
       sbind (frame_effect max_size closes flags data u) (\<lambda>(r, fr, u').
         if fr \<and> data \<noteq> [] then Inl Freed_Parser else ws_run st rest fr ps' u')"
proof -
  obtain ps1 where p: "ws_length ps1 = length data"
    "ws_flags ps1 = (flags AND 0x1F) OR (if flags AND WS_HAS_MASK \<noteq> 0 then WS_HAS_MASK else 0)"
    "ws_mask ps1 = ws_mask ps" "ws_mask_offset ps1 = 0" "ws_offset ps1 = 0"
    and run: "\<forall>rest. ws_run st (frame_head flags (length data) @ rest) False ps u =
       sbind (length_done st ps1 u) (\<lambda>(r, fr, ps2, u'). ws_run st rest fr ps2 u')"
    unfolding st_def by (rule run_head_bytes[OF s(1) n])
  note fl = flag_bits[of flags, folded p(2)]
  show ?thesis
  proof (cases "flags AND WS_HAS_MASK \<noteq> 0")
    case True
    let ?w = "fst (websocket_decode data key 0)"
    let ?m = "ps1\<lparr>ws_state := S_Mask, ws_require := 4\<rparr>"
    let ?p = "?m\<lparr>ws_mask := key, ws_require := 0\<rparr>"
    have "mask_loop (key @ xs) ?m = (xs, ?p)" for xs
      using put_mask_whole[OF key, of "ws_mask ps1" xs] s(2) key p(3) by (simp add: mask_loop_eq)
    then have mask: "ws_run st (key @ xs) False ?m v = sbind (header_done st ?p v) (\<lambda>(r, fr, ps2, u'). ws_run st xs fr ps2 u')" for xs v
      unfolding st_def using key by (subst wsc.run_mask) (auto simp: Let_def)
    have "ws_run st (ws_frame flags key data @ rest) False ps u =
        sbind (header_done st ?p u) (\<lambda>(r, fr, ps2, u'). ws_run st (?w @ rest) fr ps2 u')" for rest
      using run True fl(3) mask by (simp add: ws_frame_def length_done_def)
    moreover have dec: "fst (unmasked ?p ?w) = data" using fl(3) True p(4) by (simp add: unmasked_def decode_decode)
    moreover obtain ps' where "ws_state ps' = S_Start" "ws_mask ps' = ws_mask ?p"
      "\<forall>rest. sbind (header_done st ?p u) (\<lambda>(r, fr, ps2, u'). ws_run st (?w @ rest) fr ps2 u') =
         sbind (frame_effect max_size closes flags data u) (\<lambda>(r, fr, u').
           if fr \<and> data \<noteq> [] then Inl Freed_Parser else ws_run st rest fr ps' u')"
      unfolding st_def by (rule run_payload[of ?p data flags ?w max_size closes u]) (use p fl dec in simp_all)
    ultimately show ?thesis using key by (intro that[of ps']) simp_all
  next
    case False
    have "ws_run st (ws_frame flags key data @ rest) False ps u =
        sbind (header_done st ps1 u) (\<lambda>(r, fr, ps2, u'). ws_run st (data @ rest) fr ps2 u')" for rest
      using run False fl(3) by (simp add: ws_frame_def length_done_def)
    moreover have dec: "fst (unmasked ps1 data) = data" using fl(3) False by (simp add: unmasked_def)
    moreover obtain ps' where "ws_state ps' = S_Start" "ws_mask ps' = ws_mask ps1"
      "\<forall>rest. sbind (header_done st ps1 u) (\<lambda>(r, fr, ps2, u'). ws_run st (data @ rest) fr ps2 u') =
         sbind (frame_effect max_size closes flags data u) (\<lambda>(r, fr, u').
           if fr \<and> data \<noteq> [] then Inl Freed_Parser else ws_run st rest fr ps' u')"
      unfolding st_def by (rule run_payload[of ps1 data flags data max_size closes u]) (use p fl dec in simp_all)
    ultimately show ?thesis using p(3) s(2) by (intro that[of ps']) simp_all
  qed
qed

subsection \<open>Streams of frames and messages\<close>

type_synonym ws_fr = "u8 \<times> bytes \<times> bytes"

text \<open>Chunks as they arrive. The web logic does not look at the result of \<^verbatim>\<open>Execute\<close>.\<close>

fun ws_feed ::
  "nat \<Rightarrow> (ws_event list \<Rightarrow> bool) \<Rightarrow> bytes list \<Rightarrow> bool \<times> websocket_parser \<times> ws_ctx \<Rightarrow>
   ws_fault + (bool \<times> websocket_parser \<times> ws_ctx)" where
  "ws_feed max_size closes [] s = Inr s"
| "ws_feed max_size closes (x # xs) s = sbind (ws_execute max_size closes x s) (\<lambda>(ret, s'). ws_feed max_size closes xs s')"

lemma execute_run:
  "sbind (ws_execute max_size closes x (fr, ps, u)) (\<lambda>(ret, fr', ps', u'). Inr (fr', norm_parser ps', u')) =
     ws_run (ws_settings max_size closes) x fr ps u"
  by (simp add: ws_execute_def ws_run_def no_count_def sbind_map sbind_assoc case_prod_beta')

lemma feed_run:
  "ok_parser ps \<Longrightarrow> sbind (ws_feed max_size closes xs (fr, ps, u)) (\<lambda>(fr', ps', u'). Inr (fr', norm_parser ps', u')) =
     ws_run (ws_settings max_size closes) (concat xs) fr ps u"
proof (induction xs arbitrary: fr ps u)
  case (Cons x xs)
  let ?st = "ws_settings max_size closes"
  have run: "ws_run ?st (concat (x # xs)) fr ps u = sbind (ws_run ?st x fr ps u) (\<lambda>(fr, ps, u). ws_run ?st (concat xs) fr ps u)"
    using wsc.run_append[OF Cons.prems] by simp
  show ?case
  proof (cases "ws_execute max_size closes x (fr, ps, u)")
    case (Inl e)
    with execute_run[of max_size closes x fr ps u] have "ws_run ?st x fr ps u = Inl e" by simp
    with Inl run show ?thesis by simp
  next
    case (Inr a)
    then obtain ret fr' ps' u' where e: "ws_execute max_size closes x (fr, ps, u) = Inr (ret, fr', ps', u')" by (cases a) auto
    with execute_run[of max_size closes x fr ps u]
    have r: "ws_run ?st x fr ps u = Inr (fr', norm_parser ps', u')" by simp
    have ok: "ok_parser ps'" using wsc.run_ok[OF Cons.prems r] by (simp add: ok_parser_def norm_parser_def split: if_splits)
    from Cons.IH[OF ok, of fr' u'] run r e wsc.run_norm[OF ok] show ?thesis by simp
  qed
qed simp

text \<open>Frames one after the other, when the logics never close the connection.\<close>

fun frames_effect :: "nat \<Rightarrow> ws_fr list \<Rightarrow> ws_ctx \<Rightarrow> ws_fault + ws_ctx" where
  "frames_effect max_size [] u = Inr u"
| "frames_effect max_size ((flags, key, data) # fs) u =
     sbind (frame_effect max_size (\<lambda>_. False) flags data u) (\<lambda>(r, fr, u'). frames_effect max_size fs u')"

definition fr_ok :: "ws_fr \<Rightarrow> bool" where
  "fr_ok = (\<lambda>(flags, key, data). length key = 4 \<and> length data < 2 ^ 64)"

definition wire :: "ws_fr list \<Rightarrow> bytes" where
  "wire fs = concat (map (\<lambda>(flags, key, data). ws_frame flags key data) fs)"

lemma effect_open: "frame_effect max_size (\<lambda>_. False) flags data u = Inr (r, fr, u') \<Longrightarrow> \<not> fr"
  by (auto simp: frame_effect_def ws_on_frame_end_def on_ws_msg_def Let_def split: if_splits)

lemma run_frames:
  assumes "ws_state ps = S_Start" "length (ws_mask ps) = 4" "list_all fr_ok fs"
  shows "\<exists>ps'. ws_run (ws_settings max_size (\<lambda>_. False)) (wire fs) False ps u =
    sbind (frames_effect max_size fs u) (\<lambda>u'. Inr (False, ps' u', u'))"
  using assms
proof (induction fs arbitrary: ps u)
  case Nil
  then show ?case by (auto simp: wire_def)
next
  case (Cons f fs)
  let ?st = "ws_settings max_size (\<lambda>_. False)"
  obtain flags key data where f: "f = (flags, key, data)" by (cases f)
  have ok: "length key = 4" "length data < 2 ^ 64" "list_all fr_ok fs" using Cons.prems(3) by (simp_all add: f fr_ok_def)
  from run_frame[OF Cons.prems(1,2) ok(1,2), of max_size "\<lambda>_. False" flags u]
  obtain ps' where p: "ws_state ps' = S_Start" "length (ws_mask ps') = 4"
    "\<forall>rest. ws_run ?st (ws_frame flags key data @ rest) False ps u =
       sbind (frame_effect max_size (\<lambda>_. False) flags data u) (\<lambda>(r, fr, u').
         if fr \<and> data \<noteq> [] then Inl Freed_Parser else ws_run ?st rest fr ps' u')" by blast
  show ?case
  proof (cases "frame_effect max_size (\<lambda>_. False) flags data u")
    case (Inl e)
    with p(3) show ?thesis by (simp add: f wire_def)
  next
    case (Inr a)
    then obtain r fr u' where e: "frame_effect max_size (\<lambda>_. False) flags data u = Inr (r, fr, u')" by (cases a) auto
    with effect_open[OF e] Cons.IH[OF p(1,2) ok(3), of u'] p(3) show ?thesis by (simp add: f wire_def)
  qed
qed

text \<open>
  The frames of a message of opcode \<open>op\<close>, sent in pieces, each with its masking key; and what the
  message should lead to.
\<close>

fun msg_frames :: "u8 \<Rightarrow> (bytes \<times> bytes) list \<Rightarrow> ws_fr list" where
  "msg_frames op [] = []"
| "msg_frames op [(key, d)] = [(op OR WS_FIN OR WS_HAS_MASK, key, d)]"
| "msg_frames op ((key, d) # kd # kds) = (op OR WS_HAS_MASK, key, d) # msg_frames WS_OP_CONTINUE (kd # kds)"

definition msg_events :: "u8 \<Rightarrow> bytes \<Rightarrow> ws_event list" where
  "msg_events op data =
     (if op = WS_OP_TEXT then [Ws_Msg Text_Frame data]
      else if op = WS_OP_BINARY then [Ws_Msg Binary_Frame data]
      else if op = WS_OP_CLOSE then [Ws_Send (ws_frame (WS_OP_CLOSE OR WS_FIN) [] [])]
      else if op = WS_OP_PING then [Ws_Send (ws_frame (WS_OP_PONG OR WS_FIN) [] data)]
      else [])"

text \<open>Data messages may come in pieces, control messages may not, and a close message has a body.\<close>

definition msg_ok :: "nat \<Rightarrow> u8 \<times> (bytes \<times> bytes) list \<Rightarrow> bool" where
  "msg_ok max_size = (\<lambda>(op, kds). kds \<noteq> [] \<and>
     (op \<in> {WS_OP_TEXT, WS_OP_BINARY} \<or> op \<in> {WS_OP_CLOSE, WS_OP_PING, WS_OP_PONG} \<and> length kds = 1) \<and>
     (op = WS_OP_CLOSE \<longrightarrow> snd (hd kds) \<noteq> []) \<and>
     (\<forall>(key, d) \<in> set kds. length key = 4 \<and> length d \<le> max_size \<and> length d < 2 ^ 64))"

definition idle :: "ws_ctx \<Rightarrow> bool" where
  "idle u \<longleftrightarrow> ws_payloads u = [] \<and> \<not> is_text u \<and> \<not> is_binary u \<and> \<not> part_msg u"

lemma op_flags:
  "op \<in> {0x0, 0x1, 0x2, 0x8, 0x9, 0xA} \<Longrightarrow> (op OR WS_FIN OR WS_HAS_MASK) AND WS_OP_MASK = (op :: u8) \<and>
     (op OR WS_FIN OR WS_HAS_MASK) AND WS_FIN \<noteq> 0 \<and> (op OR WS_HAS_MASK) AND WS_OP_MASK = op \<and>
     (op OR WS_HAS_MASK) AND WS_FIN = 0"
  by auto

lemma data_frames:
  assumes "kds \<noteq> []" "op \<in> {WS_OP_CONTINUE, WS_OP_TEXT, WS_OP_BINARY}" "\<forall>kd \<in> set kds. length (snd kd) \<le> max_size"
    and "is_text u \<or> op = WS_OP_TEXT \<longleftrightarrow> t" "t \<or> is_binary u \<or> op = WS_OP_BINARY"
  shows "\<exists>u'. frames_effect max_size (msg_frames op kds) u = Inr u' \<and> idle u' \<and>
    ws_events u' = ws_events u @ [Ws_Msg (if t then Text_Frame else Binary_Frame) (ws_payloads u @ concat (map snd kds))]"
  using assms
proof (induction op kds arbitrary: u rule: msg_frames.induct)
  case (2 op key d)
  have f: "(op OR WS_FIN OR WS_HAS_MASK) AND WS_OP_MASK = op" "(op OR WS_FIN OR WS_HAS_MASK) AND WS_FIN \<noteq> 0" "op \<noteq> WS_OP_CLOSE"
    using op_flags[of op] 2(2) by auto
  from 2(3-5) f show ?case
    by (cases t) (auto simp: frame_effect_def ws_on_frame_end_def on_ws_msg_def idle_def Let_def)
next
  case (3 op key d kd kds)
  have f: "(op OR WS_HAS_MASK) AND WS_OP_MASK = op" "(op OR WS_HAS_MASK) AND WS_FIN = 0"
    using op_flags[of op] 3(3) by auto
  let ?u = "u\<lparr>ws_opcode := op, is_text := (is_text u \<or> op = WS_OP_TEXT), is_binary := (is_binary u \<or> op = WS_OP_BINARY),
    ws_fin := False, ws_body := d, part_msg := True, ws_payloads := ws_payloads u @ d\<rparr>"
  have "frame_effect max_size (\<lambda>_. False) (op OR WS_HAS_MASK) d u = Inr (0, False, ?u)"
    using 3(4) f by (simp add: frame_effect_def ws_on_frame_end_def Let_def)
  moreover from 3(1)[of ?u] 3(4-6) obtain u' where
    "frames_effect max_size (msg_frames WS_OP_CONTINUE (kd # kds)) ?u = Inr u'" "idle u'"
    "ws_events u' = ws_events u @ [Ws_Msg (if t then Text_Frame else Binary_Frame) ((ws_payloads u @ d) @ concat (map snd (kd # kds)))]"
    by auto
  ultimately show ?case by auto
qed simp

lemma answer_frame:
  "flags AND WS_HAS_MASK = 0 \<Longrightarrow>
     fst (websocket_build_frame (replicate (websocket_calc_frame_size flags (length d)) 0) flags None d) = ws_frame flags [] d"
  by (simp add: websocket_build_frame_def ws_frame_def frame_head_def byte_order websocket_calc_frame_size_def Let_def)

lemma msg_effect:
  assumes "msg_ok max_size (op, kds)" "idle u"
  shows "\<exists>u'. frames_effect max_size (msg_frames op kds) u = Inr u' \<and> idle u' \<and>
    ws_events u' = ws_events u @ msg_events op (concat (map snd kds))"
proof (cases "op \<in> {WS_OP_TEXT, WS_OP_BINARY}")
  case True
  have "\<forall>kd \<in> set kds. length (snd kd) \<le> max_size" using assms(1) by (auto simp: msg_ok_def)
  with True assms data_frames[of kds op max_size u "op = WS_OP_TEXT"] show ?thesis
    by (auto simp: msg_ok_def idle_def msg_events_def)
next
  case False
  with assms(1) have op: "op \<in> {WS_OP_CLOSE, WS_OP_PING, WS_OP_PONG}" and "length kds = 1" by (auto simp: msg_ok_def)
  then obtain key d where kds: "kds = [(key, d)]" by (auto simp: length_Suc_conv)
  have "length d \<le> max_size" "op = WS_OP_CLOSE \<longrightarrow> d \<noteq> []" using assms(1) by (auto simp: msg_ok_def kds)
  with op assms(2) op_flags[of op] show ?thesis
    by (auto simp: kds frame_effect_def ws_on_frame_end_def on_ws_msg_def idle_def msg_events_def answer_frame
        answer_frame[of _ "[]", simplified] Let_def)
qed

lemma frames_effect_append:
  "frames_effect max_size (fs @ gs) u = sbind (frames_effect max_size fs u) (frames_effect max_size gs)"
  by (induction max_size fs u rule: frames_effect.induct) (simp_all add: sbind_assoc case_prod_beta')

lemma msgs_effect:
  assumes "list_all (msg_ok max_size) msgs" "idle u"
  shows "\<exists>u'. frames_effect max_size (concat (map (\<lambda>(op, kds). msg_frames op kds) msgs)) u = Inr u' \<and> idle u' \<and>
    ws_events u' = ws_events u @ concat (map (\<lambda>(op, kds). msg_events op (concat (map snd kds))) msgs)"
  using assms
proof (induction msgs arbitrary: u)
  case (Cons m msgs)
  obtain op kds where m: "m = (op, kds)" by (cases m)
  with Cons.prems msg_effect[of max_size op kds u] obtain u1 where
    "frames_effect max_size (msg_frames op kds) u = Inr u1" "idle u1"
    "ws_events u1 = ws_events u @ msg_events op (concat (map snd kds))" by auto
  with Cons.IH[of u1] Cons.prems(1) show ?case by (auto simp: m frames_effect_append)
qed simp

lemma msg_frames_ok: "\<forall>(key, d) \<in> set kds. length key = 4 \<and> length d < 2 ^ 64 \<Longrightarrow> list_all fr_ok (msg_frames op kds)"
  by (induction op kds rule: msg_frames.induct) (auto simp: fr_ok_def)

lemma feed_frames:
  assumes "concat chunks = wire fs" "list_all fr_ok fs"
  shows "frames_effect max_size fs u = Inl e \<Longrightarrow>
      ws_feed max_size (\<lambda>_. False) chunks (False, websocket_parser_init, u) = Inl e"
    and "frames_effect max_size fs u = Inr u' \<Longrightarrow>
      \<exists>ps. ws_feed max_size (\<lambda>_. False) chunks (False, websocket_parser_init, u) = Inr (False, ps, u')"
proof -
  have ps: "ws_state websocket_parser_init = S_Start" "length (ws_mask websocket_parser_init) = 4"
    by (simp_all add: websocket_parser_init_def)
  obtain q where "ws_run (ws_settings max_size (\<lambda>_. False)) (wire fs) False websocket_parser_init u =
      sbind (frames_effect max_size fs u) (\<lambda>u'. Inr (False, q u', u'))"
    using run_frames[OF ps assms(2)] by blast
  then have run: "sbind (ws_feed max_size (\<lambda>_. False) chunks (False, websocket_parser_init, u))
        (\<lambda>(fr', ps', u'). Inr (fr', norm_parser ps', u')) =
      sbind (frames_effect max_size fs u) (\<lambda>u'. Inr (False, q u', u'))"
    using feed_run[OF ok_parser_init, of max_size "\<lambda>_. False" chunks False u] assms(1) by simp
  show "ws_feed max_size (\<lambda>_. False) chunks (False, websocket_parser_init, u) = Inl e"
    if "frames_effect max_size fs u = Inl e"
    using run that by (auto simp: sbind_def split: sum.splits)
  show "\<exists>ps. ws_feed max_size (\<lambda>_. False) chunks (False, websocket_parser_init, u) = Inr (False, ps, u')"
    if "frames_effect max_size fs u = Inr u'"
    using run that by (auto simp: sbind_def split: sum.splits)
qed

lemma built_wire:
  assumes "list_all fr_ok fs"
  shows "concat (map (\<lambda>(flags, key, data). case websocket_build_frame buf flags (Some key) data of (f, n) \<Rightarrow> take n f) fs) = wire fs"
  using assms unfolding wire_def
  by (intro arg_cong[where f = concat] map_cong) (auto simp: build_frame_eq fr_ok_def list_all_iff)

lemma feed_fault:
  assumes "ws_run (ws_settings max_size closes) (concat chunks) False websocket_parser_init u = Inl e"
  shows "ws_feed max_size closes chunks (False, websocket_parser_init, u) = Inl e"
  using feed_run[OF ok_parser_init, of max_size closes chunks False u] assms by (auto simp: sbind_def split: sum.splits)

lemma frame_fault:
  assumes "concat chunks = ws_frame flags key data" "length key = 4" "length data < 2 ^ 64"
    and "frame_effect max_size closes flags data u = Inl e \<or>
      e = Freed_Parser \<and> data \<noteq> [] \<and> (\<exists>r u'. frame_effect max_size closes flags data u = Inr (r, True, u'))"
  shows "ws_feed max_size closes chunks (False, websocket_parser_init, u) = Inl e"
proof (rule feed_fault)
  have ps: "ws_state websocket_parser_init = S_Start" "length (ws_mask websocket_parser_init) = 4"
    by (simp_all add: websocket_parser_init_def)
  obtain ps' where "\<forall>rest. ws_run (ws_settings max_size closes) (ws_frame flags key data @ rest) False websocket_parser_init u =
      sbind (frame_effect max_size closes flags data u) (\<lambda>(r, fr, u').
        if fr \<and> data \<noteq> [] then Inl Freed_Parser else ws_run (ws_settings max_size closes) rest fr ps' u')"
    by (rule run_frame[OF ps assms(2,3)])
  from spec[OF this, of "[]"] assms(1,4)
  show "ws_run (ws_settings max_size closes) (concat chunks) False websocket_parser_init u = Inl e" by auto
qed

lemma long_header_fault:
  assumes "concat chunks = frame_head flags n" "flags AND WS_HAS_MASK = 0" "max_size < n" "n < 2 ^ 64"
  shows "ws_feed max_size closes chunks (False, websocket_parser_init, u) = Inl Length_Error"
proof (rule feed_fault)
  have ps: "ws_state websocket_parser_init = S_Start" by (simp add: websocket_parser_init_def)
  let ?st = "ws_settings max_size closes"
  obtain ps1 where p: "ws_length ps1 = n" "ws_flags ps1 = (flags AND 0x1F) OR (if flags AND WS_HAS_MASK \<noteq> 0 then WS_HAS_MASK else 0)"
    "\<forall>rest. ws_run ?st (frame_head flags n @ rest) False websocket_parser_init u =
       sbind (length_done ?st ps1 u) (\<lambda>(r, fr, ps2, u'). ws_run ?st rest fr ps2 u')"
    by (rule run_head_bytes[OF ps assms(4), of flags max_size closes u])
  have "ws_flags ps1 AND WS_HAS_MASK = 0" using flag_bits(3)[of flags] assms(2) p(2) by simp
  then have "length_done ?st ps1 u = Inl Length_Error"
    using p(1) assms(3) by (simp add: length_done_def header_done_def ws_settings_def ws_on_frame_header_def Let_def)
  with spec[OF p(3), of "[]"] assms(1) show "ws_run ?st (concat chunks) False websocket_parser_init u = Inl Length_Error"
    by simp
qed

subsection \<open>Properties\<close>

text \<open>
  Claim C3: WebSocket messages arrive. A client sends text and binary messages, whole or in pieces, and between two
  messages, not between the pieces of one, pings, pongs and closes in one frame each, where a close carries a body
  that is not empty (a status); every frame is built by \<^verbatim>\<open>websocket_build_frame\<close> with a masking key of its own, none is larger
  than the limit, and the logics do not close the connection. However the bytes are cut into chunks, the parser never fails,
  every text and binary message reaches the logics once, in order and unchanged, every ping is answered by a pong with
  its data and every such close by a close frame, and at the end the connection is not watched as
  incomplete.
\<close>

theorem ws_messages_delivered:
  assumes "list_all (msg_ok max_size) msgs"
    and "concat chunks = concat (map (\<lambda>(flags, key, data). case websocket_build_frame buf flags (Some key) data of (f, n) \<Rightarrow> take n f)
           (concat (map (\<lambda>(op, kds). msg_frames op kds) msgs)))"
  shows "\<exists>ps u. ws_feed max_size (\<lambda>_. False) chunks (False, websocket_parser_init, ws_ctx_init) = Inr (False, ps, u) \<and>
    ws_events u = concat (map (\<lambda>(op, kds). msg_events op (concat (map snd kds))) msgs) \<and> \<not> part_msg u"
proof -
  let ?fs = "concat (map (\<lambda>(op, kds). msg_frames op kds) msgs)"
  have ok: "list_all fr_ok ?fs"
    using assms(1) msg_frames_ok by (fastforce simp: list_all_iff msg_ok_def)
  have chunks: "concat chunks = wire ?fs" unfolding assms(2) by (rule built_wire[OF ok])
  have "idle ws_ctx_init" by (simp add: idle_def ws_ctx_init_def)
  from msgs_effect[OF assms(1) this] obtain u where u: "frames_effect max_size ?fs ws_ctx_init = Inr u" "idle u"
    "ws_events u = ws_events ws_ctx_init @ concat (map (\<lambda>(op, kds). msg_events op (concat (map snd kds))) msgs)" by blast
  from feed_frames(2)[OF chunks ok u(1)] u(2,3) show ?thesis by (auto simp: idle_def ws_ctx_init_def)
qed

theorem ws_messages_delivered_witness:
  "\<exists>ps u. ws_feed 1000 (\<lambda>_. False)
     [[0x01, 0x82, 1, 2, 3, 4, 0x61 XOR 1], [0x62 XOR 2, 0x80, 0x81], [5, 6, 7, 8, 0x63 XOR 5, 0x89, 0x80, 0, 0], [0, 0]]
     (False, websocket_parser_init, ws_ctx_init) = Inr (False, ps, u) \<and>
   ws_events u = [Ws_Msg Text_Frame [0x61, 0x62, 0x63], Ws_Send [0x8A, 0]] \<and> \<not> part_msg u"
proof -
  let ?msgs = "[(0x1, [([1, 2, 3, 4], [0x61, 0x62]), ([5, 6, 7, 8], [0x63])]), (0x9, [([0, 0, 0, 0], [])])] ::
    (u8 \<times> (bytes \<times> bytes) list) list"
  let ?chunks = "[[0x01, 0x82, 1, 2, 3, 4, 0x61 XOR 1], [0x62 XOR 2, 0x80, 0x81], [5, 6, 7, 8, 0x63 XOR 5, 0x89, 0x80, 0, 0], [0, 0]] :: bytes list"
  have 1: "list_all (msg_ok 1000) ?msgs" by (simp add: msg_ok_def)
  have 2: "concat ?chunks = concat (map (\<lambda>(flags, key, data). case websocket_build_frame [] flags (Some key) data of (f, n) \<Rightarrow> take n f)
      (concat (map (\<lambda>(op, kds). msg_frames op kds) ?msgs)))"
    by (simp add: websocket_build_frame_def websocket_decode_def Let_def)
  from ws_messages_delivered[OF 1 2] show ?thesis
    by (simp add: msg_events_def ws_frame_def frame_head_def)
qed

text \<open>
  A ping between the pieces of a text message spoils the message. Control frames may stand
  between the pieces of a message, but the parser has one buffer and one type for both: the logics get
  the first piece with the data of the ping behind it as a complete text message, the ping is not
  answered, and the rest of the message reaches nobody.
\<close>

theorem ws_interleaved_ping:
  assumes "length k1 = 4" "length k2 = 4" "length k3 = 4"
    and "length a \<le> max_size" "length b \<le> max_size" "length c \<le> max_size" "max_size < 2 ^ 64"
    and "concat chunks = ws_frame (WS_OP_TEXT OR WS_HAS_MASK) k1 a @
           ws_frame (WS_OP_PING OR WS_FIN OR WS_HAS_MASK) k2 b @ ws_frame (WS_OP_CONTINUE OR WS_FIN OR WS_HAS_MASK) k3 c"
  shows "\<exists>ps u. ws_feed max_size (\<lambda>_. False) chunks (False, websocket_parser_init, ws_ctx_init) = Inr (False, ps, u) \<and>
    ws_events u = [Ws_Msg Text_Frame (a @ b)]"
proof -
  let ?fs = "[(WS_OP_TEXT OR WS_HAS_MASK, k1, a), (WS_OP_PING OR WS_FIN OR WS_HAS_MASK, k2, b),
    (WS_OP_CONTINUE OR WS_FIN OR WS_HAS_MASK, k3, c)]"
  have chunks: "concat chunks = wire ?fs" using assms(8) by (simp add: wire_def)
  have ok: "list_all fr_ok ?fs" using assms(1-7) by (simp add: fr_ok_def)
  have "\<exists>u. frames_effect max_size ?fs ws_ctx_init = Inr u \<and> ws_events u = [Ws_Msg Text_Frame (a @ b)]"
    using assms(4-6) by (simp add: frame_effect_def ws_on_frame_end_def on_ws_msg_def ws_ctx_init_def Let_def)
  with feed_frames(2)[OF chunks ok] show ?thesis by blast
qed

theorem ws_interleaved_ping_witness:
  "\<exists>ps u. ws_feed 100 (\<lambda>_. False) [[0x01, 0x81, 0, 0, 0, 0, 0x61], [0x89, 0x81, 0, 0, 0, 0, 0x70], [0x80, 0x81, 0, 0, 0, 0, 0x62]]
     (False, websocket_parser_init, ws_ctx_init) = Inr (False, ps, u) \<and> ws_events u = [Ws_Msg Text_Frame [0x61, 0x70]]"
  using ws_interleaved_ping[of "[0, 0, 0, 0]" "[0, 0, 0, 0]" "[0, 0, 0, 0]" "[0x61]" 100 "[0x70]" "[0x62]"
      "[[0x01, 0x81, 0, 0, 0, 0, 0x61], [0x89, 0x81, 0, 0, 0, 0, 0x70], [0x80, 0x81, 0, 0, 0, 0, 0x62]]"]
  by (simp add: ws_frame_def frame_head_def websocket_decode_def del: ws_feed.simps)

text \<open>
  Three things a client can do bring the thread down, in whatever chunks they arrive. A
  frame header that announces more than a string can hold makes the callback throw before any of
  the payload has arrived; a close frame without a body, which is legal, makes the callback read
  behind an empty string; and when a logic closes the connection from inside a message with a
  body, the parser goes on with the freed parser.
\<close>

theorem ws_parser_faults:
  assumes "length key = 4" "max_size < 2 ^ 64"
  shows "(flags AND WS_HAS_MASK = 0 \<and> max_size < n \<and> n < 2 ^ 64 \<and> concat chunks = frame_head flags n \<longrightarrow>
      ws_feed max_size closes chunks (False, websocket_parser_init, ws_ctx_init) = Inl Length_Error) \<and>
    (concat chunks = ws_frame (WS_OP_CLOSE OR WS_FIN OR WS_HAS_MASK) key [] \<longrightarrow>
      ws_feed max_size closes chunks (False, websocket_parser_init, ws_ctx_init) = Inl Close_Code_Read) \<and>
    (data \<noteq> [] \<and> length data \<le> max_size \<and> closes [Ws_Msg Text_Frame data] \<and>
        concat chunks = ws_frame (WS_OP_TEXT OR WS_FIN OR WS_HAS_MASK) key data \<longrightarrow>
      ws_feed max_size closes chunks (False, websocket_parser_init, ws_ctx_init) = Inl Freed_Parser)"
proof (intro conjI impI; (elim conjE)?)
  assume "flags AND WS_HAS_MASK = 0" "max_size < n" "n < 2 ^ 64" "concat chunks = frame_head flags n"
  then show "ws_feed max_size closes chunks (False, websocket_parser_init, ws_ctx_init) = Inl Length_Error"
    by (intro long_header_fault)
next
  assume "concat chunks = ws_frame (WS_OP_CLOSE OR WS_FIN OR WS_HAS_MASK) key []"
  from this assms(1) show "ws_feed max_size closes chunks (False, websocket_parser_init, ws_ctx_init) = Inl Close_Code_Read"
    by (rule frame_fault) (simp_all add: frame_effect_def ws_on_frame_end_def ws_ctx_init_def)
next
  assume "data \<noteq> []" "length data \<le> max_size" "closes [Ws_Msg Text_Frame data]"
    "concat chunks = ws_frame (WS_OP_TEXT OR WS_FIN OR WS_HAS_MASK) key data"
  from this(4) assms(1) show "ws_feed max_size closes chunks (False, websocket_parser_init, ws_ctx_init) = Inl Freed_Parser"
    by (rule frame_fault)
      (use \<open>data \<noteq> []\<close> \<open>length data \<le> max_size\<close> \<open>closes _\<close> assms(2) in
        \<open>simp_all add: frame_effect_def ws_on_frame_end_def on_ws_msg_def ws_ctx_init_def Let_def\<close>)
qed

theorem ws_parser_faults_witness:
  "ws_feed (2 ^ 62) (\<lambda>_. False) [[0x82], [127, 0x80, 0, 0, 0, 0, 0, 0, 0]] (False, websocket_parser_init, ws_ctx_init) = Inl Length_Error \<and>
   ws_feed (2 ^ 62) (\<lambda>_. False) [[0x88, 0x80, 1, 2, 3, 4]] (False, websocket_parser_init, ws_ctx_init) = Inl Close_Code_Read \<and>
   ws_feed (2 ^ 62) (\<lambda>_. True) [[0x81, 0x81, 0, 0], [0, 0, 0x61]] (False, websocket_parser_init, ws_ctx_init) = Inl Freed_Parser"
proof -
  have "concat [[0x82], [127, 0x80, 0, 0, 0, 0, 0, 0, 0]] = frame_head 0x12 (2 ^ 63)"
    by (simp add: frame_head_def byte_order len_byte_def)
  moreover have "concat [[0x88, 0x80, 1, 2, 3, 4]] = ws_frame (WS_OP_CLOSE OR WS_FIN OR WS_HAS_MASK) [1, 2, 3, 4] []"
    "concat [[0x81, 0x81, 0, 0], [0, 0, 0x61]] = ws_frame (WS_OP_TEXT OR WS_FIN OR WS_HAS_MASK) [0, 0, 0, 0] [0x61]"
    by (simp_all add: ws_frame_def frame_head_def websocket_decode_def)
  ultimately show ?thesis
    using ws_parser_faults[where key = "[1, 2, 3, 4]" and max_size = "2 ^ 62" and flags = "0x12" and n = "2 ^ 63" and
        chunks = "[[0x82], [127, 0x80, 0, 0, 0, 0, 0, 0, 0]]" and closes = "\<lambda>_. False"]
      ws_parser_faults[where key = "[1, 2, 3, 4]" and max_size = "2 ^ 62" and
        chunks = "[[0x88, 0x80, 1, 2, 3, 4]]" and closes = "\<lambda>_. False"]
      ws_parser_faults[where key = "[0, 0, 0, 0]" and max_size = "2 ^ 62" and
        chunks = "[[0x81, 0x81, 0, 0], [0, 0, 0x61]]" and closes = "\<lambda>_. True" and data = "[0x61]"]
    by (simp del: ws_feed.simps concat.simps)
qed

end
