(* ===== verification/Web_Util.thy ===== *)
theory Web_Util
  imports CC_Prelude
begin

text \<open>
  URL encoding of the web threads (\<^verbatim>\<open>web_threads/src/tcp_logic/web_util.cpp\<close>) and the upgrade of a
  connection to WebSocket (\<^verbatim>\<open>CheckUpgrade\<close> and \<^verbatim>\<open>MakeHandshake\<close> of \<^verbatim>\<open>the_ws_parser.cpp\<close>).
\<close>

subsection \<open>URL encoding\<close>

definition hexchars :: bytes where
  "hexchars = [0x30, 0x31, 0x32, 0x33, 0x34, 0x35, 0x36, 0x37, 0x38, 0x39, 0x61, 0x62, 0x63, 0x64, 0x65, 0x66]"

text \<open>A byte that is written as a percent sign and two digits.\<close>

definition url_escaped :: "u8 \<Rightarrow> bool" where
  "url_escaped c \<longleftrightarrow> (c < 0x30 \<and> c \<noteq> 0x2E \<and> c \<noteq> 0x2D \<and> c \<noteq> 0x2A) \<or> (c < 0x41 \<and> 0x39 < c) \<or>
     (0x5A < c \<and> c < 0x61 \<and> c \<noteq> 0x5F) \<or> 0x7A < c"

fun url_encode :: "bytes \<Rightarrow> bytes" where
  "url_encode [] = []"
| "url_encode (c # cs) =
     (if c = 0x20 then [0x2B]
      else if url_escaped c then [0x25, hexchars ! unat (drop_bit 4 c), hexchars ! unat (c AND 15)]
      else [c]) @ url_encode cs"

definition isxdigit :: "u8 \<Rightarrow> bool" where
  "isxdigit c \<longleftrightarrow> 0x30 \<le> c \<and> c \<le> 0x39 \<or> 0x41 \<le> c \<and> c \<le> 0x46 \<or> 0x61 \<le> c \<and> c \<le> 0x66"

text \<open>One digit of \<^verbatim>\<open>_htoi\<close>, with \<^verbatim>\<open>isupper\<close> and \<^verbatim>\<open>tolower\<close>.\<close>

definition hex_digit :: "u8 \<Rightarrow> int" where
  "hex_digit c =
     (let d = (if 0x41 \<le> c \<and> c \<le> 0x5A then c + 0x20 else c) in
      if 0x30 \<le> d \<and> d \<le> 0x39 then uint d - 0x30 else uint d - 0x61 + 10)"

definition htoi :: "u8 \<Rightarrow> u8 \<Rightarrow> int" where
  "htoi a b = hex_digit a * 16 + hex_digit b"

text \<open>
  Decoding in place: the place that is written never overtakes the place that is read, so what is
  still to be read is as it was.
\<close>

fun url_decode :: "bytes \<Rightarrow> bytes" where
  "url_decode [] = []"
| "url_decode (c # cs) =
     (if c = 0x2B then 0x20 # url_decode cs
      else if c = 0x25 \<and> 2 \<le> length cs \<and> isxdigit (cs ! 0) \<and> isxdigit (cs ! 1)
      then of_int (htoi (cs ! 0) (cs ! 1)) # url_decode (drop 2 cs)
      else c # url_decode cs)"

definition url_safe :: "u8 \<Rightarrow> bool" where
  "url_safe c \<longleftrightarrow> 0x30 \<le> c \<and> c \<le> 0x39 \<or> 0x41 \<le> c \<and> c \<le> 0x5A \<or> 0x61 \<le> c \<and> c \<le> 0x7A \<or>
     c \<in> {0x2A, 0x2D, 0x2E, 0x5F, 0x25, 0x2B}"

lemma hexchar:
  assumes "n < 16"
  shows "isxdigit (hexchars ! n)" "hex_digit (hexchars ! n) = int n" "url_safe (hexchars ! n)"
proof -
  have n: "n < length hexchars" using assms by (simp add: hexchars_def)
  have "list_all isxdigit hexchars" "list_all url_safe hexchars"
    by (simp_all add: hexchars_def isxdigit_def url_safe_def)
  with n show "isxdigit (hexchars ! n)" "url_safe (hexchars ! n)" by (simp_all add: list_all_length)
  have "map hex_digit hexchars = map int [0..<16]"
    by (simp add: hexchars_def hex_digit_def upt_rec[of _ "_ :: nat"])
  from arg_cong[OF this, of "\<lambda>xs. xs ! n"] n assms show "hex_digit (hexchars ! n) = int n" by simp
qed

lemma nibbles:
  fixes c :: u8
  shows "unat (drop_bit 4 c) < 16" "unat (c AND 15) < 16"
    "drop_bit 4 c * 16 + (c AND 15) = c"
proof -
  have c: "unat c < 256" using unsigned_less[of c] by simp
  have h: "unat (drop_bit 4 c) = unat c div 16" by (simp only: unat_drop_bit_eq) (simp add: drop_bit_eq_div)
  have "c AND 15 = take_bit 4 c" by (simp add: take_bit_eq_mask mask_eq_exp_minus_1)
  then have l: "unat (c AND 15) = unat c mod 16" by (simp only: unsigned_take_bit_eq) (simp add: take_bit_eq_mod)
  show "unat (drop_bit 4 c) < 16" "unat (c AND 15) < 16" using c h l by simp_all
  have w: "(of_nat (unat x) :: u8) = x" for x by simp
  have "drop_bit 4 c = of_nat (unat c div 16)" "c AND 15 = of_nat (unat c mod 16)"
    using w[of "drop_bit 4 c"] w[of "c AND 15"] unfolding h l by simp_all
  then have "drop_bit 4 c * 16 + (c AND 15) = of_nat (unat c div 16 * 16 + unat c mod 16)"
    by (simp only: of_nat_add of_nat_mult of_nat_numeral)
  then show "drop_bit 4 c * 16 + (c AND 15) = c" by simp
qed

lemma url_decode_encode: "url_decode (url_encode s) = s"
proof (induction s)
  case (Cons c cs)
  show ?case
  proof (cases "c = 0x20 \<or> url_escaped c")
    case True
    with Cons show ?thesis by (auto simp: hexchar nibbles htoi_def)
  next
    case False
    then have "c \<noteq> 0x2B" "c \<noteq> 0x25" by (auto simp: url_escaped_def)
    with False Cons show ?thesis by simp
  qed
qed simp

lemma url_encode_length: "length (url_encode s) \<le> 3 * length s"
  by (induction s) auto

lemma url_decode_length: "length (url_decode s) \<le> length s"
  by (induction s rule: url_decode.induct) auto

lemma url_encode_safe: "list_all url_safe (url_encode s)"
proof (induction s)
  case (Cons c cs)
  have "url_safe c" if "\<not> url_escaped c"
    using that by (auto simp: url_safe_def url_escaped_def not_less)
  with Cons hexchar(3)[OF nibbles(1)] hexchar(3)[OF nibbles(2)] show ?case
    by (auto simp: url_safe_def[of "0x25"] url_safe_def[of "0x2B"])
qed simp

subsection \<open>Upgrade to WebSocket\<close>

text \<open>
  The headers of a request by their exact names. The result: error code, key and protocol.
\<close>

definition check_upgrade :: "(string \<rightharpoonup> string) \<Rightarrow> string \<times> string \<Rightarrow> int \<times> string \<times> string" where
  "check_upgrade headers = (\<lambda>(key, protocol).
     case headers ''Upgrade'' of
       None \<Rightarrow> (RC_ERR, key, protocol)
     | Some up \<Rightarrow>
         if up \<noteq> ''websocket'' \<and> up \<noteq> ''WebSocket'' \<and> up \<noteq> ''Websocket'' then (RC_ERR, key, protocol)
         else
           (case headers ''Connection'' of
              None \<Rightarrow> (RC_ERR, key, protocol)
            | Some con \<Rightarrow>
                if con \<noteq> ''Upgrade'' \<and> con \<noteq> ''upgrade'' then (RC_ERR, key, protocol)
                else if headers ''Sec-WebSocket-Version'' \<noteq> Some ''13'' then (RC_ERR, key, protocol)
                else
                  (case headers ''Sec-WebSocket-Key'' of
                     None \<Rightarrow> (RC_ERR, key, protocol)
                   | Some k \<Rightarrow>
                       (RC_OK, k, case headers ''Sec-WebSocket-Protocol'' of None \<Rightarrow> protocol | Some p \<Rightarrow> p))))"

text \<open>
  The answer. \<open>accept\<close> is the base64 form of the SHA-1 digest of a string (OpenSSL), \<open>date\<close> the formatted
  time.
\<close>

abbreviation (input) CRLF :: string where "CRLF \<equiv> [CHR 0x0D, CHR 0x0A]"

definition make_handshake :: "(string \<Rightarrow> string) \<Rightarrow> string \<Rightarrow> string \<Rightarrow> string \<Rightarrow> string" where
  "make_handshake accept date key protocol =
     ''HTTP/1.1 101 Switching Protocols'' @ CRLF @
     ''Upgrade: WebSocket'' @ CRLF @
     ''Connection: Upgrade'' @ CRLF @
     ''Sec-WebSocket-Accept: '' @ accept (key @ ''258EAFA5-E914-47DA-95CA-C5AB0DC85B11'') @ CRLF @
     (if 0 < length protocol then ''Sec-WebSocket-Protocol: '' @ protocol @ CRLF else []) @
     date @ CRLF @ CRLF"

subsection \<open>Properties\<close>

text \<open>
  Claim C39: URL encoding and decoding agree. Decoding an encoded string gives it back, byte for
  byte; the encoded string consists of letters, digits and the marks that need no escape, and fits
  the buffer of three times the length that is allocated for it; decoding never grows a string, so
  it can work in place.
\<close>

theorem url_round_trip:
  "url_decode (url_encode s) = s \<and> list_all url_safe (url_encode s) \<and> length (url_encode s) \<le> 3 * length s \<and>
   length (url_decode t) \<le> length t"
  using url_decode_encode url_encode_safe url_encode_length url_decode_length by blast

end
