(* ===== verification/Client_Center.thy ===== *)
theory Client_Center
  imports Proto_Codec Trans_Center
begin

text \<open>
  The clients that connect to other servers: \<^verbatim>\<open>proto_tcp_client.cpp\<close> and
  \<^verbatim>\<open>proto_tcp_client_center.cpp\<close> of \<^verbatim>\<open>client_center_mgr\<close>, with \<^verbatim>\<open>SendToServer\<close> of the
  schedulers. A client sends requests under the ids of the transaction center, keeps them while it
  is not connected, cuts what it receives into messages and hands responses to the sinks of their
  transactions. The event library is a parameter: which connection attempts start, which of its
  buffers accept data, and what the events say.
\<close>

unbundle bit_operations_syntax

subsection \<open>Errors\<close>

text \<open>
  What ends the program or makes it undefined: a freed object is used, a loop over the ids of a
  peer stands on an erased element, memory that is not there is read, an operation does not return.
\<close>

datatype cl_fault = Freed ptr | Lost_Iterator int | Unreadable | No_Return

fun and_then :: "'e + 'a \<Rightarrow> ('a \<Rightarrow> 'e + 'b) \<Rightarrow> 'e + 'b" where
  "and_then (Inl err) f = Inl err"
| "and_then (Inr x) f = f x"

lemma and_then_Inr: "and_then r f = Inr y \<longleftrightarrow> (\<exists>x. r = Inr x \<and> f x = Inr y)"
  by (cases r) auto

fun tc_result :: "(int + trans_center) option \<Rightarrow> cl_fault + trans_center" where
  "tc_result None = Inl No_Return"
| "tc_result (Some (Inl i)) = Inl (Lost_Iterator i)"
| "tc_result (Some (Inr s)) = Inr s"

subsection \<open>State\<close>

text \<open>\<^verbatim>\<open>AsyncCtx\<close>, and a message that waits for the connection.\<close>

record async_ctx =
  as_retries :: int
  as_timeout :: int
  as_sink :: ptr
  as_data :: async_data

record cache_msg =
  cm_head :: msg_head
  cm_data :: bytes
  cm_retries :: int

record client =
  cl_peer :: peer
  connected :: bool
  bufevent_set :: "ptr set"
  buf_event :: ptr
  recved_data :: bytes
  cache_msg_map :: "int \<rightharpoonup> cache_msg"
  cache_ids :: "int list"
  nfy_sink_set :: "ptr set"
  reconnect_failed_count :: int

definition client_new :: "peer \<Rightarrow> client" where
  "client_new q = \<lparr>cl_peer = q, connected = False, bufevent_set = {}, buf_event = 0, recved_data = [],
     cache_msg_map = Map.empty, cache_ids = [], nfy_sink_set = {}, reconnect_failed_count = 0\<rparr>"

text \<open>What the clients do to the outside: bytes for a connection, calls of sinks.\<close>

datatype cl_event =
    Written ptr bytes
  | Rsp_Call ptr int peer msg_head bytes async_data
  | Nfy_Call ptr peer msg_head bytes

text \<open>
  One thread: the client objects (\<open>clients\<close>, by address) and the map of the center, the transaction
  center, the open bufferevents with the client that is the argument of their callbacks, and
  the clients whose connect timer is set. \<open>tries\<close> counts the calls of \<^verbatim>\<open>evbuffer_add\<close>.
\<close>

record cl_world =
  clients :: "ptr \<rightharpoonup> client"
  client_map :: "peer \<rightharpoonup> ptr"
  trans :: trans_center
  bev_arg :: "ptr \<rightharpoonup> ptr"
  connect_timers :: "ptr set"
  cl_codec :: msg_codec_ctx
  cl_static :: "nat option"
  reconnect_interval :: "int \<times> int"
  reconnect_limit :: int
  tries :: nat
  cl_log :: "cl_event list"

text \<open>What a sink asks for from inside a callback.\<close>

datatype cl_op = Do_Tc tc_op | Do_Send ptr msg_head bytes "async_ctx option" | Do_Close ptr

text \<open>
  The surroundings of one call: the clock, the outcome of each \<^verbatim>\<open>evbuffer_add\<close>, of setting a timer
  and of starting a connection (the new bufferevent), heap contents, and the requests of the sinks: \<open>cl_react\<close>
  for responses and notifications; \<open>cl_tc_react\<close> for the transactions that sinks record and cancel when they are told of a
  connection or of a timeout, and \<open>cl_shut\<close> for the peers whose clients they remove when told of a connection.
\<close>

record cl_env =
  cl_now :: time_t
  add_res :: "nat \<Rightarrow> bool"
  timer_ok :: bool
  connect_res :: "ptr option"
  cl_behind :: "bytes \<Rightarrow> bytes"
  cl_heap :: "nat \<Rightarrow> bytes"
  cl_tc_react :: tc_react
  cl_shut :: "tc_call \<Rightarrow> peer list"
  cl_react :: "cl_event \<Rightarrow> cl_op list"

definition cl_init :: "int \<times> int \<Rightarrow> int \<Rightarrow> msg_codec_ctx \<Rightarrow> cl_world" where
  "cl_init interval limit ctx = \<lparr>clients = Map.empty, client_map = Map.empty, trans = tc_init, bev_arg = Map.empty,
     connect_timers = {}, cl_codec = ctx, cl_static = None, reconnect_interval = interval, reconnect_limit = limit,
     tries = 0, cl_log = []\<rparr>"

definition set_client :: "ptr \<Rightarrow> client \<Rightarrow> cl_world \<Rightarrow> cl_world" where
  "set_client p c w = w\<lparr>clients := (clients w)(p \<mapsto> c)\<rparr>"

subsection \<open>Sending\<close>

text \<open>The attempts of \<^verbatim>\<open>InnerSend\<close>: one, and \<open>n\<close> more while they fail.\<close>

fun add_loop :: "(nat \<Rightarrow> bool) \<Rightarrow> nat \<Rightarrow> nat \<Rightarrow> bool \<times> nat" where
  "add_loop res k 0 = (res k, k + 1)"
| "add_loop res k (Suc n) = (if res k then (True, k + 1) else add_loop res (k + 1) n)"

definition inner_send :: "cl_env \<Rightarrow> client \<Rightarrow> bytes \<Rightarrow> int \<Rightarrow> cl_world \<Rightarrow> cl_fault + int \<times> cl_world" where
  "inner_send e c data total_retry w =
     (if bev_arg w (buf_event c) = None then Inl (Freed (buf_event c))
      else (case add_loop (add_res e) (tries w) (nat total_retry) of
              (True, k) \<Rightarrow> Inr (RC_OK, w\<lparr>tries := k, cl_log := cl_log w @ [Written (buf_event c) data]\<rparr>)
            | (False, k) \<Rightarrow> Inr (RC_ERR, w\<lparr>tries := k\<rparr>)))"

definition add_cache_msg :: "int \<Rightarrow> cache_msg \<Rightarrow> client \<Rightarrow> int \<times> client" where
  "add_cache_msg i m c =
     (if i \<in> dom (cache_msg_map c) then (RC_ERR, c)
      else (RC_OK, c\<lparr>cache_msg_map := (cache_msg_map c)(i \<mapsto> m), cache_ids := cache_ids c @ [i]\<rparr>))"

text \<open>\<^verbatim>\<open>SendCacheMsg\<close>: the ids and the messages that stay.\<close>

fun send_cache :: "cl_env \<Rightarrow> client \<Rightarrow> int list \<Rightarrow> (int \<rightharpoonup> cache_msg) \<Rightarrow> cl_world \<Rightarrow>
    cl_fault + int list \<times> (int \<rightharpoonup> cache_msg) \<times> cl_world" where
  "send_cache e c [] m w = Inr ([], m, w)"
| "send_cache e c (i # ids) m w =
     (case m i of
        None \<Rightarrow> send_cache e c ids m w
      | Some cm \<Rightarrow>
          and_then (inner_send e c (cm_data cm) (cm_retries cm) w) (\<lambda>(ret, w1).
            if ret = 0 then send_cache e c ids (m(i := None)) w1
            else and_then (send_cache e c ids m w1) (\<lambda>(ids', m', w2). Inr (i # ids', m', w2))))"

definition send_cache_msg :: "cl_env \<Rightarrow> ptr \<Rightarrow> cl_world \<Rightarrow> cl_fault + cl_world" where
  "send_cache_msg e p w =
     (case clients w p of
        None \<Rightarrow> Inl (Freed p)
      | Some c \<Rightarrow>
          and_then (send_cache e c (cache_ids c) (cache_msg_map c) w) (\<lambda>(ids, m, w1).
            Inr (set_client p (c\<lparr>cache_ids := ids, cache_msg_map := m\<rparr>) w1)))"

text \<open>
  \<^verbatim>\<open>Client::Send\<close>. Without an \<^verbatim>\<open>AsyncCtx\<close> the context keeps the values of its constructor. The
  result of \<^verbatim>\<open>InnerSend\<close> is not looked at.
\<close>

definition request_ctx :: "client \<Rightarrow> msg_head \<Rightarrow> async_ctx option \<Rightarrow> trans_ctx" where
  "request_ctx c head async =
     (case async of
        None \<Rightarrow> \<lparr>tx_peer = cl_peer c, tx_timeout_sec = 0, tx_passback = passback head, tx_sink = 0, tx_data = No_Data\<rparr>
      | Some a \<Rightarrow> \<lparr>tx_peer = cl_peer c, tx_timeout_sec = as_timeout a, tx_passback = passback head,
                   tx_sink = as_sink a, tx_data = as_data a\<rparr>)"

definition request_frame :: "cl_env \<Rightarrow> msg_codec_ctx \<Rightarrow> int \<Rightarrow> msg_head \<Rightarrow> bytes option \<Rightarrow> nat \<Rightarrow> bytes" where
  "request_frame e ctx i head body len =
     encode_new ctx (cl_heap e (MIN_DATA_LEN + len + 1)) (head\<lparr>passback := word_of_int i\<rparr>) body len"

definition retries_of :: "async_ctx option \<Rightarrow> int" where
  "retries_of async = (case async of None \<Rightarrow> 0 | Some a \<Rightarrow> as_retries a)"

definition client_send ::
  "cl_env \<Rightarrow> ptr \<Rightarrow> msg_head \<Rightarrow> bytes option \<Rightarrow> nat \<Rightarrow> async_ctx option \<Rightarrow> cl_world \<Rightarrow> cl_fault + int \<times> cl_world" where
  "client_send e p head body len async w =
     (case clients w p of
        None \<Rightarrow> Inl (Freed p)
      | Some c \<Rightarrow>
          (case record_trans_ctx (cl_now e) (Some (request_ctx c head async)) (trans w) of
             None \<Rightarrow> Inl No_Return
           | Some (i, tc) \<Rightarrow>
               (let w1 = w\<lparr>trans := tc\<rparr>; data = request_frame e (cl_codec w) i head body len in
                if i = INVALID_SEQ_NUM then Inr (i, w1)
                else if \<not> connected c
                then (case add_cache_msg i \<lparr>cm_head = head\<lparr>passback := word_of_int i\<rparr>, cm_data = data,
                        cm_retries = retries_of async\<rparr> c of
                        (ret, c') \<Rightarrow>
                          if ret \<noteq> 0 then Inr (INVALID_SEQ_NUM, w1\<lparr>trans := cancel_trans i tc\<rparr>)
                          else Inr (i, set_client p c' w1))
                else and_then (inner_send e c data (retries_of async) w1) (\<lambda>(ret, w2). Inr (i, w2)))))"

subsection \<open>Clients of the center\<close>

text \<open>
  \<^verbatim>\<open>SAFE_DESTROY\<close> of a client: \<^verbatim>\<open>Freeze\<close> kills its timer, \<^verbatim>\<open>Finalize\<close> frees its bufferevents,
  \<^verbatim>\<open>Release\<close> deletes it.
\<close>

definition destroy_client :: "ptr \<Rightarrow> cl_world \<Rightarrow> cl_world" where
  "destroy_client p w =
     (case clients w p of
        None \<Rightarrow> w
      | Some c \<Rightarrow>
          w\<lparr>connect_timers := connect_timers w - {p}, bev_arg := (bev_arg w) |` (- bufevent_set c),
            clients := (clients w)(p := None)\<rparr>)"

definition remove_client :: "peer \<Rightarrow> cl_world \<Rightarrow> cl_fault + cl_world" where
  "remove_client q w =
     (case client_map w q of
        None \<Rightarrow> Inr w
      | Some p \<Rightarrow>
          if clients w p = None then Inl (Freed p)
          else Inr ((destroy_client p w)\<lparr>client_map := (client_map w)(q := None)\<rparr>))"

definition get_client :: "peer \<Rightarrow> cl_world \<Rightarrow> ptr" where
  "get_client q w = (case client_map w q of None \<Rightarrow> 0 | Some p \<Rightarrow> p)"

text \<open>\<^verbatim>\<open>Client::Connect\<close>: every failure leaves nothing behind; otherwise an attempt is under way.\<close>

definition connect :: "cl_env \<Rightarrow> ptr \<Rightarrow> cl_world \<Rightarrow> cl_fault + int \<times> cl_world" where
  "connect e p w =
     (case clients w p of
        None \<Rightarrow> Inl (Freed p)
      | Some c \<Rightarrow>
          (case connect_res e of
             None \<Rightarrow> Inr (RC_ERR, w)
           | Some b \<Rightarrow>
               Inr (RC_OK, set_client p (c\<lparr>bufevent_set := insert b (bufevent_set c)\<rparr>)
                      (w\<lparr>bev_arg := (bev_arg w)(b \<mapsto> p)\<rparr>))))"

text \<open>
  \<^verbatim>\<open>CreateClient\<close> for an object at the fresh address \<open>p\<close>; null is 0. When the peer has a client, its
  entry is erased and the new client is destroyed.
\<close>

definition create_client :: "cl_env \<Rightarrow> ptr \<Rightarrow> peer \<Rightarrow> cl_world \<Rightarrow> cl_fault + ptr \<times> cl_world" where
  "create_client e p q w =
     and_then (connect e p (set_client p (client_new q) w)) (\<lambda>(ret, w1).
       if ret \<noteq> 0 \<or> client_map w1 q \<noteq> None
       then Inr (0, destroy_client p (w1\<lparr>client_map := (client_map w1)(q := None)\<rparr>))
       else Inr (p, w1\<lparr>client_map := (client_map w1)(q \<mapsto> p)\<rparr>))"

definition add_nfy_sink :: "ptr \<Rightarrow> client \<Rightarrow> int \<times> client" where
  "add_nfy_sink sk c =
     (if sk \<in> nfy_sink_set c then (RC_ERR, c) else (RC_OK, c\<lparr>nfy_sink_set := insert sk (nfy_sink_set c)\<rparr>))"

definition remove_nfy_sink :: "ptr \<Rightarrow> client \<Rightarrow> client" where
  "remove_nfy_sink sk c = (if sk \<in> nfy_sink_set c then c\<lparr>nfy_sink_set := nfy_sink_set c - {sk}\<rparr> else c)"

definition client_close :: "ptr \<Rightarrow> cl_world \<Rightarrow> cl_fault + cl_world" where
  "client_close p w = (case clients w p of None \<Rightarrow> Inl (Freed p) | Some c \<Rightarrow> remove_client (cl_peer c) w)"

text \<open>\<^verbatim>\<open>work::Scheduler::SendToServer\<close>; \<open>self\<close> is the thread sink.\<close>

definition send_to_server ::
  "cl_env \<Rightarrow> ptr \<Rightarrow> ptr \<Rightarrow> peer \<Rightarrow> msg_head \<Rightarrow> bytes \<Rightarrow> async_ctx option \<Rightarrow> cl_world \<Rightarrow> cl_fault + int \<times> cl_world" where
  "send_to_server e self fresh q head body async w =
     (case p_type q of
        PEER_TYPE_PROTO_TCP \<Rightarrow>
          (let p = get_client q w in
           if p \<noteq> 0 then client_send e p head (Some body) (length body) async w
           else and_then (create_client e fresh q w) (\<lambda>(p', w1).
                  if p' = 0 then Inr (INVALID_SEQ_NUM, w1)
                  else (case clients w1 p' of
                          None \<Rightarrow> Inl (Freed p')
                        | Some c \<Rightarrow>
                            client_send e p' head (Some body) (length body) async
                              (set_client p' (snd (add_nfy_sink self c)) w1))))
      | _ \<Rightarrow> Inr (INVALID_SEQ_NUM, w))"

subsection \<open>Connecting\<close>

definition interval_zero :: "cl_world \<Rightarrow> bool" where
  "interval_zero w \<longleftrightarrow> reconnect_interval w = (0, 0)"

definition start_connect_timer :: "cl_env \<Rightarrow> ptr \<Rightarrow> cl_world \<Rightarrow> int \<times> cl_world" where
  "start_connect_timer e p w =
     (if interval_zero w then (RC_OK, w)
      else if p \<in> connect_timers w then (RC_OK, w)
      else if \<not> timer_ok e then (RC_ERR, w)
      else (RC_OK, w\<lparr>connect_timers := insert p (connect_timers w)\<rparr>))"

definition stop_connect_timer :: "ptr \<Rightarrow> cl_world \<Rightarrow> cl_world" where
  "stop_connect_timer p w = w\<lparr>connect_timers := connect_timers w - {p}\<rparr>"

text \<open>
  The clients that sinks remove while \<^verbatim>\<open>OnConnected\<close> or \<^verbatim>\<open>OnClosed\<close> of the transaction center tells them, one call after
  the other. The peer that each call gets is a reference into the client \<open>p\<close>, so this must be there still. Removing
  clients touches no transaction, so the loop of the center comes first here.
\<close>

fun remove_clients :: "peer list \<Rightarrow> cl_world \<Rightarrow> cl_fault + cl_world" where
  "remove_clients [] w = Inr w"
| "remove_clients (q # qs) w = and_then (remove_client q w) (remove_clients qs)"

fun tell_shut :: "cl_env \<Rightarrow> ptr \<Rightarrow> tc_call list \<Rightarrow> cl_world \<Rightarrow> cl_fault + cl_world" where
  "tell_shut e p [] w = Inr w"
| "tell_shut e p (k # ks) w =
     (if clients w p = None then Inl (Freed p)
      else and_then (remove_clients (cl_shut e k) w) (tell_shut e p ks))"

definition new_calls :: "trans_center \<Rightarrow> trans_center \<Rightarrow> tc_call list" where
  "new_calls s s' = drop (length (tc_calls s)) (tc_calls s')"

text \<open>\<^verbatim>\<open>SetConnected\<close>; after \<^verbatim>\<open>OnClosed\<close> it goes on with the client, which must be there still.\<close>

definition set_connected :: "cl_env \<Rightarrow> ptr \<Rightarrow> bool \<Rightarrow> ptr \<Rightarrow> cl_world \<Rightarrow> cl_fault + cl_world" where
  "set_connected e p flag b w =
     (case clients w p of
        None \<Rightarrow> Inl (Freed p)
      | Some c \<Rightarrow>
          if \<not> flag \<and> interval_zero w then remove_client (cl_peer c) w
          else if connected c = flag
          then (if connected c then Inr w
                else (let c1 = c\<lparr>reconnect_failed_count := reconnect_failed_count c + 1\<rparr>; w1 = set_client p c1 w in
                      if reconnect_limit w = reconnect_failed_count c1 then remove_client (cl_peer c) w1 else Inr w1))
          else
            (let c1 = c\<lparr>reconnect_failed_count := (if flag then 0 else reconnect_failed_count c),
                        connected := flag, buf_event := b\<rparr>;
                 w1 = set_client p c1 w in
             if flag
             then and_then (send_cache_msg e p (stop_connect_timer p w1)) (\<lambda>w2.
                    and_then (tc_result (on_connected (cl_now e) (cl_tc_react e) (cl_peer c) (trans w2))) (\<lambda>tc.
                      tell_shut e p (new_calls (trans w2) tc) (w2\<lparr>trans := tc\<rparr>)))
             else and_then (tc_result (on_closed (cl_now e) (cl_tc_react e) (cl_peer c) (trans w1))) (\<lambda>tc.
                    and_then (tell_shut e p (new_calls (trans w1) tc) (w1\<lparr>trans := tc\<rparr>)) (\<lambda>w2.
                      if clients w2 p = None then Inl (Freed p) else Inr (snd (start_connect_timer e p w2))))))"

text \<open>
  \<^verbatim>\<open>EventCallback\<close>: the flags of the event that matter, and whether the input buffer is empty.
\<close>

record bev_event =
  ev_connected :: bool
  ev_eof :: bool
  ev_error :: bool
  ev_reading :: bool
  input_empty :: bool

definition event_callback :: "cl_env \<Rightarrow> ptr \<Rightarrow> bev_event \<Rightarrow> cl_world \<Rightarrow> cl_fault + cl_world" where
  "event_callback e b ev w =
     (case bev_arg w b of
        None \<Rightarrow> Inl (Freed b)
      | Some p \<Rightarrow>
          (case clients w p of
             None \<Rightarrow> Inl (Freed p)
           | Some c \<Rightarrow>
               if ev_connected ev then set_connected e p True b w
               else if ev_eof ev \<or> ev_error ev \<or> (ev_reading ev \<and> input_empty ev)
               then set_connected e p False 0
                      (set_client p (c\<lparr>bufevent_set := bufevent_set c - {b}\<rparr>) (w\<lparr>bev_arg := (bev_arg w)(b := None)\<rparr>))
               else Inr w))"

text \<open>The connect timer; its result is not looked at.\<close>

definition cl_on_timer :: "cl_env \<Rightarrow> ptr \<Rightarrow> cl_world \<Rightarrow> cl_fault + cl_world" where
  "cl_on_timer e p w = and_then (connect e p w) (\<lambda>(ret, w1). Inr w1)"

text \<open>\<^verbatim>\<open>Client::OnTimeout\<close>, the client as a sink of the transaction center.\<close>

definition cl_on_timeout :: "int \<Rightarrow> client \<Rightarrow> client" where
  "cl_on_timeout i c =
     (if i \<in> dom (cache_msg_map c)
      then c\<lparr>cache_msg_map := (cache_msg_map c)(i := None), cache_ids := remove1 i (cache_ids c)\<rparr> else c)"

subsection \<open>Receiving\<close>

fun cl_run_op :: "cl_env \<Rightarrow> cl_op \<Rightarrow> cl_world \<Rightarrow> cl_fault + cl_world" where
  "cl_run_op e (Do_Tc x) w =
     (case run_op (cl_now e) x (trans w) of None \<Rightarrow> Inl No_Return | Some tc \<Rightarrow> Inr (w\<lparr>trans := tc\<rparr>))"
| "cl_run_op e (Do_Send p head body async) w =
     and_then (client_send e p head (Some body) (length body) async w) (\<lambda>(i, w1). Inr w1)"
| "cl_run_op e (Do_Close p) w = client_close p w"

fun cl_run_ops :: "cl_env \<Rightarrow> cl_op list \<Rightarrow> cl_world \<Rightarrow> cl_fault + cl_world" where
  "cl_run_ops e [] w = Inr w"
| "cl_run_ops e (x # xs) w = and_then (cl_run_op e x w) (cl_run_ops e xs)"

definition cl_call :: "cl_env \<Rightarrow> cl_event \<Rightarrow> cl_world \<Rightarrow> cl_fault + cl_world" where
  "cl_call e v w = cl_run_ops e (cl_react e v) (w\<lparr>cl_log := cl_log w @ [v]\<rparr>)"

text \<open>The notification sinks in the order of their set.\<close>

fun nfy_loop :: "cl_env \<Rightarrow> ptr \<Rightarrow> peer \<Rightarrow> msg_head \<Rightarrow> bytes \<Rightarrow> ptr list \<Rightarrow> cl_world \<Rightarrow> cl_fault + cl_world" where
  "nfy_loop e p q head body [] w = Inr w"
| "nfy_loop e p q head body (sk # sks) w =
     and_then (cl_call e (Nfy_Call sk q head body) w) (\<lambda>w1.
       if clients w1 p = None then Inl (Freed p) else nfy_loop e p q head body sks w1)"

abbreviation (input) NFY_PASSBACK :: i32 where "NFY_PASSBACK \<equiv> 0x80000000"

text \<open>
  One message of \<^verbatim>\<open>ReadCallback\<close>. The flag says whether the loop goes on; it does not when the
  transaction of a response is unknown.
\<close>

definition on_message :: "cl_env \<Rightarrow> ptr \<Rightarrow> client \<Rightarrow> msg_head \<Rightarrow> bytes \<Rightarrow> cl_world \<Rightarrow> cl_fault + bool \<times> cl_world" where
  "on_message e p c head body w =
     (if passback head \<noteq> NFY_PASSBACK
      then (let i = sint (passback head) in
            case get_trans_ctx i (trans w) of
              None \<Rightarrow> Inr (False, w)
            | Some t \<Rightarrow>
                and_then (if tx_sink t \<noteq> 0
                          then cl_call e (Rsp_Call (tx_sink t) i (cl_peer c) (head\<lparr>passback := tx_passback t\<rparr>) body (tx_data t)) w
                          else Inr w) (\<lambda>w1.
                  if clients w1 p = None then Inl (Freed p)
                  else Inr (True, w1\<lparr>trans := cancel_trans i (trans w1)\<rparr>)))
      else and_then (nfy_loop e p (cl_peer c) head body (sorted_list_of_set (nfy_sink_set c)) w) (\<lambda>w1.
             Inr (True, w1)))"

definition put_data :: "ptr \<Rightarrow> bytes \<Rightarrow> cl_world \<Rightarrow> cl_fault + cl_world" where
  "put_data p d w =
     (case clients w p of None \<Rightarrow> Inl (Freed p) | Some c \<Rightarrow> Inr (set_client p (c\<lparr>recved_data := d\<rparr>) w))"

text \<open>The reply that reports an error; nobody waits for its answer.\<close>

definition send_error :: "cl_env \<Rightarrow> ptr \<Rightarrow> i32 \<Rightarrow> cl_world \<Rightarrow> cl_fault + cl_world" where
  "send_error e p err w =
     and_then (client_send e p (msg_head_reset\<lparr>msg_id := err\<rparr>) None 0 None w) (\<lambda>(i, w1). Inr w1)"

text \<open>The loop of \<^verbatim>\<open>ReadCallback\<close>; \<open>d\<close> is what has been received and not been handled.\<close>

function cl_read_loop :: "cl_env \<Rightarrow> ptr \<Rightarrow> bytes \<Rightarrow> cl_world \<Rightarrow> cl_fault + cl_world" where
  "cl_read_loop e p d w =
     (let (stat, chk) = is_whole_msg (cl_codec w) (cl_static w) (d @ 0 # cl_behind e d) (length d);
          w0 = w\<lparr>cl_static := stat\<rparr> in
      case chk of
        Bad_Read \<Rightarrow> Inl Unreadable
      | Invalid_Len _ \<Rightarrow> and_then (put_data p [] w0) (send_error e p MSG_ID_INVALID_MSG_LEN)
      | Not_Whole _ \<Rightarrow> Inr w0
      | Whole n \<Rightarrow>
          (case decode_msg (cl_codec w0) (drop TOTAL_MSG_LEN_FIELD_LEN d) n of
             Decode_Bad_Read \<Rightarrow> Inl Unreadable
           | Decode_Error err \<Rightarrow> send_error e p err w0
           | Decoded head body \<Rightarrow>
               (case clients w0 p of
                  None \<Rightarrow> Inl (Freed p)
                | Some c \<Rightarrow>
                    and_then (on_message e p c head body w0) (\<lambda>(go_on, w1).
                      if \<not> go_on then Inr w1
                      else if 0 < length d - TOTAL_MSG_LEN_FIELD_LEN - n
                      then (let d' = drop (TOTAL_MSG_LEN_FIELD_LEN + n) d in
                            and_then (put_data p d' w1) (cl_read_loop e p d'))
                      else put_data p [] w1))))"
  by pat_completeness auto
termination by (relation "measure (\<lambda>(_, _, d, _). length d)") auto

declare cl_read_loop.simps [simp del]

text \<open>
  \<^verbatim>\<open>ReadCallback\<close>: the contents of the input buffer are appended to what is left from before. When
  they cannot be drained, nothing more happens.
\<close>

definition cl_read_callback :: "cl_env \<Rightarrow> ptr \<Rightarrow> bytes \<Rightarrow> bool \<Rightarrow> cl_world \<Rightarrow> cl_fault + cl_world" where
  "cl_read_callback e b input drained w =
     (case bev_arg w b of
        None \<Rightarrow> Inl (Freed b)
      | Some p \<Rightarrow>
          (case clients w p of
             None \<Rightarrow> Inl (Freed p)
           | Some c \<Rightarrow>
               if input = [] then Inr w
               else (let d = recved_data c @ input; w1 = set_client p (c\<lparr>recved_data := d\<rparr>) w in
                     if \<not> drained then Inr w1 else cl_read_loop e p d w1)))"

text \<open>
  The expiry timer of the transaction center. Its sinks are told of every timeout; those of them that
  are clients drop what they have kept of the request.
\<close>

definition center_timeouts :: "tc_call list \<Rightarrow> (ptr \<times> int) list" where
  "center_timeouts calls = concat (map (\<lambda>v. case v of Center_Timeout k i \<Rightarrow> [(k, i)] | _ \<Rightarrow> []) calls)"

definition tell_client :: "ptr \<times> int \<Rightarrow> cl_world \<Rightarrow> cl_world" where
  "tell_client = (\<lambda>(k, i) w. case clients w k of None \<Rightarrow> w | Some c \<Rightarrow> set_client k (cl_on_timeout i c) w)"

definition cl_rsp_check ::
  "cl_env \<Rightarrow> ((int \<times> trans_ctx \<times> int) list \<Rightarrow> (int \<times> trans_ctx \<times> int) list) \<Rightarrow> cl_world \<Rightarrow> cl_fault + cl_world" where
  "cl_rsp_check e ord w =
     (case rsp_check (cl_now e) (cl_tc_react e) ord (trans w) of
        None \<Rightarrow> Inl No_Return
      | Some tc \<Rightarrow>
          Inr (fold tell_client (center_timeouts (drop (length (tc_calls (trans w))) (tc_calls tc))) (w\<lparr>trans := tc\<rparr>)))"

text \<open>The life of the center: \<^verbatim>\<open>Freeze\<close>, \<^verbatim>\<open>Finalize\<close> and \<^verbatim>\<open>Release\<close> over the clients of its map.\<close>

definition center_freeze :: "cl_world \<Rightarrow> cl_world" where
  "center_freeze w = w\<lparr>connect_timers := connect_timers w - ran (client_map w)\<rparr>"

definition center_finalize :: "cl_world \<Rightarrow> cl_world" where
  "center_finalize w =
     w\<lparr>bev_arg := (bev_arg w) |` {b. \<forall>p \<in> ran (client_map w). \<forall>c. clients w p = Some c \<longrightarrow> b \<notin> bufevent_set c},
       clients := (\<lambda>p. map_option (\<lambda>c. if p \<in> ran (client_map w) then c\<lparr>bufevent_set := {}\<rparr> else c) (clients w p))\<rparr>"

definition center_release :: "cl_world \<Rightarrow> cl_world" where
  "center_release w = w\<lparr>clients := (clients w) |` (- ran (client_map w)), client_map := Map.empty\<rparr>"

end
