(* ===== verification/Client_Inv.thy ===== *)
theory Client_Inv
  imports Client_Center
begin

text \<open>
  The tables of the client center agree in every state a thread can get into, and events never
  reach a freed client: the invariant of \<^verbatim>\<open>Client_Center\<close>, the steps, and what the requests of
  the sinks leave as it was.
\<close>

subsection \<open>Invariant\<close>

text \<open>
  A client at a proper address, whose bufferevents are open and call back with it, sends over one of
  them while it is connected, and lists exactly the messages it keeps.
\<close>

definition client_ok :: "(ptr \<rightharpoonup> ptr) \<Rightarrow> ptr \<Rightarrow> client \<Rightarrow> bool" where
  "client_ok bev p c \<longleftrightarrow> p \<noteq> 0 \<and> (\<forall>b \<in> bufevent_set c. bev b = Some p) \<and>
     distinct (cache_ids c) \<and> set (cache_ids c) = dom (cache_msg_map c)"

definition sends_live :: "client \<Rightarrow> bool" where
  "sends_live c \<longleftrightarrow> (connected c \<longrightarrow> buf_event c \<in> bufevent_set c)"

text \<open>\<open>X\<close>: the clients that are just being told that they are not connected any more.\<close>

definition cl_inv :: "ptr set \<Rightarrow> cl_world \<Rightarrow> bool" where
  "cl_inv X w \<longleftrightarrow> tc_reach (trans w) \<and> sink_set (trans w) = {} \<and>
     (\<forall>p c. clients w p = Some c \<longrightarrow>
        client_ok (bev_arg w) p c \<and> (p \<notin> X \<longrightarrow> sends_live c) \<and> client_map w (cl_peer c) = Some p) \<and>
     (\<forall>q p. client_map w q = Some p \<longrightarrow> (\<exists>c. clients w p = Some c \<and> cl_peer c = q)) \<and>
     (\<forall>b p. bev_arg w b = Some p \<longrightarrow> (\<exists>c. clients w p = Some c \<and> b \<in> bufevent_set c)) \<and>
     connect_timers w \<subseteq> dom (clients w)"

lemma cl_inv_trans [simp]: "cl_inv X w \<Longrightarrow> tc_reach tc \<Longrightarrow> sink_set tc = {} \<Longrightarrow> cl_inv X (w\<lparr>trans := tc\<rparr>)"
  by (simp add: cl_inv_def)

lemma cl_inv_upd [simp]:
  "cl_inv X (w\<lparr>tries := k\<rparr>) = cl_inv X w" "cl_inv X (w\<lparr>cl_log := l\<rparr>) = cl_inv X w"
  "cl_inv X (w\<lparr>cl_static := st\<rparr>) = cl_inv X w"
  by (simp_all add: cl_inv_def)

lemma set_client_simps [simp]:
  "clients (set_client p c w) = (clients w)(p \<mapsto> c)" "client_map (set_client p c w) = client_map w"
  "trans (set_client p c w) = trans w" "bev_arg (set_client p c w) = bev_arg w"
  "connect_timers (set_client p c w) = connect_timers w" "cl_codec (set_client p c w) = cl_codec w"
  "cl_static (set_client p c w) = cl_static w" "cl_log (set_client p c w) = cl_log w"
  "tries (set_client p c w) = tries w" "reconnect_interval (set_client p c w) = reconnect_interval w"
  "reconnect_limit (set_client p c w) = reconnect_limit w"
  by (simp_all add: set_client_def)

lemma cl_inv_client:
  assumes "cl_inv X w" "clients w p = Some c"
  shows "client_ok (bev_arg w) p c" "p \<notin> X \<Longrightarrow> sends_live c" "client_map w (cl_peer c) = Some p"
    "tc_reach (trans w)" "sink_set (trans w) = {}"
  using assms by (auto simp: cl_inv_def)

lemma cl_inv_map: "cl_inv X w \<Longrightarrow> client_map w q = Some p \<Longrightarrow> \<exists>c. clients w p = Some c \<and> cl_peer c = q"
  unfolding cl_inv_def by blast

lemma cl_inv_bev: "cl_inv X w \<Longrightarrow> bev_arg w b = Some p \<Longrightarrow> \<exists>c. clients w p = Some c \<and> b \<in> bufevent_set c"
  unfolding cl_inv_def by blast

lemma set_client_inv:
  assumes "cl_inv X w" "clients w p = Some c" "client_ok (bev_arg w) p c'" "p \<notin> Y \<longrightarrow> sends_live c'"
    "cl_peer c' = cl_peer c" "bufevent_set c' = bufevent_set c" "X \<subseteq> insert p Y"
  shows "cl_inv Y (set_client p c' w)"
proof -
  have "(\<exists>d. (if r = p then Some c' else clients w r) = Some d \<and> b \<in> bufevent_set d)" if "bev_arg w b = Some r" for b r
    using assms that unfolding cl_inv_def by (metis option.inject)
  moreover have "(\<exists>d. (if r = p then Some c' else clients w r) = Some d \<and> cl_peer d = q)" if "client_map w q = Some r" for q r
    using assms that unfolding cl_inv_def by (metis option.inject)
  moreover have "sends_live d" if "clients w r = Some d" "r \<noteq> p" "r \<notin> Y" for r d
    using assms(1,7) that unfolding cl_inv_def by blast
  ultimately show ?thesis using assms(1-6) by (auto simp: cl_inv_def)
qed

lemma destroy_client_inv:
  assumes inv: "cl_inv X w" and c: "clients w p = Some c"
  shows "cl_inv (X - {p}) ((destroy_client p w)\<lparr>client_map := (client_map w)(cl_peer c := None)\<rparr>)"
proof -
  note c' = cl_inv_client[OF inv c]
  have other: "b \<notin> bufevent_set c" "cl_peer d \<noteq> cl_peer c" "client_ok (bev_arg w) r d" "r \<notin> X \<longrightarrow> sends_live d"
    "client_map w (cl_peer d) = Some r"
    if "clients w r = Some d" "r \<noteq> p" "b \<in> bufevent_set d" for r d b
    using c'(1,3) cl_inv_client[OF inv that(1)] that unfolding client_ok_def by (metis option.inject)+
  let ?bev = "(bev_arg w) |` (- bufevent_set c)"
  have "client_ok ?bev r d \<and> (r \<notin> X - {p} \<longrightarrow> sends_live d) \<and> ((client_map w)(cl_peer c := None)) (cl_peer d) = Some r"
    if d: "clients w r = Some d" "r \<noteq> p" for r d
  proof -
    have "cl_peer d \<noteq> cl_peer c" using c'(3) cl_inv_client(3)[OF inv d(1)] d(2) by auto
    moreover have "client_ok ?bev r d"
      using cl_inv_client(1)[OF inv d(1)] other(1)[OF d] by (auto simp: client_ok_def)
    ultimately show ?thesis using cl_inv_client(2,3)[OF inv d(1)] d(2) by simp
  qed
  moreover have "\<exists>d. clients w r = Some d \<and> r \<noteq> p \<and> cl_peer d = q" if "client_map w q = Some r" "q \<noteq> cl_peer c" for q r
    using inv that c unfolding cl_inv_def by (metis option.inject)
  moreover have "\<exists>d. clients w r = Some d \<and> r \<noteq> p \<and> b \<in> bufevent_set d" if "bev_arg w b = Some r" "b \<notin> bufevent_set c" for b r
    using inv that c unfolding cl_inv_def by (metis option.inject)
  moreover have "tc_reach (trans w)" "sink_set (trans w) = {}" "connect_timers w \<subseteq> dom (clients w)"
    using inv by (simp_all add: cl_inv_def)
  ultimately show ?thesis using c
    by (auto simp: cl_inv_def destroy_client_def restrict_map_def split: if_splits) blast+
qed

lemma remove_client_inv:
  assumes "cl_inv X w" "clients w p = Some c"
  shows "remove_client (cl_peer c) w = Inr ((destroy_client p w)\<lparr>client_map := (client_map w)(cl_peer c := None)\<rparr>)"
    "cl_inv (X - {p}) ((destroy_client p w)\<lparr>client_map := (client_map w)(cl_peer c := None)\<rparr>)"
  using destroy_client_inv[OF assms] cl_inv_client(3)[OF assms] assms by (simp_all add: remove_client_def)

subsection \<open>What sending leaves as it was\<close>

fun is_written :: "cl_event \<Rightarrow> bool" where
  "is_written (Written _ _) = True"
| "is_written _ = False"

definition sink_calls :: "cl_world \<Rightarrow> cl_event list" where
  "sink_calls w = filter (\<lambda>v. \<not> is_written v) (cl_log w)"

definition same_client :: "client \<Rightarrow> client \<Rightarrow> bool" where
  "same_client c c' \<longleftrightarrow> cl_peer c' = cl_peer c \<and> connected c' = connected c \<and> bufevent_set c' = bufevent_set c \<and>
     buf_event c' = buf_event c \<and> recved_data c' = recved_data c \<and> nfy_sink_set c' = nfy_sink_set c \<and>
     reconnect_failed_count c' = reconnect_failed_count c"

definition sent_only :: "cl_world \<Rightarrow> cl_world \<Rightarrow> bool" where
  "sent_only w w' \<longleftrightarrow> client_map w' = client_map w \<and> bev_arg w' = bev_arg w \<and> connect_timers w' = connect_timers w \<and>
     cl_codec w' = cl_codec w \<and> cl_static w' = cl_static w \<and> reconnect_interval w' = reconnect_interval w \<and>
     reconnect_limit w' = reconnect_limit w \<and> sink_calls w' = sink_calls w \<and>
     (\<forall>p. rel_option same_client (clients w p) (clients w' p))"

definition trans_kept :: "cl_world \<Rightarrow> cl_world \<Rightarrow> bool" where
  "trans_kept w w' \<longleftrightarrow> trans_hash_map (trans w) \<subseteq>\<^sub>m trans_hash_map (trans w')"

lemma same_client_refl: "same_client c c"
  by (simp add: same_client_def)

lemma same_client_trans: "same_client a b \<Longrightarrow> same_client b c \<Longrightarrow> same_client a c"
  by (simp add: same_client_def)

lemma rel_same_refl [simp]: "rel_option same_client x x"
  by (simp add: option.rel_refl same_client_refl)

lemma sent_only_refl: "sent_only w w"
  by (simp add: sent_only_def)

lemma sent_only_trans:
  assumes "sent_only w u" "sent_only u v"
  shows "sent_only w v"
proof -
  have "rel_option same_client (clients w p) (clients v p)" for p
    using assms same_client_trans unfolding sent_only_def
    by (cases "clients w p"; cases "clients u p"; cases "clients v p") (metis option.rel_distinct option.rel_inject(2))+
  with assms show ?thesis by (simp add: sent_only_def)
qed

lemma trans_kept_trans: "trans_kept w u \<Longrightarrow> trans_kept u v \<Longrightarrow> trans_kept w v"
  unfolding trans_kept_def by (rule map_le_trans)

lemma sent_only_client:
  assumes "sent_only w w'" "clients w p = Some c"
  obtains c' where "clients w' p = Some c'" "same_client c c'"
proof -
  have "rel_option same_client (Some c) (clients w' p)" using assms unfolding sent_only_def by metis
  with that show ?thesis by (auto simp: option_rel_Some1)
qed

lemma sent_only_dom: "sent_only w w' \<Longrightarrow> clients w' p = None \<longleftrightarrow> clients w p = None"
  unfolding sent_only_def by (metis option.rel_distinct option.exhaust)

lemma inner_send_ok:
  assumes "bev_arg w (buf_event c) \<noteq> None"
  shows "\<exists>ret w'. inner_send e c data n w = Inr (ret, w') \<and> sent_only w w' \<and> trans w' = trans w \<and>
    clients w' = clients w \<and> (\<forall>X. cl_inv X w' = cl_inv X w) \<and>
    (ret = 0 \<longleftrightarrow> fst (add_loop (add_res e) (tries w) (nat n))) \<and>
    cl_log w' = cl_log w @ (if ret = 0 then [Written (buf_event c) data] else [])"
proof -
  obtain ok k where k: "add_loop (add_res e) (tries w) (nat n) = (ok, k)" by fastforce
  have s: "sent_only w (w\<lparr>tries := k\<rparr>)" "sent_only w (w\<lparr>tries := k, cl_log := cl_log w @ [Written b data]\<rparr>)" for b
    by (simp_all add: sent_only_def sink_calls_def)
  with assms k show ?thesis by (cases ok) (auto simp: inner_send_def)
qed

lemma connected_bev:
  assumes "cl_inv X w" "clients w p = Some c" "connected c" "p \<notin> X"
  shows "bev_arg w (buf_event c) = Some p"
  using cl_inv_client(1,2)[OF assms(1,2)] assms(3,4) by (simp add: client_ok_def sends_live_def)

lemma client_send_ok:
  assumes inv: "cl_inv X w" and c: "clients w p = Some c" and X: "p \<notin> X"
  obtains i w' where "client_send e p head body len async w = Inr (i, w')" "cl_inv X w'" "sent_only w w'" "trans_kept w w'"
proof -
  note c' = cl_inv_client[OF inv c]
  have tinv: "tc_inv (trans w)" "watched {} (trans w)" using tc_reach_inv[OF c'(4)] by simp_all
  let ?ctx = "request_ctx c head async"
  obtain i tc where r: "record_trans_ctx (cl_now e) (Some ?ctx) (trans w) = Some (i, tc)" "sink_set tc = {}"
    "trans_hash_map (trans w) \<subseteq>\<^sub>m trans_hash_map tc" "i \<noteq> 0 \<Longrightarrow> trans_hash_map (trans w) i = None"
    "tc_reach tc"
  proof (rule record_trans_inv[OF tinv, of "cl_now e" ?ctx])
    fix i s' assume a: "record_trans_ctx (cl_now e) (Some ?ctx) (trans w) = Some (i, s')"
      "sink_set s' = sink_set (trans w)" "trans_hash_map (trans w) \<subseteq>\<^sub>m trans_hash_map s'"
    have "trans_hash_map (trans w) i = None" if "i \<noteq> 0"
      using tinv(1) that a(1) by (cases rule: record_trans_cases[where now = "cl_now e" and ctx = ?ctx]) auto
    with a tc_record[OF c'(4) a(1)] c'(5) show thesis by (intro that[of i s']) simp_all
  qed
  let ?w1 = "w\<lparr>trans := tc\<rparr>"
  have w1: "cl_inv X ?w1" "sent_only w ?w1" "trans_kept w ?w1" "clients ?w1 p = Some c"
    using inv r c by (auto simp: sent_only_def trans_kept_def sink_calls_def)
  let ?data = "request_frame e (cl_codec w) i head body len"
  show ?thesis
  proof (cases "i = 0 \<or> connected c")
    case True
    show ?thesis
    proof (cases "i = 0")
      case True
      with w1 c r(1) show ?thesis by (intro that[of 0 ?w1]) (simp_all add: client_send_def)
    next
      case False
      with True have con: "connected c" by simp
      from connected_bev[OF inv c con X] have "bev_arg ?w1 (buf_event c) \<noteq> None" by simp
      from inner_send_ok[OF this, of e ?data "retries_of async"] obtain ret w2 where
        w2: "inner_send e c ?data (retries_of async) ?w1 = Inr (ret, w2)" "sent_only ?w1 w2"
        "trans w2 = trans ?w1" "cl_inv X w2 = cl_inv X ?w1" by blast
      then have "client_send e p head body len async w = Inr (i, w2)"
        using c r(1) False con by (simp add: client_send_def Let_def)
      with w1 w2 sent_only_trans[OF w1(2) w2(2)] show ?thesis
        by (intro that[of i w2]) (simp_all add: trans_kept_def)
    qed
  next
    case False
    then have i: "i \<noteq> 0" "\<not> connected c" by simp_all
    show ?thesis
    proof (cases "i \<in> dom (cache_msg_map c)")
      case True
      let ?w2 = "?w1\<lparr>trans := cancel_trans i tc\<rparr>"
      have "trans_kept w ?w2" using r(3) r(4)[OF i(1)]
        by (auto simp: trans_kept_def cancel_trans_map map_le_def)
      moreover have "cl_inv X ?w2" using inv r(2) tc_cancel[OF r(5)] by simp
      moreover have "sent_only w ?w2" using w1(2) by (simp add: sent_only_def sink_calls_def)
      ultimately show ?thesis using True i c r(1)
        by (intro that[of 0 ?w2]) (simp_all add: client_send_def Let_def add_cache_msg_def)
    next
      case new: False
      let ?m = "\<lparr>cm_head = head\<lparr>passback := word_of_int i\<rparr>, cm_data = ?data, cm_retries = retries_of async\<rparr>"
      let ?c = "c\<lparr>cache_msg_map := (cache_msg_map c)(i \<mapsto> ?m), cache_ids := cache_ids c @ [i]\<rparr>"
      have "i \<notin> set (cache_ids c)" using new c'(1) by (simp add: client_ok_def)
      then have "client_ok (bev_arg ?w1) p ?c" using c'(1) by (simp add: client_ok_def)
      moreover have "p \<notin> X \<longrightarrow> sends_live ?c" using i by (simp add: sends_live_def)
      ultimately have "cl_inv X (set_client p ?c ?w1)" by (intro set_client_inv[OF w1(1,4)]) auto
      moreover have "sent_only w (set_client p ?c ?w1)"
        using c by (simp add: sent_only_def sink_calls_def same_client_def)
      moreover have "trans_kept w (set_client p ?c ?w1)" using w1(3) by (simp add: trans_kept_def)
      ultimately show ?thesis using new i c r(1)
        by (intro that[of i "set_client p ?c ?w1"]) (simp_all add: client_send_def Let_def add_cache_msg_def)
    qed
  qed
qed

subsection \<open>Connecting and disconnecting\<close>

text \<open>The addresses of new bufferevents are those of no open one.\<close>

definition fresh_env :: "cl_env \<Rightarrow> cl_world \<Rightarrow> bool" where
  "fresh_env e w \<longleftrightarrow> (\<forall>b. connect_res e = Some b \<longrightarrow> bev_arg w b = None)"

lemma unused_bev:
  assumes "cl_inv X w" "bev_arg w b = None" "clients w p = Some c"
  shows "b \<notin> bufevent_set c"
  using cl_inv_client(1)[OF assms(1,3)] assms(2) by (auto simp: client_ok_def)

lemma connect_ok:
  assumes inv: "cl_inv X w" and c: "clients w p = Some c" and f: "fresh_env e w"
  obtains ret w' where "connect e p w = Inr (ret, w')" "cl_inv X w'"
proof (cases "connect_res e")
  case None
  with inv c that show ?thesis by (simp add: connect_def)
next
  case (Some b)
  then have b: "bev_arg w b = None" using f by (simp add: fresh_env_def)
  note c' = cl_inv_client[OF inv c]
  let ?c = "c\<lparr>bufevent_set := insert b (bufevent_set c)\<rparr>"
  let ?w = "set_client p ?c (w\<lparr>bev_arg := (bev_arg w)(b \<mapsto> p)\<rparr>)"
  have "client_ok (bev_arg ?w) r d \<and> (r \<notin> X \<longrightarrow> sends_live d) \<and> client_map w (cl_peer d) = Some r"
    if "clients ?w r = Some d" for r d
  proof (cases "r = p")
    case True
    with that c' show ?thesis by (auto simp: client_ok_def sends_live_def)
  next
    case False
    with that have d: "clients w r = Some d" by simp
    from cl_inv_client[OF inv d] unused_bev[OF inv b d] show ?thesis by (auto simp: client_ok_def)
  qed
  moreover have "\<exists>d. clients ?w r = Some d \<and> cl_peer d = q" if "client_map w q = Some r" for q r
    using inv c that unfolding cl_inv_def by (cases "r = p") fastforce+
  moreover have "\<exists>d. clients ?w r = Some d \<and> a \<in> bufevent_set d" if "bev_arg ?w a = Some r" for a r
  proof (cases "a = b")
    case True
    with that show ?thesis by auto
  next
    case False
    with that have "bev_arg w a = Some r" by simp
    with inv obtain d where "clients w r = Some d" "a \<in> bufevent_set d" unfolding cl_inv_def by blast
    with c show ?thesis by (cases "r = p") auto
  qed
  moreover have "connect_timers w \<subseteq> insert p (dom (clients w))" using inv by (auto simp: cl_inv_def)
  ultimately have "cl_inv X ?w" using c'(4,5) by (simp add: cl_inv_def)
  with Some c show ?thesis by (intro that[of RC_OK ?w]) (simp_all add: connect_def)
qed

lemma create_client_ok:
  assumes inv: "cl_inv {} w" and p: "clients w p = None" "p \<noteq> 0" and q: "client_map w q = None" and f: "fresh_env e w"
  obtains p' w' where "create_client e p q w = Inr (p', w')" "cl_inv {} w'"
    "p' = 0 \<or> (p' = p \<and> (\<exists>c. clients w' p = Some c))"
proof (cases "connect_res e")
  case None
  have t: "p \<notin> connect_timers w" using inv p(1) by (auto simp: cl_inv_def)
  let ?w = "w\<lparr>connect_timers := connect_timers w - {p}, bev_arg := bev_arg w |` UNIV, clients := (clients w)(p := None),
     client_map := (client_map w)(q := None)\<rparr>"
  have "(clients w)(p := None) = clients w" "(client_map w)(q := None) = client_map w" "connect_timers w - {p} = connect_timers w"
    "bev_arg w |` UNIV = bev_arg w"
    using p(1) q t by (auto simp: restrict_map_def)
  then have "cl_inv {} ?w" using inv by (simp add: cl_inv_def)
  with None q show ?thesis
    by (intro that[of 0 ?w]) (simp_all add: create_client_def connect_def destroy_client_def client_new_def set_client_def)
next
  case (Some b)
  then have b: "bev_arg w b = None" using f by (simp add: fresh_env_def)
  let ?c = "(client_new q)\<lparr>bufevent_set := {b}\<rparr>"
  let ?w = "w\<lparr>bev_arg := (bev_arg w)(b \<mapsto> p), clients := (clients w)(p \<mapsto> ?c), client_map := (client_map w)(q \<mapsto> p)\<rparr>"
  have "client_ok (bev_arg ?w) r d \<and> sends_live d \<and> client_map ?w (cl_peer d) = Some r"
    if "clients ?w r = Some d" for r d
  proof (cases "r = p")
    case True
    with that p(2) show ?thesis by (auto simp: client_ok_def sends_live_def client_new_def)
  next
    case False
    with that have d: "clients w r = Some d" by simp
    from cl_inv_client[OF inv d] unused_bev[OF inv b d] q show ?thesis by (auto simp: client_ok_def)
  qed
  moreover have "\<exists>d. clients ?w r = Some d \<and> cl_peer d = q'" if "client_map ?w q' = Some r" for q' r
  proof (cases "q' = q")
    case True
    with that show ?thesis by (auto simp: client_new_def)
  next
    case False
    with that have "client_map w q' = Some r" by simp
    with p cl_inv_map[OF inv this] show ?thesis by auto
  qed
  moreover have "\<exists>d. clients ?w r = Some d \<and> a \<in> bufevent_set d" if "bev_arg ?w a = Some r" for a r
    using p that cl_inv_bev[OF inv, of a r] by (auto split: if_splits)
  moreover have "connect_timers w \<subseteq> insert p (dom (clients w))" "tc_reach (trans w)" "sink_set (trans w) = {}"
    using inv by (auto simp: cl_inv_def)
  ultimately have "cl_inv {} ?w" by (simp add: cl_inv_def)
  with Some q p(2) show ?thesis
    by (intro that[of p ?w]) (simp_all add: create_client_def connect_def set_client_def client_new_def)
qed

lemma send_to_server_ok:
  assumes inv: "cl_inv {} w" and p: "clients w p = None" "p \<noteq> 0" and f: "fresh_env e w"
  obtains i w' where "send_to_server e self p q head body async w = Inr (i, w')" "cl_inv {} w'"
proof (cases "p_type q = PEER_TYPE_PROTO_TCP")
  case False
  with inv that show ?thesis by (cases "p_type q") (simp_all add: send_to_server_def)
next
  case True
  show ?thesis
  proof (cases "client_map w q")
    case (Some r)
    with inv obtain c where c: "clients w r = Some c" unfolding cl_inv_def by blast
    with cl_inv_client(1)[OF inv] have "r \<noteq> 0" by (simp add: client_ok_def)
    with True Some client_send_ok[OF inv c, of e head "Some body" "length body" async] that show ?thesis
      by (auto simp: send_to_server_def get_client_def)
  next
    case None
    obtain p' w1 where w1: "create_client e p q w = Inr (p', w1)" "cl_inv {} w1"
      "p' = 0 \<or> (p' = p \<and> (\<exists>c. clients w1 p = Some c))" by (rule create_client_ok[OF inv p None f])
    show ?thesis
    proof (cases "p' = 0")
      case t: True
      with w1 True None show ?thesis by (intro that[of 0 w1]) (simp_all add: send_to_server_def get_client_def)
    next
      case False
      with w1(3) obtain c where c: "p' = p" "clients w1 p = Some c" by blast
      let ?c = "snd (add_nfy_sink self c)"
      have "client_ok (bev_arg w1) p ?c" "sends_live ?c" "cl_peer ?c = cl_peer c" "bufevent_set ?c = bufevent_set c"
        using cl_inv_client(1,2)[OF w1(2) c(2)] by (simp_all add: add_nfy_sink_def client_ok_def sends_live_def)
      then have i: "cl_inv {} (set_client p ?c w1)" by (intro set_client_inv[OF w1(2) c(2)]) simp_all
      have "clients (set_client p ?c w1) p = Some ?c" by simp
      from client_send_ok[OF i this, of e head "Some body" "length body" async] True None w1(1) c False that show ?thesis
        by (auto simp: send_to_server_def get_client_def)
    qed
  qed
qed

text \<open>
  \<open>SendCacheMsg\<close>: the messages in \<open>K\<close> could not be written and stay, in their order; the others are
  written in theirs.
\<close>

lemma send_cache_spec:
  assumes "bev_arg w (buf_event c) \<noteq> None" "distinct ids" "set ids \<subseteq> dom m"
  shows "\<exists>K w'. send_cache e c ids m w = Inr (filter (\<lambda>i. i \<in> K) ids, m |` (- (set ids - K)), w') \<and>
    sent_only w w' \<and> trans w' = trans w \<and> clients w' = clients w \<and> (\<forall>X. cl_inv X w' = cl_inv X w) \<and> K \<subseteq> set ids \<and>
    cl_log w' = cl_log w @ map (\<lambda>i. Written (buf_event c) (cm_data (the (m i)))) (filter (\<lambda>i. i \<notin> K) ids) \<and>
    ((\<forall>k. add_res e k) \<longrightarrow> K = {})"
  using assms
proof (induction ids arbitrary: m w)
  case Nil
  then show ?case by (intro exI[of _ "{}"] exI[of _ w]) (simp add: sent_only_refl)
next
  case (Cons i ids)
  then obtain cm where cm: "m i = Some cm" by auto
  obtain ret w1 where w1: "inner_send e c (cm_data cm) (cm_retries cm) w = Inr (ret, w1)" "sent_only w w1"
    "trans w1 = trans w" "clients w1 = clients w" "\<forall>X. cl_inv X w1 = cl_inv X w"
    "ret = 0 \<longleftrightarrow> fst (add_loop (add_res e) (tries w) (nat (cm_retries cm)))"
    "cl_log w1 = cl_log w @ (if ret = 0 then [Written (buf_event c) (cm_data cm)] else [])"
    using inner_send_ok[OF Cons.prems(1), of e "cm_data cm" "cm_retries cm"] by blast
  have bev: "bev_arg w1 (buf_event c) \<noteq> None" using Cons.prems(1) w1(2) by (simp add: sent_only_def)
  have i: "i \<notin> set ids" "distinct ids" using Cons.prems(2) by simp_all
  show ?case
  proof (cases "ret = 0")
    case True
    let ?m = "m(i := None)"
    have "set ids \<subseteq> dom ?m" using Cons.prems(3) i by auto
    from Cons.IH[OF bev i(2) this] obtain K w2 where w2:
      "send_cache e c ids ?m w1 = Inr (filter (\<lambda>i. i \<in> K) ids, ?m |` (- (set ids - K)), w2)"
      "sent_only w1 w2" "trans w2 = trans w1" "clients w2 = clients w1" "\<forall>X. cl_inv X w2 = cl_inv X w1" "K \<subseteq> set ids"
      "cl_log w2 = cl_log w1 @ map (\<lambda>i. Written (buf_event c) (cm_data (the (?m i)))) (filter (\<lambda>i. i \<notin> K) ids)"
      "(\<forall>k. add_res e k) \<longrightarrow> K = {}" by blast
    have K: "i \<notin> K" using w2(6) i by auto
    have "?m |` (- (set ids - K)) = m |` (- (set (i # ids) - K))" using K by (auto simp: restrict_map_def)
    moreover have "map (\<lambda>j. Written (buf_event c) (cm_data (the (?m j)))) (filter (\<lambda>i. i \<notin> K) ids) =
        map (\<lambda>j. Written (buf_event c) (cm_data (the (m j)))) (filter (\<lambda>i. i \<notin> K) ids)" using i by auto
    ultimately show ?thesis
      using w1 w2 True cm K sent_only_trans[OF w1(2) w2(2)]
      by (intro exI[of _ K] exI[of _ w2]) (auto simp del: fun_upd_apply)
  next
    case False
    have "set ids \<subseteq> dom m" using Cons.prems(3) by simp
    from Cons.IH[OF bev i(2) this] obtain K w2 where w2:
      "send_cache e c ids m w1 = Inr (filter (\<lambda>i. i \<in> K) ids, m |` (- (set ids - K)), w2)"
      "sent_only w1 w2" "trans w2 = trans w1" "clients w2 = clients w1" "\<forall>X. cl_inv X w2 = cl_inv X w1" "K \<subseteq> set ids"
      "cl_log w2 = cl_log w1 @ map (\<lambda>i. Written (buf_event c) (cm_data (the (m i)))) (filter (\<lambda>i. i \<notin> K) ids)" by blast
    have "\<not> (\<forall>k. add_res e k)" using w1(6) False by (cases "nat (cm_retries cm)") (auto split: if_splits)
    moreover have "filter (\<lambda>j. j \<in> insert i K) ids = filter (\<lambda>j. j \<in> K) ids" "filter (\<lambda>j. j \<notin> insert i K) ids = filter (\<lambda>j. j \<notin> K) ids"
      using i by (auto intro: filter_cong)
    moreover have "m |` (- (set ids - K)) = m |` (- (set (i # ids) - insert i K))"
      using i by (auto simp: restrict_map_def)
    ultimately show ?thesis
      using w1 w2 False cm sent_only_trans[OF w1(2) w2(2)]
      by (intro exI[of _ "insert i K"] exI[of _ w2]) auto
  qed
qed

text \<open>The cached messages of a client that is connected, over an open bufferevent.\<close>

lemma send_cache_msg_ok:
  assumes inv: "cl_inv {} w" and c: "clients w p = Some c" and con: "connected c"
  shows "\<exists>K w'. send_cache_msg e p w = Inr w' \<and> cl_inv {} w' \<and> trans w' = trans w \<and> sink_calls w' = sink_calls w \<and>
    connect_timers w' = connect_timers w \<and> cl_codec w' = cl_codec w \<and> cl_static w' = cl_static w \<and>
    K \<subseteq> set (cache_ids c) \<and> ((\<forall>k. add_res e k) \<longrightarrow> K = {}) \<and>
    clients w' = (clients w)(p \<mapsto> c\<lparr>cache_ids := filter (\<lambda>i. i \<in> K) (cache_ids c), cache_msg_map := cache_msg_map c |` K\<rparr>) \<and>
    cl_log w' = cl_log w @ map (\<lambda>i. Written (buf_event c) (cm_data (the (cache_msg_map c i))))
      (filter (\<lambda>i. i \<notin> K) (cache_ids c))"
proof -
  note c' = cl_inv_client[OF inv c]
  have ids: "distinct (cache_ids c)" "set (cache_ids c) = dom (cache_msg_map c)" using c'(1) by (simp_all add: client_ok_def)
  have "bev_arg w (buf_event c) \<noteq> None" using connected_bev[OF inv c con] by simp
  from send_cache_spec[OF this ids(1) eq_refl[OF ids(2)], of e] obtain K w1 where w1:
    "send_cache e c (cache_ids c) (cache_msg_map c) w =
       Inr (filter (\<lambda>i. i \<in> K) (cache_ids c), cache_msg_map c |` (- (set (cache_ids c) - K)), w1)"
    "sent_only w w1" "trans w1 = trans w" "clients w1 = clients w" "\<forall>X. cl_inv X w1 = cl_inv X w" "K \<subseteq> set (cache_ids c)"
    "cl_log w1 = cl_log w @ map (\<lambda>i. Written (buf_event c) (cm_data (the (cache_msg_map c i))))
      (filter (\<lambda>i. i \<notin> K) (cache_ids c))" "(\<forall>k. add_res e k) \<longrightarrow> K = {}" by blast
  have m: "cache_msg_map c |` (- (set (cache_ids c) - K)) = cache_msg_map c |` K"
    using ids(2) by (force simp: restrict_map_def)
  let ?c = "c\<lparr>cache_ids := filter (\<lambda>i. i \<in> K) (cache_ids c), cache_msg_map := cache_msg_map c |` K\<rparr>"
  have "client_ok (bev_arg w1) p ?c" "sends_live ?c"
    using c'(1,2) ids w1(2) by (auto simp: client_ok_def sends_live_def sent_only_def)
  then have "cl_inv {} (set_client p ?c w1)" using inv w1(4,5) c by (intro set_client_inv[of "{}"]) auto
  moreover have "connect_timers w1 = connect_timers w" "sink_calls (set_client p ?c w1) = sink_calls w"
    "cl_codec w1 = cl_codec w" "cl_static w1 = cl_static w"
    using w1(2) by (simp_all add: sent_only_def sink_calls_def)
  ultimately show ?thesis using w1 c m
    by (intro exI[of _ K] exI[of _ "set_client p ?c w1"]) (simp add: send_cache_msg_def)
qed

lemma tc_event_reach:
  assumes "tc_reach s"
  shows "tc_result (on_connected now react q s) = Inr s' \<Longrightarrow> tc_reach s' \<and> sink_set s' = sink_set s"
    and "tc_result (on_closed now react q s) = Inr s' \<Longrightarrow> tc_reach s' \<and> sink_set s' = sink_set s"
proof -
  have r: "tc_result r = Inr s' \<longleftrightarrow> r = Some (Inr s')" for r by (cases r rule: tc_result.cases) auto
  have i: "tc_inv s" "watched {} s" using tc_reach_inv[OF assms] by simp_all
  show "tc_result (on_connected now react q s) = Inr s' \<Longrightarrow> tc_reach s' \<and> sink_set s' = sink_set s"
    using tc_connected[OF assms] peer_event_inv[OF _ i] by (simp add: r on_connected_def)
  show "tc_result (on_closed now react q s) = Inr s' \<Longrightarrow> tc_reach s' \<and> sink_set s' = sink_set s"
    using tc_closed[OF assms] peer_event_inv[OF _ i] by (simp add: r on_closed_def)
qed

lemma timers_inv:
  assumes "cl_inv X w" "clients w p = Some c"
  shows "cl_inv X (stop_connect_timer p w)" "cl_inv X (snd (start_connect_timer e p w))"
  using assms by (auto simp: cl_inv_def stop_connect_timer_def start_connect_timer_def)

lemma timers_simps [simp]:
  "clients (stop_connect_timer p w) = clients w" "trans (stop_connect_timer p w) = trans w"
  "cl_log (stop_connect_timer p w) = cl_log w"
  by (simp_all add: stop_connect_timer_def)

lemma tc_result_not_freed: "tc_result r \<noteq> Inl (Freed x)"
  by (cases r rule: tc_result.cases) auto

text \<open>Clients that sinks remove: the others stay.\<close>

lemma remove_client_any:
  assumes "cl_inv {} w"
  obtains w' where "remove_client q w = Inr w'" "cl_inv {} w'"
    "\<And>p. clients w' p = clients w p \<or> (clients w' p = None \<and> (\<exists>c. clients w p = Some c \<and> cl_peer c = q))"
proof (cases "client_map w q")
  case None
  with assms that[of w] show ?thesis by (simp add: remove_client_def)
next
  case (Some r)
  with cl_inv_map[OF assms] obtain c where c: "clients w r = Some c" "cl_peer c = q" by blast
  let ?w = "(destroy_client r w)\<lparr>client_map := (client_map w)(q := None)\<rparr>"
  have "clients ?w p = clients w p \<or> (clients ?w p = None \<and> (\<exists>c. clients w p = Some c \<and> cl_peer c = q))" for p
    using c by (simp add: destroy_client_def)
  with remove_client_inv[OF assms c(1)] c(2) show ?thesis by (intro that[of ?w]) simp_all
qed

lemma remove_clients_any:
  assumes "cl_inv {} w"
  obtains w' where "remove_clients qs w = Inr w'" "cl_inv {} w'"
    "\<And>p. clients w' p = clients w p \<or> (clients w' p = None \<and> (\<exists>c. clients w p = Some c \<and> cl_peer c \<in> set qs))"
  using assms
proof (induction qs arbitrary: w thesis)
  case Nil
  then show ?case by simp
next
  case (Cons q qs)
  obtain w1 where w1: "remove_client q w = Inr w1" "cl_inv {} w1"
    "\<And>p. clients w1 p = clients w p \<or> (clients w1 p = None \<and> (\<exists>c. clients w p = Some c \<and> cl_peer c = q))"
    by (rule remove_client_any[OF Cons.prems(2), of q]) blast
  obtain w2 where w2: "remove_clients qs w1 = Inr w2" "cl_inv {} w2"
    "\<And>p. clients w2 p = clients w1 p \<or> (clients w2 p = None \<and> (\<exists>c. clients w1 p = Some c \<and> cl_peer c \<in> set qs))"
    by (rule Cons.IH[OF _ w1(2)]) blast
  have "clients w2 p = clients w p \<or> (clients w2 p = None \<and> (\<exists>c. clients w p = Some c \<and> cl_peer c \<in> set (q # qs)))" for p
    using w1(3)[of p] w2(3)[of p] by (elim disjE) auto
  with w1(1) w2(1,2) Cons.prems(1)[of w2] show ?case by simp
qed

lemma tell_shut_inv: "cl_inv {} w \<Longrightarrow> tell_shut e p ks w = Inr w' \<Longrightarrow> cl_inv {} w'"
proof (induction ks arbitrary: w)
  case (Cons k ks)
  obtain w1 where "remove_clients (cl_shut e k) w = Inr w1" "cl_inv {} w1"
    by (rule remove_clients_any[OF Cons.prems(1), of "cl_shut e k"]) blast
  with Cons.IH[of w1] Cons.prems(2) show ?case by (simp split: if_splits)
qed simp

text \<open>Sinks that spare the client they are told about.\<close>

definition spares_peer :: "cl_env \<Rightarrow> peer \<Rightarrow> bool" where
  "spares_peer e q \<longleftrightarrow> (\<forall>k. q \<notin> set (cl_shut e k))"

lemma tell_shut_spares:
  assumes "cl_inv {} w" "clients w p = Some c" "spares_peer e (cl_peer c)"
  obtains w' where "tell_shut e p ks w = Inr w'" "cl_inv {} w'" "clients w' p = Some c"
  using assms(1,2)
proof (induction ks arbitrary: w thesis)
  case Nil
  then show ?case by simp
next
  case (Cons k ks)
  obtain w1 where w1: "remove_clients (cl_shut e k) w = Inr w1" "cl_inv {} w1"
    "\<And>p. clients w1 p = clients w p \<or> (clients w1 p = None \<and> (\<exists>c. clients w p = Some c \<and> cl_peer c \<in> set (cl_shut e k)))"
    by (rule remove_clients_any[OF Cons.prems(2), of "cl_shut e k"]) blast
  have c1: "clients w1 p = Some c" using w1(3)[of p] Cons.prems(3) assms(3) by (auto simp: spares_peer_def)
  obtain w2 where "tell_shut e p ks w1 = Inr w2" "cl_inv {} w2" "clients w2 p = Some c"
    by (rule Cons.IH[OF _ w1(2) c1])
  with Cons.prems(1,3) w1(1) show ?case by simp
qed

text \<open>
  \<open>SetConnected\<close> keeps the invariant and touches nothing that is gone, when the sinks that it tells spare
  the client.
\<close>

lemma set_connected_down:
  assumes inv: "cl_inv {p} w" and c: "clients w p = Some c"
  shows "set_connected e p False 0 w = Inr w' \<Longrightarrow> cl_inv {} w'"
    and "spares_peer e (cl_peer c) \<Longrightarrow> set_connected e p False 0 w \<noteq> Inl (Freed x)"
proof -
  note c' = cl_inv_client[OF inv c]
  have rem: "remove_client (cl_peer c) w = Inr v \<Longrightarrow> cl_inv {} v" "remove_client (cl_peer c) w \<noteq> Inl f" for v f
    using remove_client_inv[OF inv c] by auto
  let ?c1 = "c\<lparr>reconnect_failed_count := reconnect_failed_count c + 1\<rparr>"
  have w1: "cl_inv {} (set_client p ?c1 w)" if "\<not> connected c"
    using that c' by (intro set_client_inv[OF inv c]) (simp_all add: client_ok_def sends_live_def)
  have rem1: "remove_client (cl_peer c) (set_client p ?c1 w) = Inr v \<Longrightarrow> cl_inv {} v"
    "remove_client (cl_peer c) (set_client p ?c1 w) \<noteq> Inl f" if "\<not> connected c" for v f
    using remove_client_inv[OF w1[OF that], of p ?c1] by auto
  let ?c2 = "c\<lparr>reconnect_failed_count := reconnect_failed_count c, connected := False, buf_event := 0\<rparr>"
  have w2: "cl_inv {} (set_client p ?c2 w)"
    using c' by (intro set_client_inv[OF inv c]) (simp_all add: client_ok_def sends_live_def)
  show "cl_inv {} w'" if r: "set_connected e p False 0 w = Inr w'"
  proof (cases "interval_zero w \<or> \<not> connected c")
    case True
    with r c rem rem1 w1 show ?thesis by (auto simp: set_connected_def Let_def split: if_splits)
  next
    case False
    with r c obtain tc where tc: "tc_result (on_closed (cl_now e) (cl_tc_react e) (cl_peer c) (trans w)) = Inr tc"
      and v: "and_then (tell_shut e p (new_calls (trans w) tc) ((set_client p ?c2 w)\<lparr>trans := tc\<rparr>)) (\<lambda>w2.
          if clients w2 p = None then Inl (Freed p) else Inr (snd (start_connect_timer e p w2))) = Inr w'"
      by (auto simp: set_connected_def Let_def and_then_Inr)
    from tc_event_reach(2)[OF c'(4) tc] c'(5) w2 have i: "cl_inv {} ((set_client p ?c2 w)\<lparr>trans := tc\<rparr>)" by simp
    from v obtain v where v: "tell_shut e p (new_calls (trans w) tc) ((set_client p ?c2 w)\<lparr>trans := tc\<rparr>) = Inr v"
      "clients v p \<noteq> None" "w' = snd (start_connect_timer e p v)" by (auto simp: and_then_Inr split: if_splits)
    with tell_shut_inv[OF i v(1)] timers_inv(2)[of "{}" v p] show ?thesis by auto
  qed
  show "set_connected e p False 0 w \<noteq> Inl (Freed x)" if sp: "spares_peer e (cl_peer c)"
  proof (cases "interval_zero w \<or> \<not> connected c")
    case True
    with c rem rem1 show ?thesis by (auto simp: set_connected_def Let_def split: if_splits)
  next
    case False
    show ?thesis
    proof (cases "tc_result (on_closed (cl_now e) (cl_tc_react e) (cl_peer c) (trans w))")
      case (Inl f)
      with tc_result_not_freed[of "on_closed (cl_now e) (cl_tc_react e) (cl_peer c) (trans w)"] False c
      show ?thesis by (auto simp: set_connected_def Let_def)
    next
      case (Inr tc)
      from tc_event_reach(2)[OF c'(4) Inr] c'(5) w2 have i: "cl_inv {} ((set_client p ?c2 w)\<lparr>trans := tc\<rparr>)" by simp
      obtain v where "tell_shut e p (new_calls (trans w) tc) ((set_client p ?c2 w)\<lparr>trans := tc\<rparr>) = Inr v"
        "clients v p = Some ?c2"
        by (rule tell_shut_spares[OF i, of p ?c2 e]) (use sp in simp_all)
      with Inr False c show ?thesis by (simp add: set_connected_def Let_def)
    qed
  qed
qed

lemma set_connected_up:
  assumes inv: "cl_inv {} w" and c: "clients w p = Some c" and b: "b \<in> bufevent_set c"
  shows "set_connected e p True b w = Inr w' \<Longrightarrow> cl_inv {} w'"
    and "spares_peer e (cl_peer c) \<Longrightarrow> set_connected e p True b w \<noteq> Inl (Freed x)"
proof -
  note c' = cl_inv_client[OF inv c]
  let ?c = "c\<lparr>reconnect_failed_count := 0, connected := True, buf_event := b\<rparr>"
  have w1: "cl_inv {} (set_client p ?c w)"
    using c' b by (intro set_client_inv[OF inv c]) (simp_all add: client_ok_def sends_live_def)
  let ?w1 = "stop_connect_timer p (set_client p ?c w)"
  have i1: "cl_inv {} ?w1" by (rule timers_inv(1)[OF w1]) simp
  have "clients ?w1 p = Some ?c" "connected ?c" by simp_all
  from send_cache_msg_ok[OF i1 this, of e] obtain K w2 where w2': "send_cache_msg e p ?w1 = Inr w2" "cl_inv {} w2" "trans w2 = trans ?w1"
    "clients w2 = (clients ?w1)(p \<mapsto> ?c\<lparr>cache_ids := filter (\<lambda>i. i \<in> K) (cache_ids ?c), cache_msg_map := cache_msg_map ?c |` K\<rparr>)"
    by metis
  let ?c2 = "?c\<lparr>cache_ids := filter (\<lambda>i. i \<in> K) (cache_ids ?c), cache_msg_map := cache_msg_map ?c |` K\<rparr>"
  have w2: "send_cache_msg e p ?w1 = Inr w2" "cl_inv {} w2" "trans w2 = trans w" "clients w2 p = Some ?c2" "cl_peer ?c2 = cl_peer c"
    using w2' by simp_all
  show "cl_inv {} w'" if r: "set_connected e p True b w = Inr w'"
  proof (cases "connected c")
    case True
    with r c inv show ?thesis by (simp add: set_connected_def)
  next
    case False
    with r c w2 obtain tc where tc: "tc_result (on_connected (cl_now e) (cl_tc_react e) (cl_peer c) (trans w)) = Inr tc"
      "tell_shut e p (new_calls (trans w) tc) (w2\<lparr>trans := tc\<rparr>) = Inr w'"
      by (auto simp: set_connected_def Let_def and_then_Inr)
    have "cl_inv {} (w2\<lparr>trans := tc\<rparr>)" using tc_event_reach(1)[OF c'(4) tc(1)] c'(5) w2 by simp
    from tell_shut_inv[OF this tc(2)] show ?thesis .
  qed
  show "set_connected e p True b w \<noteq> Inl (Freed x)" if sp: "spares_peer e (cl_peer c)"
  proof (cases "tc_result (on_connected (cl_now e) (cl_tc_react e) (cl_peer c) (trans w))")
    case (Inl f)
    with c w2 tc_result_not_freed[of "on_connected (cl_now e) (cl_tc_react e) (cl_peer c) (trans w)"]
    show ?thesis by (auto simp: set_connected_def Let_def)
  next
    case (Inr tc)
    have i: "cl_inv {} (w2\<lparr>trans := tc\<rparr>)" using tc_event_reach(1)[OF c'(4) Inr] c'(5) w2 by simp
    obtain v where "tell_shut e p (new_calls (trans w) tc) (w2\<lparr>trans := tc\<rparr>) = Inr v"
      by (rule tell_shut_spares[OF i, of p ?c2 e]) (use sp w2 in simp_all)
    with Inr c w2 show ?thesis by (simp add: set_connected_def Let_def)
  qed
qed

lemma event_callback_ok:
  assumes inv: "cl_inv {} w" and b: "bev_arg w b = Some p"
  shows "event_callback e b ev w = Inr w' \<Longrightarrow> cl_inv {} w'"
    and "\<forall>c. clients w p = Some c \<longrightarrow> spares_peer e (cl_peer c) \<Longrightarrow> event_callback e b ev w \<noteq> Inl (Freed x)"
proof -
  from cl_inv_bev[OF inv b] obtain c where c: "clients w p = Some c" "b \<in> bufevent_set c" by blast
  note c' = cl_inv_client[OF inv c(1)]
  let ?c = "c\<lparr>bufevent_set := bufevent_set c - {b}\<rparr>"
  let ?w = "set_client p ?c (w\<lparr>bev_arg := (bev_arg w)(b := None)\<rparr>)"
  have "client_ok (bev_arg ?w) r d \<and> (r \<noteq> p \<longrightarrow> sends_live d) \<and> client_map w (cl_peer d) = Some r"
    if "clients ?w r = Some d" for r d
  proof (cases "r = p")
    case True
    with that c' show ?thesis by (auto simp: client_ok_def)
  next
    case False
    with that have d: "clients w r = Some d" by simp
    from cl_inv_client[OF inv d] False b show ?thesis by (auto simp: client_ok_def)
  qed
  moreover have "\<exists>d. clients ?w r = Some d \<and> cl_peer d = q" if "client_map w q = Some r" for q r
    using cl_inv_map[OF inv that] c(1) by auto
  moreover have "\<exists>d. clients ?w r = Some d \<and> a \<in> bufevent_set d" if "bev_arg ?w a = Some r" for a r
    using that cl_inv_bev[OF inv, of a r] c(1) by (auto split: if_splits)
  moreover have "connect_timers w \<subseteq> insert p (dom (clients w))" using inv by (auto simp: cl_inv_def)
  ultimately have w: "cl_inv {p} ?w" using c'(4,5) by (simp add: cl_inv_def)
  note down = set_connected_down[OF w, of ?c e] and up = set_connected_up[OF inv c(1,2), of e]
  show "event_callback e b ev w = Inr w' \<Longrightarrow> cl_inv {} w'"
    "\<forall>c. clients w p = Some c \<longrightarrow> spares_peer e (cl_peer c) \<Longrightarrow> event_callback e b ev w \<noteq> Inl (Freed x)"
    using b c(1) inv down up by (auto simp: event_callback_def split: if_splits)
qed

subsection \<open>Requests of the sinks\<close>

lemma client_close_inv: "cl_inv {} w \<Longrightarrow> client_close p w = Inr w' \<Longrightarrow> cl_inv {} w'"
  using remove_client_inv[of "{}" w p] by (auto simp: client_close_def split: option.splits)

lemma run_op_reach:
  assumes "tc_reach s" "run_op now x s = Some s'"
  shows "tc_reach s' \<and> sink_set s' = sink_set s"
proof (cases x)
  case (Op_Cancel i)
  with assms tc_cancel[OF assms(1)] show ?thesis by auto
next
  case (Op_Record ctx)
  obtain i where i: "record_trans_ctx now (Some ctx) s = Some (i, s')" using assms(2) Op_Record by auto
  have "tc_inv s" "watched {} s" using tc_reach_inv[OF assms(1)] by simp_all
  then have "sink_set s' = sink_set s" by (rule record_trans_inv[of s "{}" now ctx]) (use i in simp)
  with tc_record[OF assms(1) i] show ?thesis by simp
qed

lemma cl_run_op_inv: "cl_inv {} w \<Longrightarrow> cl_run_op e x w = Inr w' \<Longrightarrow> cl_inv {} w'"
proof (induction e x w rule: cl_run_op.induct)
  case (1 e x w)
  then obtain tc where tc: "run_op (cl_now e) x (trans w) = Some tc" "w' = w\<lparr>trans := tc\<rparr>"
    by (auto split: option.splits)
  have "tc_reach (trans w)" "sink_set (trans w) = {}" using "1.prems"(1) by (simp_all add: cl_inv_def)
  from run_op_reach[OF this(1) tc(1)] this(2) "1.prems"(1) show ?case by (simp add: tc(2))
next
  case (2 e p head body async w)
  show ?case
  proof (cases "clients w p")
    case None
    with "2.prems" show ?thesis by (simp add: client_send_def)
  next
    case (Some c)
    show ?thesis
      by (rule client_send_ok[OF "2.prems"(1) Some, of e head "Some body" "length body" async]) (use "2.prems"(2) in simp_all)
  qed
qed (auto intro: client_close_inv)

lemma cl_run_ops_inv: "cl_inv {} w \<Longrightarrow> cl_run_ops e xs w = Inr w' \<Longrightarrow> cl_inv {} w'"
proof (induction xs arbitrary: w)
  case (Cons x xs)
  then obtain w1 where "cl_run_op e x w = Inr w1" "cl_run_ops e xs w1 = Inr w'" by (auto simp: and_then_Inr)
  with Cons cl_run_op_inv show ?case by blast
qed simp

lemma cl_call_inv: "cl_inv {} w \<Longrightarrow> cl_call e v w = Inr w' \<Longrightarrow> cl_inv {} w'"
  using cl_run_ops_inv[of "w\<lparr>cl_log := cl_log w @ [v]\<rparr>"] by (simp add: cl_call_def)

lemma nfy_loop_inv: "cl_inv {} w \<Longrightarrow> nfy_loop e p q head body sks w = Inr w' \<Longrightarrow> cl_inv {} w'"
proof (induction sks arbitrary: w)
  case (Cons sk sks)
  then obtain w1 where "cl_call e (Nfy_Call sk q head body) w = Inr w1" "nfy_loop e p q head body sks w1 = Inr w'"
    by (auto simp: and_then_Inr split: if_splits)
  with Cons cl_call_inv show ?case by blast
qed simp

text \<open>
  Requests that are in order: no client is closed from inside a callback, and messages go to clients
  that exist. Modest ones cancel no transaction either.
\<close>

fun op_polite :: "cl_world \<Rightarrow> cl_op \<Rightarrow> bool" where
  "op_polite w (Do_Tc x) = True"
| "op_polite w (Do_Send p head body async) = (clients w p \<noteq> None)"
| "op_polite w (Do_Close p) = False"

fun op_modest :: "cl_op \<Rightarrow> bool" where
  "op_modest (Do_Tc x) = (\<not> is_cancel x)"
| "op_modest _ = True"

definition polite :: "cl_env \<Rightarrow> cl_world \<Rightarrow> bool" where
  "polite e w \<longleftrightarrow> (\<forall>v. list_all (op_polite w) (cl_react e v))"

definition modest :: "cl_env \<Rightarrow> bool" where
  "modest e \<longleftrightarrow> (\<forall>v. list_all op_modest (cl_react e v))"

lemma op_polite_upd [simp]:
  "op_polite (w\<lparr>cl_log := l\<rparr>) x = op_polite w x" "op_polite (w\<lparr>trans := tc\<rparr>) x = op_polite w x"
  "op_polite (w\<lparr>cl_static := st\<rparr>) x = op_polite w x"
  by (cases x; simp)+

lemma polite_upd [simp]:
  "polite e (w\<lparr>cl_log := l\<rparr>) = polite e w" "polite e (w\<lparr>trans := tc\<rparr>) = polite e w"
  "polite e (w\<lparr>cl_static := st\<rparr>) = polite e w"
  by (simp_all add: polite_def cong: list.pred_cong)

lemma op_polite_sent: "sent_only w w' \<Longrightarrow> op_polite w' x = op_polite w x"
  by (cases x) (simp_all add: sent_only_dom)

lemma polite_sent: "sent_only w w' \<Longrightarrow> polite e w' = polite e w"
  using op_polite_sent[of w w'] by (simp add: polite_def cong: list.pred_cong)

lemma cl_run_op_ok:
  assumes inv: "cl_inv {} w" and x: "op_polite w x"
  shows "\<exists>w'. cl_run_op e x w = Inr w' \<and> cl_inv {} w' \<and> sent_only w w' \<and> (op_modest x \<longrightarrow> trans_kept w w')"
proof (cases x)
  case (Do_Tc y)
  have r: "tc_reach (trans w)" "sink_set (trans w) = {}" using inv by (simp_all add: cl_inv_def)
  have "tc_inv (trans w)" "watched {} (trans w)" using tc_reach_inv[OF r(1)] by simp_all
  from run_ops_inv[OF this, of "cl_now e" "[y]"] obtain tc where tc: "run_op (cl_now e) y (trans w) = Some tc"
    "\<not> is_cancel y \<longrightarrow> grows (trans w) tc" by (auto simp: bind_eq_Some_conv)
  have "cl_inv {} (w\<lparr>trans := tc\<rparr>)" using inv run_op_reach[OF r(1) tc(1)] r(2) by simp
  moreover have "sent_only w (w\<lparr>trans := tc\<rparr>)" by (simp add: sent_only_def sink_calls_def)
  ultimately show ?thesis using tc Do_Tc by (simp add: trans_kept_def grows_def)
next
  case (Do_Send p head body async)
  with x obtain c where c: "clients w p = Some c" by auto
  obtain i w' where "client_send e p head (Some body) (length body) async w = Inr (i, w')" "cl_inv {} w'" "sent_only w w'"
    "trans_kept w w'" by (rule client_send_ok[OF inv c]) simp
  with Do_Send show ?thesis by simp
qed (use x in simp)

lemma cl_run_ops_ok:
  assumes "cl_inv {} w" "list_all (op_polite w) xs"
  shows "\<exists>w'. cl_run_ops e xs w = Inr w' \<and> cl_inv {} w' \<and> sent_only w w' \<and> (list_all op_modest xs \<longrightarrow> trans_kept w w')"
  using assms
proof (induction xs arbitrary: w)
  case Nil
  then show ?case by (simp add: sent_only_refl trans_kept_def)
next
  case (Cons x xs)
  from Cons.prems have "op_polite w x" "list_all (op_polite w) xs" by simp_all
  from cl_run_op_ok[OF Cons.prems(1) this(1), of e] obtain w1 where w1: "cl_run_op e x w = Inr w1" "cl_inv {} w1" "sent_only w w1"
    "op_modest x \<longrightarrow> trans_kept w w1" by blast
  have "list_all (op_polite w1) xs" using \<open>list_all (op_polite w) xs\<close> op_polite_sent[OF w1(3)] by (simp cong: list.pred_cong)
  from Cons.IH[OF w1(2) this] obtain w2 where "cl_run_ops e xs w1 = Inr w2" "cl_inv {} w2" "sent_only w1 w2"
    "list_all op_modest xs \<longrightarrow> trans_kept w1 w2" by blast
  with w1 sent_only_trans[of w w1 w2] trans_kept_trans[of w w1 w2] show ?case by auto
qed

text \<open>The calls \<open>vs\<close> have been made, and otherwise only messages have been sent.\<close>

definition called :: "cl_event list \<Rightarrow> cl_world \<Rightarrow> cl_world \<Rightarrow> bool" where
  "called vs w w' \<longleftrightarrow> sent_only (w\<lparr>cl_log := cl_log w @ vs\<rparr>) w'"

lemma called_append:
  assumes "called vs w w1" "called us w1 w2"
  shows "called (vs @ us) w w2"
proof -
  have "sent_only (w\<lparr>cl_log := cl_log w @ vs @ us\<rparr>) (w1\<lparr>cl_log := cl_log w1 @ us\<rparr>)"
    using assms(1) by (simp add: called_def sent_only_def sink_calls_def)
  from sent_only_trans[OF this] assms(2) show ?thesis by (simp add: called_def)
qed

lemma called_client:
  assumes "called vs w w'" "clients w p = Some c"
  obtains c' where "clients w' p = Some c'" "same_client c c'"
  using sent_only_client[of "w\<lparr>cl_log := cl_log w @ vs\<rparr>" w' p c] assms by (auto simp: called_def)

lemma called_simps:
  assumes "called vs w w'"
  shows "sink_calls w' = sink_calls w @ filter (\<lambda>v. \<not> is_written v) vs" "cl_codec w' = cl_codec w"
    "cl_static w' = cl_static w" "client_map w' = client_map w" "bev_arg w' = bev_arg w" "polite e w' = polite e w"
    "connect_timers w' = connect_timers w"
  using assms polite_sent[of "w\<lparr>cl_log := cl_log w @ vs\<rparr>" w' e]
  by (simp_all add: called_def sent_only_def sink_calls_def)

lemma cl_call_ok:
  assumes "cl_inv {} w" "polite e w"
  shows "\<exists>w'. cl_call e v w = Inr w' \<and> cl_inv {} w' \<and> called [v] w w' \<and> (modest e \<longrightarrow> trans_kept w w')"
proof -
  let ?w = "w\<lparr>cl_log := cl_log w @ [v]\<rparr>"
  have "cl_inv {} ?w" "list_all (op_polite ?w) (cl_react e v)"
    using assms by (simp_all add: polite_def cong: list.pred_cong)
  from cl_run_ops_ok[OF this, of e] show ?thesis
    by (auto simp: cl_call_def called_def modest_def trans_kept_def)
qed

lemma nfy_loop_ok:
  assumes "cl_inv {} w" "polite e w" "clients w p = Some c"
  shows "\<exists>w'. nfy_loop e p q head body sks w = Inr w' \<and> cl_inv {} w' \<and>
    called (map (\<lambda>sk. Nfy_Call sk q head body) sks) w w' \<and> (modest e \<longrightarrow> trans_kept w w')"
  using assms
proof (induction sks arbitrary: w c)
  case Nil
  then show ?case by (simp add: called_def sent_only_refl trans_kept_def)
next
  case (Cons sk sks)
  let ?v = "Nfy_Call sk q head body"
  from cl_call_ok[OF Cons.prems(1,2), of ?v] obtain w1 where w1: "cl_call e ?v w = Inr w1" "cl_inv {} w1"
    "called [?v] w w1" "modest e \<longrightarrow> trans_kept w w1" by blast
  obtain c1 where c1: "clients w1 p = Some c1" by (rule called_client[OF w1(3) Cons.prems(3)])
  have "polite e w1" using called_simps(6)[OF w1(3)] Cons.prems(2) by simp
  from Cons.IH[OF w1(2) this c1] obtain w2 where "nfy_loop e p q head body sks w1 = Inr w2" "cl_inv {} w2"
    "called (map (\<lambda>sk. Nfy_Call sk q head body) sks) w1 w2" "modest e \<longrightarrow> trans_kept w1 w2" by blast
  with w1 c1 called_append[OF w1(3), of _ w2] trans_kept_trans[of w w1 w2] show ?case by auto
qed

subsection \<open>Receiving\<close>

text \<open>The calls a message leads to, and the ids of the transactions it ends.\<close>

definition msg_calls :: "cl_world \<Rightarrow> client \<Rightarrow> msg_head \<times> bytes \<Rightarrow> cl_event list" where
  "msg_calls w c m =
     (if passback (fst m) = NFY_PASSBACK
      then map (\<lambda>sk. Nfy_Call sk (cl_peer c) (fst m) (snd m)) (sorted_list_of_set (nfy_sink_set c))
      else (case get_trans_ctx (sint (passback (fst m))) (trans w) of
              None \<Rightarrow> []
            | Some t \<Rightarrow> [Rsp_Call (tx_sink t) (sint (passback (fst m))) (cl_peer c)
                         ((fst m)\<lparr>passback := tx_passback t\<rparr>) (snd m) (tx_data t)]))"

definition ended_ids :: "msg_head \<times> bytes \<Rightarrow> int set" where
  "ended_ids m = (if passback (fst m) = NFY_PASSBACK then {} else {sint (passback (fst m))})"

definition known :: "cl_world \<Rightarrow> msg_head \<times> bytes \<Rightarrow> bool" where
  "known w m \<longleftrightarrow> passback (fst m) = NFY_PASSBACK \<or> get_trans_ctx (sint (passback (fst m))) (trans w) \<noteq> None"

lemma on_message_inv:
  assumes "cl_inv {} w" "on_message e p c head body w = Inr (go_on, w')"
  shows "cl_inv {} w'"
proof -
  have canc: "cl_inv {} (u\<lparr>trans := cancel_trans i (trans u)\<rparr>)" if "cl_inv {} u" for u i
    using that tc_cancel by (simp add: cl_inv_def)
  from assms show ?thesis
    by (auto simp: on_message_def and_then_Inr Let_def canc split: if_splits option.splits
        dest: cl_call_inv nfy_loop_inv)
qed

lemma on_message_ok:
  assumes inv: "cl_inv {} w" and c: "clients w p = Some c" and e: "polite e w"
  shows "\<exists>w'. on_message e p c (fst m) (snd m) w = Inr (known w m, w') \<and> cl_inv {} w' \<and>
    called (msg_calls w c m) w w' \<and> (\<not> known w m \<longrightarrow> w' = w) \<and>
    (modest e \<longrightarrow> trans_hash_map (trans w) |` (- ended_ids m) \<subseteq>\<^sub>m trans_hash_map (trans w'))"
proof (cases "passback (fst m) = NFY_PASSBACK")
  case True
  from nfy_loop_ok[OF inv e c, of "cl_peer c" "fst m" "snd m" "sorted_list_of_set (nfy_sink_set c)"] obtain w' where
    "nfy_loop e p (cl_peer c) (fst m) (snd m) (sorted_list_of_set (nfy_sink_set c)) w = Inr w'" "cl_inv {} w'"
    "called (msg_calls w c m) w w'" "modest e \<longrightarrow> trans_kept w w'" using True by (auto simp: msg_calls_def)
  moreover have "trans_hash_map (trans w) |` (- ended_ids m) = trans_hash_map (trans w)"
    using True by (simp add: ended_ids_def restrict_map_def)
  ultimately show ?thesis using True by (simp add: on_message_def known_def trans_kept_def)
next
  case False
  let ?i = "sint (passback (fst m))"
  show ?thesis
  proof (cases "get_trans_ctx ?i (trans w)")
    case None
    with False inv show ?thesis
      by (auto simp: on_message_def known_def called_def sent_only_refl msg_calls_def map_le_def restrict_map_def)
  next
    case (Some t)
    have "tc_inv (trans w)" using tc_reach_inv cl_inv_client(4)[OF inv c] by blast
    then have sk: "tx_sink t \<noteq> 0" using Some by (auto simp: tc_inv_def get_trans_ctx_def)
    let ?v = "Rsp_Call (tx_sink t) ?i (cl_peer c) ((fst m)\<lparr>passback := tx_passback t\<rparr>) (snd m) (tx_data t)"
    have vs: "msg_calls w c m = [?v]" using False Some by (simp add: msg_calls_def)
    from cl_call_ok[OF inv e, of ?v] obtain w1 where w1: "cl_call e ?v w = Inr w1" "cl_inv {} w1"
      "called [?v] w w1" "modest e \<longrightarrow> trans_kept w w1" by blast
    obtain c1 where c1: "clients w1 p = Some c1" by (rule called_client[OF w1(3) c])
    let ?w = "w1\<lparr>trans := cancel_trans ?i (trans w1)\<rparr>"
    have "cl_inv {} ?w" using w1(2) tc_cancel by (simp add: cl_inv_def)
    moreover have "called [?v] w ?w" using w1(3) by (simp add: called_def sent_only_def sink_calls_def)
    moreover have "modest e \<longrightarrow> trans_hash_map (trans w) |` (- ended_ids m) \<subseteq>\<^sub>m trans_hash_map (trans ?w)"
      using w1(4) False by (auto simp: trans_kept_def ended_ids_def cancel_trans_map map_le_def dom_def restrict_map_def)
    ultimately show ?thesis using False Some sk w1(1) c1 vs
      by (intro exI[of _ ?w]) (simp add: on_message_def known_def)
  qed
qed

lemma put_data_inv:
  assumes "cl_inv {} w" "clients w p = Some c"
  shows "cl_inv {} (set_client p (c\<lparr>recved_data := d\<rparr>) w)"
  using cl_inv_client[OF assms] by (intro set_client_inv[OF assms]) (simp_all add: client_ok_def sends_live_def)

lemma send_error_ok:
  assumes "cl_inv {} w" "clients w p = Some c"
  shows "\<exists>w'. send_error e p err w = Inr w' \<and> cl_inv {} w' \<and> sent_only w w' \<and> trans_kept w w'"
  by (rule client_send_ok[OF assms, of e "msg_head_reset\<lparr>msg_id := err\<rparr>" None 0 None]) (auto simp: send_error_def)

lemma cl_read_loop_inv: "cl_inv {} w \<Longrightarrow> cl_read_loop e p d w = Inr w' \<Longrightarrow> cl_inv {} w'"
proof (induction "length d" arbitrary: d w rule: less_induct)
  case less
  obtain stat chk where w: "is_whole_msg (cl_codec w) (cl_static w) (d @ 0 # cl_behind e d) (length d) = (stat, chk)"
    by fastforce
  let ?w0 = "w\<lparr>cl_static := stat\<rparr>"
  have inv0: "cl_inv {} ?w0" using less.prems(1) by simp
  have err: "cl_inv {} v'" if "cl_inv {} v" "send_error e p er v = Inr v'" for v v' er
  proof (cases "clients v p")
    case None
    with that(2) show ?thesis by (simp add: send_error_def client_send_def)
  next
    case (Some c)
    from send_error_ok[OF that(1) this, of e er] that(2) show ?thesis by auto
  qed
  have put: "cl_inv {} v'" if "cl_inv {} v" "put_data p x v = Inr v'" for v v' x
    using that put_data_inv by (auto simp: put_data_def split: option.splits)
  note r = less.prems(2)[unfolded cl_read_loop.simps[of e p d w], unfolded w Let_def prod.case]
  show ?case
  proof (cases chk)
    case (Invalid_Len n)
    with r obtain w1 where w1: "put_data p [] ?w0 = Inr w1" "send_error e p MSG_ID_INVALID_MSG_LEN w1 = Inr w'"
      by (auto simp: and_then_Inr)
    from err[OF put[OF inv0 w1(1)] w1(2)] show ?thesis .
  next
    case (Whole n)
    show ?thesis
    proof (cases "decode_msg (cl_codec w) (drop TOTAL_MSG_LEN_FIELD_LEN d) n")
      case (Decode_Error er)
      with r Whole have "send_error e p er ?w0 = Inr w'" by simp
      from err[OF inv0 this] show ?thesis .
    next
      case (Decoded head body)
      with r Whole obtain c go_on w1 where m: "clients w p = Some c" "on_message e p c head body ?w0 = Inr (go_on, w1)"
        "(if \<not> go_on then Inr w1
          else if 0 < length d - 4 - n
          then and_then (put_data p (drop (4 + n) d) w1) (cl_read_loop e p (drop (4 + n) d)) else put_data p [] w1) = Inr w'"
        by (auto simp: and_then_Inr split: option.splits)
      have i1: "cl_inv {} w1" by (rule on_message_inv[OF inv0 m(2)])
      have "cl_inv {} w'" if "0 < length d - 4 - n" "put_data p (drop (4 + n) d) w1 = Inr u"
        "cl_read_loop e p (drop (4 + n) d) u = Inr w'" for u
        by (rule less.hyps[OF _ put[OF i1 that(2)] that(3)]) (use that(1) in simp)
      with m(3) i1 put show ?thesis by (auto simp: and_then_Inr split: if_splits)
    qed (use r Whole in simp)
  qed (use r inv0 in auto)
qed

lemma cl_read_callback_inv: "cl_inv {} w \<Longrightarrow> cl_read_callback e b input drained w = Inr w' \<Longrightarrow> cl_inv {} w'"
  by (auto simp: cl_read_callback_def Let_def put_data_inv split: option.splits if_splits
      intro: cl_read_loop_inv[OF put_data_inv])

text \<open>The memory behind a string can be read as far as a length field reaches.\<close>

definition cl_readable :: "cl_env \<Rightarrow> bool" where
  "cl_readable e \<longleftrightarrow> (\<forall>d. 3 \<le> length (cl_behind e d))"

lemma cl_read_loop_returns:
  assumes "cl_inv {} w" "clients w p = Some c" "polite e w" "cl_readable e"
  shows "\<exists>w'. cl_read_loop e p d w = Inr w'"
  using assms
proof (induction "length d" arbitrary: d w c rule: less_induct)
  case less
  obtain stat chk where w: "is_whole_msg (cl_codec w) (cl_static w) (d @ 0 # cl_behind e d) (length d) = (stat, chk)"
    by fastforce
  let ?w0 = "w\<lparr>cl_static := stat\<rparr>"
  have inv0: "cl_inv {} ?w0" "clients ?w0 p = Some c" "polite e ?w0" using less.prems by simp_all
  note r = cl_read_loop.simps[of e p d w, unfolded w Let_def prod.case]
  have "chk \<noteq> Bad_Read"
    using is_whole_readable[of "cl_behind e d" "cl_codec w" "cl_static w" d "length d"] w less.prems(4)
    by (auto simp: cl_readable_def)
  then show ?case
  proof (cases chk)
    case (Invalid_Len n)
    have c1: "clients (set_client p (c\<lparr>recved_data := []\<rparr>) ?w0) p = Some (c\<lparr>recved_data := []\<rparr>)" by simp
    from send_error_ok[OF put_data_inv[OF inv0(1,2)] this, of e "MSG_ID_INVALID_MSG_LEN"] Invalid_Len inv0(2) show ?thesis
      by (auto simp: r put_data_def)
  next
    case (Whole n)
    note dw = decode_whole[OF w[unfolded Whole]]
    show ?thesis
    proof (cases "decode_msg (cl_codec w) (drop 4 d) n")
      case Decode_Bad_Read
      with dw(3) show ?thesis by simp
    next
      case (Decode_Error er)
      with send_error_ok[OF inv0(1,2), of e er] Whole show ?thesis by (auto simp: r)
    next
      case (Decoded head body)
      from on_message_ok[OF inv0, of "(head, body)"] obtain w1 where w1:
        "on_message e p c head body ?w0 = Inr (known ?w0 (head, body), w1)" "cl_inv {} w1"
        "called (msg_calls ?w0 c (head, body)) ?w0 w1" by auto
      obtain c1 where c1: "clients w1 p = Some c1" by (rule called_client[OF w1(3) inv0(2)])
      let ?d = "drop (4 + n) d"
      let ?w2 = "set_client p (c1\<lparr>recved_data := ?d\<rparr>) w1"
      have "op_polite ?w2 x = op_polite w1 x" for x using c1 by (cases x) simp_all
      then have "polite e ?w2" using called_simps(6)[OF w1(3), of e] inv0(3) by (simp add: polite_def cong: list.pred_cong)
      then have "\<exists>w'. cl_read_loop e p ?d ?w2 = Inr w'" if "0 < length d - 4 - n"
        using that less.prems(4) by (intro less.hyps[OF _ put_data_inv[OF w1(2) c1]]) simp_all
      then show ?thesis using Whole Decoded inv0(2) w1(1) c1 by (auto simp: r put_data_def)
    qed
  qed (simp_all add: r)
qed

subsection \<open>Reachable states\<close>

lemma center_timeouts_none: "sink_set s = {} \<Longrightarrow> center_timeouts (concat (map (\<lambda>i. timeout_calls (sink_set s) i (f i)) ids)) = []"
  by (induction ids) (simp_all add: center_timeouts_def timeout_calls_def)

text \<open>No client is a sink of the transaction center, so none hears of a timeout.\<close>

lemma cl_rsp_check_ok:
  assumes inv: "cl_inv {} w" and tame: "timeout_tame (cl_tc_react e)" and ord: "hash_order ord"
  obtains tc where "rsp_check (cl_now e) (cl_tc_react e) ord (trans w) = Some tc" "cl_rsp_check e ord w = Inr (w\<lparr>trans := tc\<rparr>)"
    "cl_inv {} (w\<lparr>trans := tc\<rparr>)"
proof -
  have r: "tc_reach (trans w)" "sink_set (trans w) = {}" using inv by (simp_all add: cl_inv_def)
  have i: "tc_inv (trans w)" "watched {} (trans w)" using tc_reach_inv[OF r(1)] by simp_all
  obtain tc ids where tc: "rsp_check (cl_now e) (cl_tc_react e) ord (trans w) = Some tc"
    "tc_calls tc = tc_calls (trans w) @ concat (map (\<lambda>i. timeout_calls (sink_set (trans w)) i (the (trans_hash_map (trans w) i))) ids)"
    "sink_set tc = sink_set (trans w)"
    by (rule rsp_check_spec[OF i tame ord, of "cl_now e"])
  have "center_timeouts (drop (length (tc_calls (trans w))) (tc_calls tc)) = []"
    using center_timeouts_none[OF r(2)] by (simp add: tc(2))
  then have "cl_rsp_check e ord w = Inr (w\<lparr>trans := tc\<rparr>)" using tc(1) by (simp add: cl_rsp_check_def)
  moreover have "cl_inv {} (w\<lparr>trans := tc\<rparr>)" using inv tc_check[OF r(1) tame ord tc(1)] tc(3) r(2) by simp
  ultimately show ?thesis using that tc(1) by blast
qed

text \<open>What can happen: requests, events, data, timers, other calls of the scheduler, the expiry check.\<close>

inductive cl_step :: "cl_world \<Rightarrow> cl_world \<Rightarrow> bool" where
  cl_send: "fresh_env e w \<Longrightarrow> clients w p = None \<Longrightarrow> p \<noteq> 0 \<Longrightarrow>
     send_to_server e self p q head body async w = Inr (i, w') \<Longrightarrow> cl_step w w'"
| cl_event: "event_callback e b ev w = Inr w' \<Longrightarrow> cl_step w w'"
| cl_read: "cl_read_callback e b input drained w = Inr w' \<Longrightarrow> cl_step w w'"
| cl_timer: "fresh_env e w \<Longrightarrow> p \<in> connect_timers w \<Longrightarrow> cl_on_timer e p w = Inr w' \<Longrightarrow> cl_step w w'"
| cl_ops: "cl_run_ops e xs w = Inr w' \<Longrightarrow> cl_step w w'"
| cl_expiry: "timeout_tame (cl_tc_react e) \<Longrightarrow> hash_order ord \<Longrightarrow> cl_rsp_check e ord w = Inr w' \<Longrightarrow> cl_step w w'"

inductive cl_reach :: "cl_world \<Rightarrow> bool" where
  cl_start: "cl_reach (cl_init interval limit ctx)"
| cl_next: "cl_reach w \<Longrightarrow> cl_step w w' \<Longrightarrow> cl_reach w'"

inductive_cases cl_stepE: "cl_step w w'"

lemma cl_step_inv: "cl_step w w' \<Longrightarrow> cl_inv {} w \<Longrightarrow> cl_inv {} w'"
proof (induction rule: cl_step.induct)
  case (cl_send e w p self q head body async i w')
  show ?case
    by (rule send_to_server_ok[OF cl_send.prems cl_send.hyps(2,3,1), of self q head body async]) (use cl_send.hyps(4) in simp)
next
  case (cl_event e b ev w w')
  show ?case
  proof (cases "bev_arg w b")
    case None
    with cl_event.hyps show ?thesis by (simp add: event_callback_def)
  next
    case (Some p)
    from event_callback_ok(1)[OF cl_event.prems this cl_event.hyps(1)] show ?thesis .
  qed
next
  case (cl_read e b input drained w w')
  then show ?case by (rule_tac cl_read_callback_inv)
next
  case (cl_timer e w p w')
  then obtain c where c: "clients w p = Some c" unfolding cl_inv_def by blast
  show ?case
    by (rule connect_ok[OF cl_timer.prems c cl_timer.hyps(1)]) (use cl_timer.hyps(3) in \<open>simp add: cl_on_timer_def\<close>)
next
  case (cl_ops e xs w w')
  then show ?case by (rule_tac cl_run_ops_inv)
next
  case (cl_expiry e ord w w')
  show ?case
    by (rule cl_rsp_check_ok[OF cl_expiry.prems cl_expiry.hyps(1,2)]) (use cl_expiry.hyps(3) in simp)
qed

lemma cl_reach_inv: "cl_reach w \<Longrightarrow> cl_inv {} w"
proof (induction rule: cl_reach.induct)
  case (cl_start interval limit ctx)
  show ?case by (simp add: cl_inv_def cl_init_def tc_start) (simp add: tc_init_def)
qed (rule cl_step_inv)

subsection \<open>Property\<close>

text \<open>
  Claim C20: the tables of the clients agree in every state between operations that a thread can get into. Every open bufferevent calls back with a client that holds it, a
  connected client sends over one of its open bufferevents, timers belong to live clients, the map
  holds exactly the live clients under their peers, and each client lists exactly the messages it
  keeps, once. Hence timers never touch a freed object, sending to a server always returns, events of a connection touch
  no freed object as long as no sink that is told of it removes the client of that connection from inside
  \<^verbatim>\<open>OnConnected\<close> or \<^verbatim>\<open>OnClosed\<close> (one that does leads to a use after free, \<open>shut_inside_closed\<close>), and receiving returns as
  long as no sink closes a client from inside its callback. Sinks may record and cancel transactions and remove clients
  when told of a connection, record transactions when told of a timeout, and do anything when told of a response or
  notification.
\<close>

theorem client_tables_safe:
  assumes "cl_reach w"
  shows "(\<forall>b p. bev_arg w b = Some p \<longrightarrow> (\<exists>c. clients w p = Some c \<and> b \<in> bufevent_set c)) \<and>
    (\<forall>p c. clients w p = Some c \<longrightarrow> client_map w (cl_peer c) = Some p \<and>
       (connected c \<longrightarrow> bev_arg w (buf_event c) = Some p) \<and>
       distinct (cache_ids c) \<and> set (cache_ids c) = dom (cache_msg_map c)) \<and>
    (\<forall>q p. client_map w q = Some p \<longrightarrow> (\<exists>c. clients w p = Some c \<and> cl_peer c = q)) \<and>
    (\<forall>b p. bev_arg w b = Some p \<longrightarrow> 
       ((\<forall>c. clients w p = Some c \<longrightarrow> (\<forall>k. cl_peer c \<notin> set (cl_shut e k))) \<longrightarrow> event_callback e b ev w \<noteq> Inl (Freed x)) \<and>
       (polite e w \<longrightarrow> cl_readable e \<longrightarrow> (\<exists>w'. cl_read_callback e b input drained w = Inr w'))) \<and>
    (\<forall>p \<in> connect_timers w. fresh_env e w \<longrightarrow> (\<exists>w'. cl_on_timer e p w = Inr w')) \<and>
    (\<forall>p. clients w p = None \<longrightarrow> p \<noteq> 0 \<longrightarrow> fresh_env e w \<longrightarrow>
       (\<exists>i w'. send_to_server e self p q head body async w = Inr (i, w')))"
proof (intro conjI allI impI ballI)
  note inv = cl_reach_inv[OF assms]
  fix b p assume b: "bev_arg w b = Some p"
  from cl_inv_bev[OF inv b] obtain c where c: "clients w p = Some c" by blast
  show "\<exists>w'. cl_read_callback e b input drained w = Inr w'" if "polite e w" "cl_readable e"
  proof -
    let ?w = "set_client p (c\<lparr>recved_data := recved_data c @ input\<rparr>) w"
    have "op_polite ?w x = op_polite w x" for x using c by (cases x) simp_all
    then have "polite e ?w" using that(1) by (simp add: polite_def cong: list.pred_cong)
    from cl_read_loop_returns[OF put_data_inv[OF inv c] _ this that(2)] b c show ?thesis
      by (simp add: cl_read_callback_def Let_def)
  qed
next
  fix p assume p: "p \<in> connect_timers w" "fresh_env e w"
  with cl_reach_inv[OF assms] obtain c where "clients w p = Some c" unfolding cl_inv_def by blast
  from connect_ok[OF cl_reach_inv[OF assms] this p(2)] show "\<exists>w'. cl_on_timer e p w = Inr w'"
    by (metis and_then.simps(2) cl_on_timer_def prod.case)
next
  fix p assume "clients w p = None" "p \<noteq> 0" "fresh_env e w"
  from send_to_server_ok[OF cl_reach_inv[OF assms] this, of self q head body async]
  show "\<exists>i w'. send_to_server e self p q head body async w = Inr (i, w')" by metis
qed (use cl_reach_inv[OF assms] cl_inv_bev[OF cl_reach_inv[OF assms]] cl_inv_map[OF cl_reach_inv[OF assms]]
    cl_inv_client[OF cl_reach_inv[OF assms]] connected_bev[OF cl_reach_inv[OF assms]]
    event_callback_ok(2)[OF cl_reach_inv[OF assms], folded spares_peer_def] in \<open>auto simp: client_ok_def spares_peer_def\<close>)

text \<open>
  A sink that removes the client when it is told that its connection is closed: \<^verbatim>\<open>SetConnected\<close> goes on with the
  freed client to start its timer.
\<close>

lemma shut_inside_closed:
  assumes inv: "cl_inv {p} w" and c: "clients w p = Some c" "connected c" "\<not> interval_zero w"
    and tc: "on_closed (cl_now e) (cl_tc_react e) (cl_peer c) (trans w) = Some (Inr tc)" "new_calls (trans w) tc = [k]"
    and shut: "cl_shut e k = [cl_peer c]"
  shows "set_connected e p False 0 w = Inl (Freed p)"
proof -
  let ?c = "c\<lparr>reconnect_failed_count := reconnect_failed_count c, connected := False, buf_event := 0\<rparr>"
  let ?w = "(set_client p ?c w)\<lparr>trans := tc\<rparr>"
  have m: "client_map ?w (cl_peer c) = Some p" using cl_inv_client(3)[OF inv c(1)] by simp
  have "remove_clients (cl_shut e k) ?w = Inr ((destroy_client p ?w)\<lparr>client_map := (client_map ?w)(cl_peer c := None)\<rparr>)"
    using m by (simp add: shut remove_client_def)
  moreover have "clients ((destroy_client p ?w)\<lparr>client_map := (client_map ?w)(cl_peer c := None)\<rparr>) p = None"
    by (simp add: destroy_client_def)
  ultimately show ?thesis using c tc by (simp add: set_connected_def Let_def)
qed

subsection \<open>A small world\<close>

text \<open>One client: a request made before it is connected, and the connection.\<close>

definition cl_test_env :: cl_env where
  "cl_test_env = \<lparr>cl_now = 50, add_res = (\<lambda>_. True), timer_ok = True, connect_res = Some 200,
     cl_behind = (\<lambda>_. [0, 0, 0]), cl_heap = (\<lambda>n. replicate n 0), cl_tc_react = (\<lambda>_. []), cl_shut = (\<lambda>_. []),
     cl_react = (\<lambda>_. [])\<rparr>"

definition cl_test_peer :: peer where
  "cl_test_peer = Peer PEER_TYPE_PROTO_TCP ''s'' 80"

definition cl_test_head :: msg_head where
  "cl_test_head = \<lparr>passback = 42, msg_id = 5\<rparr>"

definition cl_test_async :: async_ctx where
  "cl_test_async = \<lparr>as_retries = 0, as_timeout = 5, as_sink = 3, as_data = No_Data\<rparr>"

definition cl_test_trans :: trans_ctx where
  "cl_test_trans = \<lparr>tx_peer = cl_test_peer, tx_timeout_sec = 5, tx_passback = 42, tx_sink = 3, tx_data = No_Data\<rparr>"

definition cl_test_tc :: trans_center where
  "cl_test_tc = \<lparr>sink_set = {}, trans_id_seq = \<lparr>total_count = 0x7fffffff, cursor = 1, inuse_seqs = {1}\<rparr>,
     trans_hash_map = [1 \<mapsto> cl_test_trans], peer_trans_id_map = [cl_test_peer \<mapsto> {1}],
     rsp_msg_mgr = upsert_record 50 1 cl_test_trans 5 rtm_init, tc_calls = []\<rparr>"

definition cl_test_codec :: msg_codec_ctx where
  "cl_test_codec = \<lparr>max_msg_body_len = 64, do_checksum = True\<rparr>"

definition cl_test_cached :: cache_msg where
  "cl_test_cached = \<lparr>cm_head = cl_test_head\<lparr>passback := 1\<rparr>,
     cm_data = request_frame cl_test_env cl_test_codec 1 cl_test_head (Some [7]) 1, cm_retries = 0\<rparr>"

definition cl_test_client :: client where
  "cl_test_client = (client_new cl_test_peer)\<lparr>bufevent_set := {200}, nfy_sink_set := {60}\<rparr>"

definition cl_test_waiting :: cl_world where
  "cl_test_waiting = (cl_init (1, 0) 5 cl_test_codec)
     \<lparr>clients := [100 \<mapsto> cl_test_client\<lparr>cache_msg_map := [1 \<mapsto> cl_test_cached], cache_ids := [1]\<rparr>],
      client_map := [cl_test_peer \<mapsto> 100], trans := cl_test_tc, bev_arg := [200 \<mapsto> 100]\<rparr>"

definition cl_test_up :: cl_world where
  "cl_test_up = cl_test_waiting
     \<lparr>clients := [100 \<mapsto> cl_test_client\<lparr>connected := True, buf_event := 200\<rparr>],
      trans := cl_test_tc\<lparr>tc_calls := [Sink_Connected 3 1 cl_test_peer No_Data]\<rparr>,
      tries := 1, cl_log := [Written 200 (cm_data cl_test_cached)]\<rparr>"

definition cl_test_event :: "bool \<Rightarrow> bev_event" where
  "cl_test_event up = \<lparr>ev_connected = up, ev_eof = False, ev_error = \<not> up, ev_reading = False, input_empty = True\<rparr>"

lemma cl_test_request:
  "send_to_server cl_test_env 60 100 cl_test_peer cl_test_head [7] (Some cl_test_async) (cl_init (1, 0) 5 cl_test_codec) =
     Inr (1, cl_test_waiting)"
proof -
  have seq: "seq_alloc 1 I32_SEQ_MAX (seq_reset 1 I32_SEQ_MAX) =
     Some (1, \<lparr>total_count = 0x7fffffff, cursor = 1, inuse_seqs = {1}\<rparr>)"
    by (simp add: seq_alloc_def seq_reset_def alloc_loop.simps seq_next_def Let_def)
  have rec: "record_trans_ctx 50 (Some cl_test_trans) tc_init = Some (1, cl_test_tc)"
    by (simp add: cl_test_tc_def record_trans_ctx_def tc_init_def seq Let_def cl_test_trans_def trans_create_def peer_ids_def)
  have ctx: "request_ctx c cl_test_head (Some cl_test_async) = cl_test_trans" if "cl_peer c = cl_test_peer" for c
    using that by (simp add: request_ctx_def cl_test_trans_def cl_test_head_def cl_test_async_def)
  have cr: "create_client cl_test_env 100 cl_test_peer (cl_init (1, 0) 5 cl_test_codec) =
      Inr (100, (cl_init (1, 0) 5 cl_test_codec)\<lparr>clients := [100 \<mapsto> (client_new cl_test_peer)\<lparr>bufevent_set := {200}\<rparr>],
        client_map := [cl_test_peer \<mapsto> 100], bev_arg := [200 \<mapsto> 100]\<rparr>)"
    by (simp add: create_client_def connect_def cl_test_env_def cl_init_def set_client_def client_new_def)
  have ret: "retries_of (Some cl_test_async) = 0" by (simp add: retries_of_def cl_test_async_def)
  have now: "cl_now cl_test_env = 50" by (simp add: cl_test_env_def)
  have ty: "p_type cl_test_peer = PEER_TYPE_PROTO_TCP" by (simp add: cl_test_peer_def)
  have miss: "get_client cl_test_peer (cl_init (1, 0) 5 cl_test_codec) = 0" by (simp add: get_client_def cl_init_def)
  show ?thesis
    unfolding send_to_server_def ty peer_type.case miss Let_def cr
    by (simp add: client_send_def now ctx rec cl_init_def client_new_def add_nfy_sink_def set_client_def add_cache_msg_def Let_def
        cl_test_waiting_def cl_test_client_def cl_test_cached_def ret)
qed

lemma cl_test_connected: "event_callback cl_test_env 200 (cl_test_event True) cl_test_waiting = Inr cl_test_up"
proof -
  have oc: "on_connected 50 (\<lambda>_. []) cl_test_peer cl_test_tc =
      Some (Inr (cl_test_tc\<lparr>tc_calls := [Sink_Connected 3 1 cl_test_peer No_Data]\<rparr>))"
    by (simp add: on_connected_def peer_event_def peer_loop.simps callback_def cl_test_tc_def cl_test_trans_def
        peer_ids_def next_id_def)
  have nc: "new_calls cl_test_tc (cl_test_tc\<lparr>tc_calls := [x]\<rparr>) = [x]" for x by (simp add: new_calls_def cl_test_tc_def)
  have e: "cl_now cl_test_env = 50" "cl_tc_react cl_test_env = (\<lambda>_. [])" "cl_shut cl_test_env = (\<lambda>_. [])"
    "add_res cl_test_env = (\<lambda>_. True)"
    by (simp_all add: cl_test_env_def)
  show ?thesis
    by (simp add: event_callback_def set_connected_def cl_test_waiting_def cl_test_event_def cl_test_client_def client_new_def Let_def
        send_cache_msg_def stop_connect_timer_def set_client_def inner_send_def e oc cl_test_cached_def cl_test_up_def cl_init_def nc)
qed

lemma cl_test_reach: "cl_reach cl_test_waiting" "cl_reach cl_test_up"
proof -
  let ?w = "cl_init (1, 0) 5 cl_test_codec"
  have "fresh_env cl_test_env ?w" "clients ?w 100 = None" by (simp_all add: fresh_env_def cl_init_def)
  then have "cl_step ?w cl_test_waiting" using cl_test_request by (intro cl_send) simp_all
  with cl_start show w: "cl_reach cl_test_waiting" by (rule cl_next)
  from cl_event[OF cl_test_connected] show "cl_reach cl_test_up" by (rule cl_next[OF w])
qed

lemma cl_test_simps:
  "clients cl_test_up 100 = Some (cl_test_client\<lparr>connected := True, buf_event := 200\<rparr>)" "bev_arg cl_test_up = [200 \<mapsto> 100]"
  "trans cl_test_up = cl_test_tc\<lparr>tc_calls := [Sink_Connected 3 1 cl_test_peer No_Data]\<rparr>"
  "cl_codec cl_test_up = cl_test_codec" "cl_static cl_test_up = None"
  "recved_data (cl_test_client\<lparr>connected := True, buf_event := 200\<rparr>) = []" "polite cl_test_env w" "cl_readable cl_test_env"
  "modest cl_test_env"
  by (simp_all add: cl_test_up_def cl_test_waiting_def cl_init_def cl_test_client_def client_new_def polite_def cl_test_env_def
      cl_readable_def modest_def)

theorem client_tables_safe_witness:
  "client_map cl_test_up cl_test_peer = Some 100 \<and> bev_arg cl_test_up 200 = Some 100 \<and>
   (\<exists>w'. cl_read_callback cl_test_env 200 [0, 0, 0, 12, 1] True cl_test_up = Inr w')"
proof -
  let ?c = "cl_test_client\<lparr>connected := True, buf_event := 200\<rparr>"
  have "cl_peer ?c = cl_test_peer" "connected ?c" "buf_event ?c = 200" by (simp_all add: cl_test_client_def client_new_def)
  moreover note s = client_tables_safe[OF cl_test_reach(2), of cl_test_env "cl_test_event True" 0 "[0, 0, 0, 12, 1]" True]
  moreover have "bev_arg cl_test_up 200 = Some 100" by (simp add: cl_test_simps)
  ultimately show ?thesis using cl_test_simps(1,7,8) by metis
qed

end
