(* ===== verification/Client_Stream.thy ===== *)
theory Client_Stream
  imports Client_Inv Proto_Stream
begin

text \<open>
  What a client of \<^verbatim>\<open>Client_Center\<close> does with a stream of responses and notifications, with
  requests made before it is connected, and how it can get stuck.
\<close>

subsection \<open>A stream of responses\<close>

text \<open>The callbacks of a bufferevent, one chunk after the other.\<close>

fun read_all :: "ptr \<Rightarrow> (cl_env \<times> bytes) list \<Rightarrow> cl_world \<Rightarrow> cl_fault + cl_world" where
  "read_all b [] w = Inr w"
| "read_all b ((e, x) # chunks) w = and_then (cl_read_callback e b x True w) (read_all b chunks)"

text \<open>
  The messages \<open>ms\<close> have been handled, \<open>part\<close> is what is left of the data: their calls have been made,
  and only their transactions are over.
\<close>

definition rsp_handled :: "cl_world \<Rightarrow> ptr \<Rightarrow> client \<Rightarrow> bytes \<Rightarrow> msg list \<Rightarrow> cl_world \<Rightarrow> bool" where
  "rsp_handled w p c part ms w' \<longleftrightarrow> cl_inv {} w' \<and> cl_codec w' = cl_codec w \<and>
     max_total (cl_codec w) (cl_static w') = max_total (cl_codec w) (cl_static w) \<and> bev_arg w' = bev_arg w \<and>
     (\<forall>e. polite e w' = polite e w) \<and>
     (\<exists>c'. clients w' p = Some c' \<and> cl_peer c' = cl_peer c \<and> nfy_sink_set c' = nfy_sink_set c \<and> recved_data c' = part) \<and>
     sink_calls w' = sink_calls w @ concat (map (msg_calls w c) ms) \<and>
     trans_hash_map (trans w) |` (- (\<Union>m \<in> set ms. ended_ids m)) \<subseteq>\<^sub>m trans_hash_map (trans w')"

definition expected :: "cl_world \<Rightarrow> msg \<Rightarrow> bool" where
  "expected w m \<longleftrightarrow> sendable (cl_codec w) (cl_static w) (snd m) \<and> known w m"

text \<open>No two of the messages end the same transaction.\<close>

fun separate :: "msg list \<Rightarrow> bool" where
  "separate [] = True"
| "separate (m # ms) = ((\<forall>n \<in> set ms. ended_ids m \<inter> ended_ids n = {}) \<and> separate ms)"

lemma separate_append: "separate (ms @ ns) \<longleftrightarrow>
    separate ms \<and> separate ns \<and> (\<forall>m \<in> set ms. \<forall>n \<in> set ns. ended_ids m \<inter> ended_ids n = {})"
  by (induction ms) auto

lemma set_client_polite:
  assumes "clients w p = Some c"
  shows "polite e (set_client p c' w) = polite e w"
proof -
  have "op_polite (set_client p c' w) x = op_polite w x" for x using assms by (cases x) simp_all
  then show ?thesis by (simp add: polite_def cong: list.pred_cong)
qed

lemma handled_kept:
  assumes h: "rsp_handled w p c part ms w'" and c': "clients w' p = Some c'"
    and n: "\<forall>m \<in> set ms. ended_ids m \<inter> ended_ids n = {}" "known w n"
  shows "known w' n" "msg_calls w' c' n = msg_calls w c n"
proof -
  have eq: "cl_peer c' = cl_peer c" "nfy_sink_set c' = nfy_sink_set c" using h c' by (auto simp: rsp_handled_def)
  show "known w' n"
  proof (cases "passback (fst n) = NFY_PASSBACK")
    case False
    let ?i = "sint (passback (fst n))"
    from n False obtain t where t: "trans_hash_map (trans w) ?i = Some t" by (auto simp: known_def get_trans_ctx_def)
    have "?i \<notin> (\<Union>m \<in> set ms. ended_ids m)" using n(1) False by (auto simp: ended_ids_def)
    with t h have "trans_hash_map (trans w') ?i = Some t"
      unfolding rsp_handled_def map_le_def by (metis (no_types, lifting) ComplI domI restrict_in)
    then show ?thesis by (simp add: known_def get_trans_ctx_def)
  qed (simp add: known_def)
  show "msg_calls w' c' n = msg_calls w c n"
  proof (cases "passback (fst n) = NFY_PASSBACK")
    case False
    let ?i = "sint (passback (fst n))"
    from n False obtain t where t: "trans_hash_map (trans w) ?i = Some t" by (auto simp: known_def get_trans_ctx_def)
    have "?i \<notin> (\<Union>m \<in> set ms. ended_ids m)" using n(1) False by (auto simp: ended_ids_def)
    with t h have "trans_hash_map (trans w') ?i = Some t"
      unfolding rsp_handled_def map_le_def by (metis (no_types, lifting) ComplI domI restrict_in)
    with t False eq show ?thesis by (simp add: msg_calls_def get_trans_ctx_def)
  qed (simp add: msg_calls_def eq)
qed

lemma handled_append:
  assumes h1: "rsp_handled w p c part ms w1" and c1: "clients w1 p = Some c1" and h2: "rsp_handled w1 p c1 part' ns w2"
    and sep: "\<forall>m \<in> set ms. \<forall>n \<in> set ns. ended_ids m \<inter> ended_ids n = {}" and k: "\<forall>n \<in> set ns. known w n"
  shows "rsp_handled w p c part' (ms @ ns) w2"
proof -
  have "map (msg_calls w1 c1) ns = map (msg_calls w c) ns"
    using handled_kept(2)[OF h1 c1] sep k by simp
  then have "concat (map (msg_calls w1 c1) ns) = concat (map (msg_calls w c) ns)" by (rule arg_cong)
  moreover have "trans_hash_map (trans w) |` (- (\<Union>m \<in> set (ms @ ns). ended_ids m)) \<subseteq>\<^sub>m trans_hash_map (trans w2)"
    unfolding map_le_def
  proof
    fix i assume i: "i \<in> dom (trans_hash_map (trans w) |` (- (\<Union>m \<in> set (ms @ ns). ended_ids m)))"
    then obtain t where t: "trans_hash_map (trans w) i = Some t" "i \<notin> (\<Union>m \<in> set ms. ended_ids m)" "i \<notin> (\<Union>m \<in> set ns. ended_ids m)"
      by (auto simp: restrict_map_def split: if_splits)
    then have "trans_hash_map (trans w1) i = Some t"
      using h1 unfolding rsp_handled_def map_le_def by (metis (no_types, lifting) ComplI domI restrict_in)
    then have "trans_hash_map (trans w2) i = Some t"
      using h2 t unfolding rsp_handled_def map_le_def by (metis (no_types, lifting) ComplI domI restrict_in)
    with t show "(trans_hash_map (trans w) |` (- (\<Union>m \<in> set (ms @ ns). ended_ids m))) i = trans_hash_map (trans w2) i"
      by (auto simp: restrict_map_def)
  qed
  moreover have "cl_peer c1 = cl_peer c" "nfy_sink_set c1 = nfy_sink_set c" using h1 c1 by (auto simp: rsp_handled_def)
  ultimately show ?thesis using h1 h2 by (simp add: rsp_handled_def)
qed

lemma length_frame: "length (frame ctx m) = 16 + length (snd m)"
  by (simp add: frame_def)

text \<open>One whole message at the head of the data.\<close>

lemma read_one:
  assumes inv: "cl_inv {} w" and c: "clients w p = Some c" and e: "polite e w" "modest e"
    and m: "expected w m"
  obtains w1 where "rsp_handled w p c rest [m] w1"
    "cl_read_loop e p (frame (cl_codec w) m @ rest) w = (if rest = [] then Inr w1 else cl_read_loop e p rest w1)"
proof -
  let ?f = "frame (cl_codec w) m" and ?n = "12 + length (snd m)"
  let ?mt = "max_total (cl_codec w) (cl_static w)"
  have s: "sendable (cl_codec w) (cl_static w) (snd m)" "known w m" using m by (simp_all add: expected_def)
  have whole: "is_whole_msg (cl_codec w) (cl_static w) ((?f @ rest) @ 0 # cl_behind e (?f @ rest)) (length (?f @ rest)) =
      (Some ?mt, Whole ?n)"
    using is_whole_frame[OF s(1), of "fst m" "rest @ 0 # cl_behind e (?f @ rest)"] by (simp add: frame_def)
  have dec: "decode_msg (cl_codec w) (drop 4 (?f @ rest)) ?n = Decoded (fst m) (snd m)"
    using decode_rest[of "cl_codec w" "fst m" "snd m" rest] by (simp add: frame_def msg_frame_def)
  let ?w0 = "w\<lparr>cl_static := Some ?mt\<rparr>"
  have w0: "cl_inv {} ?w0" "clients ?w0 p = Some c" "polite e ?w0" "known ?w0 m" "msg_calls ?w0 c m = msg_calls w c m"
    using inv c e s by (simp_all add: known_def msg_calls_def)
  from on_message_ok[OF w0(1-3), of m] obtain w1 where w1: "on_message e p c (fst m) (snd m) ?w0 = Inr (True, w1)" "cl_inv {} w1"
    "called (msg_calls w c m) ?w0 w1" "trans_hash_map (trans w) |` (- ended_ids m) \<subseteq>\<^sub>m trans_hash_map (trans w1)"
    using e(2) w0(4,5) by auto
  obtain c1 where c1: "clients w1 p = Some c1" "same_client c c1" by (rule called_client[OF w1(3) w0(2)])
  let ?w2 = "set_client p (c1\<lparr>recved_data := rest\<rparr>) w1"
  note s1 = called_simps[OF w1(3)]
  have "filter (\<lambda>v. \<not> is_written v) (msg_calls w c m) = msg_calls w c m"
    by (auto simp: msg_calls_def split: option.splits intro!: filter_True)
  then have sc: "sink_calls ?w2 = sink_calls w @ msg_calls w c m" using s1(1) by (simp add: sink_calls_def)
  have "polite e' ?w2 = polite e' w" for e'
    using set_client_polite[OF c1(1)] called_simps(6)[OF w1(3), of e'] by simp
  moreover have "cl_inv {} ?w2" by (rule put_data_inv[OF w1(2) c1(1)])
  ultimately have h: "rsp_handled w p c rest [m] ?w2"
    using sc s1 w1(4) c1(2) by (simp add: rsp_handled_def same_client_def)
  have "cl_read_loop e p (?f @ rest) w = (if rest = [] then Inr ?w2 else cl_read_loop e p rest ?w2)"
    unfolding cl_read_loop.simps[of e p "?f @ rest" w] whole Let_def prod.case whole_check.case
    using dec w0(2) w1(1) c1(1) by (simp add: length_frame put_data_def)
  with h that show ?thesis by blast
qed

text \<open>The data end in an incomplete message.\<close>

definition cl_incomplete :: "cl_world \<Rightarrow> bytes \<Rightarrow> bool" where
  "cl_incomplete w part \<longleftrightarrow> part = [] \<or>
     4 \<le> length part \<and> (\<exists>m q. frame (cl_codec w) m = part @ q \<and> q \<noteq> [] \<and> sendable (cl_codec w) (cl_static w) (snd m))"

lemma read_part:
  assumes "cl_incomplete w part" "part \<noteq> []"
  shows "cl_read_loop e p part w = Inr (w\<lparr>cl_static := Some (max_total (cl_codec w) (cl_static w))\<rparr>)"
proof -
  from assms obtain m q where m: "frame (cl_codec w) m = part @ q" "q \<noteq> []" "4 \<le> length part"
    "sendable (cl_codec w) (cl_static w) (snd m)" by (auto simp: cl_incomplete_def)
  have len: "length part < 16 + length (snd m)"
    using arg_cong[OF m(1), of length] m(2) by (simp add: frame_def)
  have rd: "rd32 (part @ 0 # cl_behind e part) = Some (of_nat (12 + length (snd m)))"
    using rd32_append[OF m(3)] rd32_frame[of "cl_codec w" "fst m" "snd m" "[]"] m(1)
    by (metis append_Nil2 frame_def)
  show ?thesis
    using m(4) len
    by (simp add: cl_read_loop.simps[of e p part w] is_whole_msg_alt[OF rd] sendable_def unat_of_nat32 del: of_nat_add)
qed

lemma handled_cfg:
  assumes "rsp_handled w p c part ms w'"
  shows "cl_inv {} w'" "cl_codec w' = cl_codec w" "bev_arg w' = bev_arg w" "polite e w' = polite e w"
    "sendable (cl_codec w) (cl_static w') x = sendable (cl_codec w) (cl_static w) x"
  using assms by (simp_all add: rsp_handled_def sendable_def)

lemma cl_read_loop_msgs:
  assumes "cl_inv {} w" "clients w p = Some c" "recved_data c = d" "polite e w" "modest e"
    and "\<forall>m \<in> set ms. expected w m" "separate ms" "cl_incomplete w part"
    and "d = concat (map (frame (cl_codec w)) ms) @ part" "d \<noteq> []"
  shows "\<exists>w'. cl_read_loop e p d w = Inr w' \<and> rsp_handled w p c part ms w'"
  using assms
proof (induction ms arbitrary: w c d)
  case Nil
  let ?w = "w\<lparr>cl_static := Some (max_total (cl_codec w) (cl_static w))\<rparr>"
  have "rsp_handled w p c part [] ?w"
    using Nil.prems by (simp add: rsp_handled_def sink_calls_def map_le_def restrict_map_def)
  moreover have "cl_read_loop e p d w = Inr ?w" using Nil.prems read_part by simp
  ultimately show ?case by blast
next
  case (Cons m ms)
  note inv = Cons.prems(1) and c = Cons.prems(2)
  let ?rest = "concat (map (frame (cl_codec w)) ms) @ part"
  have m: "expected w m" using Cons.prems(6) by simp
  obtain w1 where w1: "rsp_handled w p c ?rest [m] w1"
    "cl_read_loop e p (frame (cl_codec w) m @ ?rest) w = (if ?rest = [] then Inr w1 else cl_read_loop e p ?rest w1)"
    by (rule read_one[OF inv c Cons.prems(4,5) m])
  from w1(1) obtain c1 where c1: "clients w1 p = Some c1" "recved_data c1 = ?rest" by (auto simp: rsp_handled_def)
  note cfg = handled_cfg[OF w1(1)]
  have sep: "\<forall>n \<in> set ms. ended_ids m \<inter> ended_ids n = {}" "separate ms" "\<forall>n \<in> set ms. known w n"
    using Cons.prems(6,7) by (simp_all add: expected_def)
  have d: "d = frame (cl_codec w) m @ ?rest" using Cons.prems(9) by simp
  show ?case
  proof (cases "?rest = []")
    case True
    then have "ms = []" "part = []" by (cases ms; simp add: frame_nonempty)+
    with w1 d show ?thesis by simp
  next
    case False
    have "\<forall>n \<in> set ms. expected w1 n"
      using Cons.prems(6) handled_kept(1)[OF w1(1) c1(1)] sep by (simp add: expected_def cfg)
    moreover have "cl_incomplete w1 part" using Cons.prems(8) by (simp add: cl_incomplete_def cfg)
    moreover have "?rest = concat (map (frame (cl_codec w1)) ms) @ part" by (simp add: cfg(2))
    ultimately obtain w2 where w2: "cl_read_loop e p ?rest w1 = Inr w2" "rsp_handled w1 p c1 part ms w2"
      using Cons.IH[OF cfg(1) c1 _ Cons.prems(5) _ sep(2) _ _ False] Cons.prems(4) cfg(4) by blast
    have "rsp_handled w p c part ([m] @ ms) w2"
      using handled_append[OF w1(1) c1(1) w2(2)] sep by simp
    with w1(2) w2(1) False d show ?thesis by auto
  qed
qed

lemma read_chunk:
  assumes inv: "cl_inv {} w" and b: "bev_arg w b = Some p" and c: "clients w p = Some c"
    and e: "polite e w" "modest e" and ex: "\<forall>m \<in> set ms. expected w m" and sep: "separate ms"
    and stream: "recved_data c @ x @ later = concat (map (frame (cl_codec w)) ms)"
    and cuts: "clean_cuts (map (\<lambda>m. length (frame (cl_codec w) m)) ms) (length (recved_data c)) (x # ys)"
  obtains ms1 ms2 part w' where "ms = ms1 @ ms2" "cl_read_callback e b x True w = Inr w'" "rsp_handled w p c part ms1 w'"
    "part @ later = concat (map (frame (cl_codec w)) ms2)"
    "clean_cuts (map (\<lambda>m. length (frame (cl_codec w) m)) ms2) (length part) ys"
    "later = [] \<longrightarrow> part = [] \<and> ms2 = []"
proof -
  let ?d = "recved_data c @ x" and ?f = "frame (cl_codec w)"
  let ?lens = "map (\<lambda>m. length (?f m))"
  have "?d @ later = concat (map ?f ms)" using stream by simp
  then obtain ms1 ms2 part where cut: "ms = ms1 @ ms2" "?d = concat (map ?f ms1) @ part"
    "length part = cut_rest (?lens ms) (length ?d)"
    "part \<noteq> [] \<longrightarrow> (\<exists>m ms3 q. ms2 = m # ms3 \<and> ?f m = part @ q \<and> q \<noteq> [])"
    "part @ later = concat (map ?f ms2)" by (rule cut_stream)
  from cuts have x: "x \<noteq> []" "length part = 0 \<or> 4 \<le> length part" "clean_cuts (?lens ms) (length ?d) ys"
    by (auto simp: cut(3) Let_def)
  let ?w0 = "set_client p (c\<lparr>recved_data := ?d\<rparr>) w"
  have w0: "cl_inv {} ?w0" "polite e ?w0" using put_data_inv[OF inv c] set_client_polite[OF c] e by simp_all
  have same: "known ?w0 m = known w m" "msg_calls ?w0 (c\<lparr>recved_data := ?d\<rparr>) m = msg_calls w c m"
    "expected ?w0 m = expected w m" for m
    by (simp_all add: known_def msg_calls_def expected_def split: option.splits)
  have inc: "cl_incomplete ?w0 part" using x(2) cut(1,4) ex by (fastforce simp: cl_incomplete_def expected_def)
  have c0: "clients ?w0 p = Some (c\<lparr>recved_data := ?d\<rparr>)" by simp
  have m1: "\<forall>m \<in> set ms1. expected ?w0 m" "separate ms1" using ex sep by (auto simp: cut(1) same separate_append)
  have d: "?d = concat (map (frame (cl_codec ?w0)) ms1) @ part" "?d \<noteq> []" using cut(2) x(1) by (simp, blast)
  have "recved_data (c\<lparr>recved_data := ?d\<rparr>) = ?d" by simp
  from cl_read_loop_msgs[OF w0(1) c0 this w0(2) e(2) m1 inc d] obtain w' where w': "cl_read_loop e p ?d ?w0 = Inr w'" "rsp_handled ?w0 p (c\<lparr>recved_data := ?d\<rparr>) part ms1 w'" by blast
  have "rsp_handled w p c part ms1 w'"
    using w'(2) set_client_polite[OF c] same(2) by (simp add: rsp_handled_def sink_calls_def cong: map_cong)
  moreover have "cl_read_callback e b x True w = Inr w'" using w'(1) b c x(1) by (simp add: cl_read_callback_def Let_def)
  moreover have "sum_list (?lens ms1) + length part = length ?d" using cut(2) by (simp add: length_concat comp_def)
  then have "clean_cuts (?lens ms2) (length part) ys"
    using x(3) clean_cuts_shift[of "?lens ms1" "?lens ms2" "length part"] cut(1) by simp
  moreover have "part = []" if "later = []"
  proof (rule ccontr)
    assume "part \<noteq> []"
    with cut(4) obtain m ms3 q where m: "ms2 = m # ms3" "?f m = part @ q" "q \<noteq> []" by blast
    from cut(5) that have "part = part @ q @ concat (map ?f ms3)" unfolding m(1) by (simp add: m(2))
    with m(3) show False by simp
  qed
  moreover have "ms2 = []" if "part = []" "later = []"
    using cut(5) that by (cases ms2) (simp_all add: frame_nonempty)
  ultimately show ?thesis using that cut(1,5) by blast
qed

lemma read_all_msgs:
  assumes "cl_inv {} w" "bev_arg w b = Some p" "clients w p = Some c"
    and "\<forall>(e, x) \<in> set chunks. polite e w \<and> modest e" "\<forall>m \<in> set ms. expected w m" "separate ms"
    and "recved_data c @ concat (map snd chunks) = concat (map (frame (cl_codec w)) ms)"
    and "clean_cuts (map (\<lambda>m. length (frame (cl_codec w) m)) ms) (length (recved_data c)) (map snd chunks)"
    and "chunks \<noteq> []"
  shows "\<exists>w'. read_all b chunks w = Inr w' \<and> rsp_handled w p c [] ms w'"
  using assms
proof (induction chunks arbitrary: w c ms)
  case (Cons ch chunks)
  note inv = Cons.prems(1) and b = Cons.prems(2) and c = Cons.prems(3)
  obtain e x where ch: "ch = (e, x)" by (cases ch)
  obtain ms1 ms2 part w1 where cut: "ms = ms1 @ ms2" "cl_read_callback e b x True w = Inr w1" "rsp_handled w p c part ms1 w1"
    "part @ concat (map snd chunks) = concat (map (frame (cl_codec w)) ms2)"
    "clean_cuts (map (\<lambda>m. length (frame (cl_codec w) m)) ms2) (length part) (map snd chunks)"
    "concat (map snd chunks) = [] \<longrightarrow> part = [] \<and> ms2 = []"
    by (rule read_chunk[OF inv b c, of e ms x "concat (map snd chunks)" "map snd chunks"])
      (use Cons.prems(4-8) in \<open>simp_all add: ch\<close>)
  from cut(3) obtain c1 where c1: "clients w1 p = Some c1" "recved_data c1 = part" by (auto simp: rsp_handled_def)
  show ?case
  proof (cases "chunks = []")
    case True
    with cut ch show ?thesis by simp
  next
    case False
    note cfg = handled_cfg[OF cut(3)]
    have b1: "bev_arg w1 b = Some p" using b by (simp add: cfg)
    have sep: "\<forall>m \<in> set ms1. \<forall>n \<in> set ms2. ended_ids m \<inter> ended_ids n = {}" "separate ms2" "\<forall>n \<in> set ms2. known w n"
      using Cons.prems(5,6) cut(1) by (auto simp: separate_append expected_def)
    have "\<forall>n \<in> set ms2. expected w1 n"
      using Cons.prems(5) handled_kept(1)[OF cut(3) c1(1)] sep cut(1) by (auto simp: expected_def cfg)
    then have "\<exists>w'. read_all b chunks w1 = Inr w' \<and> rsp_handled w1 p c1 [] ms2 w'"
      by (intro Cons.IH[OF cfg(1) b1 c1(1)])
        (use Cons.prems(4) cut(4,5) c1(2) sep(2) False in \<open>simp_all add: cfg\<close>)
    then obtain w2 where w2: "read_all b chunks w1 = Inr w2" "rsp_handled w1 p c1 [] ms2 w2" by blast
    from handled_append[OF cut(3) c1(1) w2(2)] sep cut(1) w2(1) cut(2) ch show ?thesis by auto
  qed
qed simp

end
