(* ===== verification/Client_Still.thy ===== *)
theory Client_Still
  imports Client_Stream
begin

text \<open>
  What the steps of a thread leave as it was: a client is only changed by its own events, data and
  connect timer, and no other step makes a call for its server.
\<close>

subsection \<open>Steps of others\<close>

fun call_peer :: "cl_event \<Rightarrow> peer option" where
  "call_peer (Written _ _) = None"
| "call_peer (Rsp_Call _ _ q _ _ _) = Some q"
| "call_peer (Nfy_Call _ q _ _) = Some q"

definition calls_from :: "peer \<Rightarrow> cl_world \<Rightarrow> cl_event list" where
  "calls_from q w = filter (\<lambda>v. call_peer v = Some q) (cl_log w)"

lemma calls_from_sink: "calls_from q w = filter (\<lambda>v. call_peer v = Some q) (sink_calls w)"
proof -
  have "call_peer v = Some q \<longleftrightarrow> \<not> is_written v \<and> call_peer v = Some q" for v by (cases v) auto
  then show ?thesis unfolding calls_from_def sink_calls_def filter_filter by metis
qed

abbreviation cl_limit :: "cl_world \<Rightarrow> nat" where
  "cl_limit w \<equiv> max_total (cl_codec w) (cl_static w)"

text \<open>
  The client at \<open>p\<close> is as it was, as far as connection and received data go, or it is gone; no timer
  was set for it, and no call was made for the peer \<open>q\<close>.
\<close>

definition still :: "ptr \<Rightarrow> peer \<Rightarrow> cl_world \<Rightarrow> cl_world \<Rightarrow> bool" where
  "still p q w w' \<longleftrightarrow>
     (case clients w p of None \<Rightarrow> clients w' p = None
      | Some c \<Rightarrow> clients w' p = None \<or> (\<exists>c'. clients w' p = Some c' \<and> cl_peer c' = cl_peer c \<and>
          connected c' = connected c \<and> bufevent_set c' = bufevent_set c \<and> recved_data c' = recved_data c)) \<and>
     (p \<in> connect_timers w' \<longrightarrow> p \<in> connect_timers w) \<and> calls_from q w' = calls_from q w \<and> cl_codec w' = cl_codec w \<and>
     cl_limit w' = cl_limit w"

lemma still_refl: "still p q w w"
  by (simp add: still_def split: option.splits)

lemma still_trans:
  assumes "still p q w u" "still p q u v"
  shows "still p q w v"
  using assms unfolding still_def by (auto split: option.splits)

lemma still_same:
  "clients w' p = clients w p \<Longrightarrow> connect_timers w' \<subseteq> connect_timers w \<Longrightarrow> calls_from q w' = calls_from q w \<Longrightarrow>
   cl_codec w' = cl_codec w \<Longrightarrow> cl_limit w' = cl_limit w \<Longrightarrow> still p q w w'"
  by (auto simp: still_def split: option.splits)

lemma still_sent:
  assumes "sent_only w w'"
  shows "still p q w w'"
proof -
  have r: "rel_option same_client (clients w p) (clients w' p)" using assms by (simp add: sent_only_def)
  show ?thesis
  proof (cases "clients w p")
    case None
    with r assms show ?thesis by (auto simp: still_def calls_from_sink sent_only_def)
  next
    case (Some c)
    then obtain c' where "clients w' p = Some c'" "same_client c c'" using r by (auto simp: option_rel_Some1)
    with Some assms show ?thesis by (simp add: still_def calls_from_sink sent_only_def same_client_def)
  qed
qed

lemma still_remove: "remove_client r w = Inr w' \<Longrightarrow> still p q w w'"
  by (auto simp: remove_client_def still_def destroy_client_def calls_from_def split: option.splits if_splits)

lemma still_client_send:
  assumes "cl_inv {} w" "client_send e r head body len async w = Inr (i, w')"
  shows "still p q w w'"
proof (cases "clients w r")
  case None
  with assms(2) show ?thesis by (simp add: client_send_def)
next
  case (Some c)
  show ?thesis
    by (rule client_send_ok[OF assms(1) Some, of e head body len async]) (use assms(2) still_sent in simp_all)
qed

lemma still_op: "cl_inv {} w \<Longrightarrow> cl_run_op e x w = Inr w' \<Longrightarrow> still p q w w'"
proof (cases x)
  case (Do_Tc y)
  assume "cl_run_op e x w = Inr w'"
  with Do_Tc show ?thesis by (auto simp: calls_from_def intro!: still_same split: option.splits)
next
  case (Do_Send r head body async)
  assume "cl_inv {} w" "cl_run_op e x w = Inr w'"
  with Do_Send show ?thesis by (auto simp: and_then_Inr intro: still_client_send)
next
  case (Do_Close r)
  assume "cl_run_op e x w = Inr w'"
  with Do_Close show ?thesis by (auto simp: client_close_def intro: still_remove split: option.splits)
qed

lemma still_ops: "cl_inv {} w \<Longrightarrow> cl_run_ops e xs w = Inr w' \<Longrightarrow> still p q w w'"
proof (induction xs arbitrary: w)
  case (Cons x xs)
  then obtain w1 where w1: "cl_run_op e x w = Inr w1" "cl_run_ops e xs w1 = Inr w'" by (auto simp: and_then_Inr)
  from Cons.IH[OF cl_run_op_inv[OF Cons.prems(1) w1(1)] w1(2)] still_op[OF Cons.prems(1) w1(1)]
  show ?case by (rule still_trans[rotated])
qed (simp add: still_refl)

lemma still_call:
  assumes "cl_inv {} w" "cl_call e v w = Inr w'" "call_peer v \<noteq> Some q"
  shows "still p q w w'"
proof -
  let ?w = "w\<lparr>cl_log := cl_log w @ [v]\<rparr>"
  have "still p q w ?w" using assms(3) by (intro still_same) (simp_all add: calls_from_def)
  moreover have "still p q ?w w'" using assms by (intro still_ops[of ?w e "cl_react e v"]) (simp_all add: cl_call_def)
  ultimately show ?thesis by (rule still_trans)
qed

lemma still_nfy: "cl_inv {} w \<Longrightarrow> nfy_loop e r q' head body sks w = Inr w' \<Longrightarrow> q' \<noteq> q \<Longrightarrow> still p q w w'"
proof (induction sks arbitrary: w)
  case (Cons sk sks)
  then obtain w1 where w1: "cl_call e (Nfy_Call sk q' head body) w = Inr w1" "nfy_loop e r q' head body sks w1 = Inr w'"
    by (auto simp: and_then_Inr split: if_splits)
  have "still p q w w1" using still_call[OF Cons.prems(1) w1(1)] Cons.prems(3) by simp
  then show ?case using Cons.IH[OF cl_call_inv[OF Cons.prems(1) w1(1)] w1(2) Cons.prems(3)] by (rule still_trans)
qed (simp add: still_refl)

lemma still_message:
  assumes "cl_inv {} w" "on_message e r c head body w = Inr (go, w')" "cl_peer c \<noteq> q"
  shows "still p q w w'"
proof -
  have canc: "still p q u (u\<lparr>trans := tc\<rparr>)" for u tc by (intro still_same) (simp_all add: calls_from_def)
  show ?thesis
  proof (cases "passback head = NFY_PASSBACK")
    case True
    with assms show ?thesis by (auto simp: on_message_def and_then_Inr intro: still_nfy)
  next
    case False
    show ?thesis
    proof (cases "get_trans_ctx (sint (passback head)) (trans w)")
      case None
      with False assms show ?thesis by (simp add: on_message_def still_refl)
    next
      case (Some t)
      with False assms obtain w1 where w1: "w' = w1\<lparr>trans := cancel_trans (sint (passback head)) (trans w1)\<rparr>"
        "w1 = w \<or> (\<exists>b. cl_call e (Rsp_Call (tx_sink t) (sint (passback head)) (cl_peer c) (head\<lparr>passback := tx_passback t\<rparr>) body b) w = Inr w1)"
        by (auto simp: on_message_def and_then_Inr Let_def split: if_splits)
      have "still p q w w1" using w1(2) still_call[OF assms(1)] assms(3) still_refl by fastforce
      then show ?thesis unfolding w1(1) using canc by (rule still_trans)
    qed
  qed
qed

lemma still_set_client:
  assumes "r \<noteq> p"
  shows "still p q w (set_client r c w)"
  using assms by (intro still_same) (simp_all add: calls_from_def)

lemma still_put: "put_data r d w = Inr w' \<Longrightarrow> r \<noteq> p \<Longrightarrow> still p q w w'"
  by (auto simp: put_data_def still_set_client split: option.splits)

lemma still_error: "cl_inv {} w \<Longrightarrow> send_error e r err w = Inr w' \<Longrightarrow> still p q w w'"
  by (auto simp: send_error_def and_then_Inr intro: still_client_send)

lemma put_inv: "cl_inv {} w \<Longrightarrow> put_data r d w = Inr w' \<Longrightarrow> cl_inv {} w'"
  using put_data_inv by (auto simp: put_data_def split: option.splits)

lemma is_whole_limit: "is_whole_msg ctx st mem n = (st', chk) \<Longrightarrow> max_total ctx st' = max_total ctx st"
  by (auto simp: is_whole_msg_def max_total_def Let_def)

lemma still_read_loop:
  assumes "cl_inv {} w" "cl_read_loop e r d w = Inr w'" "r \<noteq> p" "\<forall>c. clients w r = Some c \<longrightarrow> cl_peer c \<noteq> q"
  shows "still p q w w'"
  using assms
proof (induction "length d" arbitrary: d w rule: less_induct)
  case less
  obtain stat chk where w: "is_whole_msg (cl_codec w) (cl_static w) (d @ 0 # cl_behind e d) (length d) = (stat, chk)"
    by fastforce
  let ?w0 = "w\<lparr>cl_static := stat\<rparr>"
  have inv0: "cl_inv {} ?w0" and s0: "still p q w ?w0"
    using less.prems(1) is_whole_limit[OF w] by (auto intro!: still_same simp: calls_from_def)
  note r = less.prems(2)[unfolded cl_read_loop.simps[of e r d w], unfolded w Let_def prod.case]
  show ?case
  proof (cases chk)
    case (Invalid_Len n)
    with r obtain w1 where w1: "put_data r [] ?w0 = Inr w1" "send_error e r MSG_ID_INVALID_MSG_LEN w1 = Inr w'"
      by (auto simp: and_then_Inr)
    from still_trans[OF s0 still_put[OF w1(1) less.prems(3)]] still_error[OF put_inv[OF inv0 w1(1)] w1(2)]
    show ?thesis by (rule still_trans)
  next
    case (Whole n)
    show ?thesis
    proof (cases "decode_msg (cl_codec w) (drop TOTAL_MSG_LEN_FIELD_LEN d) n")
      case (Decode_Error er)
      with r Whole have "send_error e r er ?w0 = Inr w'" by simp
      from still_trans[OF s0 still_error[OF inv0 this]] show ?thesis .
    next
      case (Decoded head body)
      with r Whole obtain c go w1 where m: "clients w r = Some c" "on_message e r c head body ?w0 = Inr (go, w1)"
        "(if \<not> go then Inr w1
          else if 0 < length d - 4 - n
          then and_then (put_data r (drop (4 + n) d) w1) (cl_read_loop e r (drop (4 + n) d)) else put_data r [] w1) = Inr w'"
        by (auto simp: and_then_Inr split: option.splits)
      have i1: "cl_inv {} w1" by (rule on_message_inv[OF inv0 m(2)])
      have s1: "still p q w w1"
        using still_trans[OF s0 still_message[OF inv0 m(2)]] less.prems(4) m(1) by simp
      have rr: "still r q' ?w0 w1 \<Longrightarrow> \<forall>c. clients w1 r = Some c \<longrightarrow> cl_peer c \<noteq> q" for q'
        using less.prems(4) m(1) by (auto simp: still_def)
      have "still r (Peer PEER_TYPE_MAX (CHR ''x'' # p_addr (cl_peer c)) 0) ?w0 w1"
        by (rule still_message[OF inv0 m(2)]) (cases "cl_peer c", auto)
      from rr[OF this] have pe: "\<forall>c. clients w1 r = Some c \<longrightarrow> cl_peer c \<noteq> q" .
      have "still p q w w'" if "0 < length d - 4 - n" "put_data r (drop (4 + n) d) w1 = Inr u"
        "cl_read_loop e r (drop (4 + n) d) u = Inr w'" for u
      proof -
        have "still p q u w'"
          by (rule less.hyps[OF _ put_inv[OF i1 that(2)] that(3) less.prems(3)])
            (use that(1,2) pe in \<open>auto simp: put_data_def split: option.splits\<close>)
        with still_trans[OF s1 still_put[OF that(2) less.prems(3)]] show ?thesis by (rule still_trans)
      qed
      with m(3) s1 still_trans[OF s1 still_put[OF _ less.prems(3)]] show ?thesis
        by (auto simp: and_then_Inr split: if_splits)
    qed (use r Whole in simp)
  qed (use r s0 in auto)
qed

lemma still_removes: "remove_clients qs w = Inr w' \<Longrightarrow> still p q w w'"
  by (induction qs arbitrary: w) (auto simp: and_then_Inr intro: still_refl still_trans still_remove)

lemma still_shut: "tell_shut e r ks w = Inr w' \<Longrightarrow> still p q w w'"
  by (induction ks arbitrary: w)
    (auto simp: and_then_Inr intro: still_refl still_trans still_removes split: if_splits)

lemma still_set_connected:
  assumes inv: "flag \<longrightarrow> cl_inv {} w" and s: "set_connected e r flag b w = Inr w'" "r \<noteq> p"
    and b: "\<forall>c. flag \<longrightarrow> clients w r = Some c \<longrightarrow> b \<in> bufevent_set c"
  shows "still p q w w'"
proof -
  from s(1) obtain c where c: "clients w r = Some c" by (auto simp: set_connected_def split: option.splits)
  have tc: "still p q u (u\<lparr>trans := tc\<rparr>)" for u tc by (intro still_same) (simp_all add: calls_from_def)
  have stop: "still p q u (stop_connect_timer r u)" for u
    by (intro still_same) (auto simp: stop_connect_timer_def calls_from_def)
  have start: "still p q u (snd (start_connect_timer e r u))" for u
    using s(2) by (auto simp: still_def start_connect_timer_def calls_from_def split: option.splits)
  have rem: "still p q w w'" if "remove_client (cl_peer c) u = Inr w'" "still p q w u" for u
    using still_trans[OF that(2) still_remove[OF that(1)]] .
  show ?thesis
  proof (cases "(\<not> flag \<and> interval_zero w) \<or> connected c = flag")
    case True
    with s c rem[OF _ still_refl] rem[OF _ still_set_client[OF s(2)]] still_refl still_set_client[OF s(2)] show ?thesis
      by (auto simp: set_connected_def Let_def split: if_splits)
  next
    case False
    let ?c = "c\<lparr>reconnect_failed_count := (if flag then 0 else reconnect_failed_count c), connected := flag, buf_event := b\<rparr>"
    let ?w = "set_client r ?c w"
    have s1: "still p q w ?w" by (rule still_set_client[OF s(2)])
    show ?thesis
    proof (cases flag)
      case True
      with False s c obtain w2 tc' ks where w2: "send_cache_msg e r (stop_connect_timer r ?w) = Inr w2"
        "tell_shut e r ks (w2\<lparr>trans := tc'\<rparr>) = Inr w'"
        by (auto simp: set_connected_def Let_def and_then_Inr)
      have inv': "cl_inv {} w" using inv True by simp
      have "cl_inv {} ?w"
        using cl_inv_client[OF inv' c] b True c by (intro set_client_inv[OF inv' c]) (simp_all add: client_ok_def sends_live_def)
      then have i: "cl_inv {} (stop_connect_timer r ?w)" by (rule timers_inv(1)) simp
      have "clients (stop_connect_timer r ?w) r = Some ?c" "connected ?c" using True by simp_all
      from send_cache_msg_ok[OF i this, of e] w2(1) have "sink_calls w2 = sink_calls ?w \<and> connect_timers w2 \<subseteq> connect_timers ?w \<and>
          clients w2 p = clients w p \<and> cl_codec w2 = cl_codec w \<and> cl_static w2 = cl_static w"
        using s(2) by (auto simp: stop_connect_timer_def sink_calls_def)
      then have "still p q ?w w2"
        using s(2) by (intro still_same) (simp_all add: calls_from_sink)
      from still_trans[OF still_trans[OF still_trans[OF s1 this] tc] still_shut[OF w2(2)]] show ?thesis .
    next
      case f: False
      with False s c obtain tc' ks v where v: "tell_shut e r ks (?w\<lparr>trans := tc'\<rparr>) = Inr v" "w' = snd (start_connect_timer e r v)"
        by (auto simp: set_connected_def Let_def and_then_Inr split: if_splits)
      from still_trans[OF still_trans[OF still_trans[OF s1 tc] still_shut[OF v(1)]] start] show ?thesis by (simp add: v(2))
    qed
  qed
qed


lemma still_connect:
  assumes "connect e r w = Inr (ret, w')" "r \<noteq> p"
  shows "still p q w w'"
  using assms by (auto simp: connect_def calls_from_def intro!: still_same split: option.splits)

lemma still_event:
  assumes inv: "cl_inv {} w" and b: "bev_arg w b = Some r" and s: "event_callback e b evt w = Inr w'" and r: "r \<noteq> p"
  shows "still p q w w'"
proof -
  from cl_inv_bev[OF inv b] obtain c where c: "clients w r = Some c" "b \<in> bufevent_set c" by blast
  let ?w = "set_client r (c\<lparr>bufevent_set := bufevent_set c - {b}\<rparr>) (w\<lparr>bev_arg := (bev_arg w)(b := None)\<rparr>)"
  have "still p q w ?w" using r by (intro still_same) (simp_all add: calls_from_def)
  then have down: "still p q w w'" if "set_connected e r False 0 ?w = Inr w'"
    by (rule still_trans[OF _ still_set_connected[OF _ that r]]) blast+
  have up: "still p q w w'" if "set_connected e r True b w = Inr w'"
    by (rule still_set_connected[OF _ that r]) (use inv c in auto)
  have "set_connected e r True b w = Inr w' \<or> set_connected e r False 0 ?w = Inr w' \<or> w' = w"
    using s by (simp add: event_callback_def b c split: if_split_asm)
  with up down still_refl show ?thesis by blast
qed

lemma still_read:
  assumes inv: "cl_inv {} w" and b: "bev_arg w b = Some r" and s: "cl_read_callback e b input drained w = Inr w'" and r: "r \<noteq> p"
    and q: "\<forall>c. clients w r = Some c \<longrightarrow> cl_peer c \<noteq> q"
  shows "still p q w w'"
proof -
  from cl_inv_bev[OF inv b] obtain c where c: "clients w r = Some c" by blast
  let ?w = "set_client r (c\<lparr>recved_data := recved_data c @ input\<rparr>) w"
  have "still p q w ?w" by (rule still_set_client[OF r])
  moreover have "still p q ?w w'" if "cl_read_loop e r (recved_data c @ input) ?w = Inr w'"
    by (rule still_read_loop[OF put_data_inv[OF inv c] that r]) (use q c in simp)
  ultimately show ?thesis
    using s b c still_refl still_trans by (auto simp: cl_read_callback_def Let_def split: if_splits)
qed

lemma still_create:
  assumes "create_client e r q' w = Inr (r', w')" "r \<noteq> p" "p \<noteq> 0"
  shows "still p q w w'"
proof -
  from assms(1) obtain ret w1 where w1: "connect e r (set_client r (client_new q') w) = Inr (ret, w1)"
    "w' = destroy_client r (w1\<lparr>client_map := (client_map w1)(q' := None)\<rparr>) \<or> w' = w1\<lparr>client_map := (client_map w1)(q' \<mapsto> r)\<rparr>"
    by (auto simp: create_client_def and_then_Inr split: if_splits)
  have "still p q w w1" using still_trans[OF still_set_client[OF assms(2)] still_connect[OF w1(1) assms(2)]] .
  moreover have "still p q w1 w'"
    using w1(2) assms(2) by (auto intro!: still_same simp: destroy_client_def calls_from_def split: option.splits)
  ultimately show ?thesis by (rule still_trans)
qed

lemma still_send_to_server:
  assumes inv: "cl_inv {} w" and r: "clients w r = None" "r \<noteq> 0" and f: "fresh_env e w"
    and s: "send_to_server e self r q' head body async w = Inr (i, w')" and p: "clients w p \<noteq> None"
  shows "still p q w w'"
proof -
  have rp: "r \<noteq> p" "p \<noteq> 0" using r p cl_inv_client(1)[OF inv] by (auto simp: client_ok_def)
  show ?thesis
  proof (cases "p_type q' = PEER_TYPE_PROTO_TCP \<and> get_client q' w = 0")
    case False
    with s still_refl still_client_send[OF inv] show ?thesis
      by (auto simp: send_to_server_def Let_def split: peer_type.splits)
  next
    case True
    then have q': "client_map w q' = None"
      using cl_inv_map[OF inv, of q'] cl_inv_client(1)[OF inv] by (cases "client_map w q'") (auto simp: get_client_def client_ok_def)
    obtain p' w1 where w1: "create_client e r q' w = Inr (p', w1)" "cl_inv {} w1"
      "p' = 0 \<or> (p' = r \<and> (\<exists>c. clients w1 r = Some c))" by (rule create_client_ok[OF inv r q' f])
    note s1 = still_create[OF w1(1) rp]
    show ?thesis
    proof (cases "p' = 0")
      case z: True
      with True s s1 w1(1) show ?thesis by (simp add: send_to_server_def)
    next
      case False
      with w1(3) obtain c where c: "p' = r" "clients w1 r = Some c" by blast
      let ?c = "snd (add_nfy_sink self c)"
      have "client_ok (bev_arg w1) r ?c" "sends_live ?c" "cl_peer ?c = cl_peer c" "bufevent_set ?c = bufevent_set c"
        using cl_inv_client(1,2)[OF w1(2) c(2)] by (simp_all add: add_nfy_sink_def client_ok_def sends_live_def)
      then have i: "cl_inv {} (set_client r ?c w1)" by (intro set_client_inv[OF w1(2) c(2)]) simp_all
      have "client_send e r head (Some body) (length body) async (set_client r ?c w1) = Inr (i, w')"
        using s True w1(1) c False by (simp add: send_to_server_def)
      from still_trans[OF still_trans[OF s1 still_set_client[OF rp(1)]] still_client_send[OF i this]] show ?thesis .
    qed
  qed
qed

text \<open>A step leaves a client still, or it is an event, data or the connect timer of this very client.\<close>

lemma step_cases:
  assumes inv: "cl_inv {} w" and c: "clients w p = Some c" and step: "cl_step w w'"
  obtains "still p (cl_peer c) w w'"
  | e b evt where "bev_arg w b = Some p" "b \<in> bufevent_set c" "event_callback e b evt w = Inr w'"
  | e b input drained where "bev_arg w b = Some p" "b \<in> bufevent_set c" "cl_read_callback e b input drained w = Inr w'"
  | e where "p \<in> connect_timers w" "cl_on_timer e p w = Inr w'" "fresh_env e w"
  using step
proof (cases rule: cl_step.cases)
  case (cl_send e r self q head body async i)
  then show thesis using still_send_to_server[OF inv] c that(1) by blast
next
  case (cl_event e b evt)
  then obtain r where b: "bev_arg w b = Some r" by (auto simp: event_callback_def split: option.splits)
  show thesis
  proof (cases "r = p")
    case True
    with b cl_event that(2) cl_inv_bev[OF inv b] c show thesis by auto
  next
    case False
    with still_event[OF inv b cl_event] that(1) show thesis by blast
  qed
next
  case (cl_read e b input drained)
  then obtain r where b: "bev_arg w b = Some r" by (auto simp: cl_read_callback_def split: option.splits)
  show thesis
  proof (cases "r = p")
    case True
    with b cl_read that(3) cl_inv_bev[OF inv b] c show thesis by auto
  next
    case False
    have "\<forall>d. clients w r = Some d \<longrightarrow> cl_peer d \<noteq> cl_peer c"
      using cl_inv_client(3)[OF inv] c False by (metis option.inject)
    with still_read[OF inv b cl_read False] that(1) show thesis by blast
  qed
next
  case (cl_timer e r)
  show thesis
  proof (cases "r = p")
    case True
    with cl_timer that(4) show thesis by blast
  next
    case False
    with cl_timer(3) that(1) still_connect show thesis by (auto simp: cl_on_timer_def and_then_Inr)
  qed
next
  case (cl_ops e xs)
  with still_ops[OF inv] that(1) show thesis by blast
next
  case (cl_expiry e ord)
  obtain tc where "cl_rsp_check e ord w = Inr (w\<lparr>trans := tc\<rparr>)" by (rule cl_rsp_check_ok[OF inv cl_expiry(1,2)])
  then have "w' = w\<lparr>trans := tc\<rparr>" using cl_expiry(3) by simp
  then have "still p (cl_peer c) w w'" by (intro still_same) (simp_all add: calls_from_def)
  then show thesis by (rule that(1))
qed

end
