(* ===== verification/Client_Stuck.thy ===== *)
theory Client_Stuck
  imports Client_Still
begin

text \<open>
  How a client of \<^verbatim>\<open>Client_Center\<close> gets stuck: on a response nobody waits for, and when its first
  connection attempt fails.
\<close>

subsection \<open>Steps of the client itself\<close>

text \<open>The received data of \<open>p\<close> stay as they are, or it is removed; no call is made for \<open>q\<close>.\<close>

definition data_kept :: "ptr \<Rightarrow> peer \<Rightarrow> cl_world \<Rightarrow> cl_world \<Rightarrow> bool" where
  "data_kept p q w w' \<longleftrightarrow> calls_from q w' = calls_from q w \<and> cl_codec w' = cl_codec w \<and> cl_limit w' = cl_limit w \<and>
     (clients w' p = None \<or> (\<exists>c c'. clients w p = Some c \<and> clients w' p = Some c' \<and> cl_peer c' = cl_peer c \<and>
        recved_data c' = recved_data c))"

lemma data_kept_refl: "data_kept p q w w"
  by (cases "clients w p") (simp_all add: data_kept_def)

lemma data_kept_trans: "data_kept p q w u \<Longrightarrow> data_kept p q u v \<Longrightarrow> clients w p \<noteq> None \<Longrightarrow> clients u p \<noteq> None \<Longrightarrow> data_kept p q w v"
  unfolding data_kept_def by fastforce

lemma still_kept: "still p q w w' \<Longrightarrow> data_kept p q w w'"
  unfolding still_def data_kept_def by (cases "clients w p") auto

lemma set_client_kept:
  "clients w p = Some c \<Longrightarrow> cl_peer d = cl_peer c \<Longrightarrow> recved_data d = recved_data c \<Longrightarrow> data_kept p q w (set_client p d w)"
  by (simp add: data_kept_def calls_from_def)

lemma own_set_connected:
  assumes inv: "flag \<longrightarrow> cl_inv {} w" and s: "set_connected e p flag b w = Inr w'" and c: "clients w p = Some c"
    and b: "flag \<longrightarrow> b \<in> bufevent_set c"
  shows "data_kept p q w w'"
proof (cases "(\<not> flag \<and> interval_zero w) \<or> connected c = flag")
  case True
  let ?w = "set_client p (c\<lparr>reconnect_failed_count := reconnect_failed_count c + 1\<rparr>) w"
  have "remove_client (cl_peer c) w = Inr w' \<or> w' = w \<or> remove_client (cl_peer c) ?w = Inr w' \<or> w' = ?w"
    using s True by (simp add: set_connected_def c Let_def split: if_split_asm)
  then consider "remove_client (cl_peer c) w = Inr w'" | "w' = w" | "remove_client (cl_peer c) ?w = Inr w'" | "w' = ?w"
    by blast
  then show ?thesis
  proof cases
    case 1
    then show ?thesis by (rule still_kept[OF still_remove])
  next
    case 3
    have "data_kept p q w ?w" by (rule set_client_kept[OF c]) simp_all
    then show ?thesis using still_kept[OF still_remove[OF 3]] by (rule data_kept_trans) (simp_all add: c)
  qed (simp_all add: data_kept_refl set_client_kept[OF c])
next
  case False
  let ?c = "c\<lparr>reconnect_failed_count := (if flag then 0 else reconnect_failed_count c), connected := flag, buf_event := b\<rparr>"
  let ?w = "set_client p ?c w"
  have w: "data_kept p q w ?w" by (rule set_client_kept[OF c]) simp_all
  show ?thesis
  proof (cases flag)
    case True
    with False s c obtain w2 tc' ks where w2: "send_cache_msg e p (stop_connect_timer p ?w) = Inr w2"
      "tell_shut e p ks (w2\<lparr>trans := tc'\<rparr>) = Inr w'"
      by (auto simp: set_connected_def Let_def and_then_Inr)
    have inv': "cl_inv {} w" using inv True by simp
    have "cl_inv {} ?w"
      using cl_inv_client[OF inv' c] b True c by (intro set_client_inv[OF inv' c]) (simp_all add: client_ok_def sends_live_def)
    then have i: "cl_inv {} (stop_connect_timer p ?w)" by (rule timers_inv(1)) simp
    have c2: "clients (stop_connect_timer p ?w) p = Some ?c" "connected ?c" using True by simp_all
    from send_cache_msg_ok[OF i c2, of e] w2(1) obtain K where K: "sink_calls w2 = sink_calls (stop_connect_timer p ?w)"
      "cl_codec w2 = cl_codec (stop_connect_timer p ?w)" "cl_static w2 = cl_static (stop_connect_timer p ?w)"
      "clients w2 p = Some (?c\<lparr>cache_ids := filter (\<lambda>i. i \<in> K) (cache_ids ?c), cache_msg_map := cache_msg_map ?c |` K\<rparr>)"
      by (metis fun_upd_same sum.inject(2))
    then have k: "data_kept p q ?w (w2\<lparr>trans := tc'\<rparr>)"
      by (simp add: data_kept_def calls_from_sink stop_connect_timer_def sink_calls_def)
    have "data_kept p q ?w w'"
      by (rule data_kept_trans[OF k still_kept[OF still_shut[OF w2(2)]]]) (simp_all add: K(4))
    with w show ?thesis by (rule data_kept_trans) (simp_all add: c)
  next
    case f: False
    with False s c obtain tc' ks v where v: "tell_shut e p ks (?w\<lparr>trans := tc'\<rparr>) = Inr v" "w' = snd (start_connect_timer e p v)"
      by (auto simp: set_connected_def Let_def and_then_Inr split: if_splits)
    have "data_kept p q ?w (?w\<lparr>trans := tc'\<rparr>)" by (simp add: data_kept_def calls_from_def)
    then have "data_kept p q ?w v"
      by (rule data_kept_trans[OF _ still_kept[OF still_shut[OF v(1)]]]) simp_all
    then have "data_kept p q ?w w'" by (auto simp: v(2) data_kept_def start_connect_timer_def calls_from_def)
    with w show ?thesis by (rule data_kept_trans) (simp_all add: c)
  qed
qed

lemma own_event:
  assumes inv: "cl_inv {} w" and b: "bev_arg w b = Some p" and c: "clients w p = Some c" and s: "event_callback e b evt w = Inr w'"
  shows "data_kept p q w w'"
proof -
  have bc: "b \<in> bufevent_set c" using cl_inv_bev[OF inv b] c by auto
  let ?c = "c\<lparr>bufevent_set := bufevent_set c - {b}\<rparr>"
  let ?w = "set_client p ?c (w\<lparr>bev_arg := (bev_arg w)(b := None)\<rparr>)"
  have c': "clients ?w p = Some ?c" by simp
  have "set_connected e p True b w = Inr w' \<or> set_connected e p False 0 ?w = Inr w' \<or> w' = w"
    using s by (simp add: event_callback_def b c split: if_split_asm)
  then consider "set_connected e p True b w = Inr w'" | "set_connected e p False 0 ?w = Inr w'" | "w' = w" by blast
  then show ?thesis
  proof cases
    case 1
    show ?thesis by (rule own_set_connected[OF _ 1 c]) (use inv bc in simp_all)
  next
    case 2
    have "data_kept p q w ?w" using c by (simp add: data_kept_def calls_from_def)
    moreover have "data_kept p q ?w w'" by (rule own_set_connected[OF _ 2 c']) simp_all
    ultimately show ?thesis by (rule data_kept_trans) (simp_all add: c)
  qed (simp add: data_kept_refl)
qed

subsection \<open>A response nobody waits for\<close>

definition msg_i :: "msg \<Rightarrow> int" where
  "msg_i m = sint (passback (fst m))"

text \<open>The client holds the response \<open>m\<close>, followed by \<open>suff\<close>; \<open>m\<close> has no transaction.\<close>

definition blocked :: "ptr \<Rightarrow> peer \<Rightarrow> msg_codec_ctx \<Rightarrow> msg \<Rightarrow> bytes \<Rightarrow> cl_world \<Rightarrow> bool" where
  "blocked p q ctx m suff w \<longleftrightarrow>
     cl_codec w = ctx \<and> sendable ctx (cl_static w) (snd m) \<and> passback (fst m) \<noteq> NFY_PASSBACK \<and>
     get_trans_ctx (msg_i m) (trans w) = None \<and>
     (\<exists>c rest. clients w p = Some c \<and> cl_peer c = q \<and> recved_data c = frame ctx m @ suff @ rest)"

lemma read_unknown:
  assumes s: "sendable (cl_codec w) (cl_static w) (snd m)" "passback (fst m) \<noteq> NFY_PASSBACK"
    "get_trans_ctx (msg_i m) (trans w) = None" and c: "clients w p = Some c"
  shows "cl_read_loop e p (frame (cl_codec w) m @ rest) w = Inr (w\<lparr>cl_static := Some (cl_limit w)\<rparr>)"
proof -
  let ?f = "frame (cl_codec w) m" and ?n = "12 + length (snd m)"
  have whole: "is_whole_msg (cl_codec w) (cl_static w) ((?f @ rest) @ 0 # cl_behind e (?f @ rest)) (length (?f @ rest)) =
      (Some (cl_limit w), Whole ?n)"
    using is_whole_frame[OF s(1), of "fst m" "rest @ 0 # cl_behind e (?f @ rest)"] by (simp add: frame_def)
  have dec: "decode_msg (cl_codec w) (drop 4 (?f @ rest)) ?n = Decoded (fst m) (snd m)"
    using decode_rest[of "cl_codec w" "fst m" "snd m" rest] by (simp add: frame_def msg_frame_def)
  show ?thesis
    unfolding cl_read_loop.simps[of e p "?f @ rest" w] whole Let_def prod.case whole_check.case
    using dec s c by (simp add: on_message_def msg_i_def)
qed

lemma sendable_limit: "max_total ctx st' = max_total ctx st \<Longrightarrow> sendable ctx st' body = sendable ctx st body"
  by (simp add: sendable_def)

text \<open>Data for a blocked client are appended to what it holds.\<close>

lemma blocked_read:
  assumes bl: "blocked p q ctx m suff w" and b: "bev_arg w b = Some p" and s: "cl_read_callback e b input drained w = Inr w'"
  shows "blocked p q ctx m suff w' \<and> calls_from q w' = calls_from q w"
proof -
  from bl have ctx: "ctx = cl_codec w" by (simp add: blocked_def)
  from bl obtain c rest where c: "clients w p = Some c" "cl_peer c = q" "recved_data c = frame (cl_codec w) m @ suff @ rest"
    and m: "sendable (cl_codec w) (cl_static w) (snd m)" "passback (fst m) \<noteq> NFY_PASSBACK" "get_trans_ctx (msg_i m) (trans w) = None"
    unfolding blocked_def ctx by blast
  let ?w = "set_client p (c\<lparr>recved_data := recved_data c @ input\<rparr>) w"
  have st: "max_total (cl_codec w) (Some (cl_limit w)) = cl_limit w" by (simp add: max_total_def)
  have "sendable (cl_codec ?w) (cl_static ?w) (snd m)" "get_trans_ctx (msg_i m) (trans ?w) = None"
    "clients ?w p = Some (c\<lparr>recved_data := recved_data c @ input\<rparr>)" using m by simp_all
  from read_unknown[OF this(1) m(2) this(2,3), of e "suff @ rest @ input"]
  have r: "cl_read_loop e p (recved_data c @ input) ?w = Inr (?w\<lparr>cl_static := Some (cl_limit w)\<rparr>)"
    unfolding c(3) by simp
  have "w' = w \<or> w' = ?w \<or> w' = ?w\<lparr>cl_static := Some (cl_limit w)\<rparr>"
    using s unfolding cl_read_callback_def b c(1) option.case Let_def r by (simp split: if_split_asm)
  moreover have "blocked p q ctx m suff ?w" using m c ctx by (simp add: blocked_def)
  moreover from this have "blocked p q ctx m suff (?w\<lparr>cl_static := Some (cl_limit w)\<rparr>)"
    using m(1) ctx sendable_limit[OF st] by (simp add: blocked_def)
  ultimately show ?thesis using bl by (auto simp: calls_from_def)
qed

lemma blocked_step:
  assumes inv: "cl_inv {} w" and bl: "blocked p q ctx m suff w" and st: "cl_step w w'"
    and there: "clients w' p \<noteq> None" "get_trans_ctx (msg_i m) (trans w') = None"
  shows "blocked p q ctx m suff w' \<and> calls_from q w' = calls_from q w"
proof -
  from bl obtain c where c: "clients w p = Some c" "cl_peer c = q" by (auto simp: blocked_def)
  have keep: ?thesis if k: "data_kept p q w w'"
  proof -
    have "max_total (cl_codec w) (cl_static w') = cl_limit w" using k unfolding data_kept_def by metis
    from sendable_limit[OF this] bl k there show ?thesis by (auto simp: blocked_def data_kept_def)
  qed
  from inv c(1) st show ?thesis
  proof (cases rule: step_cases)
    case 1
    with c(2) show ?thesis by (intro keep still_kept) simp
  next
    case (2 e b evt)
    from own_event[OF inv this(1) c(1) this(3)] show ?thesis by (rule keep)
  next
    case (3 e b input drained)
    from blocked_read[OF bl this(1,3)] show ?thesis .
  next
    case (4 e)
    then have "data_kept p q w w'"
      using c(1) by (auto simp: cl_on_timer_def and_then_Inr connect_def calls_from_def data_kept_def split: option.splits)
    then show ?thesis by (rule keep)
  qed
qed

text \<open>Steps that do not remove the client and do not open the transaction.\<close>

definition quiet_step :: "ptr \<Rightarrow> int \<Rightarrow> cl_world \<Rightarrow> cl_world \<Rightarrow> bool" where
  "quiet_step p i u v \<longleftrightarrow> cl_step u v \<and> clients v p \<noteq> None \<and> get_trans_ctx i (trans v) = None"

lemma blocked_steps:
  assumes "(quiet_step p (msg_i m))\<^sup>*\<^sup>* w w'" "cl_inv {} w" "blocked p q ctx m suff w"
  shows "cl_inv {} w' \<and> blocked p q ctx m suff w' \<and> calls_from q w' = calls_from q w"
  using assms
proof (induction rule: rtranclp_induct)
  case (step u v)
  with blocked_step[of u p q ctx m suff v] cl_step_inv[of u v] show ?case by (auto simp: quiet_step_def)
qed simp

text \<open>
  Claim C33: a response that comes too late blocks its client for good. When the transaction of a
  response is not known, the response stays at the head of the received data, and whatever is done
  after that, whatever arrives, and even when the connection is lost and made again, no sink is told
  of any response or notification of that server, as long as the client is not removed and the very
  id is not given out again; everything received piles up behind the response.
\<close>

theorem late_response_blocks:
  assumes "cl_reach w" "bev_arg w b = Some p" "clients w p = Some c" "recved_data c = []"
    and "sendable (cl_codec w) (cl_static w) (snd m)" "passback (fst m) \<noteq> NFY_PASSBACK"
    and "get_trans_ctx (msg_i m) (trans w) = None"
  shows "\<exists>w1. cl_read_callback e b (frame (cl_codec w) m @ suff) True w = Inr w1 \<and>
    (\<forall>w'. (quiet_step p (msg_i m))\<^sup>*\<^sup>* w1 w' \<longrightarrow> calls_from (cl_peer c) w' = calls_from (cl_peer c) w \<and>
       (\<exists>c' rest. clients w' p = Some c' \<and> recved_data c' = frame (cl_codec w) m @ suff @ rest))"
proof -
  let ?d = "frame (cl_codec w) m @ suff"
  let ?c = "c\<lparr>recved_data := ?d\<rparr>"
  let ?w = "(set_client p ?c w)\<lparr>cl_static := Some (cl_limit w)\<rparr>"
  note inv = cl_reach_inv[OF assms(1)]
  have d: "frame (cl_codec w) m \<noteq> []" by (rule frame_nonempty)
  have "sendable (cl_codec (set_client p ?c w)) (cl_static (set_client p ?c w)) (snd m)"
    "get_trans_ctx (msg_i m) (trans (set_client p ?c w)) = None" "clients (set_client p ?c w) p = Some ?c"
    using assms(5,7) by simp_all
  from read_unknown[OF this(1) assms(6) this(2,3), of e suff]
  have r: "cl_read_loop e p ?d (set_client p ?c w) = Inr ?w" by simp
  have rc: "cl_read_callback e b ?d True w = Inr ?w"
    unfolding cl_read_callback_def assms(2,3) option.case Let_def assms(4) append_Nil r using d by simp
  have i: "cl_inv {} ?w" using put_data_inv[OF inv assms(3)] by simp
  have "max_total (cl_codec w) (Some (cl_limit w)) = cl_limit w" by (simp add: max_total_def)
  from sendable_limit[OF this] assms(5-7) have bl: "blocked p (cl_peer c) (cl_codec w) m suff ?w" by (simp add: blocked_def)
  have calls: "calls_from q ?w = calls_from q w" for q by (simp add: calls_from_def)
  have "calls_from (cl_peer c) w' = calls_from (cl_peer c) w \<and>
      (\<exists>c' rest. clients w' p = Some c' \<and> recved_data c' = frame (cl_codec w) m @ suff @ rest)"
    if "(quiet_step p (msg_i m))\<^sup>*\<^sup>* ?w w'" for w'
  proof -
    from blocked_steps[OF that i bl] calls show ?thesis by (auto simp: blocked_def)
  qed
  with rc show ?thesis by blast
qed

theorem late_response_blocks_witness:
  "\<exists>w1. cl_read_callback cl_test_env 200 (frame cl_test_codec (\<lparr>passback = 9, msg_id = 5\<rparr>, [7]) @ [1, 2]) True cl_test_up = Inr w1 \<and>
    (\<forall>w'. (quiet_step 100 9)\<^sup>*\<^sup>* w1 w' \<longrightarrow> calls_from cl_test_peer w' = [])"
proof -
  let ?m = "(\<lparr>passback = 9, msg_id = 5\<rparr>, [7]) :: msg"
  have "sendable (cl_codec cl_test_up) (cl_static cl_test_up) (snd ?m)" "passback (fst ?m) \<noteq> NFY_PASSBACK" "msg_i ?m = 9"
    "get_trans_ctx 9 (trans cl_test_up) = None"
    by (simp_all add: cl_test_simps sendable_def max_total_def cl_test_codec_def msg_i_def get_trans_ctx_def cl_test_tc_def)
  moreover have "bev_arg cl_test_up 200 = Some 100" "cl_codec cl_test_up = cl_test_codec" by (simp_all add: cl_test_simps)
  moreover have "cl_peer (cl_test_client\<lparr>connected := True, buf_event := 200\<rparr>) = cl_test_peer"
    by (simp add: cl_test_client_def client_new_def)
  moreover have "calls_from q cl_test_up = []" for q
    by (simp add: calls_from_def cl_test_up_def)
  ultimately show ?thesis
    using late_response_blocks[OF cl_test_reach(2) _ cl_test_simps(1,6), of 200 ?m cl_test_env "[1, 2]"] by auto
qed

subsection \<open>The first connection attempt\<close>

text \<open>Not connected, without a bufferevent, and with no timer that would try again.\<close>

definition dead :: "ptr \<Rightarrow> cl_world \<Rightarrow> bool" where
  "dead p w \<longleftrightarrow> (\<exists>c. clients w p = Some c \<and> \<not> connected c \<and> bufevent_set c = {}) \<and> p \<notin> connect_timers w"

lemma dead_step:
  assumes inv: "cl_inv {} w" and d: "dead p w" and st: "cl_step w w'" and there: "clients w' p \<noteq> None"
  shows "dead p w'"
proof -
  from d obtain c where c: "clients w p = Some c" "\<not> connected c" "bufevent_set c = {}" "p \<notin> connect_timers w"
    by (auto simp: dead_def)
  from inv c(1) st show ?thesis
  proof (cases rule: step_cases)
    case 1
    with c there show ?thesis by (auto simp: still_def dead_def)
  qed (use c in simp_all)
qed

definition staying_step :: "ptr \<Rightarrow> cl_world \<Rightarrow> cl_world \<Rightarrow> bool" where
  "staying_step p u v \<longleftrightarrow> cl_step u v \<and> clients v p \<noteq> None"

lemma dead_steps:
  assumes "(staying_step p)\<^sup>*\<^sup>* w w'" "cl_inv {} w" "dead p w"
  shows "cl_inv {} w' \<and> dead p w'"
  using assms
proof (induction rule: rtranclp_induct)
  case (step u v)
  with dead_step[of u p v] cl_step_inv[of u v] show ?case by (auto simp: staying_step_def)
qed simp

text \<open>A request to a client that is not connected is not written, and gets an id unless ids run out or collide.\<close>

lemma send_unconnected:
  assumes "clients w p = Some c" "\<not> connected c" "client_send e p head body len async w = Inr (i, w')"
  shows "cl_log w' = cl_log w"
  using assms by (auto simp: client_send_def Let_def split: option.splits if_splits prod.splits)

text \<open>
  The first failure is final. When the first attempt to connect fails, with a reconnect
  interval that is not zero and a limit other than one, the client is not removed and nothing ever
  tries again: the connect timer is only started when a connection is lost that was there. The
  client stays without connection and without timer for as long as it is not removed, whatever is
  done, while requests to its server are still accepted and never written.
\<close>

theorem first_failure_is_final:
  assumes "cl_reach w" "clients w p = Some c" "\<not> connected c" "bufevent_set c = {b}" "p \<notin> connect_timers w"
    and "\<not> ev_connected evt" "ev_eof evt \<or> ev_error evt"
    and "\<not> interval_zero w" "reconnect_limit w \<noteq> reconnect_failed_count c + 1"
  shows "\<exists>w1. event_callback e b evt w = Inr w1 \<and>
    (\<forall>w'. (staying_step p)\<^sup>*\<^sup>* w1 w' \<longrightarrow>
       (\<exists>c'. clients w' p = Some c' \<and> \<not> connected c' \<and> p \<notin> connect_timers w' \<and> (\<forall>b'. bev_arg w' b' \<noteq> Some p)) \<and>
       (\<forall>e' head body len async i w''. client_send e' p head body len async w' = Inr (i, w'') \<longrightarrow> cl_log w'' = cl_log w'))"
proof -
  note inv = cl_reach_inv[OF assms(1)]
  let ?c = "c\<lparr>bufevent_set := {}, reconnect_failed_count := reconnect_failed_count c + 1\<rparr>"
  let ?w = "set_client p ?c (set_client p (c\<lparr>bufevent_set := {}\<rparr>) (w\<lparr>bev_arg := (bev_arg w)(b := None)\<rparr>))"
  have b: "bev_arg w b = Some p" using cl_inv_client(1)[OF inv assms(2)] assms(4) by (simp add: client_ok_def)
  have r: "event_callback e b evt w = Inr ?w"
    using b assms(2-4,6-9) by (auto simp: event_callback_def set_connected_def interval_zero_def Let_def)
  have i: "cl_inv {} ?w" by (rule event_callback_ok(1)[OF inv b r])
  have d: "dead p ?w" using assms(3,5) by (simp add: dead_def)
  have "(\<exists>c'. clients w' p = Some c' \<and> \<not> connected c' \<and> p \<notin> connect_timers w' \<and> (\<forall>b'. bev_arg w' b' \<noteq> Some p)) \<and>
      (\<forall>e' head body len async i w''. client_send e' p head body len async w' = Inr (i, w'') \<longrightarrow> cl_log w'' = cl_log w')"
    if "(staying_step p)\<^sup>*\<^sup>* ?w w'" for w'
  proof -
    from dead_steps[OF that i d] obtain c' where c': "cl_inv {} w'" "clients w' p = Some c'" "\<not> connected c'"
      "bufevent_set c' = {}" "p \<notin> connect_timers w'" by (auto simp: dead_def)
    moreover have "\<forall>b'. bev_arg w' b' \<noteq> Some p" using cl_inv_bev[OF c'(1)] c'(2,4) by fastforce
    ultimately show ?thesis using send_unconnected[OF c'(2,3)] by blast
  qed
  with r show ?thesis by blast
qed

theorem first_failure_is_final_witness:
  "\<exists>w1. event_callback cl_test_env 200 (cl_test_event False) cl_test_waiting = Inr w1 \<and>
    (\<forall>w'. (staying_step 100)\<^sup>*\<^sup>* w1 w' \<longrightarrow> (\<exists>c'. clients w' 100 = Some c' \<and> \<not> connected c' \<and> 100 \<notin> connect_timers w'))"
proof -
  let ?c = "cl_test_client\<lparr>cache_msg_map := [1 \<mapsto> cl_test_cached], cache_ids := [1]\<rparr>"
  have "clients cl_test_waiting 100 = Some ?c" "\<not> connected ?c" "bufevent_set ?c = {200}" "100 \<notin> connect_timers cl_test_waiting"
    "\<not> ev_connected (cl_test_event False)" "ev_eof (cl_test_event False) \<or> ev_error (cl_test_event False)"
    "\<not> interval_zero cl_test_waiting" "reconnect_limit cl_test_waiting \<noteq> reconnect_failed_count ?c + 1"
    by (simp_all add: cl_test_waiting_def cl_test_client_def client_new_def cl_init_def cl_test_event_def interval_zero_def)
  from first_failure_is_final[OF cl_test_reach(1) this, of cl_test_env] show ?thesis by metis
qed

end
