(* ===== verification/Client_Requests.thy ===== *)
theory Client_Requests
  imports Client_Still
begin

text \<open>
  What a client of \<^verbatim>\<open>Client_Center\<close> does with requests made before it is connected, with the
  responses to them, and with messages it cannot decode.
\<close>

subsection \<open>Requests\<close>

type_synonym request = "msg_head \<times> bytes \<times> async_ctx option"

text \<open>Requests one after the other, each in its own surroundings.\<close>

fun send_all :: "ptr \<Rightarrow> (cl_env \<times> request) list \<Rightarrow> cl_world \<Rightarrow> cl_fault + int list \<times> cl_world" where
  "send_all p [] w = Inr ([], w)"
| "send_all p ((e, head, body, async) # rs) w =
     and_then (client_send e p head (Some body) (length body) async w) (\<lambda>(i, w1).
       and_then (send_all p rs w1) (\<lambda>(ids, w2). Inr (i # ids, w2)))"

text \<open>The message a request becomes under its id.\<close>

definition request_msg :: "int \<Rightarrow> request \<Rightarrow> msg" where
  "request_msg i = (\<lambda>(head, body, async). (head\<lparr>passback := word_of_int i\<rparr>, body))"

text \<open>Memory for a frame is there.\<close>

definition cl_roomy :: "cl_env \<Rightarrow> bool" where
  "cl_roomy e \<longleftrightarrow> (\<forall>n. n \<le> length (cl_heap e n))"

lemma request_frame_frame:
  assumes "cl_roomy e"
  shows "request_frame e ctx i head (Some body) (length body) = frame ctx (request_msg i (head, body, async))"
proof -
  have "MIN_DATA_LEN + length body + 1 \<le> length (cl_heap e (MIN_DATA_LEN + length body + 1))"
    using assms by (simp add: cl_roomy_def)
  then show ?thesis by (simp add: request_frame_def request_msg_def frame_def encode_new_Some)
qed

text \<open>A request to a client that is not connected is kept under its id.\<close>

lemma client_send_kept:
  assumes "cl_inv {} w" "clients w p = Some c" "\<not> connected c" "client_send e p head (Some body) (length body) async w = Inr (i, w')"
    "i \<noteq> 0" "cl_roomy e"
  obtains tc where "i \<notin> set (cache_ids c)" "w' = (set_client p (c\<lparr>cache_msg_map := (cache_msg_map c)(i \<mapsto>
      \<lparr>cm_head = head\<lparr>passback := word_of_int i\<rparr>, cm_data = frame (cl_codec w) (request_msg i (head, body, async)),
       cm_retries = retries_of async\<rparr>), cache_ids := cache_ids c @ [i]\<rparr>) (w\<lparr>trans := tc\<rparr>))"
proof -
  from assms(4) assms(2) obtain j tc where r: "record_trans_ctx (cl_now e) (Some (request_ctx c head async)) (trans w) = Some (j, tc)"
    by (auto simp: client_send_def split: option.splits)
  have j: "j = i" "i \<notin> dom (cache_msg_map c)"
    using assms(2-5) r by (auto simp: client_send_def Let_def add_cache_msg_def split: if_splits)
  have "w' = (set_client p (c\<lparr>cache_msg_map := (cache_msg_map c)(i \<mapsto>
      \<lparr>cm_head = head\<lparr>passback := word_of_int i\<rparr>, cm_data = request_frame e (cl_codec w) i head (Some body) (length body),
       cm_retries = retries_of async\<rparr>), cache_ids := cache_ids c @ [i]\<rparr>) (w\<lparr>trans := tc\<rparr>))"
    using assms(2-5) r j by (simp add: client_send_def Let_def add_cache_msg_def)
  with that j(2) cl_inv_client(1)[OF assms(1,2)] show ?thesis
    by (simp add: client_ok_def request_frame_frame[OF assms(6), of _ _ _ _ async])
qed

lemma send_all_kept:
  assumes "cl_inv {} w" "clients w p = Some c" "\<not> connected c" "send_all p rs w = Inr (ids, w')" "0 \<notin> set ids"
    "\<forall>(e, r) \<in> set rs. cl_roomy e"
  shows "cl_inv {} w' \<and> cl_log w' = cl_log w \<and> cl_codec w' = cl_codec w \<and> bev_arg w' = bev_arg w \<and> length ids = length rs \<and>
    (\<exists>m. clients w' p = Some (c\<lparr>cache_msg_map := m, cache_ids := cache_ids c @ ids\<rparr>) \<and>
       cache_msg_map c \<subseteq>\<^sub>m m \<and>
       (\<forall>k < length ids. \<exists>cm. m (ids ! k) = Some cm \<and> cm_data cm = frame (cl_codec w) (request_msg (ids ! k) (snd (rs ! k)))))"
  using assms
proof (induction rs arbitrary: w c ids)
  case Nil
  then show ?case by (auto intro!: exI[of _ "cache_msg_map c"])
next
  case (Cons r rs)
  obtain e head body async where r: "r = (e, head, body, async)" by (cases r)
  from Cons.prems(4) obtain i w1 js where w1: "client_send e p head (Some body) (length body) async w = Inr (i, w1)"
    "send_all p rs w1 = Inr (js, w')" "ids = i # js" by (auto simp: r and_then_Inr)
  have i: "i \<noteq> 0" "0 \<notin> set js" "cl_roomy e" "\<forall>(e, r) \<in> set rs. cl_roomy e" using Cons.prems(5,6) w1(3) r by auto
  have inv1: "cl_inv {} w1"
    by (rule client_send_ok[OF Cons.prems(1,2), of e head "Some body" "length body" async]) (use w1(1) in simp_all)
  obtain tc where tc: "i \<notin> set (cache_ids c)" "w1 = (set_client p (c\<lparr>cache_msg_map := (cache_msg_map c)(i \<mapsto>
      \<lparr>cm_head = head\<lparr>passback := word_of_int i\<rparr>, cm_data = frame (cl_codec w) (request_msg i (head, body, async)),
       cm_retries = retries_of async\<rparr>), cache_ids := cache_ids c @ [i]\<rparr>) (w\<lparr>trans := tc\<rparr>))"
    by (rule client_send_kept[OF Cons.prems(1-3) w1(1) i(1,3)])
  let ?cm = "\<lparr>cm_head = head\<lparr>passback := word_of_int i\<rparr>, cm_data = frame (cl_codec w) (request_msg i (head, body, async)),
       cm_retries = retries_of async\<rparr>"
  let ?c = "c\<lparr>cache_msg_map := (cache_msg_map c)(i \<mapsto> ?cm), cache_ids := cache_ids c @ [i]\<rparr>"
  have c1: "clients w1 p = Some ?c" "cl_log w1 = cl_log w" "cl_codec w1 = cl_codec w" "bev_arg w1 = bev_arg w"
    by (simp_all add: tc(2))
  have "\<not> connected ?c" using Cons.prems(3) by simp
  from Cons.IH[OF inv1 c1(1) this w1(2) i(2,4)] obtain m where m: "cl_inv {} w'" "cl_log w' = cl_log w" "cl_codec w' = cl_codec w"
    "bev_arg w' = bev_arg w" "length js = length rs"
    "clients w' p = Some (c\<lparr>cache_msg_map := m, cache_ids := (cache_ids c @ [i]) @ js\<rparr>)"
    "(cache_msg_map c)(i \<mapsto> ?cm) \<subseteq>\<^sub>m m"
    "\<forall>k < length js. \<exists>cm. m (js ! k) = Some cm \<and> cm_data cm = frame (cl_codec w) (request_msg (js ! k) (snd (rs ! k)))"
    by (auto simp: c1 fun_upd_def)
  have mi: "m i = Some ?cm" using m(7) by (auto simp: map_le_def)
  have "i \<notin> dom (cache_msg_map c)" using tc(1) cl_inv_client(1)[OF Cons.prems(1,2)] by (simp add: client_ok_def)
  then have "cache_msg_map c \<subseteq>\<^sub>m m" using m(7) unfolding map_le_def by (metis domIff fun_upd_apply option.distinct(1))
  moreover have "\<exists>cm. m (ids ! k) = Some cm \<and> cm_data cm = frame (cl_codec w) (request_msg (ids ! k) (snd ((r # rs) ! k)))"
    if "k < length ids" for k
    using that m(8) mi by (cases k) (simp_all add: w1(3) r)
  ultimately show ?case using m w1(3) by auto
qed

text \<open>A new connection writes what has been kept.\<close>

lemma remove_clients_log: "remove_clients qs w = Inr w' \<Longrightarrow> cl_log w' = cl_log w"
  by (induction qs arbitrary: w)
    (auto simp: and_then_Inr remove_client_def destroy_client_def split: option.splits if_splits)

lemma tell_shut_log: "tell_shut e p ks w = Inr w' \<Longrightarrow> cl_log w' = cl_log w"
  by (induction ks arbitrary: w) (auto simp: and_then_Inr dest: remove_clients_log split: if_splits)

lemma connected_flush:
  assumes inv: "cl_inv {} w" and c: "clients w p = Some c" and con: "\<not> connected c" and b: "b \<in> bufevent_set c"
    and e: "\<forall>k. add_res e k" and evt: "ev_connected evt" and s: "event_callback e b evt w = Inr w'"
  shows "cl_log w' = cl_log w @ map (\<lambda>i. Written b (cm_data (the (cache_msg_map c i)))) (cache_ids c)"
    "spares_peer e (cl_peer c) \<Longrightarrow>
      \<exists>c'. clients w' p = Some c' \<and> connected c' \<and> buf_event c' = b \<and> cache_ids c' = [] \<and> cache_msg_map c' = Map.empty"
proof -
  note c' = cl_inv_client[OF inv c]
  have ba: "bev_arg w b = Some p" using c'(1) b by (simp add: client_ok_def)
  let ?c = "c\<lparr>reconnect_failed_count := 0, connected := True, buf_event := b\<rparr>"
  let ?w = "stop_connect_timer p (set_client p ?c w)"
  have "cl_inv {} (set_client p ?c w)"
    using c' b by (intro set_client_inv[OF inv c]) (simp_all add: client_ok_def sends_live_def)
  then have i: "cl_inv {} ?w" by (rule timers_inv(1)) simp
  have c1: "clients ?w p = Some ?c" "connected ?c" by simp_all
  from send_cache_msg_ok[OF i c1, of e] e obtain w2 where w2: "send_cache_msg e p ?w = Inr w2" "cl_inv {} w2" "trans w2 = trans w"
    "clients w2 p = Some (?c\<lparr>cache_ids := filter (\<lambda>i. i \<in> {}) (cache_ids ?c), cache_msg_map := cache_msg_map ?c |` {}\<rparr>)"
    "cl_log w2 = cl_log ?w @ map (\<lambda>i. Written (buf_event ?c) (cm_data (the (cache_msg_map ?c i)))) (filter (\<lambda>i. i \<notin> {}) (cache_ids ?c))"
    by (auto simp: sink_calls_def)
  from s ba c con evt w2(1,3) obtain tc where tc: "tc_result (on_connected (cl_now e) (cl_tc_react e) (cl_peer c) (trans w)) = Inr tc"
    "tell_shut e p (new_calls (trans w) tc) (w2\<lparr>trans := tc\<rparr>) = Inr w'"
    by (auto simp: event_callback_def set_connected_def Let_def and_then_Inr)
  show "cl_log w' = cl_log w @ map (\<lambda>i. Written b (cm_data (the (cache_msg_map c i)))) (cache_ids c)"
    using tell_shut_log[OF tc(2)] w2(5) by simp
  let ?c2 = "?c\<lparr>cache_ids := [], cache_msg_map := Map.empty\<rparr>"
  have i2: "cl_inv {} (w2\<lparr>trans := tc\<rparr>)" using tc_event_reach(1)[OF c'(4) tc(1)] c'(5) w2 by simp
  have c2: "clients (w2\<lparr>trans := tc\<rparr>) p = Some ?c2" using w2(4) by (simp add: restrict_map_def)
  assume "spares_peer e (cl_peer c)"
  then have "spares_peer e (cl_peer ?c2)" by simp
  from tell_shut_spares[OF i2 c2 this, of "new_calls (trans w) tc"] tc(2) have "clients w' p = Some ?c2" by auto
  then show "\<exists>c'. clients w' p = Some c' \<and> connected c' \<and> buf_event c' = b \<and> cache_ids c' = [] \<and> cache_msg_map c' = Map.empty"
    by simp
qed

text \<open>
  Claim C17: requests made while a client is not connected are written when it is, in the order in
  which they were made, after those kept from before, each once and as the message the codec makes of its head, its body and its
  transaction id; the ids are pairwise different, and nothing is kept after that (the client is there then unless a
  sink that is told of the connection removes it). This holds even
  when the expiry check has ended the transactions of some of them in between, though nobody waits
  for their responses any more: no client hears of a timeout.
\<close>

theorem cached_requests_written:
  assumes "cl_reach w" "clients w p = Some c" "\<not> connected c" "b \<in> bufevent_set c"
    and "send_all p rs w = Inr (ids, w1)" "0 \<notin> set ids" "\<forall>(e, r) \<in> set rs. cl_roomy e"
    and "w2 = w1 \<or> timeout_tame (cl_tc_react e2) \<and> hash_order ord \<and> cl_rsp_check e2 ord w1 = Inr w2"
    and "\<forall>k. add_res e k" "ev_connected evt" "event_callback e b evt w2 = Inr w'"
  shows "cl_log w' = cl_log w @ map (\<lambda>i. Written b (cm_data (the (cache_msg_map c i)))) (cache_ids c) @
      map (\<lambda>(i, e, r). Written b (frame (cl_codec w) (request_msg i r))) (zip ids rs) \<and>
    distinct (cache_ids c @ ids) \<and> length ids = length rs \<and>
    ((\<forall>k. cl_peer c \<notin> set (cl_shut e k)) \<longrightarrow> (\<exists>c'. clients w' p = Some c' \<and> connected c' \<and> cache_ids c' = []))"
proof -
  note inv = cl_reach_inv[OF assms(1)]
  from send_all_kept[OF inv assms(2,3,5-7)] obtain m where w1: "cl_inv {} w1" "cl_log w1 = cl_log w" "length ids = length rs"
    "clients w1 p = Some (c\<lparr>cache_msg_map := m, cache_ids := cache_ids c @ ids\<rparr>)" "cache_msg_map c \<subseteq>\<^sub>m m"
    "\<forall>k < length ids. \<exists>cm. m (ids ! k) = Some cm \<and> cm_data cm = frame (cl_codec w) (request_msg (ids ! k) (snd (rs ! k)))"
    by auto
  have "\<exists>tc. cl_inv {} w2 \<and> w2 = w1\<lparr>trans := tc\<rparr>"
  proof (cases "w2 = w1")
    case True
    with w1(1) show ?thesis by (intro exI[of _ "trans w1"]) simp
  next
    case False
    with assms(8) have ck: "timeout_tame (cl_tc_react e2)" "hash_order ord" "cl_rsp_check e2 ord w1 = Inr w2" by simp_all
    from cl_rsp_check_ok[OF w1(1) ck(1,2)] ck(3) show ?thesis by (metis sum.inject(2))
  qed
  then obtain tc where w2: "cl_inv {} w2" "w2 = w1\<lparr>trans := tc\<rparr>" by blast
  let ?c = "c\<lparr>cache_msg_map := m, cache_ids := cache_ids c @ ids\<rparr>"
  have c2: "clients w2 p = Some ?c" "\<not> connected ?c" "b \<in> bufevent_set ?c" using w1(4) assms(3,4) w2(2) by simp_all
  note fl = connected_flush[OF w2(1) c2 assms(9-11)]
  have "map (\<lambda>i. Written b (cm_data (the (m i)))) ids = map (\<lambda>(i, e, r). Written b (frame (cl_codec w) (request_msg i r))) (zip ids rs)"
  proof (rule nth_equalityI)
    fix k assume "k < length (map (\<lambda>i. Written b (cm_data (the (m i)))) ids)"
    then have k: "k < length ids" by simp
    with w1(6) obtain cm where cm: "m (ids ! k) = Some cm" "cm_data cm = frame (cl_codec w) (request_msg (ids ! k) (snd (rs ! k)))"
      by blast
    then show "map (\<lambda>i. Written b (cm_data (the (m i)))) ids ! k =
        map (\<lambda>(i, e, r). Written b (frame (cl_codec w) (request_msg i r))) (zip ids rs) ! k"
      using k w1(3) by (simp add: case_prod_beta)
  qed (use w1(3) in simp)
  moreover have "the (m i) = the (cache_msg_map c i)" if "i \<in> set (cache_ids c)" for i
    using that w1(5) cl_inv_client(1)[OF inv assms(2)] by (auto simp: map_le_def client_ok_def)
  then have "map (\<lambda>i. Written b (cm_data (the (m i)))) (cache_ids c) =
      map (\<lambda>i. Written b (cm_data (the (cache_msg_map c i)))) (cache_ids c)" by simp
  moreover have "distinct (cache_ids c @ ids)" using cl_inv_client(1)[OF w2(1) c2(1)] by (simp add: client_ok_def)
  moreover have "cl_log w2 = cl_log w" using w1(2) w2(2) by simp
  ultimately show ?thesis using fl w1(3) by (auto simp: spares_peer_def)
qed

theorem cached_requests_written_witness:
  "cl_log cl_test_up = [Written 200 (cm_data cl_test_cached)]"
proof -
  let ?c = "cl_test_client\<lparr>cache_msg_map := [1 \<mapsto> cl_test_cached], cache_ids := [1]\<rparr>"
  have "clients cl_test_waiting 100 = Some ?c" "\<not> connected ?c" "200 \<in> bufevent_set ?c"
    by (simp_all add: cl_test_waiting_def cl_test_client_def client_new_def)
  moreover have "\<forall>k. add_res cl_test_env k" "ev_connected (cl_test_event True)" "cl_log cl_test_waiting = []"
    by (simp_all add: cl_test_env_def cl_test_event_def cl_test_waiting_def cl_init_def)
  moreover have "send_all 100 [] cl_test_waiting = Inr ([], cl_test_waiting)" "0 \<notin> set ([] :: int list)"
    "\<forall>(e, r) \<in> set ([] :: (cl_env \<times> request) list). cl_roomy e" by simp_all
  ultimately show ?thesis
    using cached_requests_written[OF cl_test_reach(1), of 100 ?c 200 "[]" "[]" cl_test_waiting cl_test_waiting cl_test_env rev
        cl_test_env "cl_test_event True" cl_test_up] cl_test_connected by simp
qed

subsection \<open>Responses\<close>

text \<open>
  Claim C4: responses and notifications reach the sinks exactly. A server sends notifications and responses to open
  requests, each within the size limit, on three conditions: no chunk of its stream ends inside a length field, no two
  responses are for one request, and the sinks neither close
  clients nor cancel transactions from inside their callbacks. Then, wherever else the stream is cut, every response is handed to the sink of its request, with the passback value the caller
  gave and the data of the request, and every notification to all notification sinks, once and in
  order; nothing is left over, and the transactions of other requests stay open. Sinks may send and
  record anything.
\<close>

theorem responses_delivered:
  assumes "cl_reach w" "bev_arg w b = Some p" "clients w p = Some c" "recved_data c = []"
    and "\<forall>(e, x) \<in> set chunks. polite e w \<and> modest e" "\<forall>m \<in> set ms. expected w m" "separate ms"
    and "concat (map snd chunks) = concat (map (frame (cl_codec w)) ms)"
    and "clean_cuts (map (\<lambda>m. length (frame (cl_codec w) m)) ms) 0 (map snd chunks)" "chunks \<noteq> []"
  shows "\<exists>w' c'. read_all b chunks w = Inr w' \<and> sink_calls w' = sink_calls w @ concat (map (msg_calls w c) ms) \<and>
    clients w' p = Some c' \<and> recved_data c' = [] \<and>
    (\<forall>i t. get_trans_ctx i (trans w) = Some t \<longrightarrow> (\<forall>m \<in> set ms. i \<notin> ended_ids m) \<longrightarrow> get_trans_ctx i (trans w') = Some t)"
proof -
  have "recved_data c @ concat (map snd chunks) = concat (map (frame (cl_codec w)) ms)"
    "clean_cuts (map (\<lambda>m. length (frame (cl_codec w) m)) ms) (length (recved_data c)) (map snd chunks)"
    using assms(4,8,9) by simp_all
  from read_all_msgs[OF cl_reach_inv[OF assms(1)] assms(2,3,5,6,7) this assms(10)] obtain w' where
    w': "read_all b chunks w = Inr w'" "rsp_handled w p c [] ms w'" by blast
  have "trans_hash_map (trans w') i = Some t"
    if "trans_hash_map (trans w) i = Some t" "\<forall>m \<in> set ms. i \<notin> ended_ids m" for i t
    using w'(2) that unfolding rsp_handled_def map_le_def by (force simp: restrict_map_def split: if_splits)
  with w' show ?thesis by (auto simp: rsp_handled_def get_trans_ctx_def)
qed

theorem responses_delivered_witness:
  "\<exists>w'. read_all 200 [(cl_test_env, frame cl_test_codec (\<lparr>passback = NFY_PASSBACK, msg_id = 8\<rparr>, [9]) @
       frame cl_test_codec (\<lparr>passback = 1, msg_id = 5\<rparr>, [7]))] cl_test_up = Inr w' \<and>
     sink_calls w' = [Nfy_Call 60 cl_test_peer \<lparr>passback = NFY_PASSBACK, msg_id = 8\<rparr> [9],
       Rsp_Call 3 1 cl_test_peer \<lparr>passback = 42, msg_id = 5\<rparr> [7] No_Data]"
proof -
  let ?n = "(\<lparr>passback = NFY_PASSBACK, msg_id = 8\<rparr>, [9]) :: msg" and ?r = "(\<lparr>passback = 1, msg_id = 5\<rparr>, [7]) :: msg"
  let ?x = "frame cl_test_codec ?n @ frame cl_test_codec ?r"
  have t: "get_trans_ctx 1 (trans cl_test_up) = Some cl_test_trans"
    by (simp add: cl_test_simps get_trans_ctx_def cl_test_tc_def)
  have c: "cl_peer (cl_test_client\<lparr>connected := True, buf_event := 200\<rparr>) = cl_test_peer"
    "nfy_sink_set (cl_test_client\<lparr>connected := True, buf_event := 200\<rparr>) = {60}"
    by (simp_all add: cl_test_client_def client_new_def)
  have "bev_arg cl_test_up 200 = Some 100" "\<forall>(e, x) \<in> set [(cl_test_env, ?x)]. polite e cl_test_up \<and> modest e"
    "\<forall>m \<in> set [?n, ?r]. expected cl_test_up m" "separate [?n, ?r]"
    "concat (map snd [(cl_test_env, ?x)]) = concat (map (frame (cl_codec cl_test_up)) [?n, ?r])"
    using t by (simp_all add: cl_test_simps expected_def known_def sendable_def max_total_def ended_ids_def)
      (simp_all add: cl_test_codec_def)
  moreover have "clean_cuts (map (\<lambda>m. length (frame (cl_codec cl_test_up) m)) [?n, ?r]) 0 (map snd [(cl_test_env, ?x)])"
    by (simp add: length_frame frame_nonempty)
  ultimately obtain w' where "read_all 200 [(cl_test_env, ?x)] cl_test_up = Inr w'"
    "sink_calls w' = sink_calls cl_test_up @ concat (map (msg_calls cl_test_up (cl_test_client\<lparr>connected := True, buf_event := 200\<rparr>)) [?n, ?r])"
    using responses_delivered[OF cl_test_reach(2) _ cl_test_simps(1,6), of 200 "[(cl_test_env, ?x)]" "[?n, ?r]"] by blast
  moreover have "sink_calls cl_test_up = []" by (simp add: sink_calls_def cl_test_up_def)
  moreover have "msg_calls cl_test_up (cl_test_client\<lparr>connected := True, buf_event := 200\<rparr>) ?r =
      [Rsp_Call 3 1 cl_test_peer \<lparr>passback = 42, msg_id = 5\<rparr> [7] No_Data]"
    using t c by (simp add: msg_calls_def cl_test_trans_def)
  moreover have "msg_calls cl_test_up (cl_test_client\<lparr>connected := True, buf_event := 200\<rparr>) ?n = [Nfy_Call 60 cl_test_peer (fst ?n) [9]]"
    using c by (simp add: msg_calls_def)
  ultimately show ?thesis by simp
qed

subsection \<open>Messages that cannot be decoded\<close>

text \<open>The first message in the data is whole and does not decode: it is answered, and it stays.\<close>

lemma client_stuck_read:
  assumes inv: "cl_inv {} w" and b: "bev_arg w b = Some p" and c: "clients w p = Some c" and x: "x \<noteq> []"
    and st: "stuck (cl_codec w) (cl_static w) (recved_data c @ x)"
  obtains w' c' where "cl_read_callback e b x True w = Inr w'" "cl_inv {} w'" "sink_calls w' = sink_calls w"
    "bev_arg w' b = Some p" "clients w' p = Some c'" "recved_data c' = recved_data c @ x" "cl_codec w' = cl_codec w"
    "max_total (cl_codec w) (cl_static w') = max_total (cl_codec w) (cl_static w)"
proof -
  let ?d = "recved_data c @ x" and ?mt = "max_total (cl_codec w) (cl_static w)"
  from st obtain n err where n: "rd32 ?d = Some n" "12 \<le> unat n" "unat n \<le> ?mt"
    "4 + unat n \<le> length ?d" "\<And>y. decode_msg (cl_codec w) (drop 4 ?d @ y) (unat n) = Decode_Error err"
    unfolding stuck_def by blast
  have rd: "rd32 (?d @ 0 # cl_behind e ?d) = Some n" using n(1,4) rd32_append[of ?d] by simp
  let ?c = "c\<lparr>recved_data := ?d\<rparr>"
  let ?w1 = "set_client p ?c w"
  let ?w2 = "?w1\<lparr>cl_static := Some ?mt\<rparr>"
  have w2: "cl_inv {} ?w2" "clients ?w2 p = Some ?c" using put_data_inv[OF inv c] by simp_all
  have iw: "is_whole_msg (cl_codec ?w1) (cl_static ?w1) (?d @ 0 # cl_behind e ?d) (length ?d) = (Some ?mt, Whole (unat n))"
    using n(2-4) by (simp only: is_whole_msg_alt[OF rd] set_client_simps) simp
  from send_error_ok[OF w2, of e err] obtain w' where w': "send_error e p err ?w2 = Inr w'" "cl_inv {} w'" "sent_only ?w2 w'" by blast
  have "cl_read_loop e p ?d ?w1 = Inr w'"
    unfolding cl_read_loop.simps[of e p ?d] iw using n(5)[of "[]"] w'(1) by (simp add: Let_def)
  then have r: "cl_read_callback e b x True w = Inr w'" using b c x by (simp add: cl_read_callback_def Let_def)
  obtain c' where "clients w' p = Some c'" "same_client ?c c'" by (rule sent_only_client[OF w'(3) w2(2)])
  with r w'(2,3) b that[of w' c'] show ?thesis
    by (simp add: sent_only_def sink_calls_def same_client_def max_total_def)
qed

text \<open>
  A response with one wrong byte blocks its client for good. \<^verbatim>\<open>DecodeMsg\<close> fails before
  the message is taken out of the received data, so every later chunk finds it there again: no sink
  is told of anything any more, whatever follows, and all that arrives piles up.
\<close>

theorem client_bad_checksum:
  assumes "cl_reach w" "bev_arg w b = Some p" "clients w p = Some c" "recved_data c = []"
    and "do_checksum (cl_codec w)" "sendable (cl_codec w) (cl_static w) body"
    and "msg_payload head body = xs @ v # ys" "v' \<noteq> v" "\<forall>(e, x) \<in> set chunks. x \<noteq> []"
    and "bad = be32 (of_nat (12 + length body)) @ be32 (msg_checksum (cl_codec w) head body) @ xs @ v' # ys"
  shows "\<exists>w' c'. read_all b ((e, bad @ rest) # chunks) w = Inr w' \<and> sink_calls w' = sink_calls w \<and>
    clients w' p = Some c' \<and> recved_data c' = bad @ rest @ concat (map snd chunks)"
proof -
  have all: "\<exists>w' c'. read_all b chs w = Inr w' \<and> sink_calls w' = sink_calls w \<and> clients w' p = Some c' \<and>
      recved_data c' = recved_data c @ concat (map snd chs)"
    if "cl_inv {} w" "bev_arg w b = Some p" "clients w p = Some c" "\<forall>(e, x) \<in> set chs. x \<noteq> []"
      "chs \<noteq> [] \<longrightarrow> stuck (cl_codec w) (cl_static w) (recved_data c @ snd (hd chs))" for chs w c
    using that
  proof (induction chs arbitrary: w c)
    case (Cons ch chs)
    obtain e x where ch: "ch = (e, x)" by (cases ch)
    have x: "x \<noteq> []" "stuck (cl_codec w) (cl_static w) (recved_data c @ x)" using Cons.prems(4,5) by (simp_all add: ch)
    obtain w1 c1 where w1: "cl_read_callback e b x True w = Inr w1" "cl_inv {} w1" "sink_calls w1 = sink_calls w"
      "bev_arg w1 b = Some p" "clients w1 p = Some c1" "recved_data c1 = recved_data c @ x" "cl_codec w1 = cl_codec w"
      "max_total (cl_codec w) (cl_static w1) = max_total (cl_codec w) (cl_static w)"
      by (rule client_stuck_read[OF Cons.prems(1-3) x])
    have "stuck (cl_codec w1) (cl_static w1) (recved_data c1 @ y)" for y
      using stuck_append[OF x(2), of y] w1(6-8) by (simp add: stuck_def)
    moreover have "\<forall>(e, x) \<in> set chs. x \<noteq> []" using Cons.prems(4) by simp
    ultimately obtain w2 c2 where "read_all b chs w1 = Inr w2" "sink_calls w2 = sink_calls w1" "clients w2 p = Some c2"
      "recved_data c2 = recved_data c1 @ concat (map snd chs)" using Cons.IH[OF w1(2,4,5)] by blast
    with w1 ch show ?case by simp
  qed simp
  let ?n = "of_nat (12 + length body) :: u32"
  have n: "unat ?n = 12 + length body" using assms(6) by (simp add: sendable_def unat_of_nat32 del: of_nat_add)
  have len: "length xs + Suc (length ys) = 8 + length body" using arg_cong[OF assms(7), of length] by simp
  have rd: "rd32 (bad @ rest) = Some ?n" by (simp add: assms(10) del: of_nat_add)
  have dec: "decode_msg (cl_codec w) (drop 4 (bad @ rest) @ x) (unat ?n) = Decode_Error MSG_ID_CHECKSUM_MISMATCH" for x
    unfolding n using decode_corrupted[OF assms(5,7,8), of "rest @ x"] by (simp add: assms(10) del: of_nat_add)
  have "stuck (cl_codec w) (cl_static w) (bad @ rest)"
    unfolding stuck_def using rd dec n len assms(6)
    by (intro exI[of _ ?n] exI[of _ "MSG_ID_CHECKSUM_MISMATCH"]) (auto simp: assms(10) sendable_def simp del: of_nat_add)
  moreover have "bad @ rest \<noteq> []" by (simp add: assms(10) del: of_nat_add)
  ultimately show ?thesis
    using all[OF cl_reach_inv[OF assms(1)] assms(2,3), of "(e, bad @ rest) # chunks"] assms(4,9) by simp
qed

theorem client_bad_checksum_witness:
  "let bad = be32 13 @ be32 (msg_checksum cl_test_codec \<lparr>passback = 1, msg_id = 5\<rparr> [7]) @ [0, 0, 0, 1, 0, 0, 0, 5, 8];
       good = frame cl_test_codec (\<lparr>passback = 1, msg_id = 5\<rparr>, [7]) in
   \<exists>w'. read_all 200 [(cl_test_env, bad), (cl_test_env, good)] cl_test_up = Inr w' \<and> sink_calls w' = []"
proof -
  have "msg_payload \<lparr>passback = 1, msg_id = 5\<rparr> [7] = [0, 0, 0, 1, 0, 0, 0, 5] @ 7 # []"
    by (simp add: msg_payload_def be32_def)
  moreover have "do_checksum (cl_codec cl_test_up)" "sendable (cl_codec cl_test_up) (cl_static cl_test_up) [7]"
    "bev_arg cl_test_up 200 = Some 100"
    by (simp_all add: cl_test_simps cl_test_codec_def sendable_def max_total_def)
  moreover have "sink_calls cl_test_up = []" by (simp add: sink_calls_def cl_test_up_def)
  ultimately show ?thesis
    using client_bad_checksum[OF cl_test_reach(2) _ cl_test_simps(1,6), of 200 "[7]" "\<lparr>passback = 1, msg_id = 5\<rparr>" "[0, 0, 0, 1, 0, 0, 0, 5]"
        7 "[]" 8 "[(cl_test_env, frame cl_test_codec (\<lparr>passback = 1, msg_id = 5\<rparr>, [7]))]" _ cl_test_env "[]"]
    by (auto simp: cl_test_simps frame_nonempty)
qed

end
