(* ===== verification/Web_Http.thy ===== *)
theory Web_Http
  imports Web_Util Ws_Messages
begin

text \<open>
  HTTP requests of the web threads: \<^verbatim>\<open>the_http_parser.cpp\<close>, the attributes of multipart headers
  (\<^verbatim>\<open>mpart_body_processor.cpp\<close>), \<^verbatim>\<open>http_msg_dispatcher.cpp\<close> and the connections of
  \<^verbatim>\<open>web_logic.cpp\<close>. The library http_parser is a parameter: what it calls back for the bytes of a
  chunk, how far it gets, and how it cuts up a URL. The upgrade leads to the WebSocket messages of
  \<^verbatim>\<open>Ws_Messages\<close>.
\<close>

subsection \<open>Strings\<close>

abbreviation (input) ascii :: "string \<Rightarrow> bytes" where "ascii \<equiv> map of_char"
abbreviation (input) chars :: "bytes \<Rightarrow> string" where "chars \<equiv> map (\<lambda>c. char_of (unat c))"

text \<open>What a C string function sees of a string.\<close>

definition cstr :: "bytes \<Rightarrow> bytes" where
  "cstr = takeWhile (\<lambda>c. c \<noteq> 0)"

text \<open>The pieces between separators (\<^verbatim>\<open>strsep\<close>), and those of them that are not empty (\<^verbatim>\<open>strtok_r\<close>).\<close>

fun split_on :: "u8 \<Rightarrow> bytes \<Rightarrow> bytes list" where
  "split_on d [] = [[]]"
| "split_on d (c # cs) =
     (if c = d then [] # split_on d cs
      else (case split_on d cs of [] \<Rightarrow> [[c]] | p # ps \<Rightarrow> (c # p) # ps))"

definition tokens :: "u8 \<Rightarrow> bytes \<Rightarrow> bytes list" where
  "tokens d s = filter (\<lambda>p. p \<noteq> []) (split_on d s)"

definition trim :: "(u8 \<Rightarrow> bool) \<Rightarrow> bytes \<Rightarrow> bytes" where
  "trim P s = rev (dropWhile P (rev (dropWhile P s)))"

definition is_space :: "u8 \<Rightarrow> bool" where
  "is_space c \<longleftrightarrow> c = 0x20 \<or> (0x09 \<le> c \<and> c \<le> 0x0D)"

definition IsQuote :: "u8 \<Rightarrow> bool" where
  "IsQuote c \<longleftrightarrow> c = 0x22 \<or> c = 0x27"

definition to_lower :: "u8 \<Rightarrow> u8" where
  "to_lower c = (if 0x41 \<le> c \<and> c \<le> 0x5A then c + 0x20 else c)"

text \<open>\<^verbatim>\<open>strncasecmp\<close> with the length of \<open>pre\<close>.\<close>

definition starts_nocase :: "bytes \<Rightarrow> bytes \<Rightarrow> bool" where
  "starts_nocase pre s \<longleftrightarrow> map to_lower (take (length pre) (cstr s)) = map to_lower pre"

text \<open>\<^verbatim>\<open>std::map::insert\<close> keeps what is there.\<close>

definition map_insert :: "'k \<Rightarrow> 'v \<Rightarrow> ('k \<rightharpoonup> 'v) \<Rightarrow> ('k \<rightharpoonup> 'v)" where
  "map_insert k v m = (if m k = None then m(k \<mapsto> v) else m)"

subsection \<open>Requests\<close>

text \<open>\<^verbatim>\<open>struct Req\<close>; of the multipart context only whether there is a parser, and its boundary.\<close>

record http_req =
  rq_method :: int
  rq_major :: int
  rq_minor :: int
  rq_client_ip :: bytes
  rq_url :: bytes
  rq_schema :: bytes
  rq_host :: bytes
  rq_port :: nat
  rq_path :: bytes
  rq_query :: bytes
  rq_queries :: "bytes \<rightharpoonup> bytes"
  rq_fragment :: bytes
  rq_user_info :: bytes
  rq_headers :: "bytes \<rightharpoonup> bytes"
  rq_url_decode :: bool
  rq_body :: bytes
  rq_mpart :: "bytes option"
  rq_parsed :: int

abbreviation (input) HTTP_GET :: int where "HTTP_GET \<equiv> 1"
abbreviation (input) HTTP_POST :: int where "HTTP_POST \<equiv> 3"

definition req_new :: http_req where
  "req_new = \<lparr>rq_method = HTTP_GET, rq_major = 1, rq_minor = 1, rq_client_ip = [], rq_url = [], rq_schema = [],
     rq_host = [], rq_port = 0, rq_path = [], rq_query = [], rq_queries = Map.empty, rq_fragment = [],
     rq_user_info = [], rq_headers = Map.empty, rq_url_decode = False, rq_body = [], rq_mpart = None, rq_parsed = 0\<rparr>"

text \<open>\<^verbatim>\<open>Req::Reset\<close>; the multipart parser stays.\<close>

definition req_reset :: "http_req \<Rightarrow> http_req" where
  "req_reset r = req_new\<lparr>rq_major := 0, rq_minor := 0, rq_mpart := rq_mpart r\<rparr>"

text \<open>\<^verbatim>\<open>http_parser_url\<close>: the fields that are set, with offset and length; the port as a number.\<close>

record url_fields =
  uf_schema :: "(nat \<times> nat) option"
  uf_host :: "(nat \<times> nat) option"
  uf_port :: "nat option"
  uf_path :: "(nat \<times> nat) option"
  uf_query :: "(nat \<times> nat) option"
  uf_fragment :: "(nat \<times> nat) option"
  uf_userinfo :: "(nat \<times> nat) option"

definition url_field :: "bytes \<Rightarrow> (nat \<times> nat) option \<Rightarrow> bytes \<Rightarrow> bytes" where
  "url_field url f old = (case f of None \<Rightarrow> old | Some (off, len) \<Rightarrow> take len (drop off url))"

definition ParseURL :: "(bytes \<Rightarrow> url_fields option) \<Rightarrow> bytes \<Rightarrow> http_req \<Rightarrow> http_req" where
  "ParseURL parse_url url r =
     (case parse_url url of
        None \<Rightarrow> r\<lparr>rq_url := url\<rparr>
      | Some u \<Rightarrow>
          r\<lparr>rq_url := url,
            rq_schema := url_field url (uf_schema u) (rq_schema r),
            rq_host := url_field url (uf_host u) (rq_host r),
            rq_port := (case uf_port u of None \<Rightarrow> rq_port r | Some n \<Rightarrow> n),
            rq_path := url_field url (uf_path u) (rq_path r),
            rq_query := url_field url (uf_query u) (rq_query r),
            rq_fragment := url_field url (uf_fragment u) (rq_fragment r),
            rq_user_info := url_field url (uf_userinfo u) (rq_user_info r)\<rparr>)"

text \<open>The key and the value of one piece of a query; the last part wins.\<close>

definition query_pair :: "bytes \<Rightarrow> bytes \<times> bytes" where
  "query_pair tok =
     (case tokens 0x3D tok of
        [] \<Rightarrow> ([], [])
      | k # vs \<Rightarrow> (k, if vs = [] then [] else last vs))"

definition insert_query :: "bytes \<Rightarrow> (bytes \<rightharpoonup> bytes) \<Rightarrow> (bytes \<rightharpoonup> bytes)" where
  "insert_query tok m = (case query_pair tok of (k, v) \<Rightarrow> map_insert k v m)"

definition ParseQuery :: "http_req \<Rightarrow> http_req" where
  "ParseQuery r = r\<lparr>rq_queries := fold insert_query (tokens 0x26 (cstr (rq_query r))) (rq_queries r)\<rparr>"

definition AddHeader :: "bytes \<Rightarrow> bytes \<Rightarrow> http_req \<Rightarrow> http_req" where
  "AddHeader name val r = r\<lparr>rq_headers := map_insert name val (rq_headers r)\<rparr>"

definition ParseClientIP :: "http_req \<Rightarrow> http_req" where
  "ParseClientIP r =
     (case rq_headers r (ascii ''X-Forwarded-For'') of
        None \<Rightarrow> r
      | Some v \<Rightarrow> r\<lparr>rq_client_ip := takeWhile (\<lambda>c. c \<noteq> 0x2C) (cstr v)\<rparr>)"

definition AppendBody :: "bytes \<Rightarrow> http_req \<Rightarrow> http_req" where
  "AppendBody d r = r\<lparr>rq_body := rq_body r @ d\<rparr>"

subsection \<open>Multipart headers\<close>

text \<open>
  What makes a request fail: a read behind a string or a buffer, a null pointer that is
  dereferenced, a parser that is gone, and the faults of the WebSocket parser.
\<close>

datatype web_fault = Over_Read | Null_Pointer | Freed_Ctx | Ws_Fault ws_fault

text \<open>
  \<^verbatim>\<open>ParseAttr\<close>. A piece without an equals sign has no value: \<^verbatim>\<open>strsep\<close> returns null, and
  \<^verbatim>\<open>StrTrimQuotes\<close> reads through it.
\<close>

fun parse_pairs :: "bytes list \<Rightarrow> (bytes \<rightharpoonup> bytes) \<Rightarrow> web_fault + (bytes \<rightharpoonup> bytes)" where
  "parse_pairs [] attrs = Inr attrs"
| "parse_pairs (p # ps) attrs =
     (case split_on 0x3D p of
        name # val # _ \<Rightarrow> parse_pairs ps (map_insert (trim is_space name) (trim is_space (trim IsQuote val)) attrs)
      | _ \<Rightarrow> Inl Null_Pointer)"

definition ParseAttr :: "bytes \<Rightarrow> (bytes \<rightharpoonup> bytes) \<Rightarrow> web_fault + (bytes \<rightharpoonup> bytes)" where
  "ParseAttr str attrs = parse_pairs (split_on 0x3B (dropWhile is_space (cstr str))) attrs"

text \<open>
  \<^verbatim>\<open>GetBoundary\<close> skips 20 characters of the type, whatever its length: one more than the string and its
  end have when it is just the type. None stands for the empty string.
\<close>

definition GetBoundary :: "bytes \<Rightarrow> web_fault + bytes option" where
  "GetBoundary content_type =
     (if length content_type < length ''multipart/form-data;'' then Inl Over_Read
      else map_sum id (\<lambda>attrs. map_option (\<lambda>b. [0x2D, 0x2D] @ b) (attrs (ascii ''boundary'')))
        (ParseAttr (drop (length ''multipart/form-data;'') content_type) Map.empty))"

subsection \<open>State\<close>

text \<open>The callbacks of http_parser, with their data.\<close>

datatype http_cb =
    Cb_Begin
  | Cb_Url bytes
  | Cb_Field bytes
  | Cb_Value bytes
  | Cb_Headers int int int
  | Cb_Body bytes
  | Cb_Complete

text \<open>
  The library: \<open>lib_init\<close> is the state of a new parser, \<open>lib_run\<close> gives the callbacks for a chunk, and
  with the number of callbacks made, when one has failed or all have been, the bytes parsed, the
  upgrade flag, the error number and the next state. Beside it: \<^verbatim>\<open>http_parser_parse_url\<close>,
  \<^verbatim>\<open>http_method_str\<close>, and the multipart parser, whose callbacks do nothing with the data; \<open>mp_parsed\<close> is what it returns.
\<close>

record 'l http_lib =
  lib_init :: 'l
  lib_calls :: "'l \<Rightarrow> bytes \<Rightarrow> http_cb list"
  lib_end :: "'l \<Rightarrow> bytes \<Rightarrow> nat \<Rightarrow> nat \<times> bool \<times> int \<times> 'l"
  lib_url :: "bytes \<Rightarrow> url_fields option"
  lib_method :: "int \<Rightarrow> string"
  mp_parsed :: "bytes \<Rightarrow> bytes \<Rightarrow> int"

text \<open>\<^verbatim>\<open>HTTPConnCtx\<close> with its \<^verbatim>\<open>http::Parser\<close> and \<^verbatim>\<open>ws::Parser\<close>.\<close>

record 'l http_conn =
  hp_lib :: 'l
  hp_req :: http_req
  last_header_name :: bytes
  hp_complete :: bool
  hc_upgrade :: bool
  hc_key :: "string \<times> string"
  hc_ws :: "bool \<times> websocket_parser \<times> ws_ctx"

text \<open>What the logics and clients see.\<close>

datatype web_event =
    Http_Get ptr int bytes "bytes \<rightharpoonup> bytes" "bytes \<rightharpoonup> bytes"
  | Http_Post ptr int bytes "bytes \<rightharpoonup> bytes" "bytes \<rightharpoonup> bytes" bytes
  | Web_Connected int
  | Web_Closed int
  | Handshake int string

datatype body_cb = Plain_Body | MPart_Body

text \<open>
  A web logic: the contexts by connection id, the connections of the center, the connections watched
  for incomplete messages (\<^verbatim>\<open>part_msg_mgr_\<close>), the handlers of the dispatcher. The table of callbacks
  is one for the whole process; only its entry for bodies ever changes.
\<close>

record 'l web_world =
  conn_ctxs :: "int \<rightharpoonup> 'l http_conn"
  live :: "int set"
  watched_conns :: "int set"
  on_body_cb :: body_cb
  http_handlers :: "bytes \<rightharpoonup> ptr"
  web_log :: "web_event list"

text \<open>
  The surroundings: addresses of clients, the connections a handler closes, whether an answer can be
  sent, the SHA-1 and date of a handshake, the longest string, the connections a WebSocket message
  makes the logics close, and whether the debug level is logged.
\<close>

record 'l web_env =
  we_lib :: "'l http_lib"
  we_ip :: "int \<Rightarrow> bytes"
  we_closes :: "web_event \<Rightarrow> int list"
  we_send_ok :: bool
  we_accept :: "string \<Rightarrow> string"
  we_date :: string
  we_max_size :: nat
  we_ws_closes :: "ws_event list \<Rightarrow> bool"
  we_debug :: bool

definition web_init :: "body_cb \<Rightarrow> 'l web_world" where
  "web_init cb = \<lparr>conn_ctxs = Map.empty, live = {}, watched_conns = {}, on_body_cb = cb, http_handlers = Map.empty, web_log = []\<rparr>"

subsection \<open>The dispatcher\<close>

text \<open>The path as a C string; None for null.\<close>

definition attach_http :: "bytes option \<Rightarrow> ptr \<Rightarrow> (bytes \<rightharpoonup> ptr) \<Rightarrow> int \<times> (bytes \<rightharpoonup> ptr)" where
  "attach_http path h m =
     (case path of
        None \<Rightarrow> (RC_ERR, m)
      | Some p \<Rightarrow> if length p < 1 \<or> p \<in> dom m then (RC_ERR, m) else (RC_OK, m(p \<mapsto> h)))"

definition detach_http :: "bytes option \<Rightarrow> (bytes \<rightharpoonup> ptr) \<Rightarrow> (bytes \<rightharpoonup> ptr)" where
  "detach_http path m = (case path of None \<Rightarrow> m | Some p \<Rightarrow> m(p := None))"

text \<open>The call of a handler; other methods than GET and POST have none.\<close>

definition http_calls :: "'l web_env \<Rightarrow> int \<Rightarrow> ptr \<Rightarrow> http_req \<Rightarrow> web_event list" where
  "http_calls e cid h r =
     (let ip = (if rq_client_ip r = [] then we_ip e cid else rq_client_ip r) in
      if rq_method r = HTTP_GET then [Http_Get h cid ip (rq_queries r) (rq_headers r)]
      else if rq_method r = HTTP_POST then [Http_Post h cid ip (rq_queries r) (rq_headers r) (rq_body r)]
      else [])"

subsection \<open>Connections\<close>

definition new_http_conn :: "'l web_env \<Rightarrow> 'l http_conn" where
  "new_http_conn e = \<lparr>hp_lib = lib_init (we_lib e), hp_req = req_new, last_header_name = [], hp_complete = False,
     hc_upgrade = False, hc_key = ([], []), hc_ws = (False, websocket_parser_init, ws_ctx_init)\<rparr>"

definition web_on_connected :: "'l web_env \<Rightarrow> int \<Rightarrow> 'l web_world \<Rightarrow> 'l web_world" where
  "web_on_connected e cid w =
     (if cid \<notin> live w then w
      else if cid \<in> dom (conn_ctxs w) then w
      else w\<lparr>conn_ctxs := (conn_ctxs w)(cid \<mapsto> new_http_conn e), web_log := web_log w @ [Web_Connected cid]\<rparr>)"

definition web_on_closed :: "int \<Rightarrow> 'l web_world \<Rightarrow> 'l web_world" where
  "web_on_closed cid w =
     (if cid \<notin> live w then w
      else w\<lparr>conn_ctxs := (conn_ctxs w)(cid := None), watched_conns := watched_conns w - {cid},
             web_log := web_log w @ [Web_Closed cid]\<rparr>)"

text \<open>The connection center makes and unmakes a connection around the calls of the logic.\<close>

definition web_accept :: "'l web_env \<Rightarrow> int \<Rightarrow> 'l web_world \<Rightarrow> 'l web_world" where
  "web_accept e cid w = web_on_connected e cid (w\<lparr>live := insert cid (live w)\<rparr>)"

definition web_close :: "int \<Rightarrow> 'l web_world \<Rightarrow> 'l web_world" where
  "web_close cid w = (let w1 = web_on_closed cid w in w1\<lparr>live := live w1 - {cid}\<rparr>)"

definition record_part_msg :: "int \<Rightarrow> 'l web_world \<Rightarrow> 'l web_world" where
  "record_part_msg cid w = (if cid \<in> live w then w\<lparr>watched_conns := insert cid (watched_conns w)\<rparr> else w)"

subsection \<open>Callbacks of the parser\<close>

definition set_ctx :: "int \<Rightarrow> 'l http_conn \<Rightarrow> 'l web_world \<Rightarrow> 'l web_world" where
  "set_ctx cid hc w = w\<lparr>conn_ctxs := (conn_ctxs w)(cid \<mapsto> hc)\<rparr>"

definition upd_req :: "(http_req \<Rightarrow> http_req) \<Rightarrow> 'l http_conn \<Rightarrow> 'l http_conn" where
  "upd_req f hc = hc\<lparr>hp_req := f (hp_req hc)\<rparr>"

text \<open>
  \<^verbatim>\<open>Req::Dump\<close>, as far as it does something: it fills in an empty path, and it takes as many characters
  from its buffer of 1024 as \<^verbatim>\<open>snprintf\<close> would have written of the line.
\<close>

definition num_len :: "int \<Rightarrow> nat" where
  "num_len n = (if n < 10 then 1 else if n < 100 then 2 else if n < 1000 then 3 else if n < 10000 then 4 else 5)"

definition dump_request_line :: "'l http_lib \<Rightarrow> http_req \<Rightarrow> nat" where
  "dump_request_line lib r =
     length (lib_method lib (rq_method r)) + 1 + length (cstr (rq_path r)) +
     (if rq_query r = [] then 0 else 1 + length (cstr (rq_query r))) + 6 + num_len (rq_major r) + 1 + num_len (rq_minor r) + 2"

definition dump_header_line :: "bytes \<Rightarrow> bytes \<Rightarrow> nat" where
  "dump_header_line name val = length (cstr name) + 2 + length (cstr val) + 2"

definition Dump :: "'l http_lib \<Rightarrow> http_req \<Rightarrow> web_fault + http_req" where
  "Dump lib r0 =
     (let r = (if rq_path r0 = [] then r0\<lparr>rq_path := [0x2F]\<rparr> else r0) in
      if 1024 < dump_request_line lib r \<or>
         (\<exists>name \<in> dom (rq_headers r). 1024 < dump_header_line name (the (rq_headers r name)))
      then Inl Over_Read else Inr r)"

text \<open>\<^verbatim>\<open>OnHeadersComplete\<close>: the result of the callback and the new context.\<close>

definition on_headers_complete ::
  "int \<Rightarrow> int \<Rightarrow> int \<Rightarrow> int \<Rightarrow> 'l http_conn \<Rightarrow> 'l web_world \<Rightarrow> web_fault + int \<times> 'l web_world" where
  "on_headers_complete cid meth major minor hc w =
     (let r = ParseClientIP ((hp_req hc)\<lparr>rq_method := meth, rq_major := major, rq_minor := minor\<rparr>);
          done = (\<lambda>r w. Inr (RC_OK, record_part_msg cid (set_ctx cid (hc\<lparr>hp_req := r\<rparr>) w))) in
      case rq_headers r (ascii ''Content-Type'') of
        None \<Rightarrow> done r w
      | Some ct \<Rightarrow>
          if starts_nocase (ascii ''application/x-www-form-urlencoded'') ct then done (r\<lparr>rq_url_decode := True\<rparr>) w
          else if starts_nocase (ascii ''multipart/form-data'') ct
          then (case GetBoundary ct of
                  Inl f \<Rightarrow> Inl f
                | Inr None \<Rightarrow> Inr (-1, set_ctx cid (hc\<lparr>hp_req := r\<lparr>rq_mpart := None\<rparr>\<rparr>) w)
                | Inr (Some b) \<Rightarrow> done (r\<lparr>rq_mpart := Some b\<rparr>) (w\<lparr>on_body_cb := MPart_Body\<rparr>))
          else done r w)"

definition http_callback ::
  "'l web_env \<Rightarrow> int \<Rightarrow> http_cb \<Rightarrow> 'l http_conn \<Rightarrow> 'l web_world \<Rightarrow> web_fault + int \<times> 'l web_world" where
  "http_callback e cid cb hc w =
     (let upd = (\<lambda>f w. set_ctx cid (upd_req f hc) w) in
      case cb of
        Cb_Begin \<Rightarrow> Inr (RC_OK, record_part_msg cid (w\<lparr>on_body_cb := Plain_Body\<rparr>))
      | Cb_Url url \<Rightarrow> Inr (RC_OK, record_part_msg cid (upd (ParseURL (lib_url (we_lib e)) url) w))
      | Cb_Field name \<Rightarrow> Inr (RC_OK, record_part_msg cid (set_ctx cid (hc\<lparr>last_header_name := name\<rparr>) w))
      | Cb_Value val \<Rightarrow> Inr (RC_OK, record_part_msg cid (upd (AddHeader (last_header_name hc) val) w))
      | Cb_Headers meth major minor \<Rightarrow> on_headers_complete cid meth major minor hc w
      | Cb_Body d \<Rightarrow>
          (case on_body_cb w of
             Plain_Body \<Rightarrow> Inr (RC_OK, record_part_msg cid (upd (AppendBody d) w))
           | MPart_Body \<Rightarrow>
               (case rq_mpart (hp_req hc) of
                  None \<Rightarrow> Inl Null_Pointer
                | Some b \<Rightarrow> Inr (RC_OK, upd (\<lambda>r. r\<lparr>rq_parsed := rq_parsed r + mp_parsed (we_lib e) b d\<rparr>) w)))
      | Cb_Complete \<Rightarrow>
          (if \<not> we_debug e then Inr (RC_OK, set_ctx cid (hc\<lparr>hp_complete := True\<rparr>) w)
           else map_sum id (\<lambda>r. (RC_OK, set_ctx cid (hc\<lparr>hp_complete := True, hp_req := r\<rparr>) w)) (Dump (we_lib e) (hp_req hc))))"

text \<open>The callbacks for a chunk, until one fails: how many were made.\<close>

fun http_callbacks ::
  "'l web_env \<Rightarrow> int \<Rightarrow> nat \<Rightarrow> http_cb list \<Rightarrow> 'l web_world \<Rightarrow> web_fault + nat \<times> 'l web_world" where
  "http_callbacks e cid k [] w = Inr (k, w)"
| "http_callbacks e cid k (cb # cbs) w =
     (case conn_ctxs w cid of
        None \<Rightarrow> Inl Freed_Ctx
      | Some hc \<Rightarrow>
          (case http_callback e cid cb hc w of
             Inl f \<Rightarrow> Inl f
           | Inr (ret, w1) \<Rightarrow> if ret \<noteq> 0 then Inr (k + 1, w1) else http_callbacks e cid (k + 1) cbs w1))"

subsection \<open>A chunk\<close>

text \<open>\<^verbatim>\<open>WebLogic::OnHTTPReq\<close>: whether the connection is closed, and the new state.\<close>

definition on_http_req :: "'l web_env \<Rightarrow> int \<Rightarrow> http_req \<Rightarrow> 'l web_world \<Rightarrow> bool \<times> 'l web_world" where
  "on_http_req e cid r w =
     (if cid \<notin> live w then (False, w)
      else (let w1 = w\<lparr>watched_conns := watched_conns w - {cid}\<rparr> in
            case http_handlers w (rq_path r) of
              None \<Rightarrow> (False, w1)
            | Some h \<Rightarrow>
                (let calls = http_calls e cid h r;
                     w2 = fold web_close (concat (map (we_closes e) calls)) (w1\<lparr>web_log := web_log w1 @ calls\<rparr>) in
                 (cid \<notin> live w2, w2))))"

text \<open>
  \<^verbatim>\<open>ws::Parser::Execute\<close> for a connection; closing it from inside frees its context. Whether the
  connection is watched is the \<open>part_msg\<close> of \<open>Ws_Messages\<close>.
\<close>

definition ws_chunk :: "'l web_env \<Rightarrow> int \<Rightarrow> bytes \<Rightarrow> 'l http_conn \<Rightarrow> 'l web_world \<Rightarrow> web_fault + 'l web_world" where
  "ws_chunk e cid data hc w =
     (case hc_ws hc of
        (freed, ps, u) \<Rightarrow>
          (case ws_execute (we_max_size e) (we_ws_closes e) data (freed, ps, u\<lparr>part_msg := cid \<in> watched_conns w\<rparr>) of
             Inl f \<Rightarrow> Inl (Ws_Fault f)
           | Inr (ret, freed', ps', u') \<Rightarrow>
               (let w1 = (set_ctx cid (hc\<lparr>hc_ws := (freed', ps', u')\<rparr>) w)
                      \<lparr>watched_conns := (if part_msg u' then insert cid else (\<lambda>x. x - {cid})) (watched_conns w)\<rparr> in
                Inr (if freed' then web_close cid w1 else w1))))"

text \<open>\<^verbatim>\<open>WebLogic::OnUpgrade\<close>.\<close>

definition on_upgrade :: "'l web_env \<Rightarrow> int \<Rightarrow> bytes \<Rightarrow> 'l web_world \<Rightarrow> web_fault + 'l web_world" where
  "on_upgrade e cid data w =
     (case conn_ctxs w cid of
        None \<Rightarrow> Inr w
      | Some hc \<Rightarrow>
          (let headers = (\<lambda>name. map_option chars (rq_headers (hp_req hc) (ascii name))) in
           case check_upgrade headers (hc_key hc) of
             (ret, key) \<Rightarrow>
               if ret \<noteq> 0 then Inr (web_close cid (set_ctx cid (hc\<lparr>hc_key := key\<rparr>) w))
               else (let hs = make_handshake (we_accept e) (we_date e) (fst key) (snd key);
                         hc1 = hc\<lparr>hc_key := key, hc_upgrade := True\<rparr> in
                     if \<not> we_send_ok e then Inr (web_close cid (set_ctx cid (hc\<lparr>hc_key := key\<rparr>) w))
                     else (let w1 = set_ctx cid hc1 (w\<lparr>web_log := web_log w @ [Handshake cid hs]\<rparr>) in
                           if 0 < length data then ws_chunk e cid data hc1 w1 else Inr w1))))"

text \<open>The request as the handler gets it.\<close>

definition decode_query :: "http_req \<Rightarrow> http_req" where
  "decode_query r =
     (if rq_url_decode r
      then r\<lparr>rq_query := (if 0 < length (rq_query r) then url_decode (rq_query r) else rq_query r),
             rq_body := (if 0 < length (rq_body r) then url_decode (rq_body r) else rq_body r)\<rparr>
      else r)"

definition finish_req :: "http_req \<Rightarrow> http_req" where
  "finish_req r = (let r1 = decode_query r in if 0 < length (rq_query r1) then ParseQuery r1 else r1)"

text \<open>\<^verbatim>\<open>http::Parser::Execute\<close>.\<close>

definition http_execute :: "'l web_env \<Rightarrow> int \<Rightarrow> bytes \<Rightarrow> 'l web_world \<Rightarrow> web_fault + int \<times> 'l web_world" where
  "http_execute e cid buffer w =
     (case conn_ctxs w cid of
        None \<Rightarrow> Inl Freed_Ctx
      | Some hc0 \<Rightarrow>
          (case http_callbacks e cid 0 (lib_calls (we_lib e) (hp_lib hc0) buffer) w of
             Inl f \<Rightarrow> Inl f
           | Inr (k, w1) \<Rightarrow>
               (case conn_ctxs w1 cid of
                  None \<Rightarrow> Inl Freed_Ctx
                | Some hc \<Rightarrow>
                    (case lib_end (we_lib e) (hp_lib hc0) buffer k of
                       (n, upgrade, errno, l) \<Rightarrow>
                         (let w2 = set_ctx cid (hc\<lparr>hp_lib := l\<rparr>) w1 in
                          if upgrade then map_sum id (\<lambda>w3. (RC_OK, w3)) (on_upgrade e cid (drop n buffer) w2)
                          else if n \<noteq> length buffer then Inr (errno, w2)
                          else if \<not> hp_complete hc then Inr (RC_OK, w2)
                          else (let r = finish_req (hp_req hc);
                                    w3 = set_ctx cid (hc\<lparr>hp_lib := l, hp_req := r\<rparr>) w2 in
                                case on_http_req e cid r w3 of
                                  (closed, w4) \<Rightarrow>
                                    if closed then Inr (RC_OK, w4)
                                    else (case conn_ctxs w4 cid of
                                            None \<Rightarrow> Inl Freed_Ctx
                                          | Some hc4 \<Rightarrow>
                                              Inr (RC_OK, set_ctx cid (hc4\<lparr>hp_req := req_reset (hp_req hc4),
                                                last_header_name := [], hp_complete := False\<rparr>) w4))))))))"

text \<open>\<^verbatim>\<open>WebLogic::OnRecvClientData\<close>; results are not looked at.\<close>

definition web_recv :: "'l web_env \<Rightarrow> int \<Rightarrow> bytes \<Rightarrow> 'l web_world \<Rightarrow> web_fault + 'l web_world" where
  "web_recv e cid data w =
     (case conn_ctxs w cid of
        None \<Rightarrow> Inr w
      | Some hc \<Rightarrow>
          if \<not> hc_upgrade hc then map_sum id snd (http_execute e cid data w)
          else ws_chunk e cid data hc w)"

text \<open>The watch over incomplete messages closes the connections it finds.\<close>

definition web_part_timeout :: "int \<Rightarrow> 'l web_world \<Rightarrow> 'l web_world" where
  "web_part_timeout cid w = (if cid \<in> watched_conns w then web_close cid w else w)"

definition web_finalize :: "'l web_world \<Rightarrow> 'l web_world" where
  "web_finalize w = w\<lparr>conn_ctxs := Map.empty, watched_conns := {}\<rparr>"

end
