(* ===== verification/Web_Requests.thy ===== *)
theory Web_Requests
  imports Web_Http
begin

text \<open>
  Properties of the HTTP requests of \<^verbatim>\<open>Web_Http\<close>: the tables of a web logic agree, requests are
  dispatched once and complete however they are cut into chunks, queries come back, and what the
  code cannot cope with.
\<close>

lemma map_sum_Inr: "map_sum id f x = Inr y \<longleftrightarrow> (\<exists>z. x = Inr z \<and> y = f z)"
  by (cases x) auto

subsection \<open>Tables\<close>

text \<open>Every connection of the center has a context, and only such are watched.\<close>

definition web_inv :: "'l web_world \<Rightarrow> bool" where
  "web_inv w \<longleftrightarrow> dom (conn_ctxs w) = live w \<and> watched_conns w \<subseteq> live w"

lemma set_ctx_simps [simp]:
  "conn_ctxs (set_ctx cid hc w) = (conn_ctxs w)(cid \<mapsto> hc)" "live (set_ctx cid hc w) = live w"
  "watched_conns (set_ctx cid hc w) = watched_conns w" "on_body_cb (set_ctx cid hc w) = on_body_cb w"
  "http_handlers (set_ctx cid hc w) = http_handlers w" "web_log (set_ctx cid hc w) = web_log w"
  by (simp_all add: set_ctx_def)

lemma record_part_simps [simp]:
  "conn_ctxs (record_part_msg cid w) = conn_ctxs w" "live (record_part_msg cid w) = live w"
  "on_body_cb (record_part_msg cid w) = on_body_cb w" "http_handlers (record_part_msg cid w) = http_handlers w"
  "web_log (record_part_msg cid w) = web_log w"
  "watched_conns (record_part_msg cid w) = (if cid \<in> live w then insert cid (watched_conns w) else watched_conns w)"
  by (simp_all add: record_part_msg_def)

lemma web_inv_set: "web_inv w \<Longrightarrow> conn_ctxs w cid = Some hc \<Longrightarrow> web_inv (set_ctx cid hc' w)"
  by (auto simp: web_inv_def)

lemma web_inv_set2: "web_inv w \<Longrightarrow> conn_ctxs w cid = Some hc \<Longrightarrow> web_inv (set_ctx cid hc' (w\<lparr>on_body_cb := cb\<rparr>))"
  by (auto simp: web_inv_def)

lemma web_inv_record: "web_inv w \<Longrightarrow> web_inv (record_part_msg cid w)"
  by (auto simp: web_inv_def)

lemma web_inv_upd [simp]:
  "web_inv (w\<lparr>on_body_cb := cb\<rparr>) = web_inv w" "web_inv (w\<lparr>web_log := l\<rparr>) = web_inv w"
  by (simp_all add: web_inv_def)

lemma web_close_inv: "web_inv w \<Longrightarrow> web_inv (web_close cid w)"
  by (auto simp: web_inv_def web_close_def web_on_closed_def Let_def)

lemma web_close_fold_inv: "web_inv w \<Longrightarrow> web_inv (fold web_close cids w)"
  by (induction cids arbitrary: w) (simp_all add: web_close_inv)

lemma web_accept_inv: "web_inv w \<Longrightarrow> web_inv (web_accept e cid w)"
  by (auto simp: web_inv_def web_accept_def web_on_connected_def)

text \<open>Callbacks change their own context only.\<close>

lemma http_callback_inv:
  assumes "web_inv w" "conn_ctxs w cid = Some hc" "http_callback e cid cb hc w = Inr (ret, w')"
  shows "web_inv w' \<and> live w' = live w \<and> conn_ctxs w' cid \<noteq> None"
proof -
  note i = assms(1) web_inv_set[OF assms(1,2)] web_inv_set2[OF assms(1,2)]
  have c: "conn_ctxs w cid \<noteq> None" using assms(2) by simp
  show ?thesis
  proof (cases cb)
    case (Cb_Headers meth major minor)
    with assms(3) have "on_headers_complete cid meth major minor hc w = Inr (ret, w')" by (simp add: http_callback_def)
    then show ?thesis
      unfolding on_headers_complete_def Let_def
      by (auto split: option.splits if_splits sum.splits intro!: i web_inv_record)
  next
    case (Cb_Body d)
    with assms(3) show ?thesis
      by (auto simp: http_callback_def Let_def split: option.splits body_cb.splits intro!: i web_inv_record)
  next
    case Cb_Complete
    with assms(3) show ?thesis
      by (auto simp: http_callback_def map_sum_Inr split: if_splits intro!: i)
  qed (use assms(3) c in \<open>auto simp: http_callback_def Let_def intro!: i web_inv_record\<close>)
qed

lemma http_callbacks_inv:
  "web_inv w \<Longrightarrow> http_callbacks e cid k cbs w = Inr (n, w') \<Longrightarrow> conn_ctxs w cid \<noteq> None \<Longrightarrow>
   web_inv w' \<and> live w' = live w \<and> conn_ctxs w' cid \<noteq> None"
proof (induction cbs arbitrary: k w)
  case (Cons cb cbs)
  then obtain hc where hc: "conn_ctxs w cid = Some hc" by blast
  from Cons.prems(2) hc obtain ret w1 where w1: "http_callback e cid cb hc w = Inr (ret, w1)"
    "(if ret \<noteq> 0 then Inr (k + 1, w1) else http_callbacks e cid (k + 1) cbs w1) = Inr (n, w')"
    by (auto split: sum.splits)
  note i = http_callback_inv[OF Cons.prems(1) hc w1(1)]
  show ?case
  proof (cases "ret = 0")
    case True
    with w1(2) Cons.IH[of w1 "k + 1"] i show ?thesis by simp
  qed (use w1(2) i in simp)
qed simp

lemma http_callbacks_ctx:
  "web_inv w \<Longrightarrow> conn_ctxs w cid \<noteq> None \<Longrightarrow> http_callbacks e cid k cbs w \<noteq> Inl Freed_Ctx"
proof (induction cbs arbitrary: k w)
  case (Cons cb cbs)
  then obtain hc where hc: "conn_ctxs w cid = Some hc" by blast
  have "GetBoundary ct \<noteq> Inl Freed_Ctx" for ct
  proof -
    have "parse_pairs ps attrs \<noteq> Inl Freed_Ctx" for ps attrs
      by (induction ps attrs rule: parse_pairs.induct) (auto split: list.splits)
    then show ?thesis by (auto simp: GetBoundary_def ParseAttr_def map_sum_def split: sum.splits)
  qed
  then have "http_callback e cid cb hc w \<noteq> Inl Freed_Ctx"
    by (auto simp: http_callback_def on_headers_complete_def Let_def Dump_def split: http_cb.splits option.splits sum.splits body_cb.splits if_splits)
  moreover have "http_callbacks e cid (k + 1) cbs w1 \<noteq> Inl Freed_Ctx" if "http_callback e cid cb hc w = Inr (ret, w1)" for ret w1
    using Cons.IH[of w1 "k + 1"] http_callback_inv[OF Cons.prems(1) hc that] by simp
  ultimately show ?case using hc by (auto split: sum.splits)
qed simp

lemma ws_chunk_inv: "web_inv w \<Longrightarrow> conn_ctxs w cid = Some hc0 \<Longrightarrow> ws_chunk e cid d hc w = Inr w' \<Longrightarrow> web_inv w'"
proof -
  assume a: "web_inv w" "conn_ctxs w cid = Some hc0" "ws_chunk e cid d hc w = Inr w'"
  have i: "web_inv ((set_ctx cid hc' w)\<lparr>watched_conns := insert cid (watched_conns w)\<rparr>)"
    "web_inv ((set_ctx cid hc' w)\<lparr>watched_conns := watched_conns w - {cid}\<rparr>)" for hc'
    using a(1,2) by (auto simp: web_inv_def)
  from a(3) show "web_inv w'"
    by (auto simp: ws_chunk_def Let_def i split: prod.splits sum.splits if_splits intro!: web_close_inv)
qed

lemma on_http_req_inv:
  assumes "web_inv w" "on_http_req e cid r w = (closed, w')" "conn_ctxs w cid \<noteq> None"
  shows "web_inv w' \<and> (\<not> closed \<longrightarrow> conn_ctxs w' cid \<noteq> None)"
proof -
  have l: "cid \<in> live w" using assms(1,3) by (auto simp: web_inv_def)
  have i: "web_inv (w\<lparr>watched_conns := watched_conns w - {cid}\<rparr>)" using assms(1) by (auto simp: web_inv_def)
  show ?thesis
  proof (cases "http_handlers w (rq_path r)")
    case None
    with assms(2,3) l i show ?thesis by (auto simp: on_http_req_def)
  next
    case (Some h)
    let ?w = "fold web_close (concat (map (we_closes e) (http_calls e cid h r)))
      (w\<lparr>watched_conns := watched_conns w - {cid}, web_log := web_log w @ http_calls e cid h r\<rparr>)"
    have "web_inv ?w" using i by (intro web_close_fold_inv) (simp add: web_inv_def)
    moreover have "closed = (cid \<notin> live ?w)" "w' = ?w" using assms(2) Some l unfolding on_http_req_def Let_def by auto
    ultimately show ?thesis by (auto simp: web_inv_def)
  qed
qed

lemma on_upgrade_inv:
  assumes "web_inv w" "on_upgrade e cid d w = Inr w'"
  shows "web_inv w'"
proof (cases "conn_ctxs w cid")
  case None
  with assms show ?thesis by (simp add: on_upgrade_def)
next
  case (Some hc)
  note s = web_inv_set[OF assms(1) Some]
  obtain ret key where ck: "check_upgrade (\<lambda>name. map_option chars (rq_headers (hp_req hc) (ascii name))) (hc_key hc) = (ret, key)"
    by (cases "check_upgrade (\<lambda>name. map_option chars (rq_headers (hp_req hc) (ascii name))) (hc_key hc)")
  let ?hs = "make_handshake (we_accept e) (we_date e) (fst key) (snd key)"
  let ?w1 = "set_ctx cid (hc\<lparr>hc_key := key, hc_upgrade := True\<rparr>) (w\<lparr>web_log := web_log w @ [Handshake cid ?hs]\<rparr>)"
  have w1: "web_inv ?w1" "conn_ctxs ?w1 cid = Some (hc\<lparr>hc_key := key, hc_upgrade := True\<rparr>)"
    using assms(1) Some by (auto simp: web_inv_def)
  show ?thesis
  proof (cases "ret = 0 \<and> we_send_ok e")
    case False
    with assms(2) Some ck web_close_inv[OF s] show ?thesis by (auto simp: on_upgrade_def Let_def split: if_splits)
  next
    case True
    then have "(if 0 < length d then ws_chunk e cid d (hc\<lparr>hc_key := key, hc_upgrade := True\<rparr>) ?w1 else Inr ?w1) = Inr w'"
      using assms(2) Some ck by (simp add: on_upgrade_def Let_def)
    with w1(1) ws_chunk_inv[OF w1] show ?thesis by (cases "0 < length d") auto
  qed
qed

lemma http_execute_inv:
  assumes "web_inv w" "http_execute e cid x w = Inr (ret, w')"
  shows "web_inv w'"
proof -
  from assms(2) obtain hc0 k w1 hc n up err l where s: "conn_ctxs w cid = Some hc0"
    "http_callbacks e cid 0 (lib_calls (we_lib e) (hp_lib hc0) x) w = Inr (k, w1)" "conn_ctxs w1 cid = Some hc"
    "lib_end (we_lib e) (hp_lib hc0) x k = (n, up, err, l)"
    by (auto simp: http_execute_def split: option.splits sum.splits prod.splits)
  have w1: "web_inv w1" using http_callbacks_inv[OF assms(1) s(2)] s(1) by simp
  let ?w2 = "set_ctx cid (hc\<lparr>hp_lib := l\<rparr>) w1"
  note w2 = web_inv_set[OF w1 s(3), of "hc\<lparr>hp_lib := l\<rparr>"]
  note eq = assms(2)[unfolded http_execute_def s(1) option.case, unfolded s(2) sum.case prod.case, unfolded s(3) option.case,
      unfolded s(4) prod.case Let_def]
  show ?thesis
  proof (cases "up \<or> n \<noteq> length x \<or> \<not> hp_complete hc")
    case True
    with eq w2 on_upgrade_inv[OF w2] show ?thesis by (auto simp: map_sum_Inr split: if_splits)
  next
    case False
    let ?r = "finish_req (hp_req hc)"
    let ?w3 = "set_ctx cid (hc\<lparr>hp_lib := l, hp_req := ?r\<rparr>) ?w2"
    obtain closed w4 where w4: "on_http_req e cid ?r ?w3 = (closed, w4)" by fastforce
    have "web_inv ?w3" by (rule web_inv_set[OF w2]) simp
    from on_http_req_inv[OF this w4] have i4: "web_inv w4" by simp
    from eq False w4 i4 web_inv_set[OF i4] show ?thesis by (auto split: if_splits option.splits)
  qed
qed

lemma web_recv_inv:
  assumes "web_inv w" "web_recv e cid x w = Inr w'"
  shows "web_inv w'"
proof (cases "conn_ctxs w cid")
  case (Some hc)
  show ?thesis
  proof (cases "hc_upgrade hc")
    case False
    with assms(2) Some obtain ret where "http_execute e cid x w = Inr (ret, w')"
      by (cases "http_execute e cid x w") (auto simp: web_recv_def)
    from http_execute_inv[OF assms(1) this] show ?thesis .
  next
    case True
    with assms Some ws_chunk_inv[OF assms(1) Some] show ?thesis by (simp add: web_recv_def)
  qed
qed (use assms in \<open>simp add: web_recv_def\<close>)

text \<open>No chunk makes the code use a context that is gone.\<close>

lemma web_recv_ctx:
  assumes inv: "web_inv w"
  shows "web_recv e cid x w \<noteq> Inl Freed_Ctx"
proof (cases "conn_ctxs w cid")
  case None
  then show ?thesis by (simp add: web_recv_def)
next
  case (Some hc0)
  have ws: "ws_chunk e cid d hc u \<noteq> Inl Freed_Ctx" for d hc u
    by (auto simp: ws_chunk_def Let_def split: prod.splits sum.splits)
  have up: "on_upgrade e cid d u \<noteq> Inl Freed_Ctx" for d u
    by (auto simp: on_upgrade_def Let_def ws split: option.splits prod.splits)
  have "http_execute e cid x w \<noteq> Inl Freed_Ctx"
  proof (cases "http_callbacks e cid 0 (lib_calls (we_lib e) (hp_lib hc0) x) w")
    case (Inl f)
    with http_callbacks_ctx[OF inv, of cid e 0 "lib_calls (we_lib e) (hp_lib hc0) x"] Some show ?thesis
      by (simp add: http_execute_def)
  next
    case (Inr kw)
    obtain k w1 where kw: "kw = (k, w1)" by fastforce
    from http_callbacks_inv[OF inv Inr[unfolded kw]] Some obtain hc where w1: "web_inv w1" "conn_ctxs w1 cid = Some hc" by auto
    obtain n u err l where le: "lib_end (we_lib e) (hp_lib hc0) x k = (n, u, err, l)"
      by (cases "lib_end (we_lib e) (hp_lib hc0) x k")
    let ?w2 = "set_ctx cid (hc\<lparr>hp_lib := l\<rparr>) w1"
    let ?r = "finish_req (hp_req hc)"
    let ?w3 = "set_ctx cid (hc\<lparr>hp_lib := l, hp_req := ?r\<rparr>) ?w2"
    obtain closed w4 where w4: "on_http_req e cid ?r ?w3 = (closed, w4)" by fastforce
    have "web_inv ?w3" using w1 by (auto simp: web_inv_def)
    from on_http_req_inv[OF this w4] have i4: "\<not> closed \<longrightarrow> conn_ctxs w4 cid \<noteq> None" by simp
    have "map_sum id (\<lambda>w3. (RC_OK, w3)) (on_upgrade e cid (drop n x) ?w2) \<noteq> Inl Freed_Ctx"
      using up[of "drop n x" ?w2] by (cases "on_upgrade e cid (drop n x) ?w2") auto
    then show ?thesis
      unfolding http_execute_def Some option.case Inr kw sum.case prod.case w1(2) le Let_def w4
      using i4 by (auto split: option.splits)
  qed
  with Some ws show ?thesis by (cases "http_execute e cid x w") (auto simp: web_recv_def)
qed

inductive web_step :: "'l web_env \<Rightarrow> 'l web_world \<Rightarrow> 'l web_world \<Rightarrow> bool" for e where
  web_accepts: "cid \<notin> live w \<Longrightarrow> web_step e w (web_accept e cid w)"
| web_closes: "web_step e w (web_close cid w)"
| web_recvs: "web_recv e cid x w = Inr w' \<Longrightarrow> web_step e w w'"
| web_expires: "web_step e w (web_part_timeout cid w)"
| web_attach: "web_step e w (w\<lparr>http_handlers := snd (attach_http path h (http_handlers w))\<rparr>)"
| web_detach: "web_step e w (w\<lparr>http_handlers := detach_http path (http_handlers w)\<rparr>)"
| web_other: "web_step e w (w\<lparr>on_body_cb := cb\<rparr>)"

inductive web_reach :: "'l web_world \<Rightarrow> bool" where
  web_start: "web_reach (web_init cb)"
| web_next: "web_reach w \<Longrightarrow> web_step e w w' \<Longrightarrow> web_reach w'"

lemma web_reach_inv: "web_reach w \<Longrightarrow> web_inv w"
proof (induction rule: web_reach.induct)
  case (web_start cb)
  show ?case by (simp add: web_inv_def web_init_def)
next
  case (web_next w e w')
  from web_next.hyps(2) web_next.IH show ?case
  proof (induction rule: web_step.induct)
    case (web_recvs cid x w w')
    then show ?case by (rule_tac web_recv_inv)
  next
    case (web_expires w cid)
    then show ?case by (simp add: web_part_timeout_def web_close_inv)
  next
    case (web_accepts cid w)
    then show ?case by (simp add: web_accept_inv)
  next
    case (web_closes w cid)
    then show ?case by (simp add: web_close_inv)
  qed (simp_all add: web_inv_def)
qed

text \<open>
  Claim C29: the tables of a web logic agree in every state it can get into, with threads of their
  own switching the shared table of callbacks at any time. Exactly the connections of the center
  have a context, only such connections are watched for incomplete messages, a closed connection
  leaves nothing behind, and no received chunk makes the code use the context of a connection that
  a handler has closed. Logics close connections from inside their message callbacks, not when they are told that one
  was made or lost.
\<close>

theorem web_tables_safe:
  assumes "web_reach w"
  shows "dom (conn_ctxs w) = live w \<and> watched_conns w \<subseteq> live w \<and> web_recv e cid x w \<noteq> Inl Freed_Ctx \<and>
    conn_ctxs (web_close cid w) cid = None \<and> cid \<notin> watched_conns (web_close cid w)"
  using web_reach_inv[OF assms] web_recv_ctx[OF web_reach_inv[OF assms]]
  by (auto simp: web_inv_def web_close_def web_on_closed_def Let_def)

subsection \<open>A request in pieces\<close>

text \<open>What a callback does to its context, when it is no multipart header and bodies are plain.\<close>

definition is_form :: "(bytes \<rightharpoonup> bytes) \<Rightarrow> bool" where
  "is_form headers = (case headers (ascii ''Content-Type'') of None \<Rightarrow> False
     | Some ct \<Rightarrow> starts_nocase (ascii ''application/x-www-form-urlencoded'') ct)"

definition is_multipart :: "(bytes \<rightharpoonup> bytes) \<Rightarrow> bool" where
  "is_multipart headers = (case headers (ascii ''Content-Type'') of None \<Rightarrow> False
     | Some ct \<Rightarrow> \<not> starts_nocase (ascii ''application/x-www-form-urlencoded'') ct \<and> starts_nocase (ascii ''multipart/form-data'') ct)"

definition headers_done :: "int \<Rightarrow> int \<Rightarrow> int \<Rightarrow> http_req \<Rightarrow> http_req" where
  "headers_done meth major minor r =
     (let r1 = ParseClientIP (r\<lparr>rq_method := meth, rq_major := major, rq_minor := minor\<rparr>) in
      if is_form (rq_headers r1) then r1\<lparr>rq_url_decode := True\<rparr> else r1)"

fun cb_apply :: "'l http_lib \<Rightarrow> http_cb \<Rightarrow> 'l http_conn \<Rightarrow> 'l http_conn" where
  "cb_apply lib Cb_Begin hc = hc"
| "cb_apply lib (Cb_Url url) hc = upd_req (ParseURL (lib_url lib) url) hc"
| "cb_apply lib (Cb_Field name) hc = hc\<lparr>last_header_name := name\<rparr>"
| "cb_apply lib (Cb_Value val) hc = upd_req (AddHeader (last_header_name hc) val) hc"
| "cb_apply lib (Cb_Headers meth major minor) hc = upd_req (headers_done meth major minor) hc"
| "cb_apply lib (Cb_Body d) hc = upd_req (AppendBody d) hc"
| "cb_apply lib Cb_Complete hc = hc\<lparr>hp_complete := True\<rparr>"

fun plain_cb :: "http_cb \<Rightarrow> 'l http_conn \<Rightarrow> bool" where
  "plain_cb (Cb_Headers meth major minor) hc = (\<not> is_multipart (rq_headers (hp_req hc)))"
| "plain_cb _ hc = True"

fun plain_run :: "'l http_lib \<Rightarrow> http_cb list \<Rightarrow> 'l http_conn \<Rightarrow> bool" where
  "plain_run lib [] hc = True"
| "plain_run lib (cb # cbs) hc = (plain_cb cb hc \<and> plain_run lib cbs (cb_apply lib cb hc))"

lemma plain_run_append: "plain_run lib (xs @ ys) hc \<longleftrightarrow> plain_run lib xs hc \<and> plain_run lib ys (fold (cb_apply lib) xs hc)"
  by (induction xs arbitrary: hc) auto

text \<open>Only the context of one connection has changed, and whether it is watched.\<close>

definition moved :: "'l web_world \<Rightarrow> int \<Rightarrow> 'l http_conn \<Rightarrow> 'l web_world \<Rightarrow> bool" where
  "moved w cid hc w' \<longleftrightarrow> conn_ctxs w' = (conn_ctxs w)(cid \<mapsto> hc) \<and> live w' = live w \<and> http_handlers w' = http_handlers w \<and>
     web_log w' = web_log w \<and> watched_conns w' - {cid} = watched_conns w - {cid}"

lemma moved_trans: "moved w cid hc w1 \<Longrightarrow> moved w1 cid hc' w2 \<Longrightarrow> moved w cid hc' w2"
  by (simp add: moved_def)

lemma client_ip_headers [simp]: "rq_headers (ParseClientIP r) = rq_headers r"
  by (simp add: ParseClientIP_def split: option.splits)

lemma callback_plain:
  assumes "conn_ctxs w cid = Some hc" "cid \<in> live w" "plain_cb cb hc" "\<not> we_debug e" "cb = Cb_Begin \<or> on_body_cb w = Plain_Body"
  shows "\<exists>w'. http_callback e cid cb hc w = Inr (0, w') \<and> moved w cid (cb_apply (we_lib e) cb hc) w' \<and> on_body_cb w' = Plain_Body"
proof (cases cb)
  case (Cb_Headers meth major minor)
  let ?r = "ParseClientIP ((hp_req hc)\<lparr>rq_method := meth, rq_major := major, rq_minor := minor\<rparr>)"
  have h: "rq_headers ?r = rq_headers (hp_req hc)" by simp
  have "on_headers_complete cid meth major minor hc w =
      Inr (0, record_part_msg cid (set_ctx cid (hc\<lparr>hp_req := headers_done meth major minor (hp_req hc)\<rparr>) w))"
    using assms(3) Cb_Headers
    by (auto simp: on_headers_complete_def Let_def is_multipart_def headers_done_def is_form_def h split: option.splits)
  with assms Cb_Headers show ?thesis by (auto simp: http_callback_def moved_def upd_req_def)
next
  case Cb_Begin
  with assms show ?thesis by (auto simp: http_callback_def moved_def fun_upd_idem)
qed (use assms in \<open>auto simp: http_callback_def moved_def upd_req_def Let_def\<close>)

lemma callbacks_plain:
  assumes "conn_ctxs w cid = Some hc" "cid \<in> live w" "plain_run (we_lib e) cbs hc" "\<not> we_debug e"
    "cbs = [] \<or> hd cbs = Cb_Begin \<or> on_body_cb w = Plain_Body"
  shows "\<exists>w'. http_callbacks e cid k cbs w = Inr (k + length cbs, w') \<and> moved w cid (fold (cb_apply (we_lib e)) cbs hc) w' \<and>
    (cbs \<noteq> [] \<longrightarrow> on_body_cb w' = Plain_Body) \<and> (cbs = [] \<longrightarrow> w' = w)"
  using assms
proof (induction cbs arbitrary: w hc k)
  case Nil
  then show ?case by (simp add: moved_def fun_upd_idem)
next
  case (Cons cb cbs)
  have pl: "plain_cb cb hc" "plain_run (we_lib e) cbs (cb_apply (we_lib e) cb hc)" "cb = Cb_Begin \<or> on_body_cb w = Plain_Body"
    using Cons.prems(3,5) by simp_all
  from callback_plain[OF Cons.prems(1,2) pl(1) Cons.prems(4) pl(3)] obtain w1 where w1: "http_callback e cid cb hc w = Inr (0, w1)"
    "moved w cid (cb_apply (we_lib e) cb hc) w1" "on_body_cb w1 = Plain_Body" by blast
  from Cons.IH[of w1 "cb_apply (we_lib e) cb hc" "k + 1"] w1 pl(2) Cons.prems(2,4) obtain w2 where
    "http_callbacks e cid (k + 1) cbs w1 = Inr (k + 1 + length cbs, w2)"
    "moved w1 cid (fold (cb_apply (we_lib e)) cbs (cb_apply (we_lib e) cb hc)) w2"
    "cbs \<noteq> [] \<longrightarrow> on_body_cb w2 = Plain_Body" "cbs = [] \<longrightarrow> w2 = w1" by (auto simp: moved_def)
  with w1 Cons.prems(1) moved_trans[OF w1(2)] show ?case by (cases cbs) auto
qed



lemma cb_apply_keeps [simp]:
  "hp_lib (cb_apply lib cb hc) = hp_lib hc" "hc_upgrade (cb_apply lib cb hc) = hc_upgrade hc"
  "hp_complete (cb_apply lib cb hc) = (hp_complete hc \<or> cb = Cb_Complete)"
  by (cases cb; simp add: upd_req_def)+

lemma cb_fold_keeps [simp]:
  "hp_lib (fold (cb_apply lib) cbs hc) = hp_lib hc" "hc_upgrade (fold (cb_apply lib) cbs hc) = hc_upgrade hc"
  "hp_complete (fold (cb_apply lib) cbs hc) = (hp_complete hc \<or> Cb_Complete \<in> set cbs)"
  by (induction cbs arbitrary: hc) auto

lemma cb_apply_lib [simp]:
  "cb_apply lib cb (hc\<lparr>hp_lib := l\<rparr>) = (cb_apply lib cb hc)\<lparr>hp_lib := l\<rparr>"
  by (cases cb; simp add: upd_req_def)




text \<open>The chunk that finishes it.\<close>

lemma recv_last:
  assumes c: "conn_ctxs w cid = Some hc" "cid \<in> live w" "\<not> hc_upgrade hc" and e: "\<not> we_debug e"
    and cs: "lib_calls (we_lib e) (hp_lib hc) x = cs" "lib_end (we_lib e) (hp_lib hc) x (length cs) = (length x, False, err, l)"
    and pl: "plain_run (we_lib e) cs hc" "cs = [] \<or> hd cs = Cb_Begin \<or> on_body_cb w = Plain_Body" "Cb_Complete \<in> set cs"
    and r: "finish_req (hp_req (fold (cb_apply (we_lib e)) cs hc)) = r" "http_handlers w (rq_path r) = Some h"
    and quiet: "concat (map (we_closes e) (http_calls e cid h r)) = []"
  shows "\<exists>w'. web_recv e cid x w = Inr w' \<and> web_log w' = web_log w @ http_calls e cid h r \<and> live w' = live w \<and>
    conn_ctxs w' = (conn_ctxs w)(cid \<mapsto> (fold (cb_apply (we_lib e)) cs hc)\<lparr>hp_lib := l, hp_req := req_reset r,
      last_header_name := [], hp_complete := False\<rparr>) \<and>
    cid \<notin> watched_conns w' \<and> on_body_cb w' = Plain_Body \<and> http_handlers w' = http_handlers w"
proof -
  let ?hc = "fold (cb_apply (we_lib e)) cs hc"
  from callbacks_plain[OF c(1,2) pl(1) e pl(2), of 0] obtain w1 where w1: "http_callbacks e cid 0 cs w = Inr (length cs, w1)"
    "moved w cid ?hc w1" "cs \<noteq> [] \<longrightarrow> on_body_cb w1 = Plain_Body" by auto
  have c1: "conn_ctxs w1 cid = Some ?hc" using w1(2) by (simp add: moved_def)
  let ?w3 = "set_ctx cid (?hc\<lparr>hp_lib := l, hp_req := r\<rparr>) (set_ctx cid (?hc\<lparr>hp_lib := l\<rparr>) w1)"
  let ?w4 = "?w3\<lparr>watched_conns := watched_conns w1 - {cid}, web_log := web_log w @ http_calls e cid h r\<rparr>"
  have m: "live w1 = live w" "http_handlers w1 = http_handlers w" "web_log w1 = web_log w" "conn_ctxs w1 = (conn_ctxs w)(cid \<mapsto> ?hc)"
    using w1(2) by (simp_all add: moved_def)
  have "on_http_req e cid r ?w3 = (False, ?w4)"
    using c(2) r(2) m by (simp add: on_http_req_def Let_def quiet)
  then have "web_recv e cid x w = Inr (set_ctx cid (?hc\<lparr>hp_lib := l, hp_req := req_reset r, last_header_name := [],
      hp_complete := False\<rparr>) ?w4)"
    using c cs w1(1) pl(3) c1 r(1) by (simp add: web_recv_def http_execute_def Let_def)
  then show ?thesis using m w1(3) pl(3) by (intro exI[of _ "set_ctx cid (?hc\<lparr>hp_lib := l, hp_req := req_reset r, last_header_name := [],
      hp_complete := False\<rparr>) ?w4"]) (auto simp: fun_upd_def)
qed




text \<open>What http_parser calls back for one request: the URL and each name and value in one piece.\<close>

definition request_cbs :: "bytes \<Rightarrow> (bytes \<times> bytes) list \<Rightarrow> int \<Rightarrow> int \<Rightarrow> int \<Rightarrow> bytes list \<Rightarrow> http_cb list" where
  "request_cbs url hs meth major minor bs =
     Cb_Begin # Cb_Url url # concat (map (\<lambda>(n, v). [Cb_Field n, Cb_Value v]) hs) @ Cb_Headers meth major minor # map Cb_Body bs"

definition headers_of :: "(bytes \<times> bytes) list \<Rightarrow> (bytes \<rightharpoonup> bytes) \<Rightarrow> (bytes \<rightharpoonup> bytes)" where
  "headers_of hs = fold (\<lambda>(n, v). map_insert n v) hs"

lemma map_insert_map_of: "fold (\<lambda>(k, v). map_insert k v) kvs m = map_of kvs ++ m"
proof (induction kvs arbitrary: m)
  case (Cons kv kvs)
  obtain k v where kv: "kv = (k, v)" by fastforce
  have "map_of kvs ++ map_insert k v m = map_of ((k, v) # kvs) ++ m"
    by (rule ext) (simp add: map_insert_def map_add_def split: option.splits)
  with Cons show ?case by (simp add: kv fun_upd_def)
qed simp

lemma fold_headers:
  "fold (cb_apply lib) (concat (map (\<lambda>(n, v). [Cb_Field n, Cb_Value v]) hs)) hc =
     hc\<lparr>hp_req := (hp_req hc)\<lparr>rq_headers := headers_of hs (rq_headers (hp_req hc))\<rparr>,
        last_header_name := (if hs = [] then last_header_name hc else fst (last hs))\<rparr>"
  by (induction hs arbitrary: hc) (auto simp: headers_of_def upd_req_def AddHeader_def)

lemma fold_body: "fold (cb_apply lib) (map Cb_Body bs) hc = upd_req (AppendBody (concat bs)) hc"
  by (induction bs arbitrary: hc) (auto simp: upd_req_def AppendBody_def)

lemma plain_headers: "plain_run lib (concat (map (\<lambda>(n, v). [Cb_Field n, Cb_Value v]) hs)) hc"
  by (induction hs arbitrary: hc) auto

lemma plain_body: "plain_run lib (map Cb_Body bs) hc"
  by (induction bs arbitrary: hc) auto

text \<open>A parser between two requests.\<close>

definition idle_req :: "http_req \<Rightarrow> bool" where
  "idle_req r \<longleftrightarrow> rq_path r = [] \<and> rq_query r = [] \<and> rq_queries r = Map.empty \<and> rq_headers r = Map.empty \<and> rq_body r = [] \<and>
     rq_client_ip r = [] \<and> \<not> rq_url_decode r"


lemma parse_queries: "fold insert_query ts m = map_of (map query_pair ts) ++ m"
proof -
  have "fold insert_query ts m = fold (\<lambda>(k, v). map_insert k v) (map query_pair ts) m" for m
    by (induction ts arbitrary: m) (simp_all add: insert_query_def split: prod.split)
  then show ?thesis by (simp add: map_insert_map_of)
qed

lemma decode_query_simps [simp]:
  "rq_query (decode_query r) = (if rq_url_decode r then url_decode else id) (rq_query r)"
  "rq_body (decode_query r) = (if rq_url_decode r then url_decode else id) (rq_body r)"
  "rq_path (decode_query r) = rq_path r" "rq_method (decode_query r) = rq_method r" "rq_headers (decode_query r) = rq_headers r"
  "rq_client_ip (decode_query r) = rq_client_ip r" "rq_queries (decode_query r) = rq_queries r"
  by (simp_all add: decode_query_def)

lemma finish_req_simps [simp]:
  "rq_body (finish_req r) = (if rq_url_decode r then url_decode else id) (rq_body r)"
  "rq_path (finish_req r) = rq_path r" "rq_method (finish_req r) = rq_method r" "rq_headers (finish_req r) = rq_headers r"
  "rq_client_ip (finish_req r) = rq_client_ip r"
  by (simp_all add: finish_req_def Let_def ParseQuery_def)

lemma finish_req_queries:
  "rq_queries (finish_req r) =
     map_of (map query_pair (tokens 0x26 (cstr ((if rq_url_decode r then url_decode else id) (rq_query r))))) ++ rq_queries r"
  by (auto simp: finish_req_def Let_def ParseQuery_def parse_queries tokens_def cstr_def)



subsection \<open>A small world\<close>

text \<open>A parser that follows a script, one connection and one handler.\<close>

definition script_lib :: "http_cb list list \<Rightarrow> http_cb list list http_lib" where
  "script_lib script = \<lparr>lib_init = script, lib_calls = (\<lambda>l x. hd l), lib_end = (\<lambda>l x k. (length x, False, 0, tl l)),
     lib_url = (\<lambda>url. Some \<lparr>uf_schema = None, uf_host = None, uf_port = None, uf_path = Some (0, 2), uf_query = Some (3, length url - 3),
       uf_fragment = None, uf_userinfo = None\<rparr>),
     lib_method = (\<lambda>m. ''GET''), mp_parsed = (\<lambda>b d. int (length d))\<rparr>"

definition script_env :: "http_cb list list \<Rightarrow> http_cb list list web_env" where
  "script_env script = \<lparr>we_lib = script_lib script, we_ip = (\<lambda>cid. [49]), we_closes = (\<lambda>ev. []), we_send_ok = True,
     we_accept = id, we_date = [], we_max_size = 1000, we_ws_closes = (\<lambda>es. False), we_debug = False\<rparr>"

definition script_world :: "http_cb list list \<Rightarrow> http_cb list list web_world" where
  "script_world script = (web_accept (script_env script) 1 (web_init Plain_Body))\<lparr>http_handlers := [ascii ''/a'' \<mapsto> 7]\<rparr>"

lemma script_reach: "web_reach (script_world script)"
proof -
  have "web_step (script_env script) (web_init Plain_Body) (web_accept (script_env script) 1 (web_init Plain_Body))"
    by (rule web_accepts) (simp add: web_init_def)
  from web_next[OF web_start this] have r: "web_reach (web_accept (script_env script) 1 (web_init Plain_Body))" .
  have "script_world script = (web_accept (script_env script) 1 (web_init Plain_Body))\<lparr>http_handlers :=
      snd (attach_http (Some (ascii ''/a'')) 7 (http_handlers (web_accept (script_env script) 1 (web_init Plain_Body))))\<rparr>"
    by (simp add: script_world_def attach_http_def web_accept_def web_on_connected_def web_init_def)
  with web_next[OF r web_attach] show ?thesis by metis
qed

lemma script_simps:
  "conn_ctxs (script_world script) 1 = Some (new_http_conn (script_env script))" "live (script_world script) = {1}"
  "http_handlers (script_world script) = [ascii ''/a'' \<mapsto> 7]" "web_log (script_world script) = [Web_Connected 1]"
  "on_body_cb (script_world script) = Plain_Body"
  by (simp_all add: script_world_def web_accept_def web_on_connected_def web_init_def)

lemma script_conn:
  "hp_req (new_http_conn e) = req_new" "\<not> hp_complete (new_http_conn e)" "\<not> hc_upgrade (new_http_conn e)"
  "hp_lib (new_http_conn e) = lib_init (we_lib e)"
  by (simp_all add: new_http_conn_def)

theorem web_tables_safe_witness:
  "dom (conn_ctxs (script_world [])) = {1} \<and> conn_ctxs (web_close 1 (script_world [])) 1 = None"
  using web_tables_safe[OF script_reach, of "[]" "script_env []" 1 "[]"] by (simp add: script_simps)


subsection \<open>Queries\<close>

text \<open>A form as clients send it.\<close>

fun form_query :: "(bytes \<times> bytes) list \<Rightarrow> bytes" where
  "form_query [] = []"
| "form_query [(k, v)] = url_encode k @ 0x3D # url_encode v"
| "form_query ((k, v) # kvs) = url_encode k @ 0x3D # url_encode v @ 0x26 # form_query kvs"

lemma split_on_no: "d \<notin> set xs \<Longrightarrow> split_on d xs = [xs]"
  by (induction xs) auto

lemma split_on_at: "d \<notin> set xs \<Longrightarrow> split_on d (xs @ d # ys) = xs # split_on d ys"
  by (induction xs) auto

lemma query_pair_eq:
  assumes "k \<noteq> []" "0x3D \<notin> set k" "0x3D \<notin> set v"
  shows "query_pair (k @ 0x3D # v) = (k, v)"
  using assms by (cases "v = []") (simp_all add: query_pair_def tokens_def split_on_at split_on_no)

fun join_pairs :: "(bytes \<times> bytes) list \<Rightarrow> bytes" where
  "join_pairs [] = []"
| "join_pairs [(k, v)] = k @ 0x3D # v"
| "join_pairs ((k, v) # kvs) = k @ 0x3D # v @ 0x26 # join_pairs kvs"

lemma tokens_join:
  assumes "\<forall>(k, v) \<in> set kvs. k \<noteq> [] \<and> 0x26 \<notin> set k \<and> 0x26 \<notin> set v"
  shows "tokens 0x26 (join_pairs kvs) = map (\<lambda>(k, v). k @ 0x3D # v) kvs"
  using assms
proof (induction kvs rule: join_pairs.induct)
  case (3 k v kv kvs)
  then have "split_on 0x26 (k @ 0x3D # v @ 0x26 # join_pairs (kv # kvs)) = (k @ 0x3D # v) # split_on 0x26 (join_pairs (kv # kvs))"
    using split_on_at[of "0x26" "k @ 0x3D # v" "join_pairs (kv # kvs)"] by simp
  with 3 show ?case by (simp add: tokens_def)
qed (simp_all add: tokens_def split_on_no)

lemma join_query:
  assumes "\<forall>(k, v) \<in> set kvs. k \<noteq> [] \<and> 0x26 \<notin> set (k @ v) \<and> 0x3D \<notin> set (k @ v)"
  shows "map query_pair (tokens 0x26 (join_pairs kvs)) = kvs"
proof -
  have "map query_pair (map (\<lambda>(k, v). k @ 0x3D # v) kvs) = kvs"
    using assms by (induction kvs) (auto simp: query_pair_eq)
  moreover have "tokens 0x26 (join_pairs kvs) = map (\<lambda>(k, v). k @ 0x3D # v) kvs" by (rule tokens_join) (use assms in auto)
  ultimately show ?thesis by simp
qed

lemma cstr_id: "0 \<notin> set s \<Longrightarrow> cstr s = s"
  by (simp add: cstr_def takeWhile_eq_all_conv) metis

lemma join_no_zero: "\<forall>(k, v) \<in> set kvs. 0 \<notin> set (k @ v) \<Longrightarrow> 0 \<notin> set (join_pairs kvs)"
  by (induction kvs rule: join_pairs.induct) auto

lemma form_query_join: "form_query kvs = join_pairs (map (\<lambda>(k, v). (url_encode k, url_encode v)) kvs)"
  by (induction kvs rule: form_query.induct) auto

lemma decode_encode_app: "url_decode (url_encode s @ t) = s @ url_decode t"
proof (induction s)
  case (Cons c cs)
  show ?case
  proof (cases "c = 0x20 \<or> url_escaped c")
    case True
    with Cons show ?thesis by (auto simp: hexchar nibbles htoi_def)
  next
    case False
    then have "c \<noteq> 0x2B" "c \<noteq> 0x25" by (auto simp: url_escaped_def)
    with False Cons show ?thesis by simp
  qed
qed simp

lemma decode_form: "url_decode (form_query kvs) = join_pairs kvs"
proof (induction kvs rule: form_query.induct)
  case (2 k v)
  show ?case using decode_encode_app[of v "[]"] by (simp add: decode_encode_app)
qed (simp_all add: decode_encode_app)

text \<open>
  The query of a form comes back as it was sent. When a request says that it is a form, the
  query that a client makes of keys and values, each URL-encoded, gives the handler exactly these
  keys and values, the first one for a key that occurs twice, as long as no key is empty and no
  key or value contains an ampersand, an equals sign or a zero byte: the code decodes the whole query
  before it takes it apart. When a request does not say so, as GET requests usually do not, the
  handler gets keys and values still encoded, whatever is in them.
\<close>

theorem query_round_trip:
  assumes "\<forall>(k, v) \<in> set kvs. k \<noteq> []" "rq_query r = form_query kvs" "rq_queries r = Map.empty"
  shows "(\<not> rq_url_decode r \<longrightarrow> rq_queries (finish_req r) = map_of (map (\<lambda>(k, v). (url_encode k, url_encode v)) kvs)) \<and>
    (rq_url_decode r \<longrightarrow> (\<forall>(k, v) \<in> set kvs. {0, 0x26, 0x3D} \<inter> set (k @ v) = {}) \<longrightarrow> rq_queries (finish_req r) = map_of kvs)"
proof -
  have safe: "0 \<notin> set (url_encode s)" "0x26 \<notin> set (url_encode s)" "0x3D \<notin> set (url_encode s)" for s
    using url_encode_safe[of s] by (auto simp: list_all_iff url_safe_def)
  have ne: "url_encode k \<noteq> []" if "k \<noteq> []" for k using that by (cases k) auto
  let ?es = "map (\<lambda>(k, v). (url_encode k, url_encode v)) kvs"
  have "map query_pair (tokens 0x26 (cstr (form_query kvs))) = ?es"
  proof -
    have "0 \<notin> set (join_pairs ?es)" by (rule join_no_zero) (auto simp: safe)
    then have "cstr (form_query kvs) = join_pairs ?es" by (simp add: form_query_join cstr_id)
    moreover have "map query_pair (tokens 0x26 (join_pairs ?es)) = ?es"
      by (rule join_query) (use assms(1) ne in \<open>auto simp: safe\<close>)
    ultimately show ?thesis by simp
  qed
  moreover have "map query_pair (tokens 0x26 (cstr (url_decode (form_query kvs)))) = kvs"
    if "\<forall>(k, v) \<in> set kvs. {0, 0x26, 0x3D} \<inter> set (k @ v) = {}"
  proof -
    have "0 \<notin> set (join_pairs kvs)" by (rule join_no_zero) (use that in auto)
    moreover have "map query_pair (tokens 0x26 (join_pairs kvs)) = kvs"
      by (rule join_query) (use that assms(1) in auto)
    ultimately show ?thesis by (simp add: decode_form cstr_id)
  qed
  ultimately show ?thesis using assms(2,3) by (simp add: finish_req_queries)
qed

theorem query_round_trip_witness:
  "rq_queries (finish_req (req_new\<lparr>rq_url_decode := True, rq_query := ascii ''q=%c3%a9+x&n=1''\<rparr>)) =
     [ascii ''q'' \<mapsto> [0xC3, 0xA9, 0x20] @ ascii ''x'', ascii ''n'' \<mapsto> ascii ''1'']"
proof -
  let ?kvs = "[(ascii ''q'', [0xC3, 0xA9, 0x20] @ ascii ''x''), (ascii ''n'', ascii ''1'')] :: (bytes \<times> bytes) list"
  have f: "form_query ?kvs = ascii ''q=%c3%a9+x&n=1''" by code_simp
  have "map_of ?kvs = [ascii ''q'' \<mapsto> [0xC3, 0xA9, 0x20] @ ascii ''x'', ascii ''n'' \<mapsto> ascii ''1'']"
    by (rule ext) simp
  with query_round_trip[of ?kvs "req_new\<lparr>rq_url_decode := True, rq_query := ascii ''q=%c3%a9+x&n=1''\<rparr>"] f show ?thesis
    by (simp add: req_new_def)
qed

subsection \<open>What goes wrong\<close>

lemma callbacks_then:
  assumes "conn_ctxs w cid = Some hc" "cid \<in> live w" "plain_run (we_lib e) cbs hc" "\<not> we_debug e"
    "cbs = [] \<or> hd cbs = Cb_Begin \<or> on_body_cb w = Plain_Body"
  shows "\<exists>w'. http_callbacks e cid k (cbs @ rest) w = http_callbacks e cid (k + length cbs) rest w' \<and>
    moved w cid (fold (cb_apply (we_lib e)) cbs hc) w'"
  using assms
proof (induction cbs arbitrary: w hc k)
  case Nil
  then show ?case by (auto intro!: exI[of _ w] simp: moved_def fun_upd_idem)
next
  case (Cons cb cbs)
  have pl: "plain_cb cb hc" "plain_run (we_lib e) cbs (cb_apply (we_lib e) cb hc)" "cb = Cb_Begin \<or> on_body_cb w = Plain_Body"
    using Cons.prems(3,5) by simp_all
  from callback_plain[OF Cons.prems(1,2) pl(1) Cons.prems(4) pl(3)] obtain w1 where w1: "http_callback e cid cb hc w = Inr (0, w1)"
    "moved w cid (cb_apply (we_lib e) cb hc) w1" "on_body_cb w1 = Plain_Body" by blast
  from Cons.IH[of w1 "cb_apply (we_lib e) cb hc" "k + 1"] w1 pl(2) Cons.prems(2,4) obtain w2 where
    "http_callbacks e cid (k + 1) (cbs @ rest) w1 = http_callbacks e cid (k + 1 + length cbs) rest w2"
    "moved w1 cid (fold (cb_apply (we_lib e)) cbs (cb_apply (we_lib e) cb hc)) w2" by (auto simp: moved_def)
  with w1 Cons.prems(1) moved_trans[OF w1(2)] show ?case by auto
qed

text \<open>The attributes of a multipart header that \<^verbatim>\<open>GetBoundary\<close> cannot take.\<close>

definition bad_multipart :: "bytes \<Rightarrow> bool" where
  "bad_multipart ct \<longleftrightarrow> ct = ascii ''multipart/form-data'' \<or>
     (\<exists>s. ct = ascii ''multipart/form-data;'' @ s \<and> (\<exists>p \<in> set (split_on 0x3B (dropWhile is_space (cstr s))). 0x3D \<notin> set p))"

lemma parse_pairs_null: "\<exists>p \<in> set ps. 0x3D \<notin> set p \<Longrightarrow> parse_pairs ps attrs = Inl Null_Pointer"
proof (induction ps arbitrary: attrs)
  case (Cons p ps)
  have "split_on 0x3D p = [p]" if "0x3D \<notin> set p" using that by (rule split_on_no)
  with Cons show ?case by (auto split: list.splits)
qed simp

lemma bad_boundary: "bad_multipart ct \<Longrightarrow> GetBoundary ct \<in> {Inl Over_Read, Inl Null_Pointer}"
  unfolding bad_multipart_def by (elim disjE exE conjE) (simp_all add: GetBoundary_def ParseAttr_def parse_pairs_null)

lemma bad_is_multipart:
  assumes "bad_multipart ct" "headers (ascii ''Content-Type'') = Some ct"
  shows "is_multipart headers" "starts_nocase (ascii ''multipart/form-data'') ct"
    "\<not> starts_nocase (ascii ''application/x-www-form-urlencoded'') ct"
proof -
  obtain s where ct: "ct = ascii ''multipart/form-data'' @ s" using assms(1) by (auto simp: bad_multipart_def)
  have c: "cstr ct = ascii ''multipart/form-data'' @ cstr s" by (simp add: ct cstr_def)
  show m: "starts_nocase (ascii ''multipart/form-data'') ct" by (simp add: starts_nocase_def c)
  show f: "\<not> starts_nocase (ascii ''application/x-www-form-urlencoded'') ct"
    by (simp add: starts_nocase_def c to_lower_def)
  from m f assms(2) show "is_multipart headers" by (simp add: is_multipart_def)
qed

text \<open>
  A few bytes bring the process down. When a request announces a multipart form without
  attributes, or one in which a piece between semicolons has no equals sign (already the header
  "multipart/form-data;" or a semicolon at the end), the end of its headers makes the code read
  behind the header or through a null pointer, whatever else the request holds.
\<close>

theorem multipart_header_crashes:
  assumes "web_reach w" "conn_ctxs w cid = Some hc" "idle_req (hp_req hc)" "\<not> hc_upgrade hc" "\<not> we_debug e"
    and "lib_calls (we_lib e) (hp_lib hc) x = request_cbs url hs meth major minor bs @ rest"
    and "map_of hs (ascii ''Content-Type'') = Some ct" "bad_multipart ct"
  shows "web_recv e cid x w \<in> {Inl Over_Read, Inl Null_Pointer}"
proof -
  let ?pre = "Cb_Begin # Cb_Url url # concat (map (\<lambda>(n, v). [Cb_Field n, Cb_Value v]) hs)"
  have l: "cid \<in> live w" using web_reach_inv[OF assms(1)] assms(2) by (auto simp: web_inv_def)
  have pl: "plain_run (we_lib e) ?pre hc" by (simp add: plain_headers)
  have pre: "?pre = [] \<or> hd ?pre = Cb_Begin \<or> on_body_cb w = Plain_Body" by simp
  let ?rest = "Cb_Headers meth major minor # map Cb_Body bs @ rest"
  from callbacks_then[OF assms(2) l pl assms(5) pre, of 0 ?rest] obtain w1 where w1:
    "http_callbacks e cid 0 (?pre @ ?rest) w = http_callbacks e cid (length ?pre) ?rest w1"
    "moved w cid (fold (cb_apply (we_lib e)) ?pre hc) w1" by auto
  let ?hc = "fold (cb_apply (we_lib e)) ?pre hc"
  have hd: "headers_of hs Map.empty = map_of hs" using map_insert_map_of[of hs Map.empty] by (simp add: headers_of_def)
  have h: "rq_headers (hp_req ?hc) = map_of hs"
    using assms(3) hd by (simp add: fold_headers upd_req_def ParseURL_def idle_req_def split: option.splits)
  have c1: "conn_ctxs w1 cid = Some ?hc" using w1(2) by (simp add: moved_def)
  note bm = bad_is_multipart[OF assms(8), of "map_of hs", OF assms(7)]
  from bad_boundary[OF assms(8)] obtain f where f: "GetBoundary ct = Inl f" "f = Over_Read \<or> f = Null_Pointer" by auto
  have "on_headers_complete cid meth major minor ?hc w1 = Inl f"
    unfolding on_headers_complete_def Let_def using h assms(7) bm(2,3) f(1) by simp
  then have "http_callbacks e cid (length ?pre) ?rest w1 = Inl f"
    using c1 by (simp add: http_callback_def)
  moreover have "request_cbs url hs meth major minor bs @ rest = ?pre @ ?rest" by (simp add: request_cbs_def)
  ultimately have "http_execute e cid x w = Inl f"
    unfolding http_execute_def assms(2) option.case assms(6) using w1(1) by simp
  then show ?thesis using assms(2,4) f(2) by (auto simp: web_recv_def)
qed

theorem multipart_header_crashes_witness:
  "web_recv (script_env [request_cbs [47] [(ascii ''Content-Type'', ascii ''multipart/form-data; boundary=b;'')] HTTP_POST 1 1 []]) 1 [1]
     (script_world [request_cbs [47] [(ascii ''Content-Type'', ascii ''multipart/form-data; boundary=b;'')] HTTP_POST 1 1 []])
   \<in> {Inl Over_Read, Inl Null_Pointer}"
proof -
  let ?s = "[request_cbs [47] [(ascii ''Content-Type'', ascii ''multipart/form-data; boundary=b;'')] HTTP_POST 1 1 []]"
  have "ascii ''multipart/form-data; boundary=b;'' = ascii ''multipart/form-data;'' @ (ascii '' boundary=b;'' :: bytes)" by simp
  moreover have "split_on 0x3B (dropWhile is_space (cstr (ascii '' boundary=b;''))) = [ascii ''boundary=b'', []]"
    by (simp add: cstr_def is_space_def)
  ultimately have bad: "bad_multipart (ascii ''multipart/form-data; boundary=b;'')"
    unfolding bad_multipart_def by (intro disjI2 exI[of _ "ascii '' boundary=b;''"]) simp
  have f: "idle_req (hp_req (new_http_conn (script_env ?s)))" "\<not> hc_upgrade (new_http_conn (script_env ?s))" "\<not> we_debug (script_env ?s)"
    "lib_calls (we_lib (script_env ?s)) (hp_lib (new_http_conn (script_env ?s))) [1] =
      request_cbs [47] [(ascii ''Content-Type'', ascii ''multipart/form-data; boundary=b;'')] HTTP_POST 1 1 [] @ []"
    by (simp_all add: script_conn idle_req_def req_new_def script_env_def script_lib_def)
  show ?thesis by (rule multipart_header_crashes[OF script_reach script_simps(1) f _ bad]) simp
qed

text \<open>
  One upload breaks the requests of others. The callback for bodies stands in a table that
  all connections and threads share. When the headers of a multipart form complete on one
  connection while another is in the middle of a plain request, the next piece of that request's
  body makes the code dereference a null pointer. The other way round, when any connection begins a
  message before the upload is through, the rest of the upload is collected in the body of its
  request as if it were plain.
\<close>

theorem multipart_switches_all:
  assumes "conn_ctxs w a = Some hca" "\<not> hc_upgrade hca" "rq_mpart (hp_req hca) = None"
    and "conn_ctxs w b = Some hcb" "\<not> hc_upgrade hcb" "\<not> hp_complete hcb" "a \<noteq> b"
    and "rq_headers (hp_req hcb) (ascii ''Content-Type'') = Some ct" "is_multipart (rq_headers (hp_req hcb))"
    and "GetBoundary ct = Inr (Some bound)"
    and "lib_calls (we_lib e) (hp_lib hcb) x = [Cb_Headers meth major minor]"
    and "lib_end (we_lib e) (hp_lib hcb) x 1 = (length x, False, err, l)"
    and "lib_calls (we_lib e) (hp_lib hca) y = Cb_Body d # rest"
  shows "\<exists>w1. web_recv e b x w = Inr w1 \<and> web_recv e a y w1 = Inl Null_Pointer \<and>
    (\<forall>hca' w2. conn_ctxs w1 a = Some hca' \<longrightarrow> http_callback e a Cb_Begin hca' w1 = Inr (0, w2) \<longrightarrow>
       (\<exists>hcb2 w3. conn_ctxs w2 b = Some hcb2 \<and> http_callback e b (Cb_Body d) hcb2 w2 = Inr (0, w3) \<and>
          map_option (\<lambda>hc. rq_body (hp_req hc)) (conn_ctxs w3 b) = Some (rq_body (hp_req hcb) @ d) \<and>
          map_option (\<lambda>hc. rq_parsed (hp_req hc)) (conn_ctxs w3 b) = Some (rq_parsed (hp_req hcb))))"
proof -
  let ?r = "(ParseClientIP ((hp_req hcb)\<lparr>rq_method := meth, rq_major := major, rq_minor := minor\<rparr>))\<lparr>rq_mpart := Some bound\<rparr>"
  let ?w0 = "record_part_msg b (set_ctx b (hcb\<lparr>hp_req := ?r\<rparr>) (w\<lparr>on_body_cb := MPart_Body\<rparr>))"
  let ?w1 = "set_ctx b (hcb\<lparr>hp_req := ?r, hp_lib := l\<rparr>) ?w0"
  have ct: "\<not> starts_nocase (ascii ''application/x-www-form-urlencoded'') ct" "starts_nocase (ascii ''multipart/form-data'') ct"
    using assms(8,9) by (simp_all add: is_multipart_def)
  have "on_headers_complete b meth major minor hcb w = Inr (0, ?w0)"
    unfolding on_headers_complete_def Let_def using assms(8,10) ct by simp
  then have "http_callbacks e b 0 [Cb_Headers meth major minor] w = Inr (1, ?w0)"
    using assms(4) by (simp add: http_callback_def)
  moreover have "conn_ctxs ?w0 b = Some (hcb\<lparr>hp_req := ?r\<rparr>)" by simp
  ultimately have r1: "web_recv e b x w = Inr ?w1"
    using assms(4-6,11,12) by (simp add: web_recv_def http_execute_def)
  have a1: "conn_ctxs ?w1 a = Some hca" "on_body_cb ?w1 = MPart_Body" using assms(1,7) by simp_all
  have "http_callbacks e a 0 (Cb_Body d # rest) ?w1 = Inl Null_Pointer"
    using a1 assms(3) by (simp add: http_callback_def)
  then have r2: "web_recv e a y ?w1 = Inl Null_Pointer"
    using a1(1) assms(2,13) by (simp add: web_recv_def http_execute_def)
  have ip: "rq_body (ParseClientIP q) = rq_body q" "rq_parsed (ParseClientIP q) = rq_parsed q" for q
    by (simp_all add: ParseClientIP_def split: option.splits)
  have "\<exists>hcb2 w3. conn_ctxs w2 b = Some hcb2 \<and> http_callback e b (Cb_Body d) hcb2 w2 = Inr (0, w3) \<and>
      map_option (\<lambda>hc. rq_body (hp_req hc)) (conn_ctxs w3 b) = Some (rq_body (hp_req hcb) @ d) \<and>
      map_option (\<lambda>hc. rq_parsed (hp_req hc)) (conn_ctxs w3 b) = Some (rq_parsed (hp_req hcb))"
    if "conn_ctxs ?w1 a = Some hca'" "http_callback e a Cb_Begin hca' ?w1 = Inr (0, w2)" for hca' w2
  proof -
    have "w2 = record_part_msg a (?w1\<lparr>on_body_cb := Plain_Body\<rparr>)" using that(2) by (simp add: http_callback_def)
    then show ?thesis by (simp add: http_callback_def upd_req_def AppendBody_def ip)
  qed
  with r1 r2 show ?thesis by blast
qed

definition two_scripts :: "http_cb list list web_world" where
  "two_scripts =
     (let e = script_env [[Cb_Body [1]]];
          w = web_accept e 2 (web_accept e 1 (web_init Plain_Body)) in
      set_ctx 2 ((new_http_conn e)\<lparr>hp_lib := [[Cb_Headers HTTP_POST 1 1]],
        hp_req := req_new\<lparr>rq_headers := [ascii ''Content-Type'' \<mapsto> ascii ''multipart/form-data; boundary=b'']\<rparr>\<rparr>) w)"

theorem multipart_switches_all_witness:
  "\<exists>w1. web_recv (script_env [[Cb_Body [1]]]) 2 [8] two_scripts = Inr w1 \<and>
     web_recv (script_env [[Cb_Body [1]]]) 1 [9] w1 = Inl Null_Pointer"
proof -
  let ?e = "script_env [[Cb_Body [1]]]"
  let ?ct = "ascii ''multipart/form-data; boundary=b'' :: bytes"
  let ?hb = "(new_http_conn ?e)\<lparr>hp_lib := [[Cb_Headers HTTP_POST 1 1]],
        hp_req := req_new\<lparr>rq_headers := [ascii ''Content-Type'' \<mapsto> ?ct]\<rparr>\<rparr>"
  have w: "conn_ctxs two_scripts 1 = Some (new_http_conn ?e)" "conn_ctxs two_scripts 2 = Some ?hb"
    by (simp_all add: two_scripts_def Let_def web_accept_def web_on_connected_def web_init_def)
  have a: "\<not> hc_upgrade (new_http_conn ?e)" "rq_mpart (hp_req (new_http_conn ?e)) = None" "\<not> hc_upgrade ?hb" "\<not> hp_complete ?hb"
    "(1 :: int) \<noteq> 2" "rq_headers (hp_req ?hb) (ascii ''Content-Type'') = Some ?ct"
    "lib_calls (we_lib ?e) (hp_lib ?hb) [8] = [Cb_Headers HTTP_POST 1 1]"
    "lib_end (we_lib ?e) (hp_lib ?hb) [8] 1 = (length [8 :: u8], False, 0, [])"
    "lib_calls (we_lib ?e) (hp_lib (new_http_conn ?e)) [9] = Cb_Body [1] # []"
    by (simp_all add: new_http_conn_def req_new_def script_env_def script_lib_def)
  have "is_multipart (rq_headers (hp_req ?hb))"
    by (simp add: is_multipart_def starts_nocase_def cstr_def to_lower_def)
  moreover have "GetBoundary ?ct = Inr (Some (ascii ''--b''))"
    by (simp add: GetBoundary_def ParseAttr_def cstr_def is_space_def trim_def IsQuote_def map_insert_def)
  ultimately show ?thesis
    using multipart_switches_all[OF w(1) a(1,2) w(2) a(3,4,5,6) _ _ a(7,8,9)] by blast
qed

text \<open>
  Requests that arrive in one chunk are melted into one. The handler is called once, for the path
  of the second request, with the headers and bodies of both.
\<close>

theorem pipelined_requests_merge:
  assumes "web_reach w" "conn_ctxs w cid = Some hc" "idle_req (hp_req hc)" "\<not> hc_upgrade hc" "\<not> we_debug e"
    and "lib_calls (we_lib e) (hp_lib hc) x =
      (request_cbs url1 hs1 m1 1 1 bs1 @ [Cb_Complete]) @ request_cbs url2 hs2 HTTP_POST 1 1 bs2 @ [Cb_Complete]"
    and "lib_end (we_lib e) (hp_lib hc) x (length (lib_calls (we_lib e) (hp_lib hc) x)) = (length x, False, err, l)"
    and "lib_url (we_lib e) url2 = Some u" "uf_path u = Some (off, len)" "http_handlers w (take len (drop off url2)) = Some h"
    and "\<not> is_multipart (map_of hs1)" "\<not> is_multipart (map_of (hs1 @ hs2))" "\<not> is_form (map_of hs1)" "\<not> is_form (map_of (hs1 @ hs2))"
    and "\<forall>ev. we_closes e ev = []"
  shows "\<exists>w' ip q. web_recv e cid x w = Inr w' \<and>
    web_log w' = web_log w @ [Http_Post h cid ip q (map_of (hs1 @ hs2)) (concat (bs1 @ bs2))]"
proof -
  let ?cs1 = "request_cbs url1 hs1 m1 1 1 bs1 @ [Cb_Complete]" and ?cs2 = "request_cbs url2 hs2 HTTP_POST 1 1 bs2"
  let ?lib = "we_lib e"
  have l: "cid \<in> live w" using web_reach_inv[OF assms(1)] assms(2) by (auto simp: web_inv_def)
  have hd: "headers_of hs m = map_of hs ++ m" for hs m using map_insert_map_of[of hs m] by (simp add: headers_of_def)
  have pu: "rq_headers (ParseURL f v q) = rq_headers q" "rq_body (ParseURL f v q) = rq_body q"
    "rq_url_decode (ParseURL f v q) = rq_url_decode q" for f v q
    by (simp_all add: ParseURL_def split: option.splits)
  have ip: "rq_body (ParseClientIP q) = rq_body q" "rq_url_decode (ParseClientIP q) = rq_url_decode q"
    "rq_method (ParseClientIP q) = rq_method q" "rq_path (ParseClientIP q) = rq_path q" for q
    by (simp_all add: ParseClientIP_def split: option.splits)
  have hdn: "rq_headers (headers_done a b c q) = rq_headers q" "rq_body (headers_done a b c q) = rq_body q"
    "rq_url_decode (headers_done a b c q) = (is_form (rq_headers q) \<or> rq_url_decode q)" "rq_method (headers_done a b c q) = a"
    "rq_path (headers_done a b c q) = rq_path q" for a b c q
    by (simp_all add: headers_done_def Let_def ip)
  have ap: "rq_headers (AppendBody d q) = rq_headers q" "rq_body (AppendBody d q) = rq_body q @ d" "rq_method (AppendBody d q) = rq_method q"
    "rq_url_decode (AppendBody d q) = rq_url_decode q" "rq_path (AppendBody d q) = rq_path q" for d q
    by (simp_all add: AppendBody_def)
  have req: "rq_headers (hp_req (fold (cb_apply ?lib) (request_cbs v hs a 1 1 bs) h0)) = map_of hs ++ rq_headers (hp_req h0)"
    "rq_body (hp_req (fold (cb_apply ?lib) (request_cbs v hs a 1 1 bs) h0)) = rq_body (hp_req h0) @ concat bs"
    "rq_url_decode (hp_req (fold (cb_apply ?lib) (request_cbs v hs a 1 1 bs) h0)) =
      (is_form (map_of hs ++ rq_headers (hp_req h0)) \<or> rq_url_decode (hp_req h0))"
    "rq_method (hp_req (fold (cb_apply ?lib) (request_cbs v hs a 1 1 bs) h0)) = a"
    "rq_path (hp_req (fold (cb_apply ?lib) (request_cbs v hs a 1 1 bs) h0)) = rq_path (ParseURL (lib_url ?lib) v (hp_req h0))"
    for v hs a bs h0
    by (simp_all add: request_cbs_def fold_headers fold_body upd_req_def hd pu hdn ap)
  let ?h1 = "fold (cb_apply ?lib) ?cs1 hc"
  have h1: "rq_headers (hp_req ?h1) = map_of hs1" "rq_body (hp_req ?h1) = concat bs1" "\<not> rq_url_decode (hp_req ?h1)"
    using assms(3,13) req[of url1 hs1 m1 bs1 hc] by (simp_all add: idle_req_def)
  let ?r0 = "hp_req (fold (cb_apply ?lib) (?cs1 @ ?cs2 @ [Cb_Complete]) hc)"
  have r0: "rq_headers ?r0 = map_of (hs1 @ hs2)" "rq_body ?r0 = concat (bs1 @ bs2)" "\<not> rq_url_decode ?r0"
    "rq_method ?r0 = HTTP_POST" "rq_path ?r0 = take len (drop off url2)"
    using req[of url2 hs2 HTTP_POST bs2 ?h1] h1 assms(8,9,14) by (simp_all add: ParseURL_def url_field_def map_of_append)
  have pr: "plain_run ?lib (request_cbs v hs a 1 1 bs) h0" if "\<not> is_multipart (map_of hs ++ rq_headers (hp_req h0))" for v hs a bs h0
    using that by (simp add: request_cbs_def plain_run_append plain_headers plain_body fold_headers upd_req_def hd pu)
  have pl: "plain_run ?lib (?cs1 @ ?cs2 @ [Cb_Complete]) hc"
    using pr[of hs1 hc url1 m1 bs1] pr[of hs2 ?h1 url2 HTTP_POST bs2] assms(3,11,12) h1(1)
    by (simp add: plain_run_append idle_req_def map_of_append)
  let ?r = "finish_req ?r0"
  have hh: "http_handlers w (rq_path ?r) = Some h" using r0(5) assms(10) by simp
  have quiet: "concat (map (we_closes e) (http_calls e cid h ?r)) = []" using assms(15) by simp
  have st: "(?cs1 @ ?cs2 @ [Cb_Complete]) = [] \<or> hd (?cs1 @ ?cs2 @ [Cb_Complete]) = Cb_Begin \<or> on_body_cb w = Plain_Body"
    by (simp add: request_cbs_def)
  have "Cb_Complete \<in> set (?cs1 @ ?cs2 @ [Cb_Complete])" by simp
  from recv_last[OF assms(2) l assms(4,5,6) assms(7)[unfolded assms(6)] pl st this refl hh quiet] obtain w' where
    "web_recv e cid x w = Inr w'" "web_log w' = web_log w @ http_calls e cid h ?r" by blast
  moreover have "\<exists>ip q. http_calls e cid h ?r = [Http_Post h cid ip q (map_of (hs1 @ hs2)) (concat (bs1 @ bs2))]"
    using r0 by (simp add: http_calls_def Let_def)
  ultimately show ?thesis by metis
qed

end
