(* ===== verification/Work_Threads.thy ===== *)
theory Work_Threads
  imports Conn_IO
begin

text \<open>
  The work threads: \<^verbatim>\<open>work_threads/src/scheduler.cpp\<close> and the tasks of \<^verbatim>\<open>thread_sink.cpp\<close>, the burden
  and the global logic that run inside such threads (\<^verbatim>\<open>burden_logic.cpp\<close>, \<^verbatim>\<open>global_logic.cpp\<close> and their
  schedulers), and \<^verbatim>\<open>SendWSMsgToClient\<close> of the web scheduler. A scheduler chooses a thread of
  another kind, in turn when it is not told which, and leaves a task there.
\<close>

subsection \<open>State\<close>

datatype thread_type =
    THREAD_TYPE_GLOBAL
  | THREAD_TYPE_WORK
  | THREAD_TYPE_BURDEN
  | THREAD_TYPE_TCP
  | THREAD_TYPE_PROTO_TCP
  | THREAD_TYPE_WEB_TCP

text \<open>
  A scheduler with what it refers to: the global thread and the groups of \<^verbatim>\<open>RelatedThreadGroups\<close>, and
  by type of thread the next one in turn (\<^verbatim>\<open>last_work_thread_idx_\<close> and its four like). The thread
  sink it belongs to is \<open>self_thread\<close>, its codec \<open>work_codec\<close>.
\<close>

record work_sched =
  global_thread :: "thread option"
  thread_groups :: "thread_type \<Rightarrow> thread_group option"
  last_thread_idx :: "thread_type \<Rightarrow> int"
  self_thread :: ptr
  work_codec :: msg_codec_ctx

text \<open>
  A division by a number of threads that is zero, a group or an object that is null, a pointer that was
  never set, a read behind the data of a task.
\<close>

datatype work_fault = Div_By_Zero | Null_Group | Null_Object | Wild_Pointer | Task_Over_Read

text \<open>A pointer to a group. \<^verbatim>\<open>RelatedThreadGroups\<close> sets all its pointers to null except the one to the web threads.\<close>

datatype group_ptr = Unset | Group_Ptr "thread_group option"

definition related_new :: "thread_type \<Rightarrow> group_ptr" where
  "related_new ty = (if ty = THREAD_TYPE_WEB_TCP then Unset else Group_Ptr None)"

fun group_at :: "group_ptr \<Rightarrow> thread_group option" where
  "group_at Unset = None"
| "group_at (Group_Ptr g) = g"

text \<open>The surroundings of one call: the contents of fresh memory, and whether the wake-up byte of a task fails.\<close>

record work_env =
  wk_heap :: "nat \<Rightarrow> bytes"
  wk_intr :: bool

subsection \<open>Choosing a thread\<close>

text \<open>\<^verbatim>\<open>SetRelatedThreadGroups\<close>, with the results of \<^verbatim>\<open>rand\<close>. It asks every group for its threads.\<close>

definition set_related_thread_groups ::
  "(thread_type \<Rightarrow> nat) \<Rightarrow> thread option \<Rightarrow> (thread_type \<Rightarrow> group_ptr) \<Rightarrow> work_sched \<Rightarrow> work_fault + work_sched" where
  "set_related_thread_groups rand gt related w =
     (if list_ex (\<lambda>ty. related ty = Unset)
           [THREAD_TYPE_WORK, THREAD_TYPE_BURDEN, THREAD_TYPE_TCP, THREAD_TYPE_PROTO_TCP, THREAD_TYPE_WEB_TCP]
      then Inl Wild_Pointer
      else Inr (w\<lparr>global_thread := gt, thread_groups := (\<lambda>ty. group_at (related ty)),
             last_thread_idx := (\<lambda>ty. case group_at (related ty) of
                 None \<Rightarrow> last_thread_idx w ty
               | Some g \<Rightarrow> if 0 < length g then int (rand ty mod length g) else last_thread_idx w ty)\<rparr>))"

text \<open>\<^verbatim>\<open>GetScheduleWorkThreadIdx\<close> and its four like, for a group of \<open>n\<close> threads.\<close>

definition get_schedule_idx :: "thread_type \<Rightarrow> nat \<Rightarrow> int \<Rightarrow> work_sched \<Rightarrow> work_fault + int \<times> work_sched" where
  "get_schedule_idx ty n idx w =
     (if idx < 0 \<or> int n \<le> idx
      then (if n = 0 then Inl Div_By_Zero
            else Inr (last_thread_idx w ty,
                   w\<lparr>last_thread_idx := (last_thread_idx w)(ty := (last_thread_idx w ty + 1) mod int n)\<rparr>))
      else Inr (idx, w))"

text \<open>\<^verbatim>\<open>PushTask\<close> of the chosen thread.\<close>

definition push_to_group :: "bool \<Rightarrow> thread_type \<Rightarrow> int \<Rightarrow> thread_task \<Rightarrow> work_sched \<Rightarrow> work_sched" where
  "push_to_group intr ty idx t w =
     (case thread_groups w ty of
        None \<Rightarrow> w
      | Some g \<Rightarrow> w\<lparr>thread_groups := (thread_groups w)(ty \<mapsto> g[nat idx := push_task intr t (g ! nat idx)])\<rparr>)"

definition encoded :: "work_env \<Rightarrow> msg_head \<Rightarrow> bytes option \<Rightarrow> nat \<Rightarrow> work_sched \<Rightarrow> bytes" where
  "encoded e head body body_len w =
     encode_new (work_codec w) (wk_heap e (MIN_DATA_LEN + body_len + 1)) head body body_len"

text \<open>\<^verbatim>\<open>SendToThread\<close>: a message for a thread travels without its length field.\<close>

definition thread_msg :: "work_env \<Rightarrow> conn_guid option \<Rightarrow> msg_head \<Rightarrow> bytes option \<Rightarrow> nat \<Rightarrow> work_sched \<Rightarrow> thread_task" where
  "thread_msg e guid head body body_len w =
     new_task TASK_TYPE_NORMAL (self_thread w) guid
       (Some (drop TOTAL_MSG_LEN_FIELD_LEN (encoded e head body body_len w)))"

definition send_to_thread ::
  "work_env \<Rightarrow> thread_type \<Rightarrow> conn_guid option \<Rightarrow> msg_head \<Rightarrow> bytes option \<Rightarrow> nat \<Rightarrow> int \<Rightarrow> work_sched \<Rightarrow>
     work_fault + int \<times> work_sched" where
  "send_to_thread e ty guid head body body_len idx w =
     (if ty = THREAD_TYPE_GLOBAL
      then (case global_thread w of
              None \<Rightarrow> Inr (RC_ERR, w)
            | Some th \<Rightarrow>
                Inr (RC_OK, w\<lparr>global_thread := Some (push_task (wk_intr e) (thread_msg e guid head body body_len w) th)\<rparr>))
      else (case thread_groups w ty of
              None \<Rightarrow> Inr (RC_ERR, w)
            | Some g \<Rightarrow>
                (case get_schedule_idx ty (length g) idx w of
                   Inl f \<Rightarrow> Inl f
                 | Inr (i, w1) \<Rightarrow>
                     (case get_thread g i of
                        None \<Rightarrow> Inr (RC_ERR, w1)
                      | Some _ \<Rightarrow>
                          Inr (RC_OK, push_to_group (wk_intr e) ty i (thread_msg e guid head body body_len w1) w1)))))"

subsection \<open>Clients of other threads\<close>

text \<open>The kind of thread that manages a connection, if it is one that takes data as it is.\<close>

definition io_threads :: "io_type \<Rightarrow> thread_type option" where
  "io_threads io =
     (case io of
        IO_TYPE_TCP \<Rightarrow> Some THREAD_TYPE_TCP
      | IO_TYPE_PROTO_TCP \<Rightarrow> Some THREAD_TYPE_PROTO_TCP
      | IO_TYPE_WEB_TCP \<Rightarrow> Some THREAD_TYPE_WEB_TCP
      | _ \<Rightarrow> None)"

text \<open>The common part of the next three operations: the task goes to the thread of the connection.\<close>

definition push_to_client :: "work_env \<Rightarrow> thread_type option \<Rightarrow> conn_guid \<Rightarrow> thread_task \<Rightarrow> work_sched \<Rightarrow> int \<times> work_sched" where
  "push_to_client e io guid t w =
     (case io of
        None \<Rightarrow> (RC_ERR, w)
      | Some ty \<Rightarrow>
          (case thread_groups w ty of
             None \<Rightarrow> (RC_ERR, w)
           | Some g \<Rightarrow>
               (case get_thread g (io_thread_idx guid) of
                  None \<Rightarrow> (RC_ERR, w)
                | Some _ \<Rightarrow> (RC_OK, push_to_group (wk_intr e) ty (io_thread_idx guid) t w))))"

text \<open>\<^verbatim>\<open>SendToClient\<close> with a message: only for connections that speak the protocol.\<close>

definition wk_send_msg :: "work_env \<Rightarrow> conn_guid option \<Rightarrow> msg_head \<Rightarrow> bytes option \<Rightarrow> nat \<Rightarrow> work_sched \<Rightarrow> int \<times> work_sched" where
  "wk_send_msg e guid head body body_len w =
     (case guid of
        None \<Rightarrow> (RC_ERR, w)
      | Some g \<Rightarrow>
          push_to_client e (if io_type g = IO_TYPE_PROTO_TCP then Some THREAD_TYPE_PROTO_TCP else None) g
            (new_task TASK_TYPE_SEND_TO_CLIENT (self_thread w) guid (Some (encoded e head body body_len w))) w)"

definition wk_send_data :: "work_env \<Rightarrow> conn_guid option \<Rightarrow> bytes option \<Rightarrow> work_sched \<Rightarrow> int \<times> work_sched" where
  "wk_send_data e guid data w =
     (case guid of
        None \<Rightarrow> (RC_ERR, w)
      | Some g \<Rightarrow>
          push_to_client e (io_threads (io_type g)) g (new_task TASK_TYPE_SEND_TO_CLIENT (self_thread w) guid data) w)"

definition wk_close_client :: "work_env \<Rightarrow> conn_guid option \<Rightarrow> work_sched \<Rightarrow> int \<times> work_sched" where
  "wk_close_client e guid w =
     (case guid of
        None \<Rightarrow> (RC_ERR, w)
      | Some g \<Rightarrow>
          push_to_client e (io_threads (io_type g)) g (new_task TASK_TYPE_CLOSE_CONN (self_thread w) guid None) w)"

subsection \<open>The scheduler of the global logic\<close>

text \<open>The loop of a broadcast; the results of the sends are dropped.\<close>

fun broadcast_loop ::
  "work_env \<Rightarrow> thread_type \<Rightarrow> conn_guid option \<Rightarrow> msg_head \<Rightarrow> bytes option \<Rightarrow> nat \<Rightarrow> nat \<Rightarrow> nat \<Rightarrow> work_sched \<Rightarrow>
     work_fault + work_sched" where
  "broadcast_loop e ty guid head body body_len i 0 w = Inr w"
| "broadcast_loop e ty guid head body body_len i (Suc n) w =
     (case send_to_thread e ty guid head body body_len (int i) w of
        Inl f \<Rightarrow> Inl f
      | Inr (_, w1) \<Rightarrow> broadcast_loop e ty guid head body body_len (Suc i) n w1)"

text \<open>
  \<^verbatim>\<open>SendToWorkThread\<close> and its four like: -1 is for all threads. The group is not checked for null; the
  number of its threads is asked again in every turn but never changes.
\<close>

definition global_send ::
  "work_env \<Rightarrow> thread_type \<Rightarrow> conn_guid option \<Rightarrow> msg_head \<Rightarrow> bytes option \<Rightarrow> nat \<Rightarrow> int \<Rightarrow> work_sched \<Rightarrow>
     work_fault + int \<times> work_sched" where
  "global_send e ty guid head body body_len idx w =
     (if idx = - 1
      then (case thread_groups w ty of
              None \<Rightarrow> Inl Null_Group
            | Some g \<Rightarrow> map_sum id (\<lambda>w'. (RC_OK, w')) (broadcast_loop e ty guid head body body_len 0 (length g) w))
      else send_to_thread e ty guid head body body_len idx w)"

subsection \<open>Tasks of a work thread\<close>

text \<open>
  The logics of a work thread: libraries, which see the data of a task, and the burden and the
  global logic, which take the message out of it a second time and have dispatchers of their own.
\<close>

datatype work_logic = Foreign_Logic ptr | Inner_Logic msg_dispatcher

datatype work_call =
    Wk_Handler ptr conn_guid msg_head bytes
  | Wk_Logic ptr conn_guid ptr bytes

text \<open>\<^verbatim>\<open>BurdenLogic::OnTask\<close> and \<^verbatim>\<open>GlobalLogic::OnTask\<close>.\<close>

definition inner_on_task :: "msg_codec_ctx \<Rightarrow> msg_dispatcher \<Rightarrow> conn_guid \<Rightarrow> bytes \<Rightarrow> work_fault + work_call list" where
  "inner_on_task ctx disp guid data =
     (if length data = 0 then Inr []
      else (case decode_msg ctx data (length data) of
              Decode_Bad_Read \<Rightarrow> Inl Task_Over_Read
            | Decode_Error _ \<Rightarrow> Inr []
            | Decoded head body \<Rightarrow>
                (case dispatch_msg disp head of
                   (_, Some h) \<Rightarrow> Inr [Wk_Handler h guid head body]
                 | (_, None) \<Rightarrow> Inr [])))"

fun logics_on_task :: "msg_codec_ctx \<Rightarrow> thread_task \<Rightarrow> work_logic list \<Rightarrow> work_fault + work_call list" where
  "logics_on_task ctx t [] = Inr []"
| "logics_on_task ctx t (l # ls) =
     (case (case l of
              Foreign_Logic p \<Rightarrow> Inr [Wk_Logic p (task_guid t) (source_thread t) (task_data t)]
            | Inner_Logic d \<Rightarrow> inner_on_task ctx d (task_guid t) (task_data t)) of
        Inl f \<Rightarrow> Inl f
      | Inr cs \<Rightarrow> map_sum id (\<lambda>cs'. cs @ cs') (logics_on_task ctx t ls))"

text \<open>\<^verbatim>\<open>ThreadSink::OnTask\<close>: the calls of handlers and logics.\<close>

definition work_on_task ::
  "msg_codec_ctx \<Rightarrow> msg_dispatcher \<Rightarrow> work_logic list \<Rightarrow> thread_task \<Rightarrow> work_fault + work_call list" where
  "work_on_task ctx disp logics t =
     (if task_type t = TASK_TYPE_NORMAL
      then (if length (task_data t) = 0 then Inr []
            else (case decode_msg ctx (task_data t) (length (task_data t)) of
                    Decode_Bad_Read \<Rightarrow> Inl Task_Over_Read
                  | Decode_Error _ \<Rightarrow> Inr []
                  | Decoded head body \<Rightarrow>
                      (case dispatch_msg disp head of
                         (_, Some h) \<Rightarrow> Inr [Wk_Handler h (task_guid t) head body]
                       | (_, None) \<Rightarrow> logics_on_task ctx t logics)))
      else Inr [])"

text \<open>\<^verbatim>\<open>ThreadSink::OnRecvNfy\<close>: a notification has no connection.\<close>

definition work_on_nfy :: "msg_dispatcher \<Rightarrow> msg_head \<Rightarrow> bytes \<Rightarrow> (ptr \<times> conn_guid option \<times> msg_head \<times> bytes) option" where
  "work_on_nfy disp head body = map_option (\<lambda>h. (h, None, head, body)) (snd (dispatch_msg disp head))"

text \<open>\<^verbatim>\<open>CanExit\<close>, over the answers of the common logic, if there is one, and of the logics.\<close>

definition work_can_exit :: "bool option \<Rightarrow> bool list \<Rightarrow> bool" where
  "work_can_exit common logics =
     (fold (\<lambda>b r. r \<and> b) logics (case common of None \<Rightarrow> True | Some b \<Rightarrow> b))"

end
