(* ===== verification/Work_Route.thy ===== *)
theory Work_Route
  imports Work_Threads
begin

text \<open>
  What the schedulers of the work threads do with a message: it arrives, unchanged, in front of the
  handlers of the chosen thread or at the client, and threads that are chosen in turn get equal shares.
\<close>

subsection \<open>Messages between threads\<close>

lemma push_to_group_simps [simp]:
  "global_thread (push_to_group intr ty i t w) = global_thread w"
  "last_thread_idx (push_to_group intr ty i t w) = last_thread_idx w"
  "self_thread (push_to_group intr ty i t w) = self_thread w"
  "work_codec (push_to_group intr ty i t w) = work_codec w"
  by (simp_all add: push_to_group_def split: option.split)

lemma get_thread_Some: "get_thread g i = Some th \<longleftrightarrow> 0 \<le> i \<and> i < int (length g) \<and> th = g ! nat i"
  by (auto simp: get_thread_def)

lemma get_schedule_idx_same:
  "get_schedule_idx ty n idx w = Inr (i, w1) \<Longrightarrow>
     thread_groups w1 = thread_groups w \<and> global_thread w1 = global_thread w \<and> self_thread w1 = self_thread w \<and>
     work_codec w1 = work_codec w \<and> (0 \<le> idx \<and> idx < int n \<longrightarrow> i = idx \<and> w1 = w)"
  by (auto simp: get_schedule_idx_def split: if_splits)

text \<open>A message that was encoded with or without checksum is decoded by everyone who does it the same way.\<close>

lemma msg_rest_same: "do_checksum ctx = do_checksum ctx' \<Longrightarrow> msg_rest ctx head body = msg_rest ctx' head body"
  by (simp add: msg_rest_def msg_checksum_def)

lemma decode_rest_same:
  assumes "do_checksum ctx = do_checksum ctx'"
  shows "decode_msg ctx (msg_rest ctx' head body) (length (msg_rest ctx' head body)) = Decoded head body"
  using decode_rest[of ctx head body "[]"] msg_rest_same[OF assms] by simp

text \<open>The memory of a fresh buffer has the size that was asked for.\<close>

definition fresh_ok :: "work_env \<Rightarrow> nat \<Rightarrow> bool" where
  "fresh_ok e n \<longleftrightarrow> 16 + n < length (wk_heap e (MIN_DATA_LEN + n + 1))"

lemma encoded_frame:
  "fresh_ok e (length body) \<Longrightarrow> encoded e head (Some body) (length body) w = msg_frame (work_codec w) head body"
  unfolding encoded_def fresh_ok_def by (rule encode_new_Some)

definition plain_task :: "work_sched \<Rightarrow> conn_guid option \<Rightarrow> msg_head \<Rightarrow> bytes \<Rightarrow> thread_task" where
  "plain_task w guid head body = new_task TASK_TYPE_NORMAL (self_thread w) guid (Some (msg_rest (work_codec w) head body))"

lemma thread_msg_plain:
  assumes "fresh_ok e (length body)"
  shows "thread_msg e guid head (Some body) (length body) w = plain_task w guid head body"
  by (simp add: thread_msg_def plain_task_def encoded_frame[OF assms] msg_frame_def)

lemma plain_task_simps:
  "task_type (plain_task w guid head body) = TASK_TYPE_NORMAL"
  "task_data (plain_task w guid head body) = msg_rest (work_codec w) head body"
  "source_thread (plain_task w guid head body) = self_thread w"
  "task_guid (plain_task w guid head body) = (case guid of None \<Rightarrow> conn_guid_init | Some g \<Rightarrow> g)"
  by (simp_all add: plain_task_def new_task_def)

lemma plain_task_same: "self_thread w = self_thread w' \<Longrightarrow> work_codec w = work_codec w' \<Longrightarrow> plain_task w = plain_task w'"
  by (intro ext) (simp add: plain_task_def)

lemma work_on_plain_task:
  assumes "do_checksum ctx = do_checksum (work_codec w)"
  shows "work_on_task ctx disp logics (plain_task w guid head body) =
    (case disp (msg_id head) of
       Some h \<Rightarrow> Inr [Wk_Handler h (task_guid (plain_task w guid head body)) head body]
     | None \<Rightarrow> logics_on_task ctx (plain_task w guid head body) logics)"
  using decode_rest_same[OF assms]
  by (simp add: work_on_task_def plain_task_simps dispatch_msg_def split: option.split)

lemma inner_on_plain_task:
  assumes "do_checksum ctx = do_checksum (work_codec w)"
  shows "logics_on_task ctx (plain_task w guid head body) [Inner_Logic d] =
    Inr (case d (msg_id head) of None \<Rightarrow> [] | Some h \<Rightarrow> [Wk_Handler h (task_guid (plain_task w guid head body)) head body])"
  using decode_rest_same[OF assms]
  by (simp add: inner_on_task_def plain_task_simps dispatch_msg_def split: option.split)

lemma tcp_on_plain_task:
  assumes "do_checksum ctx = do_checksum (work_codec w)" "disp (msg_id head) = Some h"
  shows "sink_on_task te ctx disp (plain_task w guid head body) s =
    fold (app_step te) (react te h (task_guid (plain_task w guid head body)) head body)
      (s\<lparr>events := events s @ [Called h (task_guid (plain_task w guid head body)) head body]\<rparr>)"
  using decode_rest_same[OF assms(1)] assms(2)
  by (simp add: sink_on_task_def plain_task_simps dispatch_msg_def)

lemma send_to_thread_cases:
  assumes "send_to_thread e ty guid head (Some body) (length body) idx w = Inr (RC_OK, w')" "fresh_ok e (length body)"
  obtains th where "ty = THREAD_TYPE_GLOBAL" "global_thread w = Some th"
    "w' = w\<lparr>global_thread := Some (push_task (wk_intr e) (plain_task w guid head body) th)\<rparr>"
  | g i where "ty \<noteq> THREAD_TYPE_GLOBAL" "thread_groups w ty = Some g" "i < length g"
    "0 \<le> idx \<and> idx < int (length g) \<longrightarrow> int i = idx" "global_thread w' = global_thread w"
    "thread_groups w' = (thread_groups w)(ty \<mapsto> g[i := push_task (wk_intr e) (plain_task w guid head body) (g ! i)])"
proof (cases "ty = THREAD_TYPE_GLOBAL")
  case True
  with assms that(1) show ?thesis
    by (auto simp: send_to_thread_def thread_msg_plain[OF assms(2)] split: option.splits)
next
  case False
  with assms(1) obtain g i w1 where g: "thread_groups w ty = Some g" "get_schedule_idx ty (length g) idx w = Inr (i, w1)"
    "0 \<le> i" "i < int (length g)" "w' = push_to_group (wk_intr e) ty i (thread_msg e guid head (Some body) (length body) w1) w1"
    by (auto simp: send_to_thread_def get_thread_Some split: option.splits sum.splits)
  note same = get_schedule_idx_same[OF g(2)]
  have "plain_task w1 guid head body = plain_task w guid head body"
    using plain_task_same[of w1 w] same by simp
  with g same have "thread_groups w' = (thread_groups w)(ty \<mapsto> g[nat i := push_task (wk_intr e) (plain_task w guid head body) (g ! nat i)])"
    by (simp add: push_to_group_def thread_msg_plain[OF assms(2)])
  with False g same show ?thesis by (intro that(2)[of g "nat i"]) auto
qed

text \<open>
  Claim C6: a message from a work thread to another thread arrives. When \<open>send_to_thread\<close> returns 0, one
  task stands at the end of the queue of one thread of the kind that was asked for (the one with
  the given index, if there is one), and no other thread has changed. Whoever gets the task and
  treats checksums alike finds in it the head, the body, the connection and the sender: a work thread
  calls the handler of the message, or that of its burden or global logic, and so does a
  TCP thread.
\<close>

theorem thread_message_delivered:
  assumes "send_to_thread e ty (Some guid) head (Some body) (length body) idx w = Inr (RC_OK, w')"
    and "fresh_ok e (length body)"
  shows "\<exists>t. task_guid t = guid \<and> source_thread t = self_thread w \<and>
    (if ty = THREAD_TYPE_GLOBAL
     then thread_groups w' = thread_groups w \<and> global_thread w' = map_option (push_task (wk_intr e) t) (global_thread w)
     else global_thread w' = global_thread w \<and>
       (\<exists>g i. thread_groups w ty = Some g \<and> i < length g \<and> (0 \<le> idx \<and> idx < int (length g) \<longrightarrow> int i = idx) \<and>
          thread_groups w' = (thread_groups w)(ty \<mapsto> g[i := push_task (wk_intr e) t (g ! i)]))) \<and>
    (\<forall>ctx. do_checksum ctx = do_checksum (work_codec w) \<longrightarrow>
       (\<forall>disp logics h. disp (msg_id head) = Some h \<longrightarrow> work_on_task ctx disp logics t = Inr [Wk_Handler h guid head body]) \<and>
       (\<forall>disp d h. disp (msg_id head) = None \<and> d (msg_id head) = Some h \<longrightarrow>
          work_on_task ctx disp [Inner_Logic d] t = Inr [Wk_Handler h guid head body]) \<and>
       (\<forall>te disp h s. disp (msg_id head) = Some h \<longrightarrow>
          sink_on_task te ctx disp t s =
            fold (app_step te) (react te h guid head body) (s\<lparr>events := events s @ [Called h guid head body]\<rparr>)))"
proof -
  let ?t = "plain_task w (Some guid) head body"
  have t: "task_guid ?t = guid" "source_thread ?t = self_thread w" by (simp_all add: plain_task_simps)
  have "if ty = THREAD_TYPE_GLOBAL
     then thread_groups w' = thread_groups w \<and> global_thread w' = map_option (push_task (wk_intr e) ?t) (global_thread w)
     else global_thread w' = global_thread w \<and>
       (\<exists>g i. thread_groups w ty = Some g \<and> i < length g \<and> (0 \<le> idx \<and> idx < int (length g) \<longrightarrow> int i = idx) \<and>
          thread_groups w' = (thread_groups w)(ty \<mapsto> g[i := push_task (wk_intr e) ?t (g ! i)]))"
    using assms by (cases rule: send_to_thread_cases) auto
  moreover have "(\<forall>disp logics h. disp (msg_id head) = Some h \<longrightarrow> work_on_task ctx disp logics ?t = Inr [Wk_Handler h guid head body]) \<and>
       (\<forall>disp d h. disp (msg_id head) = None \<and> d (msg_id head) = Some h \<longrightarrow>
          work_on_task ctx disp [Inner_Logic d] ?t = Inr [Wk_Handler h guid head body]) \<and>
       (\<forall>te disp h s. disp (msg_id head) = Some h \<longrightarrow>
          sink_on_task te ctx disp ?t s =
            fold (app_step te) (react te h guid head body) (s\<lparr>events := events s @ [Called h guid head body]\<rparr>))"
    if "do_checksum ctx = do_checksum (work_codec w)" for ctx
    using work_on_plain_task[OF that] inner_on_plain_task[OF that] tcp_on_plain_task[OF that] t
    by (simp del: logics_on_task.simps)
  ultimately show ?thesis using t by blast
qed

definition demo_sched :: "nat \<Rightarrow> work_sched" where
  "demo_sched n =
     \<lparr>global_thread = Some (thread_init 8),
      thread_groups = (\<lambda>ty. if ty = THREAD_TYPE_GLOBAL then None else Some (replicate n (thread_init 8))),
      last_thread_idx = (\<lambda>_. 1), self_thread = 1, work_codec = \<lparr>max_msg_body_len = 64, do_checksum = True\<rparr>\<rparr>"

definition demo_env :: work_env where
  "demo_env = \<lparr>wk_heap = (\<lambda>n. replicate n 0xAA), wk_intr = False\<rparr>"

lemma demo_fresh [simp]: "fresh_ok demo_env n"
  by (simp add: fresh_ok_def demo_env_def)

theorem thread_message_delivered_witness:
  "\<exists>w' t. send_to_thread demo_env THREAD_TYPE_GLOBAL (Some conn_guid_init) \<lparr>passback = 7, msg_id = 5\<rparr> (Some [1]) 1 0 (demo_sched 2) =
       Inr (RC_OK, w') \<and> global_thread w' = Some (push_task False t (thread_init 8)) \<and>
     work_on_task (work_codec (demo_sched 2)) [5 \<mapsto> 9] [] t = Inr [Wk_Handler 9 conn_guid_init \<lparr>passback = 7, msg_id = 5\<rparr> [1]]"
proof -
  let ?w = "demo_sched 2" and ?h = "\<lparr>passback = 7, msg_id = 5\<rparr> :: msg_head"
  have gt: "global_thread ?w = Some (thread_init 8)" by (simp add: demo_sched_def)
  then obtain w' where w': "send_to_thread demo_env THREAD_TYPE_GLOBAL (Some conn_guid_init) ?h (Some [1]) (length [1 :: u8]) 0 ?w = Inr (RC_OK, w')"
    by (simp add: send_to_thread_def)
  have "\<exists>t. global_thread w' = Some (push_task False t (thread_init 8)) \<and>
     work_on_task (work_codec ?w) [5 \<mapsto> 9] [] t = Inr [Wk_Handler 9 conn_guid_init ?h [1]]"
    using thread_message_delivered[OF w' demo_fresh] gt by (auto simp: demo_env_def)
  with w' show ?thesis by auto
qed

subsection \<open>Threads in turn\<close>

text \<open>Messages without a chosen thread, one after the other.\<close>

fun send_in_turn ::
  "thread_type \<Rightarrow> (work_env \<times> conn_guid option \<times> msg_head \<times> bytes) list \<Rightarrow> work_sched \<Rightarrow> work_fault + work_sched" where
  "send_in_turn ty [] w = Inr w"
| "send_in_turn ty ((e, guid, head, body) # ms) w =
     (case send_to_thread e ty guid head (Some body) (length body) (- 1) w of
        Inl f \<Rightarrow> Inl f
      | Inr (_, w1) \<Rightarrow> send_in_turn ty ms w1)"

text \<open>Those of the elements whose turn, counted from \<open>k\<close>, falls on thread \<open>i\<close> of \<open>n\<close>.\<close>

fun share :: "nat \<Rightarrow> nat \<Rightarrow> nat \<Rightarrow> 'a list \<Rightarrow> 'a list" where
  "share n i k [] = []"
| "share n i k (x # xs) = (if k mod n = i then [x] else []) @ share n i (Suc k) xs"

lemma share_cong: "k mod n = k' mod n \<Longrightarrow> share n i k xs = share n i k' xs"
proof (induction xs arbitrary: k k')
  case (Cons x xs)
  from Cons.prems have "Suc k mod n = Suc k' mod n" by (metis mod_Suc_eq)
  from Cons.IH[OF this] Cons.prems show ?case by simp
qed simp

lemma length_share:
  assumes "i < n"
  shows "length (share n i k xs) = (length xs + k + (n - 1 - i)) div n - (k + (n - 1 - i)) div n"
proof (induction xs arbitrary: k)
  case (Cons x xs)
  let ?r = "n - 1 - i"
  have turn: "k mod n = i \<longleftrightarrow> Suc (k + ?r) mod n = 0"
  proof -
    have e: "Suc (k + ?r) = k + (n - i)" using assms by simp
    have "(k + (n - i)) mod n = (k mod n + (n - i)) mod n" by presburger
    moreover have "k mod n < n" using assms by simp
    ultimately show ?thesis using assms unfolding e
      by (cases "k mod n < i") (auto simp: le_mod_geq not_less)
  qed
  have mono: "Suc (k + ?r) div n \<le> (length xs + Suc k + ?r) div n" by (intro div_le_mono) simp
  have step: "Suc (k + ?r) div n = (k + ?r) div n + (if k mod n = i then 1 else 0)"
    unfolding turn by (rule div_Suc[THEN trans]) simp
  have e: "length (x # xs) + k + ?r = length xs + Suc k + ?r" "Suc k + ?r = Suc (k + ?r)" by simp_all
  have l: "length (share n i k (x # xs)) = (if k mod n = i then 1 else 0) + length (share n i (Suc k) xs)" by simp
  show ?case using mono unfolding l Cons.IH[of "Suc k"] e step by (cases "k mod n = i") simp_all
qed simp

lemma share_bounds:
  assumes "i < n"
  shows "length xs div n \<le> length (share n i k xs)" "length (share n i k xs) \<le> Suc (length xs div n)"
proof -
  let ?a = "k + (n - 1 - i)"
  have n: "0 < n" using assms by simp
  have "length xs mod n + ?a mod n < 2 * n"
    using mod_less_divisor[OF n, of "length xs"] mod_less_divisor[OF n, of ?a] by linarith
  then have "(length xs mod n + ?a mod n) div n < 2" by (rule less_mult_imp_div_less)
  with div_add1_eq[of "length xs" ?a n]
  have "length xs div n + ?a div n \<le> (length xs + ?a) div n" "(length xs + ?a) div n \<le> Suc (length xs div n + ?a div n)"
    by linarith+
  then show "length xs div n \<le> length (share n i k xs)" "length (share n i k xs) \<le> Suc (length xs div n)"
    by (simp_all add: length_share[OF assms] add.assoc)
qed

lemma pushed_push_task [simp]: "pushed (push_task intr t th) = pushed th @ [t]"
  by (simp add: push_task_def)

lemma turn_step:
  assumes "thread_groups w ty = Some g" "ty \<noteq> THREAD_TYPE_GLOBAL" "last_thread_idx w ty = int k" "k < length g"
    and "fresh_ok e (length body)"
  shows "send_to_thread e ty guid head (Some body) (length body) (- 1) w = Inr (RC_OK,
    w\<lparr>thread_groups := (thread_groups w)(ty \<mapsto> g[k := push_task (wk_intr e) (plain_task w guid head body) (g ! k)]),
      last_thread_idx := (last_thread_idx w)(ty := int (Suc k mod length g))\<rparr>)"
proof -
  let ?w = "w\<lparr>last_thread_idx := (last_thread_idx w)(ty := int (Suc k mod length g))\<rparr>"
  have "plain_task ?w guid head body = plain_task w guid head body" by (rule fun_cong fun_cong fun_cong) (simp add: plain_task_def)
  then show ?thesis
    using assms by (auto simp: send_to_thread_def get_schedule_idx_def get_thread_def push_to_group_def
        thread_msg_plain plain_task_def of_nat_mod add.commute)
qed

text \<open>The first turn, whatever \<^verbatim>\<open>rand\<close> says, is one of the threads.\<close>

lemma set_related_in_range:
  assumes "set_related_thread_groups rand gt related w = Inr w'" "thread_groups w' ty = Some g" "g \<noteq> []"
  obtains k where "last_thread_idx w' ty = int k" "k < length g"
  using assms by (auto simp: set_related_thread_groups_def split: if_splits)

text \<open>
  Claim C18: threads that are chosen in turn get equal shares. Any number of messages sent to a kind of
  thread without an index all go out; thread \<open>i\<close> gets every message whose turn falls on it, in order and
  complete, so that the numbers two threads get differ by at most one, whatever the start; the next thread
  in turn stays in range, and other groups are not touched.
\<close>

theorem turns_are_fair:
  assumes "thread_groups w ty = Some g" "ty \<noteq> THREAD_TYPE_GLOBAL" "last_thread_idx w ty = int k" "k < length g"
    and "list_all (\<lambda>(e, guid, head, body). fresh_ok e (length body)) ms"
  shows "\<exists>w' g'. send_in_turn ty ms w = Inr w' \<and> thread_groups w' = (thread_groups w)(ty \<mapsto> g') \<and> length g' = length g \<and>
    last_thread_idx w' ty = int ((k + length ms) mod length g) \<and>
    (\<forall>i < length g.
       pushed (g' ! i) = pushed (g ! i) @ map (\<lambda>(e, guid, head, body). plain_task w guid head body) (share (length g) i k ms) \<and>
       length ms div length g \<le> length (share (length g) i k ms) \<and>
       length (share (length g) i k ms) \<le> Suc (length ms div length g))"
proof -
  have "\<exists>w' g'. send_in_turn ty ms w = Inr w' \<and> thread_groups w' = (thread_groups w)(ty \<mapsto> g') \<and> length g' = length g \<and>
    last_thread_idx w' ty = int ((k + length ms) mod length g) \<and>
    (\<forall>i < length g. pushed (g' ! i) =
       pushed (g ! i) @ map (\<lambda>(e, guid, head, body). plain_task w guid head body) (share (length g) i k ms))"
    using assms
  proof (induction ms arbitrary: w g k)
    case Nil
    then show ?case by (intro exI[of _ w] exI[of _ g]) auto
  next
    case (Cons m ms)
    obtain e guid head body where m: "m = (e, guid, head, body)" by (cases m) auto
    let ?g = "g[k := push_task (wk_intr e) (plain_task w guid head body) (g ! k)]"
    let ?w = "w\<lparr>thread_groups := (thread_groups w)(ty \<mapsto> ?g),
      last_thread_idx := (last_thread_idx w)(ty := int (Suc k mod length g))\<rparr>"
    have n: "0 < length g" using Cons.prems(4) by linarith
    have "thread_groups ?w ty = Some ?g" "last_thread_idx ?w ty = int (Suc k mod length g)" "Suc k mod length g < length ?g"
      using n by simp_all
    note a = this
    have "list_all (\<lambda>(e, guid, head, body). fresh_ok e (length body)) ms" using Cons.prems(5) by simp
    from Cons.IH[OF a(1) Cons.prems(2) a(2,3) this, unfolded length_list_update] obtain w' g' where r:
      "send_in_turn ty ms ?w = Inr w'" "thread_groups w' = (thread_groups ?w)(ty \<mapsto> g')" "length g' = length g"
      "last_thread_idx w' ty = int ((Suc k mod length g + length ms) mod length g)"
      "\<forall>i < length g. pushed (g' ! i) = pushed (?g ! i) @
         map (\<lambda>(e, guid, head, body). plain_task ?w guid head body) (share (length g) i (Suc k mod length g) ms)" by blast
    have pt: "plain_task ?w = plain_task w" by (rule plain_task_same) simp_all
    have sh: "share (length g) i (Suc k mod length g) ms = share (length g) i (Suc k) ms" for i by (rule share_cong) simp
    have km: "k mod length g = k" using Cons.prems(4) by simp
    have "send_in_turn ty (m # ms) w = Inr w'"
      using turn_step[OF Cons.prems(1-4)] Cons.prems(5) r(1) by (simp add: m)
    moreover have "pushed (g' ! i) = pushed (g ! i) @
       map (\<lambda>(e, guid, head, body). plain_task w guid head body) (share (length g) i k (m # ms))" if "i < length g" for i
      using r(5) that Cons.prems(4) unfolding pt sh by (cases "i = k") (simp_all add: m km)
    moreover have "(Suc k mod length g + length ms) mod length g = (k + length (m # ms)) mod length g"
      by (simp add: mod_add_left_eq)
    ultimately show ?case using r by (intro exI[of _ w'] exI[of _ g']) simp
  qed
  then show ?thesis using share_bounds by blast
qed

theorem turns_are_fair_witness:
  "\<exists>w' g'. send_in_turn THREAD_TYPE_WORK (replicate 7 (demo_env, None, \<lparr>passback = 7, msg_id = 5\<rparr>, [])) (demo_sched 3) = Inr w' \<and>
     thread_groups w' THREAD_TYPE_WORK = Some g' \<and> map (\<lambda>th. length (pushed th)) g' = [2, 3, 2] \<and>
     last_thread_idx w' THREAD_TYPE_WORK = 2"
proof -
  let ?ms = "replicate 7 (demo_env, None, \<lparr>passback = 7, msg_id = 5\<rparr>, []) :: (work_env \<times> conn_guid option \<times> msg_head \<times> bytes) list"
  have w: "thread_groups (demo_sched 3) THREAD_TYPE_WORK = Some (replicate 3 (thread_init 8))"
    "last_thread_idx (demo_sched 3) THREAD_TYPE_WORK = int 1"
    by (simp_all add: demo_sched_def)
  let ?g = "replicate 3 (thread_init 8)"
  have ok: "THREAD_TYPE_WORK \<noteq> THREAD_TYPE_GLOBAL" "1 < length ?g" "list_all (\<lambda>(e, guid, head, body). fresh_ok e (length body)) ?ms"
    by (simp_all add: list_all_iff)
  from turns_are_fair[OF w(1) ok(1) w(2) ok(2,3)] obtain w' g' where w': "send_in_turn THREAD_TYPE_WORK ?ms (demo_sched 3) = Inr w'"
    "thread_groups w' = (thread_groups (demo_sched 3))(THREAD_TYPE_WORK \<mapsto> g')" "length g' = length ?g"
    "last_thread_idx w' THREAD_TYPE_WORK = int ((1 + length ?ms) mod length ?g)"
    "\<forall>i < length ?g. pushed (g' ! i) = pushed (?g ! i) @
       map (\<lambda>(e, guid, head, body). plain_task (demo_sched 3) guid head body) (share (length ?g) i 1 ?ms) \<and>
       length ?ms div length ?g \<le> length (share (length ?g) i 1 ?ms) \<and>
       length (share (length ?g) i 1 ?ms) \<le> Suc (length ?ms div length ?g)" by (elim exE conjE)
  have p: "length (pushed (g' ! i)) = length (share 3 i 1 ?ms)" if "i < 3" for i
    using w'(5)[THEN spec, of i] that by (simp add: thread_init_def)
  have r: "length g' = 3" using w'(3) by simp
  obtain a b c where g': "g' = [a, b, c]" using r by (auto simp: length_Suc_conv numeral_3_eq_3)
  have "length (pushed a) = 2" "length (pushed b) = 3" "length (pushed c) = 2"
    using p[of 0] p[of 1] p[of 2] by (simp_all add: g' length_share)
  then have "map (\<lambda>th. length (pushed th)) g' = [2, 3, 2]" by (simp add: g')
  with w'(1,2,4) show ?thesis by auto
qed

subsection \<open>To a client, and to all\<close>

lemma push_to_client_OK:
  assumes "push_to_client e io guid t w = (RC_OK, w')"
  obtains ty g where "io = Some ty" "thread_groups w ty = Some g" "0 \<le> io_thread_idx guid" "io_thread_idx guid < int (length g)"
    "w' = push_to_group (wk_intr e) ty (io_thread_idx guid) t w"
  using assms by (auto simp: push_to_client_def get_thread_Some split: option.splits)

lemma msg_frame_same: "do_checksum ctx = do_checksum ctx' \<Longrightarrow> msg_frame ctx head body = msg_frame ctx' head body"
  using msg_rest_same[of ctx ctx' head body] by (simp add: msg_frame_def)

text \<open>What a TCP thread does with bytes for one of its connections.\<close>

lemma task_send_appends:
  assumes "pl_inv s" "self_idx s = io_thread_idx (task_guid t)" "task_type t = TASK_TYPE_SEND_TO_CLIENT"
    and "new_ok (ev te)" "add_ok (ev te)" "conn_heap (conns s) p = Some c" "c_id c = conn_id (task_guid t)" "\<not> use_bufferevent c"
  shows "\<exists>c'. conn_heap (conns (sink_on_task te ctx disp t s)) p = Some c' \<and> send_list c' = send_list c @ [task_data t]"
  using get_conn_by_id_live[OF assms(1,6)] assms
  by (auto simp: sink_on_task_def tcp_send_to_client_def conn_send_def normal_send_def split: option.split)

lemma task_send_gone:
  assumes "pl_inv s" "self_idx s = io_thread_idx (task_guid t)" "task_type t = TASK_TYPE_SEND_TO_CLIENT"
    and "\<And>p c. conn_heap (conns s) p = Some c \<Longrightarrow> c_id c \<noteq> conn_id (task_guid t)"
  shows "sink_on_task te ctx disp t s = s"
  using get_conn_by_id_zero[OF assms(1,4)] assms(2,3) by (simp add: sink_on_task_def tcp_send_to_client_def)

text \<open>
  Claim C7: what a work thread sends to a client reaches it. When \<open>wk_send_msg\<close> returns 0, the thread
  that manages the connection has a new task at the end of its queue; that thread appends
  the encoded message to what the connection has still to send, and does nothing when the connection
  has gone meanwhile; and a receiver that treats checksums alike recognises the bytes as one whole message
  and decodes the head and the body that were sent.
\<close>

theorem work_reply_reaches_client:
  assumes "wk_send_msg e (Some guid) head (Some body) (length body) w = (RC_OK, w')" "fresh_ok e (length body)"
  shows "\<exists>g t. thread_groups w THREAD_TYPE_PROTO_TCP = Some g \<and> 0 \<le> io_thread_idx guid \<and> io_thread_idx guid < int (length g) \<and>
    thread_groups w' = (thread_groups w)(THREAD_TYPE_PROTO_TCP \<mapsto>
      g[nat (io_thread_idx guid) := push_task (wk_intr e) t (g ! nat (io_thread_idx guid))]) \<and>
    (\<forall>te ctx disp s. pl_inv s \<and> self_idx s = io_thread_idx guid \<and> new_ok (ev te) \<and> add_ok (ev te) \<longrightarrow>
       (\<forall>p c. conn_heap (conns s) p = Some c \<and> c_id c = conn_id guid \<and> \<not> use_bufferevent c \<longrightarrow>
          (\<exists>c'. conn_heap (conns (sink_on_task te ctx disp t s)) p = Some c' \<and>
             send_list c' = send_list c @ [msg_frame (work_codec w) head body])) \<and>
       ((\<forall>p c. conn_heap (conns s) p = Some c \<longrightarrow> c_id c \<noteq> conn_id guid) \<longrightarrow> sink_on_task te ctx disp t s = s)) \<and>
    (\<forall>ctx stat rest. sendable ctx stat body \<and> do_checksum ctx = do_checksum (work_codec w) \<longrightarrow>
       snd (is_whole_msg ctx stat (msg_frame (work_codec w) head body @ rest) (16 + length body)) = Whole (12 + length body) \<and>
       decode_msg ctx (drop 4 (msg_frame (work_codec w) head body @ rest)) (12 + length body) = Decoded head body)"
proof -
  let ?t = "new_task TASK_TYPE_SEND_TO_CLIENT (self_thread w) (Some guid) (Some (msg_frame (work_codec w) head body))"
  have t: "task_guid ?t = guid" "task_type ?t = TASK_TYPE_SEND_TO_CLIENT" "task_data ?t = msg_frame (work_codec w) head body"
    by (simp_all add: new_task_def)
  from assms(1) obtain g where g: "thread_groups w THREAD_TYPE_PROTO_TCP = Some g"
    "0 \<le> io_thread_idx guid" "io_thread_idx guid < int (length g)"
    "w' = push_to_group (wk_intr e) THREAD_TYPE_PROTO_TCP (io_thread_idx guid) ?t w"
    by (auto simp: wk_send_msg_def encoded_frame[OF assms(2)] split: if_splits elim!: push_to_client_OK)
  have dec: "snd (is_whole_msg ctx stat (msg_frame (work_codec w) head body @ rest) (16 + length body)) = Whole (12 + length body) \<and>
       decode_msg ctx (drop 4 (msg_frame (work_codec w) head body @ rest)) (12 + length body) = Decoded head body"
    if a: "sendable ctx stat body" "do_checksum ctx = do_checksum (work_codec w)" for ctx stat rest
  proof -
    have "drop 4 (msg_frame ctx head body @ rest) = msg_rest ctx head body @ rest" by (simp add: msg_frame_def)
    with a(1) show ?thesis by (simp add: msg_frame_same[OF a(2), symmetric] is_whole_frame decode_rest)
  qed
  have app: "\<exists>c'. conn_heap (conns (sink_on_task te ctx disp ?t s)) p = Some c' \<and>
      send_list c' = send_list c @ [msg_frame (work_codec w) head body]"
    if "pl_inv s" "self_idx s = io_thread_idx guid" "new_ok (ev te)" "add_ok (ev te)"
      "conn_heap (conns s) p = Some c" "c_id c = conn_id guid" "\<not> use_bufferevent c" for te ctx disp s p c
    using task_send_appends[of s ?t te p c ctx disp] that by (simp add: t)
  have gone: "sink_on_task te ctx disp ?t s = s"
    if "pl_inv s" "self_idx s = io_thread_idx guid" "\<forall>p c. conn_heap (conns s) p = Some c \<longrightarrow> c_id c \<noteq> conn_id guid" for te ctx disp s
    using task_send_gone[of s ?t te ctx disp] that by (simp add: t)
  have w': "thread_groups w' = (thread_groups w)(THREAD_TYPE_PROTO_TCP \<mapsto>
      g[nat (io_thread_idx guid) := push_task (wk_intr e) ?t (g ! nat (io_thread_idx guid))])"
    using g by (simp add: push_to_group_def)
  show ?thesis
    by (rule exI[of _ g], rule exI[of _ ?t], intro conjI g(1,2,3) w')
      (use app gone dec in \<open>blast+\<close>)
qed

theorem work_reply_reaches_client_witness:
  "\<exists>w' t. wk_send_msg demo_env (Some \<lparr>io_type = IO_TYPE_PROTO_TCP, io_thread_idx = 1, conn_id = 4\<rparr>) \<lparr>passback = 7, msg_id = 5\<rparr> (Some [1]) 1
       (demo_sched 2) = (RC_OK, w') \<and>
     thread_groups w' THREAD_TYPE_PROTO_TCP = Some [thread_init 8, push_task False t (thread_init 8)]"
proof -
  let ?guid = "\<lparr>io_type = IO_TYPE_PROTO_TCP, io_thread_idx = 1, conn_id = 4\<rparr>"
  have gr: "thread_groups (demo_sched 2) THREAD_TYPE_PROTO_TCP = Some [thread_init 8, thread_init 8]"
    by (simp add: demo_sched_def numeral_2_eq_2)
  then obtain w' where w': "wk_send_msg demo_env (Some ?guid) \<lparr>passback = 7, msg_id = 5\<rparr> (Some [1]) (length [1 :: u8]) (demo_sched 2) = (RC_OK, w')"
    by (simp add: wk_send_msg_def push_to_client_def get_thread_def)
  have "\<exists>t. thread_groups w' THREAD_TYPE_PROTO_TCP = Some [thread_init 8, push_task False t (thread_init 8)]"
    using work_reply_reaches_client[OF w' demo_fresh] gr by (elim exE conjE) (auto simp: demo_env_def)
  with w' show ?thesis by auto
qed

lemma broadcast_loop_all:
  assumes "ty \<noteq> THREAD_TYPE_GLOBAL" "fresh_ok e (length body)" "thread_groups w ty = Some (map (push_task (wk_intr e) (plain_task w guid head body)) a @ b)"
    and "length a = i"
  shows "broadcast_loop e ty guid head (Some body) (length body) i (length b) w =
    Inr (w\<lparr>thread_groups := (thread_groups w)(ty \<mapsto> map (push_task (wk_intr e) (plain_task w guid head body)) (a @ b))\<rparr>)"
  using assms
proof (induction b arbitrary: a i w)
  case Nil
  then show ?case by (simp add: fun_upd_idem)
next
  case (Cons th b)
  let ?P = "push_task (wk_intr e) (plain_task w guid head body)"
  let ?w = "w\<lparr>thread_groups := (thread_groups w)(ty \<mapsto> map ?P (a @ [th]) @ b)\<rparr>"
  have pt: "plain_task ?w guid head body = plain_task w guid head body" by (simp add: plain_task_def)
  have "send_to_thread e ty guid head (Some body) (length body) (int i) w = Inr (RC_OK, ?w)"
    using Cons.prems by (simp add: send_to_thread_def get_schedule_idx_def get_thread_def push_to_group_def thread_msg_plain
        nth_append list_update_append)
  moreover have "thread_groups ?w ty = Some (map ?P (a @ [th]) @ b)" "length (a @ [th]) = Suc i" using Cons.prems by simp_all
  note Cons.IH[OF Cons.prems(1,2), of ?w, unfolded pt, OF this]
  moreover have "?w\<lparr>thread_groups := (thread_groups ?w)(ty \<mapsto> map ?P ((a @ [th]) @ b))\<rparr> =
      w\<lparr>thread_groups := (thread_groups w)(ty \<mapsto> map ?P (a @ th # b))\<rparr>" by (simp add: fun_eq_iff)
  ultimately show ?case by (simp only: broadcast_loop.simps list.size add_0_right add_Suc_right sum.case prod.case)
qed

text \<open>
  The global logic's broadcast (index -1) leaves one copy of the message at the end of the
  queue of every thread of the group and returns 0, without a change of whose turn it is; if there is
  no such group it goes through a null pointer.
\<close>

theorem broadcast_reaches_all:
  assumes "ty \<noteq> THREAD_TYPE_GLOBAL" "fresh_ok e (length body)"
  shows "case thread_groups w ty of
      None \<Rightarrow> global_send e ty guid head (Some body) (length body) (- 1) w = Inl Null_Group
    | Some g \<Rightarrow> global_send e ty guid head (Some body) (length body) (- 1) w =
        Inr (RC_OK, w\<lparr>thread_groups := (thread_groups w)(ty \<mapsto> map (push_task (wk_intr e) (plain_task w guid head body)) g)\<rparr>)"
  using broadcast_loop_all[OF assms, of w guid head "[]" _ 0] by (simp add: global_send_def split: option.split)

theorem broadcast_reaches_all_witness:
  "case global_send demo_env THREAD_TYPE_BURDEN None \<lparr>passback = 7, msg_id = 5\<rparr> (Some [1]) 1 (- 1) (demo_sched 3) of
     Inl _ \<Rightarrow> False
   | Inr (ret, w') \<Rightarrow> ret = RC_OK \<and> map (\<lambda>th. length (pushed th)) (the (thread_groups w' THREAD_TYPE_BURDEN)) = [1, 1, 1]"
  using broadcast_reaches_all[of THREAD_TYPE_BURDEN demo_env "[1]", where w = "demo_sched 3" and guid = None and head = "\<lparr>passback = 7, msg_id = 5\<rparr>"]
  by (simp add: demo_sched_def numeral_3_eq_3 thread_init_def)

text \<open>
  A message for a client is refused, and nothing changes, exactly when there is no connection id, its kind
  is not one of the three TCP kinds, or there is no such thread. A task that came without a connection
  carries the initial id, which is refused.
\<close>

theorem client_sends_refused:
  "(fst (wk_send_data e guid data w) = RC_OK \<longleftrightarrow>
      (\<exists>g ty grp. guid = Some g \<and> io_threads (io_type g) = Some ty \<and> thread_groups w ty = Some grp \<and>
         0 \<le> io_thread_idx g \<and> io_thread_idx g < int (length grp))) \<and>
   (fst (wk_send_data e guid data w) = RC_OK \<or> wk_send_data e guid data w = (RC_ERR, w)) \<and>
   fst (wk_close_client e guid w) = fst (wk_send_data e guid data w) \<and>
   (fst (wk_close_client e guid w) = RC_OK \<or> wk_close_client e guid w = (RC_ERR, w)) \<and>
   wk_send_data e (Some conn_guid_init) data w = (RC_ERR, w)"
  by (auto simp: wk_send_data_def wk_close_client_def push_to_client_def get_thread_def io_threads_def conn_guid_init_def
      split: option.splits io_type.splits)

end
