(* ===== verification/App_Frame.thy ===== *)
theory App_Frame
  imports Work_Route
begin

text \<open>
  The application frame, \<^verbatim>\<open>app_frame/src/app_frame.cpp\<close>: the check of the configuration, the loading and
  creation of the thread groups, what they are told of each other, the start that waits for all threads,
  and the way out. The loading of a library and the creation of a thread are parameters.
\<close>

subsection \<open>Configuration\<close>

text \<open>
  The members of \<^verbatim>\<open>ConfMgr\<close> that decide which threads exist: the number of threads, the listen address
  and the number of logic libraries, by type of thread.
\<close>

record app_conf =
  cf_global_so :: string
  cf_threads :: "thread_type \<Rightarrow> int"
  cf_addr :: "thread_type \<Rightarrow> string"
  cf_logics :: "thread_type \<Rightarrow> nat"

text \<open>\<^verbatim>\<open>LoadAndCheckConf\<close> for one kind of server, with the number of threads so far; None is an error.\<close>

definition check_io :: "app_conf \<Rightarrow> thread_type \<Rightarrow> int \<Rightarrow> int option" where
  "check_io conf ty n =
     (if cf_addr conf ty = [] then Some n
      else if cf_threads conf ty = 0 then None
      else if cf_threads conf THREAD_TYPE_WORK = 0 \<and> cf_logics conf ty = 0 then None
      else Some (n + cf_threads conf ty))"

definition check_work :: "app_conf \<Rightarrow> int \<Rightarrow> int option" where
  "check_work conf n =
     (if cf_threads conf THREAD_TYPE_WORK = 0 \<and> 0 < cf_threads conf THREAD_TYPE_BURDEN then None
      else if 0 < cf_threads conf THREAD_TYPE_BURDEN \<and> cf_logics conf THREAD_TYPE_BURDEN = 0 then None
      else
        (let n1 = (if 0 < cf_threads conf THREAD_TYPE_BURDEN then n + cf_threads conf THREAD_TYPE_BURDEN else n) in
         if 0 < cf_threads conf THREAD_TYPE_WORK
         then (if cf_threads conf THREAD_TYPE_BURDEN = 0 \<and> cf_logics conf THREAD_TYPE_TCP = 0 \<and>
                  cf_logics conf THREAD_TYPE_PROTO_TCP = 0 \<and> cf_logics conf THREAD_TYPE_WORK = 0 then None
               else Some (n1 + cf_threads conf THREAD_TYPE_WORK))
         else Some n1))"

text \<open>The whole check: the number of threads to wait for.\<close>

definition check_conf :: "app_conf \<Rightarrow> int option" where
  "check_conf conf =
     Option.bind (check_io conf THREAD_TYPE_TCP (if cf_global_so conf = [] then 0 else 1))
       (\<lambda>n. Option.bind (check_io conf THREAD_TYPE_PROTO_TCP n)
       (\<lambda>n. Option.bind (check_io conf THREAD_TYPE_WEB_TCP n)
       (\<lambda>n. Option.bind (check_work conf n)
       (\<lambda>n. if cf_addr conf THREAD_TYPE_TCP = [] \<and> cf_addr conf THREAD_TYPE_PROTO_TCP = [] \<and>
               cf_addr conf THREAD_TYPE_WEB_TCP = [] then None
            else Some n))))"

subsection \<open>State\<close>

text \<open>
  The objects that are loaded, their thread groups (None is null), the schedulers of the work threads
  by the kind of thread they run in, the number of threads to wait for.
\<close>

record app_frame =
  af_loaded :: "thread_type \<Rightarrow> bool"
  af_groups :: "thread_type \<Rightarrow> thread_group option"
  af_scheds :: "thread_type \<Rightarrow> work_sched list"
  af_expected :: int

record app_env =
  ae_load_ok :: "thread_type \<Rightarrow> bool"
  ae_init_ok :: "thread_type \<Rightarrow> bool"
  ae_thread_ok :: "thread_type \<Rightarrow> nat \<Rightarrow> bool"
  ae_activate_ok :: "thread_type \<Rightarrow> bool"
  ae_start_ok :: "thread_type \<Rightarrow> bool"
  ae_pipe_cap :: nat
  ae_rand :: "thread_type \<Rightarrow> nat \<Rightarrow> thread_type \<Rightarrow> nat"
  ae_sched :: "thread_type \<Rightarrow> nat \<Rightarrow> work_sched"

definition app_init :: app_frame where
  "app_init = \<lparr>af_loaded = (\<lambda>_. False), af_groups = (\<lambda>_. None), af_scheds = (\<lambda>_. []), af_expected = 0\<rparr>"

text \<open>The order in which everything is done.\<close>

definition all_types :: "thread_type list" where
  "all_types = [THREAD_TYPE_GLOBAL, THREAD_TYPE_WORK, THREAD_TYPE_BURDEN, THREAD_TYPE_TCP, THREAD_TYPE_PROTO_TCP, THREAD_TYPE_WEB_TCP]"

subsection \<open>Loading and creation\<close>

text \<open>Whether \<^verbatim>\<open>LoadGlobalThread\<close> to \<^verbatim>\<open>LoadWebThreads\<close> go on to load.\<close>

definition wants_load :: "app_conf \<Rightarrow> thread_type \<Rightarrow> bool" where
  "wants_load conf ty =
     (case ty of
        THREAD_TYPE_GLOBAL \<Rightarrow> cf_global_so conf \<noteq> []
      | THREAD_TYPE_BURDEN \<Rightarrow> cf_threads conf THREAD_TYPE_WORK \<noteq> 0 \<and> cf_threads conf THREAD_TYPE_BURDEN \<noteq> 0
      | _ \<Rightarrow> cf_threads conf ty \<noteq> 0)"

fun load_all :: "app_env \<Rightarrow> app_conf \<Rightarrow> thread_type list \<Rightarrow> app_frame \<Rightarrow> int \<times> app_frame" where
  "load_all e conf [] a = (RC_OK, a)"
| "load_all e conf (ty # tys) a =
     (if \<not> wants_load conf ty then load_all e conf tys a
      else if \<not> ae_load_ok e ty then (RC_ERR, a)
      else load_all e conf tys (a\<lparr>af_loaded := (af_loaded a)(ty := True)\<rparr>))"

text \<open>\<^verbatim>\<open>CreateAllThreads\<close>, through an object that may be null. The global thread is a group of one.\<close>

definition wants_group :: "app_conf \<Rightarrow> thread_type \<Rightarrow> bool" where
  "wants_group conf ty = (if ty = THREAD_TYPE_GLOBAL then cf_global_so conf \<noteq> [] else 0 < cf_threads conf ty)"

definition group_size :: "app_conf \<Rightarrow> thread_type \<Rightarrow> int" where
  "group_size conf ty = (if ty = THREAD_TYPE_GLOBAL then 1 else cf_threads conf ty)"

fun create_all_threads ::
  "app_env \<Rightarrow> app_conf \<Rightarrow> thread_type list \<Rightarrow> app_frame \<Rightarrow> work_fault + int \<times> app_frame" where
  "create_all_threads e conf [] a = Inr (RC_OK, a)"
| "create_all_threads e conf (ty # tys) a =
     (if \<not> wants_group conf ty then create_all_threads e conf tys a
      else if \<not> af_loaded a ty then Inl Null_Object
      else (case create_thread_group (ae_pipe_cap e) (ae_init_ok e ty) (ae_thread_ok e ty) (group_size conf ty) of
              None \<Rightarrow> Inr (RC_ERR, a)
            | Some g \<Rightarrow> create_all_threads e conf tys (a\<lparr>af_groups := (af_groups a)(ty \<mapsto> g)\<rparr>)))"

subsection \<open>What the threads know of each other\<close>

text \<open>
  \<^verbatim>\<open>SetThreadsRelationship\<close>: the pointers that are set for the schedulers of the global, the work and
  the burden threads; all others stay as they were made. The other kinds get the global thread and
  the work threads only, and their structure is made complete.
\<close>

definition tells :: "thread_type \<Rightarrow> thread_type \<Rightarrow> bool" where
  "tells owner ty =
     (if owner = THREAD_TYPE_GLOBAL \<or> owner = THREAD_TYPE_WORK
      then ty \<in> {THREAD_TYPE_WORK, THREAD_TYPE_BURDEN, THREAD_TYPE_TCP, THREAD_TYPE_PROTO_TCP, THREAD_TYPE_WEB_TCP}
      else owner = THREAD_TYPE_BURDEN \<and> ty = THREAD_TYPE_BURDEN)"

definition relate :: "app_frame \<Rightarrow> thread_type \<Rightarrow> thread_type \<Rightarrow> group_ptr" where
  "relate a owner ty = (if tells owner ty \<and> af_loaded a ty then Group_Ptr (af_groups a ty) else related_new ty)"

text \<open>The global thread, which the global thread itself is not told.\<close>

definition related_global :: "app_frame \<Rightarrow> thread_type \<Rightarrow> work_fault + thread option" where
  "related_global a owner =
     (if owner = THREAD_TYPE_GLOBAL \<or> \<not> af_loaded a THREAD_TYPE_GLOBAL then Inr None
      else (case af_groups a THREAD_TYPE_GLOBAL of
              None \<Rightarrow> Inl Null_Group
            | Some g \<Rightarrow> Inr (get_thread g 0)))"

text \<open>\<^verbatim>\<open>Threads::SetRelatedThreadGroups\<close>: the scheduler of every thread of the group.\<close>

fun relate_threads ::
  "(nat \<Rightarrow> thread_type \<Rightarrow> nat) \<Rightarrow> (nat \<Rightarrow> work_sched) \<Rightarrow> thread option \<Rightarrow> (thread_type \<Rightarrow> group_ptr) \<Rightarrow> nat \<Rightarrow> nat \<Rightarrow>
     work_fault + work_sched list" where
  "relate_threads rand sched gt related i 0 = Inr []"
| "relate_threads rand sched gt related i (Suc n) =
     (case set_related_thread_groups (rand i) gt related (sched i) of
        Inl f \<Rightarrow> Inl f
      | Inr w \<Rightarrow> map_sum id (\<lambda>ws. w # ws) (relate_threads rand sched gt related (Suc i) n))"

definition relate_owner :: "app_env \<Rightarrow> thread_type \<Rightarrow> app_frame \<Rightarrow> work_fault + app_frame" where
  "relate_owner e owner a =
     (if \<not> af_loaded a owner then Inr a
      else (case related_global a owner of
              Inl f \<Rightarrow> Inl f
            | Inr gt \<Rightarrow>
                (case af_groups a owner of
                   None \<Rightarrow> Inl Null_Group
                 | Some g \<Rightarrow>
                     if owner \<in> {THREAD_TYPE_GLOBAL, THREAD_TYPE_WORK, THREAD_TYPE_BURDEN}
                     then map_sum id (\<lambda>ws. a\<lparr>af_scheds := (af_scheds a)(owner := ws)\<rparr>)
                            (relate_threads (ae_rand e owner) (ae_sched e owner) gt (relate a owner) 0 (length g))
                     else Inr a)))"

fun set_threads_relationship :: "app_env \<Rightarrow> thread_type list \<Rightarrow> app_frame \<Rightarrow> work_fault + app_frame" where
  "set_threads_relationship e [] a = Inr a"
| "set_threads_relationship e (ty # tys) a =
     (case relate_owner e ty a of Inl f \<Rightarrow> Inl f | Inr a1 \<Rightarrow> set_threads_relationship e tys a1)"

text \<open>\<^verbatim>\<open>Initialize\<close>, after the parts that are calls of the system.\<close>

definition app_initialize :: "app_env \<Rightarrow> app_conf \<Rightarrow> work_fault + int \<times> app_frame" where
  "app_initialize e conf =
     (case check_conf conf of
        None \<Rightarrow> Inr (RC_ERR, app_init)
      | Some n \<Rightarrow>
          (case load_all e conf all_types (app_init\<lparr>af_expected := n\<rparr>) of
             (ret, a1) \<Rightarrow>
               if ret \<noteq> RC_OK then Inr (RC_ERR, a1)
               else (case create_all_threads e conf all_types a1 of
                       Inl f \<Rightarrow> Inl f
                     | Inr (ret2, a2) \<Rightarrow>
                         if ret2 \<noteq> RC_OK then Inr (RC_ERR, a2)
                         else map_sum id (\<lambda>a3. (RC_OK, a3)) (set_threads_relationship e all_types a2))))"

subsection \<open>Start\<close>

text \<open>The groups are started in turn; the number of threads that run.\<close>

fun start_all :: "app_env \<Rightarrow> app_frame \<Rightarrow> thread_type list \<Rightarrow> nat \<Rightarrow> work_fault + int \<times> nat" where
  "start_all e a [] n = Inr (RC_OK, n)"
| "start_all e a (ty # tys) n =
     (if \<not> af_loaded a ty then start_all e a tys n
      else (case af_groups a ty of
              None \<Rightarrow> Inl Null_Group
            | Some g \<Rightarrow> if ae_start_ok e ty then start_all e a tys (n + length g) else Inr (RC_ERR, n)))"

text \<open>
  The loop around \<^verbatim>\<open>pthread_cond_wait\<close>: every thread that has started adds one to the count
  (\<^verbatim>\<open>OnThreadStartOK\<close>) and wakes the loop up; \<open>left\<close> threads have not. None is a wait for ever.
\<close>

fun wait_loop :: "int \<Rightarrow> int \<Rightarrow> nat \<Rightarrow> (int \<times> nat) option" where
  "wait_loop expected n 0 = (if n < expected then None else Some (n, 0))"
| "wait_loop expected n (Suc left) = (if n < expected then wait_loop expected (n + 1) left else Some (n, Suc left))"

text \<open>\<^verbatim>\<open>Activate\<close>: an error, no return, or the count and the threads that have not reported yet.\<close>

definition app_activate :: "app_env \<Rightarrow> app_frame \<Rightarrow> work_fault + int \<times> (int \<times> nat) option" where
  "app_activate e a =
     (if list_ex (\<lambda>ty. af_loaded a ty \<and> \<not> ae_activate_ok e ty) all_types then Inr (RC_ERR, Some (0, 0))
      else case start_all e a all_types 0 of
        Inl f \<Rightarrow> Inl f
      | Inr (ret, n) \<Rightarrow> if ret \<noteq> RC_OK then Inr (RC_ERR, Some (0, n)) else Inr (RC_OK, wait_loop (af_expected a) 0 n))"

subsection \<open>The way out\<close>

text \<open>\<^verbatim>\<open>NotifyStop\<close> asks for every group whether it is there.\<close>

definition app_notify_stop :: "(thread_type \<Rightarrow> nat \<Rightarrow> bool) \<Rightarrow> app_frame \<Rightarrow> app_frame" where
  "app_notify_stop intr a =
     a\<lparr>af_groups := (\<lambda>ty. if af_loaded a ty then map_option (group_notify_stop (intr ty)) (af_groups a ty) else af_groups a ty)\<rparr>"

text \<open>\<^verbatim>\<open>CanExit\<close> and \<^verbatim>\<open>NotifyExitAndJoin\<close> ask so only for the work and the burden threads.\<close>

definition guarded :: "thread_type \<Rightarrow> bool" where
  "guarded ty \<longleftrightarrow> ty = THREAD_TYPE_WORK \<or> ty = THREAD_TYPE_BURDEN"

fun app_can_exit :: "(thread_type \<Rightarrow> nat \<Rightarrow> bool) \<Rightarrow> app_frame \<Rightarrow> thread_type list \<Rightarrow> bool \<Rightarrow> work_fault + bool" where
  "app_can_exit can a [] r = Inr r"
| "app_can_exit can a (ty # tys) r =
     (if \<not> af_loaded a ty then app_can_exit can a tys r
      else (case af_groups a ty of
              None \<Rightarrow> if guarded ty then app_can_exit can a tys r else Inl Null_Group
            | Some g \<Rightarrow> app_can_exit can a tys (r \<and> group_can_exit (can ty) g)))"

definition group_notify_exit :: "(nat \<Rightarrow> bool) \<Rightarrow> thread_group \<Rightarrow> thread_group" where
  "group_notify_exit intr g = map (\<lambda>(i, th). notify_exit (intr i) th) (enumerate 0 g)"

fun app_notify_exit :: "(thread_type \<Rightarrow> nat \<Rightarrow> bool) \<Rightarrow> thread_type list \<Rightarrow> app_frame \<Rightarrow> work_fault + app_frame" where
  "app_notify_exit intr [] a = Inr a"
| "app_notify_exit intr (ty # tys) a =
     (if \<not> af_loaded a ty then app_notify_exit intr tys a
      else (case af_groups a ty of
              None \<Rightarrow> if guarded ty then app_notify_exit intr tys a else Inl Null_Group
            | Some g \<Rightarrow> app_notify_exit intr tys (a\<lparr>af_groups := (af_groups a)(ty \<mapsto> group_notify_exit (intr ty) g)\<rparr>)))"

text \<open>\<^verbatim>\<open>AppLauncher::OnExitCheck\<close>: whether the main loop ends.\<close>

definition on_exit_check ::
  "(thread_type \<Rightarrow> nat \<Rightarrow> bool) \<Rightarrow> (thread_type \<Rightarrow> nat \<Rightarrow> bool) \<Rightarrow> app_frame option \<Rightarrow> work_fault + bool \<times> app_frame option" where
  "on_exit_check can intr af =
     (case af of
        None \<Rightarrow> Inr (True, None)
      | Some a \<Rightarrow>
          (case app_can_exit can a all_types True of
             Inl f \<Rightarrow> Inl f
           | Inr False \<Rightarrow> Inr (False, Some a)
           | Inr True \<Rightarrow> map_sum id (\<lambda>a1. (True, Some a1)) (app_notify_exit intr all_types a)))"

end
