(* ===== verification/App_Start.thy ===== *)
theory App_Start
  imports App_Frame
begin

text \<open>
  What the application frame makes of a configuration: which configurations start, with which threads, and
  when; which lead into a pointer that was never set; and how the main loop ends.
\<close>

subsection \<open>Loading and creation\<close>

definition env_ok :: "app_env \<Rightarrow> bool" where
  "env_ok e \<longleftrightarrow> (\<forall>ty. ae_load_ok e ty \<and> ae_init_ok e ty \<and> (\<forall>i. ae_thread_ok e ty i) \<and> ae_activate_ok e ty \<and> ae_start_ok e ty)"

lemma load_all_ok:
  "env_ok e \<Longrightarrow> load_all e conf tys a =
     (RC_OK, a\<lparr>af_loaded := (\<lambda>ty. af_loaded a ty \<or> (ty \<in> set tys \<and> wants_load conf ty))\<rparr>)"
  by (induction tys arbitrary: a) (auto simp: env_ok_def fun_eq_iff intro!: arg_cong[of _ _ "\<lambda>f. af_loaded_update f _"])

lemma create_threads_ok: "(\<And>i. ok i) \<Longrightarrow> create_threads cap ok i n g = Some (g @ replicate n (thread_init cap))"
  by (induction n arbitrary: i g) (simp_all add: replicate_app_Cons_same)

abbreviation new_group :: "app_env \<Rightarrow> app_conf \<Rightarrow> thread_type \<Rightarrow> thread_group" where
  "new_group e conf ty \<equiv> replicate (nat (group_size conf ty)) (thread_init (ae_pipe_cap e))"

lemma create_all_ok:
  assumes "env_ok e" "\<And>ty. ty \<in> set tys \<Longrightarrow> wants_group conf ty \<Longrightarrow> af_loaded a ty"
  shows "create_all_threads e conf tys a =
    Inr (RC_OK, a\<lparr>af_groups := (\<lambda>ty. if ty \<in> set tys \<and> wants_group conf ty then Some (new_group e conf ty) else af_groups a ty)\<rparr>)"
  using assms(2)
proof (induction tys arbitrary: a)
  case (Cons ty tys)
  have c: "create_thread_group (ae_pipe_cap e) (ae_init_ok e ty) (ae_thread_ok e ty) (group_size conf ty) = Some (new_group e conf ty)"
    using assms(1) by (simp add: create_thread_group_def create_threads_ok env_ok_def)
  show ?case
  proof (cases "wants_group conf ty")
    case True
    then have "af_loaded a ty" using Cons.prems by simp
    with True c Cons.IH[of "a\<lparr>af_groups := (af_groups a)(ty \<mapsto> new_group e conf ty)\<rparr>"] Cons.prems show ?thesis
      by (simp add: fun_upd_def) (auto intro!: arg_cong[of _ _ "\<lambda>f. af_groups_update f _"] simp: fun_eq_iff)
  next
    case False
    with Cons.IH[of a] Cons.prems show ?thesis
      by simp (auto intro!: arg_cong[of _ _ "\<lambda>f. af_groups_update f _"] simp: fun_eq_iff)
  qed
qed simp

subsection \<open>The relations\<close>

definition settled :: "app_frame \<Rightarrow> bool" where
  "settled a \<longleftrightarrow> (\<forall>ty. af_loaded a ty \<longrightarrow> (\<exists>g. af_groups a ty = Some g \<and> g \<noteq> []))"

definition all_set :: "(thread_type \<Rightarrow> group_ptr) \<Rightarrow> bool" where
  "all_set related \<longleftrightarrow> related THREAD_TYPE_WEB_TCP \<noteq> Unset"

lemma relate_unset: "relate a owner ty = Unset \<longleftrightarrow> ty = THREAD_TYPE_WEB_TCP \<and> \<not> (tells owner ty \<and> af_loaded a ty)"
  by (auto simp: relate_def related_new_def)

lemma set_related_relate:
  "set_related_thread_groups rand gt (relate a owner) w = Inl Wild_Pointer \<longleftrightarrow> \<not> all_set (relate a owner)"
  "all_set (relate a owner) \<Longrightarrow> \<exists>w'. set_related_thread_groups rand gt (relate a owner) w = Inr w'"
  by (auto simp: set_related_thread_groups_def all_set_def relate_unset)

lemma relate_threads_ok:
  "all_set (relate a owner) \<Longrightarrow> \<exists>ws. relate_threads rand sched gt (relate a owner) i n = Inr ws \<and> length ws = n"
proof (induction n arbitrary: i)
  case (Suc n)
  from set_related_relate(2)[OF Suc.prems] obtain w where "set_related_thread_groups (rand i) gt (relate a owner) (sched i) = Inr w" by blast
  moreover obtain ws where "relate_threads rand sched gt (relate a owner) (Suc i) n = Inr ws" "length ws = n"
    using Suc.IH[OF Suc.prems, of "Suc i"] by blast
  ultimately show ?case by simp
qed simp

lemma relate_threads_wild:
  "\<not> all_set (relate a owner) \<Longrightarrow> 0 < n \<Longrightarrow> relate_threads rand sched gt (relate a owner) i n = Inl Wild_Pointer"
  using set_related_relate(1)[of "rand i" gt a owner "sched i"] by (cases n) auto

definition same_groups :: "app_frame \<Rightarrow> app_frame \<Rightarrow> bool" where
  "same_groups a b \<longleftrightarrow> af_loaded b = af_loaded a \<and> af_groups b = af_groups a \<and> af_expected b = af_expected a"

text \<open>The kinds whose threads have a scheduler with all the pointers.\<close>

definition in_work :: "thread_type \<Rightarrow> bool" where
  "in_work ty \<longleftrightarrow> ty \<in> {THREAD_TYPE_GLOBAL, THREAD_TYPE_WORK, THREAD_TYPE_BURDEN}"

lemma related_global_ok: "settled a \<Longrightarrow> \<exists>gt. related_global a owner = Inr gt"
  by (auto simp: related_global_def settled_def)

lemma relate_owner_ok:
  assumes "settled a" "af_loaded a owner \<and> in_work owner \<longrightarrow> all_set (relate a owner)"
  shows "\<exists>b. relate_owner e owner a = Inr b \<and> same_groups a b"
proof (cases "af_loaded a owner")
  case True
  obtain gt where gt: "related_global a owner = Inr gt" using related_global_ok[OF assms(1)] by blast
  obtain g where g: "af_groups a owner = Some g" using True assms(1) by (auto simp: settled_def)
  show ?thesis
  proof (cases "in_work owner")
    case w: True
    with True assms(2) relate_threads_ok[of a owner "ae_rand e owner" "ae_sched e owner" gt 0 "length g"] obtain ws where
      "relate_threads (ae_rand e owner) (ae_sched e owner) gt (relate a owner) 0 (length g) = Inr ws" by blast
    with True gt g w show ?thesis by (simp add: relate_owner_def same_groups_def in_work_def)
  next
    case False
    with True gt g show ?thesis by (simp add: relate_owner_def same_groups_def in_work_def)
  qed
qed (simp add: relate_owner_def same_groups_def)

lemma relate_owner_wild:
  assumes "settled a" "af_loaded a owner" "in_work owner" "\<not> all_set (relate a owner)"
  shows "relate_owner e owner a = Inl Wild_Pointer"
proof -
  obtain gt where gt: "related_global a owner = Inr gt" using related_global_ok[OF assms(1)] by blast
  obtain g where g: "af_groups a owner = Some g" "0 < length g" using assms(1,2) by (auto simp: settled_def)
  from relate_threads_wild[OF assms(4) g(2)] gt g assms(2,3) show ?thesis by (simp add: relate_owner_def in_work_def)
qed

lemma same_groups_facts:
  assumes "same_groups a b"
  shows "settled b = settled a" "relate b = relate a" "af_loaded b = af_loaded a"
  using assms by (auto simp: same_groups_def settled_def relate_def fun_eq_iff)

lemma set_threads_relationship_cases:
  assumes "settled a"
  shows "if list_ex (\<lambda>ty. af_loaded a ty \<and> in_work ty \<and> \<not> all_set (relate a ty)) tys
    then set_threads_relationship e tys a = Inl Wild_Pointer
    else (\<exists>b. set_threads_relationship e tys a = Inr b \<and> same_groups a b)"
  using assms
proof (induction tys arbitrary: a)
  case Nil
  then show ?case by (simp add: same_groups_def)
next
  case (Cons ty tys)
  show ?case
  proof (cases "af_loaded a ty \<and> in_work ty \<and> \<not> all_set (relate a ty)")
    case True
    with relate_owner_wild[OF Cons.prems, of ty e] show ?thesis by simp
  next
    case False
    with relate_owner_ok[OF Cons.prems, of ty e] obtain b where b: "relate_owner e ty a = Inr b" "same_groups a b" by blast
    note f = same_groups_facts[OF b(2)]
    from Cons.IH[of b] Cons.prems False b show ?thesis unfolding f by (auto simp: same_groups_def)
  qed
qed

subsection \<open>Counting threads\<close>

lemma wait_loop_eq:
  "wait_loop expected n left =
     (if expected \<le> n then Some (n, left)
      else if expected - n \<le> int left then Some (expected, left - nat (expected - n)) else None)"
  by (induction expected n left rule: wait_loop.induct) auto

definition threads_of :: "app_frame \<Rightarrow> thread_type \<Rightarrow> nat" where
  "threads_of a ty = (if af_loaded a ty then (case af_groups a ty of None \<Rightarrow> 0 | Some g \<Rightarrow> length g) else 0)"

lemma start_all_ok:
  assumes "env_ok e" "settled a"
  shows "start_all e a tys n = Inr (RC_OK, n + sum_list (map (threads_of a) tys))"
proof (induction tys arbitrary: n)
  case (Cons ty tys)
  have "ae_start_ok e ty" using assms(1) by (simp add: env_ok_def)
  moreover have "af_loaded a ty \<Longrightarrow> \<exists>g. af_groups a ty = Some g" using assms(2) by (auto simp: settled_def)
  ultimately show ?case using Cons by (auto simp: threads_of_def)
qed simp

lemma activate_ok:
  assumes "env_ok e" "settled a"
  shows "app_activate e a = Inr (RC_OK, wait_loop (af_expected a) 0 (sum_list (map (threads_of a) all_types)))"
proof -
  have "\<not> list_ex (\<lambda>ty. af_loaded a ty \<and> \<not> ae_activate_ok e ty) all_types"
    using assms(1) by (simp add: env_ok_def list_ex_iff)
  then show ?thesis by (simp add: app_activate_def start_all_ok[OF assms])
qed

definition counts_ok :: "app_conf \<Rightarrow> bool" where
  "counts_ok conf \<longleftrightarrow> (\<forall>ty. 0 \<le> cf_threads conf ty)"

text \<open>What the check adds up to, and what it rules out.\<close>

lemma check_conf_sum:
  assumes "check_conf conf = Some n" "counts_ok conf"
  shows "n + sum_list (map (\<lambda>ty. if cf_addr conf ty = [] then cf_threads conf ty else 0)
        [THREAD_TYPE_TCP, THREAD_TYPE_PROTO_TCP, THREAD_TYPE_WEB_TCP]) =
      sum_list (map (\<lambda>ty. if wants_group conf ty then group_size conf ty else 0) all_types)"
    and "0 < cf_threads conf THREAD_TYPE_BURDEN \<Longrightarrow> cf_threads conf THREAD_TYPE_WORK \<noteq> 0"
    and "0 \<le> n"
proof -
  note c = assms[unfolded check_conf_def check_io_def check_work_def counts_ok_def Let_def]
  have nn: "0 \<le> cf_threads conf ty" for ty using assms(2) by (simp add: counts_ok_def)
  note nn5 = nn[of THREAD_TYPE_WORK] nn[of THREAD_TYPE_BURDEN] nn[of THREAD_TYPE_TCP] nn[of THREAD_TYPE_PROTO_TCP] nn[of THREAD_TYPE_WEB_TCP]
  show "n + sum_list (map (\<lambda>ty. if cf_addr conf ty = [] then cf_threads conf ty else 0)
        [THREAD_TYPE_TCP, THREAD_TYPE_PROTO_TCP, THREAD_TYPE_WEB_TCP]) =
      sum_list (map (\<lambda>ty. if wants_group conf ty then group_size conf ty else 0) all_types)"
    using c(1) nn5 by (auto simp: all_types_def wants_group_def group_size_def bind_eq_Some_conv split: if_splits)
  show "0 < cf_threads conf THREAD_TYPE_BURDEN \<Longrightarrow> cf_threads conf THREAD_TYPE_WORK \<noteq> 0"
    using c(1) by (auto simp: bind_eq_Some_conv split: if_splits)
  show "0 \<le> n" using c(1) nn5 by (auto simp: bind_eq_Some_conv split: if_splits)
qed

lemma wants_same:
  assumes "check_conf conf = Some n" "counts_ok conf"
  shows "wants_load conf ty = wants_group conf ty"
proof -
  have nn: "0 \<le> cf_threads conf ty" for ty using assms(2) by (simp add: counts_ok_def)
  from check_conf_sum(2)[OF assms] nn[of ty] nn[of THREAD_TYPE_BURDEN] show ?thesis
    by (cases ty) (auto simp: wants_load_def wants_group_def)
qed

lemma all_types_all [simp]: "ty \<in> set all_types"
  by (cases ty) (simp_all add: all_types_def)

definition created :: "app_env \<Rightarrow> app_conf \<Rightarrow> int \<Rightarrow> app_frame" where
  "created e conf n = app_init\<lparr>af_expected := n, af_loaded := wants_group conf,
     af_groups := (\<lambda>ty. if wants_group conf ty then Some (new_group e conf ty) else None)\<rparr>"

lemma initialize_created:
  assumes "check_conf conf = Some n" "counts_ok conf" "env_ok e"
  shows "app_initialize e conf = map_sum id (\<lambda>a. (RC_OK, a)) (set_threads_relationship e all_types (created e conf n))"
proof -
  have w: "wants_load conf = wants_group conf" using wants_same[OF assms(1,2)] by auto
  have l: "load_all e conf all_types (app_init\<lparr>af_expected := n\<rparr>) = (RC_OK, app_init\<lparr>af_expected := n, af_loaded := wants_group conf\<rparr>)"
    by (simp add: load_all_ok[OF assms(3)] w app_init_def)
  have "create_all_threads e conf all_types (app_init\<lparr>af_expected := n, af_loaded := wants_group conf\<rparr>) = Inr (RC_OK, created e conf n)"
    by (subst create_all_ok[OF assms(3)]) (simp_all add: created_def app_init_def cong: if_cong)
  with l assms(1) show ?thesis by (simp add: app_initialize_def)
qed

lemma created_settled: "settled (created e conf n)"
  by (auto simp: settled_def created_def wants_group_def group_size_def)

lemma created_simps [simp]:
  "af_loaded (created e conf n) = wants_group conf" "af_expected (created e conf n) = n"
  "af_groups (created e conf n) ty = (if wants_group conf ty then Some (new_group e conf ty) else None)"
  by (simp_all add: created_def)

text \<open>Who finds the pointer to the web threads unset.\<close>

definition some_wild :: "app_conf \<Rightarrow> bool" where
  "some_wild conf \<longleftrightarrow> 0 < cf_threads conf THREAD_TYPE_BURDEN \<or>
     (cf_threads conf THREAD_TYPE_WEB_TCP = 0 \<and> (0 < cf_threads conf THREAD_TYPE_WORK \<or> cf_global_so conf \<noteq> []))"

lemma wild_iff:
  assumes "counts_ok conf"
  shows "list_ex (\<lambda>ty. af_loaded (created e conf n) ty \<and> in_work ty \<and> \<not> all_set (relate (created e conf n) ty)) all_types = some_wild conf"
  using assms by (auto simp: all_types_def in_work_def all_set_def relate_unset tells_def some_wild_def wants_group_def counts_ok_def
      order.order_iff_strict)

subsection \<open>Start\<close>

lemma threads_of_created: "threads_of (created e conf n) ty = nat (if wants_group conf ty then group_size conf ty else 0)"
  by (simp add: threads_of_def)

lemma sum_nat: "(\<And>ty. 0 \<le> f ty) \<Longrightarrow> int (sum_list (map (\<lambda>ty. nat (f ty)) tys)) = sum_list (map f tys)"
  by (induction tys) auto

lemma size_nonneg: "counts_ok conf \<Longrightarrow> 0 \<le> (if wants_group conf ty then group_size conf ty else 0)"
  by (simp add: counts_ok_def group_size_def)

text \<open>
  Claim C8: a configuration that passes the check starts, and the start waits for the right threads. If
  libraries load, threads can be made and no count is negative, and there are web threads but no burden
  threads, then \<^verbatim>\<open>Initialize\<close> returns 0; every kind of thread that is configured has a group of just that
  many threads, every other kind has none; and \<^verbatim>\<open>Activate\<close> returns, after exactly as many threads have
  reported as the check counted. The threads it does not wait for are those of servers that have threads but no
  address: without such servers it has waited for all.
\<close>

theorem app_starts:
  assumes "check_conf conf = Some n" "counts_ok conf" "env_ok e"
    and "0 < cf_threads conf THREAD_TYPE_WEB_TCP" "cf_threads conf THREAD_TYPE_BURDEN = 0"
  shows "\<exists>a k. app_initialize e conf = Inr (RC_OK, a) \<and>
    (\<forall>ty. map_option (\<lambda>g. int (length g)) (af_groups a ty) = (if wants_group conf ty then Some (group_size conf ty) else None)) \<and>
    app_activate e a = Inr (RC_OK, Some (n, k)) \<and>
    int k = sum_list (map (\<lambda>ty. if cf_addr conf ty = [] then cf_threads conf ty else 0)
        [THREAD_TYPE_TCP, THREAD_TYPE_PROTO_TCP, THREAD_TYPE_WEB_TCP])"
proof -
  let ?c = "created e conf n"
  have "\<not> some_wild conf" using assms(4,5) by (simp add: some_wild_def)
  with set_threads_relationship_cases[OF created_settled, where tys = all_types and e = e] wild_iff[OF assms(2)] obtain a where
    a: "set_threads_relationship e all_types ?c = Inr a" "same_groups ?c a" by (metis (full_types))
  have init: "app_initialize e conf = Inr (RC_OK, a)" using initialize_created[OF assms(1-3)] a(1) by simp
  have groups: "map_option (\<lambda>g. int (length g)) (af_groups a ty) = (if wants_group conf ty then Some (group_size conf ty) else None)" for ty
    using a(2) by (auto simp: same_groups_def wants_group_def group_size_def)
  let ?f = "\<lambda>ty. if wants_group conf ty then group_size conf ty else 0"
  let ?s = "sum_list (map (\<lambda>ty. if cf_addr conf ty = [] then cf_threads conf ty else 0)
        [THREAD_TYPE_TCP, THREAD_TYPE_PROTO_TCP, THREAD_TYPE_WEB_TCP])"
  have t: "threads_of a = (\<lambda>ty. nat (?f ty))"
    using a(2) threads_of_created[of e conf n] by (auto simp: same_groups_def threads_of_def fun_eq_iff)
  have total: "int (sum_list (map (threads_of a) all_types)) = n + ?s"
    unfolding t sum_nat[of ?f, OF size_nonneg[OF assms(2)]] using check_conf_sum(1)[OF assms(1,2)] by simp
  have "0 \<le> ?s" using assms(2) by (simp add: counts_ok_def)
  with total check_conf_sum(3)[OF assms(1,2)] a(2)
  have "app_activate e a = Inr (RC_OK, Some (n, nat ?s))"
    using activate_ok[OF assms(3), of a] same_groups_facts(1)[OF a(2)] created_settled[of e conf n]
    by (auto simp: wait_loop_eq same_groups_def)
  then show ?thesis using init groups \<open>0 \<le> ?s\<close> by (intro exI[of _ a] exI[of _ "nat ?s"]) simp
qed

definition demo_conf :: "int \<Rightarrow> int \<Rightarrow> app_conf" where
  "demo_conf burden web =
     \<lparr>cf_global_so = ''g.so'',
      cf_threads = (\<lambda>_. 0)(THREAD_TYPE_WORK := 2, THREAD_TYPE_PROTO_TCP := 3, THREAD_TYPE_BURDEN := burden, THREAD_TYPE_WEB_TCP := web),
      cf_addr = (\<lambda>_. [])(THREAD_TYPE_PROTO_TCP := ''0.0.0.0''),
      cf_logics = (\<lambda>_. 1)\<rparr>"

definition demo_app_env :: app_env where
  "demo_app_env = \<lparr>ae_load_ok = (\<lambda>_. True), ae_init_ok = (\<lambda>_. True), ae_thread_ok = (\<lambda>_ _. True),
     ae_activate_ok = (\<lambda>_. True), ae_start_ok = (\<lambda>_. True), ae_pipe_cap = 8,
     ae_rand = (\<lambda>_ _ _. 0), ae_sched = (\<lambda>_ _. demo_sched 1)\<rparr>"

lemma demo_conf_facts:
  "check_conf (demo_conf 0 4) = Some 6" "check_conf (demo_conf 1 0) = Some 7"
  "counts_ok (demo_conf 0 4)" "counts_ok (demo_conf 1 0)" "env_ok demo_app_env"
  by (simp_all add: check_conf_def check_io_def check_work_def demo_conf_def counts_ok_def env_ok_def demo_app_env_def)

theorem app_starts_witness:
  "\<exists>a. app_initialize demo_app_env (demo_conf 0 4) = Inr (RC_OK, a) \<and> app_activate demo_app_env a = Inr (RC_OK, Some (6, 4))"
proof -
  have "0 < cf_threads (demo_conf 0 4) THREAD_TYPE_WEB_TCP" "cf_threads (demo_conf 0 4) THREAD_TYPE_BURDEN = 0"
    by (simp_all add: demo_conf_def)
  from app_starts[OF demo_conf_facts(1,3,5) this] obtain a k where r:
    "app_initialize demo_app_env (demo_conf 0 4) = Inr (RC_OK, a)" "app_activate demo_app_env a = Inr (RC_OK, Some (6, k))"
    "int k = sum_list (map (\<lambda>ty. if cf_addr (demo_conf 0 4) ty = [] then cf_threads (demo_conf 0 4) ty else 0)
        [THREAD_TYPE_TCP, THREAD_TYPE_PROTO_TCP, THREAD_TYPE_WEB_TCP])" by blast
  have "k = 4" using r(3) by (simp add: demo_conf_def)
  with r show ?thesis by blast
qed

text \<open>
  Claim C30: with burden threads, and without web threads as soon as there are work threads or a global thread, the
  start reads a pointer that was never set. \<^verbatim>\<open>RelatedThreadGroups\<close> leaves its pointer to the web threads as it finds it; it is set only for the
  global and the work threads and only if there are web threads; and the scheduler of every global, work and
  burden thread asks that group for its threads.
\<close>

theorem app_start_reads_unset:
  assumes "check_conf conf = Some n" "counts_ok conf" "env_ok e"
    and "0 < cf_threads conf THREAD_TYPE_BURDEN \<or>
      (cf_threads conf THREAD_TYPE_WEB_TCP = 0 \<and> (0 < cf_threads conf THREAD_TYPE_WORK \<or> cf_global_so conf \<noteq> []))"
  shows "app_initialize e conf = Inl Wild_Pointer"
  using initialize_created[OF assms(1-3)] set_threads_relationship_cases[OF created_settled, where tys = all_types and e = e]
    wild_iff[OF assms(2)] assms(4) by (simp add: some_wild_def)

theorem app_start_reads_unset_witness:
  "app_initialize demo_app_env (demo_conf 1 0) = Inl Wild_Pointer"
  by (rule app_start_reads_unset[OF demo_conf_facts(2,4,5)]) (simp add: demo_conf_def)

subsection \<open>The way out\<close>

lemma app_can_exit_ok:
  assumes "settled a"
  shows "app_can_exit can a tys r =
    Inr (r \<and> list_all (\<lambda>ty. af_loaded a ty \<longrightarrow> group_can_exit (can ty) (the (af_groups a ty))) tys)"
  using assms by (induction tys arbitrary: r) (force simp: settled_def split: option.split)+

lemma app_notify_exit_ok:
  assumes "settled a"
  shows "app_notify_exit intr tys a = Inr b \<Longrightarrow> distinct tys \<Longrightarrow>
    af_groups b = (\<lambda>ty. if ty \<in> set tys \<and> af_loaded a ty then map_option (group_notify_exit (intr ty)) (af_groups a ty) else af_groups a ty)"
    and "\<exists>b. app_notify_exit intr tys a = Inr b"
  using assms
proof (induction tys arbitrary: a)
  case (Cons ty tys)
  {
    case 1
    show ?case
    proof (cases "af_loaded a ty")
      case True
      then obtain g where g: "af_groups a ty = Some g" "g \<noteq> []" using 1 by (auto simp: settled_def)
      let ?a = "a\<lparr>af_groups := (af_groups a)(ty \<mapsto> group_notify_exit (intr ty) g)\<rparr>"
      have "settled ?a" using 1 g by (auto simp: settled_def group_notify_exit_def enumerate_eq_zip)
      from Cons.IH(1)[OF _ _ this] 1 True g show ?thesis by (auto simp: fun_eq_iff)
    next
      case False
      with Cons.IH(1)[of a] 1 show ?thesis by (auto simp: fun_eq_iff)
    qed
  next
    case 2
    show ?case
    proof (cases "af_loaded a ty")
      case True
      then obtain g where g: "af_groups a ty = Some g" "g \<noteq> []" using 2 by (auto simp: settled_def)
      let ?a = "a\<lparr>af_groups := (af_groups a)(ty \<mapsto> group_notify_exit (intr ty) g)\<rparr>"
      have "settled ?a" using 2 g by (auto simp: settled_def group_notify_exit_def enumerate_eq_zip)
      from Cons.IH(2)[OF this] True g show ?thesis by simp
    next
      case False
      with Cons.IH(2)[of a] 2 show ?thesis by simp
    qed
  }
qed auto

text \<open>
  Claim C36: the exit check ends the main loop exactly when every thread of every loaded group can exit. Then
  every one of these threads has been sent the exit byte; otherwise nothing has changed and the check comes again.
\<close>

theorem exit_check_correct:
  assumes "settled a"
  shows "on_exit_check can intr (Some a) \<noteq> Inl f \<and>
    (if \<forall>ty. af_loaded a ty \<longrightarrow> (\<forall>i < length (the (af_groups a ty)). can ty i)
     then \<exists>b. on_exit_check can intr (Some a) = Inr (True, Some b) \<and>
       (\<forall>ty g. af_loaded a ty \<and> af_groups a ty = Some g \<longrightarrow>
          (\<exists>g'. af_groups b ty = Some g' \<and> length g' = length g \<and>
             (\<forall>i < length g. mset (wakeups (g' ! i)) = add_mset CHR ''e'' (mset (wakeups (g ! i))))))
     else on_exit_check can intr (Some a) = Inr (False, Some a))"
proof -
  have can: "app_can_exit can a all_types True = Inr (\<forall>ty. af_loaded a ty \<longrightarrow> (\<forall>i < length (the (af_groups a ty)). can ty i))"
    by (auto simp: app_can_exit_ok[OF assms] group_can_exit_def list_all_iff)
  obtain b where b: "app_notify_exit intr all_types a = Inr b" using app_notify_exit_ok(2)[OF assms] by blast
  have d: "distinct all_types" by (simp add: all_types_def)
  have g: "af_groups b ty = Some (group_notify_exit (intr ty) g)" if "af_loaded a ty" "af_groups a ty = Some g" for ty g
    using app_notify_exit_ok(1)[OF assms b d] that by simp
  have e: "length (group_notify_exit (intr ty) g) = length g \<and>
      (\<forall>i < length g. mset (wakeups (group_notify_exit (intr ty) g ! i)) = add_mset CHR ''e'' (mset (wakeups (g ! i))))" for ty g
    by (simp add: group_notify_exit_def notify_exit_def notify_wakeups nth_enumerate_eq)
  show ?thesis
  proof (cases "\<forall>ty. af_loaded a ty \<longrightarrow> (\<forall>i < length (the (af_groups a ty)). can ty i)")
    case True
    with can b have r: "on_exit_check can intr (Some a) = Inr (True, Some b)" by (simp add: on_exit_check_def)
    show ?thesis unfolding if_P[OF True] r using g e by fastforce
  next
    case False
    with can have "on_exit_check can intr (Some a) = Inr (False, Some a)" by (auto simp: on_exit_check_def)
    with False show ?thesis by simp
  qed
qed

theorem exit_check_correct_witness:
  "\<exists>b. on_exit_check (\<lambda>_ _. True) (\<lambda>_ _. False) (Some (created demo_app_env (demo_conf 0 4) 6)) = Inr (True, Some b)"
  using exit_check_correct[OF created_settled[of demo_app_env "demo_conf 0 4" 6], of "\<lambda>_ _. True" "\<lambda>_ _. False" Null_Group] by auto

end
