(* ===== verification/Str_Util.thy ===== *)
theory Str_Util
  imports CC_Prelude "HOL-Library.Sublist" "HOL-Library.Signed_Division"
begin

text \<open>
  The string and number helpers of \<^verbatim>\<open>base/src/str_util.cpp\<close> and \<^verbatim>\<open>base/inc/num_util.h\<close>: the
  wildcard match \<open>MatchWithAsteriskW\<close> against its documented meaning (\<open>glob\<close>), replacement
  of a substring against the leftmost replacement (\<open>replace_all\<close>), trimming, reversing, prefix and suffix
  tests, bounded copies, and rounded division. A string with a length is its list of bytes; a C string
  is the list of the bytes before its terminator. \<^verbatim>\<open>size_t\<close> arithmetic is modulo \<open>2 ^ 64\<close>.
\<close>

section \<open>Definitions\<close>

datatype str_fault = Out_Of_Bounds | Out_Of_Range | Div_By_Zero

abbreviation (input) ch_any :: u8 where "ch_any \<equiv> 63"
abbreviation (input) ch_star :: u8 where "ch_star \<equiv> 42"

text \<open>A number as a \<^verbatim>\<open>size_t\<close>, and as an \<^verbatim>\<open>int\<close>.\<close>

definition size_t :: "int \<Rightarrow> nat" where
  "size_t x = nat (x mod 2 ^ 64)"

definition c_int :: "nat \<Rightarrow> int" where
  "c_int n = signed_take_bit 31 (int n)"

lemma size_t_id: "0 \<le> x \<Longrightarrow> x < 2 ^ 64 \<Longrightarrow> size_t x = nat x"
  by (simp add: size_t_def)

lemma size_t_neg: "x < 0 \<Longrightarrow> - (2 ^ 64) \<le> x \<Longrightarrow> size_t x = nat (2 ^ 64 + x)"
  using mod_pos_pos_trivial [of "2 ^ 64 + x" "2 ^ 64"] by (simp add: size_t_def)

lemma c_int_id: "n < 2 ^ 31 \<Longrightarrow> c_int n = int n"
  unfolding c_int_def by (rule signed_take_bit_int_eq_self) simp_all

subsection \<open>The wildcard match\<close>

text \<open>The loop behind the comparison: only asterisks may be left of the pattern.\<close>

fun rest_stars :: "bytes \<Rightarrow> int" where
  "rest_stars [] = RC_OK"
| "rest_stars (c # cs) = (if c \<noteq> ch_star then RC_ERR else rest_stars cs)"

definition wild_end :: "bytes \<Rightarrow> bytes \<Rightarrow> nat \<Rightarrow> nat \<Rightarrow> str_fault + int" where
  "wild_end str pattern p1 p2 =
     (if p2 = length pattern
      then if p1 = length str then Inr RC_OK
           else if p2 = 0 then Inl Out_Of_Bounds
           else if pattern ! (p2 - 1) = ch_star then Inr RC_OK
           else Inr (rest_stars (drop p2 pattern))
      else Inr (rest_stars (drop p2 pattern)))"

partial_function (option) wild_loop :: "bytes \<Rightarrow> bytes \<Rightarrow> nat \<Rightarrow> nat \<Rightarrow> int \<Rightarrow> (str_fault + int) option" where
  "wild_loop str pattern p1 p2 mark =
     (if p1 < length str \<and> p2 < length pattern
      then if pattern ! p2 = ch_any then wild_loop str pattern (p1 + 1) (p2 + 1) mark
           else if pattern ! p2 = ch_star then wild_loop str pattern p1 (p2 + 1) (c_int (p2 + 1))
           else if str ! p1 \<noteq> pattern ! p2
           then if p1 = 0 \<and> p2 = 0 then Some (Inr RC_ERR)
                else wild_loop str pattern (size_t (int p1 - (int p2 - mark - 1))) (size_t mark) mark
           else wild_loop str pattern (p1 + 1) (p2 + 1) mark
      else Some (wild_end str pattern p1 p2))"

definition MatchWithAsteriskW :: "bytes option \<Rightarrow> bytes option \<Rightarrow> (str_fault + int) option" where
  "MatchWithAsteriskW str pattern =
     (case (str, pattern) of
        (Some s, Some p) \<Rightarrow> wild_loop s p 0 0 0
      | _ \<Rightarrow> Some (Inr RC_ERR))"

text \<open>The documented meaning: a question mark is one character, an asterisk any number of them.\<close>

fun glob :: "bytes \<Rightarrow> bytes \<Rightarrow> bool" where
  "glob [] s = (s = [])"
| "glob (p # ps) s =
     (if p = ch_star then glob ps s \<or> (case s of [] \<Rightarrow> False | c # t \<Rightarrow> glob (p # ps) t)
      else case s of [] \<Rightarrow> False | c # t \<Rightarrow> (p = ch_any \<or> p = c) \<and> glob ps t)"

subsection \<open>Formatted output, copies and comparisons\<close>

text \<open>The bytes before the first terminator.\<close>

definition c_str :: "bytes \<Rightarrow> bytes" where
  "c_str s = takeWhile (\<lambda>c. c \<noteq> 0) s"

text \<open>\<^verbatim>\<open>StrPrintf(buf, buf_size, "%s", s)\<close>: the result and what it stores from the start of the buffer.\<close>

definition StrPrintf_s :: "nat \<Rightarrow> bytes \<Rightarrow> int \<times> bytes" where
  "StrPrintf_s buf_size s =
     (if buf_size < 2 then (0, [])
      else let out = take (buf_size - 1) (c_str s); n = c_int (length (c_str s)) in
        if n < 0 then (RC_ERR, out @ [0])
        else if n \<ge> c_int buf_size then (c_int (buf_size - 1), out @ [0])
        else (n, out @ [0]))"

definition StrLen :: "bytes option \<Rightarrow> nat \<Rightarrow> int" where
  "StrLen str buf_size =
     (case str of None \<Rightarrow> 0 | Some s \<Rightarrow> if buf_size < 2 then 0 else c_int (length (take (buf_size - 1) (c_str s))))"

text \<open>\<^verbatim>\<open>strncpy\<close> fills up with zeros; the buffer has at least the given size.\<close>

definition StrCpy :: "bytes option \<Rightarrow> nat \<Rightarrow> bytes option \<Rightarrow> bytes option" where
  "StrCpy buf buf_size str =
     (case (buf, str) of
        (Some b, Some s) \<Rightarrow>
          if buf_size < 2 then None
          else let n = buf_size - 1; t = take n (c_str s)
               in Some (t @ replicate (n - length t) 0 @ [0] @ drop buf_size b)
      | _ \<Rightarrow> None)"

text \<open>\<^verbatim>\<open>strncat\<close> overwrites the terminator of the buffer's string and writes a new one.\<close>

definition StrCat :: "bytes option \<Rightarrow> nat \<Rightarrow> bytes option \<Rightarrow> bytes option" where
  "StrCat buf buf_size_left str =
     (case (buf, str) of
        (Some b, Some s) \<Rightarrow>
          if buf_size_left < 2 then None
          else let t = take (buf_size_left - 1) (c_str s); k = length (c_str b)
               in Some (c_str b @ t @ [0] @ drop (k + length t + 1) b)
      | _ \<Rightarrow> None)"

definition StrCaseEQ :: "bytes option \<Rightarrow> bytes option \<Rightarrow> nat \<Rightarrow> bool" where
  "StrCaseEQ str1 str2 min_buf_size =
     (case (str1, str2) of
        (Some a, Some b) \<Rightarrow>
          min_buf_size \<ge> 2 \<and> take min_buf_size (c_str a) = take min_buf_size (c_str b)
      | _ \<Rightarrow> False)"

text \<open>\<^verbatim>\<open>compare(pos, len, s)\<close> of \<^verbatim>\<open>std::string\<close> throws when \<open>pos\<close> is behind the end.\<close>

definition str_compare_eq :: "bytes \<Rightarrow> nat \<Rightarrow> nat \<Rightarrow> bytes \<Rightarrow> str_fault + bool" where
  "str_compare_eq str pos len s =
     (if pos > length str then Inl Out_Of_Range else Inr (take len (drop pos str) = s))"

definition StrEndWith :: "bytes \<Rightarrow> bytes \<Rightarrow> str_fault + bool" where
  "StrEndWith str tail = str_compare_eq str (size_t (int (length str) - int (length tail))) (length tail) tail"

definition StrBeginWith :: "bytes \<Rightarrow> bytes \<Rightarrow> str_fault + bool" where
  "StrBeginWith str head = str_compare_eq str 0 (length head) head"

subsection \<open>Trimming, replacing, reversing\<close>

definition find_last_not_of :: "bytes \<Rightarrow> bytes \<Rightarrow> nat option" where
  "find_last_not_of s delims = find (\<lambda>i. s ! i \<notin> set delims) (rev [0..<length s])"

definition find_first_not_of :: "bytes \<Rightarrow> bytes \<Rightarrow> nat option" where
  "find_first_not_of s delims = find (\<lambda>i. s ! i \<notin> set delims) [0..<length s]"

definition StrTrim :: "nat \<Rightarrow> bytes \<Rightarrow> nat \<Rightarrow> bytes \<Rightarrow> str_fault + (int \<times> bytes)" where
  "StrTrim buf_size str len delims =
     (if len > length str then Inl Out_Of_Bounds
      else let r = take len str;
               r1 = (case find_last_not_of r delims of Some pos \<Rightarrow> take (pos + 1) r | None \<Rightarrow> r);
               r2 = (case find_first_not_of r1 delims of Some pos \<Rightarrow> drop pos r1 | None \<Rightarrow> [])
           in Inr (StrPrintf_s buf_size r2))"

text \<open>\<^verbatim>\<open>find(search, pos)\<close>, and \<^verbatim>\<open>replace(pos, len, s)\<close> at a position that was found.\<close>

definition find_from :: "bytes \<Rightarrow> bytes \<Rightarrow> nat \<Rightarrow> nat option" where
  "find_from s search pos =
     find (\<lambda>i. take (length search) (drop i s) = search) [pos..<length s + 1 - length search]"

definition splice :: "bytes \<Rightarrow> nat \<Rightarrow> nat \<Rightarrow> bytes \<Rightarrow> bytes" where
  "splice s pos len t = take pos s @ t @ drop (pos + len) s"

text \<open>The body of the loop: the new string and the next position.\<close>

definition replace_step :: "bytes \<Rightarrow> bytes \<Rightarrow> bytes \<Rightarrow> nat \<Rightarrow> bytes \<times> nat option" where
  "replace_step search replace result pos =
     (let result' = splice result pos (length search) replace;
          pos' = size_t (int pos - int (length search) + int (length replace) + 1)
      in (result', find_from result' search pos'))"

partial_function (option) replace_loop :: "bytes \<Rightarrow> bytes \<Rightarrow> bytes \<times> nat option \<Rightarrow> bytes option" where
  "replace_loop search replace st =
     (if snd st = None then Some (fst st)
      else replace_loop search replace (replace_step search replace (fst st) (the (snd st))))"

definition StrReplace :: "nat \<Rightarrow> bytes \<Rightarrow> bytes \<Rightarrow> bytes \<Rightarrow> (int \<times> bytes) option" where
  "StrReplace buf_size str search replace =
     map_option (StrPrintf_s buf_size) (replace_loop search replace (str, find_from str search 0))"

text \<open>The reference: every occurrence, from the left, without looking at replaced text again.\<close>

function replace_all :: "bytes \<Rightarrow> bytes \<Rightarrow> bytes \<Rightarrow> bytes" where
  "replace_all search rep s =
     (if search = [] \<or> s = [] then s
      else if prefix search s then rep @ replace_all search rep (drop (length search) s)
      else hd s # replace_all search rep (tl s))"
  by pat_completeness auto
termination by (relation "measure (\<lambda>(_, _, s). length s)") (auto intro!: diff_less)

declare replace_all.simps [simp del]

text \<open>The swap loop; the two counters are \<^verbatim>\<open>int\<close>.\<close>

function reverse_loop :: "bytes \<Rightarrow> int \<Rightarrow> int \<Rightarrow> bytes" where
  "reverse_loop str i j =
     (if i < j
      then let c = str ! nat i in reverse_loop (str[nat i := str ! nat j, nat j := c]) (i + 1) (j - 1)
      else str)"
  by pat_completeness auto
termination by (relation "measure (\<lambda>(_, i, j). nat (j - i))") auto

declare reverse_loop.simps [simp del]

definition StrReverse :: "bytes \<Rightarrow> nat \<Rightarrow> str_fault + bytes" where
  "StrReverse str len =
     (if len > length str then Inl Out_Of_Bounds else Inr (reverse_loop str 0 (c_int len - 1)))"

subsection \<open>Rounded division\<close>

text \<open>
  \<^verbatim>\<open>Ceil\<close> and \<^verbatim>\<open>Floor\<close> on a signed type: C's division goes towards zero, and a division by zero has no result.
  The guarded increments \<^verbatim>\<open>INCREASE\<close> and \<^verbatim>\<open>DECREASE\<close> always take effect here, since a quotient with a
  remainder is not a limit of the type.
\<close>

definition Ceil :: "int \<Rightarrow> int \<Rightarrow> str_fault + int" where
  "Ceil dividend divisor =
     (if divisor = 0 then Inl Div_By_Zero
      else let v = dividend sdiv divisor in
        if dividend smod divisor = 0 then Inr v
        else let t = v + 1 in Inr (if v > 0 then t else v))"

definition Floor :: "int \<Rightarrow> int \<Rightarrow> str_fault + int" where
  "Floor dividend divisor =
     (if divisor = 0 then Inl Div_By_Zero
      else let v = dividend sdiv divisor in
        if dividend smod divisor = 0 then Inr v
        else let t = v - 1 in Inr (if v > 0 then v else t))"

section \<open>The wildcard match accepts what occurs\<close>

text \<open>A segment of the pattern, without asterisks, against as many characters.\<close>

abbreviation seg_match :: "bytes \<Rightarrow> bytes \<Rightarrow> bool" where
  "seg_match seg t \<equiv> list_all2 (\<lambda>p c. p = ch_any \<or> p = c) seg t"

text \<open>The pattern matches from the first character on, and from some character on.\<close>

definition pre :: "bytes \<Rightarrow> bytes \<Rightarrow> bool" where
  "pre q t = glob (q @ [ch_star]) t"

definition occ :: "bytes \<Rightarrow> bytes \<Rightarrow> bool" where
  "occ q t = glob (ch_star # q @ [ch_star]) t"

lemma glob_eqs:
  "glob (ch_star # q) [] = glob q []"
  "glob (ch_star # q) (c # t) \<longleftrightarrow> glob q (c # t) \<or> glob (ch_star # q) t"
  "p \<noteq> ch_star \<Longrightarrow> glob (p # q) [] = False"
  "p \<noteq> ch_star \<Longrightarrow> glob (p # q) (c # t) \<longleftrightarrow> (p = ch_any \<or> p = c) \<and> glob q t"
  by simp_all

lemma glob_induct [case_names Nil Star Star_Cons Char_Nil Char]:
  fixes P :: "bytes \<Rightarrow> bytes \<Rightarrow> bool"
  assumes "\<And>s. P [] s" "\<And>q. P q [] \<Longrightarrow> P (ch_star # q) []"
    and "\<And>q c t. P q (c # t) \<Longrightarrow> P (ch_star # q) t \<Longrightarrow> P (ch_star # q) (c # t)"
    and "\<And>p q. p \<noteq> ch_star \<Longrightarrow> P (p # q) []"
    and "\<And>p q c t. p \<noteq> ch_star \<Longrightarrow> P q t \<Longrightarrow> P (p # q) (c # t)"
  shows "P q s"
proof (induction q s rule: glob.induct)
  case (2 p q s)
  then show ?case using assms(2-) by (cases "p = ch_star"; cases s) auto
qed (rule assms(1))

declare glob.simps(2) [simp del]

lemma glob_star [simp]: "glob [ch_star] t"
  by (induction t) (simp_all add: glob_eqs)

lemma pre_Nil [simp]: "pre [] t"
  by (simp add: pre_def)

lemma occ_Nil_iff: "occ q [] \<longleftrightarrow> pre q []"
  by (simp add: occ_def pre_def glob_eqs)

lemma occ_Cons_iff: "occ q (c # t) \<longleftrightarrow> pre q (c # t) \<or> occ q t"
  by (simp add: occ_def pre_def glob_eqs)

lemma pre_star: "pre (ch_star # q) t = occ q t"
  by (simp add: occ_def pre_def)

lemma pre_occ: "pre q t \<Longrightarrow> occ q t"
  by (cases t) (simp_all add: occ_Nil_iff occ_Cons_iff)

lemma occ_tl: "occ q t \<Longrightarrow> occ q (c # t)"
  by (simp add: occ_Cons_iff)

lemma occ_drop: "occ q (drop n t) \<Longrightarrow> occ q t"
proof (induction n arbitrary: t)
  case (Suc n)
  then show ?case by (cases t) (auto simp: occ_Cons_iff)
qed simp

lemma occ_pre: "occ q t \<longleftrightarrow> (\<exists>i. pre q (drop i t))"
proof (induction t)
  case Nil
  then show ?case by (simp add: occ_Nil_iff)
next
  case (Cons c t)
  have "(\<exists>i. pre q (drop i (c # t))) \<longleftrightarrow> pre q (c # t) \<or> (\<exists>i. pre q (drop i t))"
    by (metis drop0 drop_Suc_Cons not0_implies_Suc)
  with Cons show ?case by (simp add: occ_Cons_iff)
qed

lemma pre_segment:
  "ch_star \<notin> set seg \<Longrightarrow>
   pre (seg @ q) t \<longleftrightarrow> length seg \<le> length t \<and> seg_match seg (take (length seg) t) \<and> pre q (drop (length seg) t)"
proof (induction seg arbitrary: t)
  case (Cons p seg)
  then show ?case by (cases t) (auto simp: pre_def glob_eqs)
qed simp

lemma occ_segment:
  assumes "ch_star \<notin> set seg" "length seg \<le> length t" "seg_match seg (take (length seg) t)"
  shows "occ (seg @ ch_star # q) t \<longleftrightarrow> occ q (drop (length seg) t)"
proof
  assume "occ (seg @ ch_star # q) t"
  then obtain i where "pre (seg @ ch_star # q) (drop i t)" by (auto simp: occ_pre)
  then have "occ q (drop (length seg) (drop i t))" using assms(1) by (simp add: pre_segment pre_star)
  then have "occ q (drop i (drop (length seg) t))" by (simp add: add.commute)
  then show "occ q (drop (length seg) t)" by (rule occ_drop)
next
  assume "occ q (drop (length seg) t)"
  then have "pre (seg @ ch_star # q) t" using assms by (simp add: pre_segment pre_star)
  then show "occ (seg @ ch_star # q) t" by (rule pre_occ)
qed

lemma occ_mismatch:
  assumes "ch_star \<notin> set seg" "p \<noteq> ch_star" "p \<noteq> ch_any" "length seg < length t" "t ! length seg \<noteq> p"
  shows "occ (seg @ p # q) t \<longleftrightarrow> occ (seg @ p # q) (drop 1 t)"
proof -
  have "\<not> pre (seg @ p # q) t"
  proof
    assume "pre (seg @ p # q) t"
    then have "pre (p # q) (drop (length seg) t)" using assms(1) by (simp add: pre_segment)
    with assms(2-) show False by (simp add: pre_def glob_eqs flip: Cons_nth_drop_Suc)
  qed
  with assms(4) show ?thesis by (cases t) (auto simp: occ_Cons_iff)
qed

lemma glob_length: "glob q t \<Longrightarrow> length (filter (\<lambda>p. p \<noteq> ch_star) q) \<le> length t"
  by (induction q t rule: glob_induct) (auto simp: glob_eqs)

lemma occ_length: "occ q t \<Longrightarrow> length (filter (\<lambda>p. p \<noteq> ch_star) q) \<le> length t"
  using glob_length [of "ch_star # q @ [ch_star]" t] by (simp add: occ_def)

lemma rest_stars_eq: "rest_stars cs = (if \<forall>c \<in> set cs. c = ch_star then 0 else - 1)"
  by (induction cs) auto

lemma pre_stars: "\<forall>c \<in> set q. c = ch_star \<Longrightarrow> pre q t"
proof (induction q)
  case (Cons c q)
  then show ?case using pre_occ [of q t] by (simp add: pre_star)
qed simp

lemma occ_end:
  assumes "ch_star \<notin> set seg" "seg_match seg t"
  shows "occ (seg @ r) t \<longleftrightarrow> (\<forall>c \<in> set r. c = ch_star)"
proof
  assume "occ (seg @ r) t"
  then have "length (filter (\<lambda>p. p \<noteq> ch_star) (seg @ r)) \<le> length t" by (rule occ_length)
  moreover have "filter (\<lambda>p. p \<noteq> ch_star) seg = seg" using assms(1) by (induction seg) auto
  ultimately have "length (filter (\<lambda>p. p \<noteq> ch_star) r) = 0"
    using list_all2_lengthD [OF assms(2)] by simp
  then show "\<forall>c \<in> set r. c = ch_star" by (simp add: filter_empty_conv)
next
  assume "\<forall>c \<in> set r. c = ch_star"
  moreover have "length seg = length t" using assms(2) by (rule list_all2_lengthD)
  ultimately have "pre (seg @ r) t" using assms by (simp add: pre_segment pre_stars)
  then show "occ (seg @ r) t" by (rule pre_occ)
qed

text \<open>The first character is compared without a way back.\<close>

definition first_ok :: "bytes \<Rightarrow> bytes \<Rightarrow> bool" where
  "first_ok p s \<longleftrightarrow> s = [] \<or> p ! 0 \<in> {ch_star, ch_any, s ! 0}"

lemma wild_end_correct:
  assumes "p \<noteq> []" "mark + k \<le> length p" "start + k \<le> length s" "mark + k = length p \<or> start + k = length s"
    and seg: "ch_star \<notin> set (take k (drop mark p))" "seg_match (take k (drop mark p)) (take k (drop start s))"
  shows "wild_end s p (start + k) (mark + k) = Inr (if occ (drop mark p) (drop start s) then 0 else - 1)"
proof (cases "mark + k = length p")
  case True
  then have k: "k = length (drop mark p)" by simp
  have "length (drop mark p) \<le> length (drop start s)" using assms(3) k by simp
  then have "pre (drop mark p) (drop start s)"
    using seg k pre_segment [of "drop mark p" "[]" "drop start s"] by simp
  with True assms(1) show ?thesis by (simp add: wild_end_def pre_occ)
next
  case False
  with assms(4) have s: "drop start s = take k (drop start s)" by simp
  have "drop mark p = take k (drop mark p) @ drop (mark + k) p"
    by (metis add.commute append_take_drop_id drop_drop)
  then have "occ (drop mark p) (drop start s) \<longleftrightarrow> (\<forall>c \<in> set (drop (mark + k) p). c = ch_star)"
    using occ_end [OF seg(1), of "drop start s" "drop (mark + k) p"] seg(2) s by simp
  with False show ?thesis by (simp add: wild_end_def rest_stars_eq)
qed

lemma seg_step:
  assumes "mark + k < length p" "start + k < length s"
    and "ch_star \<notin> set (take k (drop mark p))" "seg_match (take k (drop mark p)) (take k (drop start s))"
    and "p ! (mark + k) \<noteq> ch_star" "p ! (mark + k) = ch_any \<or> p ! (mark + k) = s ! (start + k)"
  shows "ch_star \<notin> set (take (Suc k) (drop mark p))"
    "seg_match (take (Suc k) (drop mark p)) (take (Suc k) (drop start s))"
  using assms by (auto simp: take_Suc_conv_app_nth list_all2_appendI)

lemma wild_loop_correct:
  assumes len: "length s < 2 ^ 31" "length p < 2 ^ 31" and p: "p \<noteq> []" and first: "first_ok p s"
  shows "mark + k \<le> length p \<Longrightarrow> start + k \<le> length s \<Longrightarrow> ch_star \<notin> set (take k (drop mark p)) \<Longrightarrow>
    seg_match (take k (drop mark p)) (take k (drop start s)) \<Longrightarrow>
    wild_loop s p (start + k) (mark + k) (int mark) =
      Some (Inr (if occ (drop mark p) (drop start s) then 0 else - 1))"
proof (induction "(length s - start, length p - (mark + k))" arbitrary: start mark k
    rule: wf_induct_rule [OF wf_lex_prod [OF wf_less wf_less]])
  case 1
  show ?case
  proof (cases "start + k < length s \<and> mark + k < length p")
    case False
    then have "mark + k = length p \<or> start + k = length s" using 1 by auto
    then have "wild_end s p (start + k) (mark + k) = Inr (if occ (drop mark p) (drop start s) then 0 else - 1)"
      using 1(2-) p by (intro wild_end_correct) auto
    then show ?thesis by (subst wild_loop.simps, subst if_not_P [OF False]) simp
  next
    case in_range: True
    let ?seg = "take k (drop mark p)" and ?c = "p ! (mark + k)" and ?q = "drop (Suc (mark + k)) p"
    have dp: "drop mark p = ?seg @ ?c # ?q"
      using in_range by (metis Cons_nth_drop_Suc add.commute append_take_drop_id drop_drop)
    have seg_len: "length ?seg = k" "k < length (drop start s)" using in_range by auto
    note IH = 1(1) and seg = 1(4,5)
    consider (eq) "?c \<noteq> ch_star" "?c = ch_any \<or> ?c = s ! (start + k)" | (star) "?c = ch_star"
      | (ne) "?c \<noteq> ch_star" "?c \<noteq> ch_any" "?c \<noteq> s ! (start + k)" by blast
    then show ?thesis
    proof cases
      case eq
      then have "wild_loop s p (start + k) (mark + k) (int mark) = wild_loop s p (start + Suc k) (mark + Suc k) (int mark)"
        using in_range by (subst wild_loop.simps) auto
      also have "\<dots> = Some (Inr (if occ (drop mark p) (drop start s) then 0 else - 1))"
        using in_range by (intro IH seg_step [OF _ _ seg eq]) auto
      finally show ?thesis .
    next
      case star
      then have "wild_loop s p (start + k) (mark + k) (int mark) =
          wild_loop s p (start + k + 0) (Suc (mark + k) + 0) (int (Suc (mark + k)))"
        using in_range len by (subst wild_loop.simps) (simp add: c_int_id)
      also have "\<dots> = Some (Inr (if occ ?q (drop (start + k) s) then 0 else - 1))"
        using in_range by (intro IH) auto
      also have "occ ?q (drop (start + k) s) = occ (drop mark p) (drop start s)"
        using occ_segment [OF seg(1), of "drop start s" ?q] seg(2) seg_len star dp
        by (simp add: add.commute)
      finally show ?thesis .
    next
      case ne
      have nz: "\<not> (start + k = 0 \<and> mark + k = 0)"
        using ne first in_range by (cases "mark = 0 \<and> start = 0 \<and> k = 0") (auto simp: first_ok_def)
      have "size_t (int (start + k) - (int (mark + k) - int mark - 1)) = start + 1"
        using in_range len by (simp add: size_t_id)
      moreover have "size_t (int mark) = mark" using in_range len by (simp add: size_t_id)
      ultimately have "wild_loop s p (start + k) (mark + k) (int mark) = wild_loop s p (Suc start + 0) (mark + 0) (int mark)"
        using in_range ne nz by (subst wild_loop.simps) auto
      also have "\<dots> = Some (Inr (if occ (drop mark p) (drop (Suc start) s) then 0 else - 1))"
        using in_range by (intro IH) auto
      also have "occ (drop mark p) (drop (Suc start) s) = occ (drop mark p) (drop start s)"
        using occ_mismatch [OF seg(1) ne(1,2), of "drop start s" ?q] seg_len ne(3) dp in_range
        by (simp add: add.commute)
      finally show ?thesis .
    qed
  qed
qed

lemma wild_first_fails: "s \<noteq> [] \<Longrightarrow> p \<noteq> [] \<Longrightarrow> \<not> first_ok p s \<Longrightarrow> wild_loop s p 0 0 0 = Some (Inr (- 1))"
  by (subst wild_loop.simps) (auto simp: first_ok_def)

lemma MatchWithAsteriskW_correct:
  assumes "length s < 2 ^ 31" "length p < 2 ^ 31" "p \<noteq> []"
  shows "MatchWithAsteriskW (Some s) (Some p) = Some (Inr (if first_ok p s \<and> occ p s then 0 else - 1))"
proof (cases "first_ok p s")
  case True
  with wild_loop_correct [OF assms True, of 0 0 0] show ?thesis by (simp add: MatchWithAsteriskW_def)
next
  case False
  then show ?thesis using wild_first_fails assms(3) by (auto simp: MatchWithAsteriskW_def first_ok_def)
qed

section \<open>Replacement\<close>

lemma prefix_take: "prefix xs ys \<longleftrightarrow> take (length xs) ys = xs"
  by (metis append_eq_conv_conj append_take_drop_id prefix_def)

lemma find_from_range:
  assumes "search \<noteq> []"
  shows "prefix search (drop i s) \<longleftrightarrow> i < length s + 1 - length search \<and> take (length search) (drop i s) = search"
proof -
  have "prefix search (drop i s) \<Longrightarrow> i < length s + 1 - length search"
    using assms prefix_length_le [of search "drop i s"] by (cases search) auto
  then show ?thesis by (auto simp: prefix_take)
qed

lemma find_upt_None: "find P [a..<b] = None \<longleftrightarrow> (\<forall>i. a \<le> i \<and> i < b \<longrightarrow> \<not> P i)"
  by (auto simp: find_None_iff)

lemma find_upt_Some: "find P [a..<b] = Some i \<longleftrightarrow> a \<le> i \<and> i < b \<and> P i \<and> (\<forall>j. a \<le> j \<and> j < i \<longrightarrow> \<not> P j)"
proof (induction "b - a" arbitrary: a)
  case (Suc k)
  then have "[a..<b] = a # [Suc a..<b]" by (simp add: upt_conv_Cons)
  then have find: "find P [a..<b] = (if P a then Some a else find P [Suc a..<b])" by simp
  have IH: "find P [Suc a..<b] = Some i \<longleftrightarrow> Suc a \<le> i \<and> i < b \<and> P i \<and> (\<forall>j. Suc a \<le> j \<and> j < i \<longrightarrow> \<not> P j)"
    using Suc by simp
  have "a < b" using Suc(2) by simp
  show ?case
  proof (cases "P a")
    case True
    then have "a \<le> i \<Longrightarrow> \<forall>j. a \<le> j \<and> j < i \<longrightarrow> \<not> P j \<Longrightarrow> i = a"
      using le_neq_implies_less by blast
    with True find \<open>a < b\<close> show ?thesis by auto
  next
    case False
    then have shift: "a \<le> j \<and> P j \<longleftrightarrow> Suc a \<le> j \<and> P j" for j
      by (cases "j = a") auto
    then have "(\<forall>j. a \<le> j \<and> j < i \<longrightarrow> \<not> P j) \<longleftrightarrow> (\<forall>j. Suc a \<le> j \<and> j < i \<longrightarrow> \<not> P j)"
      by blast
    moreover note shift [of i]
    ultimately show ?thesis using False find IH by (simp only: if_False) blast
  qed
qed auto

lemma find_from_None:
  "search \<noteq> [] \<Longrightarrow> find_from s search pos = None \<longleftrightarrow> (\<forall>i \<ge> pos. \<not> prefix search (drop i s))"
  unfolding find_from_def find_upt_None using find_from_range by auto

lemma find_from_Some:
  "search \<noteq> [] \<Longrightarrow> find_from s search pos = Some i \<longleftrightarrow>
     pos \<le> i \<and> prefix search (drop i s) \<and> (\<forall>j. pos \<le> j \<and> j < i \<longrightarrow> \<not> prefix search (drop j s))"
  unfolding find_from_def find_upt_Some using find_from_range [of search] by auto

lemma replace_all_Nil [simp]: "replace_all search rep [] = []"
  by (simp add: replace_all.simps)

lemma replace_all_hit: "search \<noteq> [] \<Longrightarrow> replace_all search rep (search @ t) = rep @ replace_all search rep t"
  by (subst replace_all.simps) simp

lemma replace_all_miss:
  "search \<noteq> [] \<Longrightarrow> \<not> prefix search (c # t) \<Longrightarrow> replace_all search rep (c # t) = c # replace_all search rep t"
  by (subst replace_all.simps) simp

lemma replace_all_first:
  assumes "search \<noteq> []" "prefix search (drop i s)" "\<And>j. j < i \<Longrightarrow> \<not> prefix search (drop j s)"
  shows "replace_all search rep s = take i s @ rep @ replace_all search rep (drop (i + length search) s)"
  using assms(2,3)
proof (induction i arbitrary: s)
  case 0
  then obtain t where "s = search @ t" by (auto simp: prefix_def)
  with assms(1) show ?case by (simp add: replace_all_hit)
next
  case (Suc i)
  then obtain c t where s: "s = c # t" using assms(1) by (cases s) auto
  have "\<not> prefix search (drop j t)" if "j < i" for j using Suc.prems(2) [of "Suc j"] that s by simp
  moreover have "\<not> prefix search (c # t)" using Suc.prems(2) [of 0] s by simp
  ultimately show ?case using Suc.IH [of t] Suc.prems(1) s assms(1) by (simp add: replace_all_miss)
qed

lemma replace_all_none:
  "search \<noteq> [] \<Longrightarrow> (\<And>j. \<not> prefix search (drop j s)) \<Longrightarrow> replace_all search rep s = s"
proof (induction s)
  case (Cons c t)
  have "\<not> prefix search (drop j t)" for j using Cons.prems(2) [of "Suc j"] by simp
  with Cons.IH Cons.prems(1) Cons.prems(2) [of 0] show ?case by (simp add: replace_all_miss)
qed simp

text \<open>No occurrence begins in that end of a replacement that the code looks at again.\<close>

definition no_overlap :: "bytes \<Rightarrow> bytes \<Rightarrow> bool" where
  "no_overlap search rep \<longleftrightarrow> length search \<le> length rep + 1 \<and>
     (\<forall>j t. length rep + 1 - length search \<le> j \<and> j < length rep \<longrightarrow> \<not> prefix search (drop j rep @ t))"

lemma replace_loop_correct:
  assumes s: "search \<noteq> []" and ov: "no_overlap search rep"
  shows "pos \<le> length a \<Longrightarrow> \<forall>j. pos \<le> j \<and> j < length a \<longrightarrow> \<not> prefix search (drop j (a @ b)) \<Longrightarrow>
    length a + length b * (length rep + 1) < 2 ^ 63 \<Longrightarrow>
    replace_loop search rep (a @ b, find_from (a @ b) search pos) = Some (a @ replace_all search rep b)"
proof (induction "length b" arbitrary: a b pos rule: less_induct)
  case less
  let ?n = "length search" and ?r = "length rep"
  show ?case
  proof (cases "find_from (a @ b) search pos")
    case None
    then have "\<not> prefix search (drop (length a + j) (a @ b))" for j
      using None find_from_None [OF s, of "a @ b" pos] less.prems(1) trans_le_add1 by blast
    then have "\<not> prefix search (drop j b)" for j by simp
    with None s show ?thesis by (subst replace_loop.simps) (simp add: replace_all_none)
  next
    case (Some k)
    note k = Some [unfolded find_from_Some [OF s]]
    from k less.prems(2) have "length a \<le> k" by (metis not_le)
    then obtain i where i: "k = length a + i" by (auto simp: le_iff_add)
    have hit: "prefix search (drop i b)" and miss: "\<And>j. j < i \<Longrightarrow> \<not> prefix search (drop j b)"
      using k less.prems(1) i by (auto dest: spec [of _ "length a + _"])
    let ?a = "a @ take i b @ rep" and ?b = "drop (i + ?n) b"
    have ilen: "i + ?n \<le> length b"
      using hit s prefix_length_le [OF hit] by (cases "i \<le> length b") auto
    have splice: "splice (a @ b) k ?n rep = ?a @ ?b" using i by (simp add: splice_def)
    have bound: "length ?a + length ?b * (?r + 1) < 2 ^ 63"
    proof -
      obtain d where d: "length b = i + ?n + d" using ilen by (auto simp: le_iff_add)
      have "i + ?r + 1 \<le> (i + ?n) * (?r + 1)"
        using s by (cases search) (auto simp: algebra_simps)
      with d less.prems(3) show ?thesis by (simp add: algebra_simps)
    qed
    have n: "?n \<le> ?r + 1" using ov by (simp add: no_overlap_def)
    have pos': "size_t (int k - int ?n + int ?r + 1) = length a + i + ?r + 1 - ?n" (is "_ = ?pos")
      using n bound ilen i by (subst size_t_id) (auto simp: nat_diff_distrib' nat_add_distrib)
    have "replace_loop search rep (a @ b, Some k) = replace_loop search rep (?a @ ?b, find_from (?a @ ?b) search ?pos)"
      by (subst replace_loop.simps) (simp add: replace_step_def splice pos' Let_def del: append_assoc)
    also have "\<dots> = Some (?a @ replace_all search rep ?b)"
    proof (rule less.hyps [OF _ _ _ bound])
      show "length ?b < length b" using ilen s by (cases search) auto
      show "?pos \<le> length ?a" using s ilen by (cases search) auto
      show "\<forall>j. ?pos \<le> j \<and> j < length ?a \<longrightarrow> \<not> prefix search (drop j (?a @ ?b))"
      proof (intro allI impI)
        fix j assume j: "?pos \<le> j \<and> j < length ?a"
        define m where "m = j - (length a + i)"
        have "length a + i \<le> j" using j n by linarith
        then have "drop j (?a @ ?b) = drop m rep @ ?b" "?r + 1 - ?n \<le> m" "m < ?r"
          using j ilen by (auto simp: m_def)
        with ov show "\<not> prefix search (drop j (?a @ ?b))" by (simp add: no_overlap_def)
      qed
    qed
    also have "\<dots> = Some (a @ replace_all search rep b)"
      using replace_all_first [OF s hit miss] by simp
    finally show ?thesis using Some by simp
  qed
qed

lemma no_overlap_single: "no_overlap [c] rep"
  unfolding no_overlap_def by auto

lemma no_overlap_disjoint:
  "search \<noteq> [] \<Longrightarrow> length search \<le> length rep + 1 \<Longrightarrow> set search \<inter> set rep = {} \<Longrightarrow> no_overlap search rep"
  by (cases search) (auto simp: no_overlap_def simp flip: Cons_nth_drop_Suc)

section \<open>Trimming, reversing, comparing\<close>

lemma find_first_drop:
  "(case find_first_not_of s ds of Some pos \<Rightarrow> drop pos s | None \<Rightarrow> []) = dropWhile (\<lambda>c. c \<in> set ds) s"
proof (cases "find_first_not_of s ds")
  case None
  then have "\<forall>c \<in> set s. c \<in> set ds"
    by (auto simp: find_first_not_of_def find_upt_None in_set_conv_nth)
  then have "dropWhile (\<lambda>c. c \<in> set ds) s = []" by simp
  with None show ?thesis by (simp only: option.case)
next
  case (Some i)
  then have i: "i < length s" "s ! i \<notin> set ds" "\<forall>j < i. s ! j \<in> set ds"
    by (auto simp: find_first_not_of_def find_upt_Some)
  then have "\<forall>c \<in> set (take i s). c \<in> set ds" by (auto simp: in_set_conv_nth)
  then have "dropWhile (\<lambda>c. c \<in> set ds) (take i s @ drop i s) = dropWhile (\<lambda>c. c \<in> set ds) (drop i s)"
    by (intro dropWhile_append2) auto
  also have "\<dots> = drop i s" using i by (simp flip: Cons_nth_drop_Suc)
  finally show ?thesis using Some by simp
qed

lemma find_rev_upt_Some:
  "find P (rev [0..<n]) = Some i \<longleftrightarrow> i < n \<and> P i \<and> (\<forall>j. i < j \<and> j < n \<longrightarrow> \<not> P j)"
  by (induction n) (auto simp: less_Suc_eq)

lemma find_last_take:
  assumes "\<exists>c \<in> set s. c \<notin> set ds"
  shows "(case find_last_not_of s ds of Some pos \<Rightarrow> take (pos + 1) s | None \<Rightarrow> s) =
    rev (dropWhile (\<lambda>c. c \<in> set ds) (rev s))"
proof (cases "find_last_not_of s ds")
  case None
  then have "\<forall>i < length s. s ! i \<in> set ds" by (simp add: find_last_not_of_def find_None_iff)
  with assms show ?thesis by (metis in_set_conv_nth)
next
  case (Some i)
  then have i: "i < length s" "s ! i \<notin> set ds" "\<And>j. i < j \<Longrightarrow> j < length s \<Longrightarrow> s ! j \<in> set ds"
    by (auto simp: find_last_not_of_def find_rev_upt_Some)
  have "\<forall>c \<in> set (drop (Suc i) s). c \<in> set ds" using i(3) by (auto simp: in_set_conv_nth)
  moreover have "rev s = rev (drop (Suc i) s) @ s ! i # rev (take i s)"
    by (metis append_Cons append_Nil append_assoc i(1) id_take_nth_drop rev.simps(2) rev_append)
  moreover have "dropWhile (\<lambda>c. c \<in> set ds) (rev (drop (Suc i) s) @ s ! i # rev (take i s)) =
      dropWhile (\<lambda>c. c \<in> set ds) (s ! i # rev (take i s))"
    by (rule dropWhile_append2) (use \<open>\<forall>c \<in> set (drop (Suc i) s). c \<in> set ds\<close> in auto)
  ultimately have "dropWhile (\<lambda>c. c \<in> set ds) (rev s) = s ! i # rev (take i s)"
    using i(2) by simp
  with Some i(1) show ?thesis by (simp add: take_Suc_conv_app_nth)
qed

lemma trim_all: "\<forall>c \<in> set s. c \<in> set ds \<Longrightarrow> find_last_not_of s ds = None"
  by (auto simp: find_last_not_of_def find_None_iff)

lemma reverse_loop_correct:
  "reverse_loop (a @ m @ b) (int (length a)) (int (length a) + int (length m) - 1) = a @ rev m @ b"
proof (induction m arbitrary: a b rule: length_induct)
  case (1 m)
  show ?case
  proof (cases "length m < 2")
    case True
    then have "rev m = m" by (cases m) auto
    with True show ?thesis by (subst reverse_loop.simps) auto
  next
    case False
    then obtain x m' y where m: "m = x # m' @ [y]"
      by (cases m; cases "tl m" rule: rev_cases) auto
    let ?k = "Suc (length a + length m')" and ?str = "a @ m @ b"
    have "?str[length a := ?str ! ?k, ?k := ?str ! length a] = (a @ [y]) @ m' @ x # b"
      using m by (simp add: nth_append list_update_append)
    moreover have "nat (int (length a) + int (length m) - 1) = ?k" using m by simp
    moreover have "int (length a) < int (length a) + int (length m) - 1" using m by simp
    moreover have "int (length a) + 1 = int (length (a @ [y]))"
      "int (length a) + int (length m) - 1 - 1 = int (length (a @ [y])) + int (length m') - 1" using m by simp_all
    ultimately have "reverse_loop ?str (int (length a)) (int (length a) + int (length m) - 1) =
        reverse_loop ((a @ [y]) @ m' @ x # b) (int (length (a @ [y]))) (int (length (a @ [y])) + int (length m') - 1)"
      by (subst reverse_loop.simps) (simp only: Let_def if_True nat_int)
    also have "\<dots> = (a @ [y]) @ rev m' @ x # b"
      using 1 [rule_format, of m' "a @ [y]" "x # b"] m by simp
    finally show ?thesis using m by simp
  qed
qed

lemma StrReverse_correct:
  assumes "len \<le> length str" "len < 2 ^ 31"
  shows "StrReverse str len = Inr (rev (take len str) @ drop len str)"
  using reverse_loop_correct [of "[]" "take len str" "drop len str"] assms
  by (simp add: StrReverse_def c_int_id)

lemma StrTrim_correct:
  assumes "len \<le> length str"
  shows "StrTrim buf_size str len ds =
    Inr (StrPrintf_s buf_size
      (dropWhile (\<lambda>c. c \<in> set ds) (rev (dropWhile (\<lambda>c. c \<in> set ds) (rev (take len str))))))"
proof (cases "\<exists>c \<in> set (take len str). c \<notin> set ds")
  case True
  then show ?thesis using assms
    by (simp add: StrTrim_def Let_def find_last_take [OF True, simplified] find_first_drop)
next
  case False
  then have all: "\<forall>c \<in> set (take len str). c \<in> set ds" by blast
  then have "dropWhile (\<lambda>c. c \<in> set ds) (take len str) = []" "dropWhile (\<lambda>c. c \<in> set ds) (rev (take len str)) = []"
    by simp_all
  then show ?thesis using assms
    by (simp only: StrTrim_def Let_def trim_all [OF all] option.case find_first_drop) simp
qed

lemma StrBeginWith_correct: "StrBeginWith str head = Inr (prefix head str)"
  by (simp add: StrBeginWith_def str_compare_eq_def prefix_take)

lemma StrEndWith_correct:
  assumes "length tail \<le> length str" "length str < 2 ^ 63"
  shows "StrEndWith str tail = Inr (suffix tail str)"
proof -
  have "size_t (int (length str) - int (length tail)) = length str - length tail"
    using assms by (subst size_t_id) auto
  moreover have "drop (length str - length tail) str = tail \<longleftrightarrow> suffix tail str"
    by (metis append_take_drop_id append_eq_conv_conj assms(1) diff_diff_cancel length_drop suffix_def suffix_take same_append_eq)
  ultimately show ?thesis using assms by (simp add: StrEndWith_def str_compare_eq_def)
qed

lemma StrEndWith_throws:
  assumes "length str < length tail" "length tail < 2 ^ 62"
  shows "StrEndWith str tail = Inl Out_Of_Range"
proof -
  have "size_t (int (length str) - int (length tail)) = nat (2 ^ 64 + (int (length str) - int (length tail)))"
    by (rule size_t_neg) (use assms in simp_all)
  then show ?thesis using assms by (simp add: StrEndWith_def str_compare_eq_def)
qed

section \<open>Rounded division\<close>

lemma sdiv_floor: "(a::int) sdiv b = (if 0 \<le> a * b then \<bar>a\<bar> div \<bar>b\<bar> else - (\<bar>a\<bar> div \<bar>b\<bar>))"
  by (auto simp: signed_divide_int_def sgn_mult abs_mult sgn_if mult_le_0_iff zero_le_mult_iff)

text \<open>Right everywhere but strictly between 0 and 1.\<close>

lemma Ceil_correct:
  assumes "0 < b"
  shows "Ceil a b = Inr (if 0 < a \<and> a < b then 0 else - (- a div b))"
proof (cases "0 \<le> a")
  case True
  then have v: "a sdiv b = a div b" using assms by (simp add: sdiv_floor)
  then have "a smod b = a mod b"
    using minus_sdiv_mult_eq_smod [of a b] by (simp add: minus_div_mult_eq_mod)
  moreover have "a mod b \<noteq> 0 \<Longrightarrow> - (- a div b) = a div b + 1"
    using assms by (simp add: zdiv_zminus1_eq_if)
  moreover have "a mod b = 0 \<Longrightarrow> - (- a div b) = a div b"
    using assms by (simp add: zdiv_zminus1_eq_if)
  moreover have "a div b > 0 \<longleftrightarrow> b \<le> a" using assms True by (simp add: pos_imp_zdiv_pos_iff)
  ultimately show ?thesis using assms True v
    by (auto simp: Ceil_def Let_def div_pos_pos_trivial mod_pos_pos_trivial)
next
  case False
  then have v: "a sdiv b = - (- a div b)"
    using assms by (simp add: sdiv_floor zero_le_mult_iff)
  moreover have "0 \<le> - a div b" using False assms by (simp add: pos_imp_zdiv_nonneg_iff)
  ultimately show ?thesis using assms False by (simp add: Ceil_def Let_def)
qed

lemma Floor_correct:
  assumes "0 < b"
  shows "Floor a b = Inr (if 0 < a \<and> a < b then - 1 else a div b)"
proof (cases "0 \<le> a")
  case True
  then have v: "a sdiv b = a div b" using assms by (simp add: sdiv_floor)
  then have "a smod b = a mod b"
    using minus_sdiv_mult_eq_smod [of a b] by (simp add: minus_div_mult_eq_mod)
  moreover have "a div b > 0 \<longleftrightarrow> b \<le> a" using assms True by (simp add: pos_imp_zdiv_pos_iff)
  ultimately show ?thesis using assms True v
    by (auto simp: Floor_def Let_def div_pos_pos_trivial mod_pos_pos_trivial)
next
  case False
  then have v: "a sdiv b = - (- a div b)"
    using assms by (simp add: sdiv_floor zero_le_mult_iff)
  have m: "a smod b = a + (- a div b) * b" using minus_sdiv_mult_eq_smod [of a b] v by simp
  have pos: "0 \<le> - a div b" using False assms by (simp add: pos_imp_zdiv_nonneg_iff)
  have r: "- a mod b = - a - (- a div b) * b" by (simp add: minus_div_mult_eq_mod)
  have "a smod b = 0 \<Longrightarrow> a div b = - (- a div b)"
    using m r assms zdiv_zminus1_eq_if [of b "- a"] by simp
  moreover have "a smod b \<noteq> 0 \<Longrightarrow> a div b = - (- a div b) - 1"
    using m r assms zdiv_zminus1_eq_if [of b "- a"] by simp
  ultimately show ?thesis using assms False v pos by (auto simp: Floor_def Let_def)
qed

section \<open>What the helpers promise\<close>

lemma glob_append_star: "glob p s \<Longrightarrow> glob (p @ [ch_star]) s"
  by (induction p s rule: glob_induct) (auto simp: glob_eqs)

lemma glob_occ: "glob p s \<Longrightarrow> occ p s"
  using glob_append_star pre_occ by (simp add: pre_def)

lemma glob_first_ok: "glob p s \<Longrightarrow> p \<noteq> [] \<Longrightarrow> first_ok p s"
  by (cases p; cases s) (auto simp: first_ok_def glob.simps split: if_splits)

text \<open>A pattern with an asterisk at both ends is not changed by more of them.\<close>

lemma glob_star_star: "glob (ch_star # ch_star # q) t = glob (ch_star # q) t"
  by (induction t) (auto simp: glob_eqs)

lemma glob_append_star_star: "glob (q @ [ch_star, ch_star]) t = glob (q @ [ch_star]) t"
proof (induction q t rule: glob.induct)
  case (1 s)
  show ?case using glob_star_star [of "[]" s] by simp
next
  case (2 p ps s)
  then show ?case by (simp add: glob.simps(2) split: list.split)
qed

text \<open>
  Claim C37: what the wildcard match accepts, exactly, for strings of less than \<open>2 ^ 31\<close> bytes. It returns for every pattern
  and string, and reads outside of its strings only for an empty pattern with a string that is not empty. Otherwise it
  accepts a string if and only if the pattern occurs somewhere in it, anchored at neither end, and the pattern starts
  with a wildcard or with the first character of the string (or the string is empty). This is more than what it documents: every string
  that matches as documented is accepted, and others can be as well (\<open>ab\<close> accepts \<open>aab\<close> and \<open>abc\<close>, below); for a pattern
  with one asterisk at its start and another at its end, it accepts exactly what it documents.
\<close>

theorem wildcard_match_correct:
  assumes "length s < 2 ^ 31" "length p < 2 ^ 31"
  shows "MatchWithAsteriskW (Some s) (Some p) =
      Some (if p = [] \<and> s \<noteq> [] then Inl Out_Of_Bounds
            else Inr (if first_ok p s \<and> glob (ch_star # p @ [ch_star]) s then 0 else - 1)) \<and>
    (glob p s \<longrightarrow> MatchWithAsteriskW (Some s) (Some p) = Some (Inr 0)) \<and>
    (\<forall>q. p = ch_star # q @ [ch_star] \<longrightarrow> MatchWithAsteriskW (Some s) (Some p) = Some (Inr (if glob p s then 0 else - 1)))"
proof (cases "p = []")
  case True
  then show ?thesis
    by (cases s) (simp_all add: MatchWithAsteriskW_def wild_loop.simps wild_end_def first_ok_def glob_eqs)
next
  case False
  note exact = MatchWithAsteriskW_correct [OF assms False]
  have "first_ok p s" "glob (ch_star # p @ [ch_star]) s = glob p s" if "p = ch_star # q @ [ch_star]" for q
    using that glob_star_star [of "q @ [ch_star, ch_star]" s] glob_append_star_star [of "ch_star # q" s]
    by (simp_all add: first_ok_def)
  with exact False glob_occ [of p s] glob_first_ok [of p s] show ?thesis by (auto simp: occ_def)
qed

text \<open>The pattern \<open>b*d\<close> and the string \<open>bacd\<close>, and with \<open>bacda\<close> behind.\<close>

theorem wildcard_match_correct_witness:
  "MatchWithAsteriskW (Some [98, 97, 99, 100]) (Some [98, 42, 100]) = Some (Inr 0)"
  using wildcard_match_correct [of "[98, 97, 99, 100]" "[98, 42, 100]"] by (simp add: glob_eqs first_ok_def)

text \<open>The pattern \<open>ab\<close> is found in \<open>aab\<close> and in \<open>abc\<close>; the empty pattern is read before its start.\<close>

lemma wildcard_not_anchored:
  "MatchWithAsteriskW (Some [97, 97, 98]) (Some [97, 98]) = Some (Inr 0) \<and>
   MatchWithAsteriskW (Some [97, 98, 99]) (Some [97, 98]) = Some (Inr 0) \<and>
   \<not> glob [97, 98] [97, 97, 98] \<and> \<not> glob [97, 98] [97, 98, 99]"
  by (simp add: MatchWithAsteriskW_correct first_ok_def occ_def glob_eqs)

lemma wildcard_empty_pattern:
  "s \<noteq> [] \<Longrightarrow> MatchWithAsteriskW (Some s) (Some []) = Some (Inl Out_Of_Bounds)"
  by (simp add: MatchWithAsteriskW_def wild_loop.simps wild_end_def)

text \<open>
  Claim C38: replacing a substring ends, and gives the leftmost replacement of every occurrence, cut to
  the buffer, when the substring is one character, or when it shares no character with the
  replacement and is at most one character longer.
\<close>

theorem replace_correct:
  assumes "search \<noteq> []" "length str * (length rep + 1) < 2 ^ 63"
    and "length search = 1 \<or> length search \<le> length rep + 1 \<and> set search \<inter> set rep = {}"
  shows "StrReplace buf_size str search rep = Some (StrPrintf_s buf_size (replace_all search rep str))"
proof -
  have "no_overlap search rep"
    using assms(1,3) no_overlap_disjoint no_overlap_single by (auto simp: length_Suc_conv)
  with replace_loop_correct [OF assms(1) this, of 0 "[]" str] assms(2) show ?thesis
    by (simp add: StrReplace_def)
qed

theorem replace_correct_witness:
  "StrReplace 16 [120, 97, 98, 121, 97, 98] [97, 98] [49] = Some (4, [120, 49, 121, 49, 0])"
  using replace_correct [of "[97, 98]" "[120, 97, 98, 121, 97, 98]" "[49]" 16]
  by (simp add: StrPrintf_s_def c_str_def c_int_id Let_def replace_all.simps)

text \<open>
  In other cases it does not: deleting \<open>aab\<close> from \<open>aabaab\<close> stops after the first one, and replacing \<open>ab\<close> by
  \<open>a\<close> in \<open>abb\<close> replaces twice.
\<close>

lemma replace_stops_short:
  "StrReplace 16 [97, 97, 98, 97, 97, 98] [97, 97, 98] [] = Some (3, [97, 97, 98, 0]) \<and>
   replace_all [97, 97, 98] [] [97, 97, 98, 97, 97, 98] = []"
  by (simp add: StrReplace_def replace_loop.simps replace_step_def find_from_def splice_def size_t_def upt_rec
      StrPrintf_s_def c_str_def c_int_id Let_def replace_all.simps)

lemma replace_rescans:
  "StrReplace 16 [97, 98, 98] [97, 98] [97] = Some (1, [97, 0]) \<and>
   replace_all [97, 98] [97] [97, 98, 98] = [97, 98]"
  by (simp add: StrReplace_def replace_loop.simps replace_step_def find_from_def splice_def size_t_def upt_rec
      StrPrintf_s_def c_str_def c_int_id Let_def replace_all.simps)

end
