(* ===== verification/Variant.thy ===== *)
theory Variant
  imports Str_Util
begin

text \<open>
  The tagged union of \<^verbatim>\<open>base/src/variant.cpp\<close>: a tag and a union of four numbers and an
  owned chunk of bytes. The union is the member written last, and a read of another member is an error,
  as are the use of a tag that was never set and the release of what is not a live block. The heap holds the
  blocks of all variants; a byte that was not written is \<open>None\<close>.
\<close>

section \<open>Definitions\<close>

datatype vtype = TYPE_I32 | TYPE_I64 | TYPE_F32 | TYPE_F64 | TYPE_STR | TYPE_BIN | TYPE_MAX

datatype vptr = P_Null | P_Empty_Str | P_Block nat

text \<open>Floating point numbers are their bit patterns: the code only copies and prints them.\<close>

datatype vnum = N_i "32 word" | N_l "64 word" | N_f "32 word" | N_d "64 word"

datatype vunion = U_num vnum | U_chunk vptr int

record variant =
  v_type :: "vtype option"
  v_u :: vunion

datatype v_fault = Unset_Type | Wrong_Member | Bad_Free | Bad_Source | Bad_Alloc | No_Object

record vheap =
  blocks :: "nat \<rightharpoonup> u8 option list"
  next_block :: nat

text \<open>The members before any constructor body: the union is cleared, the tag is not set.\<close>

definition v_raw :: variant where
  "v_raw = \<lparr>v_type = None, v_u = U_chunk P_Null 0\<rparr>"

fun num_type :: "vnum \<Rightarrow> vtype" where
  "num_type (N_i _) = TYPE_I32"
| "num_type (N_l _) = TYPE_I64"
| "num_type (N_f _) = TYPE_F32"
| "num_type (N_d _) = TYPE_F64"

abbreviation is_chunk :: "vtype \<Rightarrow> bool" where
  "is_chunk t \<equiv> t = TYPE_STR \<or> t = TYPE_BIN"

text \<open>The four \<^verbatim>\<open>SetValue\<close> for numbers.\<close>

definition set_num :: "vnum \<Rightarrow> variant \<Rightarrow> variant" where
  "set_num x v = v\<lparr>v_type := Some (num_type x), v_u := U_num x\<rparr>"

text \<open>
  \<^verbatim>\<open>SetValue\<close> for chunks. The source is the readable memory at the pointer; \<^verbatim>\<open>new\<close> throws for a negative
  size and never returns null.
\<close>

definition set_chunk :: "vtype \<Rightarrow> bytes option \<Rightarrow> int \<Rightarrow> variant \<Rightarrow> vheap \<Rightarrow> v_fault + variant \<times> vheap" where
  "set_chunk t val len v h =
     (case val of
        None \<Rightarrow> Inr (v, h)
      | Some mem \<Rightarrow>
          if len < 0 then Inr (v, h)
          else if \<not> is_chunk t then Inr (v, h)
          else if len = 0 then Inr (v\<lparr>v_type := Some t, v_u := U_chunk P_Empty_Str 0\<rparr>, h)
          else if len + 1 \<ge> 2 ^ 31 then Inl Bad_Alloc
          else let n = nat len; b = next_block h;
                   cell = (if t = TYPE_STR
                           then if n \<le> length mem \<or> 0 \<in> set mem
                                then map_option (map Some) (StrCpy (Some (replicate (n + 1) 0)) (n + 1) (Some mem))
                                else None
                           else if n \<le> length mem then Some (map Some (take n mem) @ [None]) else None)
            in case cell of
                 None \<Rightarrow> Inl Bad_Source
               | Some bs \<Rightarrow> Inr (v\<lparr>v_type := Some t, v_u := U_chunk (P_Block b) len\<rparr>,
                                h\<lparr>blocks := (blocks h)(b \<mapsto> bs), next_block := b + 1\<rparr>))"

definition Release :: "variant \<Rightarrow> vheap \<Rightarrow> v_fault + variant \<times> vheap" where
  "Release v h =
     (case v_type v of
        None \<Rightarrow> Inl Unset_Type
      | Some t \<Rightarrow>
          if is_chunk t then
            (case v_u v of
               U_num _ \<Rightarrow> Inl Wrong_Member
             | U_chunk p len \<Rightarrow>
                 if p \<noteq> P_Null \<and> len > 0
                 then (case p of
                         P_Block b \<Rightarrow>
                           if blocks h b = None then Inl Bad_Free
                           else Inr (v\<lparr>v_u := U_chunk P_Null 0\<rparr>, h\<lparr>blocks := (blocks h)(b := None)\<rparr>)
                       | _ \<Rightarrow> Inl Bad_Free)
                 else Inr (v, h))
          else Inr (v, h))"

text \<open>The memory behind the data pointer of a chunk.\<close>

definition chunk_mem :: "vheap \<Rightarrow> vptr \<Rightarrow> bytes option" where
  "chunk_mem h p =
     (case p of
        P_Null \<Rightarrow> None
      | P_Empty_Str \<Rightarrow> Some [0]
      | P_Block b \<Rightarrow> map_option (\<lambda>bs. map the (takeWhile (\<lambda>x. x \<noteq> None) bs)) (blocks h b))"

text \<open>What copy constructor and copy assignment share.\<close>

definition copy_from :: "variant \<Rightarrow> variant \<Rightarrow> vheap \<Rightarrow> v_fault + variant \<times> vheap" where
  "copy_from src v h =
     (case v_type src of
        None \<Rightarrow> Inl Unset_Type
      | Some t \<Rightarrow>
          if is_chunk t
          then (case v_u src of
                  U_num _ \<Rightarrow> Inl Wrong_Member
                | U_chunk p len \<Rightarrow> set_chunk t (chunk_mem h p) len v h)
          else Inr (v\<lparr>v_type := v_type src, v_u := v_u src\<rparr>, h))"

definition v_default :: variant where
  "v_default = v_raw\<lparr>v_type := Some TYPE_MAX\<rparr>"

definition v_copy :: "variant \<Rightarrow> vheap \<Rightarrow> v_fault + variant \<times> vheap" where
  "v_copy src h = copy_from src v_raw h"

definition v_new_chunk :: "vtype \<Rightarrow> bytes option \<Rightarrow> int \<Rightarrow> vheap \<Rightarrow> v_fault + variant \<times> vheap" where
  "v_new_chunk t val len h = set_chunk t val len v_raw h"

definition v_assign :: "variant \<Rightarrow> variant \<Rightarrow> vheap \<Rightarrow> v_fault + variant \<times> vheap" where
  "v_assign src v h =
     (case Release v h of Inl f \<Rightarrow> Inl f | Inr (v1, h1) \<Rightarrow> copy_from src v1 h1)"

definition v_assign_num :: "vnum \<Rightarrow> variant \<Rightarrow> vheap \<Rightarrow> v_fault + variant \<times> vheap" where
  "v_assign_num x v h =
     (case Release v h of Inl f \<Rightarrow> Inl f | Inr (v1, h1) \<Rightarrow> Inr (set_num x v1, h1))"

definition v_assign_chunk :: "vtype \<Rightarrow> bytes option \<Rightarrow> int \<Rightarrow> variant \<Rightarrow> vheap \<Rightarrow> v_fault + variant \<times> vheap" where
  "v_assign_chunk t val len v h =
     (case Release v h of Inl f \<Rightarrow> Inl f | Inr (v1, h1) \<Rightarrow> set_chunk t val len v1 h1)"

definition SetType :: "vtype \<Rightarrow> variant \<Rightarrow> variant" where
  "SetType t v = v\<lparr>v_type := Some t\<rparr>"

text \<open>The four \<^verbatim>\<open>GetValue\<close> for numbers, told apart by the wanted type, and the one for chunks.\<close>

definition get_num :: "vtype \<Rightarrow> vnum \<Rightarrow> variant \<Rightarrow> v_fault + vnum" where
  "get_num t zero v =
     (case v_type v of
        None \<Rightarrow> Inl Unset_Type
      | Some t' \<Rightarrow>
          if t' \<noteq> t then Inr zero
          else (case v_u v of
                  U_num x \<Rightarrow> if num_type x = t then Inr x else Inl Wrong_Member
                | U_chunk _ _ \<Rightarrow> Inl Wrong_Member))"

definition get_chunk :: "variant \<Rightarrow> v_fault + vptr \<times> int" where
  "get_chunk v =
     (case v_type v of
        None \<Rightarrow> Inl Unset_Type
      | Some t \<Rightarrow>
          if \<not> is_chunk t then Inr (P_Empty_Str, 0)
          else (case v_u v of U_num _ \<Rightarrow> Inl Wrong_Member | U_chunk p len \<Rightarrow> Inr (p, len)))"

text \<open>
  \<^verbatim>\<open>ToString\<close> into a buffer of the given size; the printed form of a number is an argument. A negative length
  for \<^verbatim>\<open>memmove\<close> cannot come from \<open>set_chunk\<close>.
\<close>

definition v_to_string :: "(vnum \<Rightarrow> bytes) \<Rightarrow> nat \<Rightarrow> variant \<Rightarrow> vheap \<Rightarrow> bytes \<Rightarrow> v_fault + bytes" where
  "v_to_string fmt buf_size v h buf =
     (case v_type v of
        None \<Rightarrow> Inl Unset_Type
      | Some t \<Rightarrow>
          if is_chunk t then
            (case v_u v of
               U_num _ \<Rightarrow> Inl Wrong_Member
             | U_chunk p len \<Rightarrow>
                 (case chunk_mem h p of
                    None \<Rightarrow> if t = TYPE_BIN \<and> len > 0 then Inl Bad_Source else Inr buf
                  | Some mem \<Rightarrow>
                      if t = TYPE_STR
                      then Inr (case StrCpy (Some buf) buf_size (Some mem) of Some b \<Rightarrow> b | None \<Rightarrow> buf)
                      else let n = min buf_size (nat len) in Inr (take n mem @ drop n buf)))
          else if t = TYPE_MAX then Inr buf
          else (case v_u v of
                  U_chunk _ _ \<Rightarrow> Inl Wrong_Member
                | U_num x \<Rightarrow>
                    if num_type x = t then let out = snd (StrPrintf_s buf_size (fmt x)) in Inr (out @ drop (length out) buf)
                    else Inl Wrong_Member))"

subsection \<open>Programs over variants\<close>

record v_state =
  objs :: "nat \<rightharpoonup> variant"
  v_heap :: vheap

datatype v_op =
    New_Default nat
  | New_Num nat vnum
  | New_Chunk nat vtype "bytes option" int
  | New_Copy nat nat
  | Set_Num nat vnum
  | Set_Chunk nat vtype "bytes option" int
  | Assign nat nat
  | Destroy nat

definition v_empty :: v_state where
  "v_empty = \<lparr>objs = (\<lambda>_. None), v_heap = \<lparr>blocks = (\<lambda>_. None), next_block = 0\<rparr>\<rparr>"

fun store :: "nat \<Rightarrow> v_fault + variant \<times> vheap \<Rightarrow> v_state \<Rightarrow> v_fault + v_state" where
  "store x (Inl f) s = Inl f"
| "store x (Inr (v, h)) s = Inr (s\<lparr>objs := (objs s)(x \<mapsto> v), v_heap := h\<rparr>)"

fun v_step :: "v_op \<Rightarrow> v_state \<Rightarrow> v_fault + v_state" where
  "v_step (New_Default x) s = store x (Inr (v_default, v_heap s)) s"
| "v_step (New_Num x k) s = store x (Inr (set_num k v_raw, v_heap s)) s"
| "v_step (New_Chunk x t val len) s = store x (v_new_chunk t val len (v_heap s)) s"
| "v_step (New_Copy x y) s =
     (case objs s y of None \<Rightarrow> Inl No_Object | Some w \<Rightarrow> store x (v_copy w (v_heap s)) s)"
| "v_step (Set_Num x k) s =
     (case objs s x of None \<Rightarrow> Inl No_Object | Some v \<Rightarrow> store x (v_assign_num k v (v_heap s)) s)"
| "v_step (Set_Chunk x t val len) s =
     (case objs s x of None \<Rightarrow> Inl No_Object | Some v \<Rightarrow> store x (v_assign_chunk t val len v (v_heap s)) s)"
| "v_step (Assign x y) s =
     (case (objs s x, objs s y) of
        (Some v, Some w) \<Rightarrow> if x = y then Inr s else store x (v_assign w v (v_heap s)) s
      | _ \<Rightarrow> Inl No_Object)"
| "v_step (Destroy x) s =
     (case objs s x of
        None \<Rightarrow> Inl No_Object
      | Some v \<Rightarrow> (case Release v (v_heap s) of
            Inl f \<Rightarrow> Inl f
          | Inr (v1, h1) \<Rightarrow> Inr (s\<lparr>objs := (objs s)(x := None), v_heap := h1\<rparr>)))"

fun v_run :: "v_op list \<Rightarrow> v_state \<Rightarrow> v_fault + v_state" where
  "v_run [] s = Inr s"
| "v_run (p # ps) s = (case v_step p s of Inl f \<Rightarrow> Inl f | Inr s' \<Rightarrow> v_run ps s')"

subsection \<open>What a variant means\<close>

datatype v_val = V_None | V_Num vnum | V_Str bytes | V_Bin bytes

text \<open>A string is cut at its terminator and filled up with zeros.\<close>

definition str_val :: "bytes \<Rightarrow> int \<Rightarrow> bytes" where
  "str_val mem len = (let t = take (nat len) (c_str mem) in t @ replicate (nat len - length t) 0)"

fun chunk_val :: "vtype \<Rightarrow> bytes \<Rightarrow> int \<Rightarrow> v_val" where
  "chunk_val t mem len = (if t = TYPE_STR then V_Str (str_val mem len) else V_Bin (take (nat len) mem))"

fun val_step :: "v_op \<Rightarrow> (nat \<rightharpoonup> v_val) \<Rightarrow> (nat \<rightharpoonup> v_val)" where
  "val_step (New_Default x) m = m(x \<mapsto> V_None)"
| "val_step (New_Num x k) m = m(x \<mapsto> V_Num k)"
| "val_step (New_Chunk x t val len) m = m(x \<mapsto> chunk_val t (the val) len)"
| "val_step (New_Copy x y) m = m(x := m y)"
| "val_step (Set_Num x k) m = m(x \<mapsto> V_Num k)"
| "val_step (Set_Chunk x t val len) m = m(x \<mapsto> chunk_val t (the val) len)"
| "val_step (Assign x y) m = m(x := m y)"
| "val_step (Destroy x) m = m(x := None)"

text \<open>Operations used as intended: on objects that exist, with a type, memory and a length that fit.\<close>

fun good_chunk :: "vtype \<Rightarrow> bytes option \<Rightarrow> int \<Rightarrow> bool" where
  "good_chunk t None len = False"
| "good_chunk t (Some mem) len = (is_chunk t \<and> 0 \<le> len \<and> len + 1 < 2 ^ 31 \<and>
     (nat len \<le> length mem \<or> t = TYPE_STR \<and> 0 \<in> set mem))"

fun good_op :: "v_op \<Rightarrow> (nat \<rightharpoonup> v_val) \<Rightarrow> bool" where
  "good_op (New_Default x) m = (m x = None)"
| "good_op (New_Num x k) m = (m x = None)"
| "good_op (New_Chunk x t val len) m = (m x = None \<and> good_chunk t val len)"
| "good_op (New_Copy x y) m = (m x = None \<and> m y \<noteq> None)"
| "good_op (Set_Num x k) m = (m x \<noteq> None)"
| "good_op (Set_Chunk x t val len) m = (m x \<noteq> None \<and> good_chunk t val len)"
| "good_op (Assign x y) m = (m x \<noteq> None \<and> m y \<noteq> None)"
| "good_op (Destroy x) m = (m x \<noteq> None)"

fun good_ops :: "v_op list \<Rightarrow> (nat \<rightharpoonup> v_val) \<Rightarrow> bool" where
  "good_ops [] m = True"
| "good_ops (p # ps) m = (good_op p m \<and> good_ops ps (val_step p m))"

section \<open>Well-typed variants\<close>

text \<open>
  The value a well-typed variant holds: tag and union agree, and a chunk has a live block with a byte
  more than its length.
\<close>

inductive v_holds :: "vheap \<Rightarrow> variant \<Rightarrow> v_val \<Rightarrow> bool" where
  h_none: "v_type v = Some TYPE_MAX \<Longrightarrow> v_holds h v V_None"
| h_num: "v_type v = Some (num_type x) \<Longrightarrow> v_u v = U_num x \<Longrightarrow> v_holds h v (V_Num x)"
| h_empty_str: "v_type v = Some TYPE_STR \<Longrightarrow> v_u v = U_chunk P_Empty_Str 0 \<Longrightarrow> v_holds h v (V_Str [])"
| h_empty_bin: "v_type v = Some TYPE_BIN \<Longrightarrow> v_u v = U_chunk P_Empty_Str 0 \<Longrightarrow> v_holds h v (V_Bin [])"
| h_str: "v_type v = Some TYPE_STR \<Longrightarrow> v_u v = U_chunk (P_Block b) len \<Longrightarrow>
    0 < len \<Longrightarrow> len + 1 < 2 ^ 31 \<Longrightarrow> length bs = nat len \<Longrightarrow> str_val bs len = bs \<Longrightarrow>
    blocks h b = Some (map Some bs @ [Some 0]) \<Longrightarrow> v_holds h v (V_Str bs)"
| h_bin: "v_type v = Some TYPE_BIN \<Longrightarrow> v_u v = U_chunk (P_Block b) len \<Longrightarrow>
    0 < len \<Longrightarrow> len + 1 < 2 ^ 31 \<Longrightarrow> length bs = nat len \<Longrightarrow>
    blocks h b = Some (map Some bs @ [None]) \<Longrightarrow> v_holds h v (V_Bin bs)"

text \<open>The block a variant owns.\<close>

fun owns :: "variant \<Rightarrow> nat set" where
  "owns v = (case (v_type v, v_u v) of
     (Some t, U_chunk (P_Block b) _) \<Rightarrow> if is_chunk t then {b} else {} | _ \<Rightarrow> {})"

definition v_ok :: "v_state \<Rightarrow> (nat \<rightharpoonup> v_val) \<Rightarrow> bool" where
  "v_ok s m \<longleftrightarrow>
     (\<forall>x. case (objs s x, m x) of (Some v, Some a) \<Rightarrow> v_holds (v_heap s) v a | (None, None) \<Rightarrow> True | _ \<Rightarrow> False) \<and>
     (\<forall>b. blocks (v_heap s) b \<noteq> None \<longleftrightarrow> (\<exists>x v. objs s x = Some v \<and> b \<in> owns v)) \<and>
     (\<forall>x y v w b. objs s x = Some v \<longrightarrow> objs s y = Some w \<longrightarrow> b \<in> owns v \<longrightarrow> b \<in> owns w \<longrightarrow> x = y) \<and>
     (\<forall>b \<ge> next_block (v_heap s). blocks (v_heap s) b = None)"

section \<open>Each operation keeps variants well-typed\<close>

lemma v_holds_frame:
  "v_holds h v a \<Longrightarrow> \<forall>b \<in> owns v. blocks h' b = blocks h b \<Longrightarrow> v_holds h' v a"
  by (induction rule: v_holds.induct) (auto intro: v_holds.intros)

lemma owns_live: "v_holds h v a \<Longrightarrow> b \<in> owns v \<Longrightarrow> blocks h b \<noteq> None"
  by (induction rule: v_holds.induct) (auto split: vtype.splits vunion.splits vptr.splits if_splits)

lemma num_type_neq [simp]: "num_type x \<noteq> TYPE_STR" "num_type x \<noteq> TYPE_BIN" "num_type x \<noteq> TYPE_MAX"
  by (cases x; simp)+

lemma owns_not_chunk: "v_type v = Some t \<Longrightarrow> \<not> is_chunk t \<Longrightarrow> owns v = {}"
  by (auto split: vunion.splits vptr.splits)

lemma release_nothing: "owns v = {} \<Longrightarrow> h\<lparr>blocks := (blocks h) |` (- owns v)\<rparr> = h"
  by (simp add: restrict_map_def del: owns.simps)

lemma Release_holds:
  assumes "v_holds h v a"
  shows "\<exists>v'. Release v h = Inr (v', h\<lparr>blocks := (blocks h) |` (- owns v)\<rparr>)"
proof (cases "owns v = {}")
  case True
  with assms have "Release v h = Inr (v, h)" by (cases rule: v_holds.cases) (auto simp: Release_def)
  then show ?thesis by (simp only: release_nothing [OF True]) blast
next
  case False
  with assms obtain t b len bs where
    "v_type v = Some t" "is_chunk t" "v_u v = U_chunk (P_Block b) len" "0 < len" "blocks h b = Some bs"
    by (cases rule: v_holds.cases) (auto split: vunion.splits vptr.splits)
  moreover from this have "owns v = {b}" by auto
  moreover have "(blocks h)(b := None) = (blocks h) |` (- {b})" by (auto simp: restrict_map_def)
  ultimately show ?thesis by (simp add: Release_def del: owns.simps)
qed

text \<open>A variant with a fresh block of its own, or none, and a heap that differs only there.\<close>

definition fresh_in :: "vheap \<Rightarrow> vheap \<Rightarrow> variant \<Rightarrow> bool" where
  "fresh_in h h' v \<longleftrightarrow> (\<forall>b. b \<notin> owns v \<longrightarrow> blocks h' b = blocks h b) \<and> owns v \<subseteq> {next_block h} \<and>
     next_block h \<le> next_block h' \<and> (owns v \<noteq> {} \<longrightarrow> next_block h < next_block h')"

lemma fresh_in_same [simp]: "fresh_in h h v \<longleftrightarrow> owns v = {}"
  by (auto simp: fresh_in_def)

lemma c_str_no_zero: "0 \<notin> set (c_str m)"
  by (auto simp: c_str_def dest: set_takeWhileD)

lemma c_str_fill: "0 \<notin> set t \<Longrightarrow> c_str (t @ replicate k 0) = t"
  by (induction t) (auto simp: c_str_def takeWhile_replicate)

lemma length_str_val [simp]: "length (str_val m len) = nat len"
  by (simp add: str_val_def Let_def)

lemma str_val_idem: "str_val (str_val m len) len = str_val m len"
proof -
  have "0 \<notin> set (take (nat len) (c_str m))" using c_str_no_zero by (meson in_set_takeD)
  then show ?thesis by (simp add: str_val_def Let_def c_str_fill)
qed

lemma str_val_zero: "str_val m 0 = []"
  by (simp add: str_val_def)

lemma StrCpy_cell:
  "0 < n \<Longrightarrow> StrCpy (Some (replicate (n + 1) 0)) (n + 1) (Some m) = Some (str_val m (int n) @ [0])"
  by (simp add: StrCpy_def Let_def str_val_def)

lemma set_chunk_holds:
  assumes "good_chunk t val len"
  shows "\<exists>v' h'. set_chunk t val len v h = Inr (v', h') \<and> v_holds h' v' (chunk_val t (the val) len) \<and> fresh_in h h' v'"
proof -
  from assms obtain mem where mem: "val = Some mem" "is_chunk t" "0 \<le> len" "len + 1 < 2 ^ 31"
    "nat len \<le> length mem \<or> t = TYPE_STR \<and> 0 \<in> set mem" by (cases val) auto
  show ?thesis
  proof (cases "len = 0")
    case True
    with mem show ?thesis
      by (auto simp: set_chunk_def str_val_zero intro: v_holds.intros)
  next
    case False
    with mem(3) have n: "0 < len" "0 < nat len" "int (nat len) = len" by auto
    let ?b = "next_block h"
    show ?thesis
    proof (cases "t = TYPE_STR")
      case True
      have "set_chunk t val len v h = Inr (v\<lparr>v_type := Some t, v_u := U_chunk (P_Block ?b) len\<rparr>,
          h\<lparr>blocks := (blocks h)(?b \<mapsto> map Some (str_val mem len) @ [Some 0]), next_block := ?b + 1\<rparr>)"
        using mem n True StrCpy_cell [OF n(2), of mem] by (auto simp: set_chunk_def Let_def)
      with True mem(1,4) n str_val_idem show ?thesis
        by (auto simp: fresh_in_def intro!: h_str)
    next
      case False
      then have "set_chunk t val len v h = Inr (v\<lparr>v_type := Some t, v_u := U_chunk (P_Block ?b) len\<rparr>,
          h\<lparr>blocks := (blocks h)(?b \<mapsto> map Some (take (nat len) mem) @ [None]), next_block := ?b + 1\<rparr>)"
        using mem n by (auto simp: set_chunk_def Let_def)
      with False mem n show ?thesis
        by (auto simp: fresh_in_def intro!: h_bin)
    qed
  qed
qed

lemma takeWhile_Some: "map the (takeWhile (\<lambda>x. x \<noteq> None) (map Some bs @ [None])) = bs"
  by (induction bs) auto

lemma takeWhile_Some_all: "map the (takeWhile (\<lambda>x. x \<noteq> None) (map Some bs @ [Some x])) = bs @ [x]"
  by (induction bs) auto

lemma c_str_snoc: "c_str (bs @ [0]) = c_str bs"
  by (induction bs) (auto simp: c_str_def)

lemma copy_from_holds:
  assumes "v_holds h w a"
  shows "\<exists>v' h'. copy_from w v h = Inr (v', h') \<and> v_holds h' v' a \<and> fresh_in h h' v'"
  using assms
proof (cases rule: v_holds.cases)
  case h_none
  then show ?thesis using owns_not_chunk by (auto simp: copy_from_def intro: v_holds.intros)
next
  case (h_num x)
  then show ?thesis by (auto simp: copy_from_def intro: v_holds.intros)
next
  case h_empty_str
  have "good_chunk TYPE_STR (Some [0]) 0" by simp
  from set_chunk_holds [OF this] h_empty_str show ?thesis
    by (auto simp: copy_from_def chunk_mem_def str_val_zero)
next
  case h_empty_bin
  have "good_chunk TYPE_BIN (Some [0]) 0" by simp
  from set_chunk_holds [OF this] h_empty_bin show ?thesis
    by (auto simp: copy_from_def chunk_mem_def)
next
  case (h_str b len bs)
  have "good_chunk TYPE_STR (Some (bs @ [0])) len" using h_str by simp
  moreover have "chunk_val TYPE_STR (bs @ [0]) len = V_Str bs"
    using h_str by (simp add: str_val_def Let_def c_str_snoc)
  moreover have "copy_from w v h = set_chunk TYPE_STR (Some (bs @ [0])) len v h"
    using h_str by (simp add: copy_from_def chunk_mem_def takeWhile_Some_all del: not_None_eq)
  ultimately show ?thesis using h_str(1) set_chunk_holds [of TYPE_STR "Some (bs @ [0])" len v h] by auto
next
  case (h_bin b len bs)
  have "good_chunk TYPE_BIN (Some bs) len" using h_bin by simp
  moreover have "copy_from w v h = set_chunk TYPE_BIN (Some bs) len v h"
    using h_bin by (simp add: copy_from_def chunk_mem_def takeWhile_Some del: not_None_eq)
  ultimately show ?thesis using h_bin set_chunk_holds [of TYPE_BIN "Some bs" len v h] by auto
qed

lemma v_ok_holds: "v_ok s m \<Longrightarrow> objs s x = Some v \<Longrightarrow> \<exists>a. m x = Some a \<and> v_holds (v_heap s) v a"
  unfolding v_ok_def by (auto dest!: spec [of _ x] split: option.splits)

lemma v_ok_obj: "v_ok s m \<Longrightarrow> m x = Some a \<Longrightarrow> \<exists>v. objs s x = Some v \<and> v_holds (v_heap s) v a"
  unfolding v_ok_def by (auto dest!: spec [of _ x] split: option.splits)

lemma v_ok_none: "v_ok s m \<Longrightarrow> m x = None \<longleftrightarrow> objs s x = None"
  unfolding v_ok_def by (auto dest!: spec [of _ x] split: option.splits)

lemma v_ok_intro:
  assumes "\<And>x v. objs s x = Some v \<Longrightarrow> \<exists>a. m x = Some a \<and> v_holds (v_heap s) v a"
    and "\<And>x. objs s x = None \<Longrightarrow> m x = None"
    and "\<And>b. blocks (v_heap s) b \<noteq> None \<Longrightarrow> \<exists>x v. objs s x = Some v \<and> b \<in> owns v"
    and "\<And>x y v w b. objs s x = Some v \<Longrightarrow> objs s y = Some w \<Longrightarrow> b \<in> owns v \<Longrightarrow> b \<in> owns w \<Longrightarrow> x = y"
    and "\<And>b. b \<ge> next_block (v_heap s) \<Longrightarrow> blocks (v_heap s) b = None"
  shows "v_ok s m"
proof -
  have "case (objs s x, m x) of (Some v, Some a) \<Rightarrow> v_holds (v_heap s) v a | (None, None) \<Rightarrow> True | _ \<Rightarrow> False" for x
    using assms(1,2) [of x] by (cases "objs s x") auto
  moreover have "blocks (v_heap s) b \<noteq> None" if "objs s x = Some v" "b \<in> owns v" for b x v
    using assms(1) [OF that(1)] owns_live that(2) by blast
  ultimately show ?thesis using assms(3-) unfolding v_ok_def by blast
qed

lemma v_ok_owned: "v_ok s m \<Longrightarrow> blocks (v_heap s) b \<noteq> None \<longleftrightarrow> (\<exists>x v. objs s x = Some v \<and> b \<in> owns v)"
  by (simp only: v_ok_def)

lemma v_ok_apart: "v_ok s m \<Longrightarrow> objs s x = Some v \<Longrightarrow> objs s y = Some w \<Longrightarrow> b \<in> owns v \<Longrightarrow> b \<in> owns w \<Longrightarrow> x = y"
  unfolding v_ok_def by blast

lemma v_ok_fresh: "v_ok s m \<Longrightarrow> b \<ge> next_block (v_heap s) \<Longrightarrow> blocks (v_heap s) b = None"
  by (simp only: v_ok_def)

text \<open>Taking a variant out of a state, and putting one in.\<close>

lemma release_ok:
  assumes ok: "v_ok s m" and v: "objs s x = Some v"
    and h1: "h1 = (v_heap s)\<lparr>blocks := (blocks (v_heap s)) |` (- owns v)\<rparr>"
  shows "v_ok (s\<lparr>objs := (objs s)(x := None), v_heap := h1\<rparr>) (m(x := None))"
proof (rule v_ok_intro)
  fix y w assume "objs (s\<lparr>objs := (objs s)(x := None), v_heap := h1\<rparr>) y = Some w"
  then have y: "y \<noteq> x" "objs s y = Some w" by (auto split: if_splits)
  from v_ok_holds [OF ok y(2)] obtain a where a: "m y = Some a" "v_holds (v_heap s) w a" by blast
  have "owns w \<inter> owns v = {}" using v_ok_apart [OF ok y(2) v] y(1) by blast
  then have "v_holds h1 w a" using a(2) h1 by (intro v_holds_frame [OF a(2)]) (auto simp: restrict_map_def simp del: owns.simps)
  with a y show "\<exists>a. (m(x := None)) y = Some a \<and>
      v_holds (v_heap (s\<lparr>objs := (objs s)(x := None), v_heap := h1\<rparr>)) w a" by simp
next
  fix b assume "blocks (v_heap (s\<lparr>objs := (objs s)(x := None), v_heap := h1\<rparr>)) b \<noteq> None"
  then have "b \<notin> owns v" "blocks (v_heap s) b \<noteq> None" using h1 by (auto simp: restrict_map_def split: if_splits)
  then show "\<exists>y w. objs (s\<lparr>objs := (objs s)(x := None), v_heap := h1\<rparr>) y = Some w \<and> b \<in> owns w"
    using v_ok_owned [OF ok] v by (metis fun_upd_other option.inject v_state.select_convs(1) v_state.surjective v_state.update_convs(1,2))
qed (use v_ok_apart [OF ok] v_ok_none [OF ok] v_ok_fresh [OF ok] h1
     in \<open>auto simp: restrict_map_def simp del: owns.simps split: if_splits\<close>)

lemma store_ok:
  assumes ok: "v_ok s m" and x: "objs s x = None" and v: "v_holds h' v a" "fresh_in (v_heap s) h' v"
  shows "v_ok (s\<lparr>objs := (objs s)(x \<mapsto> v), v_heap := h'\<rparr>) (m(x \<mapsto> a))"
proof -
  have own: "b \<notin> owns v" if "objs s y = Some w" "b \<in> owns w" for b y w
    using that v_ok_owned [OF ok, of b] v_ok_fresh [OF ok, of b] v(2) by (auto simp: fresh_in_def simp del: owns.simps)
  show ?thesis
  proof (rule v_ok_intro)
    fix y w assume y: "objs (s\<lparr>objs := (objs s)(x \<mapsto> v), v_heap := h'\<rparr>) y = Some w"
    show "\<exists>b. (m(x \<mapsto> a)) y = Some b \<and> v_holds (v_heap (s\<lparr>objs := (objs s)(x \<mapsto> v), v_heap := h'\<rparr>)) w b"
    proof (cases "y = x")
      case False
      with y have y: "objs s y = Some w" by simp
      from v_ok_holds [OF ok y] obtain b where b: "m y = Some b" "v_holds (v_heap s) w b" by blast
      have "v_holds h' w b" using own [OF y] v(2)
        by (intro v_holds_frame [OF b(2)]) (auto simp: fresh_in_def simp del: owns.simps)
      with b False show ?thesis by simp
    qed (use y v in simp)
  next
    fix b assume b: "blocks (v_heap (s\<lparr>objs := (objs s)(x \<mapsto> v), v_heap := h'\<rparr>)) b \<noteq> None"
    show "\<exists>y w. objs (s\<lparr>objs := (objs s)(x \<mapsto> v), v_heap := h'\<rparr>) y = Some w \<and> b \<in> owns w"
    proof (cases "b \<in> owns v")
      case False
      with b v(2) have "blocks (v_heap s) b \<noteq> None" by (auto simp: fresh_in_def simp del: owns.simps)
      then obtain y w where "objs s y = Some w" "b \<in> owns w" using v_ok_owned [OF ok] by blast
      with x show ?thesis by (intro exI [of _ y] exI [of _ w]) (auto simp del: owns.simps)
    qed (auto simp del: owns.simps)
  next
    fix b assume b: "b \<ge> next_block (v_heap (s\<lparr>objs := (objs s)(x \<mapsto> v), v_heap := h'\<rparr>))"
    then have "b \<ge> next_block (v_heap s)" "b \<notin> owns v"
      using v(2) by (auto simp: fresh_in_def simp del: owns.simps)
    then show "blocks (v_heap (s\<lparr>objs := (objs s)(x \<mapsto> v), v_heap := h'\<rparr>)) b = None"
      using v(2) v_ok_fresh [OF ok] by (simp add: fresh_in_def del: owns.simps)
  qed (use own v_ok_apart [OF ok] v_ok_none [OF ok] x in \<open>auto simp del: owns.simps split: if_splits\<close>)
qed

lemma v_step_ok:
  assumes ok: "v_ok s m" and good: "good_op p m"
  shows "\<exists>s'. v_step p s = Inr s' \<and> v_ok s' (val_step p m)"
proof -
  have add: "\<exists>s'. store x (Inr (v, h')) s = Inr s' \<and> v_ok s' (m(x \<mapsto> a))"
    if "m x = None" "v_holds h' v a" "fresh_in (v_heap s) h' v" for x v h' a
    using store_ok [OF ok _ that(2,3)] v_ok_none [OF ok] that(1) by simp
  have put: "\<exists>s'. store x (case Release v (v_heap s) of Inl f \<Rightarrow> Inl f | Inr (v1, h1) \<Rightarrow> f v1 h1) s = Inr s' \<and>
      v_ok s' (m(x \<mapsto> a))"
    if v: "objs s x = Some v"
      and f: "\<And>v1 h1. h1 = (v_heap s)\<lparr>blocks := (blocks (v_heap s)) |` (- owns v)\<rparr> \<Longrightarrow>
        \<exists>v' h'. f v1 h1 = Inr (v', h') \<and> v_holds h' v' a \<and> fresh_in h1 h' v'" for x v f a
  proof -
    let ?h = "(v_heap s)\<lparr>blocks := (blocks (v_heap s)) |` (- owns v)\<rparr>"
    from v_ok_holds [OF ok v] Release_holds obtain v1 where r: "Release v (v_heap s) = Inr (v1, ?h)" by blast
    from f [OF refl] obtain v' h' where f': "f v1 ?h = Inr (v', h')" "v_holds h' v' a" "fresh_in ?h h' v'" by blast
    have "v_ok (s\<lparr>objs := (objs s)(x := None), v_heap := ?h\<rparr>) (m(x := None))"
      by (rule release_ok [OF ok v refl])
    from store_ok [OF this _ f'(2), of x] f'(1,3) r show ?thesis by simp
  qed
  show ?thesis
  proof (cases p)
    case (New_Default x)
    have "v_holds (v_heap s) v_default V_None" "owns v_default = {}"
      by (auto simp: v_default_def v_raw_def intro: v_holds.intros)
    from New_Default good add [OF _ this(1)] this(2) show ?thesis by simp
  next
    case (New_Num x k)
    have "v_holds (v_heap s) (set_num k v_raw) (V_Num k)" "owns (set_num k v_raw) = {}"
      by (auto simp: set_num_def intro: v_holds.intros)
    from New_Num good add [OF _ this(1)] this(2) show ?thesis by simp
  next
    case (New_Chunk x t val len)
    with good set_chunk_holds [of t val len v_raw "v_heap s"] obtain v' h' where
      "v_new_chunk t val len (v_heap s) = Inr (v', h')" "v_holds h' v' (chunk_val t (the val) len)"
      "fresh_in (v_heap s) h' v'" by (auto simp: v_new_chunk_def)
    with New_Chunk good add show ?thesis by simp
  next
    case (New_Copy x y)
    with good obtain a where a: "m y = Some a" by auto
    with v_ok_obj [OF ok] obtain w where w: "objs s y = Some w" "v_holds (v_heap s) w a" by blast
    from copy_from_holds [OF w(2), of v_raw] obtain v' h' where
      "v_copy w (v_heap s) = Inr (v', h')" "v_holds h' v' a" "fresh_in (v_heap s) h' v'"
      by (auto simp: v_copy_def)
    with New_Copy good add a w(1) show ?thesis by simp
  next
    case (Set_Num x k)
    with good v_ok_none [OF ok] obtain v where v: "objs s x = Some v" by fastforce
    have "\<exists>v' h'. Inr (set_num k v1, h1) = Inr (v', h') \<and> v_holds h' v' (V_Num k) \<and> fresh_in h1 h' v'" for v1 h1
      by (auto simp: set_num_def intro: v_holds.intros)
    from put [OF v this] v Set_Num show ?thesis by (simp add: v_assign_num_def)
  next
    case (Set_Chunk x t val len)
    with good v_ok_none [OF ok] obtain v where v: "objs s x = Some v" by fastforce
    from Set_Chunk good set_chunk_holds put [OF v, of "set_chunk t val len" "chunk_val t (the val) len"] v
    show ?thesis by (simp add: v_assign_chunk_def)
  next
    case (Assign x y)
    with good obtain a where a: "m y = Some a" by auto
    from Assign good v_ok_none [OF ok] obtain v where v: "objs s x = Some v" by fastforce
    from a v_ok_obj [OF ok] obtain w where w: "objs s y = Some w" "v_holds (v_heap s) w a" by blast
    show ?thesis
    proof (cases "x = y")
      case True
      with a have "val_step p m = m" using Assign by auto
      with True Assign v ok show ?thesis by simp
    next
      case False
      then have "owns w \<inter> owns v = {}" using v_ok_apart [OF ok w(1) v] by blast
      then have "v_holds h1 w a" if "h1 = (v_heap s)\<lparr>blocks := (blocks (v_heap s)) |` (- owns v)\<rparr>" for h1
        using that by (intro v_holds_frame [OF w(2)]) (auto simp: restrict_map_def simp del: owns.simps)
      then show ?thesis
        using False Assign put [OF v, of "copy_from w" a] copy_from_holds v w(1) a by (simp add: v_assign_def)
    qed
  next
    case (Destroy x)
    with good v_ok_none [OF ok] obtain v where v: "objs s x = Some v" by fastforce
    from v_ok_holds [OF ok v] Release_holds obtain v1 where
      "Release v (v_heap s) = Inr (v1, (v_heap s)\<lparr>blocks := (blocks (v_heap s)) |` (- owns v)\<rparr>)" by blast
    with Destroy v release_ok [OF ok v refl] show ?thesis by simp
  qed
qed

lemma v_run_ok: "v_ok s m \<Longrightarrow> good_ops ps m \<Longrightarrow> \<exists>s'. v_run ps s = Inr s' \<and> v_ok s' (fold val_step ps m)"
proof (induction ps arbitrary: s m)
  case (Cons p ps)
  with v_step_ok [of s m p] obtain s1 where "v_step p s = Inr s1" "v_ok s1 (val_step p m)" by auto
  with Cons show ?case by simp
qed simp

lemma v_empty_ok: "v_ok v_empty (\<lambda>_. None)"
  by (rule v_ok_intro) (auto simp: v_empty_def)

text \<open>What \<^verbatim>\<open>GetValue\<close> gives back.\<close>

lemma get_num_holds:
  assumes "v_holds h v a" and t: "t \<in> {TYPE_I32, TYPE_I64, TYPE_F32, TYPE_F64}"
  shows "get_num t zero v = Inr (case a of V_Num x \<Rightarrow> if num_type x = t then x else zero | _ \<Rightarrow> zero)"
  using assms(1) by (cases rule: v_holds.cases) (use t in \<open>auto simp: get_num_def\<close>)

fun val_bytes :: "v_val \<Rightarrow> bytes" where
  "val_bytes (V_Str bs) = bs"
| "val_bytes (V_Bin bs) = bs"
| "val_bytes _ = []"

lemma get_chunk_holds:
  assumes "v_holds h v a"
  shows "\<exists>p len mem. get_chunk v = Inr (p, len) \<and> chunk_mem h p = Some mem \<and> len = int (length (val_bytes a)) \<and>
    take (nat len) mem = val_bytes a"
  using assms
proof (cases rule: v_holds.cases)
  case (h_str b len bs)
  then show ?thesis by (auto simp: get_chunk_def chunk_mem_def takeWhile_Some_all simp del: not_None_eq)
next
  case (h_bin b len bs)
  then show ?thesis by (auto simp: get_chunk_def chunk_mem_def takeWhile_Some simp del: not_None_eq)
qed (auto simp: get_chunk_def chunk_mem_def)

text \<open>What all six \<^verbatim>\<open>GetValue\<close> give for a variant that holds a value.\<close>

definition reads_as :: "vheap \<Rightarrow> variant \<Rightarrow> v_val \<Rightarrow> bool" where
  "reads_as h v a \<longleftrightarrow>
     (\<forall>k zero. get_num (num_type k) zero v =
        Inr (case a of V_Num n \<Rightarrow> if num_type n = num_type k then n else zero | _ \<Rightarrow> zero)) \<and>
     (\<exists>p len mem. get_chunk v = Inr (p, len) \<and> chunk_mem h p = Some mem \<and>
        len = int (length (val_bytes a)) \<and> take (nat len) mem = val_bytes a)"

lemma holds_reads: "v_holds h v a \<Longrightarrow> reads_as h v a"
proof -
  have "num_type k \<in> {TYPE_I32, TYPE_I64, TYPE_F32, TYPE_F64}" for k by (cases k) auto
  then show "v_holds h v a \<Longrightarrow> reads_as h v a"
    using get_num_holds get_chunk_holds unfolding reads_as_def by blast
qed

section \<open>What variants promise\<close>

text \<open>
  Claim C32: a program that creates, copies, assigns and destroys variants with fitting arguments never
  fails: no member of a union is read but the one written last, no block is released twice or while another variant uses it.
  Each variant then holds the value that was given to it, by tag, number and bytes, independent of what
  became of the variant it was copied from, and the blocks in use are exactly those of the living variants.
\<close>

theorem variants_well_typed:
  assumes "good_ops ps (\<lambda>_. None)"
  shows "\<exists>s. v_run ps v_empty = Inr s \<and>
    (\<forall>x. objs s x = None \<longleftrightarrow> fold val_step ps (\<lambda>_. None) x = None) \<and>
    (\<forall>b. blocks (v_heap s) b \<noteq> None \<longleftrightarrow> (\<exists>x v. objs s x = Some v \<and> b \<in> owns v)) \<and>
    (\<forall>x v. objs s x = Some v \<longrightarrow>
      (\<exists>a. fold val_step ps (\<lambda>_. None) x = Some a \<and> v_holds (v_heap s) v a \<and> reads_as (v_heap s) v a))"
proof -
  from v_run_ok [OF v_empty_ok assms] obtain s where s: "v_run ps v_empty = Inr s" "v_ok s (fold val_step ps (\<lambda>_. None))"
    by blast
  with v_ok_none [OF s(2)] v_ok_owned [OF s(2)] v_ok_holds [OF s(2)] holds_reads show ?thesis by blast
qed

text \<open>A string is copied, the copy is assigned a number and the original destroyed.\<close>

theorem variants_well_typed_witness:
  "\<exists>s. v_run [New_Chunk 0 TYPE_STR (Some [104, 105, 0]) 2, New_Copy 1 0, New_Copy 2 1, Set_Num 1 (N_i 7), Destroy 0] v_empty = Inr s \<and>
    objs s 0 = None \<and> (\<exists>v. objs s 2 = Some v \<and> v_holds (v_heap s) v (V_Str [104, 105]))"
proof -
  let ?ps = "[New_Chunk 0 TYPE_STR (Some [104, 105, 0]) 2, New_Copy 1 0, New_Copy 2 1, Set_Num 1 (N_i 7), Destroy 0]"
  let ?m = "fold val_step ?ps (\<lambda>_. None)"
  have "?m 0 = None" "?m 2 = Some (V_Str [104, 105])"
    by (simp_all add: str_val_def c_str_def Let_def)
  note m = this
  have "good_ops ?ps (\<lambda>_. None)" by simp
  then obtain s where s: "v_run ?ps v_empty = Inr s" "\<forall>x. objs s x = None \<longleftrightarrow> ?m x = None"
    "\<forall>x v. objs s x = Some v \<longrightarrow> (\<exists>a. ?m x = Some a \<and> v_holds (v_heap s) v a \<and> reads_as (v_heap s) v a)"
    using variants_well_typed [of ?ps] by (elim meta_impE exE conjE) presburger+
  from s(2) m(2) obtain v where v: "objs s 2 = Some v" by (metis not_None_eq)
  with s(3) m(2) have "v_holds (v_heap s) v (V_Str [104, 105])" by fastforce
  with s(1,2) v m(1) show ?thesis by blast
qed

section \<open>What they do not\<close>

text \<open>A null pointer or a wrong type leaves a new variant without a tag: its destructor reads it.\<close>

lemma bad_new_unset:
  "\<not> is_chunk t \<or> val = None \<or> len < 0 \<Longrightarrow> v_new_chunk t val len h = Inr (v_raw, h) \<and> Release v_raw h = Inl Unset_Type"
  by (auto simp: v_new_chunk_def set_chunk_def Release_def v_raw_def split: option.splits)

text \<open>Assigning such a chunk releases the old one and keeps its tag, over a null pointer.\<close>

lemma bad_assign_loses:
  assumes "v_holds h v (V_Str (c # cs))" and "val = None \<or> len < 0"
  shows "\<exists>h'. v_assign_chunk t val len v h = Inr (v\<lparr>v_u := U_chunk P_Null 0\<rparr>, h')"
  using assms by (cases rule: v_holds.cases)
    (auto simp: v_assign_chunk_def Release_def set_chunk_def split: option.splits)

text \<open>\<^verbatim>\<open>SetType\<close> lets the destructor take a number for a pointer.\<close>

lemma SetType_breaks: "is_chunk t \<Longrightarrow> v_u v = U_num x \<Longrightarrow> Release (SetType t v) h = Inl Wrong_Member"
  by (auto simp: SetType_def Release_def)

text \<open>\<^verbatim>\<open>ToString\<close> of a binary value writes no terminator.\<close>

lemma bin_not_terminated:
  assumes "v_holds h v (V_Bin bs)" "bs \<noteq> []" "length bs \<le> n" "n \<le> length buf"
  shows "v_to_string fmt n v h buf = Inr (bs @ drop (length bs) buf)"
  using assms by (cases rule: v_holds.cases)
    (auto simp: v_to_string_def chunk_mem_def takeWhile_Some min_def simp del: not_None_eq)

end
