(* ===== verification/Multipart.thy ===== *)
theory Multipart
  imports CC_Prelude "HOL-Library.Sublist"
begin

text \<open>
  The multipart parser of the web threads, \<^verbatim>\<open>multipart_parser.c\<close>, and the callbacks that
  \<^verbatim>\<open>mpart_body_processor.cpp\<close> gives it. The parser reads a body chunk by chunk and cuts names, values and
  contents at chunk ends; \<open>joined\<close> puts such pieces together again. The callbacks are a function on a state
  of their own, so that the parser can be read with any of them.
\<close>

section \<open>Definitions\<close>

abbreviation (input) LF :: u8 where "LF \<equiv> 10"
abbreviation (input) CR :: u8 where "CR \<equiv> 13"
abbreviation (input) ch_space :: u8 where "ch_space \<equiv> 32"
abbreviation (input) ch_hyphen :: u8 where "ch_hyphen \<equiv> 45"
abbreviation (input) ch_colon :: u8 where "ch_colon \<equiv> 58"

datatype mp_state =
    s_uninitialized
  | s_start
  | s_start_boundary
  | s_header_field_start
  | s_header_field
  | s_headers_almost_done
  | s_header_value_start
  | s_header_value
  | s_header_value_almost_done
  | s_part_data_start
  | s_part_data
  | s_part_data_almost_boundary
  | s_part_data_boundary
  | s_part_data_almost_end
  | s_part_data_end
  | s_part_data_final_hyphen
  | s_end

text \<open>The boundary is in the same memory as the \<open>length + 9\<close> bytes of \<open>lookbehind\<close>; the settings are the callbacks below.\<close>

record multipart_parser =
  mp_index :: nat
  boundary_length :: nat
  mp_state :: mp_state
  lookbehind :: bytes
  multipart_boundary :: bytes

definition multipart_parser_init :: "bytes \<Rightarrow> multipart_parser" where
  "multipart_parser_init boundary =
     \<lparr>mp_index = 0, boundary_length = length boundary, mp_state = s_start,
      lookbehind = replicate (length boundary + 9) 0, multipart_boundary = boundary\<rparr>"

text \<open>The callbacks, with their bytes.\<close>

datatype mp_event =
    E_Field bytes
  | E_Value bytes
  | E_Data bytes
  | E_Begin
  | E_Headers
  | E_Part_End
  | E_Body_End

text \<open>A callback changes its own state and stops the parser with a result that is not 0.\<close>

type_synonym 's mp_cbs = "mp_event \<Rightarrow> 's \<Rightarrow> int \<times> 's"

text \<open>
  What reading a character leads to: \<open>return i\<close>, \<open>break\<close> with the next character, or \<open>break\<close>
  with \<open>i\<close> counted back, so that the same character is read in the new state.
\<close>

datatype 's mp_next =
    Stop multipart_parser 's
  | Next multipart_parser nat 's
  | Again multipart_parser nat 's

definition emit :: "'s mp_cbs \<Rightarrow> mp_event \<Rightarrow> multipart_parser \<Rightarrow> 's \<Rightarrow> ('s \<Rightarrow> 's mp_next) \<Rightarrow> 's mp_next" where
  "emit cb e p s k = (case cb e s of (r, s') \<Rightarrow> if r \<noteq> 0 then Stop p s' else k s')"

text \<open>The bytes from \<open>mark\<close> up to \<open>i\<close>.\<close>

definition span_bytes :: "bytes \<Rightarrow> nat \<Rightarrow> nat \<Rightarrow> bytes" where
  "span_bytes buf mark i = take (i - mark) (drop mark buf)"

text \<open>\<^verbatim>\<open>tolower\<close> and the test for a character of a header name; \<^verbatim>\<open>char\<close> is signed.\<close>

definition name_char :: "u8 \<Rightarrow> bool" where
  "name_char c \<longleftrightarrow> c = ch_hyphen \<or> (97 \<le> c \<and> c \<le> 122) \<or> (65 \<le> c \<and> c \<le> 90)"

definition field_step :: "'s mp_cbs \<Rightarrow> bytes \<Rightarrow> nat \<Rightarrow> nat \<Rightarrow> multipart_parser \<Rightarrow> 's \<Rightarrow> 's mp_next" where
  "field_step cb buf i mark p s =
     (let c = buf ! i; is_last = (i = length buf - 1) in
      if c = CR then Next (p\<lparr>mp_state := s_headers_almost_done\<rparr>) mark s
      else if c = ch_colon then
        emit cb (E_Field (span_bytes buf mark i)) p s (\<lambda>s. Next (p\<lparr>mp_state := s_header_value_start\<rparr>) mark s)
      else if \<not> name_char c then Stop p s
      else if is_last then emit cb (E_Field (span_bytes buf mark (i + 1))) p s (\<lambda>s. Next p mark s)
      else Next p mark s)"

definition value_step :: "'s mp_cbs \<Rightarrow> bytes \<Rightarrow> nat \<Rightarrow> nat \<Rightarrow> multipart_parser \<Rightarrow> 's \<Rightarrow> 's mp_next" where
  "value_step cb buf i mark p s =
     (let c = buf ! i; is_last = (i = length buf - 1) in
      if c = CR then
        emit cb (E_Value (span_bytes buf mark i)) p s (\<lambda>s. Next (p\<lparr>mp_state := s_header_value_almost_done\<rparr>) mark s)
      else if is_last then emit cb (E_Value (span_bytes buf mark (i + 1))) p s (\<lambda>s. Next p mark s)
      else Next p mark s)"

definition data_step :: "'s mp_cbs \<Rightarrow> bytes \<Rightarrow> nat \<Rightarrow> nat \<Rightarrow> multipart_parser \<Rightarrow> 's \<Rightarrow> 's mp_next" where
  "data_step cb buf i mark p s =
     (let c = buf ! i; is_last = (i = length buf - 1) in
      if c = CR then
        emit cb (E_Data (span_bytes buf mark i)) p s
          (\<lambda>s. Next (p\<lparr>mp_state := s_part_data_almost_boundary, lookbehind := (lookbehind p)[0 := CR]\<rparr>) i s)
      else if is_last then emit cb (E_Data (span_bytes buf mark (i + 1))) p s (\<lambda>s. Next p mark s)
      else Next p mark s)"

definition start_boundary_step :: "'s mp_cbs \<Rightarrow> bytes \<Rightarrow> nat \<Rightarrow> nat \<Rightarrow> multipart_parser \<Rightarrow> 's \<Rightarrow> 's mp_next" where
  "start_boundary_step cb buf i mark p s =
     (let c = buf ! i in
      if mp_index p = boundary_length p then
        (if c \<noteq> CR then Stop p s else Next (p\<lparr>mp_index := mp_index p + 1\<rparr>) mark s)
      else if mp_index p = boundary_length p + 1 then
        (if c \<noteq> LF then Stop p s
         else emit cb E_Begin (p\<lparr>mp_index := 0\<rparr>) s
                (\<lambda>s. Next (p\<lparr>mp_index := 0, mp_state := s_header_field_start\<rparr>) mark s))
      else if c \<noteq> multipart_boundary p ! mp_index p then Stop p s
      else Next (p\<lparr>mp_index := mp_index p + 1\<rparr>) mark s)"

definition mp_step :: "'s mp_cbs \<Rightarrow> bytes \<Rightarrow> nat \<Rightarrow> nat \<Rightarrow> multipart_parser \<Rightarrow> 's \<Rightarrow> 's mp_next" where
  "mp_step cb buf i mark p s =
     (let c = buf ! i in
      case mp_state p of
        s_start \<Rightarrow> start_boundary_step cb buf i mark (p\<lparr>mp_index := 0, mp_state := s_start_boundary\<rparr>) s
      | s_start_boundary \<Rightarrow> start_boundary_step cb buf i mark p s
      | s_header_field_start \<Rightarrow> field_step cb buf i i (p\<lparr>mp_state := s_header_field\<rparr>) s
      | s_header_field \<Rightarrow> field_step cb buf i mark p s
      | s_headers_almost_done \<Rightarrow>
          if c \<noteq> LF then Stop p s else Next (p\<lparr>mp_state := s_part_data_start\<rparr>) mark s
      | s_header_value_start \<Rightarrow>
          if c = ch_space then Next p mark s else value_step cb buf i i (p\<lparr>mp_state := s_header_value\<rparr>) s
      | s_header_value \<Rightarrow> value_step cb buf i mark p s
      | s_header_value_almost_done \<Rightarrow>
          if c \<noteq> LF then Stop p s else Next (p\<lparr>mp_state := s_header_field_start\<rparr>) mark s
      | s_part_data_start \<Rightarrow>
          emit cb E_Headers p s (\<lambda>s. data_step cb buf i i (p\<lparr>mp_state := s_part_data\<rparr>) s)
      | s_part_data \<Rightarrow> data_step cb buf i mark p s
      | s_part_data_almost_boundary \<Rightarrow>
          if c = LF then Next (p\<lparr>mp_state := s_part_data_boundary, lookbehind := (lookbehind p)[1 := LF], mp_index := 0\<rparr>) mark s
          else emit cb (E_Data (take 1 (lookbehind p))) p s (\<lambda>s. Again (p\<lparr>mp_state := s_part_data\<rparr>) i s)
      | s_part_data_boundary \<Rightarrow>
          if multipart_boundary p ! mp_index p \<noteq> c
          then emit cb (E_Data (take (2 + mp_index p) (lookbehind p))) p s (\<lambda>s. Again (p\<lparr>mp_state := s_part_data\<rparr>) i s)
          else (let p1 = p\<lparr>lookbehind := (lookbehind p)[2 + mp_index p := c], mp_index := mp_index p + 1\<rparr> in
                if mp_index p1 = boundary_length p
                then emit cb E_Part_End p1 s (\<lambda>s. Next (p1\<lparr>mp_state := s_part_data_almost_end\<rparr>) mark s)
                else Next p1 mark s)
      | s_part_data_almost_end \<Rightarrow>
          if c = ch_hyphen then Next (p\<lparr>mp_state := s_part_data_final_hyphen\<rparr>) mark s
          else if c = CR then Next (p\<lparr>mp_state := s_part_data_end\<rparr>) mark s
          else Stop p s
      | s_part_data_final_hyphen \<Rightarrow>
          if c = ch_hyphen then emit cb E_Body_End p s (\<lambda>s. Next (p\<lparr>mp_state := s_end\<rparr>) mark s)
          else Stop p s
      | s_part_data_end \<Rightarrow>
          if c = LF then
            (let p1 = p\<lparr>mp_state := s_header_field_start\<rparr> in emit cb E_Begin p1 s (\<lambda>s. Next p1 mark s))
          else Stop p s
      | s_end \<Rightarrow> Next p mark s
      | s_uninitialized \<Rightarrow> Stop p s)"

lemma emit_Again: "emit cb e p s k = Again p' m' s' \<Longrightarrow> \<exists>s1. k s1 = Again p' m' s'"
  by (auto simp: emit_def split: prod.splits if_splits)

lemma mp_step_Again:
  assumes "mp_step cb buf i mark p s = Again p' m' s'"
  shows "mp_state p' = s_part_data \<and> mp_state p \<noteq> s_part_data"
proof -
  have no: "field_step cb buf i m q r \<noteq> Again p' m' s'" "value_step cb buf i m q r \<noteq> Again p' m' s'"
    "data_step cb buf i m q r \<noteq> Again p' m' s'" "start_boundary_step cb buf i m q r \<noteq> Again p' m' s'" for m q r
    by (auto simp: field_step_def value_step_def data_step_def start_boundary_step_def Let_def dest!: emit_Again)
  show ?thesis using assms
    by (cases "mp_state p") (auto simp: mp_step_def Let_def no dest!: emit_Again split: if_splits)
qed

text \<open>
  \<^verbatim>\<open>multipart_parser_execute\<close>: how far it got (0 from the unreachable \<open>default\<close> branch), the parser, and the state of the
  callbacks.
\<close>

function (sequential) mp_loop ::
  "'s mp_cbs \<Rightarrow> bytes \<Rightarrow> nat \<Rightarrow> nat \<Rightarrow> multipart_parser \<Rightarrow> 's \<Rightarrow> nat \<times> multipart_parser \<times> 's" where
  "mp_loop cb buf i mark p s =
     (if i < length buf
      then (case mp_step cb buf i mark p s of
              Stop p' s' \<Rightarrow> (if mp_state p = s_uninitialized then 0 else i, p', s')
            | Next p' mark' s' \<Rightarrow> mp_loop cb buf (i + 1) mark' p' s'
            | Again p' mark' s' \<Rightarrow> mp_loop cb buf i mark' p' s')
      else (length buf, p, s))"
  by pat_completeness auto
termination
  by (relation "measure (\<lambda>(cb, buf, i, mark, p, s). 2 * (length buf - i) + (if mp_state p = s_part_data then 0 else 1))")
    (auto dest!: sym [where t = "mp_step _ _ _ _ _ _"] dest: mp_step_Again)

declare mp_loop.simps [simp del]

definition multipart_parser_execute ::
  "'s mp_cbs \<Rightarrow> multipart_parser \<Rightarrow> bytes \<Rightarrow> 's \<Rightarrow> nat \<times> multipart_parser \<times> 's" where
  "multipart_parser_execute cb p buf s = mp_loop cb buf 0 0 p s"

subsection \<open>The processor of a request\<close>

record mp_processor =
  part_headers :: "bytes \<rightharpoonup> bytes"
  last_name :: bytes

definition processor_init :: mp_processor where
  "processor_init = \<lparr>part_headers = Map.empty, last_name = []\<rparr>"

text \<open>The callbacks of \<^verbatim>\<open>MPartBodyProcessor\<close>, without their log lines; \<^verbatim>\<open>insert\<close> keeps a name that is there.\<close>

fun processor_cb :: "mp_processor mp_cbs" where
  "processor_cb E_Begin r = (RC_OK, r\<lparr>last_name := [], part_headers := Map.empty\<rparr>)"
| "processor_cb (E_Field x) r = (RC_OK, r\<lparr>last_name := x\<rparr>)"
| "processor_cb (E_Value x) r =
     (RC_OK, r\<lparr>part_headers := (case part_headers r (last_name r) of
        None \<Rightarrow> (part_headers r)(last_name r \<mapsto> x) | Some _ \<Rightarrow> part_headers r)\<rparr>)"
| "processor_cb E_Headers r = (RC_OK, r)"
| "processor_cb (E_Data x) r = (RC_OK, r)"
| "processor_cb E_Part_End r = (RC_OK, r\<lparr>part_headers := Map.empty\<rparr>)"
| "processor_cb E_Body_End r = (RC_OK, r)"

text \<open>A body that arrives in chunks, as \<^verbatim>\<open>OnMPartBody\<close> is called; the sum is \<^verbatim>\<open>mpart_body_ctx.parsed\<close>.\<close>

fun mp_chunks :: "'s mp_cbs \<Rightarrow> bytes list \<Rightarrow> nat \<times> multipart_parser \<times> 's \<Rightarrow> nat \<times> multipart_parser \<times> 's" where
  "mp_chunks cb [] st = st"
| "mp_chunks cb (x # xs) (n, p, s) =
     (case multipart_parser_execute cb p x s of (k, p', s') \<Rightarrow> mp_chunks cb xs (n + k, p', s'))"

subsection \<open>What a body means\<close>

text \<open>Events with adjacent pieces of the same kind put together.\<close>

fun jcons :: "mp_event \<Rightarrow> mp_event list \<Rightarrow> mp_event list" where
  "jcons (E_Field a) (E_Field b # es) = E_Field (a @ b) # es"
| "jcons (E_Value a) (E_Value b # es) = E_Value (a @ b) # es"
| "jcons (E_Data a) (E_Data b # es) = E_Data (a @ b) # es"
| "jcons e es = e # es"

definition joined :: "mp_event list \<Rightarrow> mp_event list" where
  "joined es = foldr jcons es []"

text \<open>A part: its headers and its content; and a body as a client writes it.\<close>

type_synonym part = "(bytes \<times> bytes) list \<times> bytes"

definition header_bytes :: "bytes \<times> bytes \<Rightarrow> bytes" where
  "header_bytes h = fst h @ [ch_colon, ch_space] @ snd h @ [CR, LF]"

definition part_bytes :: "bytes \<Rightarrow> part \<Rightarrow> bytes" where
  "part_bytes boundary q = concat (map header_bytes (fst q)) @ [CR, LF] @ snd q @ [CR, LF] @ boundary"

fun more_parts :: "bytes \<Rightarrow> part list \<Rightarrow> bytes" where
  "more_parts boundary [] = [ch_hyphen, ch_hyphen]"
| "more_parts boundary (q # qs) = [CR, LF] @ part_bytes boundary q @ more_parts boundary qs"

definition body_bytes :: "bytes \<Rightarrow> part list \<Rightarrow> bytes" where
  "body_bytes boundary qs = boundary @ more_parts boundary qs"

definition part_events :: "part \<Rightarrow> mp_event list" where
  "part_events q = E_Begin # concat (map (\<lambda>(n, v). [E_Field n, E_Value v]) (fst q)) @ [E_Headers, E_Data (snd q), E_Part_End]"

definition body_events :: "part list \<Rightarrow> mp_event list" where
  "body_events qs = concat (map part_events qs) @ [E_Body_End]"

definition good_header :: "bytes \<times> bytes \<Rightarrow> bool" where
  "good_header h \<longleftrightarrow> (\<forall>c \<in> set (fst h). name_char c) \<and> CR \<notin> set (snd h) \<and> (snd h \<noteq> [] \<longrightarrow> hd (snd h) \<noteq> ch_space)"

definition good_part :: "bytes \<Rightarrow> part \<Rightarrow> bool" where
  "good_part boundary q \<longleftrightarrow> (\<forall>h \<in> set (fst q). good_header h) \<and> \<not> sublist (CR # LF # boundary) (snd q)"

definition good_boundary :: "bytes \<Rightarrow> bool" where
  "good_boundary boundary \<longleftrightarrow> boundary \<noteq> [] \<and> CR \<notin> set boundary"

section \<open>One character at a time\<close>

text \<open>
  The parser without chunks: every character of a name, a value or a content is an event of its own. A
  header line without a colon has no meaning here; the code reports its bytes or not, depending on the chunks.
\<close>

definition field_tick :: "bool \<Rightarrow> multipart_parser \<Rightarrow> u8 \<Rightarrow> (multipart_parser \<times> mp_event list) option" where
  "field_tick first p c =
     (if c = CR then (if first then Some (p\<lparr>mp_state := s_headers_almost_done\<rparr>, []) else None)
      else if c = ch_colon then Some (p\<lparr>mp_state := s_header_value_start\<rparr>, [E_Field []])
      else if name_char c then Some (p\<lparr>mp_state := s_header_field\<rparr>, [E_Field [c]]) else None)"

definition value_tick :: "multipart_parser \<Rightarrow> u8 \<Rightarrow> multipart_parser \<times> mp_event list" where
  "value_tick p c =
     (if c = CR then (p\<lparr>mp_state := s_header_value_almost_done\<rparr>, [E_Value []])
      else (p\<lparr>mp_state := s_header_value\<rparr>, [E_Value [c]]))"

definition data_tick :: "multipart_parser \<Rightarrow> u8 \<Rightarrow> multipart_parser \<times> mp_event list" where
  "data_tick p c =
     (if c = CR then (p\<lparr>mp_state := s_part_data_almost_boundary, lookbehind := (lookbehind p)[0 := CR]\<rparr>, [E_Data []])
      else (p\<lparr>mp_state := s_part_data\<rparr>, [E_Data [c]]))"

definition start_tick :: "multipart_parser \<Rightarrow> u8 \<Rightarrow> (multipart_parser \<times> mp_event list) option" where
  "start_tick p c =
     (if mp_index p = boundary_length p
      then if c = CR then Some (p\<lparr>mp_index := mp_index p + 1, mp_state := s_start_boundary\<rparr>, []) else None
      else if mp_index p = boundary_length p + 1
      then if c = LF then Some (p\<lparr>mp_index := 0, mp_state := s_header_field_start\<rparr>, [E_Begin]) else None
      else if c = multipart_boundary p ! mp_index p
      then Some (p\<lparr>mp_index := mp_index p + 1, mp_state := s_start_boundary\<rparr>, []) else None)"

definition before :: "mp_event list \<Rightarrow> multipart_parser \<times> mp_event list \<Rightarrow> multipart_parser \<times> mp_event list" where
  "before es r = (fst r, es @ snd r)"

definition tick :: "multipart_parser \<Rightarrow> u8 \<Rightarrow> (multipart_parser \<times> mp_event list) option" where
  "tick p c =
     (case mp_state p of
        s_start \<Rightarrow> start_tick (p\<lparr>mp_index := 0\<rparr>) c
      | s_start_boundary \<Rightarrow> start_tick p c
      | s_header_field_start \<Rightarrow> field_tick True p c
      | s_header_field \<Rightarrow> field_tick False p c
      | s_headers_almost_done \<Rightarrow> if c = LF then Some (p\<lparr>mp_state := s_part_data_start\<rparr>, []) else None
      | s_header_value_start \<Rightarrow> if c = ch_space then Some (p, []) else Some (value_tick p c)
      | s_header_value \<Rightarrow> Some (value_tick p c)
      | s_header_value_almost_done \<Rightarrow> if c = LF then Some (p\<lparr>mp_state := s_header_field_start\<rparr>, []) else None
      | s_part_data_start \<Rightarrow> Some (before [E_Headers] (data_tick p c))
      | s_part_data \<Rightarrow> Some (data_tick p c)
      | s_part_data_almost_boundary \<Rightarrow>
          if c = LF then Some (p\<lparr>mp_state := s_part_data_boundary, lookbehind := (lookbehind p)[1 := LF], mp_index := 0\<rparr>, [])
          else Some (before [E_Data (take 1 (lookbehind p))] (data_tick p c))
      | s_part_data_boundary \<Rightarrow>
          if multipart_boundary p ! mp_index p \<noteq> c
          then Some (before [E_Data (take (2 + mp_index p) (lookbehind p))] (data_tick p c))
          else (let p1 = p\<lparr>lookbehind := (lookbehind p)[2 + mp_index p := c], mp_index := mp_index p + 1\<rparr> in
                if mp_index p1 = boundary_length p then Some (p1\<lparr>mp_state := s_part_data_almost_end\<rparr>, [E_Part_End])
                else Some (p1, []))
      | s_part_data_almost_end \<Rightarrow>
          if c = ch_hyphen then Some (p\<lparr>mp_state := s_part_data_final_hyphen\<rparr>, [])
          else if c = CR then Some (p\<lparr>mp_state := s_part_data_end\<rparr>, []) else None
      | s_part_data_final_hyphen \<Rightarrow> if c = ch_hyphen then Some (p\<lparr>mp_state := s_end\<rparr>, [E_Body_End]) else None
      | s_part_data_end \<Rightarrow> if c = LF then Some (p\<lparr>mp_state := s_header_field_start\<rparr>, [E_Begin]) else None
      | s_end \<Rightarrow> Some (p, [])
      | s_uninitialized \<Rightarrow> None)"

fun ticks :: "multipart_parser \<Rightarrow> bytes \<Rightarrow> (multipart_parser \<times> mp_event list) option" where
  "ticks p [] = Some (p, [])"
| "ticks p (c # cs) =
     (case tick p c of None \<Rightarrow> None
      | Some (p1, es) \<Rightarrow> (case ticks p1 cs of None \<Rightarrow> None | Some (p2, es2) \<Rightarrow> Some (p2, es @ es2)))"

section \<open>Chunks make no difference\<close>

text \<open>Event lists that are the same, whatever comes after them, once pieces are put together.\<close>

definition same :: "mp_event list \<Rightarrow> mp_event list \<Rightarrow> bool" where
  "same a b \<longleftrightarrow> foldr jcons a = foldr jcons b"

lemma jcons_assoc:
  "jcons (E_Field a) (jcons (E_Field b) x) = jcons (E_Field (a @ b)) x"
  "jcons (E_Value a) (jcons (E_Value b) x) = jcons (E_Value (a @ b)) x"
  "jcons (E_Data a) (jcons (E_Data b) x) = jcons (E_Data (a @ b)) x"
  by (cases x; cases "hd x"; simp)+

lemma same_refl [simp]: "same a a"
  by (simp add: same_def)

lemma same_append: "same a b \<Longrightarrow> same c d \<Longrightarrow> same (a @ c) (b @ d)"
  by (simp add: same_def fun_eq_iff)

lemma same_trans: "same a b \<Longrightarrow> same b c \<Longrightarrow> same a c"
  by (simp add: same_def)

lemma same_joined: "same a b \<Longrightarrow> joined a = joined b"
  by (simp add: same_def joined_def)

lemma same_pieces [simp]:
  "same (E_Field a # E_Field b # x) (E_Field (a @ b) # x)"
  "same (E_Value a # E_Value b # x) (E_Value (a @ b) # x)"
  "same (E_Data a # E_Data b # x) (E_Data (a @ b) # x)"
  by (simp_all add: same_def fun_eq_iff jcons_assoc)

lemma same_cut [simp]:
  "same (E_Field (a @ b) # x) (E_Field a # E_Field b # x)" "same (E_Field a # x) (E_Field a # E_Field [] # x)"
  "same (E_Value (a @ b) # x) (E_Value a # E_Value b # x)" "same (E_Value a # x) (E_Value a # E_Value [] # x)"
  "same (E_Data (a @ b) # x) (E_Data a # E_Data b # x)" "same (E_Data a # x) (E_Data a # E_Data [] # x)"
  by (simp_all add: same_def fun_eq_iff jcons_assoc)

text \<open>Callbacks that never stop the parser, as those of the processor.\<close>

definition never_stops :: "'s mp_cbs \<Rightarrow> bool" where
  "never_stops cb \<longleftrightarrow> (\<forall>e s. fst (cb e s) = 0)"

abbreviation run_cb :: "'s mp_cbs \<Rightarrow> mp_event list \<Rightarrow> 's \<Rightarrow> 's" where
  "run_cb cb es s \<equiv> fold (\<lambda>e s. snd (cb e s)) es s"

lemma emit_ok: "never_stops cb \<Longrightarrow> emit cb e p s k = k (snd (cb e s))"
  by (auto simp: emit_def never_stops_def split: prod.splits) (metis fst_conv)

text \<open>What was read and not yet reported.\<close>

definition pend :: "bytes \<Rightarrow> nat \<Rightarrow> nat \<Rightarrow> multipart_parser \<Rightarrow> mp_event list" where
  "pend buf mark i p =
     (let x = span_bytes buf mark i in
      if x = [] \<or> length buf \<le> i then []
      else case mp_state p of
        s_header_field \<Rightarrow> [E_Field x] | s_header_value \<Rightarrow> [E_Value x] | s_part_data \<Rightarrow> [E_Data x] | _ \<Rightarrow> [])"

lemma span_snoc: "mark \<le> i \<Longrightarrow> i < length buf \<Longrightarrow> span_bytes buf mark (i + 1) = span_bytes buf mark i @ [buf ! i]"
  by (simp add: span_bytes_def Suc_diff_le take_Suc_conv_app_nth)

lemma span_same [simp]: "span_bytes buf i i = []"
  by (simp add: span_bytes_def)

text \<open>One character in a chunk: the code goes on behind it, and has reported all but what is pending.\<close>

definition moves :: "'s mp_cbs \<Rightarrow> bytes \<Rightarrow> nat \<Rightarrow> multipart_parser \<Rightarrow> mp_event list \<Rightarrow> nat \<times> multipart_parser \<times> 's \<Rightarrow> 's \<Rightarrow> bool" where
  "moves cb buf i p1 es out s \<longleftrightarrow>
     (\<exists>seen mark1. out = mp_loop cb buf (i + 1) mark1 p1 (run_cb cb seen s) \<and> mark1 \<le> i + 1 \<and>
        same (seen @ pend buf mark1 (i + 1) p1) es)"

lemma movesI:
  "out = mp_loop cb buf (i + 1) mark1 p1 (run_cb cb seen s) \<Longrightarrow> mark1 \<le> i + 1 \<Longrightarrow>
   same (seen @ pend buf mark1 (i + 1) p1) es \<Longrightarrow> moves cb buf i p1 es out s"
  unfolding moves_def by blast

lemma moves_quiet:
  "out = mp_loop cb buf (i + 1) mark p1 (run_cb cb es s) \<Longrightarrow> mark \<le> i + 1 \<Longrightarrow>
   mp_state p1 \<notin> {s_header_field, s_header_value, s_part_data} \<Longrightarrow> moves cb buf i p1 es out s"
  by (rule movesI [of _ _ _ _ mark _ es]) (auto simp: pend_def Let_def split: mp_state.splits)

lemma moves_before:
  assumes "moves cb buf i p1 es out (run_cb cb a s)"
  shows "moves cb buf i p1 (a @ es) out s"
proof -
  from assms obtain seen mark1 where
    "out = mp_loop cb buf (i + 1) mark1 p1 (run_cb cb seen (run_cb cb a s))" "mark1 \<le> i + 1"
    "same (seen @ pend buf mark1 (i + 1) p1) es" by (auto simp: moves_def)
  then show ?thesis by (intro movesI [of _ _ _ _ mark1 _ "a @ seen"]) (auto intro: same_append)
qed

lemma moves_before1: "moves cb buf i p1 es out (snd (cb e s)) \<Longrightarrow> moves cb buf i p1 (e # es) out s"
  using moves_before [of cb buf i p1 es out "[e]" s] by simp

lemma mp_loop_next:
  "i < length buf \<Longrightarrow> mp_step cb buf i mark p s = Next p' mark' s' \<Longrightarrow>
   mp_loop cb buf i mark p s = mp_loop cb buf (i + 1) mark' p' s'"
  by (subst mp_loop.simps) simp

lemma mp_loop_again:
  "i < length buf \<Longrightarrow> mp_step cb buf i mark p s = Again p' mark' s' \<Longrightarrow>
   mp_loop cb buf i mark p s = mp_loop cb buf i mark' p' s'"
  by (subst mp_loop.simps) simp

lemma same_state: "mp_state p = st \<Longrightarrow> p\<lparr>mp_state := st\<rparr> = p"
  by simp

text \<open>What the three readers of bytes do with a character.\<close>

definition steps_to :: "'s mp_cbs \<Rightarrow> bytes \<Rightarrow> nat \<Rightarrow> 's mp_next \<Rightarrow> multipart_parser \<times> mp_event list \<Rightarrow> mp_event list \<Rightarrow> 's \<Rightarrow> bool" where
  "steps_to cb buf i nx r old s \<longleftrightarrow>
     (\<exists>mark1 seen. nx = Next (fst r) mark1 (run_cb cb seen s) \<and> mark1 \<le> i + 1 \<and>
        same (seen @ pend buf mark1 (i + 1) (fst r)) (old @ snd r))"

lemma steps_toI:
  "nx = Next (fst r) mark1 (run_cb cb seen s) \<Longrightarrow> mark1 \<le> i + 1 \<Longrightarrow>
   same (seen @ pend buf mark1 (i + 1) (fst r)) (old @ snd r) \<Longrightarrow> steps_to cb buf i nx r old s"
  unfolding steps_to_def by blast

lemma steps_moves:
  assumes "steps_to cb buf i (mp_step cb buf i mark p s) r old s" "i < length buf"
  shows "moves cb buf i (fst r) (old @ snd r) (mp_loop cb buf i mark p s) s"
  using assms unfolding steps_to_def by (auto intro: movesI simp: mp_loop_next)

lemma is_last_iff: "i < length buf \<Longrightarrow> i = length buf - 1 \<longleftrightarrow> length buf \<le> i + 1"
  by linarith

lemma data_step_next:
  assumes "never_stops cb" "i < length buf" "mark \<le> i" "mp_state p = s_part_data"
  shows "steps_to cb buf i (data_step cb buf i mark p s) (data_tick p (buf ! i)) (pend buf mark i p) s"
proof (cases "buf ! i = CR")
  case True
  then show ?thesis using assms
    by (intro steps_toI [of _ _ i _ "[E_Data (span_bytes buf mark i)]"])
      (auto simp: data_step_def data_tick_def emit_ok pend_def Let_def)
next
  case False
  show ?thesis
  proof (cases "length buf \<le> i + 1")
    case True
    with False show ?thesis using assms
      by (intro steps_toI [of _ _ mark _ "[E_Data (span_bytes buf mark (i + 1))]"])
        (auto simp: data_step_def data_tick_def emit_ok pend_def Let_def is_last_iff span_snoc [simplified] same_state)
  next
    case more: False
    with False show ?thesis using assms
      by (intro steps_toI [of _ _ mark _ "[]"])
        (auto simp: data_step_def data_tick_def pend_def Let_def is_last_iff span_snoc [simplified] same_state)
  qed
qed

lemma value_step_next:
  assumes "never_stops cb" "i < length buf" "mark \<le> i" "mp_state p = s_header_value"
  shows "steps_to cb buf i (value_step cb buf i mark p s) (value_tick p (buf ! i)) (pend buf mark i p) s"
proof (cases "buf ! i = CR")
  case True
  then show ?thesis using assms
    by (intro steps_toI [of _ _ mark _ "[E_Value (span_bytes buf mark i)]"])
      (auto simp: value_step_def value_tick_def emit_ok pend_def Let_def)
next
  case False
  show ?thesis
  proof (cases "length buf \<le> i + 1")
    case True
    with False show ?thesis using assms
      by (intro steps_toI [of _ _ mark _ "[E_Value (span_bytes buf mark (i + 1))]"])
        (auto simp: value_step_def value_tick_def emit_ok pend_def Let_def is_last_iff span_snoc [simplified] same_state)
  next
    case more: False
    with False show ?thesis using assms
      by (intro steps_toI [of _ _ mark _ "[]"])
        (auto simp: value_step_def value_tick_def pend_def Let_def is_last_iff span_snoc [simplified] same_state)
  qed
qed

lemma field_step_next:
  assumes "never_stops cb" "i < length buf" "mark \<le> i" "mp_state p = s_header_field"
    and "field_tick False p (buf ! i) = Some r"
  shows "steps_to cb buf i (field_step cb buf i mark p s) r (pend buf mark i p) s"
proof (cases "buf ! i = ch_colon")
  case True
  then show ?thesis using assms
    by (intro steps_toI [of _ _ mark _ "[E_Field (span_bytes buf mark i)]"])
      (auto simp: field_step_def field_tick_def emit_ok pend_def Let_def)
next
  case False
  with assms(5) have c: "buf ! i \<noteq> CR" "name_char (buf ! i)" "r = (p\<lparr>mp_state := s_header_field\<rparr>, [E_Field [buf ! i]])"
    by (auto simp: field_tick_def split: if_splits)
  show ?thesis
  proof (cases "length buf \<le> i + 1")
    case True
    with False c show ?thesis using assms
      by (intro steps_toI [of _ _ mark _ "[E_Field (span_bytes buf mark (i + 1))]"])
        (auto simp: field_step_def emit_ok pend_def Let_def is_last_iff span_snoc [simplified] same_state)
  next
    case more: False
    with False c show ?thesis using assms
      by (intro steps_toI [of _ _ mark _ "[]"])
        (auto simp: field_step_def pend_def Let_def is_last_iff span_snoc [simplified] same_state)
  qed
qed

lemma tick_state:
  "data_tick (p\<lparr>mp_state := st\<rparr>) c = data_tick p c" "value_tick (p\<lparr>mp_state := st\<rparr>) c = value_tick p c"
  "field_tick b (p\<lparr>mp_state := st\<rparr>) c = field_tick b p c" "start_tick (p\<lparr>mp_state := st\<rparr>) c = start_tick p c"
  by (simp_all add: data_tick_def value_tick_def field_tick_def start_tick_def)

lemma start_step_next:
  assumes "never_stops cb" "i < length buf" "mark \<le> i" "start_tick p (buf ! i) = Some (p1, es)" "mp_state p = s_start_boundary"
  shows "start_boundary_step cb buf i mark p s = Next p1 mark (run_cb cb es s) \<and> mp_state p1 \<in> {s_start_boundary, s_header_field_start}"
  using assms by (auto simp: start_tick_def start_boundary_step_def emit_ok Let_def split: if_splits)

text \<open>Every character that has a meaning moves the code by one position.\<close>

lemma tick_moves:
  assumes ns: "never_stops cb" and i: "i < length buf" "mark \<le> i" and t: "tick p (buf ! i) = Some (p1, es)"
  shows "moves cb buf i p1 (pend buf mark i p @ es) (mp_loop cb buf i mark p s) s"
proof -
  have quiet: ?thesis if "mp_step cb buf i mark p s = Next p1 m (run_cb cb es s)" "m \<le> i + 1"
    "mp_state p \<notin> {s_header_field, s_header_value, s_part_data}" "mp_state p1 \<notin> {s_header_field, s_header_value, s_part_data}" for m
  proof -
    have "pend buf mark i p = []" using that(3) by (auto simp: pend_def Let_def split: mp_state.splits)
    with that show ?thesis by (intro moves_quiet [of _ _ _ _ m]) (simp_all add: mp_loop_next [OF i(1)])
  qed
  have data: "moves cb buf i (fst (data_tick p (buf ! i))) (snd (data_tick p (buf ! i)))
      (mp_loop cb buf i i (p\<lparr>mp_state := s_part_data\<rparr>) s') s'" for s'
  proof -
    have "pend buf i i (p\<lparr>mp_state := s_part_data\<rparr>) = []" by (simp add: pend_def)
    moreover have "mp_step cb buf i i (p\<lparr>mp_state := s_part_data\<rparr>) s' = data_step cb buf i i (p\<lparr>mp_state := s_part_data\<rparr>) s'"
      by (simp add: mp_step_def)
    ultimately show ?thesis
      using steps_moves [of cb buf i i "p\<lparr>mp_state := s_part_data\<rparr>" s' "data_tick p (buf ! i)" "[]"] i(1)
        data_step_next [OF ns i(1) le_refl, of "p\<lparr>mp_state := s_part_data\<rparr>" s'] by (simp add: tick_state)
  qed
  show ?thesis
  proof (cases "mp_state p")
    case s_start
    then have "start_tick (p\<lparr>mp_index := 0, mp_state := s_start_boundary\<rparr>) (buf ! i) = Some (p1, es)"
      using t by (simp only: tick_def tick_state mp_state.case)
    from start_step_next [OF ns i this, of s] s_start i show ?thesis
      by (intro quiet [of mark]) (auto simp: mp_step_def)
  next
    case s_start_boundary
    then have "start_tick p (buf ! i) = Some (p1, es)" using t by (simp add: tick_def)
    from start_step_next [OF ns i this s_start_boundary, of s] s_start_boundary i show ?thesis
      by (intro quiet [of mark]) (auto simp: mp_step_def)
  next
    case s_header_field
    with t have "field_tick False p (buf ! i) = Some (p1, es)" by (simp add: tick_def)
    from field_step_next [OF ns i s_header_field this, of s] s_header_field show ?thesis
      using steps_moves [of cb buf i mark p s "(p1, es)" "pend buf mark i p"] i by (simp add: mp_step_def)
  next
    case s_header_value
    with t have "value_tick p (buf ! i) = (p1, es)" by (simp add: tick_def)
    with value_step_next [OF ns i s_header_value, of s] s_header_value show ?thesis
      using steps_moves [of cb buf i mark p s "(p1, es)" "pend buf mark i p"] i by (simp add: mp_step_def)
  next
    case s_part_data
    with t have "data_tick p (buf ! i) = (p1, es)" by (simp add: tick_def)
    with data_step_next [OF ns i s_part_data, of s] s_part_data show ?thesis
      using steps_moves [of cb buf i mark p s "(p1, es)" "pend buf mark i p"] i by (simp add: mp_step_def)
  next
    case s_headers_almost_done
    with t i show ?thesis by (intro quiet [of mark]) (auto simp: tick_def mp_step_def split: if_splits)
  next
    case s_header_value_almost_done
    with t i show ?thesis by (intro quiet [of mark]) (auto simp: tick_def mp_step_def split: if_splits)
  next
    case s_part_data_almost_end
    with t i show ?thesis by (intro quiet [of mark]) (auto simp: tick_def mp_step_def split: if_splits)
  next
    case s_part_data_end
    with t i ns show ?thesis by (intro quiet [of mark]) (auto simp: tick_def mp_step_def emit_ok split: if_splits)
  next
    case s_part_data_final_hyphen
    with t i ns show ?thesis by (intro quiet [of mark]) (auto simp: tick_def mp_step_def emit_ok split: if_splits)
  next
    case s_end
    with t i show ?thesis by (intro quiet [of mark]) (auto simp: tick_def mp_step_def)
  next
    case s_uninitialized
    with t show ?thesis by (simp add: tick_def)
  next
    case s_header_field_start
    have none: "pend buf mark i p = []" "pend buf i i (p\<lparr>mp_state := s_header_field\<rparr>) = []"
      using s_header_field_start by (simp_all add: pend_def Let_def)
    have step: "mp_step cb buf i mark p s = field_step cb buf i i (p\<lparr>mp_state := s_header_field\<rparr>) s"
      using s_header_field_start by (simp add: mp_step_def)
    show ?thesis
    proof (cases "buf ! i = CR")
      case True
      then have "p1 = p\<lparr>mp_state := s_headers_almost_done\<rparr>" "es = []"
        using t s_header_field_start by (auto simp: tick_def field_tick_def)
      with True step s_header_field_start show ?thesis by (intro quiet [of i]) (auto simp: field_step_def)
    next
      case False
      then have "field_tick False (p\<lparr>mp_state := s_header_field\<rparr>) (buf ! i) = Some (p1, es)"
        using t s_header_field_start by (simp add: tick_def field_tick_def split: if_splits)
      from field_step_next [OF ns i(1) le_refl _ this, of s] none show ?thesis
        using steps_moves [of cb buf i mark p s "(p1, es)" "[]"] i step by simp
    qed
  next
    case s_header_value_start
    show ?thesis
    proof (cases "buf ! i = ch_space")
      case True
      with t i s_header_value_start show ?thesis by (intro quiet [of mark]) (auto simp: tick_def mp_step_def)
    next
      case False
      have none: "pend buf mark i p = []" "pend buf i i (p\<lparr>mp_state := s_header_value\<rparr>) = []"
        using s_header_value_start by (simp_all add: pend_def Let_def)
      have "mp_step cb buf i mark p s = value_step cb buf i i (p\<lparr>mp_state := s_header_value\<rparr>) s"
        "value_tick (p\<lparr>mp_state := s_header_value\<rparr>) (buf ! i) = (p1, es)"
        using False s_header_value_start t by (simp_all add: mp_step_def tick_def tick_state)
      with value_step_next [OF ns i(1) le_refl, of "p\<lparr>mp_state := s_header_value\<rparr>" s] none show ?thesis
        using steps_moves [of cb buf i mark p s "(p1, es)" "[]"] i by simp
    qed
  next
    case s_part_data_start
    have none: "pend buf mark i p = []" using s_part_data_start by (simp add: pend_def Let_def)
    let ?s = "run_cb cb [E_Headers] s"
    have "mp_step cb buf i mark p s = mp_step cb buf i i (p\<lparr>mp_state := s_part_data\<rparr>) ?s"
      using s_part_data_start ns by (simp add: mp_step_def emit_ok)
    then have "mp_loop cb buf i mark p s = mp_loop cb buf i i (p\<lparr>mp_state := s_part_data\<rparr>) ?s"
      using i(1) s_part_data_start by (subst (1 2) mp_loop.simps) (simp split: mp_next.splits)
    then have "moves cb buf i p1 es (mp_loop cb buf i mark p s) s"
      using data [of ?s] t s_part_data_start by (auto simp: tick_def before_def intro: moves_before1)
    with none show ?thesis by simp
  next
    case s_part_data_almost_boundary
    have none: "pend buf mark i p = []" using s_part_data_almost_boundary by (simp add: pend_def Let_def)
    show ?thesis
    proof (cases "buf ! i = LF")
      case True
      with t i s_part_data_almost_boundary show ?thesis
        by (intro quiet [of mark]) (auto simp: tick_def mp_step_def)
    next
      case False
      let ?s = "run_cb cb [E_Data (take 1 (lookbehind p))] s"
      have "mp_step cb buf i mark p s = Again (p\<lparr>mp_state := s_part_data\<rparr>) i ?s"
        using s_part_data_almost_boundary False ns by (simp add: mp_step_def emit_ok)
      from mp_loop_again [OF i(1) this] have "moves cb buf i p1 es (mp_loop cb buf i mark p s) s"
        using data [of ?s] t s_part_data_almost_boundary False by (auto simp: tick_def before_def intro: moves_before1)
      with none show ?thesis by simp
    qed
  next
    case s_part_data_boundary
    have none: "pend buf mark i p = []" using s_part_data_boundary by (simp add: pend_def Let_def)
    show ?thesis
    proof (cases "multipart_boundary p ! mp_index p = buf ! i")
      case True
      with t i ns s_part_data_boundary show ?thesis
        by (intro quiet [of mark]) (auto simp: tick_def mp_step_def emit_ok Let_def split: if_splits)
    next
      case False
      let ?s = "run_cb cb [E_Data (take (2 + mp_index p) (lookbehind p))] s"
      have "mp_step cb buf i mark p s = Again (p\<lparr>mp_state := s_part_data\<rparr>) i ?s"
        using s_part_data_boundary False ns by (simp add: mp_step_def emit_ok)
      from mp_loop_again [OF i(1) this] have "moves cb buf i p1 es (mp_loop cb buf i mark p s) s"
        using data [of ?s] t s_part_data_boundary False by (auto simp: tick_def before_def intro: moves_before1)
      with none show ?thesis by simp
    qed
  qed
qed

lemma mp_loop_ticks:
  assumes ns: "never_stops cb"
  shows "ticks p (drop i buf) = Some (p2, es) \<Longrightarrow> mark \<le> i \<Longrightarrow> i \<le> length buf \<Longrightarrow>
    \<exists>seen. mp_loop cb buf i mark p s = (length buf, p2, run_cb cb seen s) \<and> same seen (pend buf mark i p @ es)"
proof (induction "length buf - i" arbitrary: i mark p es s)
  case 0
  then have "mp_loop cb buf i mark p s = (length buf, p2, run_cb cb [] s)" "pend buf mark i p @ es = []"
    by (auto simp: mp_loop.simps pend_def)
  then show ?case by (metis same_refl)
next
  case (Suc k)
  then have i: "i < length buf" by simp
  with Suc.prems(1) obtain p1 es1 es2 where t: "tick p (buf ! i) = Some (p1, es1)"
    "ticks p1 (drop (i + 1) buf) = Some (p2, es2)" "es = es1 @ es2"
    by (auto simp: Cons_nth_drop_Suc [symmetric] split: option.splits)
  from tick_moves [OF ns i Suc.prems(2) t(1), of s] obtain seen1 mark1 where m: "mark1 \<le> i + 1"
    "mp_loop cb buf i mark p s = mp_loop cb buf (i + 1) mark1 p1 (run_cb cb seen1 s)"
    "same (seen1 @ pend buf mark1 (i + 1) p1) (pend buf mark i p @ es1)"
    unfolding moves_def by blast
  have "k = length buf - (i + 1)" "i + 1 \<le> length buf" using Suc.hyps(2) i by auto
  from Suc.hyps(1) [OF this(1) t(2) m(1) this(2)] obtain seen2 where
    "mp_loop cb buf (i + 1) mark1 p1 (run_cb cb seen1 s) = (length buf, p2, run_cb cb seen2 (run_cb cb seen1 s))"
    "same seen2 (pend buf mark1 (i + 1) p1 @ es2)" by blast
  moreover from this(2) m(3) have "same (seen1 @ seen2) (pend buf mark i p @ es)"
    using same_append [OF same_refl, of seen2 _ seen1] same_append [OF m(3) same_refl, of es2] t(3)
    by (metis append_assoc same_trans)
  ultimately show ?case using m(2) by (intro exI [of _ "seen1 @ seen2"]) simp
qed

lemma ticks_append:
  "ticks p (xs @ ys) = (case ticks p xs of None \<Rightarrow> None
     | Some (p1, es) \<Rightarrow> (case ticks p1 ys of None \<Rightarrow> None | Some (p2, fs) \<Rightarrow> Some (p2, es @ fs)))"
  by (induction xs arbitrary: p) (auto split: option.splits)

lemma mp_chunks_ticks:
  assumes ns: "never_stops cb"
  shows "ticks p (concat xs) = Some (p2, es) \<Longrightarrow>
    \<exists>seen. mp_chunks cb xs (n, p, s) = (n + length (concat xs), p2, run_cb cb seen s) \<and> same seen es"
proof (induction xs arbitrary: n p s es)
  case Nil
  then show ?case by (auto intro: exI [of _ "[]"])
next
  case (Cons x xs)
  then obtain p1 es1 es2 where t: "ticks p x = Some (p1, es1)" "ticks p1 (concat xs) = Some (p2, es2)" "es = es1 @ es2"
    by (auto simp: ticks_append split: option.splits)
  from mp_loop_ticks [OF ns, of p 0 x p1 es1 0 s] t(1) obtain seen1 where
    1: "mp_loop cb x 0 0 p s = (length x, p1, run_cb cb seen1 s)" "same seen1 es1" by (auto simp: pend_def)
  from Cons.IH [OF t(2)] obtain seen2 where
    2: "mp_chunks cb xs (n + length x, p1, run_cb cb seen1 s) =
      (n + length x + length (concat xs), p2, run_cb cb seen2 (run_cb cb seen1 s))" "same seen2 es2" by blast
  with 1 t(3) show ?case
    by (intro exI [of _ "seen1 @ seen2"]) (simp add: multipart_parser_execute_def same_append)
qed

section \<open>A body is read as it was written\<close>

definition reaches :: "multipart_parser \<Rightarrow> bytes \<Rightarrow> multipart_parser \<Rightarrow> mp_event list \<Rightarrow> bool" where
  "reaches p xs q es \<longleftrightarrow> (\<exists>fs. ticks p xs = Some (q, fs) \<and> same fs es)"

lemma reaches_Nil [simp]: "reaches p [] p []"
  by (simp add: reaches_def)

lemma reaches_append: "reaches p xs q es \<Longrightarrow> reaches q ys r fs \<Longrightarrow> reaches p (xs @ ys) r (es @ fs)"
  by (auto simp: reaches_def ticks_append intro: same_append)

lemma reaches_Cons: "tick p c = Some (q, es) \<Longrightarrow> reaches q ys r fs \<Longrightarrow> reaches p (c # ys) r (es @ fs)"
  by (auto simp: reaches_def intro: same_append [OF same_refl])

lemma reaches_same: "reaches p xs q es \<Longrightarrow> same es fs \<Longrightarrow> reaches p xs q fs"
  unfolding reaches_def by (blast intro: same_trans)

lemma reaches_one: "tick p c = Some (q, es) \<Longrightarrow> reaches p [c] q es"
  using reaches_Cons [OF _ reaches_Nil] by fastforce

definition wf_mp :: "bytes \<Rightarrow> multipart_parser \<Rightarrow> bool" where
  "wf_mp b p \<longleftrightarrow> boundary_length p = length b \<and> multipart_boundary p = b \<and> length (lookbehind p) = length b + 9"

lemma wf_mp_upd [simp]:
  "wf_mp b (p\<lparr>mp_state := st\<rparr>) = wf_mp b p" "wf_mp b (p\<lparr>mp_index := k\<rparr>) = wf_mp b p"
  "wf_mp b (p\<lparr>mp_state := st, lookbehind := (lookbehind p)[j := c]\<rparr>) = wf_mp b p"
  by (simp_all add: wf_mp_def)

lemma reach_first_boundary:
  assumes "wf_mp b p" "k \<le> length b"
    and "mp_state p = s_start_boundary \<and> mp_index p = k \<or> mp_state p = s_start \<and> k = 0"
  shows "\<exists>q. reaches p (drop k b @ [CR, LF]) q [E_Begin] \<and> wf_mp b q \<and> mp_state q = s_header_field_start"
  using assms
proof (induction "length b - k" arbitrary: k p)
  case 0
  let ?q = "p\<lparr>mp_index := length b + 1, mp_state := s_start_boundary\<rparr>"
  have "tick p CR = Some (?q, [])" "tick ?q LF = Some (?q\<lparr>mp_index := 0, mp_state := s_header_field_start\<rparr>, [E_Begin])"
    using 0 by (auto simp: tick_def start_tick_def wf_mp_def)
  from reaches_Cons [OF this(1) reaches_one [OF this(2)]] 0 show ?case
    by (intro exI [of _ "?q\<lparr>mp_index := 0, mp_state := s_header_field_start\<rparr>"]) simp
next
  case (Suc n)
  then have k: "k < length b" by simp
  let ?q = "p\<lparr>mp_index := k + 1, mp_state := s_start_boundary\<rparr>"
  have "tick p (b ! k) = Some (?q, [])"
    using Suc.prems k by (auto simp: tick_def start_tick_def wf_mp_def)
  moreover obtain q where "reaches ?q (drop (k + 1) b @ [CR, LF]) q [E_Begin]" "wf_mp b q" "mp_state q = s_header_field_start"
  proof -
    have "n = length b - (k + 1)" using Suc.hyps(2) by simp
    from Suc.hyps(1) [OF this, of ?q] Suc.prems k that show ?thesis by auto
  qed
  ultimately show ?case using reaches_Cons k by (fastforce simp: Cons_nth_drop_Suc [symmetric])
qed

lemma reach_name:
  assumes "mp_state p \<in> {s_header_field_start, s_header_field}" "\<forall>c \<in> set n. name_char c"
  shows "reaches p (n @ [ch_colon]) (p\<lparr>mp_state := s_header_value_start\<rparr>) [E_Field n]"
  using assms
proof (induction n arbitrary: p)
  case Nil
  then show ?case by (auto intro!: reaches_one simp: tick_def field_tick_def)
next
  case (Cons c n)
  let ?q = "p\<lparr>mp_state := s_header_field\<rparr>"
  have c: "name_char c" "c \<noteq> CR" "c \<noteq> ch_colon" using Cons.prems(2) by (auto simp: name_char_def)
  then have "tick p c = Some (?q, [E_Field [c]])" using Cons.prems(1) by (auto simp: tick_def field_tick_def)
  moreover have "reaches ?q (n @ [ch_colon]) (p\<lparr>mp_state := s_header_value_start\<rparr>) [E_Field n]"
    using Cons.IH [of ?q] Cons.prems(2) by simp
  ultimately have "reaches p (c # n @ [ch_colon]) (p\<lparr>mp_state := s_header_value_start\<rparr>) ([E_Field [c]] @ [E_Field n])"
    by (rule reaches_Cons)
  from reaches_same [OF this, of "[E_Field (c # n)]"] same_pieces(1) [of "[c]" n "[]"] show ?case by simp
qed

lemma reach_value:
  assumes "mp_state p = s_header_value \<or> mp_state p = s_header_value_start \<and> (v \<noteq> [] \<longrightarrow> hd v \<noteq> ch_space)" "CR \<notin> set v"
  shows "reaches p (v @ [CR]) (p\<lparr>mp_state := s_header_value_almost_done\<rparr>) [E_Value v]"
  using assms
proof (induction v arbitrary: p)
  case Nil
  then show ?case by (auto intro!: reaches_one simp: tick_def value_tick_def)
next
  case (Cons c v)
  let ?q = "p\<lparr>mp_state := s_header_value\<rparr>"
  have "tick p c = Some (?q, [E_Value [c]])" using Cons.prems by (auto simp: tick_def value_tick_def)
  moreover have "reaches ?q (v @ [CR]) (p\<lparr>mp_state := s_header_value_almost_done\<rparr>) [E_Value v]"
    using Cons.IH [of ?q] Cons.prems(2) by simp
  ultimately have "reaches p (c # v @ [CR]) (p\<lparr>mp_state := s_header_value_almost_done\<rparr>) ([E_Value [c]] @ [E_Value v])"
    by (rule reaches_Cons)
  from reaches_same [OF this, of "[E_Value (c # v)]"] same_pieces(2) [of "[c]" v "[]"] show ?case by simp
qed

lemma reach_header:
  assumes "mp_state p = s_header_field_start" "good_header h"
  shows "reaches p (header_bytes h) p [E_Field (fst h), E_Value (snd h)]"
proof -
  let ?v = "p\<lparr>mp_state := s_header_value_start\<rparr>" and ?a = "p\<lparr>mp_state := s_header_value_almost_done\<rparr>"
  have "reaches p (fst h @ [ch_colon]) ?v [E_Field (fst h)]"
    using assms by (intro reach_name) (auto simp: good_header_def)
  moreover have "reaches ?v [ch_space] ?v []" by (rule reaches_one) (simp add: tick_def)
  moreover have "reaches ?v (snd h @ [CR]) ?a [E_Value (snd h)]"
    using assms reach_value [of ?v "snd h"] by (auto simp: good_header_def)
  moreover have "reaches ?a [LF] p []" using assms(1) by (intro reaches_one) (simp add: tick_def same_state)
  ultimately have "reaches p ((((fst h @ [ch_colon]) @ [ch_space]) @ (snd h @ [CR])) @ [LF]) p
      ((([E_Field (fst h)] @ []) @ [E_Value (snd h)]) @ [])"
    by (intro reaches_append)
  then show ?thesis by (simp add: header_bytes_def)
qed

lemma reach_headers:
  assumes "mp_state p = s_header_field_start" "\<forall>h \<in> set hs. good_header h"
  shows "reaches p (concat (map header_bytes hs)) p (concat (map (\<lambda>(n, v). [E_Field n, E_Value v]) hs))"
  using assms(2)
proof (induction hs)
  case (Cons h hs)
  then show ?case using reaches_append [OF reach_header [OF assms(1), of h]] by (cases h) auto
qed simp

text \<open>Within a content: what of a delimiter has been read.\<close>

definition holds_back :: "bytes \<Rightarrow> multipart_parser \<Rightarrow> bytes \<Rightarrow> bool" where
  "holds_back b p h \<longleftrightarrow> wf_mp b p \<and>
     (mp_state p = s_part_data \<and> h = [] \<or>
      mp_state p = s_part_data_almost_boundary \<and> h = [CR] \<and> take 1 (lookbehind p) = h \<or>
      mp_state p = s_part_data_boundary \<and> mp_index p < length b \<and> h = CR # LF # take (mp_index p) b \<and>
        take (2 + mp_index p) (lookbehind p) = h)"

lemma take_update: "n < length xs \<Longrightarrow> take (Suc n) (xs[n := c]) = take n xs @ [c]"
  by (simp add: take_Suc_conv_app_nth)

lemma look_first: "wf_mp b p \<Longrightarrow> take (Suc 0) ((lookbehind p)[0 := c]) = [c]"
  by (cases "lookbehind p") (auto simp: wf_mp_def)

lemma prefix_nth: "prefix (take k b @ [c]) b \<Longrightarrow> k < length b \<Longrightarrow> b ! k = c"
proof -
  assume "prefix (take k b @ [c]) b" "k < length b"
  then obtain zs where "b = take k b @ c # zs" by (auto simp: prefix_def)
  moreover from \<open>k < length b\<close> have "(take k b @ c # zs) ! k = c" by (simp add: nth_append)
  ultimately show "b ! k = c" by metis
qed

lemma flush_tick:
  assumes "holds_back b p h" "\<not> prefix (h @ [c]) (CR # LF # b)"
  shows "\<exists>q fs. tick p c = Some (q, fs) \<and> holds_back b q (if c = CR then [CR] else []) \<and>
    same fs (if c = CR then [E_Data h] else [E_Data (h @ [c])])"
proof -
  have hb: "holds_back b (fst (data_tick p c)) (if c = CR then [CR] else [])"
    using assms(1) by (auto simp: holds_back_def data_tick_def look_first)
  have sm: "same [E_Data h, E_Data []] [E_Data h]" "same [E_Data h, E_Data [c]] [E_Data (h @ [c])]"
    using same_pieces(3) [of h "[]" "[]"] by simp_all
  consider "mp_state p = s_part_data" "h = []"
    | "mp_state p = s_part_data_almost_boundary" "h = [CR]" "take 1 (lookbehind p) = h"
    | "mp_state p = s_part_data_boundary" "mp_index p < length b" "h = CR # LF # take (mp_index p) b"
      "take (2 + mp_index p) (lookbehind p) = h" "multipart_boundary p = b"
    using assms(1) by (auto simp: holds_back_def wf_mp_def)
  then show ?thesis
  proof cases
    case 1
    then show ?thesis using hb by (auto simp: tick_def data_tick_def)
  next
    case 2
    then have "c \<noteq> LF" using assms(2) by auto
    with 2 hb sm show ?thesis by (auto simp: tick_def before_def data_tick_def)
  next
    case 3
    then have "b ! mp_index p \<noteq> c"
      using assms(2) take_is_prefix [of "Suc (mp_index p)" b] by (auto simp: take_Suc_conv_app_nth)
    with 3 hb sm show ?thesis by (auto simp: tick_def before_def data_tick_def)
  qed
qed

lemma hold_tick:
  assumes "holds_back b p h" "prefix (h @ [c]) (CR # LF # b)" "h @ [c] \<noteq> CR # LF # b" "b \<noteq> []"
  shows "\<exists>q fs. tick p c = Some (q, fs) \<and> holds_back b q (h @ [c]) \<and> same fs (if h = [] then [E_Data []] else [])"
proof -
  consider "mp_state p = s_part_data" "h = []"
    | "mp_state p = s_part_data_almost_boundary" "h = [CR]" "take 1 (lookbehind p) = h"
    | "mp_state p = s_part_data_boundary" "mp_index p < length b" "h = CR # LF # take (mp_index p) b"
      "take (2 + mp_index p) (lookbehind p) = h"
    using assms(1) by (auto simp: holds_back_def)
  then show ?thesis
  proof cases
    case 1
    with assms(1,2) show ?thesis by (auto simp: holds_back_def tick_def data_tick_def look_first)
  next
    case 2
    have "take (Suc 1) ((lookbehind p)[1 := LF]) = [CR, LF]"
      using 2 assms(1) by (subst take_update) (auto simp: holds_back_def wf_mp_def)
    with 2 assms show ?thesis by (auto simp: holds_back_def tick_def wf_mp_def numeral_2_eq_2)
  next
    case 3
    let ?k = "mp_index p"
    have "prefix (take ?k b @ [c]) b" using assms(2) 3 by simp
    then have c: "b ! ?k = c" using 3(2) by (rule prefix_nth)
    then have "take (Suc ?k) b \<noteq> b" using assms(3) 3 by (auto simp: take_Suc_conv_app_nth)
    then have "Suc ?k < length b" using 3(2) by (metis Suc_lessI take_all order_refl)
    moreover have "take (Suc (2 + ?k)) ((lookbehind p)[2 + ?k := c]) = h @ [c]"
      using 3 assms(1) by (subst take_update) (auto simp: holds_back_def wf_mp_def)
    ultimately show ?thesis using 3 c assms(1)
      by (auto simp: holds_back_def tick_def wf_mp_def Let_def take_Suc_conv_app_nth)
  qed
qed

lemma full_tick:
  assumes "holds_back b p h" "h @ [c] = CR # LF # b" "b \<noteq> []"
  shows "\<exists>q. tick p c = Some (q, [E_Part_End]) \<and> wf_mp b q \<and> mp_state q = s_part_data_almost_end"
proof -
  have "length h = Suc (length b)" using assms(2) by (metis length_append_singleton length_Cons Suc_inject)
  with assms(1,3) have p: "mp_state p = s_part_data_boundary" "mp_index p < length b" "h = CR # LF # take (mp_index p) b"
    "wf_mp b p" by (auto simp: holds_back_def)
  then have "Suc (mp_index p) = length b" using \<open>length h = Suc (length b)\<close> by simp
  moreover have "b ! mp_index p = c"
    using assms(2) p(2,3) by (intro prefix_nth) auto
  ultimately show ?thesis using p by (auto simp: tick_def wf_mp_def Let_def)
qed

text \<open>A delimiter after what was held back, and after a content.\<close>

lemma reach_hold:
  assumes "h @ x = CR # LF # b" "x \<noteq> []" "h \<noteq> []" "holds_back b p h" "b \<noteq> []"
  shows "\<exists>q. reaches p x q [E_Part_End] \<and> wf_mp b q \<and> mp_state q = s_part_data_almost_end"
  using assms(1-4)
proof (induction x arbitrary: h p)
  case (Cons c x)
  show ?case
  proof (cases "x = []")
    case True
    with Cons.prems(1) full_tick [OF Cons.prems(4) _ assms(5), of c] show ?thesis by (auto intro: reaches_one)
  next
    case False
    have d: "CR # LF # b = (h @ [c]) @ x" using Cons.prems(1) by simp
    have "prefix (h @ [c]) (CR # LF # b)" "h @ [c] \<noteq> CR # LF # b"
      unfolding d using False by simp_all
    from hold_tick [OF Cons.prems(4) this assms(5)] Cons.prems(3) obtain q fs where
      q: "tick p c = Some (q, fs)" "holds_back b q (h @ [c])" "same fs []" by auto
    from Cons.IH [of "h @ [c]" q] False q(2) Cons.prems(1) obtain r where
      r: "reaches q x r [E_Part_End]" "wf_mp b r" "mp_state r = s_part_data_almost_end" by auto
    from reaches_same [OF reaches_Cons [OF q(1) r(1)] same_append [OF q(3) same_refl]] r(2,3) show ?thesis by auto
  qed
qed simp

lemma cr_prefix: "CR \<notin> set b \<Longrightarrow> h \<noteq> [] \<Longrightarrow> \<not> prefix (h @ [CR]) (CR # LF # b)"
  by (cases h; cases "tl h") (auto simp: prefix_def)

lemma reach_delimiter:
  assumes b: "good_boundary b" and h: "holds_back b p h"
  shows "\<exists>q. reaches p (CR # LF # b) q [E_Data h, E_Part_End] \<and> wf_mp b q \<and> mp_state q = s_part_data_almost_end"
proof -
  have b': "b \<noteq> []" "CR \<notin> set b" using b by (auto simp: good_boundary_def)
  have "\<exists>q fs. tick p CR = Some (q, fs) \<and> holds_back b q [CR] \<and> same fs [E_Data h]"
  proof (cases "h = []")
    case True
    with hold_tick [OF h, of CR] b' show ?thesis by simp
  next
    case False
    with flush_tick [OF h cr_prefix [OF b'(2)]] show ?thesis by simp
  qed
  then obtain q fs where q: "tick p CR = Some (q, fs)" "holds_back b q [CR]" "same fs [E_Data h]" by blast
  from reach_hold [of "[CR]" "LF # b" b q] q(2) b'(1) obtain r where
    r: "reaches q (LF # b) r [E_Part_End]" "wf_mp b r" "mp_state r = s_part_data_almost_end" by auto
  from reaches_same [OF reaches_Cons [OF q(1) r(1)] same_append [OF q(3) same_refl]] r(2,3) show ?thesis by auto
qed

lemma same_data: "same (E_Data a # E_Data b # x) (E_Data (a @ b) # x)"
  by simp

lemma reach_content:
  assumes b: "good_boundary b"
  shows "holds_back b p h \<Longrightarrow> \<not> sublist (CR # LF # b) (h @ d) \<Longrightarrow>
    \<exists>q. reaches p (d @ CR # LF # b) q [E_Data (h @ d), E_Part_End] \<and> wf_mp b q \<and> mp_state q = s_part_data_almost_end"
proof (induction d arbitrary: p h)
  case Nil
  with reach_delimiter [OF b] show ?case by simp
next
  case (Cons c d)
  have b': "b \<noteq> []" using b by (simp add: good_boundary_def)
  show ?case
  proof (cases "prefix (h @ [c]) (CR # LF # b)")
    case True
    moreover have "h @ [c] \<noteq> CR # LF # b"
      using Cons.prems(2) by (metis append_Cons append_Nil append_assoc sublist_appendI)
    ultimately obtain q fs where
      q: "tick p c = Some (q, fs)" "holds_back b q (h @ [c])" "same fs (if h = [] then [E_Data []] else [])"
      using hold_tick [OF Cons.prems(1) _ _ b'] by blast
    from Cons.IH [OF q(2)] Cons.prems(2) obtain r where
      r: "reaches q (d @ CR # LF # b) r [E_Data (h @ c # d), E_Part_End]" "wf_mp b r" "mp_state r = s_part_data_almost_end" by auto
    have "same (fs @ [E_Data (h @ c # d), E_Part_End]) [E_Data (h @ c # d), E_Part_End]"
      using same_append [OF q(3) same_refl, of "[E_Data (h @ c # d), E_Part_End]"] same_data [of "[]" "h @ c # d" "[E_Part_End]"]
      by (cases "h = []") (auto intro: same_trans)
    from reaches_same [OF reaches_Cons [OF q(1) r(1)] this] r(2,3) show ?thesis by auto
  next
    case False
    from flush_tick [OF Cons.prems(1) False] obtain q fs where
      q: "tick p c = Some (q, fs)" "holds_back b q (if c = CR then [CR] else [])"
        "same fs (if c = CR then [E_Data h] else [E_Data (h @ [c])])" by blast
    let ?h = "if c = CR then [CR] else []"
    have "sublist (?h @ d) (h @ c # d)"
      by (cases "c = CR") (auto intro: sublist_appendI [of "c # d" h "[]", simplified] sublist_appendI [of d "h @ [c]" "[]", simplified])
    with Cons.prems(2) have "\<not> sublist (CR # LF # b) (?h @ d)" using sublist_order.order_trans by blast
    from Cons.IH [OF q(2) this] obtain r where
      r: "reaches q (d @ CR # LF # b) r [E_Data (?h @ d), E_Part_End]" "wf_mp b r" "mp_state r = s_part_data_almost_end" by blast
    have "same (fs @ [E_Data (?h @ d), E_Part_End]) [E_Data (h @ c # d), E_Part_End]"
      using same_append [OF q(3) same_refl, of "[E_Data (?h @ d), E_Part_End]"]
        same_data [of h "c # d" "[E_Part_End]"] same_data [of "h @ [c]" d "[E_Part_End]"]
      by (cases "c = CR") (auto intro: same_trans)
    from reaches_same [OF reaches_Cons [OF q(1) r(1)] this] r(2,3) show ?thesis by auto
  qed
qed

lemma reach_part:
  assumes b: "good_boundary b" and q: "good_part b q" and p: "wf_mp b p" "mp_state p = s_header_field_start"
  shows "\<exists>r. reaches p (part_bytes b q) r (tl (part_events q)) \<and> wf_mp b r \<and> mp_state r = s_part_data_almost_end"
proof -
  let ?hs = "concat (map (\<lambda>(n, v). [E_Field n, E_Value v]) (fst q))"
  let ?a = "p\<lparr>mp_state := s_headers_almost_done\<rparr>" and ?s = "p\<lparr>mp_state := s_part_data_start\<rparr>"
    and ?d = "p\<lparr>mp_state := s_part_data\<rparr>"
  have 1: "reaches p (concat (map header_bytes (fst q))) p ?hs"
    using reach_headers [OF p(2)] q by (simp add: good_part_def)
  have 2: "reaches p [CR] ?a []" "reaches ?a [LF] ?s []"
    using p(2) by (auto intro!: reaches_one simp: tick_def field_tick_def)
  have "holds_back b ?d []" using p by (simp add: holds_back_def)
  with reach_content [OF b, of ?d "[]" "snd q"] q obtain r where
    r: "reaches ?d (snd q @ CR # LF # b) r [E_Data (snd q), E_Part_End]" "wf_mp b r" "mp_state r = s_part_data_almost_end"
    by (auto simp: good_part_def)
  have start: "ticks ?s (c # cs) = map_option (before [E_Headers]) (ticks ?d (c # cs))" for c cs
    by (auto simp: tick_def tick_state before_def split: option.splits prod.splits)
  obtain c cs where "snd q @ CR # LF # b = c # cs" by (cases "snd q") auto
  then have "reaches ?s (snd q @ CR # LF # b) r ([E_Headers] @ [E_Data (snd q), E_Part_End])"
    using r(1) start [of c cs] by (auto simp: reaches_def before_def intro: same_append [OF same_refl, of _ _ "[E_Headers]", simplified])
  from reaches_append [OF 1 reaches_append [OF 2(1) reaches_append [OF 2(2) this]]] r(2,3) show ?thesis
    by (auto simp: part_bytes_def part_events_def)
qed

lemma part_events_tl: "E_Begin # tl (part_events q) @ x = part_events q @ x"
  by (simp add: part_events_def)

lemma reach_parts:
  assumes b: "good_boundary b"
  shows "\<forall>q \<in> set qs. good_part b q \<Longrightarrow> wf_mp b p \<Longrightarrow> mp_state p = s_part_data_almost_end \<Longrightarrow>
    \<exists>r. reaches p (more_parts b qs) r (concat (map part_events qs) @ [E_Body_End]) \<and> mp_state r = s_end"
proof (induction qs arbitrary: p)
  case Nil
  let ?f = "p\<lparr>mp_state := s_part_data_final_hyphen\<rparr>" and ?e = "p\<lparr>mp_state := s_end\<rparr>"
  have "tick p ch_hyphen = Some (?f, [])" "tick ?f ch_hyphen = Some (?e, [E_Body_End])"
    using Nil by (simp_all add: tick_def)
  from reaches_Cons [OF this(1) reaches_one [OF this(2)]] show ?case
    by (intro exI [of _ ?e]) simp
next
  case (Cons q qs)
  let ?e = "p\<lparr>mp_state := s_part_data_end\<rparr>" and ?f = "p\<lparr>mp_state := s_header_field_start\<rparr>"
  have "tick p CR = Some (?e, [])" "tick ?e LF = Some (?f, [E_Begin])"
    using Cons.prems by (simp_all add: tick_def)
  from reaches_Cons [OF this(1) reaches_one [OF this(2)]] have 1: "reaches p [CR, LF] ?f [E_Begin]" by simp
  from reach_part [OF b, of q ?f] Cons.prems obtain r where
    r: "reaches ?f (part_bytes b q) r (tl (part_events q))" "wf_mp b r" "mp_state r = s_part_data_almost_end" by auto
  from Cons.IH [OF _ r(2,3)] Cons.prems(1) obtain z where
    z: "reaches r (more_parts b qs) z (concat (map part_events qs) @ [E_Body_End])" "mp_state z = s_end" by auto
  from reaches_append [OF 1 reaches_append [OF r(1) z(1)]] z(2) show ?case
    by (intro exI [of _ z]) (simp add: part_events_tl)
qed

lemma ticks_end: "mp_state p = s_end \<Longrightarrow> ticks p xs = Some (p, [])"
  by (induction xs) (simp_all add: tick_def)

lemma reach_body:
  assumes b: "good_boundary b" and qs: "qs \<noteq> []" "\<forall>q \<in> set qs. good_part b q"
  shows "\<exists>r. reaches (multipart_parser_init b) (body_bytes b qs @ rest) r (body_events qs) \<and> mp_state r = s_end"
proof -
  obtain q qs' where q: "qs = q # qs'" using qs(1) by (cases qs) auto
  have "wf_mp b (multipart_parser_init b)" by (simp add: wf_mp_def multipart_parser_init_def)
  moreover have "mp_state (multipart_parser_init b) = s_start" by (simp add: multipart_parser_init_def)
  ultimately obtain f where
    f: "reaches (multipart_parser_init b) (b @ [CR, LF]) f [E_Begin]" "wf_mp b f" "mp_state f = s_header_field_start"
    using reach_first_boundary [of b "multipart_parser_init b" 0] by auto
  from reach_part [OF b _ f(2,3), of q] qs(2) q obtain r where
    r: "reaches f (part_bytes b q) r (tl (part_events q))" "wf_mp b r" "mp_state r = s_part_data_almost_end" by auto
  from reach_parts [OF b _ r(2,3), of qs'] qs(2) q obtain z where
    z: "reaches r (more_parts b qs') z (concat (map part_events qs') @ [E_Body_End])" "mp_state z = s_end" by auto
  have "reaches z rest z []" using ticks_end [OF z(2)] by (simp add: reaches_def)
  from reaches_append [OF f(1) reaches_append [OF r(1) reaches_append [OF z(1) this]]] z(2) q show ?thesis
    by (intro exI [of _ z]) (simp add: body_bytes_def body_events_def part_events_tl)
qed

text \<open>The events of a body are put together already.\<close>

lemma joined_headers:
  "foldr jcons (concat (map (\<lambda>(n, v). [E_Field n, E_Value v]) hs)) (E_Headers # y) =
   concat (map (\<lambda>(n, v). [E_Field n, E_Value v]) hs) @ E_Headers # y"
proof (induction hs)
  case (Cons h hs)
  then show ?case by (cases h; cases hs) auto
qed simp

lemma joined_body: "joined (body_events qs) = body_events qs"
proof -
  have "foldr jcons (part_events q) y = part_events q @ y" for q y
    using joined_headers [of "fst q" "E_Data (snd q) # E_Part_End # y"] by (simp add: part_events_def)
  then have "foldr jcons (concat (map part_events qs)) y = concat (map part_events qs) @ y" for y
    by (induction qs) simp_all
  then show ?thesis by (simp add: joined_def body_events_def)
qed

section \<open>What the parser promises\<close>

text \<open>
  Claim C23: a multipart body with at least one part, in any chunks and with anything behind it, is read to its end,
  and the callbacks are told, in order, of every part: its beginning, each header by name and value, the end of the
  headers, its content and its end; then of the end of the body. The names, values and contents may
  come in pieces where the chunks are cut, and put together they are those that were written.
\<close>

theorem multipart_round_trip:
  assumes "never_stops cb" "good_boundary b" "qs \<noteq> []" "\<forall>q \<in> set qs. good_part b q"
    and "concat xs = body_bytes b qs @ rest"
  shows "\<exists>p seen. mp_chunks cb xs (0, multipart_parser_init b, s) = (length (concat xs), p, run_cb cb seen s) \<and>
    mp_state p = s_end \<and> joined seen = body_events qs"
proof -
  from reach_body [OF assms(2-4), of rest] assms(5) obtain r es where
    r: "ticks (multipart_parser_init b) (concat xs) = Some (r, es)" "same es (body_events qs)" "mp_state r = s_end"
    by (auto simp: reaches_def)
  from mp_chunks_ticks [OF assms(1) r(1), of 0 s] obtain seen where
    "mp_chunks cb xs (0, multipart_parser_init b, s) = (length (concat xs), r, run_cb cb seen s)" "same seen es"
    by auto
  moreover from this(2) r(2) have "joined seen = body_events qs"
    using same_joined [OF same_trans] joined_body by metis
  ultimately show ?thesis using r(3) by blast
qed

lemma processor_never_stops: "never_stops processor_cb"
proof -
  have "fst (processor_cb e s) = 0" for e s by (cases e) simp_all
  then show ?thesis by (simp add: never_stops_def)
qed

text \<open>The boundary \<open>-b\<close>, a part with the header \<open>A: v\<close> and the content \<open>x\<close>, cut in the middle of the header.\<close>

theorem multipart_round_trip_witness:
  "\<exists>p seen. mp_chunks processor_cb
      [[45, 98, 13, 10, 65], [58, 32, 118, 13, 10, 13, 10, 120, 13], [10, 45, 98, 45, 45]]
      (0, multipart_parser_init [45, 98], processor_init) = (19, p, run_cb processor_cb seen processor_init) \<and>
    mp_state p = s_end \<and>
    joined seen = [E_Begin, E_Field [65], E_Value [118], E_Headers, E_Data [120], E_Part_End, E_Body_End]"
proof -
  let ?xs = "[[45, 98, 13, 10, 65], [58, 32, 118, 13, 10, 13, 10, 120, 13], [10, 45, 98, 45, 45]] :: bytes list"
    and ?qs = "[([([65], [118])], [120])] :: part list"
  have "concat ?xs = body_bytes [45, 98] ?qs @ []"
    by (simp add: body_bytes_def part_bytes_def header_bytes_def)
  moreover have "good_boundary [45, 98]" by (simp add: good_boundary_def)
  moreover have "\<forall>q \<in> set ?qs. good_part [45, 98] q"
    by (auto simp: good_part_def good_header_def name_char_def sublist_Cons_right prefix_Cons)
  moreover have "?qs \<noteq> []" by simp
  ultimately have "\<exists>p seen. mp_chunks processor_cb ?xs (0, multipart_parser_init [45, 98], processor_init) =
      (length (concat ?xs), p, run_cb processor_cb seen processor_init) \<and> mp_state p = s_end \<and> joined seen = body_events ?qs"
    using multipart_round_trip [OF processor_never_stops] by blast
  moreover have "length (concat ?xs) = 19" by simp
  moreover have "body_events ?qs = [E_Begin, E_Field [65], E_Value [118], E_Headers, E_Data [120], E_Part_End, E_Body_End]"
    by (simp add: body_events_def part_events_def)
  ultimately show ?thesis by (simp only:)
qed

section \<open>What the processor makes of it\<close>

lemmas mp_eval = multipart_parser_execute_def mp_loop.simps mp_step_def start_boundary_step_def field_step_def value_step_def
  emit_def multipart_parser_init_def span_bytes_def name_char_def processor_init_def Let_def

text \<open>
  \<open>OnHeaderField\<close> assigns the name it is given: of a name that comes in two pieces only the second is kept.
\<close>

lemma processor_cuts_name:
  "snd (snd (mp_chunks processor_cb [[98, 13, 10, 65, 66, 58, 32, 118, 13]] (0, multipart_parser_init [98], processor_init))) =
     \<lparr>part_headers = [[65, 66] \<mapsto> [118]], last_name = [65, 66]\<rparr> \<and>
   snd (snd (mp_chunks processor_cb [[98, 13, 10, 65], [66, 58, 32, 118, 13]] (0, multipart_parser_init [98], processor_init))) =
     \<lparr>part_headers = [[66] \<mapsto> [118]], last_name = [66]\<rparr>"
  by (simp add: mp_eval)

text \<open>A body without parts is not read further than its boundary.\<close>

lemma no_parts_stop:
  "fst (mp_chunks processor_cb [body_bytes [98] []] (0, multipart_parser_init [98], processor_init)) = 1"
  by (simp add: mp_eval body_bytes_def)

end
