(* ===== verification/Http_Client.thy ===== *)
theory Http_Client
  imports Trans_Center
begin

text \<open>
  The HTTP clients of \<^verbatim>\<open>client_center_mgr\<close>: \<^verbatim>\<open>http_client.cpp\<close> and \<^verbatim>\<open>http_client_center.cpp\<close>. A client turns a
  request into a transaction and a connection of the library evhttp, which tells it of the end of the
  request; a timer then frees the connection, and with its last one the client. The library is a
  parameter: what its calls return, its header lists, and what it frees. So is the text of a number.
\<close>

section \<open>Definitions\<close>

type_synonym header_map = "(string \<times> string) list"

record h_async =
  as_timeout :: int
  as_sink :: ptr
  as_data :: async_data

record h_params =
  gp_https :: bool
  gp_uri :: "string option"
  gp_encode :: bool
  gp_headers :: header_map

text \<open>Status, headers and body of a response; status 0 is a request that ran out of time.\<close>

record h_rsp =
  rsp_status :: int
  rsp_headers :: header_map
  rsp_body :: bytes

datatype h_call =
    H_Closed ptr int peer async_data
  | H_Timeout ptr int peer async_data
  | H_Rsp ptr int peer bool int "string \<rightharpoonup> string" "bytes option" async_data

text \<open>What a sink asks for from inside a callback.\<close>

datatype h_act = A_Trans tc_op | A_Remove peer

text \<open>
  The environment: sinks, OpenSSL, whether the library is new enough for HTTPS, whether closing an HTTPS
  connection frees the SSL object it was given (\<^verbatim>\<open>BEV_OPT_CLOSE_ON_FREE\<close>), whether a request that could not be
  made has been freed, header lists, and decimal numbers.
\<close>

record 'hd h_env =
  he_react :: "h_call \<Rightarrow> h_act list"
  he_init_ok :: bool
  he_ssl :: bool
  he_close_frees_ssl :: bool
  he_make_frees_req :: bool
  he_no_headers :: 'hd
  he_add :: "string \<Rightarrow> string \<Rightarrow> 'hd \<Rightarrow> 'hd"
  he_has :: "string \<Rightarrow> 'hd \<Rightarrow> bool"
  he_drop :: "string \<Rightarrow> 'hd \<Rightarrow> 'hd"
  he_text :: "nat \<Rightarrow> string"

text \<open>The results of the library for one request: connection, encoded URI, request, body, and making it.\<close>

record h_lib =
  lb_conn :: bool
  lb_encoded :: "string option"
  lb_req :: bool
  lb_body :: bool
  lb_make :: bool

record callback_arg =
  ca_client :: ptr
  ca_https :: bool
  ca_conn :: bool
  ca_trans :: int
  ca_cleanup :: bool

record h_client =
  hcl_peer :: peer
  callback_arg_set :: "ptr set"
  ssl_freed :: bool

datatype h_cmd = EVHTTP_REQ_GET | EVHTTP_REQ_POST

record 'hd h_request =
  hr_trans :: int
  hr_peer :: peer
  hr_cmd :: h_cmd
  hr_uri :: string
  hr_headers :: 'hd
  hr_body :: bytes

record 'hd h_world =
  h_clients :: "ptr \<rightharpoonup> h_client"
  client_map :: "peer \<rightharpoonup> ptr"
  h_args :: "ptr \<rightharpoonup> callback_arg"
  h_trans :: trans_center
  h_next :: ptr
  h_calls :: "h_call list"
  h_sent :: "'hd h_request list"

datatype h_fault = Use_After_Free | Double_Free | Null_Deref | No_Return


subsection \<open>Clients\<close>

text \<open>\<^verbatim>\<open>CallbackArg::Release\<close>.\<close>

definition release_arg :: "'hd h_env \<Rightarrow> ptr \<Rightarrow> 'hd h_world \<Rightarrow> h_fault + 'hd h_world" where
  "release_arg e a w =
     (case h_args w a of
        None \<Rightarrow> Inl Use_After_Free
      | Some x \<Rightarrow>
          let w1 = w\<lparr>h_args := (h_args w)(a := None)\<rparr> in
          if ca_conn x \<and> ca_https x \<and> he_close_frees_ssl e
          then (case h_clients w (ca_client x) of
                  None \<Rightarrow> Inr w1
                | Some cl \<Rightarrow>
                    if ssl_freed cl then Inl Double_Free
                    else Inr (w1\<lparr>h_clients := (h_clients w)(ca_client x \<mapsto> cl\<lparr>ssl_freed := True\<rparr>)\<rparr>))
          else Inr w1)"

fun release_args :: "'hd h_env \<Rightarrow> ptr list \<Rightarrow> 'hd h_world \<Rightarrow> h_fault + 'hd h_world" where
  "release_args e [] w = Inr w"
| "release_args e (a # as) w = (case release_arg e a w of Inl f \<Rightarrow> Inl f | Inr w1 \<Rightarrow> release_args e as w1)"

text \<open>\<^verbatim>\<open>Client::Finalize\<close> and the release of the object.\<close>

definition h_destroy_client :: "'hd h_env \<Rightarrow> ptr \<Rightarrow> 'hd h_world \<Rightarrow> h_fault + 'hd h_world" where
  "h_destroy_client e c w =
     (case h_clients w c of
        None \<Rightarrow> Inl Use_After_Free
      | Some cl \<Rightarrow>
          (case release_args e (sorted_list_of_set (callback_arg_set cl)) w of
             Inl f \<Rightarrow> Inl f
           | Inr w1 \<Rightarrow>
               (case h_clients w1 c of
                  None \<Rightarrow> Inl Use_After_Free
                | Some cl1 \<Rightarrow> if ssl_freed cl1 then Inl Double_Free else Inr (w1\<lparr>h_clients := (h_clients w1)(c := None)\<rparr>))))"

definition h_remove_client :: "'hd h_env \<Rightarrow> peer \<Rightarrow> 'hd h_world \<Rightarrow> h_fault + 'hd h_world" where
  "h_remove_client e q w =
     (case client_map w q of
        None \<Rightarrow> Inr w
      | Some c \<Rightarrow>
          (case h_destroy_client e c w of
             Inl f \<Rightarrow> Inl f
           | Inr w1 \<Rightarrow> Inr (w1\<lparr>client_map := (client_map w1)(q := None)\<rparr>)))"

text \<open>A failure erases the peer's entry, whoever's it is; a null pointer is 0.\<close>

definition h_create_client :: "'hd h_env \<Rightarrow> peer \<Rightarrow> 'hd h_world \<Rightarrow> ptr \<times> 'hd h_world" where
  "h_create_client e q w =
     (let c = h_next w; w1 = w\<lparr>h_next := c + 1\<rparr> in
      if \<not> he_init_ok e \<or> client_map w q \<noteq> None
      then (0, w1\<lparr>client_map := (client_map w1)(q := None)\<rparr>)
      else (c, w1\<lparr>client_map := (client_map w1)(q \<mapsto> c),
                  h_clients := (h_clients w1)(c \<mapsto> \<lparr>hcl_peer = q, callback_arg_set = {}, ssl_freed = False\<rparr>)\<rparr>))"

definition h_get_client :: "peer \<Rightarrow> 'hd h_world \<Rightarrow> ptr" where
  "h_get_client q w = (case client_map w q of Some c \<Rightarrow> c | None \<Rightarrow> 0)"

subsection \<open>Requests\<close>

definition lower :: "string \<Rightarrow> string" where
  "lower s = map (\<lambda>c. if CHR ''A'' \<le> c \<and> c \<le> CHR ''Z'' then char_of (of_char c + 32 :: nat) else c) s"

definition has_body :: "bytes option \<Rightarrow> bool" where
  "has_body d \<longleftrightarrow> (\<exists>b. d = Some b \<and> b \<noteq> [])"

definition request_headers :: "'hd h_env \<Rightarrow> peer \<Rightarrow> header_map \<Rightarrow> bytes option \<Rightarrow> 'hd" where
  "request_headers e q hs d =
     (let h0 = fold (\<lambda>(n, v) h. if lower n = ''host'' then h else he_add e n v h) hs (he_no_headers e);
          h1 = he_add e ''Host'' (p_addr q @ '':'' @ he_text e (p_port q)) h0 in
      if has_body d
      then let h2 = (if he_has e ''Content-Type'' h1 then h1
                     else he_add e ''Content-Type'' ''application/x-www-form-urlencoded'' h1)
           in he_add e ''Content-Length'' (he_text e (length (the d))) (he_drop e ''Content-Length'' h2)
      else h1)"

definition h_err_out :: "'hd h_env \<Rightarrow> ptr \<Rightarrow> 'hd h_world \<Rightarrow> h_fault + int \<times> 'hd h_world" where
  "h_err_out e a w = map_sum id (Pair RC_ERR) (release_arg e a w)"

definition do_http_req ::
  "'hd h_env \<Rightarrow> h_lib \<Rightarrow> ptr \<Rightarrow> int \<Rightarrow> h_params \<Rightarrow> bytes option \<Rightarrow> 'hd h_world \<Rightarrow> h_fault + int \<times> 'hd h_world" where
  "do_http_req e lb c t pr d w =
     (case (h_clients w c, gp_uri pr) of
        (None, _) \<Rightarrow> Inl Use_After_Free
      | (Some cl, None) \<Rightarrow> Inr (RC_ERR, w)
      | (Some cl, Some uri) \<Rightarrow>
          let a = h_next w;
              w0 = w\<lparr>h_next := a + 1, h_args := (h_args w)(a \<mapsto>
                     \<lparr>ca_client = 0, ca_https = False, ca_conn = False, ca_trans = INVALID_SEQ_NUM, ca_cleanup = False\<rparr>)\<rparr>;
              w1 = w\<lparr>h_next := a + 1, h_args := (h_args w)(a \<mapsto>
                     \<lparr>ca_client = c, ca_https = gp_https pr, ca_conn = True, ca_trans = t, ca_cleanup = False\<rparr>)\<rparr> in
          if gp_https pr \<and> he_ssl e \<and> ssl_freed cl then Inl Use_After_Free
          else if gp_https pr \<and> \<not> he_ssl e \<or> \<not> lb_conn lb then h_err_out e a w0
          else (case (if gp_encode pr then lb_encoded lb else Some uri) of
                  None \<Rightarrow> h_err_out e a w1
                | Some target \<Rightarrow>
                    if \<not> lb_req lb then h_err_out e a w1
                    else if has_body d \<and> \<not> lb_body lb then h_err_out e a w1
                    else if \<not> lb_make lb
                    then (if he_make_frees_req e then Inl Double_Free else h_err_out e a w1)
                    else Inr (RC_OK, w1\<lparr>
                      h_clients := (h_clients w1)(c \<mapsto> cl\<lparr>callback_arg_set := insert a (callback_arg_set cl)\<rparr>),
                      h_sent := h_sent w1 @ [\<lparr>hr_trans = t, hr_peer = hcl_peer cl,
                        hr_cmd = (if has_body d then EVHTTP_REQ_POST else EVHTTP_REQ_GET), hr_uri = target,
                        hr_headers = request_headers e (hcl_peer cl) (gp_headers pr) d,
                        hr_body = (if has_body d then the d else [])\<rparr>]\<rparr>)))"

text \<open>
  \<^verbatim>\<open>Get\<close> and \<^verbatim>\<open>Post\<close> have the same text but for the body that they hand to \<^verbatim>\<open>DoHTTPReq\<close>, written
  here once. The asynchronous context is read before it is compared with null.
\<close>

definition h_request_op ::
  "'hd h_env \<Rightarrow> time_t \<Rightarrow> h_lib \<Rightarrow> ptr \<Rightarrow> h_params \<Rightarrow> bytes option \<Rightarrow> h_async option \<Rightarrow> 'hd h_world \<Rightarrow>
   h_fault + int \<times> 'hd h_world" where
  "h_request_op e now lb c pr d ax w =
     (case (h_clients w c, ax) of
        (None, _) \<Rightarrow> Inl Use_After_Free
      | (Some cl, None) \<Rightarrow> Inl Null_Deref
      | (Some cl, Some x) \<Rightarrow>
          let ctx = \<lparr>tx_peer = hcl_peer cl, tx_timeout_sec = as_timeout x, tx_passback = 0,
                     tx_sink = as_sink x, tx_data = as_data x\<rparr> in
          (case record_trans_ctx now (Some ctx) (h_trans w) of
             None \<Rightarrow> Inl No_Return
           | Some (i, tc) \<Rightarrow>
               let w1 = w\<lparr>h_trans := tc\<rparr> in
               if i = INVALID_SEQ_NUM then Inr (i, w1)
               else (case do_http_req e lb c i pr d w1 of
                       Inl f \<Rightarrow> Inl f
                     | Inr (ret, w2) \<Rightarrow>
                         if ret \<noteq> 0 then Inr (INVALID_SEQ_NUM, w2\<lparr>h_trans := cancel_trans i (h_trans w2)\<rparr>)
                         else Inr (i, w2))))"



subsection \<open>Callbacks\<close>

fun h_acts :: "'hd h_env \<Rightarrow> time_t \<Rightarrow> h_act list \<Rightarrow> 'hd h_world \<Rightarrow> h_fault + 'hd h_world" where
  "h_acts e now [] w = Inr w"
| "h_acts e now (A_Trans x # as) w =
     (case run_op now x (h_trans w) of None \<Rightarrow> Inl No_Return | Some tc \<Rightarrow> h_acts e now as (w\<lparr>h_trans := tc\<rparr>))"
| "h_acts e now (A_Remove q # as) w =
     (case h_remove_client e q w of Inl f \<Rightarrow> Inl f | Inr w1 \<Rightarrow> h_acts e now as w1)"

definition h_tell :: "'hd h_env \<Rightarrow> time_t \<Rightarrow> h_call \<Rightarrow> 'hd h_world \<Rightarrow> h_fault + 'hd h_world" where
  "h_tell e now k w = h_acts e now (he_react e k) (w\<lparr>h_calls := h_calls w @ [k]\<rparr>)"

text \<open>The callback for the end of a request: which call, if there is a sink.\<close>

definition rsp_call :: "callback_arg \<Rightarrow> peer \<Rightarrow> trans_ctx \<Rightarrow> h_rsp option \<Rightarrow> h_call" where
  "rsp_call x q t rsp =
     (case rsp of
        None \<Rightarrow> H_Closed (tx_sink t) (ca_trans x) q (tx_data t)
      | Some r \<Rightarrow>
          if rsp_status r = 0 then H_Timeout (tx_sink t) (ca_trans x) q (tx_data t)
          else H_Rsp (tx_sink t) (ca_trans x) q (ca_https x) (rsp_status r) (map_of (rsp_headers r))
                 (if rsp_body r = [] then None else Some (rsp_body r)) (tx_data t))"

text \<open>
  \<^verbatim>\<open>HTTPReqDoneCallback\<close> with \<^verbatim>\<open>OnHTTPReqDone\<close>; behind the sink's callback the argument and the client are used again.
  The flag: whether the clean-up timer could be created and added.
\<close>

definition http_req_done ::
  "'hd h_env \<Rightarrow> time_t \<Rightarrow> ptr \<Rightarrow> h_rsp option \<Rightarrow> bool \<Rightarrow> 'hd h_world \<Rightarrow> h_fault + 'hd h_world" where
  "http_req_done e now a rsp timed w =
     (case h_args w a of
        None \<Rightarrow> Inl Use_After_Free
      | Some x \<Rightarrow>
          (case h_clients w (ca_client x) of
             None \<Rightarrow> Inl Use_After_Free
           | Some cl \<Rightarrow>
               (case (case get_trans_ctx (ca_trans x) (h_trans w) of
                        None \<Rightarrow> Inr w
                      | Some t \<Rightarrow>
                          (case (if tx_sink t \<noteq> 0 then h_tell e now (rsp_call x (hcl_peer cl) t rsp) w else Inr w) of
                             Inl f \<Rightarrow> Inl f
                           | Inr w1 \<Rightarrow>
                               if h_args w1 a = None \<or> h_clients w1 (ca_client x) = None then Inl Use_After_Free
                               else Inr (w1\<lparr>h_trans := cancel_trans (ca_trans x) (h_trans w1)\<rparr>))) of
                  Inl f \<Rightarrow> Inl f
                | Inr w2 \<Rightarrow>
                    (case h_clients w2 (ca_client x) of
                       None \<Rightarrow> Inl Use_After_Free
                     | Some cl2 \<Rightarrow>
                         if timed then Inr (w2\<lparr>h_args := (h_args w2)(a \<mapsto> x\<lparr>ca_cleanup := True\<rparr>)\<rparr>)
                         else release_arg e a (w2\<lparr>h_clients := (h_clients w2)(ca_client x \<mapsto>
                                cl2\<lparr>callback_arg_set := callback_arg_set cl2 - {a}\<rparr>)\<rparr>)))))"

definition on_conn_cleanup_event :: "'hd h_env \<Rightarrow> ptr \<Rightarrow> 'hd h_world \<Rightarrow> h_fault + 'hd h_world" where
  "on_conn_cleanup_event e a w =
     (case h_args w a of
        None \<Rightarrow> Inl Use_After_Free
      | Some x \<Rightarrow>
          (case h_clients w (ca_client x) of
             None \<Rightarrow> Inl Use_After_Free
           | Some cl \<Rightarrow>
               (case release_arg e a (w\<lparr>h_clients := (h_clients w)(ca_client x \<mapsto>
                       cl\<lparr>callback_arg_set := callback_arg_set cl - {a}\<rparr>)\<rparr>) of
                  Inl f \<Rightarrow> Inl f
                | Inr w1 \<Rightarrow> if callback_arg_set cl - {a} = {} then h_remove_client e (hcl_peer cl) w1 else Inr w1)))"

subsection \<open>Steps\<close>






section \<open>The tables agree\<close>

definition h_ok :: "'hd h_world \<Rightarrow> bool" where
  "h_ok w \<longleftrightarrow>
     tc_inv (h_trans w) \<and>
     (\<forall>a x. h_args w a = Some x \<longrightarrow> \<not> ca_https x \<and> a < h_next w \<and>
        (\<exists>cl. h_clients w (ca_client x) = Some cl \<and> a \<in> callback_arg_set cl)) \<and>
     (\<forall>c cl. h_clients w c = Some cl \<longrightarrow> \<not> ssl_freed cl \<and> finite (callback_arg_set cl) \<and> 0 < c \<and> c < h_next w \<and>
        (\<forall>a \<in> callback_arg_set cl. \<exists>x. h_args w a = Some x \<and> ca_client x = c)) \<and>
     (\<forall>q c. client_map w q = Some c \<longrightarrow> (\<exists>cl. h_clients w c = Some cl \<and> hcl_peer cl = q)) \<and> 0 < h_next w"


lemma h_ok_arg:
  assumes "h_ok w" "h_args w a = Some x"
  obtains cl where "h_clients w (ca_client x) = Some cl" "a \<in> callback_arg_set cl" "\<not> ca_https x" "a < h_next w" "\<not> ssl_freed cl"
  using assms unfolding h_ok_def by blast




lemma h_ok_client:
  assumes "h_ok w" "h_clients w c = Some cl"
  shows "finite (callback_arg_set cl)" "\<not> ssl_freed cl" "c < h_next w" "0 < c"
    "\<And>a. a \<in> callback_arg_set cl \<Longrightarrow> \<exists>x. h_args w a = Some x \<and> ca_client x = c \<and> \<not> ca_https x"
  using assms unfolding h_ok_def by blast+

lemma h_ok_tc: "h_ok w \<Longrightarrow> tc_inv (h_trans w)"
  by (simp add: h_ok_def)

lemma h_ok_trans [simp]: "tc_inv tc \<Longrightarrow> h_ok w \<Longrightarrow> h_ok (w\<lparr>h_trans := tc\<rparr>)"
  unfolding h_ok_def by simp

lemma h_ok_log [simp]: "h_ok (w\<lparr>h_calls := ks\<rparr>) = h_ok w" "h_ok (w\<lparr>h_sent := ss\<rparr>) = h_ok w"
  unfolding h_ok_def by simp_all

lemma release_arg_plain:
  "h_args w a = Some x \<Longrightarrow> \<not> ca_https x \<Longrightarrow> release_arg e a w = Inr (w\<lparr>h_args := (h_args w)(a := None)\<rparr>)"
  by (simp add: release_arg_def)

lemma release_args_plain:
  "distinct as \<Longrightarrow> \<forall>a \<in> set as. \<exists>x. h_args w a = Some x \<and> \<not> ca_https x \<Longrightarrow>
   release_args e as w = Inr (w\<lparr>h_args := (h_args w) |` (- set as)\<rparr>)"
proof (induction as arbitrary: w)
  case (Cons a as)
  then obtain x where x: "h_args w a = Some x" "\<not> ca_https x" by auto
  let ?w = "w\<lparr>h_args := (h_args w)(a := None)\<rparr>"
  have "release_args e as ?w = Inr (?w\<lparr>h_args := (h_args ?w) |` (- set as)\<rparr>)"
    using Cons.prems by (intro Cons.IH) auto
  moreover have "(h_args w)(a := None) |` (- set as) = (h_args w) |` (- set (a # as))"
    by (auto simp: restrict_map_def fun_eq_iff)
  ultimately show ?case using release_arg_plain [OF x] by simp
qed (simp add: restrict_map_def)

text \<open>Removing a client takes its requests with it and no others.\<close>

lemma destroy_ok:
  assumes ok: "h_ok w" and c: "h_clients w c = Some cl"
  shows "h_destroy_client e c w =
    Inr (w\<lparr>h_args := (h_args w) |` (- callback_arg_set cl), h_clients := (h_clients w)(c := None)\<rparr>)"
proof -
  have "release_args e (sorted_list_of_set (callback_arg_set cl)) w =
      Inr (w\<lparr>h_args := (h_args w) |` (- callback_arg_set cl)\<rparr>)"
    using h_ok_client [OF ok c] release_args_plain [of "sorted_list_of_set (callback_arg_set cl)" w e] by fastforce
  with c h_ok_client(2) [OF ok c] show ?thesis by (simp add: h_destroy_client_def)
qed

lemma remove_client_ok:
  assumes ok: "h_ok w"
  shows "\<exists>w'. h_remove_client e q w = Inr w' \<and> h_ok w' \<and> client_map w' = (client_map w)(q := None) \<and>
    h_trans w' = h_trans w \<and> h_calls w' = h_calls w \<and>
    (case client_map w q of None \<Rightarrow> w' = w
     | Some c \<Rightarrow> h_clients w' = (h_clients w)(c := None) \<and> (\<forall>cl. h_clients w c = Some cl \<longrightarrow> h_args w' = (h_args w) |` (- callback_arg_set cl)))"
proof (cases "client_map w q")
  case None
  then show ?thesis using ok by (auto simp: h_remove_client_def)
next
  case (Some c)
  with ok obtain cl where cl: "h_clients w c = Some cl" "hcl_peer cl = q" unfolding h_ok_def by blast
  let ?w = "w\<lparr>h_args := (h_args w) |` (- callback_arg_set cl), h_clients := (h_clients w)(c := None), client_map := (client_map w)(q := None)\<rparr>"
  have step: "h_remove_client e q w = Inr ?w"
    using Some destroy_ok [OF ok cl(1)] by (simp add: h_remove_client_def)
  have only: "q' = q" if "client_map w q' = Some c" for q'
    using that ok cl unfolding h_ok_def by fastforce
  have "h_ok ?w" unfolding h_ok_def
  proof (intro conjI allI impI)
    show "tc_inv (h_trans ?w)" "0 < h_next ?w" using ok by (simp_all add: h_ok_def)
  next
    fix a x assume "h_args ?w a = Some x"
    then have a: "h_args w a = Some x" "a \<notin> callback_arg_set cl" by (auto simp: restrict_map_def split: if_splits)
    from h_ok_arg [OF ok a(1)] obtain d where
      d: "h_clients w (ca_client x) = Some d" "a \<in> callback_arg_set d" "\<not> ca_https x" "a < h_next w" by blast
    with a(2) cl(1) have "ca_client x \<noteq> c" by auto
    with d show "\<not> ca_https x" "a < h_next ?w" "\<exists>cl. h_clients ?w (ca_client x) = Some cl \<and> a \<in> callback_arg_set cl" by auto
  next
    fix c' d assume "h_clients ?w c' = Some d"
    then have d: "c' \<noteq> c" "h_clients w c' = Some d" by (auto split: if_splits)
    note cd = h_ok_client [OF ok d(2)]
    show "\<not> ssl_freed d" "finite (callback_arg_set d)" "0 < c'" "c' < h_next ?w" using cd by simp_all
    show "\<forall>a \<in> callback_arg_set d. \<exists>x. h_args ?w a = Some x \<and> ca_client x = c'"
    proof
      fix a assume "a \<in> callback_arg_set d"
      then obtain x where x: "h_args w a = Some x" "ca_client x = c'" using cd(5) by blast
      have "a \<notin> callback_arg_set cl" using x d(1) h_ok_client(5) [OF ok cl(1), of a] by auto
      with x show "\<exists>x. h_args ?w a = Some x \<and> ca_client x = c'" by auto
    qed
  next
    fix q' c' assume "client_map ?w q' = Some c'"
    then have "q' \<noteq> q" "client_map w q' = Some c'" by (auto split: if_splits)
    moreover from this only have "c' \<noteq> c" by blast
    ultimately show "\<exists>cl. h_clients ?w c' = Some cl \<and> hcl_peer cl = q'" using ok by (auto simp: h_ok_def)
  qed
  with step Some cl(1) show ?thesis by auto
qed





lemma h_ok_fresh: "h_ok w \<Longrightarrow> h_args w (h_next w) = None"
  by (metis h_ok_arg less_irrefl not_None_eq)

lemma err_out_ok:
  assumes ok: "h_ok w" and x: "\<not> ca_https x"
  shows "h_err_out e (h_next w) (w\<lparr>h_next := h_next w + 1, h_args := (h_args w)(h_next w \<mapsto> x)\<rparr>) =
    Inr (RC_ERR, w\<lparr>h_next := h_next w + 1\<rparr>)"
proof -
  have "(h_args w)(h_next w := None) = h_args w" using h_ok_fresh [OF ok] by auto
  with x show ?thesis by (simp add: h_err_out_def release_arg_def)
qed

text \<open>What an accepted request adds.\<close>

definition accepted :: "'hd h_env \<Rightarrow> h_lib \<Rightarrow> ptr \<Rightarrow> h_client \<Rightarrow> int \<Rightarrow> h_params \<Rightarrow> bytes option \<Rightarrow> 'hd h_world \<Rightarrow> 'hd h_world" where
  "accepted e lb c cl t pr d w =
     w\<lparr>h_next := h_next w + 1,
       h_args := (h_args w)(h_next w \<mapsto> \<lparr>ca_client = c, ca_https = gp_https pr, ca_conn = True, ca_trans = t, ca_cleanup = False\<rparr>),
       h_clients := (h_clients w)(c \<mapsto> cl\<lparr>callback_arg_set := insert (h_next w) (callback_arg_set cl)\<rparr>),
       h_sent := h_sent w @ [\<lparr>hr_trans = t, hr_peer = hcl_peer cl,
         hr_cmd = (if has_body d then EVHTTP_REQ_POST else EVHTTP_REQ_GET),
         hr_uri = the (if gp_encode pr then lb_encoded lb else gp_uri pr),
         hr_headers = request_headers e (hcl_peer cl) (gp_headers pr) d, hr_body = (if has_body d then the d else [])\<rparr>]\<rparr>"

text \<open>When the library goes along.\<close>

definition lib_accepts :: "h_lib \<Rightarrow> h_params \<Rightarrow> bytes option \<Rightarrow> bool" where
  "lib_accepts lb pr d \<longleftrightarrow> gp_uri pr \<noteq> None \<and> lb_conn lb \<and> (gp_encode pr \<longrightarrow> lb_encoded lb \<noteq> None) \<and> lb_req lb \<and>
     (has_body d \<longrightarrow> lb_body lb) \<and> lb_make lb"

lemma do_http_req_cases:
  assumes ok: "h_ok w" and c: "h_clients w c = Some cl" and pr: "\<not> gp_https pr" "lb_make lb \<or> \<not> he_make_frees_req e"
  shows "do_http_req e lb c t pr d w =
    (if lib_accepts lb pr d then Inr (RC_OK, accepted e lb c cl t pr d w)
     else Inr (RC_ERR, if gp_uri pr = None then w else w\<lparr>h_next := h_next w + 1\<rparr>))"
proof (cases "gp_uri pr")
  case None
  with c show ?thesis by (simp add: do_http_req_def lib_accepts_def)
next
  case (Some uri)
  note err = err_out_ok [OF ok, unfolded add_0_right, simplified]
  show ?thesis
  proof (cases "lib_accepts lb pr d")
    case True
    with Some c pr show ?thesis
      by (auto simp: do_http_req_def lib_accepts_def accepted_def Let_def split: option.splits)
  next
    case False
    with Some c pr show ?thesis
      by (auto simp: do_http_req_def lib_accepts_def Let_def err split: option.splits)
  qed
qed














section \<open>What HTTP clients promise\<close>














section \<open>What they do not\<close>

text \<open>Without an asynchronous context a request reads through null, though it is compared with null.\<close>

lemma null_async_read: "h_clients w c \<noteq> None \<Longrightarrow> h_request_op e now lb c pr d None w = Inl Null_Deref"
  by (auto simp: h_request_op_def)

text \<open>\<^verbatim>\<open>Post\<close> of an empty body goes out as GET.\<close>

lemma empty_post_is_get:
  "h_clients w c = Some cl \<Longrightarrow> \<not> gp_https pr \<Longrightarrow> h_ok w \<Longrightarrow> lib_accepts lb pr (Some []) \<Longrightarrow>
   \<exists>w' r. do_http_req e lb c t pr (Some []) w = Inr (0, w') \<and> h_sent w' = h_sent w @ [r] \<and> hr_cmd r = EVHTTP_REQ_GET"
  by (simp add: do_http_req_cases accepted_def has_body_def lib_accepts_def)

text \<open>Creating a client for a peer that has one forgets the one there is.\<close>

lemma create_forgets:
  "client_map w q = Some c \<Longrightarrow> h_create_client e q w =
     (0, w\<lparr>h_next := h_next w + 1, client_map := (client_map w)(q := None)\<rparr>)"
  by (simp add: h_create_client_def)

text \<open>
  When the library frees the SSL object with its connection, the end of an HTTPS request leads to a double free
  with the client, and a second request uses the freed object.
\<close>

lemma https_double_free:
  assumes "h_args w a = Some x" "ca_https x" "ca_conn x" "he_close_frees_ssl e"
    and "h_clients w (ca_client x) = Some cl" "callback_arg_set cl = {a}" "client_map w (hcl_peer cl) = Some (ca_client x)"
  shows "on_conn_cleanup_event e a w = Inl Double_Free"
  using assms by (cases "ssl_freed cl")
    (auto simp: on_conn_cleanup_event_def release_arg_def h_remove_client_def h_destroy_client_def)

text \<open>A sink that removes its client from inside the callback frees what the callback goes on with.\<close>

lemma remove_inside_callback:
  assumes ok: "h_ok w" and a: "h_args w a = Some x" and cl: "h_clients w (ca_client x) = Some cl"
    and m: "client_map w (hcl_peer cl) = Some (ca_client x)" and t: "get_trans_ctx (ca_trans x) (h_trans w) = Some t"
    and react: "he_react e (rsp_call x (hcl_peer cl) t rsp) = [A_Remove (hcl_peer cl)]"
  shows "http_req_done e now a rsp timed w = Inl Use_After_Free"
proof -
  have sink: "tx_sink t \<noteq> 0" using h_ok_tc [OF ok] t by (simp add: tc_inv_def get_trans_ctx_def)
  let ?w = "w\<lparr>h_calls := h_calls w @ [rsp_call x (hcl_peer cl) t rsp]\<rparr>"
  have "h_ok ?w" using ok by simp
  from remove_client_ok [OF this, of e "hcl_peer cl"] m obtain w' where
    "h_remove_client e (hcl_peer cl) ?w = Inr w'" "h_clients w' (ca_client x) = None" by auto
  with a cl t sink react show ?thesis by (simp add: http_req_done_def h_tell_def)
qed

end
