(* ===== verification/Conf_Center.thy ===== *)
theory Conf_Center
  imports Variant
begin

text \<open>
  The configuration center, \<^verbatim>\<open>conf_center/src/conf_center.cpp\<close>: values are read from an XML document by
  XPath, converted, and cached by XPath in one map for each of the three types that are stored. The document and the
  evaluation of an XPath are libxml2 and a parameter. What a request allocates for its caller lives in a heap of arrays.
\<close>

section \<open>Definitions\<close>

subsection \<open>Outside the program\<close>

text \<open>
  libxml2: whether a context for a document can be made, what an XPath evaluates to and whether a document
  has a root. An XPath object is null (None), has no node set (Some None) or a list of nodes, each
  with the contents of its children, which may be null.
\<close>

record 'd xml_lib =
  xl_new_context :: "'d option \<Rightarrow> bool"
  xl_eval :: "'d option \<Rightarrow> string \<Rightarrow> bytes option list list option option"
  xl_root :: "'d \<Rightarrow> bool"

text \<open>One reading of the file: its presence, the document and the last error of the parser.\<close>

record 'd load_env =
  le_access :: "string \<Rightarrow> bool"
  le_read :: "string \<Rightarrow> 'd option"
  le_error :: "(int \<times> bytes) option"

text \<open>Floating point: \<^verbatim>\<open>atof\<close> and the two conversions, on bit patterns.\<close>

record float_ops =
  fo_atof :: "bytes \<Rightarrow> u64"
  fo_narrow :: "u64 \<Rightarrow> u32"
  fo_widen :: "u32 \<Rightarrow> u64"

text \<open>\<^verbatim>\<open>atol\<close>: white space, a sign and digits; out of range it saturates, as \<^verbatim>\<open>strtol\<close> does.\<close>

definition is_space :: "u8 \<Rightarrow> bool" where
  "is_space c \<longleftrightarrow> c \<in> {9, 10, 11, 12, 13, 32}"

fun digits_val :: "bytes \<Rightarrow> int \<Rightarrow> int" where
  "digits_val [] n = n"
| "digits_val (c # cs) n = (if 48 \<le> c \<and> c \<le> 57 then digits_val cs (10 * n + (uint c - 48)) else n)"

definition strtol10 :: "bytes \<Rightarrow> int" where
  "strtol10 s =
     (case dropWhile is_space s of
        [] \<Rightarrow> 0
      | c # cs \<Rightarrow> if c = 45 then - digits_val cs 0 else if c = 43 then digits_val cs 0 else digits_val (c # cs) 0)"

definition atol :: "bytes \<Rightarrow> u64" where
  "atol s = word_of_int (max (- (2 ^ 63)) (min (2 ^ 63 - 1) (strtol10 s)))"

subsection \<open>State\<close>

datatype conf_err = E_None | E_No_File | E_Read_Failed | E_Xml int bytes | E_No_Root | E_No_Entry string

record 'd conf_center =
  cc_doc :: "'d option"
  cc_i64 :: "string \<rightharpoonup> u64 list"
  cc_f64 :: "string \<rightharpoonup> u64 list"
  cc_str :: "string \<rightharpoonup> bytes list"
  cc_path :: "string option"
  cc_err :: conf_err

definition cc_new :: "'d conf_center" where
  "cc_new = \<lparr>cc_doc = None, cc_i64 = Map.empty, cc_f64 = Map.empty, cc_str = Map.empty, cc_path = None, cc_err = E_None\<rparr>"

datatype conf_fault = Null_Str | Out_Of_Range | Bad_Delete | Wrong_Cell

subsection \<open>Loading\<close>

definition conf_file_exist :: "'d load_env \<Rightarrow> string option \<Rightarrow> bool" where
  "conf_file_exist e path = (case path of None \<Rightarrow> False | Some p \<Rightarrow> le_access e p)"

definition conf_load :: "'d xml_lib \<Rightarrow> 'd load_env \<Rightarrow> string option \<Rightarrow> 'd conf_center \<Rightarrow> int \<times> 'd conf_center" where
  "conf_load L e path c =
     (if \<not> conf_file_exist e path then (RC_ERR, c\<lparr>cc_err := E_No_File\<rparr>)
      else
        let c1 = c\<lparr>cc_doc := None, cc_i64 := Map.empty, cc_f64 := Map.empty, cc_str := Map.empty\<rparr>;
            c2 = c1\<lparr>cc_doc := le_read e (the path)\<rparr>
        in case le_read e (the path) of
             None \<Rightarrow> (RC_ERR, c2\<lparr>cc_err := E_Read_Failed\<rparr>)
           | Some d \<Rightarrow>
               (case le_error e of
                  Some (code, msg) \<Rightarrow> (RC_ERR, c2\<lparr>cc_err := E_Xml code msg\<rparr>)
                | None \<Rightarrow> if \<not> xl_root L d then (RC_ERR, c2\<lparr>cc_err := E_No_Root\<rparr>) else (RC_OK, c2)))"

text \<open>The context is a pointer to a path; both may be null.\<close>

definition conf_initialize ::
  "'d xml_lib \<Rightarrow> 'd load_env \<Rightarrow> string option option \<Rightarrow> 'd conf_center \<Rightarrow> int \<times> 'd conf_center" where
  "conf_initialize L e ctx c =
     (case ctx of None \<Rightarrow> (RC_ERR, c) | Some path \<Rightarrow> conf_load L e path (c\<lparr>cc_path := path\<rparr>))"

definition conf_reload :: "'d xml_lib \<Rightarrow> 'd load_env \<Rightarrow> 'd conf_center \<Rightarrow> int \<times> 'd conf_center" where
  "conf_reload L e c = conf_load L e (cc_path c) c"

definition conf_finalize :: "'d conf_center \<Rightarrow> 'd conf_center" where
  "conf_finalize c = (if cc_doc c \<noteq> None then c\<lparr>cc_doc := None\<rparr> else c)"

subsection \<open>Reading the document\<close>

definition GetObjPtr :: "'d xml_lib \<Rightarrow> 'd option \<Rightarrow> string \<Rightarrow> bytes option list list option" where
  "GetObjPtr L d xpath =
     (if \<not> xl_new_context L d then None
      else (case xl_eval L d xpath of
              None \<Rightarrow> None
            | Some None \<Rightarrow> None
            | Some (Some ns) \<Rightarrow> if ns = [] then None else Some ns))"

text \<open>The contents of the children of one node, then of all nodes.\<close>

fun node_contents :: "bytes option list \<Rightarrow> bytes option list" where
  "node_contents [] = []"
| "node_contents (x # xs) = (if x \<noteq> None then x # node_contents xs else node_contents xs)"

definition GetNodeContent :: "'d xml_lib \<Rightarrow> string \<Rightarrow> 'd conf_center \<Rightarrow> int \<times> bytes option list" where
  "GetNodeContent L xpath c =
     (case GetObjPtr L (cc_doc c) xpath of
        None \<Rightarrow> (RC_ERR, [])
      | Some ns \<Rightarrow> (RC_OK, concat (map node_contents ns)))"

text \<open>The loop of \<^verbatim>\<open>GetEntries\<close>; null contents and types other than the three give no entry.\<close>

fun entries_of :: "float_ops \<Rightarrow> vtype \<Rightarrow> bytes option list \<Rightarrow> v_val list" where
  "entries_of F ty [] = []"
| "entries_of F ty (None # xs) = entries_of F ty xs"
| "entries_of F ty (Some s # xs) =
     (case ty of
        TYPE_I64 \<Rightarrow> V_Num (N_l (atol s)) # entries_of F ty xs
      | TYPE_F64 \<Rightarrow> V_Num (N_d (fo_atof F s)) # entries_of F ty xs
      | TYPE_STR \<Rightarrow> V_Str (str_val s (int (length (c_str s)))) # entries_of F ty xs
      | _ \<Rightarrow> entries_of F ty xs)"

definition GetEntries ::
  "'d xml_lib \<Rightarrow> float_ops \<Rightarrow> string option \<Rightarrow> vtype \<Rightarrow> 'd conf_center \<Rightarrow> int \<times> v_val list \<times> 'd conf_center" where
  "GetEntries L F xpath ty c =
     (case xpath of
        None \<Rightarrow> (RC_ERR, [], c)
      | Some xp \<Rightarrow>
          if ty = TYPE_MAX then (RC_ERR, [], c)
          else let (rc, ns) = GetNodeContent L xp c in
            if rc \<noteq> RC_OK then (rc, [], c)
            else if ns = [] then (RC_ERR, [], c\<lparr>cc_err := E_No_Entry xp\<rparr>)
            else (RC_OK, entries_of F ty ns, c))"

text \<open>\<^verbatim>\<open>GetValue\<close> of the three types that are stored; a string is copied up to its terminator.\<close>

definition val_i64 :: "v_val \<Rightarrow> u64" where
  "val_i64 v = (case v of V_Num (N_l x) \<Rightarrow> x | _ \<Rightarrow> 0)"

definition val_f64 :: "v_val \<Rightarrow> u64" where
  "val_f64 v = (case v of V_Num (N_d x) \<Rightarrow> x | _ \<Rightarrow> 0)"

definition val_str :: "v_val \<Rightarrow> bytes" where
  "val_str v = c_str (val_bytes v)"

text \<open>The template for numbers: the group, the map that caches it and the center.\<close>

definition GetConf_group ::
  "'d xml_lib \<Rightarrow> float_ops \<Rightarrow> vtype \<Rightarrow> (v_val \<Rightarrow> 'a) \<Rightarrow> (string \<rightharpoonup> 'a list) \<Rightarrow> string \<Rightarrow> bool \<Rightarrow> v_val \<Rightarrow>
   'd conf_center \<Rightarrow> 'a list \<times> (string \<rightharpoonup> 'a list) \<times> 'd conf_center" where
  "GetConf_group L F ty get m xp wd value c =
     (case m xp of
        Some g \<Rightarrow> (g, m, c)
      | None \<Rightarrow>
          let (rc, es, c') = GetEntries L F (Some xp) ty c in
          if rc \<noteq> RC_OK \<or> es = [] then (if wd then [get value] else [], m, c')
          else let g = map get es in (g, m(xp \<mapsto> g), c'))"

definition group_i64 ::
  "'d xml_lib \<Rightarrow> float_ops \<Rightarrow> string \<Rightarrow> bool \<Rightarrow> v_val \<Rightarrow> 'd conf_center \<Rightarrow> u64 list \<times> 'd conf_center" where
  "group_i64 L F xp wd v c =
     (let (g, m, c') = GetConf_group L F TYPE_I64 val_i64 (cc_i64 c) xp wd v c in (g, c'\<lparr>cc_i64 := m\<rparr>))"

definition group_f64 ::
  "'d xml_lib \<Rightarrow> float_ops \<Rightarrow> string \<Rightarrow> bool \<Rightarrow> v_val \<Rightarrow> 'd conf_center \<Rightarrow> u64 list \<times> 'd conf_center" where
  "group_f64 L F xp wd v c =
     (let (g, m, c') = GetConf_group L F TYPE_F64 val_f64 (cc_f64 c) xp wd v c in (g, c'\<lparr>cc_f64 := m\<rparr>))"

text \<open>The overload for strings.\<close>

definition group_str ::
  "'d xml_lib \<Rightarrow> float_ops \<Rightarrow> string \<Rightarrow> bool \<Rightarrow> v_val \<Rightarrow> 'd conf_center \<Rightarrow> bytes list \<times> 'd conf_center" where
  "group_str L F xp wd v c =
     (case cc_str c xp of
        Some g \<Rightarrow> (g, c)
      | None \<Rightarrow>
          let (rc, es, c') = GetEntries L F (Some xp) TYPE_STR c in
          if rc \<noteq> RC_OK \<or> es = [] then (if wd then [val_str v] else [], c')
          else let g = map val_str es in (g, c'\<lparr>cc_str := (cc_str c')(xp \<mapsto> g)\<rparr>))"

text \<open>The default of a string request, made from readable memory.\<close>

definition str_default :: "bytes \<Rightarrow> v_val" where
  "str_default mem = V_Str (str_val mem (int (length (c_str mem))))"

subsection \<open>The memory of the answers\<close>

datatype cmem = M_chars bytes | M_32 "u32 list" | M_64 "u64 list" | M_ptrs "nat option list"

record cheap =
  cells :: "nat \<rightharpoonup> cmem"
  next_cell :: nat

definition new_cell :: "cmem \<Rightarrow> cheap \<Rightarrow> nat \<times> cheap" where
  "new_cell m h = (next_cell h, h\<lparr>cells := (cells h)(next_cell h \<mapsto> m), next_cell := next_cell h + 1\<rparr>)"

definition delete_cell :: "nat \<Rightarrow> cheap \<Rightarrow> conf_fault + cheap" where
  "delete_cell p h = (if cells h p = None then Inl Bad_Delete else Inr (h\<lparr>cells := (cells h)(p := None)\<rparr>))"

text \<open>The bytes of a fresh copy of a string: \<^verbatim>\<open>StrCpy\<close> and the last byte set to zero.\<close>

definition str_cell :: "bytes \<Rightarrow> bytes" where
  "str_cell s =
     (let size = length s + 1;
          b = (case StrCpy (Some (replicate size 0)) size (Some (s @ [0])) of Some b \<Rightarrow> b | None \<Rightarrow> replicate size 0)
      in b[size - 1 := 0])"

subsection \<open>Requests\<close>

text \<open>What the ends of the requests for one value and for a number array share: the test of the result.\<close>

definition first_of :: "bool \<Rightarrow> 'a list \<Rightarrow> conf_fault + int \<times> 'a option" where
  "first_of wd r =
     (if \<not> wd \<and> r = [] then Inr (RC_ERR, None)
      else (case r of [] \<Rightarrow> Inl Out_Of_Range | x # _ \<Rightarrow> Inr (RC_OK, Some x)))"

definition GetConf_i32 ::
  "'d xml_lib \<Rightarrow> float_ops \<Rightarrow> string option \<Rightarrow> bool \<Rightarrow> u32 \<Rightarrow> 'd conf_center \<Rightarrow> conf_fault + (int \<times> u32 option) \<times> 'd conf_center" where
  "GetConf_i32 L F xpath wd v c =
     (case xpath of
        None \<Rightarrow> Inr ((RC_ERR, None), c)
      | Some xp \<Rightarrow> let (r, c') = group_i64 L F xp wd (V_Num (N_l (scast v))) c in
          map_sum id (\<lambda>o'. (o', c')) (first_of wd (map ucast r)))"

definition GetConf_i64 ::
  "'d xml_lib \<Rightarrow> float_ops \<Rightarrow> string option \<Rightarrow> bool \<Rightarrow> u64 \<Rightarrow> 'd conf_center \<Rightarrow> conf_fault + (int \<times> u64 option) \<times> 'd conf_center" where
  "GetConf_i64 L F xpath wd v c =
     (case xpath of
        None \<Rightarrow> Inr ((RC_ERR, None), c)
      | Some xp \<Rightarrow> let (r, c') = group_i64 L F xp wd (V_Num (N_l v)) c in
          map_sum id (\<lambda>o'. (o', c')) (first_of wd r))"

definition GetConf_f32 ::
  "'d xml_lib \<Rightarrow> float_ops \<Rightarrow> string option \<Rightarrow> bool \<Rightarrow> u32 \<Rightarrow> 'd conf_center \<Rightarrow> conf_fault + (int \<times> u32 option) \<times> 'd conf_center" where
  "GetConf_f32 L F xpath wd v c =
     (case xpath of
        None \<Rightarrow> Inr ((RC_ERR, None), c)
      | Some xp \<Rightarrow> let (r, c') = group_f64 L F xp wd (V_Num (N_d (fo_widen F v))) c in
          map_sum id (\<lambda>o'. (o', c')) (first_of wd (map (fo_narrow F) r)))"

definition GetConf_f64 ::
  "'d xml_lib \<Rightarrow> float_ops \<Rightarrow> string option \<Rightarrow> bool \<Rightarrow> u64 \<Rightarrow> 'd conf_center \<Rightarrow> conf_fault + (int \<times> u64 option) \<times> 'd conf_center" where
  "GetConf_f64 L F xpath wd v c =
     (case xpath of
        None \<Rightarrow> Inr ((RC_ERR, None), c)
      | Some xp \<Rightarrow> let (r, c') = group_f64 L F xp wd (V_Num (N_d v)) c in
          map_sum id (\<lambda>o'. (o', c')) (first_of wd r))"

text \<open>
  A string: the caller's pointer, when it gives one, is overwritten only on success. The length of the default
  is taken whether or not a default is wanted.
\<close>

definition GetConf_str ::
  "'d xml_lib \<Rightarrow> float_ops \<Rightarrow> nat option option \<Rightarrow> string option \<Rightarrow> bool \<Rightarrow> bytes option \<Rightarrow> 'd conf_center \<Rightarrow> cheap \<Rightarrow>
   conf_fault + (int \<times> nat option option) \<times> 'd conf_center \<times> cheap" where
  "GetConf_str L F conf xpath wd v c h =
     (if conf = None \<or> xpath = None then Inr ((RC_ERR, conf), c, h)
      else if wd \<and> v = None then Inr ((RC_ERR, conf), c, h)
      else (case v of
              None \<Rightarrow> Inl Null_Str
            | Some mem \<Rightarrow>
                let (r, c') = group_str L F (the xpath) wd (str_default mem) c in
                if \<not> wd \<and> r = [] then Inr ((RC_ERR, conf), c', h)
                else (case r of
                        [] \<Rightarrow> Inl Out_Of_Range
                      | s # _ \<Rightarrow> let (p, h') = new_cell (M_chars (str_cell s)) h
                                in Inr ((RC_OK, Some (Some p)), c', h'))))"

text \<open>\<^verbatim>\<open>ReleaseConf\<close> of a string; the four for arrays of numbers have the same body.\<close>

definition ReleaseConf_str :: "nat option option \<Rightarrow> cheap \<Rightarrow> conf_fault + nat option option \<times> cheap" where
  "ReleaseConf_str conf h =
     (case conf of
        None \<Rightarrow> Inr (conf, h)
      | Some None \<Rightarrow> Inr (conf, h)
      | Some (Some p) \<Rightarrow> map_sum id (\<lambda>h'. (Some None, h')) (delete_cell p h))"

definition ReleaseConf_i32s :: "nat option option \<Rightarrow> cheap \<Rightarrow> conf_fault + nat option option \<times> cheap" where
  "ReleaseConf_i32s = ReleaseConf_str"

definition ReleaseConf_i64s :: "nat option option \<Rightarrow> cheap \<Rightarrow> conf_fault + nat option option \<times> cheap" where
  "ReleaseConf_i64s = ReleaseConf_str"

definition ReleaseConf_f32s :: "nat option option \<Rightarrow> cheap \<Rightarrow> conf_fault + nat option option \<times> cheap" where
  "ReleaseConf_f32s = ReleaseConf_str"

definition ReleaseConf_f64s :: "nat option option \<Rightarrow> cheap \<Rightarrow> conf_fault + nat option option \<times> cheap" where
  "ReleaseConf_f64s = ReleaseConf_str"

text \<open>
  Arrays of numbers: the count is set even when the request fails. The array is written element by element
  to its length, which the copy of the list states.
\<close>

definition give_array ::
  "('a list \<Rightarrow> cmem) \<Rightarrow> bool \<Rightarrow> 'a list \<Rightarrow> nat option option \<Rightarrow> cheap \<Rightarrow> (int \<times> nat option option \<times> int) \<times> cheap" where
  "give_array mk wd r conf h =
     (let n = int (length r) in
      if \<not> wd \<and> n = 0 then ((RC_ERR, conf, n), h)
      else let (p, h') = new_cell (mk r) h in ((RC_OK, Some (Some p), n), h'))"

definition GetConf_i32s ::
  "'d xml_lib \<Rightarrow> float_ops \<Rightarrow> nat option option \<Rightarrow> int \<Rightarrow> string option \<Rightarrow> bool \<Rightarrow> u32 \<Rightarrow> 'd conf_center \<Rightarrow> cheap \<Rightarrow>
   (int \<times> nat option option \<times> int) \<times> 'd conf_center \<times> cheap" where
  "GetConf_i32s L F conf n xpath wd v c h =
     (if conf = None \<or> xpath = None then ((RC_ERR, conf, n), c, h)
      else let (r, c') = group_i64 L F (the xpath) wd (V_Num (N_l (scast v))) c;
               (res, h') = give_array M_32 wd (map ucast r) conf h
           in (res, c', h'))"

definition GetConf_i64s ::
  "'d xml_lib \<Rightarrow> float_ops \<Rightarrow> nat option option \<Rightarrow> int \<Rightarrow> string option \<Rightarrow> bool \<Rightarrow> u64 \<Rightarrow> 'd conf_center \<Rightarrow> cheap \<Rightarrow>
   (int \<times> nat option option \<times> int) \<times> 'd conf_center \<times> cheap" where
  "GetConf_i64s L F conf n xpath wd v c h =
     (if conf = None \<or> xpath = None then ((RC_ERR, conf, n), c, h)
      else let (r, c') = group_i64 L F (the xpath) wd (V_Num (N_l v)) c;
               (res, h') = give_array M_64 wd r conf h
           in (res, c', h'))"

definition GetConf_f32s ::
  "'d xml_lib \<Rightarrow> float_ops \<Rightarrow> nat option option \<Rightarrow> int \<Rightarrow> string option \<Rightarrow> bool \<Rightarrow> u32 \<Rightarrow> 'd conf_center \<Rightarrow> cheap \<Rightarrow>
   (int \<times> nat option option \<times> int) \<times> 'd conf_center \<times> cheap" where
  "GetConf_f32s L F conf n xpath wd v c h =
     (if conf = None \<or> xpath = None then ((RC_ERR, conf, n), c, h)
      else let (r, c') = group_f64 L F (the xpath) wd (V_Num (N_d (fo_widen F v))) c;
               (res, h') = give_array M_32 wd (map (fo_narrow F) r) conf h
           in (res, c', h'))"

definition GetConf_f64s ::
  "'d xml_lib \<Rightarrow> float_ops \<Rightarrow> nat option option \<Rightarrow> int \<Rightarrow> string option \<Rightarrow> bool \<Rightarrow> u64 \<Rightarrow> 'd conf_center \<Rightarrow> cheap \<Rightarrow>
   (int \<times> nat option option \<times> int) \<times> 'd conf_center \<times> cheap" where
  "GetConf_f64s L F conf n xpath wd v c h =
     (if conf = None \<or> xpath = None then ((RC_ERR, conf, n), c, h)
      else let (r, c') = group_f64 L F (the xpath) wd (V_Num (N_d v)) c;
               (res, h') = give_array M_64 wd r conf h
           in (res, c', h'))"

text \<open>
  Arrays of strings: an array of null pointers, filled with a copy of each string in turn. The count is set
  on success only.
\<close>

fun fill_strs :: "nat \<Rightarrow> nat \<Rightarrow> bytes list \<Rightarrow> cheap \<Rightarrow> conf_fault + cheap" where
  "fill_strs a i [] h = Inr h"
| "fill_strs a i (s # ss) h =
     (let (p, h1) = new_cell (M_chars (str_cell s)) h in
      case cells h1 a of
        Some (M_ptrs ps) \<Rightarrow>
          if length ps \<le> i then Inl Out_Of_Range
          else fill_strs a (i + 1) ss (h1\<lparr>cells := (cells h1)(a \<mapsto> M_ptrs (ps[i := Some p]))\<rparr>)
      | _ \<Rightarrow> Inl Wrong_Cell)"

definition GetConf_strs ::
  "'d xml_lib \<Rightarrow> float_ops \<Rightarrow> nat option option \<Rightarrow> int \<Rightarrow> string option \<Rightarrow> bool \<Rightarrow> bytes option \<Rightarrow> 'd conf_center \<Rightarrow> cheap \<Rightarrow>
   conf_fault + (int \<times> nat option option \<times> int) \<times> 'd conf_center \<times> cheap" where
  "GetConf_strs L F conf n xpath wd v c h =
     (if conf = None \<or> xpath = None then Inr ((RC_ERR, conf, n), c, h)
      else if wd \<and> v = None then Inr ((RC_ERR, conf, n), c, h)
      else (case v of
              None \<Rightarrow> Inl Null_Str
            | Some mem \<Rightarrow>
                let (r, c') = group_str L F (the xpath) wd (str_default mem) c in
                if \<not> wd \<and> r = [] then Inr ((RC_ERR, conf, n), c', h)
                else let (a, h1) = new_cell (M_ptrs (replicate (length r) None)) h
                     in map_sum id (\<lambda>h'. ((RC_OK, Some (Some a), int (length r)), c', h')) (fill_strs a 0 r h1)))"

text \<open>The release walks over as many pointers as the caller counts.\<close>

fun release_ptrs :: "nat option list \<Rightarrow> cheap \<Rightarrow> conf_fault + cheap" where
  "release_ptrs [] h = Inr h"
| "release_ptrs (None # ps) h = release_ptrs ps h"
| "release_ptrs (Some p # ps) h = (case delete_cell p h of Inl e \<Rightarrow> Inl e | Inr h' \<Rightarrow> release_ptrs ps h')"

definition ReleaseConf_strs :: "nat option option \<Rightarrow> int \<Rightarrow> cheap \<Rightarrow> conf_fault + nat option option \<times> cheap" where
  "ReleaseConf_strs conf n h =
     (if conf = None \<or> n < 1 then Inr (conf, h)
      else (case the conf of
              None \<Rightarrow> Inr (conf, h)
            | Some a \<Rightarrow>
                (case cells h a of
                   Some (M_ptrs ps) \<Rightarrow>
                     if int (length ps) < n then Inl Out_Of_Range
                     else (case release_ptrs (take (nat n) ps) h of
                             Inl e \<Rightarrow> Inl e
                           | Inr h' \<Rightarrow> map_sum id (\<lambda>h''. (Some None, h'')) (delete_cell a h'))
                 | _ \<Rightarrow> Inl Wrong_Cell)))"

subsection \<open>A client and what it is promised\<close>

text \<open>
  The ten requests with their defaults, and what they give. The client passes the address of a null pointer
  for a string or an array, reads what it was given and releases it, on failure too.
\<close>

datatype conf_req =
    Q_i32 u32 | Q_i64 u64 | Q_f32 u32 | Q_f64 u64 | Q_str "bytes option"
  | Q_i32s u32 | Q_i64s u64 | Q_f32s u32 | Q_f64s u64 | Q_strs "bytes option"

datatype conf_val = C_32 u32 | C_64 u64 | C_str bytes | C_32s "u32 list" | C_64s "u64 list" | C_strs "bytes list"

fun read_cell :: "cheap \<Rightarrow> nat option option \<Rightarrow> conf_fault + cmem" where
  "read_cell h (Some (Some p)) = (case cells h p of None \<Rightarrow> Inl Wrong_Cell | Some m \<Rightarrow> Inr m)"
| "read_cell h _ = Inl Wrong_Cell"

fun read_chars :: "cheap \<Rightarrow> nat option option \<Rightarrow> conf_fault + bytes" where
  "read_chars h p = (case read_cell h p of Inr (M_chars b) \<Rightarrow> Inr (c_str b) | _ \<Rightarrow> Inl Wrong_Cell)"

fun read_all :: "cheap \<Rightarrow> nat option list \<Rightarrow> conf_fault + bytes list" where
  "read_all h [] = Inr []"
| "read_all h (p # ps) =
     (case read_chars h (Some p) of
        Inl e \<Rightarrow> Inl e
      | Inr b \<Rightarrow> map_sum id (Cons b) (read_all h ps))"

fun read_val :: "conf_req \<Rightarrow> cheap \<Rightarrow> nat option option \<Rightarrow> int \<Rightarrow> conf_fault + conf_val" where
  "read_val (Q_strs v) h p n =
     (case read_cell h p of
        Inr (M_ptrs ps) \<Rightarrow> if int (length ps) < n then Inl Out_Of_Range else map_sum id C_strs (read_all h (take (nat n) ps))
      | _ \<Rightarrow> Inl Wrong_Cell)"
| "read_val _ h p n =
     (case read_cell h p of
        Inr (M_chars b) \<Rightarrow> Inr (C_str (c_str b))
      | Inr (M_32 xs) \<Rightarrow> if int (length xs) < n then Inl Out_Of_Range else Inr (C_32s (take (nat n) xs))
      | Inr (M_64 xs) \<Rightarrow> if int (length xs) < n then Inl Out_Of_Range else Inr (C_64s (take (nat n) xs))
      | _ \<Rightarrow> Inl Wrong_Cell)"

definition ask_one ::
  "('a \<Rightarrow> conf_val) \<Rightarrow> cheap \<Rightarrow> conf_fault + (int \<times> 'a option) \<times> 'd conf_center \<Rightarrow>
   conf_fault + conf_val option \<times> 'd conf_center \<times> cheap" where
  "ask_one mk h res = map_sum id (\<lambda>((rc, x), c'). (if rc = RC_OK then map_option mk x else None, c', h)) res"

definition ask_many ::
  "conf_req \<Rightarrow> (nat option option \<Rightarrow> int \<Rightarrow> cheap \<Rightarrow> conf_fault + nat option option \<times> cheap) \<Rightarrow>
   (int \<times> nat option option \<times> int) \<times> 'd conf_center \<times> cheap \<Rightarrow> conf_fault + conf_val option \<times> 'd conf_center \<times> cheap" where
  "ask_many q release res =
     (case res of
        ((rc, p, n), c', h) \<Rightarrow>
          (case (if rc = RC_OK then map_sum id Some (read_val q h p n) else Inr None) of
             Inl e \<Rightarrow> Inl e
           | Inr x \<Rightarrow> map_sum id (\<lambda>(_, h'). (x, c', h')) (release p n h)))"

fun ask ::
  "'d xml_lib \<Rightarrow> float_ops \<Rightarrow> conf_req \<Rightarrow> string option \<Rightarrow> bool \<Rightarrow> 'd conf_center \<Rightarrow> cheap \<Rightarrow>
   conf_fault + conf_val option \<times> 'd conf_center \<times> cheap" where
  "ask L F (Q_i32 v) xp wd c h = ask_one C_32 h (GetConf_i32 L F xp wd v c)"
| "ask L F (Q_i64 v) xp wd c h = ask_one C_64 h (GetConf_i64 L F xp wd v c)"
| "ask L F (Q_f32 v) xp wd c h = ask_one C_32 h (GetConf_f32 L F xp wd v c)"
| "ask L F (Q_f64 v) xp wd c h = ask_one C_64 h (GetConf_f64 L F xp wd v c)"
| "ask L F (Q_str v) xp wd c h =
     (case GetConf_str L F (Some None) xp wd v c h of
        Inl e \<Rightarrow> Inl e
      | Inr ((rc, p), c', h') \<Rightarrow> ask_many (Q_str v) (\<lambda>p n. ReleaseConf_str p) ((rc, p, 0), c', h'))"
| "ask L F (Q_i32s v) xp wd c h =
     ask_many (Q_i32s v) (\<lambda>p n. ReleaseConf_i32s p) (GetConf_i32s L F (Some None) 0 xp wd v c h)"
| "ask L F (Q_i64s v) xp wd c h =
     ask_many (Q_i64s v) (\<lambda>p n. ReleaseConf_i64s p) (GetConf_i64s L F (Some None) 0 xp wd v c h)"
| "ask L F (Q_f32s v) xp wd c h =
     ask_many (Q_f32s v) (\<lambda>p n. ReleaseConf_f32s p) (GetConf_f32s L F (Some None) 0 xp wd v c h)"
| "ask L F (Q_f64s v) xp wd c h =
     ask_many (Q_f64s v) (\<lambda>p n. ReleaseConf_f64s p) (GetConf_f64s L F (Some None) 0 xp wd v c h)"
| "ask L F (Q_strs v) xp wd c h =
     (case GetConf_strs L F (Some None) 0 xp wd v c h of
        Inl e \<Rightarrow> Inl e
      | Inr res \<Rightarrow> ask_many (Q_strs v) ReleaseConf_strs res)"

text \<open>Requests and reloads in any order.\<close>

datatype 'd conf_op = Ask conf_req "string option" bool | Reload_Conf "'d load_env"

datatype conf_out = Got "conf_val option" | Loaded int

fun conf_run ::
  "'d xml_lib \<Rightarrow> float_ops \<Rightarrow> 'd conf_op list \<Rightarrow> 'd conf_center \<Rightarrow> cheap \<Rightarrow>
   conf_fault + conf_out list \<times> 'd conf_center \<times> cheap" where
  "conf_run L F [] c h = Inr ([], c, h)"
| "conf_run L F (Ask q xp wd # ops) c h =
     (case ask L F q xp wd c h of
        Inl e \<Rightarrow> Inl e
      | Inr (x, c', h') \<Rightarrow> map_sum id (\<lambda>(xs, r). (Got x # xs, r)) (conf_run L F ops c' h'))"
| "conf_run L F (Reload_Conf e # ops) c h =
     (let (rc, c') = conf_reload L e c in map_sum id (\<lambda>(xs, r). (Loaded rc # xs, r)) (conf_run L F ops c' h))"

text \<open>The specification has no cache and no memory: the texts under an XPath in the document of the last reading.\<close>

definition doc_texts :: "'d xml_lib \<Rightarrow> 'd option \<Rightarrow> string \<Rightarrow> bytes list" where
  "doc_texts L d xp =
     (case GetObjPtr L d xp of None \<Rightarrow> [] | Some ns \<Rightarrow> map the (filter (\<lambda>x. x \<noteq> None) (concat ns)))"

definition or_default :: "bool \<Rightarrow> 'a \<Rightarrow> 'a list \<Rightarrow> 'a list" where
  "or_default wd v r = (if r = [] \<and> wd then [v] else r)"

definition one_of :: "('a \<Rightarrow> conf_val) \<Rightarrow> 'a list \<Rightarrow> conf_val option" where
  "one_of mk r = (case r of [] \<Rightarrow> None | x # _ \<Rightarrow> Some (mk x))"

definition all_of :: "('a list \<Rightarrow> conf_val) \<Rightarrow> 'a list \<Rightarrow> conf_val option" where
  "all_of mk r = (if r = [] then None else Some (mk r))"

fun conf_spec ::
  "'d xml_lib \<Rightarrow> float_ops \<Rightarrow> 'd option \<Rightarrow> conf_req \<Rightarrow> string option \<Rightarrow> bool \<Rightarrow> conf_val option" where
  "conf_spec L F d q None wd = None"
| "conf_spec L F d (Q_i32 v) (Some xp) wd = one_of C_32 (or_default wd v (map (ucast \<circ> atol) (doc_texts L d xp)))"
| "conf_spec L F d (Q_i64 v) (Some xp) wd = one_of C_64 (or_default wd v (map atol (doc_texts L d xp)))"
| "conf_spec L F d (Q_f32 v) (Some xp) wd =
     one_of C_32 (or_default wd (fo_narrow F (fo_widen F v)) (map (fo_narrow F \<circ> fo_atof F) (doc_texts L d xp)))"
| "conf_spec L F d (Q_f64 v) (Some xp) wd = one_of C_64 (or_default wd v (map (fo_atof F) (doc_texts L d xp)))"
| "conf_spec L F d (Q_str v) (Some xp) wd =
     (if v = None then None else one_of C_str (or_default wd (c_str (the v)) (map c_str (doc_texts L d xp))))"
| "conf_spec L F d (Q_i32s v) (Some xp) wd = all_of C_32s (or_default wd v (map (ucast \<circ> atol) (doc_texts L d xp)))"
| "conf_spec L F d (Q_i64s v) (Some xp) wd = all_of C_64s (or_default wd v (map atol (doc_texts L d xp)))"
| "conf_spec L F d (Q_f32s v) (Some xp) wd =
     all_of C_32s (or_default wd (fo_narrow F (fo_widen F v)) (map (fo_narrow F \<circ> fo_atof F) (doc_texts L d xp)))"
| "conf_spec L F d (Q_f64s v) (Some xp) wd = all_of C_64s (or_default wd v (map (fo_atof F) (doc_texts L d xp)))"
| "conf_spec L F d (Q_strs v) (Some xp) wd =
     (if v = None then None else all_of C_strs (or_default wd (c_str (the v)) (map c_str (doc_texts L d xp))))"

definition load_doc :: "'d load_env \<Rightarrow> string option \<Rightarrow> 'd option \<Rightarrow> 'd option" where
  "load_doc e path d = (if conf_file_exist e path then le_read e (the path) else d)"

definition load_ok :: "'d xml_lib \<Rightarrow> 'd load_env \<Rightarrow> string option \<Rightarrow> bool" where
  "load_ok L e path \<longleftrightarrow> conf_file_exist e path \<and> le_error e = None \<and> (\<exists>d \<in> set_option (le_read e (the path)). xl_root L d)"

fun conf_run_spec ::
  "'d xml_lib \<Rightarrow> float_ops \<Rightarrow> 'd conf_op list \<Rightarrow> string option \<Rightarrow> 'd option \<Rightarrow> conf_out list" where
  "conf_run_spec L F [] path d = []"
| "conf_run_spec L F (Ask q xp wd # ops) path d = Got (conf_spec L F d q xp wd) # conf_run_spec L F ops path d"
| "conf_run_spec L F (Reload_Conf e # ops) path d =
     Loaded (if load_ok L e path then RC_OK else RC_ERR) # conf_run_spec L F ops path (load_doc e path d)"

text \<open>A string request must give a default, wanted or not, unless it is refused before the default is looked at.\<close>

fun gives_default :: "'d conf_op \<Rightarrow> bool" where
  "gives_default (Ask (Q_str v) xp wd) \<longleftrightarrow> v \<noteq> None \<or> wd \<or> xp = None"
| "gives_default (Ask (Q_strs v) xp wd) \<longleftrightarrow> v \<noteq> None \<or> wd \<or> xp = None"
| "gives_default _ \<longleftrightarrow> True"

lemma gives_default_iff:
  "gives_default op \<longleftrightarrow> \<not> (\<exists>xp. op = Ask (Q_str None) (Some xp) False \<or> op = Ask (Q_strs None) (Some xp) False)"
  by (induct op rule: gives_default.induct) auto

section \<open>The cache\<close>

text \<open>Every cached group is what the document gives, and is not empty.\<close>

definition cache_ok :: "'d xml_lib \<Rightarrow> float_ops \<Rightarrow> 'd conf_center \<Rightarrow> bool" where
  "cache_ok L F c \<longleftrightarrow>
     (\<forall>xp g. cc_i64 c xp = Some g \<longrightarrow> g = map atol (doc_texts L (cc_doc c) xp) \<and> g \<noteq> []) \<and>
     (\<forall>xp g. cc_f64 c xp = Some g \<longrightarrow> g = map (fo_atof F) (doc_texts L (cc_doc c) xp) \<and> g \<noteq> []) \<and>
     (\<forall>xp g. cc_str c xp = Some g \<longrightarrow> g = map c_str (doc_texts L (cc_doc c) xp) \<and> g \<noteq> [])"

definition same_source :: "'d conf_center \<Rightarrow> 'd conf_center \<Rightarrow> bool" where
  "same_source c c' \<longleftrightarrow> cc_doc c' = cc_doc c \<and> cc_path c' = cc_path c"

text \<open>The contract of a cached group of values, and what a client may conclude from it.\<close>

locale value_cache =
  fixes group :: "string \<Rightarrow> bool \<Rightarrow> 'v \<Rightarrow> 'c \<Rightarrow> 'a list \<times> 'c"
    and source :: "'c \<Rightarrow> string \<Rightarrow> 'a list"
    and get :: "'v \<Rightarrow> 'a"
    and inv :: "'c \<Rightarrow> bool"
    and same :: "'c \<Rightarrow> 'c \<Rightarrow> bool"
  assumes answer: "inv c \<Longrightarrow> fst (group xp wd v c) = or_default wd (get v) (source c xp)"
    and keeps: "inv c \<Longrightarrow> inv (snd (group xp wd v c))"
    and stays: "inv c \<Longrightarrow> same c (snd (group xp wd v c))"
    and source_same: "same c c' \<Longrightarrow> source c' = source c"
begin

lemma group_cases:
  assumes "inv c"
  obtains c' where "group xp wd v c = (or_default wd (get v) (source c xp), c')" "inv c'" "same c c'"
  using answer [OF assms] keeps [OF assms] stays [OF assms] by (metis prod.collapse)

lemma wanted_not_empty: "inv c \<Longrightarrow> wd \<Longrightarrow> fst (group xp wd v c) \<noteq> []"
  by (simp add: answer or_default_def)

text \<open>An answer does not depend on the questions before it.\<close>

fun group_state :: "(string \<times> bool \<times> 'v) list \<Rightarrow> 'c \<Rightarrow> 'c" where
  "group_state [] c = c"
| "group_state ((xp, wd, v) # qs) c = group_state qs (snd (group xp wd v c))"

lemma history_irrelevant:
  "inv c \<Longrightarrow> fst (group xp wd v (group_state qs c)) = fst (group xp wd v c)"
proof (induction qs c rule: group_state.induct)
  case (2 xp' wd' v' qs c)
  then show ?case
    using keeps [OF 2(2), of xp' wd' v'] stays [OF 2(2), of xp' wd' v'] by (simp add: answer source_same)
qed simp

end

lemma node_contents_texts: "node_contents xs = map Some (map the (filter (\<lambda>x. x \<noteq> None) xs))"
  by (induction xs) auto

lemma node_content_texts:
  "GetNodeContent L xp c =
     (if GetObjPtr L (cc_doc c) xp = None then RC_ERR else RC_OK, map Some (doc_texts L (cc_doc c) xp))"
proof (cases "GetObjPtr L (cc_doc c) xp")
  case (Some ns)
  have "concat (map node_contents ns) = map Some (map the (filter (\<lambda>x. x \<noteq> None) (concat ns)))"
    by (induction ns) (simp_all add: node_contents_texts)
  with Some show ?thesis by (simp add: GetNodeContent_def doc_texts_def)
qed (simp add: GetNodeContent_def doc_texts_def)

lemma val_str_entry: "val_str (V_Str (str_val s (int (length (c_str s))))) = c_str s"
proof -
  have "c_str (c_str s) = c_str s" using c_str_fill [OF c_str_no_zero, of s 0] by simp
  then show ?thesis by (simp add: val_str_def str_val_def Let_def)
qed

lemma val_str_default [simp]: "val_str (str_default m) = c_str m"
  by (simp add: str_default_def val_str_entry)

lemma entries_values:
  "map val_i64 (entries_of F TYPE_I64 (map Some ts)) = map atol ts"
  "map val_f64 (entries_of F TYPE_F64 (map Some ts)) = map (fo_atof F) ts"
  "map val_str (entries_of F TYPE_STR (map Some ts)) = map c_str ts"
  by (induction ts) (simp_all add: val_i64_def val_f64_def val_str_entry)

text \<open>The body the three groups share: the entries of the document, nothing else but the message changed.\<close>

lemma GetEntries_texts:
  assumes "ty \<in> {TYPE_I64, TYPE_F64, TYPE_STR}"
  obtains rc e where "GetEntries L F (Some xp) ty c =
      (rc, entries_of F ty (map Some (doc_texts L (cc_doc c) xp)), c\<lparr>cc_err := e\<rparr>)"
    "rc = RC_OK \<or> doc_texts L (cc_doc c) xp = []"
proof -
  have c: "c\<lparr>cc_err := cc_err c\<rparr> = c" by simp
  show thesis
  proof (cases "GetObjPtr L (cc_doc c) xp = None")
    case True
    then have "doc_texts L (cc_doc c) xp = []" by (simp add: doc_texts_def)
    with True show thesis
      using assms by (intro that [of RC_ERR "cc_err c"]) (auto simp: GetEntries_def node_content_texts)
  next
    case False
    then show thesis
    proof (cases "doc_texts L (cc_doc c) xp = []")
      case True
      with False show thesis
        using assms by (intro that [of RC_ERR "E_No_Entry xp"]) (auto simp: GetEntries_def node_content_texts)
    next
      case n: False
      with False show thesis
        using assms by (intro that [of RC_OK "cc_err c"]) (auto simp: GetEntries_def node_content_texts)
    qed
  qed
qed

lemma entries_empty: "ty \<in> {TYPE_I64, TYPE_F64, TYPE_STR} \<Longrightarrow> entries_of F ty (map Some ts) = [] \<longleftrightarrow> ts = []"
  by (cases ts) auto

lemma GetConf_group_miss:
  assumes "m xp = None" and ty: "ty \<in> {TYPE_I64, TYPE_F64, TYPE_STR}"
  obtains e where "GetConf_group L F ty get m xp wd v c =
     (let g = map get (entries_of F ty (map Some (doc_texts L (cc_doc c) xp)))
      in (or_default wd (get v) g, if g = [] then m else m(xp \<mapsto> g), c\<lparr>cc_err := e\<rparr>))"
proof -
  obtain rc e where e: "GetEntries L F (Some xp) ty c =
      (rc, entries_of F ty (map Some (doc_texts L (cc_doc c) xp)), c\<lparr>cc_err := e\<rparr>)"
    and "rc = RC_OK \<or> doc_texts L (cc_doc c) xp = []"
    using GetEntries_texts [OF ty] by metis
  with assms show thesis
    by (intro that [of e]) (auto simp: GetConf_group_def or_default_def Let_def entries_empty [OF ty])
qed

lemma group_str_template:
  "group_str L F xp wd v c =
     (let (g, m, c') = GetConf_group L F TYPE_STR val_str (cc_str c) xp wd v c in (g, c'\<lparr>cc_str := m\<rparr>))"
proof (cases "cc_str c xp")
  case None
  obtain rc e where "GetEntries L F (Some xp) TYPE_STR c =
      (rc, entries_of F TYPE_STR (map Some (doc_texts L (cc_doc c) xp)), c\<lparr>cc_err := e\<rparr>)"
    using GetEntries_texts [of TYPE_STR] by (metis insertCI)
  with None show ?thesis by (simp add: group_str_def GetConf_group_def Let_def)
qed (simp add: group_str_def GetConf_group_def)

lemma cache_ok_cong:
  "cc_doc c' = cc_doc c \<Longrightarrow> cc_i64 c' = cc_i64 c \<Longrightarrow> cc_f64 c' = cc_f64 c \<Longrightarrow> cc_str c' = cc_str c \<Longrightarrow>
   cache_ok L F c' = cache_ok L F c"
  by (simp add: cache_ok_def)

lemma group_i64_laws:
  assumes c: "cache_ok L F c"
  shows "fst (group_i64 L F xp wd v c) = or_default wd (val_i64 v) (map atol (doc_texts L (cc_doc c) xp)) \<and>
    cache_ok L F (snd (group_i64 L F xp wd v c)) \<and> same_source c (snd (group_i64 L F xp wd v c))"
proof (cases "cc_i64 c xp")
  case None
  from GetConf_group_miss [where m = "cc_i64 c" and ty = TYPE_I64 and xp = xp, OF this] obtain e where
    "GetConf_group L F TYPE_I64 val_i64 (cc_i64 c) xp wd v c =
     (let g = map val_i64 (entries_of F TYPE_I64 (map Some (doc_texts L (cc_doc c) xp)))
      in (or_default wd (val_i64 v) g, if g = [] then cc_i64 c else (cc_i64 c)(xp \<mapsto> g), c\<lparr>cc_err := e\<rparr>))"
    by (metis insertCI)
  then show ?thesis
    using c by (auto simp: group_i64_def entries_values Let_def cache_ok_def same_source_def)
next
  case (Some g)
  with c have "g = map atol (doc_texts L (cc_doc c) xp)" "g \<noteq> []" by (auto simp: cache_ok_def)
  with Some show ?thesis
    using c by (auto simp: group_i64_def GetConf_group_def or_default_def same_source_def)
qed

lemma group_f64_laws:
  assumes c: "cache_ok L F c"
  shows "fst (group_f64 L F xp wd v c) = or_default wd (val_f64 v) (map (fo_atof F) (doc_texts L (cc_doc c) xp)) \<and>
    cache_ok L F (snd (group_f64 L F xp wd v c)) \<and> same_source c (snd (group_f64 L F xp wd v c))"
proof (cases "cc_f64 c xp")
  case None
  from GetConf_group_miss [where m = "cc_f64 c" and ty = TYPE_F64 and xp = xp, OF this] obtain e where
    "GetConf_group L F TYPE_F64 val_f64 (cc_f64 c) xp wd v c =
     (let g = map val_f64 (entries_of F TYPE_F64 (map Some (doc_texts L (cc_doc c) xp)))
      in (or_default wd (val_f64 v) g, if g = [] then cc_f64 c else (cc_f64 c)(xp \<mapsto> g), c\<lparr>cc_err := e\<rparr>))"
    by (metis insertCI)
  then show ?thesis
    using c by (auto simp: group_f64_def entries_values Let_def cache_ok_def same_source_def)
next
  case (Some g)
  with c have "g = map (fo_atof F) (doc_texts L (cc_doc c) xp)" "g \<noteq> []" by (auto simp: cache_ok_def)
  with Some show ?thesis
    using c by (auto simp: group_f64_def GetConf_group_def or_default_def same_source_def)
qed

lemma group_str_laws:
  assumes c: "cache_ok L F c"
  shows "fst (group_str L F xp wd v c) = or_default wd (val_str v) (map c_str (doc_texts L (cc_doc c) xp)) \<and>
    cache_ok L F (snd (group_str L F xp wd v c)) \<and> same_source c (snd (group_str L F xp wd v c))"
proof (cases "cc_str c xp")
  case None
  from GetConf_group_miss [where m = "cc_str c" and ty = TYPE_STR and xp = xp, OF this] obtain e where
    "GetConf_group L F TYPE_STR val_str (cc_str c) xp wd v c =
     (let g = map val_str (entries_of F TYPE_STR (map Some (doc_texts L (cc_doc c) xp)))
      in (or_default wd (val_str v) g, if g = [] then cc_str c else (cc_str c)(xp \<mapsto> g), c\<lparr>cc_err := e\<rparr>))"
    by (metis insertCI)
  then show ?thesis
    using c by (auto simp: group_str_template entries_values Let_def cache_ok_def same_source_def)
next
  case (Some g)
  with c have "g = map c_str (doc_texts L (cc_doc c) xp)" "g \<noteq> []" by (auto simp: cache_ok_def)
  with Some show ?thesis
    using c by (auto simp: group_str_def or_default_def same_source_def)
qed

interpretation ints: value_cache "group_i64 L F" "\<lambda>c xp. map atol (doc_texts L (cc_doc c) xp)" val_i64 "cache_ok L F" same_source
  for L F
  by unfold_locales (simp_all add: group_i64_laws, simp add: same_source_def)

interpretation floats: value_cache "group_f64 L F" "\<lambda>c xp. map (fo_atof F) (doc_texts L (cc_doc c) xp)" val_f64 "cache_ok L F" same_source
  for L F
  by unfold_locales (simp_all add: group_f64_laws, simp add: same_source_def)

interpretation strs: value_cache "group_str L F" "\<lambda>c xp. map c_str (doc_texts L (cc_doc c) xp)" val_str "cache_ok L F" same_source
  for L F
  by unfold_locales (simp_all add: group_str_laws, simp add: same_source_def)

section \<open>The memory\<close>

definition heap_ok :: "cheap \<Rightarrow> bool" where
  "heap_ok h \<longleftrightarrow> (\<forall>p \<ge> next_cell h. cells h p = None)"

text \<open>Two heaps with the same content, when cells were taken and given back in between.\<close>

definition given_back :: "cheap \<Rightarrow> cheap \<Rightarrow> bool" where
  "given_back h h' \<longleftrightarrow> cells h' = cells h \<and> next_cell h \<le> next_cell h'"

lemma given_back_refl [simp]: "given_back h h"
  by (simp add: given_back_def)

lemma given_back_trans: "given_back h h' \<Longrightarrow> given_back h' h'' \<Longrightarrow> given_back h h''"
  by (simp add: given_back_def)

lemma given_back_ok: "heap_ok h \<Longrightarrow> given_back h h' \<Longrightarrow> heap_ok h'"
  by (auto simp: heap_ok_def given_back_def)

lemma heap_ok_next [simp]: "heap_ok h \<Longrightarrow> cells h (next_cell h) = None"
  by (simp add: heap_ok_def)

lemma str_cell_reads: "0 \<notin> set s \<Longrightarrow> c_str (str_cell s) = s"
proof -
  assume s: "0 \<notin> set s"
  have c: "c_str s = s" using c_str_fill [OF s, of 0] by simp
  then have z: "c_str (s @ [0]) = s" by (simp add: c_str_snoc)
  show ?thesis
  proof (cases "s = []")
    case True
    then show ?thesis by (simp add: str_cell_def StrCpy_def Let_def c_str_def)
  next
    case False
    then have "str_cell s = (s @ [0])[length s := 0]"
      using StrCpy_cell [of "length s" "s @ [0]"] z by (simp add: str_cell_def Let_def str_val_def)
    with z show ?thesis by simp
  qed
qed

text \<open>An array of numbers is read and released.\<close>

lemma all_of_or_default: "r = or_default wd v s \<Longrightarrow> \<not> wd \<and> r = [] \<longleftrightarrow> r = []"
  by (auto simp: or_default_def)

lemma ask_array:
  assumes h: "heap_ok h" and r: "r = or_default wd v s"
    and read: "\<And>h p. cells h p = Some (mk r) \<Longrightarrow> read_val q h (Some (Some p)) (int (length r)) = Inr (mkv r)"
  shows "\<exists>h'. ask_many q (\<lambda>p n. ReleaseConf_str p) (let (res, h') = give_array mk wd r (Some None) h in (res, c', h')) =
      Inr (all_of mkv r, c', h') \<and> given_back h h'"
proof (cases "r = []")
  case True
  with r show ?thesis
    by (auto simp: give_array_def ask_many_def ReleaseConf_str_def all_of_def or_default_def split: if_splits)
next
  case False
  let ?h = "h\<lparr>cells := (cells h)(next_cell h \<mapsto> mk r), next_cell := next_cell h + 1\<rparr>"
  have "(cells h)(next_cell h := None) = cells h" using heap_ok_next [OF h] by (rule fun_upd_idem)
  with False read [of ?h "next_cell h"] show ?thesis
    by (simp add: give_array_def ask_many_def ReleaseConf_str_def all_of_def new_cell_def delete_cell_def given_back_def)
qed

text \<open>The loop that copies the strings: pointer \<open>i\<close> is the cell that is allocated in round \<open>i\<close>.\<close>

lemma fill_strs_cells:
  assumes "cells h a = Some (M_ptrs (ps @ replicate (length ss) None))" "length ps = i" "a < next_cell h"
  shows "\<exists>h'. fill_strs a i ss h = Inr h' \<and> next_cell h' = next_cell h + length ss \<and>
    cells h' a = Some (M_ptrs (ps @ map Some [next_cell h ..< next_cell h + length ss])) \<and>
    (\<forall>k < length ss. cells h' (next_cell h + k) = Some (M_chars (str_cell (ss ! k)))) \<and>
    (\<forall>p. p \<noteq> a \<longrightarrow> p < next_cell h \<or> next_cell h + length ss \<le> p \<longrightarrow> cells h' p = cells h p)"
  using assms
proof (induction ss arbitrary: h ps i)
  case (Cons s ss)
  let ?n = "next_cell h"
  let ?h = "h\<lparr>cells := (cells h)(?n \<mapsto> M_chars (str_cell s), a \<mapsto> M_ptrs ((ps @ [Some ?n]) @ replicate (length ss) None)),
              next_cell := ?n + 1\<rparr>"
  have step: "fill_strs a i (s # ss) h = fill_strs a (i + 1) ss ?h"
    using Cons.prems by (cases h) (simp add: new_cell_def list_update_append Let_def)
  have "cells ?h a = Some (M_ptrs ((ps @ [Some ?n]) @ replicate (length ss) None))" "length (ps @ [Some ?n]) = i + 1"
    "a < next_cell ?h"
    using Cons.prems by simp_all
  from Cons.IH [OF this] obtain h' where h': "fill_strs a (i + 1) ss ?h = Inr h'" "next_cell h' = ?n + 1 + length ss"
    "cells h' a = Some (M_ptrs ((ps @ [Some ?n]) @ map Some [?n + 1 ..< ?n + 1 + length ss]))"
    "\<forall>k < length ss. cells h' (?n + 1 + k) = Some (M_chars (str_cell (ss ! k)))"
    "\<forall>p. p \<noteq> a \<longrightarrow> p < ?n + 1 \<or> ?n + 1 + length ss \<le> p \<longrightarrow> cells h' p = cells ?h p"
    by auto
  have "cells h' (?n + k) = Some (M_chars (str_cell ((s # ss) ! k)))" if "k < length (s # ss)" for k
    using that h'(4,5) Cons.prems(3) by (cases k) auto
  with h' step Cons.prems(3) show ?case by (auto simp: upt_rec)
qed simp

lemma read_all_strs:
  assumes "\<forall>k < length ss. cells h (n + k) = Some (M_chars (str_cell (ss ! k)))" "\<forall>s \<in> set ss. 0 \<notin> set s"
  shows "read_all h (map Some [n ..< n + length ss]) = Inr ss"
  using assms
proof (induction ss arbitrary: n)
  case (Cons s ss)
  have "\<forall>k < length ss. cells h (Suc n + k) = Some (M_chars (str_cell (ss ! k)))" using Cons.prems(1) by fastforce
  with Cons.IH [of "Suc n"] Cons.prems have "read_all h (map Some [Suc n ..< Suc n + length ss]) = Inr ss" by simp
  moreover have "cells h n = Some (M_chars (str_cell s))" using Cons.prems(1) by fastforce
  ultimately show ?case using Cons.prems(2) by (simp add: upt_rec str_cell_reads)
qed simp

lemma release_ptrs_range:
  assumes "\<forall>k < m. cells h (n + k) \<noteq> None"
  shows "\<exists>h'. release_ptrs (map Some [n ..< n + m]) h = Inr h' \<and> next_cell h' = next_cell h \<and>
    cells h' = (\<lambda>p. if n \<le> p \<and> p < n + m then None else cells h p)"
  using assms
proof (induction m arbitrary: n h)
  case (Suc m)
  let ?h = "h\<lparr>cells := (cells h)(n := None)\<rparr>"
  have "\<forall>k < m. cells ?h (Suc n + k) \<noteq> None" using Suc.prems by (metis add_Suc_shift fun_upd_apply lessI less_add_same_cancel1
      cheap.select_convs(1) cheap.surjective cheap.update_convs(1) not_add_less1 Suc_less_eq)
  from Suc.IH [OF this] obtain h' where h': "release_ptrs (map Some [Suc n ..< Suc n + m]) ?h = Inr h'"
    "next_cell h' = next_cell ?h" "cells h' = (\<lambda>p. if Suc n \<le> p \<and> p < Suc n + m then None else cells ?h p)"
    by blast
  have "cells h n \<noteq> None" using Suc.prems by fastforce
  then have "release_ptrs (map Some [n ..< n + Suc m]) h = Inr h'"
    using h'(1) by (simp add: upt_rec delete_cell_def)
  with h'(2,3) show ?case by (intro exI [of _ h']) auto
qed (auto simp: fun_eq_iff)

section \<open>One request\<close>

lemma or_default_strs: "\<forall>s \<in> set (or_default wd (c_str m) (map c_str ts)). 0 \<notin> set s"
  by (auto simp: or_default_def c_str_no_zero)

lemma or_default_map: "map f (or_default wd v r) = or_default wd (f v) (map f r)"
  by (simp add: or_default_def)

lemma or_default_empty: "or_default wd v r = [] \<Longrightarrow> \<not> wd"
  by (auto simp: or_default_def split: if_splits)

lemma first_of_default:
  "first_of wd (or_default wd v r) =
     Inr (case or_default wd v r of [] \<Rightarrow> (RC_ERR, None) | x # _ \<Rightarrow> (RC_OK, Some x))"
  by (cases "or_default wd v r") (auto simp: first_of_def dest: or_default_empty)

lemma narrow_widened [simp]: "(ucast (scast v :: u64) :: u32) = v"
  by (transfer, simp add: take_bit_signed_take_bit)

lemma ask_one_default:
  "ask_one mk h (map_sum id (\<lambda>o'. (o', c')) (first_of wd (or_default wd v r))) = Inr (one_of mk (or_default wd v r), c', h)"
  by (auto simp: ask_one_def first_of_default one_of_def split: list.split)

text \<open>A string that was found: where it lies, and that it can be given back.\<close>

lemma get_string:
  assumes "heap_ok h" and g: "group_str L F xp wd (str_default m) c = (s # ss, c')"
  obtains h1 h2 where
    "GetConf_str L F (Some None) (Some xp) wd (Some m) c h = Inr ((RC_OK, Some (Some (next_cell h))), c', h1)"
    "cells h1 (next_cell h) = Some (M_chars (str_cell s))"
    "ReleaseConf_str (Some (Some (next_cell h))) h1 = Inr (Some None, h2)" "given_back h h2"
proof -
  let ?h1 = "h\<lparr>cells := (cells h)(next_cell h \<mapsto> M_chars (str_cell s)), next_cell := next_cell h + 1\<rparr>"
  have "(cells h)(next_cell h := None) = cells h" using heap_ok_next [OF assms(1)] by (rule fun_upd_idem)
  with g show thesis
    by (intro that [of ?h1 "?h1\<lparr>cells := (cells ?h1)(next_cell h := None)\<rparr>"]) (simp_all add: GetConf_str_def ReleaseConf_str_def new_cell_def delete_cell_def given_back_def)
qed

lemma ask_string:
  assumes "heap_ok h" and r: "r = or_default wd (c_str m) (map c_str ts)" and g: "group_str L F xp wd (str_default m) c = (r, c')"
  shows "\<exists>h'. ask L F (Q_str (Some m)) (Some xp) wd c h = Inr (one_of C_str r, c', h') \<and> given_back h h'"
proof (cases r)
  case Nil
  with g or_default_empty [of wd "c_str m" "map c_str ts"] r show ?thesis
    by (simp add: GetConf_str_def ask_many_def ReleaseConf_str_def one_of_def)
next
  case (Cons s ss)
  then have "0 \<notin> set s" using or_default_strs [of wd m ts] r by simp
  moreover from get_string [OF assms(1) g [unfolded Cons]] obtain h1 h2 where
    "GetConf_str L F (Some None) (Some xp) wd (Some m) c h = Inr ((RC_OK, Some (Some (next_cell h))), c', h1)"
    "cells h1 (next_cell h) = Some (M_chars (str_cell s))"
    "ReleaseConf_str (Some (Some (next_cell h))) h1 = Inr (Some None, h2)" "given_back h h2" .
  ultimately show ?thesis
    using Cons by (simp add: ask_many_def one_of_def str_cell_reads)
qed

text \<open>The same of an array of strings.\<close>

lemma get_strings:
  assumes h: "heap_ok h" and r: "r \<noteq> []" "\<forall>s \<in> set r. 0 \<notin> set s"
    and g: "group_str L F xp wd (str_default m) c = (r, c')"
  obtains h1 h2 where
    "GetConf_strs L F (Some None) 0 (Some xp) wd (Some m) c h = Inr ((RC_OK, Some (Some (next_cell h)), int (length r)), c', h1)"
    "read_val (Q_strs (Some m)) h1 (Some (Some (next_cell h))) (int (length r)) = Inr (C_strs r)"
    "ReleaseConf_strs (Some (Some (next_cell h))) (int (length r)) h1 = Inr (Some None, h2)" "given_back h h2"
proof -
  let ?a = "next_cell h" and ?k = "length r"
  let ?h = "h\<lparr>cells := (cells h)(?a \<mapsto> M_ptrs (replicate ?k None)), next_cell := ?a + 1\<rparr>"
  from fill_strs_cells [of ?h ?a "[]" r 0] obtain h1 where h1: "fill_strs ?a 0 r ?h = Inr h1" "next_cell h1 = ?a + 1 + ?k"
    "cells h1 ?a = Some (M_ptrs (map Some [?a + 1 ..< ?a + 1 + ?k]))"
    "\<forall>k < ?k. cells h1 (?a + 1 + k) = Some (M_chars (str_cell (r ! k)))"
    "\<forall>p. p \<noteq> ?a \<longrightarrow> p < ?a + 1 \<or> ?a + 1 + ?k \<le> p \<longrightarrow> cells h1 p = cells ?h p"
    by auto
  have "read_all h1 (map Some [?a + 1 ..< ?a + 1 + ?k]) = Inr r" by (rule read_all_strs [OF h1(4) r(2)])
  then have read: "read_val (Q_strs (Some m)) h1 (Some (Some ?a)) (int ?k) = Inr (C_strs r)"
    using h1(3) by (simp del: upt_Suc)
  have "\<forall>k < ?k. cells h1 (?a + 1 + k) \<noteq> None" using h1(4) by simp
  from release_ptrs_range [OF this] obtain h2 where h2: "release_ptrs (map Some [?a + 1 ..< ?a + 1 + ?k]) h1 = Inr h2"
    "next_cell h2 = next_cell h1" "cells h2 = (\<lambda>p. if ?a + 1 \<le> p \<and> p < ?a + 1 + ?k then None else cells h1 p)"
    by blast
  let ?h3 = "h2\<lparr>cells := (cells h2)(?a := None)\<rparr>"
  have "ReleaseConf_strs (Some (Some ?a)) (int ?k) h1 = Inr (Some None, ?h3)"
    using h2(1,3) h1(3) r(1) by (simp add: ReleaseConf_strs_def delete_cell_def Suc_le_eq del: upt_Suc)
  moreover have "given_back h ?h3"
    using h2(2,3) h1(2,5) h by (auto simp: fun_eq_iff heap_ok_def given_back_def)
  ultimately show thesis
    using g r(1) h1(1) by (intro that [OF _ read]) (simp_all add: GetConf_strs_def new_cell_def)
qed

lemma ask_strings:
  assumes h: "heap_ok h" and r: "r = or_default wd (c_str m) (map c_str ts)" and g: "group_str L F xp wd (str_default m) c = (r, c')"
  shows "\<exists>h'. ask L F (Q_strs (Some m)) (Some xp) wd c h = Inr (all_of C_strs r, c', h') \<and> given_back h h'"
proof (cases "r = []")
  case True
  with g or_default_empty [of wd "c_str m" "map c_str ts"] r show ?thesis
    by (simp add: GetConf_strs_def ask_many_def ReleaseConf_strs_def all_of_def)
next
  case False
  have "\<forall>s \<in> set r. 0 \<notin> set s" using or_default_strs [of wd m ts] r by simp
  from get_strings [OF h False this g] obtain h1 h2 where
    "GetConf_strs L F (Some None) 0 (Some xp) wd (Some m) c h = Inr ((RC_OK, Some (Some (next_cell h)), int (length r)), c', h1)"
    "read_val (Q_strs (Some m)) h1 (Some (Some (next_cell h))) (int (length r)) = Inr (C_strs r)"
    "ReleaseConf_strs (Some (Some (next_cell h))) (int (length r)) h1 = Inr (Some None, h2)" "given_back h h2" .
  with False show ?thesis by (simp add: ask_many_def all_of_def)
qed

lemmas ask_array_defs = GetConf_i32s_def GetConf_i64s_def GetConf_f32s_def GetConf_f64s_def
  ReleaseConf_i32s_def ReleaseConf_i64s_def ReleaseConf_f32s_def ReleaseConf_f64s_def

lemma ask_null: "gives_default (Ask q xp wd) \<Longrightarrow> conf_spec L F d q xp wd = None \<Longrightarrow> xp = None \<or> (q \<in> {Q_str None, Q_strs None}) \<Longrightarrow>
  ask L F q xp wd c h = Inr (None, c, h)"
  by (cases q) (auto simp: ask_one_def ask_many_def ask_array_defs ReleaseConf_str_def ReleaseConf_strs_def
      GetConf_i32_def GetConf_i64_def GetConf_f32_def GetConf_f64_def GetConf_str_def GetConf_strs_def)

lemma ask_refines:
  assumes c: "cache_ok L F c" and h: "heap_ok h" and d: "gives_default (Ask q xp wd)"
  shows "\<exists>c' h'. ask L F q xp wd c h = Inr (conf_spec L F (cc_doc c) q xp wd, c', h') \<and> cache_ok L F c' \<and>
    same_source c c' \<and> given_back h h'"
proof (cases "xp = None \<or> q \<in> {Q_str None, Q_strs None}")
  case True
  then have "conf_spec L F (cc_doc c) q xp wd = None" by (cases xp) auto
  with ask_null [OF d this True] c show ?thesis by (simp add: same_source_def)
next
  case False
  then obtain x where x: "xp = Some x" by auto
  let ?ts = "doc_texts L (cc_doc c) x"
  note i = ints.group_cases [OF c, of x wd]
  note f = floats.group_cases [OF c, of x wd]
  note s = strs.group_cases [OF c, of x wd]
  show ?thesis
  proof (cases q)
    case (Q_i32 v)
    obtain c' where "group_i64 L F x wd (V_Num (N_l (scast v))) c = (or_default wd (scast v) (map atol ?ts), c')"
      "cache_ok L F c'" "same_source c c'" using i [of "V_Num (N_l (scast v))"] by (auto simp: val_i64_def)
    with Q_i32 x show ?thesis
      by (simp add: GetConf_i32_def or_default_map ask_one_default o_def)
  next
    case (Q_i64 v)
    obtain c' where "group_i64 L F x wd (V_Num (N_l v)) c = (or_default wd v (map atol ?ts), c')"
      "cache_ok L F c'" "same_source c c'" using i [of "V_Num (N_l v)"] by (auto simp: val_i64_def)
    with Q_i64 x show ?thesis by (simp add: GetConf_i64_def ask_one_default)
  next
    case (Q_f32 v)
    obtain c' where "group_f64 L F x wd (V_Num (N_d (fo_widen F v))) c = (or_default wd (fo_widen F v) (map (fo_atof F) ?ts), c')"
      "cache_ok L F c'" "same_source c c'" using f [of "V_Num (N_d (fo_widen F v))"] by (auto simp: val_f64_def)
    with Q_f32 x show ?thesis by (simp add: GetConf_f32_def or_default_map ask_one_default o_def)
  next
    case (Q_f64 v)
    obtain c' where "group_f64 L F x wd (V_Num (N_d v)) c = (or_default wd v (map (fo_atof F) ?ts), c')"
      "cache_ok L F c'" "same_source c c'" using f [of "V_Num (N_d v)"] by (auto simp: val_f64_def)
    with Q_f64 x show ?thesis by (simp add: GetConf_f64_def ask_one_default)
  next
    case (Q_str v)
    with False x obtain m where v: "v = Some m" by auto
    obtain c' where g: "group_str L F x wd (str_default m) c = (or_default wd (c_str m) (map c_str ?ts), c')"
      "cache_ok L F c'" "same_source c c'" using s [of "str_default m"] by auto
    with ask_string [OF h refl g(1)] Q_str v x show ?thesis by auto
  next
    case (Q_i32s v)
    obtain c' where g: "group_i64 L F x wd (V_Num (N_l (scast v))) c = (or_default wd (scast v) (map atol ?ts), c')"
      "cache_ok L F c'" "same_source c c'" using i [of "V_Num (N_l (scast v))"] by (auto simp: val_i64_def)
    with ask_array [OF h refl, of M_32 wd v "map (ucast \<circ> atol) ?ts" "Q_i32s v" C_32s c'] Q_i32s x show ?thesis
      by (auto simp: ask_array_defs or_default_map o_def)
  next
    case (Q_i64s v)
    obtain c' where g: "group_i64 L F x wd (V_Num (N_l v)) c = (or_default wd v (map atol ?ts), c')"
      "cache_ok L F c'" "same_source c c'" using i [of "V_Num (N_l v)"] by (auto simp: val_i64_def)
    with ask_array [OF h refl, of M_64 wd v "map atol ?ts" "Q_i64s v" C_64s c'] Q_i64s x show ?thesis
      by (auto simp: ask_array_defs)
  next
    case (Q_f32s v)
    obtain c' where g: "group_f64 L F x wd (V_Num (N_d (fo_widen F v))) c = (or_default wd (fo_widen F v) (map (fo_atof F) ?ts), c')"
      "cache_ok L F c'" "same_source c c'" using f [of "V_Num (N_d (fo_widen F v))"] by (auto simp: val_f64_def)
    with ask_array [OF h refl, of M_32 wd "fo_narrow F (fo_widen F v)" "map (fo_narrow F \<circ> fo_atof F) ?ts" "Q_f32s v" C_32s c'] Q_f32s x
    show ?thesis by (auto simp: ask_array_defs or_default_map o_def)
  next
    case (Q_f64s v)
    obtain c' where g: "group_f64 L F x wd (V_Num (N_d v)) c = (or_default wd v (map (fo_atof F) ?ts), c')"
      "cache_ok L F c'" "same_source c c'" using f [of "V_Num (N_d v)"] by (auto simp: val_f64_def)
    with ask_array [OF h refl, of M_64 wd v "map (fo_atof F) ?ts" "Q_f64s v" C_64s c'] Q_f64s x show ?thesis
      by (auto simp: ask_array_defs)
  next
    case (Q_strs v)
    with False x obtain m where v: "v = Some m" by auto
    obtain c' where g: "group_str L F x wd (str_default m) c = (or_default wd (c_str m) (map c_str ?ts), c')"
      "cache_ok L F c'" "same_source c c'" using s [of "str_default m"] by auto
    with ask_strings [OF h refl g(1)] Q_strs v x show ?thesis by auto
  qed
qed

section \<open>Loading and the whole center\<close>

lemma conf_load_laws:
  assumes "cache_ok L F c"
  shows "cache_ok L F (snd (conf_load L e path c))" "cc_path (snd (conf_load L e path c)) = cc_path c"
    "cc_doc (snd (conf_load L e path c)) = load_doc e path (cc_doc c)"
    "fst (conf_load L e path c) = (if load_ok L e path then RC_OK else RC_ERR)"
proof -
  have err: "cache_ok L F (x\<lparr>cc_err := y\<rparr>) = cache_ok L F x" for x y by (simp add: cache_ok_def)
  have empty: "cache_ok L F (x\<lparr>cc_doc := d, cc_i64 := Map.empty, cc_f64 := Map.empty, cc_str := Map.empty\<rparr>)" for x d
    by (simp add: cache_ok_def)
  show "cache_ok L F (snd (conf_load L e path c))"
    using assms empty by (auto simp: conf_load_def Let_def err cache_ok_def split: option.split prod.split)
  show "cc_path (snd (conf_load L e path c)) = cc_path c"
    "cc_doc (snd (conf_load L e path c)) = load_doc e path (cc_doc c)"
    "fst (conf_load L e path c) = (if load_ok L e path then RC_OK else RC_ERR)"
    by (auto simp: conf_load_def load_doc_def load_ok_def Let_def split: option.splits prod.splits)
qed

lemma cache_ok_new: "cache_ok L F (cc_new\<lparr>cc_path := path\<rparr>)"
  by (simp add: cache_ok_def cc_new_def)

lemma ask_faults: "\<not> gives_default (Ask q xp wd) \<Longrightarrow> ask L F q xp wd c h = Inl Null_Str"
  by (cases q) (auto simp: GetConf_str_def GetConf_strs_def)

lemma conf_run_faults:
  assumes "cache_ok L F c" "heap_ok h" "\<not> (\<forall>op \<in> set ops. gives_default op)"
  shows "conf_run L F ops c h = Inl Null_Str"
  using assms
proof (induction ops arbitrary: c h)
  case (Cons op ops)
  show ?case
  proof (cases op)
    case (Ask q xp wd)
    show ?thesis
    proof (cases "gives_default op")
      case True
      from ask_refines [OF Cons.prems(1,2) True [unfolded Ask]] obtain c1 h1 where
        1: "ask L F q xp wd c h = Inr (conf_spec L F (cc_doc c) q xp wd, c1, h1)" "cache_ok L F c1" "given_back h h1"
        by blast
      have "conf_run L F ops c1 h1 = Inl Null_Str"
        using Cons.IH [OF 1(2) given_back_ok [OF Cons.prems(2) 1(3)]] Cons.prems(3) True Ask by auto
      with Ask 1(1) show ?thesis by simp
    qed (simp add: Ask ask_faults del: gives_default.simps)
  next
    case (Reload_Conf e)
    with Cons.IH [OF conf_load_laws(1) [OF Cons.prems(1), of e "cc_path c"] Cons.prems(2)] Cons.prems(3)
    show ?thesis by (auto simp: conf_reload_def split: prod.split)
  qed
qed simp

lemma conf_run_refines:
  assumes "cache_ok L F c" "heap_ok h" "\<forall>op \<in> set ops. gives_default op"
  shows "\<exists>c' h'. conf_run L F ops c h = Inr (conf_run_spec L F ops (cc_path c) (cc_doc c), c', h') \<and> given_back h h'"
  using assms
proof (induction ops arbitrary: c h)
  case (Cons op ops)
  show ?case
  proof (cases op)
    case (Ask q xp wd)
    have "gives_default op" using Cons.prems(3) by simp
    from ask_refines [OF Cons.prems(1,2) this [unfolded Ask]] obtain c1 h1 where 1: "ask L F q xp wd c h = Inr (conf_spec L F (cc_doc c) q xp wd, c1, h1)" "cache_ok L F c1"
      "same_source c c1" "given_back h h1"
      by blast
    with Cons.IH [OF 1(2) given_back_ok [OF Cons.prems(2) 1(4)]] Cons.prems(3) Ask show ?thesis
      by (fastforce simp: same_source_def intro: given_back_trans)
  next
    case (Reload_Conf e)
    let ?c = "snd (conf_reload L e c)"
    note l = conf_load_laws [OF Cons.prems(1), of e "cc_path c", folded conf_reload_def]
    from Cons.IH [OF l(1) Cons.prems(2)] Cons.prems(3) obtain c' h' where
      "conf_run L F ops ?c h = Inr (conf_run_spec L F ops (cc_path ?c) (cc_doc ?c), c', h')" "given_back h h'"
      by auto
    then show ?thesis using l Reload_Conf by (auto simp: case_prod_unfold Let_def)
  qed
qed simp

text \<open>
  Claim C24: the configuration center is as good as one without a cache, up to the one request that crashes. After an
  initialization, whether or not it succeeds, any sequence of the ten requests and of reloads faults exactly if it
  contains a request for a string or for strings, with an XPath, that neither wants a default nor passes one. Otherwise
  each request is answered by what the document of the last reading holds at that moment: the first of its texts or
  all of them, converted, or the default when there is none and one is wanted. A client that releases what
  it was given leaves the memory as it was.
\<close>

theorem conf_center_refines:
  assumes "conf_initialize L e (Some path) cc_new = (rc, c)" "heap_ok h"
  shows "(rc = RC_OK \<longleftrightarrow> load_ok L e path) \<and>
    (if \<exists>xp. Ask (Q_str None) (Some xp) False \<in> set ops \<or> Ask (Q_strs None) (Some xp) False \<in> set ops
     then conf_run L F ops c h = Inl Null_Str
     else \<exists>c' h'. conf_run L F ops c h = Inr (conf_run_spec L F ops path (load_doc e path None), c', h') \<and> cells h' = cells h)"
proof -
  note l = conf_load_laws [OF cache_ok_new [of L F path], of e path]
  have c: "c = snd (conf_load L e path (cc_new\<lparr>cc_path := path\<rparr>))" "rc = fst (conf_load L e path (cc_new\<lparr>cc_path := path\<rparr>))"
    using assms(1) by (simp_all add: conf_initialize_def)
  with l have ok: "cache_ok L F c" "cc_path c = path" "cc_doc c = load_doc e path None" by (simp_all add: cc_new_def)
  have rc: "rc = RC_OK \<longleftrightarrow> load_ok L e path" using l(4) c(2) by simp
  show ?thesis
  proof (cases "\<forall>op \<in> set ops. gives_default op")
    case True
    then have "\<not> (\<exists>xp. Ask (Q_str None) (Some xp) False \<in> set ops \<or> Ask (Q_strs None) (Some xp) False \<in> set ops)"
      by force
    with conf_run_refines [OF ok(1) assms(2) True] ok(2,3) rc show ?thesis by (auto simp: given_back_def)
  next
    case False
    then have "\<exists>xp. Ask (Q_str None) (Some xp) False \<in> set ops \<or> Ask (Q_strs None) (Some xp) False \<in> set ops"
      by (metis gives_default_iff)
    with conf_run_faults [OF ok(1) assms(2) False] rc show ?thesis by simp
  qed
qed

text \<open>A document with two numbers under one path, and its successor with one.\<close>

definition sample_lib :: "nat xml_lib" where
  "sample_lib = \<lparr>xl_new_context = (\<lambda>d. d \<noteq> None),
     xl_eval = (\<lambda>d xp. if xp = ''/a'' then Some (Some (if d = Some 1 then [[Some [52, 50], None], [Some [45, 55]]] else [[Some [56]]]))
                       else None),
     xl_root = (\<lambda>d. True)\<rparr>"

definition sample_env :: "nat \<Rightarrow> nat load_env" where
  "sample_env d = \<lparr>le_access = (\<lambda>p. p = ''app.xml''), le_read = (\<lambda>p. Some d), le_error = None\<rparr>"

theorem conf_center_refines_witness:
  "\<exists>c' h'. conf_run sample_lib \<lparr>fo_atof = (\<lambda>s. 0), fo_narrow = ucast, fo_widen = ucast\<rparr>
     [Ask (Q_i32 0) (Some ''/a'') True, Ask (Q_i32s 0) (Some ''/a'') True, Ask (Q_str (Some [104, 0])) (Some ''/b'') True,
      Ask (Q_i64 5) (Some ''/b'') False, Reload_Conf (sample_env 2), Ask (Q_i32 0) (Some ''/a'') True]
     (snd (conf_initialize sample_lib (sample_env 1) (Some (Some ''app.xml'')) cc_new)) \<lparr>cells = Map.empty, next_cell = 0\<rparr> =
   Inr ([Got (Some (C_32 42)), Got (Some (C_32s [42, - 7])), Got (Some (C_str [104])), Got None, Loaded RC_OK, Got (Some (C_32 8))], c', h') \<and>
   cells h' = Map.empty"
proof -
  let ?F = "\<lparr>fo_atof = (\<lambda>s. 0), fo_narrow = ucast, fo_widen = ucast\<rparr>"
  let ?ops = "[Ask (Q_i32 0) (Some ''/a'') True, Ask (Q_i32s 0) (Some ''/a'') True, Ask (Q_str (Some [104, 0])) (Some ''/b'') True,
      Ask (Q_i64 5) (Some ''/b'') False, Reload_Conf (sample_env 2), Ask (Q_i32 0) (Some ''/a'') True]"
  let ?h = "\<lparr>cells = Map.empty, next_cell = 0\<rparr>"
  have init: "conf_initialize sample_lib (sample_env 1) (Some (Some ''app.xml'')) cc_new =
      (RC_OK, snd (conf_initialize sample_lib (sample_env 1) (Some (Some ''app.xml'')) cc_new))"
    by (simp add: conf_initialize_def conf_load_def conf_file_exist_def sample_env_def sample_lib_def)
  have texts: "doc_texts sample_lib (Some 1) ''/a'' = [[52, 50], [45, 55]]" "doc_texts sample_lib (Some (Suc 0)) ''/a'' = [[52, 50], [45, 55]]"
    "doc_texts sample_lib (Some 2) ''/a'' = [[56]]" "doc_texts sample_lib d ''/b'' = []" for d
    by (simp_all add: doc_texts_def GetObjPtr_def sample_lib_def)
  have atol: "atol [52, 50] = 42" "atol [45, 55] = - 7" "atol [56] = 8"
    by (simp_all add: atol_def strtol10_def is_space_def)
  have "conf_run_spec sample_lib ?F ?ops (Some ''app.xml'') (load_doc (sample_env 1) (Some ''app.xml'') None) =
      [Got (Some (C_32 42)), Got (Some (C_32s [42, - 7])), Got (Some (C_str [104])), Got None, Loaded RC_OK, Got (Some (C_32 8))]"
    by (simp add: load_doc_def load_ok_def conf_file_exist_def sample_env_def or_default_def one_of_def all_of_def texts atol c_str_def)
      (simp add: sample_lib_def)
  moreover have "heap_ok ?h" by (simp add: heap_ok_def)
  ultimately show ?thesis using conf_center_refines [OF init, of ?h ?ops ?F] by auto
qed

section \<open>What goes wrong\<close>

text \<open>A string request without a default crashes, although it does not want the default.\<close>

lemma null_default_crashes: "GetConf_str L F (Some p) (Some xp) False None c h = Inl Null_Str"
  by (simp add: GetConf_str_def)

text \<open>A number that does not fit 32 bits is cut without a word.\<close>

lemma i32_is_cut:
  assumes "cache_ok L F c" "doc_texts L (cc_doc c) xp = [[52, 50, 57, 52, 57, 54, 55, 50, 57, 55]]"
  shows "\<exists>c'. GetConf_i32 L F (Some xp) False 0 c = Inr ((RC_OK, Some 1), c')"
proof -
  obtain c' where g: "group_i64 L F xp False (V_Num (N_l 0)) c = ([4294967297], c')"
    using ints.group_cases [OF assms(1), of xp False "V_Num (N_l 0)"] assms(2)
    by (auto simp: or_default_def atol_def strtol10_def is_space_def)
  have "(ucast (4294967297 :: u64) :: u32) = 1" by simp
  with g show ?thesis by (simp add: GetConf_i32_def first_of_def)
qed

text \<open>
  A reload of a file that does not parse forgets the document and the cache before it fails: afterwards a
  request that wants a default gets it, whatever the file said before.
\<close>

lemma failed_reload_forgets:
  assumes "conf_file_exist e (cc_path c)" "le_read e (the (cc_path c)) = None"
    and none: "GetObjPtr L None xp = None" and c: "cache_ok L F c"
  shows "fst (conf_reload L e c) = RC_ERR \<and>
    fst (group_i64 L F xp True (V_Num (N_l v)) (snd (conf_reload L e c))) = [v]"
proof -
  note l = conf_load_laws [OF c, of e "cc_path c", folded conf_reload_def]
  have d: "cc_doc (snd (conf_reload L e c)) = None" using l(3) assms(1,2) by (simp add: load_doc_def)
  have "doc_texts L None xp = []" using none by (simp add: doc_texts_def)
  with ints.answer [OF l(1), of xp True "V_Num (N_l v)"] d l(4) assms(2) show ?thesis
    by (simp add: or_default_def val_i64_def load_ok_def)
qed

end
