(* ===== verification/Conf_Mgr.thy ===== *)
theory Conf_Mgr
  imports Conf_Center
begin

text \<open>
  The settings of the application frame, \<^verbatim>\<open>app_frame/src/conf_mgr.cpp\<close> and \<^verbatim>\<open>conf_mgr.h\<close>: 57 members, each read
  from the configuration center by a loader of one of four shapes, and what a change of the file does to them.
\<close>

section \<open>Definitions\<close>

subsection \<open>Settings\<close>

text \<open>The members, by the names of their loaders, and their values.\<close>

datatype setting =
    EnableCPUProfiling | EnableHeapProfiling | ReleaseFreeMem | GlobalLogicSo | WorkThreadCount
  | WorkCommonLogicSo | WorkLogicSoGroup | BurdenThreadCount | BurdenCommonLogicSo | BurdenLogicSoGroup
  | TCPConnCountLimit | TCPInactiveConnCheckIntervalSec | TCPInactiveConnCheckIntervalUsec
  | TCPInactiveConnLife | TCPStormInterval | TCPStormThreshold | RawTCPUseBufferevent | RawTCPAddr
  | RawTCPPort | RawTCPThreadCount | RawTCPCommonLogicSo | RawTCPLogicSoGroup | ProtoTCPUseBufferevent
  | ProtoDoChecksum | ProtoMaxMsgBodyLen | ProtoPartMsgCheckInterval | ProtoPartMsgConnLife | ProtoTCPAddr
  | ProtoTCPPort | ProtoTCPThreadCount | ProtoTCPCommonLogicSo | ProtoTCPLogicSoGroup | WebUseBufferevent
  | WebPartMsgCheckInterval | WebPartMsgConnLife | WebAddr | WebPort | WebSecurityPort
  | WebCertificateChainFilePath | WebPrivateKeyFilePath | WebThreadCount | WebCommonLogicSo | WebLogicSoGroup
  | UDPInactiveConnCheckIntervalSec | UDPInactiveConnCheckIntervalUsec | UDPInactiveConnLife | UDPAddr
  | UDPPort | UDPThreadCount | UDPCommonLogicSo | UDPLogicSoGroup | PeerRspCheckInterval
  | PeerProtoTCPReconnIntervalSec | PeerProtoTCPReconnIntervalUsec | PeerProtoTCPReconnLimit
  | PeerHTTPConnTimeout | PeerHTTPConnMaxRetry

datatype setting_val = S_Bool bool | S_Int u32 | S_Str bytes | S_Strs "bytes list"

type_synonym settings = "setting \<Rightarrow> setting_val"

text \<open>The four shapes of a loader, with the default of the numeric ones; a string defaults to the empty one.\<close>

datatype conf_kind = K_bool u32 | K_int u32 | K_str | K_strs

type_synonym conf_row = "setting \<times> string \<times> conf_kind"

text \<open>Each loader: its member, its XPath from \<^verbatim>\<open>conf_xpath.h\<close>, its shape.\<close>

definition rows_base :: "conf_row list" where
  "rows_base =
    [(EnableCPUProfiling, ''/conf/gperftools/enable_cpu_profiling'', K_bool 0),
     (EnableHeapProfiling, ''/conf/gperftools/enable_heap_profiling'', K_bool 0),
     (ReleaseFreeMem, ''/conf/gperftools/release_free_mem'', K_bool 0),
     (GlobalLogicSo, ''/conf/global_logic_so'', K_str)]"

definition rows_work :: "conf_row list" where
  "rows_work =
    [(WorkThreadCount, ''/conf/work/thread_count'', K_int 0),
     (WorkCommonLogicSo, ''/conf/work/common_logic_so'', K_str),
     (WorkLogicSoGroup, ''/conf/work/logic_so_group/logic_so'', K_strs),
     (BurdenThreadCount, ''/conf/burden/thread_count'', K_int 0),
     (BurdenCommonLogicSo, ''/conf/burden/common_logic_so'', K_str),
     (BurdenLogicSoGroup, ''/conf/burden/logic_so_group/logic_so'', K_strs)]"

definition rows_tcp :: "conf_row list" where
  "rows_tcp =
    [(TCPConnCountLimit, ''/conf/tcp/conn_count_limit'', K_int 0),
     (TCPInactiveConnCheckIntervalSec, ''/conf/tcp/inactive_conn/check_interval/sec'', K_int 60),
     (TCPInactiveConnCheckIntervalUsec, ''/conf/tcp/inactive_conn/check_interval/usec'', K_int 0),
     (TCPInactiveConnLife, ''/conf/tcp/inactive_conn/life'', K_int 1800),
     (TCPStormInterval, ''/conf/tcp/storm_interval'', K_int 10),
     (TCPStormThreshold, ''/conf/tcp/storm_threshold'', K_int 1000)]"

definition rows_raw :: "conf_row list" where
  "rows_raw =
    [(RawTCPUseBufferevent, ''/conf/tcp/raw/use_bufferevent'', K_bool 1),
     (RawTCPAddr, ''/conf/tcp/raw/addr'', K_str),
     (RawTCPPort, ''/conf/tcp/raw/port'', K_int 0),
     (RawTCPThreadCount, ''/conf/tcp/raw/thread_count'', K_int 0),
     (RawTCPCommonLogicSo, ''/conf/tcp/raw/common_logic_so'', K_str),
     (RawTCPLogicSoGroup, ''/conf/tcp/raw/logic_so_group/logic_so'', K_strs)]"

definition rows_proto :: "conf_row list" where
  "rows_proto =
    [(ProtoTCPUseBufferevent, ''/conf/tcp/proto/use_bufferevent'', K_bool 1),
     (ProtoDoChecksum, ''/conf/tcp/proto/do_checksum'', K_bool 1),
     (ProtoMaxMsgBodyLen, ''/conf/tcp/proto/max_msg_body_len'', K_int 1048576),
     (ProtoPartMsgCheckInterval, ''/conf/tcp/proto/part_msg/check_interval'', K_int 5),
     (ProtoPartMsgConnLife, ''/conf/tcp/proto/part_msg/conn_life'', K_int 60),
     (ProtoTCPAddr, ''/conf/tcp/proto/addr'', K_str),
     (ProtoTCPPort, ''/conf/tcp/proto/port'', K_int 0),
     (ProtoTCPThreadCount, ''/conf/tcp/proto/thread_count'', K_int 0),
     (ProtoTCPCommonLogicSo, ''/conf/tcp/proto/common_logic_so'', K_str),
     (ProtoTCPLogicSoGroup, ''/conf/tcp/proto/logic_so_group/logic_so'', K_strs)]"

definition rows_web :: "conf_row list" where
  "rows_web =
    [(WebUseBufferevent, ''/conf/tcp/web/use_bufferevent'', K_bool 1),
     (WebPartMsgCheckInterval, ''/conf/tcp/web/part_msg/check_interval'', K_int 5),
     (WebPartMsgConnLife, ''/conf/tcp/web/part_msg/conn_life'', K_int 60),
     (WebAddr, ''/conf/tcp/web/addr'', K_str),
     (WebPort, ''/conf/tcp/web/port'', K_int 0),
     (WebSecurityPort, ''/conf/tcp/web/security/port'', K_int 0),
     (WebCertificateChainFilePath, ''/conf/tcp/web/security/certificate_chain_file_path'', K_str),
     (WebPrivateKeyFilePath, ''/conf/tcp/web/security/private_key_file_path'', K_str),
     (WebThreadCount, ''/conf/tcp/web/thread_count'', K_int 0),
     (WebCommonLogicSo, ''/conf/tcp/web/common_logic_so'', K_str),
     (WebLogicSoGroup, ''/conf/tcp/web/logic_so_group/logic_so'', K_strs)]"

definition rows_udp :: "conf_row list" where
  "rows_udp =
    [(UDPInactiveConnCheckIntervalSec, ''/conf/udp/inactive_conn/check_interval/sec'', K_int 60),
     (UDPInactiveConnCheckIntervalUsec, ''/conf/udp/inactive_conn/check_interval/usec'', K_int 0),
     (UDPInactiveConnLife, ''/conf/udp/inactive_conn/life'', K_int 1800),
     (UDPAddr, ''/conf/udp/addr'', K_str),
     (UDPPort, ''/conf/udp/port'', K_int 0),
     (UDPThreadCount, ''/conf/udp/thread_count'', K_int 0),
     (UDPCommonLogicSo, ''/conf/udp/common_logic_so'', K_str),
     (UDPLogicSoGroup, ''/conf/udp/logic_so_group/logic_so'', K_strs)]"

definition rows_peer :: "conf_row list" where
  "rows_peer =
    [(PeerRspCheckInterval, ''/conf/peer/rsp_check_interval'', K_int 1),
     (PeerProtoTCPReconnIntervalSec, ''/conf/peer/tcp/proto/reconn_interval/sec'', K_int 0),
     (PeerProtoTCPReconnIntervalUsec, ''/conf/peer/tcp/proto/reconn_interval/usec'', K_int 0),
     (PeerProtoTCPReconnLimit, ''/conf/peer/tcp/proto/reconn_limit'', K_int 0),
     (PeerHTTPConnTimeout, ''/conf/peer/http/conn_timeout'', K_int 0),
     (PeerHTTPConnMaxRetry, ''/conf/peer/http/conn_max_retry'', K_int 0)]"

text \<open>The order of \<^verbatim>\<open>ConfMgr::Load\<close>.\<close>

definition all_rows :: "conf_row list" where
  "all_rows = rows_base @ rows_work @ rows_tcp @ rows_raw @ rows_proto @ rows_web @ rows_udp @ rows_peer"

text \<open>The getters.\<close>

definition conf_getter :: "setting \<Rightarrow> settings \<Rightarrow> setting_val" where
  "conf_getter f s = s f"

subsection \<open>Loaders\<close>

definition load_bool ::
  "'d xml_lib \<Rightarrow> float_ops \<Rightarrow> setting \<Rightarrow> string \<Rightarrow> u32 \<Rightarrow> settings \<Rightarrow> 'd conf_center \<Rightarrow>
   conf_fault + int \<times> settings \<times> 'd conf_center" where
  "load_bool L F f xp d s c =
     (case GetConf_i32 L F (Some xp) True d c of
        Inl e \<Rightarrow> Inl e
      | Inr ((rc, x), c') \<Rightarrow>
          if rc \<noteq> RC_OK then Inr (RC_ERR, s, c')
          else Inr (RC_OK, s(f := S_Bool ((case x of None \<Rightarrow> 0 | Some v \<Rightarrow> v) \<noteq> 0)), c'))"

definition load_int ::
  "'d xml_lib \<Rightarrow> float_ops \<Rightarrow> setting \<Rightarrow> string \<Rightarrow> u32 \<Rightarrow> settings \<Rightarrow> 'd conf_center \<Rightarrow>
   conf_fault + int \<times> settings \<times> 'd conf_center" where
  "load_int L F f xp d s c =
     (case GetConf_i32 L F (Some xp) True d c of
        Inl e \<Rightarrow> Inl e
      | Inr ((rc, x), c') \<Rightarrow>
          let s' = (case x of None \<Rightarrow> s | Some v \<Rightarrow> s(f := S_Int v)) in
          Inr (if rc \<noteq> RC_OK then RC_ERR else RC_OK, s', c'))"

definition load_str ::
  "'d xml_lib \<Rightarrow> float_ops \<Rightarrow> setting \<Rightarrow> string \<Rightarrow> settings \<Rightarrow> 'd conf_center \<Rightarrow> cheap \<Rightarrow>
   conf_fault + int \<times> settings \<times> 'd conf_center \<times> cheap" where
  "load_str L F f xp s c h =
     (case GetConf_str L F (Some None) (Some xp) True (Some [0]) c h of
        Inl e \<Rightarrow> Inl e
      | Inr ((rc, p), c', h') \<Rightarrow>
          if rc \<noteq> RC_OK then map_sum id (\<lambda>(_, h''). (RC_ERR, s, c', h'')) (ReleaseConf_str p h')
          else (case read_chars h' p of
                  Inl e \<Rightarrow> Inl e
                | Inr b \<Rightarrow> map_sum id (\<lambda>(_, h''). (RC_OK, s(f := S_Str b), c', h'')) (ReleaseConf_str p h')))"

text \<open>Only the strings that are not empty are kept.\<close>

definition append_strs :: "bytes list \<Rightarrow> setting_val \<Rightarrow> setting_val" where
  "append_strs ss v = (case v of S_Strs old \<Rightarrow> S_Strs (old @ filter (\<lambda>b. 0 < length b) ss) | _ \<Rightarrow> v)"

definition load_strs ::
  "'d xml_lib \<Rightarrow> float_ops \<Rightarrow> setting \<Rightarrow> string \<Rightarrow> settings \<Rightarrow> 'd conf_center \<Rightarrow> cheap \<Rightarrow>
   conf_fault + int \<times> settings \<times> 'd conf_center \<times> cheap" where
  "load_strs L F f xp s c h =
     (case GetConf_strs L F (Some None) 0 (Some xp) True (Some [0]) c h of
        Inl e \<Rightarrow> Inl e
      | Inr ((rc, p, n), c', h') \<Rightarrow>
          if rc \<noteq> RC_OK then map_sum id (\<lambda>(_, h''). (RC_ERR, s, c', h'')) (ReleaseConf_strs p n h')
          else (case read_val (Q_strs (Some [0])) h' p n of
                  Inr (C_strs ss) \<Rightarrow>
                    map_sum id (\<lambda>(_, h''). (RC_OK, s(f := append_strs ss (s f)), c', h'')) (ReleaseConf_strs p n h')
                | Inr _ \<Rightarrow> Inl Wrong_Cell
                | Inl e \<Rightarrow> Inl e))"

fun load_row ::
  "'d xml_lib \<Rightarrow> float_ops \<Rightarrow> conf_row \<Rightarrow> settings \<Rightarrow> 'd conf_center \<Rightarrow> cheap \<Rightarrow>
   conf_fault + int \<times> settings \<times> 'd conf_center \<times> cheap" where
  "load_row L F (f, xp, K_bool d) s c h = map_sum id (\<lambda>(rc, s', c'). (rc, s', c', h)) (load_bool L F f xp d s c)"
| "load_row L F (f, xp, K_int d) s c h = map_sum id (\<lambda>(rc, s', c'). (rc, s', c', h)) (load_int L F f xp d s c)"
| "load_row L F (f, xp, K_str) s c h = load_str L F f xp s c h"
| "load_row L F (f, xp, K_strs) s c h = load_strs L F f xp s c h"

text \<open>\<^verbatim>\<open>ConfMgr::Load\<close>: every member is reset, then loaded until one fails.\<close>

fun reset_val :: "conf_kind \<Rightarrow> setting_val" where
  "reset_val (K_bool _) = S_Bool False"
| "reset_val (K_int _) = S_Int 0"
| "reset_val K_str = S_Str []"
| "reset_val K_strs = S_Strs []"

fun reset_rows :: "conf_row list \<Rightarrow> settings \<Rightarrow> settings" where
  "reset_rows [] s = s"
| "reset_rows ((f, _, k) # rs) s = reset_rows rs (s(f := reset_val k))"

fun load_rows ::
  "'d xml_lib \<Rightarrow> float_ops \<Rightarrow> conf_row list \<Rightarrow> settings \<Rightarrow> 'd conf_center \<Rightarrow> cheap \<Rightarrow>
   conf_fault + int \<times> settings \<times> 'd conf_center \<times> cheap" where
  "load_rows L F [] s c h = Inr (RC_OK, s, c, h)"
| "load_rows L F (r # rs) s c h =
     (case load_row L F r s c h of
        Inl e \<Rightarrow> Inl e
      | Inr (rc, s', c', h') \<Rightarrow> if rc \<noteq> RC_OK then Inr (RC_ERR, s', c', h') else load_rows L F rs s' c' h')"

definition conf_mgr_load ::
  "'d xml_lib \<Rightarrow> float_ops \<Rightarrow> settings \<Rightarrow> 'd conf_center \<Rightarrow> cheap \<Rightarrow> conf_fault + int \<times> settings \<times> 'd conf_center \<times> cheap" where
  "conf_mgr_load L F s c h = load_rows L F all_rows (reset_rows all_rows s) c h"

subsection \<open>A change of the file\<close>

text \<open>\<^verbatim>\<open>ServiceMgr::Reload\<close> for the configuration: a failure is logged and nothing else.\<close>

definition service_reload :: "'d xml_lib \<Rightarrow> 'd load_env \<Rightarrow> bool \<Rightarrow> 'd conf_center \<Rightarrow> 'd conf_center" where
  "service_reload L e app_conf_changed c = (if app_conf_changed then snd (conf_reload L e c) else c)"

text \<open>\<^verbatim>\<open>AppLauncher::OnReload\<close>, with the frame loading its settings again.\<close>

definition on_reload ::
  "'d xml_lib \<Rightarrow> float_ops \<Rightarrow> 'd load_env \<Rightarrow> bool \<Rightarrow> settings \<Rightarrow> 'd conf_center \<Rightarrow> cheap \<Rightarrow>
   conf_fault + settings \<times> 'd conf_center \<times> cheap" where
  "on_reload L F e app_conf_changed s c h =
     (let c1 = service_reload L e app_conf_changed c in
      if app_conf_changed then map_sum id snd (conf_mgr_load L F s c1 h) else Inr (s, c1, h))"

subsection \<open>What the settings should be\<close>

text \<open>The value of a setting in a document: its first text, converted, or the default; all texts that are not empty for a group.\<close>

definition first_text :: "(bytes \<Rightarrow> 'a) \<Rightarrow> 'a \<Rightarrow> bytes list \<Rightarrow> 'a" where
  "first_text conv dflt ts = (case ts of [] \<Rightarrow> dflt | t # _ \<Rightarrow> conv t)"

fun row_spec :: "'d xml_lib \<Rightarrow> 'd option \<Rightarrow> string \<Rightarrow> conf_kind \<Rightarrow> setting_val" where
  "row_spec L d xp (K_bool v) = S_Bool (first_text (ucast \<circ> atol) v (doc_texts L d xp) \<noteq> (0 :: u32))"
| "row_spec L d xp (K_int v) = S_Int (first_text (ucast \<circ> atol) v (doc_texts L d xp))"
| "row_spec L d xp K_str = S_Str (first_text c_str [] (doc_texts L d xp))"
| "row_spec L d xp K_strs = S_Strs (filter (\<lambda>b. b \<noteq> []) (map c_str (doc_texts L d xp)))"

section \<open>One loader\<close>

lemma or_default_first: "\<exists>xs. or_default True v (map f ts) = first_text f v ts # xs"
  by (cases ts) (simp_all add: or_default_def first_text_def)

lemma load_i32:
  assumes c: "cache_ok L F c"
  obtains c' where
    "GetConf_i32 L F (Some xp) True v c = Inr ((RC_OK, Some (first_text (ucast \<circ> atol) v (doc_texts L (cc_doc c) xp))), c')"
    "cache_ok L F c'" "same_source c c'"
proof -
  let ?ts = "doc_texts L (cc_doc c) xp"
  obtain c' where g: "group_i64 L F xp True (V_Num (N_l (scast v))) c = (or_default True (scast v) (map atol ?ts), c')"
    "cache_ok L F c'" "same_source c c'"
    using ints.group_cases [OF c, of xp True "V_Num (N_l (scast v))"] by (auto simp: val_i64_def)
  obtain xs where "or_default True v (map (ucast \<circ> atol) ?ts) = first_text (ucast \<circ> atol) v ?ts # xs"
    using or_default_first by metis
  then have "first_of True (map ucast (or_default True (scast v) (map atol ?ts))) =
      Inr (RC_OK, Some (first_text (ucast \<circ> atol) v ?ts))"
    by (simp add: or_default_map first_of_def)
  with g show thesis by (intro that [of c']) (simp_all add: GetConf_i32_def)
qed

lemma load_row_loads:
  assumes c: "cache_ok L F c" and h: "heap_ok h" and s: "s f = reset_val k"
  shows "\<exists>c' h'. load_row L F (f, xp, k) s c h = Inr (RC_OK, s(f := row_spec L (cc_doc c) xp k), c', h') \<and>
    cache_ok L F c' \<and> same_source c c' \<and> given_back h h'"
proof (cases k)
  case (K_bool v)
  obtain c' where "GetConf_i32 L F (Some xp) True v c =
      Inr ((RC_OK, Some (first_text (ucast \<circ> atol) v (doc_texts L (cc_doc c) xp))), c')" "cache_ok L F c'" "same_source c c'"
    using load_i32 [OF c] .
  with K_bool show ?thesis by (simp add: load_bool_def)
next
  case (K_int v)
  obtain c' where "GetConf_i32 L F (Some xp) True v c =
      Inr ((RC_OK, Some (first_text (ucast \<circ> atol) v (doc_texts L (cc_doc c) xp))), c')" "cache_ok L F c'" "same_source c c'"
    using load_i32 [OF c] .
  with K_int show ?thesis by (simp add: load_int_def)
next
  case K_str
  let ?ts = "doc_texts L (cc_doc c) xp" and ?r = "first_text c_str [] (doc_texts L (cc_doc c) xp)"
  have d: "c_str [0] = []" by (simp add: c_str_def)
  obtain ss where ss: "or_default True [] (map c_str ?ts) = ?r # ss" using or_default_first by metis
  obtain c' where g: "group_str L F xp True (str_default [0]) c = (?r # ss, c')" "cache_ok L F c'" "same_source c c'"
    using strs.group_cases [OF c, of xp True "str_default [0]"] ss d by auto
  have "0 \<notin> set ?r" by (cases ?ts) (simp_all add: first_text_def c_str_no_zero)
  moreover obtain h1 h2 where
    "GetConf_str L F (Some None) (Some xp) True (Some [0]) c h = Inr ((RC_OK, Some (Some (next_cell h))), c', h1)"
    "cells h1 (next_cell h) = Some (M_chars (str_cell ?r))"
    "ReleaseConf_str (Some (Some (next_cell h))) h1 = Inr (Some None, h2)" "given_back h h2"
    using get_string [OF h g(1)] .
  ultimately show ?thesis using K_str g(2,3) by (simp add: load_str_def str_cell_reads)
next
  case K_strs
  let ?ts = "doc_texts L (cc_doc c) xp"
  let ?r = "or_default True [] (map c_str ?ts)"
  have d: "c_str [0] = []" by (simp add: c_str_def)
  obtain c' where g: "group_str L F xp True (str_default [0]) c = (?r, c')" "cache_ok L F c'" "same_source c c'"
    using strs.group_cases [OF c, of xp True "str_default [0]"] d by auto
  have "?r \<noteq> []" "\<forall>s \<in> set ?r. 0 \<notin> set s"
    using or_default_empty [of True "[]" "map c_str ?ts"] or_default_strs [of True "[0]" ?ts] d by auto
  from get_strings [OF h this g(1)] obtain h1 h2 where
    "GetConf_strs L F (Some None) 0 (Some xp) True (Some [0]) c h = Inr ((RC_OK, Some (Some (next_cell h)), int (length ?r)), c', h1)"
    "read_val (Q_strs (Some [0])) h1 (Some (Some (next_cell h))) (int (length ?r)) = Inr (C_strs ?r)"
    "ReleaseConf_strs (Some (Some (next_cell h))) (int (length ?r)) h1 = Inr (Some None, h2)" "given_back h h2" .
  moreover have "append_strs ?r (s f) = row_spec L (cc_doc c) xp K_strs"
    using s K_strs by (auto simp: append_strs_def or_default_def)
  ultimately show ?thesis using K_strs g(2,3) by (simp add: load_strs_def)
qed

section \<open>All loaders\<close>

lemma reset_rows_other: "f \<notin> fst ` set rs \<Longrightarrow> reset_rows rs s f = s f"
  by (induction rs s rule: reset_rows.induct) auto

lemma reset_rows_val: "distinct (map fst rs) \<Longrightarrow> (f, xp, k) \<in> set rs \<Longrightarrow> reset_rows rs s f = reset_val k"
  by (induction rs s rule: reset_rows.induct) (auto simp: reset_rows_other image_iff)

lemma load_rows_loads:
  assumes "cache_ok L F c" "heap_ok h" "distinct (map fst rs)" "\<forall>(f, xp, k) \<in> set rs. s f = reset_val k"
  shows "\<exists>s' c' h'. load_rows L F rs s c h = Inr (RC_OK, s', c', h') \<and>
    (\<forall>(f, xp, k) \<in> set rs. s' f = row_spec L (cc_doc c) xp k) \<and> (\<forall>f. f \<notin> fst ` set rs \<longrightarrow> s' f = s f) \<and>
    cache_ok L F c' \<and> same_source c c' \<and> given_back h h'"
  using assms
proof (induction rs arbitrary: s c h)
  case (Cons r rs)
  obtain f xp k where r: "r = (f, xp, k)" by (cases r)
  let ?s = "s(f := row_spec L (cc_doc c) xp k)"
  from load_row_loads [OF Cons.prems(1,2), of s f k xp] Cons.prems(4) r obtain c1 h1 where
    1: "load_row L F r s c h = Inr (RC_OK, ?s, c1, h1)" "cache_ok L F c1" "same_source c c1" "given_back h h1"
    by auto
  have f: "f \<notin> fst ` set rs" using Cons.prems(3) r by auto
  then have init: "\<forall>(g, xp, k) \<in> set rs. ?s g = reset_val k" using Cons.prems(4) by force
  have "distinct (map fst rs)" using Cons.prems(3) by simp
  from Cons.IH [OF 1(2) given_back_ok [OF Cons.prems(2) 1(4)] this init] obtain s' c' h' where
    2: "load_rows L F rs ?s c1 h1 = Inr (RC_OK, s', c', h')" "\<forall>(g, xp, k) \<in> set rs. s' g = row_spec L (cc_doc c1) xp k"
    "\<forall>g. g \<notin> fst ` set rs \<longrightarrow> s' g = ?s g" "cache_ok L F c'" "same_source c1 c'" "given_back h1 h'"
    by blast
  have "s' f = row_spec L (cc_doc c) xp k" using 2(3) f by simp
  with 1 2 r given_back_trans [OF 1(4) 2(6)] show ?case
    by (intro exI [of _ s'] exI [of _ c'] exI [of _ h']) (auto simp: same_source_def)
qed (simp add: same_source_def)

lemmas rows_defs = rows_base_def rows_work_def rows_tcp_def rows_raw_def rows_proto_def rows_web_def rows_udp_def
  rows_peer_def all_rows_def

lemma all_rows_distinct: "distinct (map fst all_rows)"
  by (simp add: rows_defs)

lemma all_rows_complete: "\<exists>xp k. (f, xp, k) \<in> set all_rows"
  by (cases f) (auto simp: rows_defs)

text \<open>The form the proofs use: the value of the member of any row.\<close>

lemma conf_mgr_loads:
  assumes "cache_ok L F c" "heap_ok h"
  obtains s' c' h' where "conf_mgr_load L F s c h = Inr (RC_OK, s', c', h')" "same_source c c'" "given_back h h'"
    "\<forall>f xp k. (f, xp, k) \<in> set all_rows \<longrightarrow> s' f = row_spec L (cc_doc c) xp k"
proof -
  have "\<forall>(f, xp, k) \<in> set all_rows. reset_rows all_rows s f = reset_val k"
    using reset_rows_val [OF all_rows_distinct] by blast
  from load_rows_loads [OF assms all_rows_distinct this] obtain s' c' h' where
    "conf_mgr_load L F s c h = Inr (RC_OK, s', c', h')" "\<forall>(f, xp, k) \<in> set all_rows. s' f = row_spec L (cc_doc c) xp k"
    "same_source c c'" "given_back h h'"
    by (auto simp: conf_mgr_load_def)
  then show thesis using that by fast
qed

text \<open>
  Claim C26: loading the settings never fails, whatever the document holds and whatever was cached. Afterwards each of
  the 57 members, whatever it was before, has the value its XPath has in the document, or its default; every member is
  one that is loaded, and the memory of the configuration center is as before.
\<close>

theorem conf_mgr_loads_all:
  assumes "cache_ok L F c" "heap_ok h"
  shows "\<exists>s' c' h'. conf_mgr_load L F s c h = Inr (RC_OK, s', c', h') \<and> cells h' = cells h \<and> cc_doc c' = cc_doc c \<and>
    (\<forall>f. \<exists>xp k. (f, xp, k) \<in> set all_rows \<and> conf_getter f s' = row_spec L (cc_doc c) xp k)"
proof -
  from conf_mgr_loads [OF assms, where s = s] obtain s' c' h' where
    "conf_mgr_load L F s c h = Inr (RC_OK, s', c', h')" "same_source c c'" "given_back h h'"
    and s': "\<forall>f xp k. (f, xp, k) \<in> set all_rows \<longrightarrow> s' f = row_spec L (cc_doc c) xp k" .
  moreover have "\<exists>xp k. (f, xp, k) \<in> set all_rows \<and> s' f = row_spec L (cc_doc c) xp k" for f
    using all_rows_complete [of f] s' by blast
  ultimately show ?thesis by (auto simp: same_source_def given_back_def conf_getter_def)
qed

text \<open>A document that only gives the number of work threads.\<close>

definition sample_conf :: "unit xml_lib" where
  "sample_conf = \<lparr>xl_new_context = (\<lambda>d. d \<noteq> None),
     xl_eval = (\<lambda>d xp. if xp = ''/conf/work/thread_count'' then Some (Some [[Some [52]]]) else None), xl_root = (\<lambda>d. True)\<rparr>"

theorem conf_mgr_loads_all_witness:
  "\<exists>s' c' h'. conf_mgr_load sample_conf \<lparr>fo_atof = (\<lambda>s. 0), fo_narrow = ucast, fo_widen = ucast\<rparr> (\<lambda>_. S_Int 9)
      (cc_new\<lparr>cc_doc := Some ()\<rparr>) \<lparr>cells = Map.empty, next_cell = 0\<rparr> = Inr (RC_OK, s', c', h') \<and>
    s' WorkThreadCount = S_Int 4 \<and> cells h' = Map.empty"
proof -
  let ?F = "\<lparr>fo_atof = (\<lambda>s. 0), fo_narrow = ucast, fo_widen = ucast\<rparr>" and ?c = "cc_new\<lparr>cc_doc := Some ()\<rparr>"
  let ?h = "\<lparr>cells = Map.empty, next_cell = 0\<rparr>"
  have "cache_ok sample_conf ?F ?c" by (simp add: cache_ok_def cc_new_def)
  moreover have "heap_ok ?h" by (simp add: heap_ok_def)
  ultimately obtain s' c' h' where s: "conf_mgr_load sample_conf ?F (\<lambda>_. S_Int 9) ?c ?h = Inr (RC_OK, s', c', h')"
    "cells h' = Map.empty" "\<forall>f. \<exists>xp k. (f, xp, k) \<in> set all_rows \<and> conf_getter f s' = row_spec sample_conf (Some ()) xp k"
    using conf_mgr_loads_all [of sample_conf ?F ?c ?h "\<lambda>_. S_Int 9"] by auto
  have row: "(WorkThreadCount, xp, k) \<in> set all_rows \<Longrightarrow> xp = ''/conf/work/thread_count'' \<and> k = K_int 0" for xp k
    by (simp add: rows_defs)
  have "doc_texts sample_conf (Some ()) ''/conf/work/thread_count'' = [[52]]"
    by (simp add: doc_texts_def GetObjPtr_def sample_conf_def)
  moreover have "atol [52] = 4" by (simp add: atol_def strtol10_def is_space_def)
  ultimately have "row_spec sample_conf (Some ()) ''/conf/work/thread_count'' (K_int 0) = S_Int 4"
    by (simp add: first_text_def)
  with s row show ?thesis by (metis conf_getter_def)
qed

section \<open>A change of the file\<close>

text \<open>
  A file that does not parse when it changes: the running settings are not kept, every one falls back to its
  default, though the reload of the configuration center has failed.
\<close>

lemma unparsable_file_resets:
  assumes c: "cache_ok L F c" and h: "heap_ok h"
    and e: "conf_file_exist e (cc_path c)" "le_read e (the (cc_path c)) = None"
    and no_doc: "\<And>xp. GetObjPtr L None xp = None"
  shows "fst (conf_reload L e c) = RC_ERR \<and> (\<exists>s' c' h'. on_reload L F e True s c h = Inr (s', c', h') \<and>
    s' WorkThreadCount = S_Int 0 \<and> s' TCPStormInterval = S_Int 10 \<and> s' ProtoTCPAddr = S_Str [] \<and> s' WorkLogicSoGroup = S_Strs [])"
proof -
  let ?c = "snd (conf_reload L e c)"
  note l = conf_load_laws [OF c, of e "cc_path c", folded conf_reload_def]
  have d: "cc_doc ?c = None" using l(3) e by (simp add: load_doc_def)
  have none: "doc_texts L None xp = []" for xp by (simp add: doc_texts_def no_doc)
  from conf_mgr_loads [OF l(1) h, where s = s] obtain s' c' h' where
    m: "conf_mgr_load L F s ?c h = Inr (RC_OK, s', c', h')" "same_source ?c c'" "given_back h h'"
    and all: "\<forall>f xp k. (f, xp, k) \<in> set all_rows \<longrightarrow> s' f = row_spec L (cc_doc ?c) xp k" .
  note s' = all [unfolded d, rule_format]
  have "s' WorkThreadCount = S_Int 0" "s' TCPStormInterval = S_Int 10" "s' ProtoTCPAddr = S_Str []" "s' WorkLogicSoGroup = S_Strs []"
    using s' [of WorkThreadCount "''/conf/work/thread_count''" "K_int 0"] s' [of TCPStormInterval "''/conf/tcp/storm_interval''" "K_int 10"]
      s' [of ProtoTCPAddr "''/conf/tcp/proto/addr''" K_str] s' [of WorkLogicSoGroup "''/conf/work/logic_so_group/logic_so''" K_strs]
    by (simp_all add: rows_defs none first_text_def)
  moreover have "fst (conf_reload L e c) = RC_ERR" using l(4) e by (simp add: load_ok_def)
  ultimately show ?thesis using m by (simp add: on_reload_def service_reload_def)
qed

end
