(* ===== verification/Spec2Isabelle.thy ===== *)
theory Spec2Isabelle
  imports CC_Prelude Seq_Num Record_Timeout Timer_Axis Crc32_Equiv Proto_Codec Conn_Center Proto_Logic Proto_Stream Trans_Center Thread_Center Conn_IO Ws_Messages Web_Util Client_Stuck Client_Requests Web_Requests Work_Route App_Start Variant Multipart Http_Client Conf_Mgr
begin

text \<open>
  common_component is a framework of C++ server components: threads with an event loop each,
  that exchange tasks; TCP threads that accept connections, cut the received bytes into protocol
  messages or web requests and give them to business libraries; timers, transactions and
  a message codec that these threads share. This development models the parts that carry the
  framework's own logic, as shallow definitions that follow the source statement by statement, and
  proves what makes them correct. Where the code does not do what it means to, the theorem says so.

  \<^bold>\<open>Parts, theories and sources\<close> (paths under \<^verbatim>\<open>src/\<close>)

  \<^item> \<open>CC_Prelude\<close>: machine types (\<^verbatim>\<open>base/inc/data_types.h\<close>), return codes, network byte order,
    multimaps as lists sorted by key, hash iteration as some permutation.
  \<^item> \<open>Seq_Num\<close>: the allocator of ids, \<^verbatim>\<open>base/inc/seq_num.h\<close>. Connections and transactions take
    their ids from it.
  \<^item> \<open>Record_Timeout\<close>: records with a life time, \<^verbatim>\<open>timer_axis/inc/record_timeout_mgr.h\<close>. The idle
    check of connections, the watch over incomplete messages and the timeouts of transactions are
    instances of it.
  \<^item> \<open>Timer_Axis\<close>: timers of a thread, \<^verbatim>\<open>timer_axis/src/timer_axis.cpp\<close>.
  \<^item> \<open>Crc32_Tables\<close>, \<open>Crc32\<close>, \<open>Crc32_Equiv\<close>: the checksum, \<^verbatim>\<open>base/src/fast_crc32.cpp\<close>, with its
    tables, its sliced variants, and their equivalence with the bitwise definition.
  \<^item> \<open>Proto_Codec\<close>: messages, encoder, decoder and the dispatcher,
    \<^verbatim>\<open>proto_msg_codec/inc/\<close>.
  \<^item> \<open>Conn_Center\<close>: connection objects and the tables of a TCP thread, \<^verbatim>\<open>tcp_threads/src/conn_center.cpp\<close>,
    \<^verbatim>\<open>normal_conn.cpp\<close>, \<^verbatim>\<open>buffer_event_conn.cpp\<close>, and the connection handling of \<^verbatim>\<open>thread_sink.cpp\<close>.
  \<^item> \<open>Proto_Logic\<close>, \<open>Proto_Stream\<close>: the proto logic of a TCP thread and its scheduler,
    \<^verbatim>\<open>proto_tcp_threads/src/tcp_logic/\<close> with \<^verbatim>\<open>tcp_threads/src/scheduler.cpp\<close>; the first theory holds the
    definitions and what a handler's requests can change, the second the message stream.
  \<^item> \<open>Thread_Center\<close>: task queue, thread and thread group, \<^verbatim>\<open>thread_center/src/\<close>.
  \<^item> \<open>Conn_IO\<close>: the event callbacks of connections and the tasks of a TCP thread; here the connection
    center, the proto logic and the tasks of the thread center come together.
  \<^item> \<open>Trans_Center\<close>: transactions with peers, \<^verbatim>\<open>trans_center/src/\<close>.
  \<^item> \<open>Ws_Parser\<close>, \<open>Ws_Stream\<close>, \<open>Ws_Messages\<close>: WebSocket frames and messages of the web threads,
    \<^verbatim>\<open>web_threads/src/tcp_logic/websocket_parser.c\<close>, \<^verbatim>\<open>the_ws_parser.cpp\<close> and \<^verbatim>\<open>WebLogic::OnWSMsg\<close>.
  \<^item> \<open>Web_Util\<close>: URL encoding and the WebSocket handshake.
  \<^item> \<open>Web_Http\<close>, \<open>Web_Requests\<close>: HTTP requests of the web threads, \<^verbatim>\<open>the_http_parser.cpp\<close>,
    \<^verbatim>\<open>http_msg_dispatcher.cpp\<close>, \<^verbatim>\<open>web_logic.cpp\<close> and the attributes of \<^verbatim>\<open>mpart_body_processor.cpp\<close>. The library
    http_parser is a parameter: the callbacks it makes for a chunk. The second theory follows a request through it.
  \<^item> \<open>Multipart\<close>: multipart bodies, \<^verbatim>\<open>multipart_parser.c\<close>, with the callbacks of \<^verbatim>\<open>mpart_body_processor.cpp\<close>.
  \<^item> \<open>Client_Center\<close>, \<open>Client_Inv\<close>, \<open>Client_Stream\<close>, \<open>Client_Still\<close>, \<open>Client_Stuck\<close>, \<open>Client_Requests\<close>:
    clients of proto TCP servers, \<^verbatim>\<open>client_center_mgr/src/proto_tcp_client*.cpp\<close>: definitions, invariant, received
    stream, quiet callbacks, states without a way out, and requests with their responses.
  \<^item> \<open>Http_Client\<close>: clients of HTTP servers, \<^verbatim>\<open>client_center_mgr/src/http_client*.cpp\<close>, over the library evhttp as a
    parameter.
  \<^item> \<open>Work_Threads\<close>, \<open>Work_Route\<close>: the scheduler and the thread sink of the work threads, with those of the
    burden and global threads, \<^verbatim>\<open>work_threads/src/\<close>: messages between threads and to clients.
  \<^item> \<open>App_Frame\<close>, \<open>App_Start\<close>: the check of the configuration, creation, start, stop and exit of all thread
    groups, \<^verbatim>\<open>app_frame/src/app_frame.cpp\<close>, and the exit check of \<^verbatim>\<open>app_launcher.cpp\<close>.
  \<^item> \<open>Str_Util\<close>, \<open>Variant\<close>: strings, wildcards and rounded division (\<^verbatim>\<open>base/src/str_util.cpp\<close>,
    \<^verbatim>\<open>base/inc/num_util.h\<close>), and the tagged union of \<^verbatim>\<open>base/src/variant.cpp\<close> with the heap of its chunks.
  \<^item> \<open>Conf_Center\<close>, \<open>Conf_Mgr\<close>: the configuration, \<^verbatim>\<open>conf_center/src/conf_center.cpp\<close>, over libxml2 as a parameter, and
    the settings of the frame with their loaders, \<^verbatim>\<open>app_frame/src/conf_mgr.h\<close>. The section at the end of this theory
    gives the settings to the check of \<open>App_Frame\<close>.

  \<^bold>\<open>How the code is represented\<close>

  Objects are records with a field per member, named as in the source; several objects of a class
  are a map from addresses to records, and the use of a freed object is an error value, as are
  exceptions, reads outside a buffer and undefined iterators. \<^verbatim>\<open>int\<close> results are the code's 0
  and -1. Handlers of business libraries are functions from what they are told to what they ask
  for; the event library, the socket calls, OpenSSL and the clock are arguments. Bytes are 8-bit
  words; lengths of the wire format are 32-bit words; counters and times are integers. Hash
  containers are maps, and where the order of an iteration matters it is any permutation.

  \<^bold>\<open>What the lemmas show\<close>

  \<^item> Delivery: a stream of encoded messages is cut, checked and delivered once and in order, from
    the socket (\<open>Conn_IO\<close>) or from chunks (\<open>Proto_Stream\<close>), and the same for WebSocket messages
    (\<open>Ws_Messages\<close>), HTTP requests (\<open>Web_Requests\<close>), multipart bodies (\<open>Multipart\<close>), responses of servers
    (\<open>Client_Requests\<close>, \<open>Http_Client\<close>) and messages between threads (\<open>Work_Route\<close>); sent bytes leave in order (\<open>Conn_IO\<close>); tasks arrive in order, once, and every
    one of them is handled (\<open>Thread_Center\<close>); encoding and decoding are inverse (\<open>Proto_Codec\<close>, \<open>Web_Util\<close>).
  \<^item> Consistency: invariants of the tables of every component, preserved by all operations in any
    order, with no use of freed memory (\<open>Conn_Center\<close>, \<open>Conn_IO\<close>, \<open>Trans_Center\<close>, \<open>Timer_Axis\<close>, \<open>Seq_Num\<close>,
    \<open>Client_Inv\<close>, \<open>Http_Client\<close>, \<open>Web_Requests\<close>); variants that are well-typed and own their chunks (\<open>Variant\<close>).
  \<^item> Life of the process: a checked configuration starts, and the main loop ends when every thread can (\<open>App_Start\<close>);
    turns among threads are fair (\<open>Work_Route\<close>).
  \<^item> Configuration: the caches of the configuration center cannot be told from reading the document anew
    (\<open>Conf_Center\<close>), and a load gives every setting its value in the document or its default (\<open>Conf_Mgr\<close>).
  \<^item> Time: expiry checks find exactly what is due (\<open>Record_Timeout\<close>), and so do the idle check, the watch
    over incomplete messages and the timeouts of transactions built on it; timers fire as often as asked.
  \<^item> Equivalence: all variants of the checksum compute the same function (\<open>Crc32_Equiv\<close>); the record
    manager implements the map its documentation promises, except that an upsert keeps an old value (\<open>Record_Timeout\<close>);
    what the wildcard match computes for every pattern, and for which it is what is documented; replacement of
    substrings is the leftmost one where it is right (\<open>Str_Util\<close>).
  \<^item> Limits of the code: short reads, bad checksums, empty sends, stopping threads, interleaved
    control frames, late responses, TLS with a shared object, strings without default, objects that are closed from inside
    the callback about them and others, each a theorem on a state the code can be in.

  Interfaces are locales: \<open>id_allocator\<close> and \<open>timeout_store\<close> (ids and watched records as their users see them) are
  interpreted on the two classes, \<open>slicing\<close> on the checksums, \<open>fifo\<close> (a queue) on the task queue, \<open>ws_client\<close> (callbacks that do
  not care how a body is cut) on the callbacks of the web logic, \<open>value_cache\<close> (a cached group of values) on the three caches.

  \<^bold>\<open>Bounds\<close>

  Loops are recursive functions with a termination proof, wherever the code terminates. Two kinds
  do not: loops that wait for the outside (socket calls, rounds of an event loop) run over a list
  or a number of outcomes, and the theorems say how many are enough; and loops that the code can
  run for ever (the id search, the expiry check, the notification of a peer, the wildcard match, replacement) are partial
  functions, with theorems that they return in the states the code gets into, or that they do not. The recursion of
  closing connections from inside callbacks (\<open>on_client_closed\<close>, \<open>sink_closed\<close>) takes the number of levels as an
  argument: what the stack holds. One level is enough for logics that close no connection of their own thread when they
  are told that one was lost; for one that closes the lost connection itself no number is (\<open>self_close_overflows\<close>).

  \<^bold>\<open>Conditions of the properties\<close>

  What the business libraries do from inside callbacks is a parameter everywhere, and each property names the reactions
  it excludes: \<open>tame\<close> handlers do not close the connection a message came from, \<open>quiet\<close> logics close no connection of
  their own thread when told of a lost one, \<open>welcoming\<close> ones not the connection they are told is new (\<open>Proto_Logic\<close>);
  sinks of transactions may do anything to the tables in every callback but end and reuse the number of an expired one
  in the same expiry check (\<open>Trans_Center\<close>); sinks of clients may remove clients when told of a connection, and
  \<open>spares_peer\<close> are those that spare the one they are told about (\<open>Client_Inv\<close>). The web logics close connections from
  their message callbacks only (\<open>Web_Http\<close>). The limit of connections of a thread is read once, and setting the retry
  timer of a pipe always succeeds (\<open>Conn_Center\<close>, \<open>Thread_Center\<close>). The look-ahead of the prefetching checksum is
  computed without the wrap-around of \<^verbatim>\<open>size_t\<close>, which no buffer in memory reaches (\<open>Crc32\<close>).

  \<^bold>\<open>Not modelled\<close>

  Start-up, signals and watched files of the process (\<^verbatim>\<open>app_launcher\<close>), logging (over log4cplus), and the loading of
  libraries are sequences of system and library calls; the XML library and the conversion of floating point numbers
  are parameters. The UDP threads are dead code: \<^verbatim>\<open>app_frame\<close> has all uses of them commented out, and they
  need headers that are not in the repository. The callbacks of multipart bodies drop contents, and so does the model of
  an upload in \<open>Web_Http\<close>, which leaves the count of read bytes to a parameter. File, address and hash helpers of
  \<^verbatim>\<open>base\<close> wrap the standard library. Of TCP threads the setting up of sockets and event bases is left out. Threads run
  their own components only; what they share is the task queue, modelled as steps of its
  operations under its mutex.
\<close>

section \<open>From the configuration file to the threads\<close>

text \<open>The settings that \<^verbatim>\<open>AppFrame::LoadAndCheckConf\<close> asks for, as the frame's configuration.\<close>

definition int_setting :: "setting_val \<Rightarrow> int" where
  "int_setting v = (case v of S_Int x \<Rightarrow> sint x | _ \<Rightarrow> 0)"

definition str_setting :: "setting_val \<Rightarrow> string" where
  "str_setting v = (case v of S_Str b \<Rightarrow> map (\<lambda>x. char_of (unat x)) b | _ \<Rightarrow> [])"

definition size_setting :: "setting_val \<Rightarrow> nat" where
  "size_setting v = (case v of S_Strs ss \<Rightarrow> length ss | _ \<Rightarrow> 0)"

definition app_conf_of :: "settings \<Rightarrow> app_conf" where
  "app_conf_of s =
     \<lparr>cf_global_so = str_setting (conf_getter GlobalLogicSo s),
      cf_threads = (\<lambda>ty. case ty of
          THREAD_TYPE_TCP \<Rightarrow> int_setting (conf_getter RawTCPThreadCount s)
        | THREAD_TYPE_PROTO_TCP \<Rightarrow> int_setting (conf_getter ProtoTCPThreadCount s)
        | THREAD_TYPE_WEB_TCP \<Rightarrow> int_setting (conf_getter WebThreadCount s)
        | THREAD_TYPE_WORK \<Rightarrow> int_setting (conf_getter WorkThreadCount s)
        | THREAD_TYPE_BURDEN \<Rightarrow> int_setting (conf_getter BurdenThreadCount s)
        | _ \<Rightarrow> 0),
      cf_addr = (\<lambda>ty. case ty of
          THREAD_TYPE_TCP \<Rightarrow> str_setting (conf_getter RawTCPAddr s)
        | THREAD_TYPE_PROTO_TCP \<Rightarrow> str_setting (conf_getter ProtoTCPAddr s)
        | THREAD_TYPE_WEB_TCP \<Rightarrow> str_setting (conf_getter WebAddr s)
        | _ \<Rightarrow> []),
      cf_logics = (\<lambda>ty. case ty of
          THREAD_TYPE_TCP \<Rightarrow> size_setting (conf_getter RawTCPLogicSoGroup s)
        | THREAD_TYPE_PROTO_TCP \<Rightarrow> size_setting (conf_getter ProtoTCPLogicSoGroup s)
        | THREAD_TYPE_WEB_TCP \<Rightarrow> size_setting (conf_getter WebLogicSoGroup s)
        | THREAD_TYPE_WORK \<Rightarrow> size_setting (conf_getter WorkLogicSoGroup s)
        | THREAD_TYPE_BURDEN \<Rightarrow> size_setting (conf_getter BurdenLogicSoGroup s)
        | _ \<Rightarrow> 0)\<rparr>"

text \<open>
  \<^verbatim>\<open>LoadAndCheckConf\<close>: the settings are loaded, a failure ends the start, then they are checked; the number
  of threads to wait for is the result.
\<close>

definition load_and_check_conf ::
  "'d xml_lib \<Rightarrow> float_ops \<Rightarrow> settings \<Rightarrow> 'd conf_center \<Rightarrow> cheap \<Rightarrow> conf_fault + int option \<times> settings \<times> 'd conf_center \<times> cheap" where
  "load_and_check_conf L F s c h =
     (case conf_mgr_load L F s c h of
        Inl e \<Rightarrow> Inl e
      | Inr (rc, s', r) \<Rightarrow> Inr (if rc \<noteq> RC_OK then None else check_conf (app_conf_of s'), s', r))"

text \<open>
  Without an address for one of the three servers in the document the start is refused; the loading itself
  does not fail, so it is the check that refuses.
\<close>

lemma no_address_refused:
  assumes "cache_ok L F c" "heap_ok h"
    and none: "doc_texts L (cc_doc c) ''/conf/tcp/raw/addr'' = []" "doc_texts L (cc_doc c) ''/conf/tcp/proto/addr'' = []"
      "doc_texts L (cc_doc c) ''/conf/tcp/web/addr'' = []"
  shows "\<exists>s' c' h'. conf_mgr_load L F s c h = Inr (RC_OK, s', c', h') \<and>
    load_and_check_conf L F s c h = Inr (None, s', c', h')"
proof -
  from conf_mgr_loads [OF assms(1,2), where s = s] obtain s' c' h' where
    m: "conf_mgr_load L F s c h = Inr (RC_OK, s', c', h')" "same_source c c'" "given_back h h'"
    and all: "\<forall>f xp k. (f, xp, k) \<in> set all_rows \<longrightarrow> s' f = row_spec L (cc_doc c) xp k" .
  note s' = all [rule_format]
  have "s' RawTCPAddr = S_Str []" "s' ProtoTCPAddr = S_Str []" "s' WebAddr = S_Str []"
    using s' [of RawTCPAddr "''/conf/tcp/raw/addr''" K_str] s' [of ProtoTCPAddr "''/conf/tcp/proto/addr''" K_str]
      s' [of WebAddr "''/conf/tcp/web/addr''" K_str]
    by (simp_all add: rows_defs none first_text_def)
  then have a: "cf_addr (app_conf_of s') ty = []" for ty
    by (cases ty) (simp_all add: app_conf_of_def str_setting_def conf_getter_def)
  have "check_conf (app_conf_of s') = None"
    by (auto simp: check_conf_def a split: Option.bind_splits)
  with m show ?thesis by (simp add: load_and_check_conf_def)
qed

end
